(* ===== verification/VTPrelude.thy ===== *)
theory VTPrelude
  imports Main "HOL-Library.Word" "HOL-Library.Monad_Syntax" "HOL-Library.Char_ord"
begin

text \<open>
  Prelude of the VT7Pty development: the machine integer types of the C++ sources, the two
  kinds of failure (a failed \<open>ASSERT\<close> ends the process; an exception is a value that a caller
  may catch), \<open>checkedNarrow\<close>, and generic lemmas on lists, bytes and words that the component
  theories share.
\<close>

unbundle bit_operations_syntax

section \<open>Machine integers and bytes\<close>

text \<open>
  \<open>uint8_t\<close>, \<open>uint16_t\<close> (also \<open>WORD\<close> and \<open>wchar_t\<close>), \<open>uint32_t\<close> (also \<open>DWORD\<close>) and
  \<open>uint64_t\<close> keep their width. A C++ \<open>char\<close> is an Isabelle \<^typ>\<open>char\<close>, which is an 8-bit value,
  and a byte string is a \<^typ>\<open>string\<close>.
\<close>

type_synonym u8 = "8 word"
type_synonym u16 = "16 word"
type_synonym u32 = "32 word"
type_synonym u64 = "64 word"

abbreviation byte_of :: "char \<Rightarrow> u8" where
  "byte_of c \<equiv> of_char c"

definition char_of_byte :: "u8 \<Rightarrow> char" where
  "char_of_byte b = char_of (unat b)"

lemma byte_of_char_of_byte [simp]: "byte_of (char_of_byte b) = b"
proof -
  have "unat b < 256"
    using unsigned_less [where 'b = 8, where ?'a = nat, of b] by simp
  then have "(of_char (char_of (unat b)) :: nat) = unat b"
    by (simp only: of_char_of mod_less)
  then have "(of_nat (of_char (char_of (unat b))) :: u8) = of_nat (unat b)"
    by (simp only:)
  then have "byte_of (char_of (unat b)) = of_nat (unat b)"
    by (simp only: of_nat_of_char)
  then show ?thesis
    by (simp add: char_of_byte_def)
qed

lemma unat_byte_of: "unat (byte_of c) = of_char c"
proof -
  have "unat (of_nat (of_char c) :: u8) = of_char c"
    by (simp add: unat_of_nat)
  then show ?thesis by (simp only: of_nat_of_char)
qed

lemma byte_of_inject [simp]: "byte_of c = byte_of d \<longleftrightarrow> c = d"
proof
  assume "byte_of c = byte_of d"
  then have "(of_char c :: nat) = of_char d"
    by (metis unat_byte_of)
  then show "c = d" by (simp only: of_char_eq_iff)
qed simp

lemma char_of_byte_byte_of [simp]: "char_of_byte (byte_of c) = c"
  by (rule byte_of_inject [THEN iffD1]) simp

section \<open>Assertions and narrowing\<close>

text \<open>
  \<open>ASSERT(cond)\<close> (src/shared/Assert.h) ends the process when the condition is false: in the
  agent through \<open>agentShutdown\<close>, which does not return, elsewhere through \<open>abort\<close>. A model
  function that contains an assertion returns an \<^typ>\<open>'a option\<close>, with \<^term>\<open>None\<close> for
  the ended process.
\<close>

definition ASSERT :: "bool \<Rightarrow> unit option" where
  "ASSERT cond = (if cond then Some () else None)"

lemma ASSERT_simps [simp]:
  "ASSERT True = Some ()"
  "ASSERT False = None"
  "ASSERT c = Some u \<longleftrightarrow> c"
  "ASSERT c = None \<longleftrightarrow> \<not> c"
  by (auto simp: ASSERT_def)

lemma ASSERT_bind_Some: "Option.bind (ASSERT c) f = Some x \<longleftrightarrow> c \<and> f () = Some x"
  by (cases c) auto

lemma bind_eq_Some: "Option.bind m f = Some y \<longleftrightarrow> (\<exists>x. m = Some x \<and> f x = Some y)"
  by (cases m) auto

text \<open>
  The target type of \<open>checkedNarrow<To>\<close> is given by the range of its values. The comparison
  (\<open>std::in_range\<close>) is on the mathematical values, so it does not depend on the source type.
\<close>

type_synonym int_range = "int \<times> int"

definition SHORT_range :: int_range where "SHORT_range = (- 32768, 32767)"
definition int_range :: int_range where "int_range = (- 2147483648, 2147483647)"
definition WORD_range :: int_range where "WORD_range = (0, 65535)"
definition UCHAR_range :: int_range where "UCHAR_range = (0, 255)"
definition DWORD_range :: int_range where "DWORD_range = (0, 4294967295)"
definition SCHAR_range :: int_range where "SCHAR_range = (- 128, 127)"

lemmas range_defs =
  SHORT_range_def int_range_def WORD_range_def UCHAR_range_def DWORD_range_def SCHAR_range_def

definition isNarrowable :: "int_range \<Rightarrow> int \<Rightarrow> bool" where
  "isNarrowable r v \<longleftrightarrow> fst r \<le> v \<and> v \<le> snd r"

definition checkedNarrow :: "int_range \<Rightarrow> int \<Rightarrow> int option" where
  "checkedNarrow r v = do { ASSERT (isNarrowable r v); Some v }"

lemma checkedNarrow_eq: "checkedNarrow r v = (if isNarrowable r v then Some v else None)"
  by (simp add: checkedNarrow_def)

lemma checkedNarrow_Some [simp]: "checkedNarrow r v = Some w \<longleftrightarrow> isNarrowable r v \<and> w = v"
  by (auto simp: checkedNarrow_eq)

lemma checkedNarrow_None [simp]: "checkedNarrow r v = None \<longleftrightarrow> \<not> isNarrowable r v"
  by (simp add: checkedNarrow_eq)

lemma isNarrowable_simps [simp]:
  "isNarrowable SHORT_range v \<longleftrightarrow> - 32768 \<le> v \<and> v \<le> 32767"
  "isNarrowable int_range v \<longleftrightarrow> - 2147483648 \<le> v \<and> v \<le> 2147483647"
  "isNarrowable WORD_range v \<longleftrightarrow> 0 \<le> v \<and> v \<le> 65535"
  "isNarrowable UCHAR_range v \<longleftrightarrow> 0 \<le> v \<and> v \<le> 255"
  "isNarrowable DWORD_range v \<longleftrightarrow> 0 \<le> v \<and> v \<le> 4294967295"
  "isNarrowable SCHAR_range v \<longleftrightarrow> - 128 \<le> v \<and> v \<le> 127"
  by (simp_all add: isNarrowable_def range_defs)

section \<open>Loops and digits\<close>

text \<open>\<open>foreach f xs s\<close> is a loop over \<open>xs\<close> that threads the state \<open>s\<close> and may end the process.\<close>

fun foreach :: "('x \<Rightarrow> 's \<Rightarrow> 's option) \<Rightarrow> 'x list \<Rightarrow> 's \<Rightarrow> 's option" where
  "foreach f [] s = Some s"
| "foreach f (x # xs) s = do { s' \<leftarrow> f x s; foreach f xs s' }"

lemma foreach_append: "foreach f (xs @ ys) s = do { s' \<leftarrow> foreach f xs s; foreach f ys s' }"
  by (induction xs arbitrary: s) (auto split: bind_splits)

lemma foreach_fold:
  "(\<And>x s. x \<in> set xs \<Longrightarrow> f x s = Some (g x s)) \<Longrightarrow> foreach f xs s = Some (fold g xs s)"
  by (induction xs arbitrary: s) auto

text \<open>\<open>decimal n\<close> is the decimal numeral of \<open>n\<close>, what \<open>std::to_chars\<close> and \<open>printf\<close> produce.\<close>

definition digit_char :: "nat \<Rightarrow> char" where
  "digit_char d = char_of (48 + d)"

fun decimal :: "nat \<Rightarrow> string" where
  "decimal n = (if n < 10 then [digit_char n] else decimal (n div 10) @ [digit_char (n mod 10)])"

declare decimal.simps [simp del]

lemma decimal_not_Nil [simp]: "decimal n \<noteq> []"
  by (subst decimal.simps) simp

lemma of_char_digit_char: "d < 10 \<Longrightarrow> (of_char (digit_char d) :: nat) = 48 + d"
  by (simp add: digit_char_def of_char_of)

definition is_digit :: "char \<Rightarrow> bool" where
  "is_digit c \<longleftrightarrow> CHR ''0'' \<le> c \<and> c \<le> CHR ''9''"

definition digit_val :: "char \<Rightarrow> nat" where
  "digit_val c = of_char c - 48"

lemma is_digit_iff: "is_digit c \<longleftrightarrow> (48 :: nat) \<le> of_char c \<and> (of_char c :: nat) \<le> 57"
  by (simp add: is_digit_def less_eq_char_def)

lemma is_digit_digit_char [simp]: "d < 10 \<Longrightarrow> is_digit (digit_char d)"
  by (simp add: is_digit_iff of_char_digit_char)

lemma digit_val_digit_char [simp]: "d < 10 \<Longrightarrow> digit_val (digit_char d) = d"
  by (simp add: digit_val_def of_char_digit_char)

lemma decimal_digits: "c \<in> set (decimal n) \<Longrightarrow> is_digit c"
proof (induction n rule: decimal.induct)
  case (1 n)
  show ?case
  proof (cases "n < 10")
    case True
    then show ?thesis using 1(2) by (subst (asm) decimal.simps) simp
  next
    case False
    then have "c \<in> set (decimal (n div 10)) \<or> c = digit_char (n mod 10)"
      using 1(2) by (subst (asm) decimal.simps) auto
    then show ?thesis using 1(1) [OF False] by auto
  qed
qed

text \<open>The value of a digit string, most significant digit first.\<close>

definition digits_val :: "string \<Rightarrow> nat" where
  "digits_val s = foldl (\<lambda>a c. 10 * a + digit_val c) 0 s"

lemma digits_val_snoc [simp]: "digits_val (s @ [c]) = 10 * digits_val s + digit_val c"
  by (simp add: digits_val_def)

lemma digits_val_decimal [simp]: "digits_val (decimal n) = n"
proof (induction n rule: decimal.induct)
  case (1 n)
  then show ?case
    by (subst decimal.simps) (auto simp: digits_val_def)
qed

lemma decimal_inject [simp]: "decimal m = decimal n \<longleftrightarrow> m = n"
  by (metis digits_val_decimal)

lemma length_decimal_le3: "n < 1000 \<Longrightarrow> length (decimal n) \<le> 3"
  by (subst decimal.simps, subst decimal.simps, subst decimal.simps) auto

text \<open>Lower case hexadecimal numerals, the \<open>x\<close> of a format string, and its form with leading zeros.\<close>

fun hexDigit :: "nat \<Rightarrow> char" where
  "hexDigit n = char_of (if n < 10 then 48 + n else 87 + n)"

fun hexadecimal :: "nat \<Rightarrow> string" where
  "hexadecimal n = (if n < 16 then [hexDigit n] else hexadecimal (n div 16) @ [hexDigit (n mod 16)])"

declare hexadecimal.simps [simp del]

definition paddedHex :: "nat \<Rightarrow> nat \<Rightarrow> string" where
  "paddedHex w n = (let s = hexadecimal n in replicate (w - length s) CHR ''0'' @ s)"

section \<open>Exceptions\<close>

text \<open>
  Code that throws returns a sum: \<^term>\<open>Inl\<close> the exception, \<^term>\<open>Inr\<close> the result.
  \<open>bindR\<close> runs the rest of the function only when nothing was thrown.
\<close>

definition bindR :: "'e + 'a \<Rightarrow> ('a \<Rightarrow> 'e + 'b) \<Rightarrow> 'e + 'b" where
  "bindR m f = (case m of Inl e \<Rightarrow> Inl e | Inr x \<Rightarrow> f x)"

lemma bindR_simps [simp]:
  "bindR (Inl e) f = Inl e"
  "bindR (Inr x) f = f x"
  by (simp_all add: bindR_def)

lemma bindR_Inr: "bindR m f = Inr y \<longleftrightarrow> (\<exists>x. m = Inr x \<and> f x = Inr y)"
  by (cases m) auto

lemma bindR_Inl: "bindR m f = Inl e \<longleftrightarrow> m = Inl e \<or> (\<exists>x. m = Inr x \<and> f x = Inl e)"
  by (cases m) auto

definition throwUnless :: "'e \<Rightarrow> bool \<Rightarrow> 'e + unit" where
  "throwUnless e cond = (if cond then Inr () else Inl e)"

lemma throwUnless_simps [simp]:
  "throwUnless e True = Inr ()"
  "throwUnless e False = Inl e"
  "throwUnless e c = Inr u \<longleftrightarrow> c"
  "throwUnless e c = Inl e' \<longleftrightarrow> \<not> c \<and> e' = e"
  by (auto simp: throwUnless_def)

section \<open>Masks\<close>

text \<open>A condition \<open>(x AND m) = v\<close> of the sources fixes single bits of \<open>x\<close>.\<close>

lemma mask_eq_bit:
  fixes x m v :: "'a::len word"
  assumes "x AND m = v" and "bit m n"
  shows "bit x n = bit v n"
  using assms by (metis bit_and_iff)

lemma high_bits_unset:
  fixes w :: "'a::len word"
  assumes "unat w < 2 ^ k" and "k \<le> n"
  shows "\<not> bit w n"
proof -
  have "unat w < 2 ^ n"
    using assms by (meson order_less_le_trans power_increasing one_le_numeral)
  then have "\<not> bit (unat w) n"
    by (simp add: bit_iff_odd)
  then show ?thesis
    by (simp add: bit_unsigned_iff)
qed

text \<open>Equalities between words of a fixed width are decided bit by bit.\<close>

lemma u8_eq_iff_bits:
  "(w :: u8) = v \<longleftrightarrow>
     bit w 0 = bit v 0 \<and> bit w 1 = bit v 1 \<and> bit w 2 = bit v 2 \<and> bit w 3 = bit v 3 \<and>
     bit w 4 = bit v 4 \<and> bit w 5 = bit v 5 \<and> bit w 6 = bit v 6 \<and> bit w 7 = bit v 7"
proof -
  have "w = v \<longleftrightarrow> (\<forall>n<8. bit w n = bit v n)"
    by (auto intro: bit_word_eqI)
  then show ?thesis by (simp add: numeral_eq_Suc All_less_Suc conj_ac)
qed

lemma less32E:
  assumes "n < (32 :: nat)"
  shows
    "31 = n \<or> 30 = n \<or> 29 = n \<or> 28 = n \<or> 27 = n \<or> 26 = n \<or>
     25 = n \<or> 24 = n \<or> 23 = n \<or> 22 = n \<or> 21 = n \<or> 20 = n \<or>
     19 = n \<or> 18 = n \<or> 17 = n \<or> 16 = n \<or> 15 = n \<or> 14 = n \<or>
     13 = n \<or> 12 = n \<or> 11 = n \<or> 10 = n \<or> 9 = n \<or> 8 = n \<or>
     7 = n \<or> 6 = n \<or> 5 = n \<or> 4 = n \<or> 3 = n \<or> 2 = n \<or>
     1 = n \<or> 0 = n"
  using assms by presburger

lemma u32_eqI_bits:
  fixes w v :: u32
  assumes "\<And>n. n < 32 \<Longrightarrow> bit w n = bit v n"
  shows "w = v"
  by (rule bit_word_eqI) (use assms in simp)

lemmas word_nat_alt = word_less_nat_alt word_le_nat_alt

section \<open>Stores with keys\<close>

text \<open>
  What a client of a key-value store relies on: an update is a map update as long as the stored
  contents are acceptable. A table of insertions then behaves as a map in which the last entry
  of a key wins.
\<close>

locale keyed_store =
  fixes inv :: "'m \<Rightarrow> bool"
    and upd :: "'m \<Rightarrow> 'k \<Rightarrow> 'v \<Rightarrow> 'm"
    and look :: "'m \<Rightarrow> 'k \<Rightarrow> 'v option"
    and acceptable :: "'k \<Rightarrow> 'v \<Rightarrow> bool"
  assumes inv_upd: "inv m \<Longrightarrow> acceptable k v \<Longrightarrow> inv (upd m k v)"
    and look_upd: "inv m \<Longrightarrow> acceptable k v \<Longrightarrow> look (upd m k v) = (look m)(k \<mapsto> v)"
begin

definition upds :: "('k \<times> 'v) list \<Rightarrow> 'm \<Rightarrow> 'm" where
  "upds es m = fold (\<lambda>(k, v) m. upd m k v) es m"

lemma upds_correct:
  assumes "inv m" and "\<forall>(k, v) \<in> set es. acceptable k v"
  shows "inv (upds es m) \<and> look (upds es m) = look m ++ map_of (rev es)"
  using assms
proof (induction es arbitrary: m)
  case Nil
  then show ?case by (simp add: upds_def)
next
  case (Cons e es)
  obtain k v where e: "e = (k, v)" by fastforce
  have "inv (upd m k v)" using Cons.prems e by (simp add: inv_upd)
  then have "inv (upds es (upd m k v)) \<and>
      look (upds es (upd m k v)) = look (upd m k v) ++ map_of (rev es)"
    using Cons.prems by (intro Cons.IH) auto
  moreover have "look (upd m k v) ++ map_of (rev es) = look m ++ map_of (rev (e # es))"
    using Cons.prems e by (simp add: look_upd)
  ultimately show ?case by (simp add: upds_def e)
qed

lemma upds_Nil [simp]: "upds [] m = m"
  by (simp add: upds_def)

lemma upds_single: "upd m k v = upds [(k, v)] m"
  by (simp add: upds_def)

lemma upds_append: "upds fs (upds es m) = upds (es @ fs) m"
  by (simp add: upds_def)

lemma foreach_upds:
  "(\<And>x m. x \<in> set xs \<Longrightarrow> f x m = Some (upds (g x) m)) \<Longrightarrow>
   foreach f xs m = Some (upds (concat (map g xs)) m)"
  by (induction xs arbitrary: m) (simp_all add: upds_append)

end

end
