(* ===== verification/UnicodeEncoding.thy ===== *)
theory UnicodeEncoding
  imports VTPrelude
begin

text \<open>
  The UTF-8 and UTF-16 codecs of src/agent/UnicodeEncoding.h. An encoder that writes into a
  buffer and returns the number of units written is a function that returns the list of
  units (the empty list where the C++ returns 0); a decoder that returns
  \<open>static_cast<uint32_t>(-1)\<close> on an error returns the word \<open>- 1\<close>, named \<open>kInvalid\<close>.

  The lemmas: the two codecs are inverse to each other on Unicode scalar values, the decoder
  accepts nothing but encodings of scalar values (no overlong form, no surrogate), and
  \<open>utf8CharLength\<close> of the first byte is the length of the encoding.
\<close>

section \<open>The code\<close>

definition encodeUtf8 :: "u32 \<Rightarrow> u8 list" where
  "encodeUtf8 code =
    (if code < 0x80 then [ucast code]
     else if code < 0x800 then
       [ucast ((drop_bit 6 code AND 0x1F) OR 0xC0),
        ucast ((drop_bit 0 code AND 0x3F) OR 0x80)]
     else if code < 0x10000 then
       if code \<ge> 0xD800 \<and> code \<le> 0xDFFF then []
       else
         [ucast ((drop_bit 12 code AND 0x0F) OR 0xE0),
          ucast ((drop_bit 6 code AND 0x3F) OR 0x80),
          ucast ((drop_bit 0 code AND 0x3F) OR 0x80)]
     else if code < 0x110000 then
       [ucast ((drop_bit 18 code AND 0x07) OR 0xF0),
        ucast ((drop_bit 12 code AND 0x3F) OR 0x80),
        ucast ((drop_bit 6 code AND 0x3F) OR 0x80),
        ucast ((drop_bit 0 code AND 0x3F) OR 0x80)]
     else [])"

definition encodeUtf16 :: "u32 \<Rightarrow> u16 list" where
  "encodeUtf16 code =
    (if code < 0x10000 then
       if code \<ge> 0xD800 \<and> code \<le> 0xDFFF then []
       else [ucast code]
     else if code < 0x110000 then
       let code' = code - 0x10000
       in [ucast (0xD800 OR drop_bit 10 code'), ucast (0xDC00 OR (code' AND 0x3FF))]
     else [])"

definition utf8CharLength :: "u8 \<Rightarrow> nat" where
  "utf8CharLength firstByte =
    (if firstByte AND 0x80 = 0 then 1
     else if firstByte AND 0xE0 = 0xC0 then 2
     else if firstByte AND 0xF0 = 0xE0 then 3
     else if firstByte AND 0xF8 = 0xF0 then 4
     else 0)"

definition kInvalid :: u32 where
  "kInvalid = - 1"

text \<open>
  \<open>decodeUtf8\<close> reads as many bytes as the first one announces; its caller guarantees that
  they are there (\<open>The pointer must point to 1-4 bytes\<close>). On a shorter list, which the C++
  would read past, the model has no equation of the code and gives \<open>kInvalid\<close>.
\<close>

definition decode2 :: "u8 \<Rightarrow> u8 \<Rightarrow> u32" where
  "decode2 b0 b1 =
    (if b1 AND 0xC0 \<noteq> 0x80 then kInvalid
     else let tmp = push_bit 6 (ucast b0 AND 0x1F) OR (ucast b1 AND 0x3F)
          in if tmp \<le> 0x7F then kInvalid else tmp)"

definition decode3 :: "u8 \<Rightarrow> u8 \<Rightarrow> u8 \<Rightarrow> u32" where
  "decode3 b0 b1 b2 =
    (if b1 AND 0xC0 \<noteq> 0x80 \<or> b2 AND 0xC0 \<noteq> 0x80 then kInvalid
     else let tmp = push_bit 12 (ucast b0 AND 0x0F) OR push_bit 6 (ucast b1 AND 0x3F)
                    OR (ucast b2 AND 0x3F)
          in if tmp \<le> 0x07FF \<or> (tmp \<ge> 0xD800 \<and> tmp \<le> 0xDFFF) then kInvalid else tmp)"

definition decode4 :: "u8 \<Rightarrow> u8 \<Rightarrow> u8 \<Rightarrow> u8 \<Rightarrow> u32" where
  "decode4 b0 b1 b2 b3 =
    (if b1 AND 0xC0 \<noteq> 0x80 \<or> b2 AND 0xC0 \<noteq> 0x80 \<or> b3 AND 0xC0 \<noteq> 0x80 then kInvalid
     else let tmp = push_bit 18 (ucast b0 AND 0x07) OR push_bit 12 (ucast b1 AND 0x3F)
                    OR push_bit 6 (ucast b2 AND 0x3F) OR (ucast b3 AND 0x3F)
          in if tmp \<le> 0xFFFF \<or> tmp > 0x10FFFF then kInvalid else tmp)"

definition decodeUtf8 :: "u8 list \<Rightarrow> u32" where
  "decodeUtf8 inp =
    (case inp of
       [] \<Rightarrow> kInvalid
     | b0 # rest \<Rightarrow>
        (let len = utf8CharLength b0 in
         if len = 1 then ucast b0
         else if len = 2 then (case rest of b1 # _ \<Rightarrow> decode2 b0 b1 | _ \<Rightarrow> kInvalid)
         else if len = 3 then (case rest of b1 # b2 # _ \<Rightarrow> decode3 b0 b1 b2 | _ \<Rightarrow> kInvalid)
         else if len = 4 then
           (case rest of b1 # b2 # b3 # _ \<Rightarrow> decode4 b0 b1 b2 b3 | _ \<Rightarrow> kInvalid)
         else kInvalid))"

definition decodeSurrogatePair :: "u16 \<Rightarrow> u16 \<Rightarrow> u32" where
  "decodeSurrogatePair ch1 ch2 =
    push_bit 10 (ucast ch1 - 0xD800) + (ucast ch2 - 0xDC00) + 0x10000"

text \<open>The Unicode scalar values, the domain on which the codecs are inverse.\<close>

definition scalar_value :: "u32 \<Rightarrow> bool" where
  "scalar_value c \<longleftrightarrow> c < 0x110000 \<and> \<not> (c \<ge> 0xD800 \<and> c \<le> 0xDFFF)"

section \<open>The first byte\<close>

lemma byte_masks:
  fixes w :: u8
  shows "w AND 0x80 = 0 \<longleftrightarrow> \<not> bit w 7"
    and "w AND 0xE0 = 0xC0 \<longleftrightarrow> bit w 7 \<and> bit w 6 \<and> \<not> bit w 5"
    and "w AND 0xF0 = 0xE0 \<longleftrightarrow> bit w 7 \<and> bit w 6 \<and> bit w 5 \<and> \<not> bit w 4"
    and "w AND 0xF8 = 0xF0 \<longleftrightarrow> bit w 7 \<and> bit w 6 \<and> bit w 5 \<and> bit w 4 \<and> \<not> bit w 3"
    and "w AND 0xC0 = 0x80 \<longleftrightarrow> bit w 7 \<and> \<not> bit w 6"
  by (auto simp: u8_eq_iff_bits bit_simps)

lemma utf8CharLength_first:
  fixes c :: u32
  shows "\<not> bit c 7 \<Longrightarrow> utf8CharLength (ucast c) = 1"
    and "utf8CharLength (ucast ((drop_bit 6 c AND 0x1F) OR 0xC0)) = 2"
    and "utf8CharLength (ucast ((drop_bit 12 c AND 0x0F) OR 0xE0)) = 3"
    and "utf8CharLength (ucast ((drop_bit 18 c AND 0x07) OR 0xF0)) = 4"
  by (auto simp: utf8CharLength_def byte_masks bit_simps)

section \<open>Decoding an encoding\<close>

lemma bit_bound:
  fixes c :: u32
  assumes "unat c < 2 ^ m" and "m \<le> k"
  shows "\<not> bit c k"
  using assms by (rule high_bits_unset)

lemma bit_u8_high: "8 \<le> n \<Longrightarrow> \<not> bit (b :: u8) n"
  using bit_imp_le_length [of b n] by auto

lemma decode2_encode:
  assumes "c < 0x800" "\<not> c \<le> 0x7F"
  shows "decode2 (ucast ((drop_bit 6 c AND 0x1F) OR 0xC0))
                 (ucast ((drop_bit 0 c AND 0x3F) OR 0x80)) = c"
proof -
  have h: "11 \<le> k \<Longrightarrow> \<not> bit c k" for k
    using assms(1) by (intro bit_bound [of c 11 k]) (simp_all add: word_nat_alt)
  have "push_bit 6 (ucast (ucast ((drop_bit 6 c AND 0x1F) OR 0xC0) :: u8) AND 0x1F)
      OR (ucast (ucast ((drop_bit 0 c AND 0x3F) OR 0x80) :: u8) AND 0x3F) = c" (is "?l = c")
  proof (rule u32_eqI_bits)
    show "bit ?l n = bit c n" if "n < 32" for n
      using less32E [OF that] by (elim disjE; hypsubst; simp add: bit_simps h)
  qed
  then show ?thesis
    using assms(2) by (auto simp: decode2_def Let_def byte_masks bit_simps)
qed

lemma decode3_encode:
  assumes "c < 0x10000" "\<not> c \<le> 0x7FF" "\<not> (c \<ge> 0xD800 \<and> c \<le> 0xDFFF)"
  shows "decode3 (ucast ((drop_bit 12 c AND 0x0F) OR 0xE0))
                 (ucast ((drop_bit 6 c AND 0x3F) OR 0x80))
                 (ucast ((drop_bit 0 c AND 0x3F) OR 0x80)) = c"
proof -
  have h: "16 \<le> k \<Longrightarrow> \<not> bit c k" for k
    using assms(1) by (intro bit_bound [of c 16 k]) (simp_all add: word_nat_alt)
  have "push_bit 12 (ucast (ucast ((drop_bit 12 c AND 0x0F) OR 0xE0) :: u8) AND 0x0F)
      OR push_bit 6 (ucast (ucast ((drop_bit 6 c AND 0x3F) OR 0x80) :: u8) AND 0x3F)
      OR (ucast (ucast ((drop_bit 0 c AND 0x3F) OR 0x80) :: u8) AND 0x3F) = c" (is "?l = c")
  proof (rule u32_eqI_bits)
    show "bit ?l n = bit c n" if "n < 32" for n
      using less32E [OF that] by (elim disjE; hypsubst; simp add: bit_simps h)
  qed
  then show ?thesis
    using assms(2,3) by (auto simp: decode3_def Let_def byte_masks bit_simps)
qed

lemma decode4_encode:
  assumes "c < 0x110000" "\<not> c \<le> 0xFFFF"
  shows "decode4 (ucast ((drop_bit 18 c AND 0x07) OR 0xF0))
                 (ucast ((drop_bit 12 c AND 0x3F) OR 0x80))
                 (ucast ((drop_bit 6 c AND 0x3F) OR 0x80))
                 (ucast ((drop_bit 0 c AND 0x3F) OR 0x80)) = c"
proof -
  have "unat c < 2 ^ 21" using assms(1) by (simp add: word_nat_alt)
  then have h: "21 \<le> k \<Longrightarrow> \<not> bit c k" for k
    by (rule bit_bound)
  have "push_bit 18 (ucast (ucast ((drop_bit 18 c AND 0x07) OR 0xF0) :: u8) AND 0x07)
      OR push_bit 12 (ucast (ucast ((drop_bit 12 c AND 0x3F) OR 0x80) :: u8) AND 0x3F)
      OR push_bit 6 (ucast (ucast ((drop_bit 6 c AND 0x3F) OR 0x80) :: u8) AND 0x3F)
      OR (ucast (ucast ((drop_bit 0 c AND 0x3F) OR 0x80) :: u8) AND 0x3F) = c" (is "?l = c")
  proof (rule u32_eqI_bits)
    show "bit ?l n = bit c n" if "n < 32" for n
      using less32E [OF that] by (elim disjE; hypsubst; simp add: bit_simps h)
  qed
  moreover have "c \<le> 0x10FFFF" using assms(1) by (simp add: word_nat_alt)
  ultimately show ?thesis
    using assms(2) by (auto simp: decode4_def Let_def byte_masks bit_simps)
qed

section \<open>Encoding a decoded character\<close>

lemma encode_decode1:
  assumes "utf8CharLength b0 = 1"
  shows "encodeUtf8 (ucast b0) = [b0]"
proof -
  have b0: "\<not> bit b0 7" using assms by (auto simp: utf8CharLength_def byte_masks split: if_splits)
  have "(ucast b0 :: u32) = ucast b0 AND 0x7F"
  proof (rule u32_eqI_bits)
    show "bit (ucast b0 :: u32) n = bit (ucast b0 AND 0x7F :: u32) n" if "n < 32" for n
      using less32E [OF that] b0 by (elim disjE; hypsubst; simp add: bit_simps bit_u8_high)
  qed
  also have "\<dots> \<le> 0x7F" by (rule word_and_le1)
  finally show ?thesis
    by (auto simp: encodeUtf8_def word_nat_alt u8_eq_iff_bits bit_simps)
qed

lemma encode_decode2:
  assumes "decode2 b0 b1 \<noteq> kInvalid" "utf8CharLength b0 = 2"
  shows "encodeUtf8 (decode2 b0 b1) = [b0, b1]"
proof -
  define t :: u32 where "t = push_bit 6 (ucast b0 AND 0x1F) OR (ucast b1 AND 0x3F)"
  have b0: "bit b0 7" "bit b0 6" "\<not> bit b0 5" using assms(2)
    by (auto simp: utf8CharLength_def byte_masks split: if_splits)
  from assms(1) have b1: "bit b1 7" "\<not> bit b1 6" and c: "decode2 b0 b1 = t" and lo: "\<not> t \<le> 0x7F"
    by (auto simp: decode2_def byte_masks Let_def t_def split: if_splits)
  have "t = t AND 0x7FF"
  proof (rule u32_eqI_bits)
    show "bit t n = bit (t AND 0x7FF) n" if "n < 32" for n
      using less32E [OF that] by (elim disjE; hypsubst; simp add: bit_simps t_def)
  qed
  also have "\<dots> \<le> 0x7FF" by (rule word_and_le1)
  finally have hi: "t \<le> 0x7FF" .
  have "ucast ((drop_bit 6 t AND 0x1F) OR 0xC0) = b0" "ucast ((drop_bit 0 t AND 0x3F) OR 0x80) = b1"
    using b0 b1 by (auto simp: u8_eq_iff_bits bit_simps t_def)
  with lo hi show ?thesis
    unfolding c by (auto simp: encodeUtf8_def word_nat_alt)
qed

lemma encode_decode3:
  assumes "decode3 b0 b1 b2 \<noteq> kInvalid" "utf8CharLength b0 = 3"
  shows "encodeUtf8 (decode3 b0 b1 b2) = [b0, b1, b2]"
proof -
  define t :: u32 where
    "t = push_bit 12 (ucast b0 AND 0x0F) OR push_bit 6 (ucast b1 AND 0x3F) OR (ucast b2 AND 0x3F)"
  have b0: "bit b0 7" "bit b0 6" "bit b0 5" "\<not> bit b0 4" using assms(2)
    by (auto simp: utf8CharLength_def byte_masks split: if_splits)
  from assms(1) have b: "bit b1 7" "\<not> bit b1 6" "bit b2 7" "\<not> bit b2 6"
    and c: "decode3 b0 b1 b2 = t" and lo: "\<not> t \<le> 0x7FF" and ns: "\<not> (t \<ge> 0xD800 \<and> t \<le> 0xDFFF)"
    by (auto simp: decode3_def byte_masks Let_def t_def split: if_splits)
  have "t = t AND 0xFFFF"
  proof (rule u32_eqI_bits)
    show "bit t n = bit (t AND 0xFFFF) n" if "n < 32" for n
      using less32E [OF that] by (elim disjE; hypsubst; simp add: bit_simps t_def)
  qed
  also have "\<dots> \<le> 0xFFFF" by (rule word_and_le1)
  finally have hi: "t \<le> 0xFFFF" .
  have "ucast ((drop_bit 12 t AND 0x0F) OR 0xE0) = b0"
    "ucast ((drop_bit 6 t AND 0x3F) OR 0x80) = b1" "ucast ((drop_bit 0 t AND 0x3F) OR 0x80) = b2"
    using b0 b by (auto simp: u8_eq_iff_bits bit_simps t_def)
  with lo hi ns show ?thesis
    unfolding c by (auto simp: encodeUtf8_def word_nat_alt)
qed

lemma encode_decode4:
  assumes "decode4 b0 b1 b2 b3 \<noteq> kInvalid" "utf8CharLength b0 = 4"
  shows "encodeUtf8 (decode4 b0 b1 b2 b3) = [b0, b1, b2, b3]"
proof -
  define t :: u32 where
    "t = push_bit 18 (ucast b0 AND 0x07) OR push_bit 12 (ucast b1 AND 0x3F)
         OR push_bit 6 (ucast b2 AND 0x3F) OR (ucast b3 AND 0x3F)"
  have b0: "bit b0 7" "bit b0 6" "bit b0 5" "bit b0 4" "\<not> bit b0 3" using assms(2)
    by (auto simp: utf8CharLength_def byte_masks split: if_splits)
  from assms(1) have b: "bit b1 7" "\<not> bit b1 6" "bit b2 7" "\<not> bit b2 6" "bit b3 7" "\<not> bit b3 6"
    and c: "decode4 b0 b1 b2 b3 = t" and lo: "\<not> t \<le> 0xFFFF" and hi: "\<not> t > 0x10FFFF"
    by (auto simp: decode4_def byte_masks Let_def t_def split: if_splits)
  have "ucast ((drop_bit 18 t AND 0x07) OR 0xF0) = b0"
    "ucast ((drop_bit 12 t AND 0x3F) OR 0x80) = b1"
    "ucast ((drop_bit 6 t AND 0x3F) OR 0x80) = b2" "ucast ((drop_bit 0 t AND 0x3F) OR 0x80) = b3"
    using b0 b by (auto simp: u8_eq_iff_bits bit_simps t_def)
  with lo hi show ?thesis
    unfolding c by (auto simp: encodeUtf8_def word_nat_alt)
qed

section \<open>The codecs as a whole\<close>

lemma encodeUtf8_Nil_iff: "encodeUtf8 c = [] \<longleftrightarrow> \<not> scalar_value c"
  by (simp add: encodeUtf8_def scalar_value_def word_nat_alt)

lemma encodeUtf16_Nil_iff: "encodeUtf16 c = [] \<longleftrightarrow> \<not> scalar_value c"
  by (simp add: encodeUtf16_def scalar_value_def word_nat_alt Let_def)

lemma length_encodeUtf8: "length (encodeUtf8 c) \<le> 4"
  by (simp add: encodeUtf8_def)

lemma decodeUtf8_encodeUtf8_append:
  assumes "scalar_value c"
  shows "decodeUtf8 (encodeUtf8 c @ rest) = c"
proof (cases "c < 0x80")
  case True
  then have h: "7 \<le> k \<Longrightarrow> \<not> bit c k" for k
    by (intro bit_bound [of c 7 k]) (simp_all add: word_nat_alt)
  then have g: "bit c k \<Longrightarrow> k < 7" for k
    using not_le by blast
  have "(ucast (ucast c :: u8) :: u32) = c"
    by (rule u32_eqI_bits) (auto simp: bit_simps dest: g)
  with True show ?thesis
    by (simp add: encodeUtf8_def decodeUtf8_def utf8CharLength_first h)
next
  case False
  then show ?thesis
    using assms decode2_encode [of c] decode3_encode [of c] decode4_encode [of c]
    by (auto simp: encodeUtf8_def decodeUtf8_def utf8CharLength_first scalar_value_def not_less not_le
        word_nat_alt)
qed

lemma utf8CharLength_encodeUtf8:
  assumes "scalar_value c"
  shows "utf8CharLength (hd (encodeUtf8 c)) = length (encodeUtf8 c)"
  using assms bit_bound [of c 7 7]
  by (auto simp: encodeUtf8_def utf8CharLength_first scalar_value_def word_nat_alt)

lemma encodeUtf8_decodeUtf8:
  assumes "decodeUtf8 inp \<noteq> kInvalid"
  shows "\<exists>rest. inp = encodeUtf8 (decodeUtf8 inp) @ rest"
  using assms
  by (auto simp: decodeUtf8_def Let_def encode_decode1 encode_decode2 encode_decode3 encode_decode4
      split: list.splits if_splits)

lemma surrogate_bits:
  fixes d :: u32
  assumes "unat d < 2 ^ 20"
  shows "(ucast (ucast (0xD800 OR drop_bit 10 d) :: u16) :: u32) = 0xD800 + drop_bit 10 d"
    and "(ucast (ucast (0xDC00 OR (d AND 0x3FF)) :: u16) :: u32) = 0xDC00 + (d AND 0x3FF)"
proof -
  have h: "20 \<le> k \<Longrightarrow> \<not> bit d k" for k
    using assms by (rule bit_bound)
  have "(0xD800 :: u32) + drop_bit 10 d = 0xD800 OR drop_bit 10 d"
  proof (rule disjunctive_add)
    show "\<not> bit (0xD800 :: u32) n \<or> \<not> bit (drop_bit 10 d) n" for n
      using less32E [of n] bit_imp_le_length [of "drop_bit 10 d" n]
      by (cases "n < 32") (auto simp: bit_simps h)
  qed
  moreover have "(ucast (ucast (0xD800 OR drop_bit 10 d) :: u16) :: u32) = 0xD800 OR drop_bit 10 d"
  proof (rule u32_eqI_bits)
    show "bit (ucast (ucast (0xD800 OR drop_bit 10 d) :: u16) :: u32) n = bit (0xD800 OR drop_bit 10 d) n"
      if "n < 32" for n
      using less32E [OF that] by (elim disjE; hypsubst; simp add: bit_simps h)
  qed
  ultimately show "(ucast (ucast (0xD800 OR drop_bit 10 d) :: u16) :: u32) = 0xD800 + drop_bit 10 d"
    by simp
  have "(0xDC00 :: u32) + (d AND 0x3FF) = 0xDC00 OR (d AND 0x3FF)"
  proof (rule disjunctive_add)
    show "\<not> bit (0xDC00 :: u32) n \<or> \<not> bit (d AND 0x3FF) n" for n
      using less32E [of n] bit_imp_le_length [of d n]
      by (cases "n < 32") (auto simp: bit_simps)
  qed
  moreover have "(ucast (ucast (0xDC00 OR (d AND 0x3FF)) :: u16) :: u32) = 0xDC00 OR (d AND 0x3FF)"
  proof (rule u32_eqI_bits)
    show "bit (ucast (ucast (0xDC00 OR (d AND 0x3FF)) :: u16) :: u32) n = bit (0xDC00 OR (d AND 0x3FF)) n"
      if "n < 32" for n
      using less32E [OF that] by (elim disjE; hypsubst; simp add: bit_simps)
  qed
  ultimately show "(ucast (ucast (0xDC00 OR (d AND 0x3FF)) :: u16) :: u32) = 0xDC00 + (d AND 0x3FF)"
    by simp
qed

lemma decodeSurrogatePair_encodeUtf16:
  assumes "0x10000 \<le> c" "c < 0x110000" and "encodeUtf16 c = [ch1, ch2]"
  shows "decodeSurrogatePair ch1 ch2 = c"
proof -
  define d where "d = c - 0x10000"
  have "unat d = unat c - 0x10000"
    using assms(1) by (simp add: d_def unat_sub)
  then have d: "unat d < 2 ^ 20"
    using assms(1,2) by (simp add: word_nat_alt)
  from assms have "ch1 = ucast (0xD800 OR drop_bit 10 d)" "ch2 = ucast (0xDC00 OR (d AND 0x3FF))"
    by (auto simp: encodeUtf16_def Let_def d_def split: if_splits)
  then have "decodeSurrogatePair ch1 ch2 = push_bit 10 (drop_bit 10 d) + (d AND 0x3FF) + 0x10000"
    using surrogate_bits [OF d] by (simp add: decodeSurrogatePair_def)
  also have "d AND 0x3FF = take_bit 10 d"
    by (simp add: take_bit_eq_mask mask_eq_exp_minus_1)
  also have "push_bit 10 (drop_bit 10 d) + take_bit 10 d = d"
    by (rule bits_ident)
  finally show ?thesis by (simp add: d_def)
qed

lemma length_encodeUtf16:
  assumes "scalar_value c"
  shows "length (encodeUtf16 c) = (if c < 0x10000 then 1 else 2)"
  using assms by (auto simp: encodeUtf16_def Let_def scalar_value_def)

section \<open>Properties\<close>

text \<open>
  C39. UTF-8 round trip: the encoding of a Unicode scalar value decodes to that value, whatever
  bytes follow it in the buffer, and the first byte announces the length of the encoding.
\<close>

theorem utf8_roundtrip:
  assumes "scalar_value c"
  shows "decodeUtf8 (encodeUtf8 c @ rest) = c \<and>
    utf8CharLength (hd (encodeUtf8 c)) = length (encodeUtf8 c)"
  using decodeUtf8_encodeUtf8_append [OF assms] utf8CharLength_encodeUtf8 [OF assms] by simp

theorem utf8_roundtrip_witness:
  "decodeUtf8 (encodeUtf8 0x20AC @ [0x41]) = 0x20AC \<and>
   utf8CharLength (hd (encodeUtf8 0x20AC)) = length (encodeUtf8 0x20AC)"
  by (rule utf8_roundtrip) (simp add: scalar_value_def)

text \<open>
  The UTF-8 decoder is strict: what it accepts is a scalar value, and the bytes it read are
  the one encoding of that value, so overlong forms, surrogates and values above 0x10FFFF are
  rejected.
\<close>

lemma utf8_decode_strict:
  assumes "decodeUtf8 inp \<noteq> kInvalid"
  shows "scalar_value (decodeUtf8 inp) \<and>
    take (utf8CharLength (hd inp)) inp = encodeUtf8 (decodeUtf8 inp)"
proof -
  from encodeUtf8_decodeUtf8 [OF assms] obtain rest where
    rest: "inp = encodeUtf8 (decodeUtf8 inp) @ rest" by blast
  have ne: "encodeUtf8 (decodeUtf8 inp) \<noteq> []"
  proof
    assume n: "encodeUtf8 (decodeUtf8 inp) = []"
    show False
      using assms n encode_decode1 encode_decode2 encode_decode3 encode_decode4
      by (auto simp: decodeUtf8_def Let_def split: list.splits if_splits)
  qed
  then have sv: "scalar_value (decodeUtf8 inp)" by (simp add: encodeUtf8_Nil_iff)
  have "hd inp = hd (encodeUtf8 (decodeUtf8 inp))"
    using rest ne by (metis hd_append2)
  then show ?thesis
    using sv rest utf8CharLength_encodeUtf8 [OF sv] by (metis append_eq_conv_conj)
qed

text \<open>
  UTF-16 round trip: a scalar value takes one unit, or two units above the basic plane, and
  the surrogate pair decodes to it.
\<close>

lemma utf16_roundtrip:
  assumes "scalar_value c"
  shows "encodeUtf16 c = [ucast c] \<and> c < 0x10000 \<or>
    (\<exists>ch1 ch2. encodeUtf16 c = [ch1, ch2] \<and> decodeSurrogatePair ch1 ch2 = c)"
proof (cases "c < 0x10000")
  case True
  then show ?thesis using assms by (auto simp: encodeUtf16_def scalar_value_def)
next
  case False
  then have "length (encodeUtf16 c) = 2" using length_encodeUtf16 [OF assms] by simp
  then obtain ch1 ch2 where e: "encodeUtf16 c = [ch1, ch2]"
    by (auto simp: numeral_2_eq_2 length_Suc_conv)
  then have "decodeSurrogatePair ch1 ch2 = c"
    using False assms by (intro decodeSurrogatePair_encodeUtf16) (auto simp: scalar_value_def)
  with e show ?thesis by blast
qed

end
