(* ===== verification/InputMap.thy ===== *)
theory InputMap
  imports VTPrelude "HOL-Library.Sublist"
begin

text \<open>
  The map from terminal escape sequences to keys (src/agent/InputMap.h and InputMap.cc): a trie
  whose nodes hold up to eight children in a sorted array (\<open>Tiny\<close>) and more in a table of 256
  pointers (\<open>Branch\<close>). Nodes are allocated once from a pool and are reachable through one
  pointer only, so a node is a value here and writing through the reference that
  \<open>getOrCreateChild\<close> returns is \<open>putChild\<close>.

  The lemmas: every node keeps its representation invariant; a lookup after \<open>set\<close> is a map
  update (interpreted in the locale \<open>keyed_store\<close>, which gives last-write-wins for a table of
  insertions); \<open>lookupKey\<close> returns the longest match, and reports an incomplete match exactly
  when a longer encoding is in the map.
\<close>

section \<open>The code\<close>

record Key =
  virtualKey :: u16
  unicodeChar :: u32
  keyState :: u16

definition kKeyZero :: Key where
  "kKeyZero = \<lparr>virtualKey = 0, unicodeChar = 0, keyState = 0\<rparr>"

definition kTinyCount :: int where "kTinyCount = 8"

datatype Node = Node (key: Key) (childCount: int) (children: Children)
  and Children = Tiny "(char \<times> Node) list" | Branch "char \<Rightarrow> Node option"

definition newNode :: Node where
  "newNode = Node kKeyZero 0 (Tiny [])"

definition keyHasKey :: "Key \<Rightarrow> bool" where
  "keyHasKey k \<longleftrightarrow> virtualKey k \<noteq> 0 \<or> unicodeChar k \<noteq> 0"

definition hasKey :: "Node \<Rightarrow> bool" where
  "hasKey n \<longleftrightarrow> keyHasKey (key n)"

text \<open>
  The union of \<open>Node\<close> is read as \<open>tiny\<close> exactly when \<open>childCount\<close> is at most \<open>kTinyCount\<close>. That
  the stored alternative is the one read is part of the invariant below; reading the
  other one gives no child here.
\<close>

definition getChild :: "Node \<Rightarrow> char \<Rightarrow> Node option" where
  "getChild node ch =
    (if childCount node \<le> kTinyCount
     then (case children node of Tiny kvs \<Rightarrow> map_of kvs ch | Branch _ \<Rightarrow> None)
     else (case children node of Branch f \<Rightarrow> f ch | Tiny _ \<Rightarrow> None))"

fun insertTiny :: "char \<Rightarrow> Node \<Rightarrow> (char \<times> Node) list \<Rightarrow> (char \<times> Node) list" where
  "insertTiny ch n [] = [(ch, n)]"
| "insertTiny ch n ((c, m) # rest) =
    (if ch < c then (ch, n) # (c, m) # rest else (c, m) # insertTiny ch n rest)"

definition getOrCreateChild :: "Node \<Rightarrow> char \<Rightarrow> Node \<times> Node" where
  "getOrCreateChild node ch =
    (case getChild node ch of
       Some ret \<Rightarrow> (node, ret)
     | None \<Rightarrow>
        (if childCount node < kTinyCount then
           (case children node of
              Tiny kvs \<Rightarrow>
                (Node (key node) (childCount node + 1) (Tiny (insertTiny ch newNode kvs)), newNode)
            | Branch _ \<Rightarrow> (node, newNode))
         else
           (let f = (if childCount node = kTinyCount
                     then (case children node of Tiny kvs \<Rightarrow> map_of kvs | Branch _ \<Rightarrow> Map.empty)
                     else (case children node of Branch f \<Rightarrow> f | Tiny _ \<Rightarrow> Map.empty))
            in (Node (key node) (childCount node + 1) (Branch (f(ch \<mapsto> newNode))), newNode))))"

definition putChild :: "Node \<Rightarrow> char \<Rightarrow> Node \<Rightarrow> Node" where
  "putChild node ch m =
    Node (key node) (childCount node)
      (case children node of
         Tiny kvs \<Rightarrow> Tiny (map (\<lambda>(c, x). if c = ch then (c, m) else (c, x)) kvs)
       | Branch f \<Rightarrow> Branch (f(ch \<mapsto> m)))"

fun setHelper :: "Node \<Rightarrow> string \<Rightarrow> Key \<Rightarrow> Node" where
  "setHelper node [] k = Node k (childCount node) (children node)"
| "setHelper node (ch # encoding) k =
    (let (node', child) = getOrCreateChild node ch
     in putChild node' ch (setHelper child encoding k))"

definition set_key :: "Node \<Rightarrow> string \<Rightarrow> Key \<Rightarrow> Node option" where
  "set_key root encoding k =
    do { ASSERT (length encoding > 0); Some (setHelper root encoding k) }"

fun lookupLoop :: "Node \<Rightarrow> string \<Rightarrow> nat \<Rightarrow> nat \<Rightarrow> Key \<Rightarrow> nat \<times> Key \<times> bool" where
  "lookupLoop node [] i longestMatchLen longestMatch =
    (longestMatchLen, longestMatch, childCount node > 0)"
| "lookupLoop node (ch # input) i longestMatchLen longestMatch =
    (case getChild node ch of
       None \<Rightarrow> (longestMatchLen, longestMatch, False)
     | Some n \<Rightarrow>
        (if hasKey n then lookupLoop n input (i + 1) (i + 1) (key n)
         else lookupLoop n input (i + 1) longestMatchLen longestMatch))"

definition lookupKey :: "Node \<Rightarrow> string \<Rightarrow> nat \<times> Key \<times> bool" where
  "lookupKey root input = lookupLoop root input 0 0 kKeyZero"

section \<open>The representation invariant\<close>

definition node_ok :: "Node \<Rightarrow> bool" where
  "node_ok n =
    (case children n of
       Tiny kvs \<Rightarrow> childCount n = int (length kvs) \<and> length kvs \<le> 8 \<and>
         sorted_wrt (<) (map fst kvs)
     | Branch f \<Rightarrow> childCount n = int (card (dom f)) \<and> childCount n > 8)"

fun walk :: "Node \<Rightarrow> string \<Rightarrow> Node option" where
  "walk n [] = Some n"
| "walk n (c # cs) = (case getChild n c of None \<Rightarrow> None | Some m \<Rightarrow> walk m cs)"

text \<open>\<open>keyAt\<close> is the abstraction of the trie to a partial map.\<close>

definition keyAt :: "Node \<Rightarrow> string \<Rightarrow> Key option" where
  "keyAt n path =
    (case walk n path of Some m \<Rightarrow> if hasKey m then Some (key m) else None | None \<Rightarrow> None)"

definition all_ok :: "Node \<Rightarrow> bool" where
  "all_ok n \<longleftrightarrow> (\<forall>path m. walk n path = Some m \<longrightarrow> node_ok m)"

lemma all_ok_iff: "all_ok n \<longleftrightarrow> node_ok n \<and> (\<forall>c m. getChild n c = Some m \<longrightarrow> all_ok m)"
proof
  assume ok: "all_ok n"
  have "node_ok n" using ok by (auto simp: all_ok_def dest: spec [of _ "[]"])
  moreover have "node_ok m'" if "getChild n c = Some m" "walk m path = Some m'" for c m path m'
    using ok that unfolding all_ok_def by (metis (no_types, lifting) option.simps(5) walk.simps(2))
  ultimately show "node_ok n \<and> (\<forall>c m. getChild n c = Some m \<longrightarrow> all_ok m)"
    by (auto simp: all_ok_def)
next
  assume r: "node_ok n \<and> (\<forall>c m. getChild n c = Some m \<longrightarrow> all_ok m)"
  show "all_ok n"
    unfolding all_ok_def
  proof (intro allI impI)
    fix path m assume "walk n path = Some m"
    then show "node_ok m"
      using r by (cases path) (auto simp: all_ok_def split: option.splits)
  qed
qed

lemma getChild_newNode [simp]: "getChild newNode c = None"
  by (simp add: getChild_def newNode_def kTinyCount_def)

lemma node_ok_newNode [simp]: "node_ok newNode"
  by (simp add: node_ok_def newNode_def)

lemma all_ok_newNode [simp]: "all_ok newNode"
  by (subst all_ok_iff) simp

lemma hasKey_newNode [simp]: "\<not> hasKey newNode"
  by (simp add: hasKey_def keyHasKey_def newNode_def kKeyZero_def)

lemma getChild_ok:
  assumes "node_ok n"
  shows "getChild n =
    (case children n of Tiny kvs \<Rightarrow> map_of kvs | Branch f \<Rightarrow> f)"
  using assms by (auto simp: getChild_def node_ok_def kTinyCount_def fun_eq_iff split: Children.splits)

lemma insertTiny_split:
  "sorted_wrt (<) (map fst kvs) \<Longrightarrow> ch \<notin> fst ` set kvs \<Longrightarrow>
   sorted_wrt (<) (map fst (insertTiny ch n kvs)) \<and> length (insertTiny ch n kvs) = Suc (length kvs) \<and>
   fst ` set (insertTiny ch n kvs) = insert ch (fst ` set kvs) \<and>
   map_of (insertTiny ch n kvs) = (map_of kvs)(ch \<mapsto> n)"
  by (induction ch n kvs rule: insertTiny.induct) (auto simp: fun_eq_iff)

lemma card_dom_sorted:
  fixes kvs :: "('a :: linorder \<times> 'b) list"
  assumes "sorted_wrt (<) (map fst kvs)"
  shows "card (dom (map_of kvs)) = length kvs"
proof -
  have "distinct (map fst kvs)" using assms strict_sorted_iff by blast
  then have "card (set (map fst kvs)) = length kvs" by (metis distinct_card length_map)
  then show ?thesis by (simp add: dom_map_of_conv_image_fst)
qed

text \<open>\<open>getOrCreateChild\<close> adds at most the child it returns.\<close>

lemma getOrCreateChild_correct:
  assumes ok: "node_ok n" and g: "getOrCreateChild n ch = (n', child)"
  shows "node_ok n'" and "key n' = key n"
    and "child = (case getChild n ch of Some m \<Rightarrow> m | None \<Rightarrow> newNode)"
    and "getChild n' = (getChild n)(ch \<mapsto> child)"
proof -
  have main: "node_ok n' \<and> key n' = key n \<and>
    child = (case getChild n ch of Some m \<Rightarrow> m | None \<Rightarrow> newNode) \<and>
    getChild n' = (getChild n)(ch \<mapsto> child)"
  proof (cases "getChild n ch")
    case (Some m)
    then show ?thesis using g ok by (auto simp: getOrCreateChild_def fun_eq_iff)
  next
    case None
    show ?thesis
    proof (cases "children n")
      case (Tiny kvs)
      from ok Tiny have s: "sorted_wrt (<) (map fst kvs)" and c: "childCount n = int (length kvs)"
        and l: "length kvs \<le> 8"
        by (auto simp: node_ok_def)
      from None ok Tiny have m: "map_of kvs ch = None" by (simp add: getChild_ok)
      then have notin: "ch \<notin> fst ` set kvs" by (simp add: map_of_eq_None_iff)
      note ins = insertTiny_split [OF s notin, of newNode]
      show ?thesis
      proof (cases "length kvs < 8")
        case True
        have "node_ok n'" using g None Tiny c ins True
          by (auto simp: getOrCreateChild_def kTinyCount_def node_ok_def)
        then show ?thesis using g None Tiny c ins True ok
          by (auto simp: getOrCreateChild_def kTinyCount_def getChild_ok)
      next
        case False
        with l have "length kvs = 8" by simp
        moreover have "card (dom (map_of kvs)) = length kvs"
          by (rule card_dom_sorted [OF s])
        moreover have "card (insert ch (dom (map_of kvs))) = Suc (card (dom (map_of kvs)))"
          using m by (intro card_insert_disjoint) (auto simp: finite_dom_map_of)
        ultimately have "node_ok n'" using g None Tiny c
          by (auto simp: getOrCreateChild_def kTinyCount_def node_ok_def)
        then show ?thesis using g None Tiny c ok \<open>length kvs = 8\<close>
          by (auto simp: getOrCreateChild_def kTinyCount_def getChild_ok)
      qed
    next
      case (Branch f)
      from None ok Branch have f: "f ch = None" by (simp add: getChild_ok)
      have "card (insert ch (dom f)) = Suc (card (dom f))"
        using f by (intro card_insert_disjoint) (auto intro: finite_subset [OF subset_UNIV])
      then have "node_ok n'" using g None Branch ok
        by (auto simp: getOrCreateChild_def kTinyCount_def node_ok_def)
      then show ?thesis using g None Branch ok
        by (auto simp: getOrCreateChild_def kTinyCount_def getChild_ok node_ok_def)
    qed
  qed
  then show "node_ok n'" "key n' = key n"
    "child = (case getChild n ch of Some m \<Rightarrow> m | None \<Rightarrow> newNode)"
    "getChild n' = (getChild n)(ch \<mapsto> child)" by blast+
qed

lemma putChild_correct:
  assumes ok: "node_ok n" and g: "getChild n ch \<noteq> None"
  shows "node_ok (putChild n ch m)" and "key (putChild n ch m) = key n"
    and "getChild (putChild n ch m) = (getChild n)(ch \<mapsto> m)"
proof -
  have tiny: "map_of (map (\<lambda>(c, x). if c = ch then (c, m) else (c, x)) kvs) c =
      (if c = ch \<and> map_of kvs ch \<noteq> None then Some m else map_of kvs c)" for kvs c
    by (induction kvs) auto
  have fsts: "map fst (map (\<lambda>(c, x). if c = ch then (c, m) else (c, x)) kvs) = map fst kvs" for kvs
    by (induction kvs) auto
  have "node_ok (putChild n ch m)"
  proof (cases "children n")
    case (Tiny kvs)
    then show ?thesis using ok
      by (simp only: putChild_def node_ok_def Node.sel Children.case fsts length_map)
  next
    case (Branch f)
    then have "insert ch (dom f) = dom f" using g ok by (auto simp: getChild_ok)
    then show ?thesis using ok Branch by (simp add: putChild_def node_ok_def)
  qed
  then show "node_ok (putChild n ch m)" .
  then show "getChild (putChild n ch m) = (getChild n)(ch \<mapsto> m)"
    using ok g by (auto simp: getChild_ok putChild_def tiny fun_eq_iff split: Children.splits)
  show "key (putChild n ch m) = key n" by (simp add: putChild_def)
qed

section \<open>Insertion\<close>

abbreviation childOrNew :: "Node \<Rightarrow> char \<Rightarrow> Node" where
  "childOrNew n ch \<equiv> (case getChild n ch of Some m \<Rightarrow> m | None \<Rightarrow> newNode)"

lemma setHelper_Cons:
  assumes "node_ok n"
  shows "node_ok (setHelper n (ch # enc) k)" and "key (setHelper n (ch # enc) k) = key n"
    and "getChild (setHelper n (ch # enc) k) = (getChild n)(ch \<mapsto> setHelper (childOrNew n ch) enc k)"
proof -
  obtain n' c' where g: "getOrCreateChild n ch = (n', c')" by fastforce
  note G = getOrCreateChild_correct [OF assms(1) g]
  have c': "c' = childOrNew n ch" using G(3) .
  have some: "getChild n' ch \<noteq> None" using G(4) by simp
  have s: "setHelper n (ch # enc) k = putChild n' ch (setHelper (childOrNew n ch) enc k)"
    using g c' by simp
  show "node_ok (setHelper n (ch # enc) k)" unfolding s by (rule putChild_correct(1) [OF G(1) some])
  show "key (setHelper n (ch # enc) k) = key n" unfolding s
    using putChild_correct(2) [OF G(1) some] G(2) by simp
  show "getChild (setHelper n (ch # enc) k) = (getChild n)(ch \<mapsto> setHelper (childOrNew n ch) enc k)" unfolding s
    using putChild_correct(3) [OF G(1) some] G(4) by (simp add: fun_eq_iff)
qed

lemma getChild_setHelper_Nil [simp]: "getChild (setHelper n [] k) = getChild n"
  by (simp add: getChild_def fun_eq_iff)

lemma node_ok_setHelper_Nil [simp]: "node_ok (setHelper n [] k) = node_ok n"
  by (cases "children n") (simp_all add: node_ok_def)

lemma key_setHelper_Nil [simp]: "key (setHelper n [] k) = k"
  by simp

lemma all_ok_child: "all_ok n \<Longrightarrow> all_ok (childOrNew n c)"
  by (subst (asm) all_ok_iff) (auto split: option.splits)

lemma all_ok_node: "all_ok n \<Longrightarrow> node_ok n"
  by (subst (asm) all_ok_iff) simp

lemma all_ok_setHelper: "all_ok n \<Longrightarrow> all_ok (setHelper n enc k)"
proof (induction enc arbitrary: n)
  case Nil
  then show ?case
    by (subst all_ok_iff, subst (asm) all_ok_iff) (simp del: setHelper.simps)
next
  case (Cons ch enc)
  note H = setHelper_Cons [OF all_ok_node [OF Cons.prems], of ch enc k]
  show ?case
    using H(1) Cons.IH [OF all_ok_child [OF Cons.prems]] Cons.prems
    by (subst all_ok_iff) (auto simp: H(3) all_ok_iff [of n] simp del: setHelper.simps split: if_splits)
qed

lemma walk_newNode: "walk newNode p = (if p = [] then Some newNode else None)"
  by (cases p) auto

lemma keyAt_newNode [simp]: "keyAt newNode p = None"
  by (simp add: keyAt_def walk_newNode)

lemma keyAt_Cons:
  "keyAt n (c # p) = keyAt (childOrNew n c) p"
  by (cases "getChild n c") (auto simp: keyAt_def walk_newNode)

lemma keyAt_Nil: "keyAt n [] = (if hasKey n then Some (key n) else None)"
  by (simp add: keyAt_def)

lemma keyAt_setHelper:
  "all_ok n \<Longrightarrow> keyHasKey k \<Longrightarrow> keyAt (setHelper n enc k) = (keyAt n)(enc \<mapsto> k)"
proof (induction enc arbitrary: n)
  case Nil
  have "keyAt (setHelper n [] k) p = ((keyAt n)([] \<mapsto> k)) p" for p
    using Nil by (cases p) (auto simp: keyAt_Nil keyAt_Cons hasKey_def simp del: setHelper.simps)
  then show ?case by blast
next
  case (Cons ch enc)
  note H = setHelper_Cons [OF all_ok_node [OF Cons.prems(1)], of ch enc k]
  note IH = Cons.IH [OF all_ok_child [OF Cons.prems(1)] Cons.prems(2)]
  have "keyAt (setHelper n (ch # enc) k) p = ((keyAt n)(ch # enc \<mapsto> k)) p" for p
    by (cases p) (auto simp: keyAt_Nil keyAt_Cons hasKey_def H(2,3) IH simp del: setHelper.simps)
  then show ?case by blast
qed

lemma walk_setHelper:
  "all_ok n \<Longrightarrow> walk (setHelper n enc k) p \<noteq> None \<longleftrightarrow> walk n p \<noteq> None \<or> prefix p enc"
proof (induction enc arbitrary: n p)
  case Nil
  then show ?case by (cases p) (auto simp del: setHelper.simps)
next
  case (Cons ch enc)
  note H = setHelper_Cons [OF all_ok_node [OF Cons.prems(1)], of ch enc k]
  note IH = Cons.IH [OF all_ok_child [OF Cons.prems(1)]]
  show ?case
    by (cases p) (auto simp: H(3) IH walk_newNode simp del: setHelper.simps not_None_eq
        split: option.splits if_splits)
qed

section \<open>The map contract\<close>

text \<open>
  \<open>live\<close>: a node below the root exists only on the way to a key. It holds because \<open>set\<close> is the
  only operation that creates nodes and every key of the program has a nonzero field. The root
  itself has no key because \<open>set\<close> asserts a nonempty encoding.
\<close>

definition live :: "Node \<Rightarrow> bool" where
  "live n \<longleftrightarrow> (\<forall>p. p \<noteq> [] \<and> walk n p \<noteq> None \<longrightarrow> (\<exists>e. keyAt n (p @ e) \<noteq> None))"

definition map_inv :: "Node \<Rightarrow> bool" where
  "map_inv n \<longleftrightarrow> all_ok n \<and> live n \<and> keyAt n [] = None"

definition acceptable_entry :: "string \<Rightarrow> Key \<Rightarrow> bool" where
  "acceptable_entry enc k \<longleftrightarrow> enc \<noteq> [] \<and> keyHasKey k"

lemma map_inv_newNode [simp]: "map_inv newNode"
  by (simp add: map_inv_def live_def walk_newNode)

lemma liveD: "live n \<Longrightarrow> p \<noteq> [] \<Longrightarrow> walk n p \<noteq> None \<Longrightarrow> \<exists>e. keyAt n (p @ e) \<noteq> None"
  by (simp add: live_def)

lemma live_setHelper:
  assumes "live n" and "all_ok n" and "keyHasKey k"
  shows "live (setHelper n enc k)"
  unfolding live_def
proof (intro allI impI)
  fix p assume p: "p \<noteq> [] \<and> walk (setHelper n enc k) p \<noteq> None"
  then consider "walk n p \<noteq> None" | "prefix p enc"
    using walk_setHelper [OF assms(2), of enc k p] by blast
  then show "\<exists>e. keyAt (setHelper n enc k) (p @ e) \<noteq> None"
  proof cases
    case 1
    then obtain e where "keyAt n (p @ e) \<noteq> None" using liveD [OF assms(1)] p by blast
    then show ?thesis by (auto simp: keyAt_setHelper [OF assms(2,3)])
  next
    case 2
    then obtain e where "enc = p @ e" by (auto simp: prefix_def)
    then show ?thesis by (auto simp: keyAt_setHelper [OF assms(2,3)])
  qed
qed

lemma map_inv_setHelper:
  "map_inv n \<Longrightarrow> acceptable_entry enc k \<Longrightarrow> map_inv (setHelper n enc k)"
  by (auto simp: map_inv_def acceptable_entry_def all_ok_setHelper live_setHelper keyAt_setHelper)

interpretation imap: keyed_store map_inv setHelper keyAt acceptable_entry
  by unfold_locales
    (simp_all add: map_inv_setHelper, simp add: map_inv_def acceptable_entry_def keyAt_setHelper)

section \<open>Lookup\<close>

text \<open>
  What \<open>ConsoleInput\<close> relies on: \<open>lookup\<close> gives the longest prefix of the input that is a key
  of the map, and tells whether more input could give a longer one.
\<close>

locale longest_match =
  fixes inv :: "'m \<Rightarrow> bool"
    and look :: "'m \<Rightarrow> string \<Rightarrow> 'v option"
    and lookup :: "'m \<Rightarrow> string \<Rightarrow> nat \<times> 'v \<times> bool"
    and zero :: 'v
  assumes match: "inv m \<Longrightarrow> lookup m s = (n, k, inc) \<Longrightarrow> n \<le> length s \<and>
      (if n = 0 then k = zero else look m (take n s) = Some k) \<and>
      (\<forall>j. n < j \<and> j \<le> length s \<longrightarrow> look m (take j s) = None)"
    and incomplete: "inv m \<Longrightarrow> lookup m s = (n, k, inc) \<Longrightarrow>
      inc \<longleftrightarrow> (\<exists>t. t \<noteq> [] \<and> look m (s @ t) \<noteq> None)"
begin

lemma match_unique:
  assumes "inv m" and "lookup m s = (n, k, inc)" and "n' \<le> length s"
    and "if n' = 0 then k' = zero else look m (take n' s) = Some k'"
    and "\<forall>j. n' < j \<and> j \<le> length s \<longrightarrow> look m (take j s) = None"
  shows "n' = n \<and> k' = k"
proof -
  note M = match [OF assms(1,2)]
  have "n' = n"
  proof (rule ccontr)
    assume "n' \<noteq> n"
    then consider "n' < n" | "n < n'" by linarith
    then show False
      by cases (use M assms(3-5) in \<open>auto split: if_splits\<close>)
  qed
  then show ?thesis using M assms(4) by (auto split: if_splits)
qed

text \<open>An answer that is not marked incomplete does not change when more input arrives.\<close>

lemma complete_stable:
  assumes "inv m" and "lookup m s = (n, k, False)"
  shows "lookup m (s @ t) = (n, k, False)"
proof -
  obtain n' k' inc' where l: "lookup m (s @ t) = (n', k', inc')" by (metis prod_cases3)
  have none: "look m (s @ u) = None" if "u \<noteq> []" for u
    using incomplete [OF assms] that by auto
  note M = match [OF assms]
  have "look m (take j (s @ t)) = None" if "n < j" "j \<le> length (s @ t)" for j
  proof (cases "j \<le> length s")
    case True
    then show ?thesis using M that by simp
  next
    case False
    then have "take (j - length s) t \<noteq> []" using that by auto
    from none [OF this] show ?thesis using False by simp
  qed
  then have "n = n' \<and> k = k'"
    using M by (intro match_unique [OF assms(1) l]) (auto split: if_splits)
  moreover have "\<not> inc'"
    using incomplete [OF assms(1) l] none by auto
  ultimately show ?thesis using l by simp
qed

end

lemma lookupLoop_match:
  assumes "lookupLoop node inp i L K = (n, k, inc)"
  shows "(n = L \<and> k = K \<and> (\<forall>j. 0 < j \<and> j \<le> length inp \<longrightarrow> keyAt node (take j inp) = None)) \<or>
    (\<exists>m. 0 < m \<and> m \<le> length inp \<and> n = i + m \<and> keyAt node (take m inp) = Some k \<and>
      (\<forall>j. m < j \<and> j \<le> length inp \<longrightarrow> keyAt node (take j inp) = None))"
  using assms
proof (induction node inp i L K rule: lookupLoop.induct)
  case (1 node i L K)
  then show ?case by simp
next
  case (2 node ch inp i L K)
  have step: "keyAt node (take (Suc j) (ch # inp)) = keyAt (childOrNew node ch) (take j inp)" for j
    by (simp add: keyAt_Cons)
  show ?case
  proof (cases "getChild node ch")
    case None
    then have "keyAt node (take j (ch # inp)) = None" if "0 < j" for j
      using that by (cases j) (auto simp: keyAt_Cons)
    then show ?thesis using 2(3) None by auto
  next
    case (Some c)
    have nil: "keyAt node [ch] = (if hasKey c then Some (key c) else None)"
      using Some by (simp add: keyAt_Cons keyAt_Nil)
    have c1: "keyAt node (take j (ch # inp)) = keyAt c (take (j - 1) inp)" if "0 < j" for j
      using that Some by (cases j) (auto simp: keyAt_Cons)
    define L' K' where "L' = (if hasKey c then i + 1 else L)" and "K' = (if hasKey c then key c else K)"
    have "lookupLoop c inp (i + 1) L' K' = (n, k, inc)"
      using 2(3) Some by (simp add: L'_def K'_def split: if_splits)
    then have ih: "(n = L' \<and> k = K' \<and> (\<forall>j. 0 < j \<and> j \<le> length inp \<longrightarrow> keyAt c (take j inp) = None)) \<or>
      (\<exists>m. 0 < m \<and> m \<le> length inp \<and> n = i + 1 + m \<and> keyAt c (take m inp) = Some k \<and>
        (\<forall>j. m < j \<and> j \<le> length inp \<longrightarrow> keyAt c (take j inp) = None))"
      using 2(1) [OF Some] 2(2) [OF Some] by (cases "hasKey c") (auto simp: L'_def K'_def)
    then show ?thesis
    proof
      assume a: "n = L' \<and> k = K' \<and> (\<forall>j. 0 < j \<and> j \<le> length inp \<longrightarrow> keyAt c (take j inp) = None)"
      then have later: "keyAt node (take j (ch # inp)) = None" if "1 < j" "j \<le> Suc (length inp)" for j
        using that c1 [of j] by auto
      show ?thesis
      proof (cases "hasKey c")
        case True
        then have "0 < (1::nat) \<and> 1 \<le> length (ch # inp) \<and> n = i + 1 \<and>
          keyAt node (take 1 (ch # inp)) = Some k \<and>
          (\<forall>j. 1 < j \<and> j \<le> length (ch # inp) \<longrightarrow> keyAt node (take j (ch # inp)) = None)"
          using a later nil by (simp add: L'_def K'_def)
        then show ?thesis by blast
      next
        case False
        then have "keyAt node (take j (ch # inp)) = None" if "0 < j" "j \<le> length (ch # inp)" for j
          using that later [of j] nil by (cases "j = 1") auto
        then show ?thesis using a False by (simp add: L'_def K'_def)
      qed
    next
      assume "\<exists>m. 0 < m \<and> m \<le> length inp \<and> n = i + 1 + m \<and> keyAt c (take m inp) = Some k \<and>
        (\<forall>j. m < j \<and> j \<le> length inp \<longrightarrow> keyAt c (take j inp) = None)"
      then obtain m where m: "0 < m" "m \<le> length inp" "n = i + 1 + m" "keyAt c (take m inp) = Some k"
        "\<forall>j. m < j \<and> j \<le> length inp \<longrightarrow> keyAt c (take j inp) = None" by blast
      have "0 < Suc m \<and> Suc m \<le> length (ch # inp) \<and> n = i + Suc m \<and>
          keyAt node (take (Suc m) (ch # inp)) = Some k \<and>
          (\<forall>j. Suc m < j \<and> j \<le> length (ch # inp) \<longrightarrow> keyAt node (take j (ch # inp)) = None)"
        using m(1-4) m(5) [rule_format, of "_ - 1"] c1 by (auto simp: keyAt_Cons Some le_diff_conv)
      then show ?thesis by blast
    qed
  qed
qed

lemma lookupLoop_incomplete:
  "lookupLoop node inp i L K = (n, k, inc) \<Longrightarrow>
   inc = (case walk node inp of Some m \<Rightarrow> childCount m > 0 | None \<Rightarrow> False)"
  by (induction node inp i L K rule: lookupLoop.induct) (auto split: option.splits if_splits)

lemma childCount_pos:
  assumes "node_ok m"
  shows "childCount m > 0 \<longleftrightarrow> (\<exists>c. getChild m c \<noteq> None)"
proof (cases "children m")
  case (Tiny kvs)
  then show ?thesis using assms
    by (cases kvs) (auto simp: getChild_ok node_ok_def)
next
  case (Branch f)
  have "card (dom f) > 0 \<longleftrightarrow> dom f \<noteq> {}"
    by (simp add: card_gt_0_iff finite_subset [OF subset_UNIV])
  then show ?thesis using assms Branch by (auto simp: getChild_ok node_ok_def)
qed

lemma walk_append:
  "walk n (p @ q) = (case walk n p of Some m \<Rightarrow> walk m q | None \<Rightarrow> None)"
  by (induction p arbitrary: n) (auto split: option.splits)

lemma keyAt_walk: "keyAt n p \<noteq> None \<Longrightarrow> walk n p \<noteq> None"
  by (auto simp: keyAt_def split: option.splits)

lemma lookup_incomplete_iff:
  assumes "map_inv root"
  shows "(case walk root s of Some m \<Rightarrow> childCount m > 0 | None \<Rightarrow> False) \<longleftrightarrow>
    (\<exists>t. t \<noteq> [] \<and> keyAt root (s @ t) \<noteq> None)"
proof (cases "walk root s")
  case None
  then have "keyAt root (s @ t) = None" for t
    by (simp add: keyAt_def walk_append)
  then show ?thesis using None by simp
next
  case (Some m)
  then have ok: "node_ok m" using assms by (auto simp: map_inv_def all_ok_def)
  have "\<exists>t. t \<noteq> [] \<and> keyAt root (s @ t) \<noteq> None" if "getChild m c = Some d" for c d
  proof -
    have "walk root (s @ [c]) \<noteq> None" using Some that by (simp add: walk_append)
    moreover have "live root" using assms by (simp add: map_inv_def)
    ultimately obtain e where "keyAt root ((s @ [c]) @ e) \<noteq> None"
      using liveD [of root "s @ [c]"] by blast
    then show ?thesis by (intro exI [of _ "c # e"]) simp
  qed
  moreover have "\<exists>c. getChild m c \<noteq> None" if "t \<noteq> []" "keyAt root (s @ t) \<noteq> None" for t
    using that keyAt_walk [OF that(2)] Some
    by (cases t) (auto simp: walk_append split: option.splits)
  ultimately show ?thesis using Some childCount_pos [OF ok] by (metis not_None_eq option.simps(5))
qed

text \<open>The properties of \<open>lookupKey\<close> as one law per result.\<close>

lemma lookupKey_match:
  assumes "map_inv root" and "lookupKey root s = (n, k, inc)"
  shows "n \<le> length s \<and>
    (if n = 0 then k = kKeyZero else keyAt root (take n s) = Some k) \<and>
    (\<forall>j. n < j \<and> j \<le> length s \<longrightarrow> keyAt root (take j s) = None)"
  using lookupLoop_match [OF assms(2) [unfolded lookupKey_def]] by auto

lemma lookupKey_incomplete:
  assumes "map_inv root" and "lookupKey root s = (n, k, inc)"
  shows "inc \<longleftrightarrow> (\<exists>t. t \<noteq> [] \<and> keyAt root (s @ t) \<noteq> None)"
  using lookupLoop_incomplete [OF assms(2) [unfolded lookupKey_def]] lookup_incomplete_iff [OF assms(1)]
  by simp

interpretation ilook: longest_match map_inv keyAt lookupKey kKeyZero
  by unfold_locales (rule lookupKey_match, assumption+, rule lookupKey_incomplete, assumption+)

section \<open>Properties\<close>

definition sample_key :: "u16 \<Rightarrow> Key" where
  "sample_key vk = \<lparr>virtualKey = vk, unicodeChar = 0, keyState = 0\<rparr>"

definition sample_map :: Node where
  "sample_map = setHelper (setHelper newNode ''ab'' (sample_key 1)) ''abcd'' (sample_key 2)"

lemma sample_map_ok: "map_inv sample_map"
  "keyAt sample_map = [''ab'' \<mapsto> sample_key 1, ''abcd'' \<mapsto> sample_key 2]"
proof -
  have a: "acceptable_entry s (sample_key 1)" "acceptable_entry s (sample_key 2)" if "s \<noteq> []" for s
    using that by (simp_all add: acceptable_entry_def sample_key_def keyHasKey_def)
  note u = imap.inv_upd [of newNode "''ab''" "sample_key 1", OF map_inv_newNode a(1)]
  show "map_inv sample_map"
    using imap.inv_upd [OF u] a by (simp add: sample_map_def del: setHelper.simps)
  show "keyAt sample_map = [''ab'' \<mapsto> sample_key 1, ''abcd'' \<mapsto> sample_key 2]"
    using imap.look_upd [OF u] imap.look_upd [of newNode] a
    by (simp add: sample_map_def fun_eq_iff del: setHelper.simps)
qed

text \<open>
  C38. Inserting an encoding updates the map at exactly that encoding and keeps the
  representation invariant of every node, including when a node grows from the sorted array
  of eight children to the table of 256.
\<close>

theorem set_key_updates_map:
  assumes "map_inv root" and "keyHasKey k" and "set_key root encoding k = Some root'"
  shows "map_inv root' \<and> keyAt root' = (keyAt root)(encoding \<mapsto> k)"
proof -
  have "root' = setHelper root encoding k" "acceptable_entry encoding k"
    using assms(2,3) by (auto simp: set_key_def acceptable_entry_def ASSERT_def split: if_splits)
  then show ?thesis
    using imap.inv_upd [OF assms(1)] imap.look_upd [OF assms(1)] by simp
qed

theorem set_key_updates_map_witness:
  "\<exists>root'. set_key sample_map ''ax'' (sample_key 3) = Some root' \<and>
     map_inv root' \<and> keyAt root' = (keyAt sample_map)(''ax'' \<mapsto> sample_key 3)"
  using set_key_updates_map [of sample_map "sample_key 3" "''ax''"]
  by (simp add: sample_map_ok(1) set_key_def sample_key_def keyHasKey_def del: setHelper.simps)

text \<open>
  C19. \<open>lookupKey\<close> returns the longest prefix of the input that is in the map with its key
  (length 0 and the zero key when there is none), and reports \<open>incomplete\<close> exactly when the
  map holds an encoding that properly extends the whole input.
\<close>

theorem lookupKey_longest_match:
  assumes "map_inv root" and "lookupKey root inp = (n, k, incomplete)"
  shows "n \<le> length inp \<and>
    (if n = 0 then k = kKeyZero else keyAt root (take n inp) = Some k) \<and>
    (\<forall>j. n < j \<and> j \<le> length inp \<longrightarrow> keyAt root (take j inp) = None) \<and>
    (incomplete \<longleftrightarrow> (\<exists>t. t \<noteq> [] \<and> keyAt root (inp @ t) \<noteq> None))"
  using ilook.match [OF assms] ilook.incomplete [OF assms] by blast

theorem lookupKey_longest_match_witness:
  "lookupKey sample_map ''abc'' = (2, sample_key 1, True) \<and>
   keyAt sample_map (take 2 ''abc'') = Some (sample_key 1) \<and>
   (\<exists>t. t \<noteq> [] \<and> keyAt sample_map (''abc'' @ t) \<noteq> None)"
proof -
  have l: "lookupKey sample_map ''abc'' = (2, sample_key 1, True)"
    by (simp add: lookupKey_def sample_map_def getOrCreateChild_def getChild_def newNode_def kTinyCount_def
        putChild_def hasKey_def keyHasKey_def kKeyZero_def sample_key_def)
  show ?thesis
    using l lookupKey_longest_match [OF sample_map_ok(1) l] by (simp add: numeral_2_eq_2)
qed

end
