(* ===== verification/WinTypes.thy ===== *)
theory WinTypes
  imports VTPrelude
begin

text \<open>
  The constants and structures of the Windows SDK headers that the sources use
  (\<open>winuser.h\<close>, \<open>wincon.h\<close>), with their documented numeric values: virtual key codes, control
  key state bits, console mode bits and the input records that are written to the console.
\<close>

section \<open>Virtual keys\<close>

definition VK_BACK :: u16 where "VK_BACK = 0x08"
definition VK_TAB :: u16 where "VK_TAB = 0x09"
definition VK_CLEAR :: u16 where "VK_CLEAR = 0x0C"
definition VK_RETURN :: u16 where "VK_RETURN = 0x0D"
definition VK_SHIFT :: u16 where "VK_SHIFT = 0x10"
definition VK_CONTROL :: u16 where "VK_CONTROL = 0x11"
definition VK_MENU :: u16 where "VK_MENU = 0x12"
definition VK_ESCAPE :: u16 where "VK_ESCAPE = 0x1B"
definition VK_SPACE :: u16 where "VK_SPACE = 0x20"
definition VK_PRIOR :: u16 where "VK_PRIOR = 0x21"
definition VK_NEXT :: u16 where "VK_NEXT = 0x22"
definition VK_END :: u16 where "VK_END = 0x23"
definition VK_HOME :: u16 where "VK_HOME = 0x24"
definition VK_LEFT :: u16 where "VK_LEFT = 0x25"
definition VK_UP :: u16 where "VK_UP = 0x26"
definition VK_RIGHT :: u16 where "VK_RIGHT = 0x27"
definition VK_DOWN :: u16 where "VK_DOWN = 0x28"
definition VK_INSERT :: u16 where "VK_INSERT = 0x2D"
definition VK_DELETE :: u16 where "VK_DELETE = 0x2E"
definition VK_MULTIPLY :: u16 where "VK_MULTIPLY = 0x6A"
definition VK_ADD :: u16 where "VK_ADD = 0x6B"
definition VK_SUBTRACT :: u16 where "VK_SUBTRACT = 0x6D"
definition VK_DIVIDE :: u16 where "VK_DIVIDE = 0x6F"
definition VK_F1 :: u16 where "VK_F1 = 0x70"
definition VK_F2 :: u16 where "VK_F2 = 0x71"
definition VK_F3 :: u16 where "VK_F3 = 0x72"
definition VK_F4 :: u16 where "VK_F4 = 0x73"
definition VK_F5 :: u16 where "VK_F5 = 0x74"
definition VK_F6 :: u16 where "VK_F6 = 0x75"
definition VK_F7 :: u16 where "VK_F7 = 0x76"
definition VK_F8 :: u16 where "VK_F8 = 0x77"
definition VK_F9 :: u16 where "VK_F9 = 0x78"
definition VK_F10 :: u16 where "VK_F10 = 0x79"
definition VK_F11 :: u16 where "VK_F11 = 0x7A"
definition VK_F12 :: u16 where "VK_F12 = 0x7B"

lemmas VK_defs =
  VK_BACK_def VK_TAB_def VK_CLEAR_def VK_RETURN_def VK_SHIFT_def VK_CONTROL_def VK_MENU_def
  VK_ESCAPE_def VK_SPACE_def VK_PRIOR_def VK_NEXT_def VK_END_def VK_HOME_def VK_LEFT_def VK_UP_def
  VK_RIGHT_def VK_DOWN_def VK_INSERT_def VK_DELETE_def VK_MULTIPLY_def VK_ADD_def VK_SUBTRACT_def
  VK_DIVIDE_def VK_F1_def VK_F2_def VK_F3_def VK_F4_def VK_F5_def VK_F6_def VK_F7_def VK_F8_def
  VK_F9_def VK_F10_def VK_F11_def VK_F12_def

section \<open>Control key state\<close>

definition RIGHT_ALT_PRESSED :: u16 where "RIGHT_ALT_PRESSED = 0x0001"
definition LEFT_ALT_PRESSED :: u16 where "LEFT_ALT_PRESSED = 0x0002"
definition RIGHT_CTRL_PRESSED :: u16 where "RIGHT_CTRL_PRESSED = 0x0004"
definition LEFT_CTRL_PRESSED :: u16 where "LEFT_CTRL_PRESSED = 0x0008"
definition SHIFT_PRESSED :: u16 where "SHIFT_PRESSED = 0x0010"
definition ENHANCED_KEY :: u16 where "ENHANCED_KEY = 0x0100"

lemmas key_state_defs =
  RIGHT_ALT_PRESSED_def LEFT_ALT_PRESSED_def RIGHT_CTRL_PRESSED_def LEFT_CTRL_PRESSED_def
  SHIFT_PRESSED_def ENHANCED_KEY_def

section \<open>Console input modes and mouse events\<close>

definition ENABLE_PROCESSED_INPUT :: u32 where "ENABLE_PROCESSED_INPUT = 0x0001"
definition ENABLE_MOUSE_INPUT :: u32 where "ENABLE_MOUSE_INPUT = 0x0010"
definition ENABLE_INSERT_MODE :: u32 where "ENABLE_INSERT_MODE = 0x0020"
definition ENABLE_QUICK_EDIT_MODE :: u32 where "ENABLE_QUICK_EDIT_MODE = 0x0040"
definition ENABLE_EXTENDED_FLAGS :: u32 where "ENABLE_EXTENDED_FLAGS = 0x0080"

lemmas console_mode_defs =
  ENABLE_PROCESSED_INPUT_def ENABLE_MOUSE_INPUT_def ENABLE_INSERT_MODE_def
  ENABLE_QUICK_EDIT_MODE_def ENABLE_EXTENDED_FLAGS_def

definition FROM_LEFT_1ST_BUTTON_PRESSED :: u32 where "FROM_LEFT_1ST_BUTTON_PRESSED = 0x0001"
definition RIGHTMOST_BUTTON_PRESSED :: u32 where "RIGHTMOST_BUTTON_PRESSED = 0x0002"
definition FROM_LEFT_2ND_BUTTON_PRESSED :: u32 where "FROM_LEFT_2ND_BUTTON_PRESSED = 0x0004"
definition MOUSE_MOVED :: u32 where "MOUSE_MOVED = 0x0001"
definition DOUBLE_CLICK :: u32 where "DOUBLE_CLICK = 0x0002"
definition MOUSE_WHEELED :: u32 where "MOUSE_WHEELED = 0x0004"

lemmas mouse_defs =
  FROM_LEFT_1ST_BUTTON_PRESSED_def RIGHTMOST_BUTTON_PRESSED_def FROM_LEFT_2ND_BUTTON_PRESSED_def
  MOUSE_MOVED_def DOUBLE_CLICK_def MOUSE_WHEELED_def

section \<open>Input records\<close>

text \<open>\<open>KEY_EVENT_RECORD\<close>, \<open>MOUSE_EVENT_RECORD\<close> and the tagged union \<open>INPUT_RECORD\<close>.\<close>

record KeyEventRecord =
  bKeyDown :: bool
  wRepeatCount :: u16
  wVirtualKeyCode :: u16
  wVirtualScanCode :: u16
  UnicodeChar :: u16
  keyControlState :: u32

record MouseEventRecord =
  mousePosition :: "int \<times> int"
  dwButtonState :: u32
  mouseControlState :: u32
  dwEventFlags :: u32

datatype INPUT_RECORD = KeyEvent KeyEventRecord | MouseEvent MouseEventRecord

section \<open>Screen buffer cells\<close>

text \<open>\<open>CHAR_INFO\<close> (without padding, so that \<open>memcmp\<close> compares the two members), and its attribute bits.\<close>

record CHAR_INFO =
  Attributes :: u16
  cellChar :: u16

definition FOREGROUND_BLUE :: u16 where "FOREGROUND_BLUE = 0x0001"
definition FOREGROUND_GREEN :: u16 where "FOREGROUND_GREEN = 0x0002"
definition FOREGROUND_RED :: u16 where "FOREGROUND_RED = 0x0004"
definition FOREGROUND_INTENSITY :: u16 where "FOREGROUND_INTENSITY = 0x0008"
definition BACKGROUND_BLUE :: u16 where "BACKGROUND_BLUE = 0x0010"
definition BACKGROUND_GREEN :: u16 where "BACKGROUND_GREEN = 0x0020"
definition BACKGROUND_RED :: u16 where "BACKGROUND_RED = 0x0040"
definition BACKGROUND_INTENSITY :: u16 where "BACKGROUND_INTENSITY = 0x0080"
definition COMMON_LVB_LEADING_BYTE :: u16 where "COMMON_LVB_LEADING_BYTE = 0x0100"
definition COMMON_LVB_TRAILING_BYTE :: u16 where "COMMON_LVB_TRAILING_BYTE = 0x0200"
definition COMMON_LVB_REVERSE_VIDEO :: u16 where "COMMON_LVB_REVERSE_VIDEO = 0x4000"
definition COMMON_LVB_UNDERSCORE :: u16 where "COMMON_LVB_UNDERSCORE = 0x8000"

lemmas attribute_defs =
  FOREGROUND_BLUE_def FOREGROUND_GREEN_def FOREGROUND_RED_def FOREGROUND_INTENSITY_def
  BACKGROUND_BLUE_def BACKGROUND_GREEN_def BACKGROUND_RED_def BACKGROUND_INTENSITY_def
  COMMON_LVB_LEADING_BYTE_def COMMON_LVB_TRAILING_BYTE_def COMMON_LVB_REVERSE_VIDEO_def
  COMMON_LVB_UNDERSCORE_def

text \<open>\<open>std::vector::resize\<close> with the value of the new elements.\<close>

definition resize :: "nat \<Rightarrow> 'a \<Rightarrow> 'a list \<Rightarrow> 'a list" where
  "resize n x xs = take n xs @ replicate (n - length xs) x"

lemma length_resize [simp]: "length (resize n x xs) = n"
  by (auto simp: resize_def)

end
