(* ===== verification/DefaultInputMap.thy ===== *)
theory DefaultInputMap
  imports WinTypes InputMap
begin

text \<open>
  The escape sequences that the agent recognises by default (src/agent/DefaultInputMap.cc): the
  two tables of encodings, their expansion into the modifier and Alt-prefix variants, and the
  simple entries. Each expansion step writes the entry it has composed in the 32-byte buffer
  to the input map; the model threads the map through the steps and keeps the contents of the
  buffer before the write position as a string, so \<open>p <= bufferEnd - k\<close> bounds its length.

  The lemmas: the expansion is a table of insertions and none of its assertions fails; the
  encodings are pairwise distinct and none is a prefix of another, so \<open>lookupKey\<close> gives every
  entry back.
\<close>

section \<open>The tables\<close>

record EscapeEncoding =
  alt_prefix_allowed :: bool
  enc_prefix :: char
  enc_id :: char
  modifiers :: int
  enc_key :: Key

definition kBare :: int where "kBare = 0x01"
definition kSemiMod :: int where "kSemiMod = 0x02"
definition kBareMod :: int where "kBareMod = 0x04"
definition kSuffixCtrl :: int where "kSuffixCtrl = 0x08"
definition kSuffixShift :: int where "kSuffixShift = 0x10"
definition kSuffixBoth :: int where "kSuffixBoth = kSuffixCtrl OR kSuffixShift"

definition mk_encoding ::
    "bool \<Rightarrow> char \<Rightarrow> char \<Rightarrow> int \<Rightarrow> u16 \<Rightarrow> u32 \<Rightarrow> u16 \<Rightarrow> EscapeEncoding" where
  "mk_encoding alt p i mods vk ch st =
    \<lparr>alt_prefix_allowed = alt, enc_prefix = p, enc_id = i, modifiers = mods,
     enc_key = \<lparr>virtualKey = vk, unicodeChar = ch, keyState = st\<rparr>\<rparr>"

definition escapeLetterEncodings :: "EscapeEncoding list" where
  "escapeLetterEncodings = [
    mk_encoding True (CHR ''['') (CHR ''A'') (kBare OR kBareMod OR kSemiMod) VK_UP 0 0,
    mk_encoding True (CHR ''['') (CHR ''B'') (kBare OR kBareMod OR kSemiMod) VK_DOWN 0 0,
    mk_encoding True (CHR ''['') (CHR ''C'') (kBare OR kBareMod OR kSemiMod) VK_RIGHT 0 0,
    mk_encoding True (CHR ''['') (CHR ''D'') (kBare OR kBareMod OR kSemiMod) VK_LEFT 0 0,
    mk_encoding True (CHR ''O'') (CHR ''A'') (kBare) VK_UP 0 0,
    mk_encoding True (CHR ''O'') (CHR ''B'') (kBare) VK_DOWN 0 0,
    mk_encoding True (CHR ''O'') (CHR ''C'') (kBare) VK_RIGHT 0 0,
    mk_encoding True (CHR ''O'') (CHR ''D'') (kBare) VK_LEFT 0 0,
    mk_encoding True (CHR ''['') (CHR ''a'') (kBare) VK_UP 0 SHIFT_PRESSED,
    mk_encoding True (CHR ''['') (CHR ''b'') (kBare) VK_DOWN 0 SHIFT_PRESSED,
    mk_encoding True (CHR ''['') (CHR ''c'') (kBare) VK_RIGHT 0 SHIFT_PRESSED,
    mk_encoding True (CHR ''['') (CHR ''d'') (kBare) VK_LEFT 0 SHIFT_PRESSED,
    mk_encoding True (CHR ''O'') (CHR ''a'') (kBare) VK_UP 0 LEFT_CTRL_PRESSED,
    mk_encoding True (CHR ''O'') (CHR ''b'') (kBare) VK_DOWN 0 LEFT_CTRL_PRESSED,
    mk_encoding True (CHR ''O'') (CHR ''c'') (kBare) VK_RIGHT 0 LEFT_CTRL_PRESSED,
    mk_encoding True (CHR ''O'') (CHR ''d'') (kBare) VK_LEFT 0 LEFT_CTRL_PRESSED,
    mk_encoding True (CHR ''['') (CHR ''E'') (kBare OR kSemiMod) VK_CLEAR 0 0,
    mk_encoding True (CHR ''['') (CHR ''G'') (kBare OR kSemiMod) VK_CLEAR 0 0,
    mk_encoding True (CHR ''O'') (CHR ''G'') (kBare) VK_CLEAR 0 0,
    mk_encoding True (CHR ''['') (CHR ''H'') (kBare OR kBareMod OR kSemiMod) VK_HOME 0 0,
    mk_encoding True (CHR ''['') (CHR ''F'') (kBare OR kBareMod OR kSemiMod) VK_END 0 0,
    mk_encoding True (CHR ''O'') (CHR ''H'') (kBare) VK_HOME 0 0,
    mk_encoding True (CHR ''O'') (CHR ''F'') (kBare) VK_END 0 0,
    mk_encoding True (CHR ''['') (CHR ''P'') (kSemiMod) VK_F1 0 0,
    mk_encoding True (CHR ''['') (CHR ''Q'') (kSemiMod) VK_F2 0 0,
    mk_encoding True (CHR ''['') (CHR ''R'') (kSemiMod) VK_F3 0 0,
    mk_encoding True (CHR ''['') (CHR ''S'') (kSemiMod) VK_F4 0 0,
    mk_encoding False (CHR ''O'') (CHR ''P'') (kBare OR kBareMod OR kSemiMod) VK_F1 0 0,
    mk_encoding False (CHR ''O'') (CHR ''Q'') (kBare OR kBareMod OR kSemiMod) VK_F2 0 0,
    mk_encoding False (CHR ''O'') (CHR ''R'') (kBare OR kBareMod OR kSemiMod) VK_F3 0 0,
    mk_encoding False (CHR ''O'') (CHR ''S'') (kBare OR kBareMod OR kSemiMod) VK_F4 0 0,
    mk_encoding True (CHR ''O'') (CHR ''M'') (kBare OR kBareMod) VK_RETURN 0x0D 0,
    mk_encoding True (CHR ''O'') (CHR ''j'') (kBare OR kBareMod) VK_MULTIPLY 0x2A 0,
    mk_encoding True (CHR ''O'') (CHR ''k'') (kBare OR kBareMod) VK_ADD 0x2B 0,
    mk_encoding True (CHR ''O'') (CHR ''m'') (kBare OR kBareMod) VK_SUBTRACT 0x2D 0,
    mk_encoding True (CHR ''O'') (CHR ''n'') (kBare OR kBareMod) VK_DELETE 0 0,
    mk_encoding True (CHR ''O'') (CHR ''o'') (kBare OR kBareMod) VK_DIVIDE 0x2F 0,
    mk_encoding True (CHR ''O'') (CHR ''p'') (kBare OR kBareMod) VK_INSERT 0 0,
    mk_encoding True (CHR ''O'') (CHR ''q'') (kBare OR kBareMod) VK_END 0 0,
    mk_encoding True (CHR ''O'') (CHR ''r'') (kBare OR kBareMod) VK_DOWN 0 0,
    mk_encoding True (CHR ''O'') (CHR ''s'') (kBare OR kBareMod) VK_NEXT 0 0,
    mk_encoding True (CHR ''O'') (CHR ''t'') (kBare OR kBareMod) VK_LEFT 0 0,
    mk_encoding True (CHR ''O'') (CHR ''u'') (kBare OR kBareMod) VK_CLEAR 0 0,
    mk_encoding True (CHR ''O'') (CHR ''v'') (kBare OR kBareMod) VK_RIGHT 0 0,
    mk_encoding True (CHR ''O'') (CHR ''w'') (kBare OR kBareMod) VK_HOME 0 0,
    mk_encoding True (CHR ''O'') (CHR ''x'') (kBare OR kBareMod) VK_UP 0 0,
    mk_encoding True (CHR ''O'') (CHR ''y'') (kBare OR kBareMod) VK_PRIOR 0 0,
    mk_encoding True (CHR ''['') (CHR ''M'') (kBare OR kSemiMod) VK_RETURN 0x0D 0,
    mk_encoding True (CHR ''['') (CHR ''j'') (kBare OR kSemiMod) VK_MULTIPLY 0x2A 0,
    mk_encoding True (CHR ''['') (CHR ''k'') (kBare OR kSemiMod) VK_ADD 0x2B 0,
    mk_encoding True (CHR ''['') (CHR ''m'') (kBare OR kSemiMod) VK_SUBTRACT 0x2D 0,
    mk_encoding True (CHR ''['') (CHR ''n'') (kBare OR kSemiMod) VK_DELETE 0 0,
    mk_encoding True (CHR ''['') (CHR ''o'') (kBare OR kSemiMod) VK_DIVIDE 0x2F 0,
    mk_encoding True (CHR ''['') (CHR ''p'') (kBare OR kSemiMod) VK_INSERT 0 0,
    mk_encoding True (CHR ''['') (CHR ''q'') (kBare OR kSemiMod) VK_END 0 0,
    mk_encoding True (CHR ''['') (CHR ''r'') (kBare OR kSemiMod) VK_DOWN 0 0,
    mk_encoding True (CHR ''['') (CHR ''s'') (kBare OR kSemiMod) VK_NEXT 0 0,
    mk_encoding True (CHR ''['') (CHR ''t'') (kBare OR kSemiMod) VK_LEFT 0 0,
    mk_encoding True (CHR ''['') (CHR ''u'') (kBare OR kSemiMod) VK_CLEAR 0 0,
    mk_encoding True (CHR ''['') (CHR ''v'') (kBare OR kSemiMod) VK_RIGHT 0 0,
    mk_encoding True (CHR ''['') (CHR ''w'') (kBare OR kSemiMod) VK_HOME 0 0,
    mk_encoding True (CHR ''['') (CHR ''x'') (kBare OR kSemiMod) VK_UP 0 0,
    mk_encoding True (CHR ''['') (CHR ''y'') (kBare OR kSemiMod) VK_PRIOR 0 0,
    mk_encoding False (CHR ''['') (CHR ''Z'') (kBare) VK_TAB 0x09 SHIFT_PRESSED]"

definition escapeNumericEncodings :: "EscapeEncoding list" where
  "escapeNumericEncodings = [
    mk_encoding True (CHR ''['') (char_of (1 :: nat)) (kBare OR kSemiMod OR kSuffixBoth) VK_HOME 0 0,
    mk_encoding True (CHR ''['') (char_of (2 :: nat)) (kBare OR kSemiMod OR kSuffixBoth) VK_INSERT 0 0,
    mk_encoding True (CHR ''['') (char_of (3 :: nat)) (kBare OR kSemiMod OR kSuffixBoth) VK_DELETE 0 0,
    mk_encoding True (CHR ''['') (char_of (4 :: nat)) (kBare OR kSemiMod OR kSuffixBoth) VK_END 0 0,
    mk_encoding True (CHR ''['') (char_of (5 :: nat)) (kBare OR kSemiMod OR kSuffixBoth) VK_PRIOR 0 0,
    mk_encoding True (CHR ''['') (char_of (6 :: nat)) (kBare OR kSemiMod OR kSuffixBoth) VK_NEXT 0 0,
    mk_encoding True (CHR ''['') (char_of (7 :: nat)) (kBare OR kSemiMod OR kSuffixBoth) VK_HOME 0 0,
    mk_encoding True (CHR ''['') (char_of (8 :: nat)) (kBare OR kSemiMod OR kSuffixBoth) VK_END 0 0,
    mk_encoding True (CHR ''['') (char_of (11 :: nat)) (kBare OR kSemiMod OR kSuffixBoth) VK_F1 0 0,
    mk_encoding True (CHR ''['') (char_of (12 :: nat)) (kBare OR kSemiMod OR kSuffixBoth) VK_F2 0 0,
    mk_encoding True (CHR ''['') (char_of (13 :: nat)) (kBare OR kSemiMod OR kSuffixBoth) VK_F3 0 0,
    mk_encoding True (CHR ''['') (char_of (14 :: nat)) (kBare OR kSemiMod OR kSuffixBoth) VK_F4 0 0,
    mk_encoding True (CHR ''['') (char_of (15 :: nat)) (kBare OR kSemiMod OR kSuffixBoth) VK_F5 0 0,
    mk_encoding True (CHR ''['') (char_of (17 :: nat)) (kBare OR kSemiMod OR kSuffixBoth) VK_F6 0 0,
    mk_encoding True (CHR ''['') (char_of (18 :: nat)) (kBare OR kSemiMod OR kSuffixBoth) VK_F7 0 0,
    mk_encoding True (CHR ''['') (char_of (19 :: nat)) (kBare OR kSemiMod OR kSuffixBoth) VK_F8 0 0,
    mk_encoding True (CHR ''['') (char_of (20 :: nat)) (kBare OR kSemiMod OR kSuffixBoth) VK_F9 0 0,
    mk_encoding True (CHR ''['') (char_of (21 :: nat)) (kBare OR kSemiMod OR kSuffixBoth) VK_F10 0 0,
    mk_encoding True (CHR ''['') (char_of (23 :: nat)) (kBare OR kSemiMod OR kSuffixBoth) VK_F11 0 0,
    mk_encoding True (CHR ''['') (char_of (24 :: nat)) (kBare OR kSemiMod OR kSuffixBoth) VK_F12 0 0,
    mk_encoding True (CHR ''['') (char_of (25 :: nat)) (kBare OR kSemiMod OR kSuffixBoth) VK_F3 0 SHIFT_PRESSED,
    mk_encoding True (CHR ''['') (char_of (26 :: nat)) (kBare OR kSemiMod OR kSuffixBoth) VK_F4 0 SHIFT_PRESSED,
    mk_encoding True (CHR ''['') (char_of (28 :: nat)) (kBare OR kSemiMod OR kSuffixBoth) VK_F5 0 SHIFT_PRESSED,
    mk_encoding True (CHR ''['') (char_of (29 :: nat)) (kBare OR kSemiMod OR kSuffixBoth) VK_F6 0 SHIFT_PRESSED,
    mk_encoding True (CHR ''['') (char_of (31 :: nat)) (kBare OR kSemiMod OR kSuffixBoth) VK_F7 0 SHIFT_PRESSED,
    mk_encoding True (CHR ''['') (char_of (32 :: nat)) (kBare OR kSemiMod OR kSuffixBoth) VK_F8 0 SHIFT_PRESSED,
    mk_encoding True (CHR ''['') (char_of (33 :: nat)) (kBare OR kSemiMod OR kSuffixBoth) VK_F9 0 SHIFT_PRESSED,
    mk_encoding True (CHR ''['') (char_of (34 :: nat)) (kBare OR kSemiMod OR kSuffixBoth) VK_F10 0 SHIFT_PRESSED]"

definition ESC :: char where "ESC = CHR 0x1B"

definition simpleEncodings :: "(string \<times> Key) list" where
  "simpleEncodings =
    [([CHR 0x7F], \<lparr>virtualKey = VK_BACK, unicodeChar = 0x08, keyState = 0\<rparr>),
     ([ESC, CHR 0x7F], \<lparr>virtualKey = VK_BACK, unicodeChar = 0x08, keyState = LEFT_ALT_PRESSED\<rparr>),
     ([CHR 0x03], \<lparr>virtualKey = 0x43, unicodeChar = 0x03, keyState = LEFT_CTRL_PRESSED\<rparr>),
     (ESC # ''[[A'', \<lparr>virtualKey = VK_F1, unicodeChar = 0, keyState = 0\<rparr>),
     (ESC # ''[[B'', \<lparr>virtualKey = VK_F2, unicodeChar = 0, keyState = 0\<rparr>),
     (ESC # ''[[C'', \<lparr>virtualKey = VK_F3, unicodeChar = 0, keyState = 0\<rparr>),
     (ESC # ''[[D'', \<lparr>virtualKey = VK_F4, unicodeChar = 0, keyState = 0\<rparr>),
     (ESC # ''[[E'', \<lparr>virtualKey = VK_F5, unicodeChar = 0, keyState = 0\<rparr>),
     (ESC # ESC # ''[[A'', \<lparr>virtualKey = VK_F1, unicodeChar = 0, keyState = LEFT_ALT_PRESSED\<rparr>),
     (ESC # ESC # ''[[B'', \<lparr>virtualKey = VK_F2, unicodeChar = 0, keyState = LEFT_ALT_PRESSED\<rparr>),
     (ESC # ESC # ''[[C'', \<lparr>virtualKey = VK_F3, unicodeChar = 0, keyState = LEFT_ALT_PRESSED\<rparr>),
     (ESC # ESC # ''[[D'', \<lparr>virtualKey = VK_F4, unicodeChar = 0, keyState = LEFT_ALT_PRESSED\<rparr>),
     (ESC # ESC # ''[[E'', \<lparr>virtualKey = VK_F5, unicodeChar = 0, keyState = LEFT_ALT_PRESSED\<rparr>)]"

section \<open>The expansion\<close>

definition kCsiShiftModifier :: int where "kCsiShiftModifier = 1"
definition kCsiAltModifier :: int where "kCsiAltModifier = 2"
definition kCsiCtrlModifier :: int where "kCsiCtrlModifier = 4"

definition useEnhancedForVirtualKey :: "u16 \<Rightarrow> bool" where
  "useEnhancedForVirtualKey vk \<longleftrightarrow>
    vk \<in> {VK_UP, VK_DOWN, VK_LEFT, VK_RIGHT, VK_INSERT, VK_DELETE, VK_HOME, VK_END, VK_PRIOR, VK_NEXT}"

definition enhance :: "Key \<Rightarrow> Key" where
  "enhance k = (if useEnhancedForVirtualKey (virtualKey k)
                then k\<lparr>keyState := keyState k OR ENHANCED_KEY\<rparr> else k)"

definition addSimpleEntries :: "Node \<Rightarrow> Node option" where
  "addSimpleEntries = foreach (\<lambda>(encoding, k) inputMap.
     do { _ \<leftarrow> checkedNarrow int_range (int (length encoding));
          set_key inputMap encoding (enhance k) }) simpleEncodings"

definition bufferSize :: nat where "bufferSize = 32"

text \<open>\<open>room p k\<close> is \<open>p <= ctx.bufferEnd - k\<close>.\<close>

definition room :: "string \<Rightarrow> nat \<Rightarrow> bool" where
  "room p k \<longleftrightarrow> length p + k \<le> bufferSize"

definition encodingKey :: "EscapeEncoding \<Rightarrow> u16 \<Rightarrow> Key" where
  "encodingKey e extraKeyState =
    (let k = (enc_key e)\<lparr>keyState := keyState (enc_key e) OR extraKeyState\<rparr>;
         k = (if keyState k AND LEFT_CTRL_PRESSED \<noteq> 0 then
                (if virtualKey k \<in> {VK_ADD, VK_DIVIDE, VK_MULTIPLY, VK_SUBTRACT}
                 then k\<lparr>unicodeChar := 0\<rparr>
                 else if virtualKey k = VK_RETURN then k\<lparr>unicodeChar := 0x0A\<rparr> else k)
              else k)
     in enhance k)"

definition setEncoding :: "EscapeEncoding \<Rightarrow> string \<Rightarrow> u16 \<Rightarrow> Node \<Rightarrow> Node option" where
  "setEncoding e buf extraKeyState inputMap =
    do { _ \<leftarrow> checkedNarrow int_range (int (length buf));
         set_key inputMap buf (encodingKey e extraKeyState) }"

definition keyStateForMod :: "int \<Rightarrow> u16 option" where
  "keyStateForMod md =
    (let ret = (if (md - 1) AND kCsiShiftModifier \<noteq> 0 then uint SHIFT_PRESSED else 0)
           OR (if (md - 1) AND kCsiAltModifier \<noteq> 0 then uint LEFT_ALT_PRESSED else 0)
           OR (if (md - 1) AND kCsiCtrlModifier \<noteq> 0 then uint LEFT_CTRL_PRESSED else 0)
     in map_option word_of_int (checkedNarrow WORD_range ret))"

definition expandNumericEncodingSuffix ::
    "EscapeEncoding \<Rightarrow> string \<Rightarrow> u16 \<Rightarrow> Node \<Rightarrow> Node option" where
  "expandNumericEncodingSuffix e p extraKeyState m0 =
    do {
      ASSERT (room p 1);
      m1 \<leftarrow> setEncoding e (p @ ''~'') extraKeyState m0;
      m2 \<leftarrow> (if modifiers e AND kSuffixShift \<noteq> 0
            then setEncoding e (p @ ''$'') (extraKeyState OR SHIFT_PRESSED) m1 else Some m1);
      m3 \<leftarrow> (if modifiers e AND kSuffixCtrl \<noteq> 0
            then setEncoding e (p @ ''^'') (extraKeyState OR LEFT_CTRL_PRESSED) m2 else Some m2);
      (if modifiers e AND (kSuffixCtrl OR kSuffixShift) \<noteq> 0
       then setEncoding e (p @ ''@'') (extraKeyState OR SHIFT_PRESSED OR LEFT_CTRL_PRESSED) m3
       else Some m3) }"

text \<open>
  \<open>appendId\<close> writes the decimal numeral of the id (\<open>std::to_chars\<close> on a \<open>char\<close>) and asserts
  that it fitted; \<open>numeralChar\<close> is \<open>checkedNarrow<char>('0' + mod)\<close>.
\<close>

definition appendId :: "EscapeEncoding \<Rightarrow> string \<Rightarrow> string option" where
  "appendId e p =
    (let s = p @ decimal (of_char (enc_id e)) in do { ASSERT (length s \<le> bufferSize); Some s })"

definition numeralChar :: "int \<Rightarrow> char option" where
  "numeralChar md = map_option (\<lambda>i. char_of (nat i)) (checkedNarrow SCHAR_range (48 + md))"

definition expandBareMod :: "EscapeEncoding \<Rightarrow> string \<Rightarrow> u16 \<Rightarrow> int \<Rightarrow> Node \<Rightarrow> Node option" where
  "expandBareMod e q extraKeyState md m =
    do {
      ASSERT (room q 2);
      d \<leftarrow> numeralChar md;
      st \<leftarrow> keyStateForMod md;
      setEncoding e (q @ [d, enc_id e]) (extraKeyState OR st) m }"

definition expandSemiMod ::
    "bool \<Rightarrow> EscapeEncoding \<Rightarrow> string \<Rightarrow> u16 \<Rightarrow> int \<Rightarrow> Node \<Rightarrow> Node option" where
  "expandSemiMod is_numeric e q extraKeyState md m =
    (if is_numeric then
       do {
         q \<leftarrow> appendId e q;
         ASSERT (room q 2);
         d \<leftarrow> numeralChar md;
         st \<leftarrow> keyStateForMod md;
         expandNumericEncodingSuffix e (q @ [CHR '';'', d]) (extraKeyState OR st) m }
     else
       do {
         ASSERT (room q 4);
         d \<leftarrow> numeralChar md;
         st \<leftarrow> keyStateForMod md;
         setEncoding e (q @ [CHR ''1'', CHR '';'', d, enc_id e]) (extraKeyState OR st) m })"

definition expandEncodingAfterAltPrefix ::
    "bool \<Rightarrow> EscapeEncoding \<Rightarrow> string \<Rightarrow> u16 \<Rightarrow> Node \<Rightarrow> Node option" where
  "expandEncodingAfterAltPrefix is_numeric e p0 extraKeyState m0 =
    do {
      ASSERT (room p0 2);
      let p = p0 @ [ESC, enc_prefix e];
      m1 \<leftarrow> (if modifiers e AND kBare \<noteq> 0 then
              (if is_numeric then
                 do { q \<leftarrow> appendId e p; expandNumericEncodingSuffix e q extraKeyState m0 }
               else
                 do { ASSERT (room p 1); setEncoding e (p @ [enc_id e]) extraKeyState m0 })
            else Some m0);
      m2 \<leftarrow> (if modifiers e AND kBareMod \<noteq> 0 then
              do { ASSERT (\<not> is_numeric);
                   foreach (expandBareMod e p extraKeyState) [2..8] m1 }
            else Some m1);
      (if modifiers e AND kSemiMod \<noteq> 0 then
         foreach (expandSemiMod is_numeric e p extraKeyState) [2..8] m2
       else Some m2) }"

definition expandEncoding :: "bool \<Rightarrow> EscapeEncoding \<Rightarrow> Node \<Rightarrow> Node option" where
  "expandEncoding is_numeric e m =
    do {
      m \<leftarrow> (if alt_prefix_allowed e then
             do { ASSERT (room [] 1);
                  expandEncodingAfterAltPrefix is_numeric e [ESC] LEFT_ALT_PRESSED m }
           else Some m);
      expandEncodingAfterAltPrefix is_numeric e [] 0 m }"

definition addEscapes :: "bool \<Rightarrow> EscapeEncoding list \<Rightarrow> Node \<Rightarrow> Node option" where
  "addEscapes is_numeric encodings = foreach (expandEncoding is_numeric) encodings"

definition addDefaultEntriesToInputMap :: "Node \<Rightarrow> Node option" where
  "addDefaultEntriesToInputMap inputMap =
    do {
      m \<leftarrow> addEscapes False escapeLetterEncodings inputMap;
      m \<leftarrow> addEscapes True escapeNumericEncodings m;
      addSimpleEntries m }"

section \<open>The expansion as a table\<close>

definition modState :: "int \<Rightarrow> u16" where
  "modState md =
    (if (md - 1) AND 1 \<noteq> 0 then SHIFT_PRESSED else 0) OR
    (if (md - 1) AND 2 \<noteq> 0 then LEFT_ALT_PRESSED else 0) OR
    (if (md - 1) AND 4 \<noteq> 0 then LEFT_CTRL_PRESSED else 0)"

definition suffix_list :: "EscapeEncoding \<Rightarrow> string \<Rightarrow> u16 \<Rightarrow> (string \<times> u16) list" where
  "suffix_list e p x =
    [(p @ ''~'', x)] @
    (if modifiers e AND kSuffixShift \<noteq> 0 then [(p @ ''$'', x OR SHIFT_PRESSED)] else []) @
    (if modifiers e AND kSuffixCtrl \<noteq> 0 then [(p @ ''^'', x OR LEFT_CTRL_PRESSED)] else []) @
    (if modifiers e AND (kSuffixCtrl OR kSuffixShift) \<noteq> 0
     then [(p @ ''@'', x OR SHIFT_PRESSED OR LEFT_CTRL_PRESSED)] else [])"

definition id_text :: "bool \<Rightarrow> EscapeEncoding \<Rightarrow> string" where
  "id_text is_numeric e = (if is_numeric then decimal (of_char (enc_id e)) else [enc_id e])"

definition semi_list :: "bool \<Rightarrow> EscapeEncoding \<Rightarrow> string \<Rightarrow> u16 \<Rightarrow> int \<Rightarrow> (string \<times> u16) list" where
  "semi_list is_numeric e p x md =
    (if is_numeric
     then suffix_list e (p @ id_text True e @ [CHR '';'', digit_char (nat md)]) (x OR modState md)
     else [(p @ [CHR ''1'', CHR '';'', digit_char (nat md), enc_id e], x OR modState md)])"

definition after_list :: "bool \<Rightarrow> EscapeEncoding \<Rightarrow> string \<Rightarrow> u16 \<Rightarrow> (string \<times> u16) list" where
  "after_list is_numeric e p0 x =
    (let p = p0 @ [ESC, enc_prefix e] in
     (if modifiers e AND kBare \<noteq> 0
      then (if is_numeric then suffix_list e (p @ id_text True e) x else [(p @ [enc_id e], x)])
      else []) @
     (if modifiers e AND kBareMod \<noteq> 0
      then concat (map (\<lambda>md. [(p @ [digit_char (nat md), enc_id e], x OR modState md)]) [2..8])
      else []) @
     (if modifiers e AND kSemiMod \<noteq> 0
      then concat (map (semi_list is_numeric e p x) [2..8]) else []))"

definition encoding_list :: "bool \<Rightarrow> EscapeEncoding \<Rightarrow> (string \<times> u16) list" where
  "encoding_list is_numeric e =
    (if alt_prefix_allowed e then after_list is_numeric e [ESC] LEFT_ALT_PRESSED else []) @
    after_list is_numeric e [] 0"

definition with_keys :: "EscapeEncoding \<Rightarrow> (string \<times> u16) list \<Rightarrow> (string \<times> Key) list" where
  "with_keys e = map (\<lambda>(s, x). (s, encodingKey e x))"

definition table_entries :: "bool \<Rightarrow> EscapeEncoding list \<Rightarrow> (string \<times> Key) list" where
  "table_entries is_numeric es =
    concat (map (\<lambda>e. with_keys e (encoding_list is_numeric e)) es)"

definition default_entries :: "(string \<times> Key) list" where
  "default_entries =
    table_entries False escapeLetterEncodings @ table_entries True escapeNumericEncodings @
    map (\<lambda>(s, k). (s, enhance k)) simpleEncodings"

lemma with_keys_append [simp]: "with_keys e (xs @ ys) = with_keys e xs @ with_keys e ys"
  by (simp add: with_keys_def)

lemma with_keys_simps [simp]:
  "with_keys e [] = []"
  "with_keys e ((s, x) # xs) = (s, encodingKey e x) # with_keys e xs"
  by (simp_all add: with_keys_def)

lemma with_keys_map: "with_keys e (map (\<lambda>y. (f y, g y)) ys) = map (\<lambda>y. (f y, encodingKey e (g y))) ys"
  by (simp add: with_keys_def)

lemma with_keys_concat: "with_keys e (concat (map f xs)) = concat (map (\<lambda>x. with_keys e (f x)) xs)"
  by (induction xs) simp_all

lemma set_key_upds: "buf \<noteq> [] \<Longrightarrow> set_key m buf k = Some (imap.upds [(buf, k)] m)"
  by (simp add: set_key_def imap.upds_def)

lemma setEncoding_table:
  "buf \<noteq> [] \<Longrightarrow> length buf \<le> bufferSize \<Longrightarrow>
   setEncoding e buf x m = Some (imap.upds (with_keys e [(buf, x)]) m)"
  by (simp add: setEncoding_def set_key_upds checkedNarrow_eq bufferSize_def)

lemma suffix_table:
  "length p < bufferSize \<Longrightarrow>
   expandNumericEncodingSuffix e p x m = Some (imap.upds (with_keys e (suffix_list e p x)) m)"
  by (simp add: expandNumericEncodingSuffix_def suffix_list_def setEncoding_table room_def
      imap.upds_append)

lemma mod_cases:
  assumes "md \<in> set [2..(8::int)]"
  shows "md = 2 \<or> md = 3 \<or> md = 4 \<or> md = 5 \<or> md = 6 \<or> md = 7 \<or> md = 8"
  using assms by auto

lemma mod_values:
  assumes "md \<in> set [2..(8::int)]"
  shows "keyStateForMod md = Some (modState md)"
    and "numeralChar md = Some (digit_char (nat md))"
proof -
  show "keyStateForMod md = Some (modState md)"
    using mod_cases [OF assms]
    by (elim disjE; hypsubst;
        simp add: keyStateForMod_def modState_def key_state_defs checkedNarrow_eq
          kCsiShiftModifier_def kCsiAltModifier_def kCsiCtrlModifier_def)
  show "numeralChar md = Some (digit_char (nat md))"
    using mod_cases [OF assms]
    by (elim disjE; hypsubst; simp add: numeralChar_def checkedNarrow_eq digit_char_def)
qed

lemma id_length: "length (decimal (of_char c)) \<le> 3"
  by (rule length_decimal_le3, rule less_trans, rule nat_of_char_less_256) simp

lemma after_table:
  assumes p0: "length p0 \<le> 1" and num: "is_numeric \<Longrightarrow> modifiers e AND kBareMod = 0"
  shows "expandEncodingAfterAltPrefix is_numeric e p0 x m =
    Some (imap.upds (with_keys e (after_list is_numeric e p0 x)) m)"
proof -
  define p where "p = p0 @ [ESC, enc_prefix e]"
  define ms where "ms = [2..(8::int)]"
  have p: "length p \<le> 3" using p0 by (simp add: p_def)
  have idl: "length (decimal (of_char (enc_id e))) \<le> 3" by (rule id_length)
  have app: "appendId e p = Some (p @ decimal (of_char (enc_id e)))"
    using p idl by (simp add: appendId_def Let_def bufferSize_def)
  have bare: "foreach (expandBareMod e p x) ms m' =
      Some (imap.upds (concat (map (\<lambda>md. with_keys e [(p @ [digit_char (nat md), enc_id e], x OR modState md)])
        ms)) m')" for m'
    unfolding ms_def using p by (intro imap.foreach_upds)
      (simp add: expandBareMod_def mod_values room_def bufferSize_def setEncoding_table)
  have semi: "foreach (expandSemiMod is_numeric e p x) ms m' =
      Some (imap.upds (concat (map (\<lambda>md. with_keys e (semi_list is_numeric e p x md)) ms)) m')" for m'
    unfolding ms_def using p idl by (intro imap.foreach_upds)
      (simp add: expandSemiMod_def semi_list_def mod_values room_def bufferSize_def setEncoding_table
        app suffix_table id_text_def)
  have one: "length (p @ decimal (of_char (enc_id e))) < bufferSize"
    using p idl by (simp add: bufferSize_def)
  show ?thesis
    using p p0 num one
    unfolding expandEncodingAfterAltPrefix_def after_list_def p_def [symmetric] ms_def [symmetric] Let_def
    by (auto simp: room_def bufferSize_def app suffix_table setEncoding_table bare semi with_keys_concat
        imap.upds_append id_text_def with_keys_map)
qed

lemma expandEncoding_table:
  assumes "is_numeric \<Longrightarrow> modifiers e AND kBareMod = 0"
  shows "expandEncoding is_numeric e m =
    Some (imap.upds (with_keys e (encoding_list is_numeric e)) m)"
  using assms
  by (simp add: expandEncoding_def encoding_list_def after_table room_def bufferSize_def imap.upds_append)

lemma addEscapes_table:
  assumes "\<And>e. is_numeric \<Longrightarrow> e \<in> set es \<Longrightarrow> modifiers e AND kBareMod = 0"
  shows "addEscapes is_numeric es m = Some (imap.upds (table_entries is_numeric es) m)"
  unfolding addEscapes_def table_entries_def
  by (rule imap.foreach_upds) (simp add: expandEncoding_table assms)

lemma numeric_no_bare_mod: "\<forall>e \<in> set escapeNumericEncodings. modifiers e AND kBareMod = 0"
  by (simp add: escapeNumericEncodings_def mk_encoding_def kBare_def kSemiMod_def kSuffixBoth_def
      kSuffixCtrl_def kSuffixShift_def kBareMod_def)

lemma simple_table:
  "addSimpleEntries m = Some (imap.upds (map (\<lambda>(s, k). (s, enhance k)) simpleEncodings) m)"
proof -
  have "addSimpleEntries m =
      Some (imap.upds (concat (map (\<lambda>(s, k). [(s, enhance k)]) simpleEncodings)) m)"
    unfolding addSimpleEntries_def
    by (rule imap.foreach_upds) (auto simp: simpleEncodings_def checkedNarrow_eq set_key_upds)
  moreover have "concat (map (\<lambda>(s, k). [(s, enhance k)]) es) = map (\<lambda>(s, k). (s, enhance k)) es"
    for es :: "(string \<times> Key) list"
    by (induction es) auto
  ultimately show ?thesis by (simp only:)
qed

lemma default_table:
  "addDefaultEntriesToInputMap m = Some (imap.upds default_entries m)"
  using numeric_no_bare_mod
  by (simp add: addDefaultEntriesToInputMap_def default_entries_def addEscapes_table simple_table
      imap.upds_append)

section \<open>The encodings form a prefix code\<close>

text \<open>
  Every encoding of the tables is a code word: an optional ESC, then ESC and the prefix, a body
  of digits and semicolons, and one final character that is neither. A code word determines
  these parts, and the parts determine the row of the table and the modifiers.
\<close>

definition body_char :: "char \<Rightarrow> bool" where
  "body_char c \<longleftrightarrow> is_digit c \<or> c = CHR '';''"

definition codeword :: "bool \<Rightarrow> char \<Rightarrow> string \<Rightarrow> char \<Rightarrow> string" where
  "codeword alt P D F = (if alt then [ESC] else []) @ [ESC, P] @ D @ [F]"

definition final_char :: "char \<Rightarrow> bool" where
  "final_char F \<longleftrightarrow> \<not> body_char F \<and> F \<noteq> CHR ''[''"

lemma body_split:
  assumes "\<forall>c \<in> set D. body_char c" "\<forall>c \<in> set D'. body_char c" "\<not> body_char F" "\<not> body_char F'"
    and "prefix (D @ [F]) (D' @ [F'])"
  shows "D = D' \<and> F = F'"
  using assms
proof (induction D arbitrary: D')
  case Nil
  then show ?case by (cases D') auto
next
  case (Cons c D)
  note IH = Cons.IH and prems = Cons.prems
  show ?case
  proof (cases D')
    case Nil
    then show ?thesis using prems by simp
  next
    case (Cons c' D'')
    then have "D = D'' \<and> F = F'" using prems by (intro IH) simp_all
    then show ?thesis using Cons prems by simp
  qed
qed

lemma codeword_prefix:
  assumes "\<forall>c \<in> set D. body_char c" "\<forall>c \<in> set D'. body_char c" "final_char F" "final_char F'"
    and "P \<in> {CHR ''['', CHR ''O''}" "P' \<in> {CHR ''['', CHR ''O''}"
    and "prefix (codeword alt P D F) (codeword alt' P' D' F')"
  shows "alt = alt' \<and> P = P' \<and> D = D' \<and> F = F'"
proof -
  have "alt = alt' \<and> P = P' \<and> prefix (D @ [F]) (D' @ [F'])"
    using assms(5-7) by (auto simp: codeword_def ESC_def split: if_splits)
  then show ?thesis
    using body_split [of D D' F F'] assms(1-4) unfolding final_char_def by blast
qed

definition mod_of :: "bool \<Rightarrow> string \<Rightarrow> u16" where
  "mod_of is_numeric D =
    (if (if is_numeric then CHR '';'' \<in> set D else D \<noteq> [])
     then modState (int (digit_val (last D))) else 0)"

definition suffix_of :: "bool \<Rightarrow> char \<Rightarrow> u16" where
  "suffix_of is_numeric F =
    (if \<not> is_numeric then 0
     else if F = CHR ''$'' then SHIFT_PRESSED
     else if F = CHR ''^'' then LEFT_CTRL_PRESSED
     else if F = CHR ''@'' then SHIFT_PRESSED OR LEFT_CTRL_PRESSED else 0)"

definition row_ok :: "bool \<Rightarrow> EscapeEncoding \<Rightarrow> bool" where
  "row_ok is_numeric e \<longleftrightarrow> enc_prefix e \<in> {CHR ''['', CHR ''O''} \<and>
    (if is_numeric then modifiers e AND kBareMod = 0
     else final_char (enc_id e) \<and> enc_id e \<notin> set ''~$^@'')"

definition entry_of :: "bool \<Rightarrow> EscapeEncoding \<Rightarrow> string \<Rightarrow> char \<Rightarrow> bool" where
  "entry_of is_numeric e D F \<longleftrightarrow>
    (\<forall>c \<in> set D. body_char c) \<and> final_char F \<and>
    (if is_numeric then F \<in> set ''~$^@'' \<and> digits_val (takeWhile is_digit D) = of_char (enc_id e)
     else F = enc_id e)"

lemma suffix_chars:
  "final_char (CHR ''~'')" "final_char (CHR ''$'')" "final_char (CHR ''^'')" "final_char (CHR ''@'')"
  by (simp_all add: final_char_def body_char_def is_digit_def less_eq_char_def)

lemma decimal_body [simp]: "c \<in> set (decimal n) \<Longrightarrow> body_char c"
  by (simp add: body_char_def decimal_digits)

lemma semicolon_not_digit [simp]: "\<not> is_digit (CHR '';'')"
  by (simp add: is_digit_def less_eq_char_def)

lemma semicolon_not_in_decimal [simp]: "CHR '';'' \<notin> set (decimal n)"
  using decimal_digits semicolon_not_digit by blast

lemma takeWhile_decimal [simp]:
  "takeWhile is_digit (decimal n) = decimal n"
  "takeWhile is_digit (decimal n @ CHR '';'' # r) = decimal n"
  by (simp_all add: takeWhile_eq_all_conv decimal_digits takeWhile_append2)

lemma suffix_of_simps [simp]:
  "suffix_of False F = 0"
  "suffix_of True (CHR ''~'') = 0"
  "suffix_of True (CHR ''$'') = SHIFT_PRESSED"
  "suffix_of True (CHR ''^'') = LEFT_CTRL_PRESSED"
  "suffix_of True (CHR ''@'') = SHIFT_PRESSED OR LEFT_CTRL_PRESSED"
  by (simp_all add: suffix_of_def)

lemma suffix_list_entry:
  assumes "(s, y) \<in> set (suffix_list e p x)"
  shows "\<exists>F. s = p @ [F] \<and> F \<in> set ''~$^@'' \<and> final_char F \<and> y = x OR suffix_of True F"
proof -
  have "s = p @ ''~'' \<and> y = x \<or> s = p @ ''$'' \<and> y = x OR SHIFT_PRESSED \<or>
      s = p @ ''^'' \<and> y = x OR LEFT_CTRL_PRESSED \<or>
      s = p @ ''@'' \<and> y = x OR SHIFT_PRESSED OR LEFT_CTRL_PRESSED"
    using assms by (simp add: suffix_list_def split: if_splits) blast+
  moreover have "?thesis" if "s = p @ [F]" "F \<in> set ''~$^@''" "y = x OR suffix_of True F" for F
    using that suffix_chars by (intro exI [of _ F]) auto
  ultimately show ?thesis by fastforce
qed

lemma digit_char_body: "md \<in> set [2..(8::int)] \<Longrightarrow>
  body_char (digit_char (nat md)) \<and> int (digit_val (digit_char (nat md))) = md"
  by (auto simp: body_char_def)

lemma after_list_entry:
  assumes ok: "row_ok is_numeric e" and mem: "(s, y) \<in> set (after_list is_numeric e p0 x)"
  shows "\<exists>D F. s = p0 @ [ESC, enc_prefix e] @ D @ [F] \<and> entry_of is_numeric e D F \<and>
    y = x OR mod_of is_numeric D OR suffix_of is_numeric F"
proof -
  define p where "p = p0 @ [ESC, enc_prefix e]"
  have semis: "semi_list False e p x md =
      [(p @ [CHR ''1'', CHR '';'', digit_char (nat md), enc_id e], x OR modState md)]"
    "semi_list True e p x md =
      suffix_list e (p @ id_text True e @ [CHR '';'', digit_char (nat md)]) (x OR modState md)" for md
    by (simp_all add: semi_list_def)
  consider
    (num) "is_numeric" "(s, y) \<in> set (suffix_list e (p @ id_text True e) x)"
  | (bare) "\<not> is_numeric" "s = p @ [enc_id e]" "y = x"
  | (mod) md where "\<not> is_numeric" "md \<in> set [2..8]" "s = p @ [digit_char (nat md), enc_id e]"
      "y = x OR modState md"
  | (semi) md where "\<not> is_numeric" "md \<in> set [2..8]"
      "s = p @ [CHR ''1'', CHR '';'', digit_char (nat md), enc_id e]" "y = x OR modState md"
  | (numsemi) md where "is_numeric" "md \<in> set [2..8]"
      "(s, y) \<in> set (suffix_list e (p @ id_text True e @ [CHR '';'', digit_char (nat md)]) (x OR modState md))"
  proof (cases is_numeric)
    case True
    then have "(s, y) \<in> set (suffix_list e (p @ id_text True e) x) \<or>
        (\<exists>md \<in> set [2..8]. (s, y) \<in> set (semi_list True e p x md))"
      using ok mem unfolding after_list_def Let_def p_def [symmetric] row_ok_def
      by (simp del: set_upto upto.simps split: if_splits) blast+
    then show thesis using True num numsemi unfolding semis by blast
  next
    case False
    then have "(s, y) = (p @ [enc_id e], x) \<or>
        (\<exists>md \<in> set [2..8]. (s, y) = (p @ [digit_char (nat md), enc_id e], x OR modState md)) \<or>
        (\<exists>md \<in> set [2..8]. (s, y) \<in> set (semi_list False e p x md))"
      using ok mem unfolding after_list_def Let_def p_def [symmetric] row_ok_def
      by (simp del: set_upto upto.simps split: if_splits) blast+
    then show thesis
    proof (elim disjE bexE)
      assume "(s, y) = (p @ [enc_id e], x)"
      then show thesis using False by (intro bare) simp_all
    next
      fix md :: int
      assume "md \<in> set [2..8]" "(s, y) = (p @ [digit_char (nat md), enc_id e], x OR modState md)"
      then show thesis using False by (intro mod [of md]) (simp_all del: set_upto)
    next
      fix md :: int
      assume "md \<in> set [2..8]" "(s, y) \<in> set (semi_list False e p x md)"
      then show thesis using False by (intro semi [of md]) (simp_all add: semis del: set_upto)
    qed
  qed
  then show ?thesis
  proof cases
    case num
    obtain F where F: "s = (p @ id_text True e) @ [F]"
      "F \<in> set ''~$^@''" "final_char F" "y = x OR suffix_of True F"
      using suffix_list_entry [OF num(2)] by blast
    have "entry_of True e (decimal (of_char (enc_id e))) F"
      using F(2,3) by (simp add: entry_of_def)
    moreover have "mod_of True (decimal (of_char (enc_id e))) = 0"
      by (simp add: mod_of_def)
    ultimately show ?thesis using num(1) F(1,4)
      by (intro exI [of _ "decimal (of_char (enc_id e))"] exI [of _ F]) (simp add: p_def id_text_def)
  next
    case bare
    then show ?thesis using ok
      by (intro exI [of _ "[]"] exI [of _ "enc_id e"])
        (auto simp: p_def entry_of_def mod_of_def suffix_of_def row_ok_def)
  next
    case mod
    then show ?thesis using ok digit_char_body [OF mod(2)]
      by (intro exI [of _ "[digit_char (nat md)]"] exI [of _ "enc_id e"])
        (auto simp: p_def entry_of_def mod_of_def suffix_of_def row_ok_def)
  next
    case semi
    then show ?thesis using ok digit_char_body [OF semi(2)]
      by (intro exI [of _ "[CHR ''1'', CHR '';'', digit_char (nat md)]"] exI [of _ "enc_id e"])
        (auto simp: p_def entry_of_def mod_of_def suffix_of_def row_ok_def body_char_def
          is_digit_def less_eq_char_def)
  next
    case numsemi
    obtain F where F: "s = (p @ id_text True e @ [CHR '';'', digit_char (nat md)]) @ [F]"
      "F \<in> set ''~$^@''" "final_char F" "y = (x OR modState md) OR suffix_of True F"
      using suffix_list_entry [OF numsemi(3)] by blast
    have b: "body_char (CHR '';'')" by (simp add: body_char_def)
    have "entry_of True e (decimal (of_char (enc_id e)) @ [CHR '';'', digit_char (nat md)]) F"
      using F(2,3) digit_char_body [OF numsemi(2)] b
      by (simp add: entry_of_def)
    moreover have "mod_of True (decimal (of_char (enc_id e)) @ [CHR '';'', digit_char (nat md)]) = modState md"
      using digit_char_body [OF numsemi(2)] by (simp add: mod_of_def)
    ultimately show ?thesis using numsemi(1) F(1,4)
      by (intro exI [of _ "decimal (of_char (enc_id e)) @ [CHR '';'', digit_char (nat md)]"] exI [of _ F])
        (simp add: p_def id_text_def or.assoc)
  qed
qed

lemma encoding_list_entry:
  assumes "row_ok is_numeric e" and "(s, y) \<in> set (encoding_list is_numeric e)"
  shows "\<exists>alt D F. s = codeword alt (enc_prefix e) D F \<and> entry_of is_numeric e D F \<and>
    y = (if alt then LEFT_ALT_PRESSED else 0) OR mod_of is_numeric D OR suffix_of is_numeric F"
proof -
  from assms(2) consider "(s, y) \<in> set (after_list is_numeric e [ESC] LEFT_ALT_PRESSED)"
    | "(s, y) \<in> set (after_list is_numeric e [] 0)"
    by (auto simp: encoding_list_def split: if_splits)
  then show ?thesis
  proof cases
    case 1
    from after_list_entry [OF assms(1) this] show ?thesis
      by (intro exI [of _ True]) (simp add: codeword_def)
  next
    case 2
    from after_list_entry [OF assms(1) this] show ?thesis
      by (intro exI [of _ False]) (simp add: codeword_def)
  qed
qed

lemma letter_rows:
  "\<forall>e \<in> set escapeLetterEncodings. row_ok False e"
  "distinct (map (\<lambda>e. (enc_prefix e, enc_id e)) escapeLetterEncodings)"
  by (simp_all add: escapeLetterEncodings_def mk_encoding_def row_ok_def final_char_def body_char_def
      is_digit_def less_eq_char_def)

lemma numeric_rows:
  "\<forall>e \<in> set escapeNumericEncodings. row_ok True e \<and> enc_prefix e = CHR ''[''"
  "distinct (map (\<lambda>e. of_char (enc_id e) :: nat) escapeNumericEncodings)"
  using numeric_no_bare_mod
  by (simp_all add: escapeNumericEncodings_def mk_encoding_def row_ok_def of_char_of)

lemma rows_unique:
  assumes "(is_numeric, e) \<in> {False} \<times> set escapeLetterEncodings \<union> {True} \<times> set escapeNumericEncodings"
    and "(is_numeric', e') \<in> {False} \<times> set escapeLetterEncodings \<union> {True} \<times> set escapeNumericEncodings"
    and "entry_of is_numeric e D F" "entry_of is_numeric' e' D F" "enc_prefix e = enc_prefix e'"
  shows "is_numeric = is_numeric' \<and> e = e'"
proof -
  have "is_numeric = is_numeric'"
    using assms letter_rows(1) by (auto simp: entry_of_def row_ok_def)
  moreover have "e = e'" if "\<not> is_numeric" "\<not> is_numeric'"
    using assms that letter_rows(2) by (auto simp: entry_of_def distinct_map dest: inj_onD)
  moreover have "e = e'" if "is_numeric" "is_numeric'"
  proof -
    have "inj_on (\<lambda>e. of_char (enc_id e) :: nat) (set escapeNumericEncodings)"
      using numeric_rows(2) by (simp only: distinct_map)
    moreover have "e \<in> set escapeNumericEncodings" "e' \<in> set escapeNumericEncodings"
      "(of_char (enc_id e) :: nat) = of_char (enc_id e')"
      using assms that by (simp_all add: entry_of_def)
    ultimately show ?thesis by (simp add: inj_on_def)
  qed
  ultimately show ?thesis by (cases is_numeric) auto
qed

lemma table_entry:
  "(s, k) \<in> set (table_entries is_numeric es) \<Longrightarrow>
   \<exists>e x. e \<in> set es \<and> (s, x) \<in> set (encoding_list is_numeric e) \<and> k = encodingKey e x"
  by (auto simp: table_entries_def with_keys_def)

lemma default_table_entry:
  assumes "(s, k) \<in> set (table_entries False escapeLetterEncodings @ table_entries True escapeNumericEncodings)"
  shows "\<exists>n e alt D F.
    (n, e) \<in> {False} \<times> set escapeLetterEncodings \<union> {True} \<times> set escapeNumericEncodings \<and>
    s = codeword alt (enc_prefix e) D F \<and> entry_of n e D F \<and> enc_prefix e \<in> {CHR ''['', CHR ''O''} \<and>
    k = encodingKey e ((if alt then LEFT_ALT_PRESSED else 0) OR mod_of n D OR suffix_of n F)"
proof -
  from assms obtain n e x where ne:
    "(n, e) \<in> {False} \<times> set escapeLetterEncodings \<union> {True} \<times> set escapeNumericEncodings"
    and m: "(s, x) \<in> set (encoding_list n e)" and k: "k = encodingKey e x"
    using table_entry unfolding set_append by blast
  have ok: "row_ok n e" using ne letter_rows(1) numeric_rows(1) by auto
  from encoding_list_entry [OF ok m] ne k ok show ?thesis
    unfolding row_ok_def by blast
qed

lemma simple_not_codeword:
  assumes "s \<in> set (map fst simpleEncodings)" "P \<in> {CHR ''['', CHR ''O''}"
    and "\<forall>c \<in> set D. body_char c" "final_char F"
  shows "\<not> prefix s (codeword alt P D F) \<and> \<not> prefix (codeword alt P D F) s"
proof -
  have b: "\<not> body_char (CHR ''['')" by (simp add: body_char_def is_digit_def less_eq_char_def)
  obtain c r where c: "D @ [F] = c # r" "c \<noteq> CHR ''[''"
    using assms(3,4) b by (cases D) (auto simp: final_char_def)
  have w: "codeword alt P D F = (if alt then [ESC] else []) @ ESC # P # c # r"
    by (simp add: codeword_def c(1))
  consider "s = [CHR 0x7F] \<or> s = [ESC, CHR 0x7F] \<or> s = [CHR 0x03]"
    | X where "s = [ESC, CHR ''['', CHR ''['', X]" | X where "s = [ESC, ESC, CHR ''['', CHR ''['', X]"
    using assms(1) by (auto simp: simpleEncodings_def)
  then show ?thesis
    using assms(2) c(2) unfolding w by cases (auto simp: ESC_def)
qed

lemma simple_code_all:
  "\<forall>x \<in> set simpleEncodings. \<forall>y \<in> set simpleEncodings. prefix (fst x) (fst y) \<longrightarrow> x = y"
  by (simp add: simpleEncodings_def ESC_def)

lemma simple_code:
  assumes "(s, k) \<in> set simpleEncodings" "(t, l) \<in> set simpleEncodings" "prefix s t"
  shows "s = t \<and> k = l"
  using bspec [OF bspec [OF simple_code_all assms(1)] assms(2)] assms(3) by simp

lemma default_code:
  assumes "(s, k) \<in> set default_entries" "(t, l) \<in> set default_entries" "prefix s t"
  shows "s = t \<and> k = l"
proof -
  let ?T = "set (table_entries False escapeLetterEncodings @ table_entries True escapeNumericEncodings)"
  let ?S = "set (map (\<lambda>(s, k). (s, enhance k)) simpleEncodings)"
  have entry: "(s, k) \<in> ?T \<or> (s, k) \<in> ?S" "(t, l) \<in> ?T \<or> (t, l) \<in> ?S"
    using assms(1,2) by (auto simp: default_entries_def)
  have cw: "\<not> prefix s' (codeword alt (enc_prefix e) D F) \<and> \<not> prefix (codeword alt (enc_prefix e) D F) s'"
    if "(s', k') \<in> ?S" "entry_of n e D F" "enc_prefix e \<in> {CHR ''['', CHR ''O''}" for s' k' alt n e D F
  proof -
    have "s' \<in> set (map fst simpleEncodings)" using that(1) by force
    then show ?thesis using simple_not_codeword that(2,3) by (simp add: entry_of_def)
  qed
  show ?thesis
  proof (cases "(s, k) \<in> ?T")
    case True
    note S = default_table_entry [OF this]
    show ?thesis
    proof (cases "(t, l) \<in> ?T")
      case True
      obtain n e alt D F where s:
        "(n, e) \<in> {False} \<times> set escapeLetterEncodings \<union> {True} \<times> set escapeNumericEncodings"
        "s = codeword alt (enc_prefix e) D F" "entry_of n e D F" "enc_prefix e \<in> {CHR ''['', CHR ''O''}"
        "k = encodingKey e ((if alt then LEFT_ALT_PRESSED else 0) OR mod_of n D OR suffix_of n F)"
        using S by blast
      obtain n' e' alt' D' F' where t:
        "(n', e') \<in> {False} \<times> set escapeLetterEncodings \<union> {True} \<times> set escapeNumericEncodings"
        "t = codeword alt' (enc_prefix e') D' F'" "entry_of n' e' D' F'"
        "enc_prefix e' \<in> {CHR ''['', CHR ''O''}"
        "l = encodingKey e' ((if alt' then LEFT_ALT_PRESSED else 0) OR mod_of n' D' OR suffix_of n' F')"
        using default_table_entry [OF True] by blast
      have eq: "alt = alt' \<and> enc_prefix e = enc_prefix e' \<and> D = D' \<and> F = F'"
        using s t assms(3) by (intro codeword_prefix) (auto simp: entry_of_def)
      moreover have "n = n' \<and> e = e'"
        using rows_unique [OF s(1) t(1), of D F] s(3) t(3) eq by simp
      ultimately show ?thesis using s t by simp
    next
      case False
      then show ?thesis using entry(2) S cw assms(3) by blast
    qed
  next
    case False
    then have sS: "(s, k) \<in> ?S" using entry by blast
    show ?thesis
    proof (cases "(t, l) \<in> ?T")
      case True
      then show ?thesis using default_table_entry [OF True] cw [OF sS] assms(3) by blast
    next
      case False
      then show ?thesis using entry(2) sS simple_code assms(3) by auto
    qed
  qed
qed

lemma default_entryI:
  assumes "(n, e) \<in> {False} \<times> set escapeLetterEncodings \<union> {True} \<times> set escapeNumericEncodings"
    and "(s, x) \<in> set (after_list n e [] 0)"
  shows "(s, encodingKey e x) \<in> set default_entries"
proof -
  have "(s, x) \<in> set (encoding_list n e)" using assms(2) by (simp add: encoding_list_def)
  then have w: "(s, encodingKey e x) \<in> set (with_keys e (encoding_list n e))"
    unfolding with_keys_def by force
  show ?thesis
  proof (cases n)
    case True
    then have "(s, encodingKey e x) \<in> set (table_entries True escapeNumericEncodings)"
      using assms(1) w by (auto simp: table_entries_def)
    then show ?thesis by (simp add: default_entries_def)
  next
    case False
    then have "(s, encodingKey e x) \<in> set (table_entries False escapeLetterEncodings)"
      using assms(1) w by (auto simp: table_entries_def)
    then show ?thesis by (simp add: default_entries_def)
  qed
qed

lemma letter_entry:
  assumes "e \<in> set escapeLetterEncodings"
  shows "modifiers e AND kBare \<noteq> 0 \<Longrightarrow>
      ([ESC, enc_prefix e, enc_id e], encodingKey e 0) \<in> set default_entries"
    and "modifiers e AND kSemiMod \<noteq> 0 \<Longrightarrow> md \<in> set [2..8] \<Longrightarrow>
      ([ESC, enc_prefix e, CHR ''1'', CHR '';'', digit_char (nat md), enc_id e], encodingKey e (modState md))
        \<in> set default_entries"
proof -
  have row: "(False, e) \<in> {False} \<times> set escapeLetterEncodings \<union> {True} \<times> set escapeNumericEncodings"
    using assms by blast
  show "modifiers e AND kBare \<noteq> 0 \<Longrightarrow>
      ([ESC, enc_prefix e, enc_id e], encodingKey e 0) \<in> set default_entries"
    by (rule default_entryI [OF row]) (simp add: Let_def after_list_def)
  assume m: "modifiers e AND kSemiMod \<noteq> 0" "md \<in> set [2..8]"
  have "([ESC, enc_prefix e, CHR ''1'', CHR '';'', digit_char (nat md), enc_id e], modState md)
      \<in> set (concat (map (semi_list False e [ESC, enc_prefix e] 0) [2..8]))"
    unfolding set_concat set_map using m(2)
    by (intro UnionI [of "set (semi_list False e [ESC, enc_prefix e] 0 md)"] imageI)
      (simp_all add: semi_list_def del: set_upto)
  then show "([ESC, enc_prefix e, CHR ''1'', CHR '';'', digit_char (nat md), enc_id e], encodingKey e (modState md))
        \<in> set default_entries"
    using m(1) by (intro default_entryI [OF row]) (simp add: Let_def after_list_def del: set_concat set_map set_upto)
qed

lemma numeric_entry:
  assumes "e \<in> set escapeNumericEncodings"
  shows "modifiers e AND kBare \<noteq> 0 \<Longrightarrow>
      ([ESC, enc_prefix e] @ decimal (of_char (enc_id e)) @ ''~'', encodingKey e 0) \<in> set default_entries"
    and "modifiers e AND kSemiMod \<noteq> 0 \<Longrightarrow> md \<in> set [2..8] \<Longrightarrow>
      ([ESC, enc_prefix e] @ decimal (of_char (enc_id e)) @ [CHR '';'', digit_char (nat md), CHR ''~''],
        encodingKey e (modState md)) \<in> set default_entries"
proof -
  have row: "(True, e) \<in> {False} \<times> set escapeLetterEncodings \<union> {True} \<times> set escapeNumericEncodings"
    using assms by blast
  show "modifiers e AND kBare \<noteq> 0 \<Longrightarrow>
      ([ESC, enc_prefix e] @ decimal (of_char (enc_id e)) @ ''~'', encodingKey e 0) \<in> set default_entries"
    by (rule default_entryI [OF row]) (simp add: Let_def after_list_def suffix_list_def id_text_def)
  assume m: "modifiers e AND kSemiMod \<noteq> 0" "md \<in> set [2..8]"
  have "([ESC, enc_prefix e] @ decimal (of_char (enc_id e)) @ [CHR '';'', digit_char (nat md), CHR ''~''],
        modState md)
      \<in> set (concat (map (semi_list True e [ESC, enc_prefix e] 0) [2..8]))"
    unfolding set_concat set_map using m(2)
    by (intro UnionI [of "set (semi_list True e [ESC, enc_prefix e] 0 md)"] imageI)
      (simp_all add: semi_list_def suffix_list_def id_text_def del: set_upto)
  then show "([ESC, enc_prefix e] @ decimal (of_char (enc_id e)) @ [CHR '';'', digit_char (nat md), CHR ''~''],
        encodingKey e (modState md)) \<in> set default_entries"
    using m(1) by (intro default_entryI [OF row]) (simp add: Let_def after_list_def del: set_concat set_map set_upto)
qed

section \<open>Lookup in the default map\<close>

lemma default_acceptable: "\<forall>(s, k) \<in> set default_entries. acceptable_entry s k"
proof -
  have vk: "virtualKey (encodingKey e x) = virtualKey (enc_key e)" for e x
    by (simp add: encodingKey_def enhance_def Let_def)
  have l: "\<forall>e \<in> set escapeLetterEncodings. virtualKey (enc_key e) \<noteq> 0"
    by (simp add: escapeLetterEncodings_def mk_encoding_def VK_defs)
  have n: "\<forall>e \<in> set escapeNumericEncodings. virtualKey (enc_key e) \<noteq> 0"
    by (simp add: escapeNumericEncodings_def mk_encoding_def VK_defs)
  have s: "\<forall>x \<in> set simpleEncodings. fst x \<noteq> [] \<and> virtualKey (snd x) \<noteq> 0"
    by (simp add: simpleEncodings_def VK_defs)
  show ?thesis
  proof (clarify)
    fix t k assume "(t, k) \<in> set default_entries"
    then consider
      "(t, k) \<in> set (table_entries False escapeLetterEncodings @ table_entries True escapeNumericEncodings)"
    | k' where "(t, k') \<in> set simpleEncodings" "k = enhance k'"
      unfolding default_entries_def by auto
    then show "acceptable_entry t k"
    proof cases
      case 1
      from default_table_entry [OF this] obtain n e alt D F where
        "(n, e) \<in> {False} \<times> set escapeLetterEncodings \<union> {True} \<times> set escapeNumericEncodings"
        and t: "t = codeword alt (enc_prefix e) D F" and k: "\<exists>y. k = encodingKey e y"
        by blast
      then have "virtualKey (enc_key e) \<noteq> 0" using l n by blast
      then have "virtualKey k \<noteq> 0" using k vk by auto
      then show ?thesis using t by (simp add: acceptable_entry_def keyHasKey_def codeword_def)
    next
      case 2
      have "virtualKey k' \<noteq> 0 \<and> t \<noteq> []" using bspec [OF s 2(1)] by simp
      then show ?thesis using 2(2) by (simp add: acceptable_entry_def keyHasKey_def enhance_def)
    qed
  qed
qed

definition default_map :: Node where
  "default_map = imap.upds default_entries newNode"

lemma default_map_correct:
  "map_inv default_map" "keyAt default_map = map_of (rev default_entries)"
  using imap.upds_correct [OF map_inv_newNode default_acceptable]
  unfolding default_map_def by (simp_all add: map_add_def fun_eq_iff split: option.splits)

lemma keyAt_default_iff: "keyAt default_map s = Some k \<longleftrightarrow> (s, k) \<in> set default_entries"
proof
  assume "keyAt default_map s = Some k"
  then have "map_of (rev default_entries) s = Some k" by (simp only: default_map_correct)
  from map_of_SomeD [OF this] show "(s, k) \<in> set default_entries" by simp
next
  assume e: "(s, k) \<in> set default_entries"
  then have "map_of (rev default_entries) s \<noteq> None"
    by (simp add: map_of_eq_None_iff) force
  then obtain l where l: "map_of (rev default_entries) s = Some l" by blast
  from map_of_SomeD [OF this] have "(s, l) \<in> set default_entries" by simp
  then have "k = l" using default_code [OF e, of s l] by blast
  then show "keyAt default_map s = Some k" using l by (simp only: default_map_correct)
qed

lemma default_lookup_table:
  assumes "(s, k) \<in> set default_entries"
  shows "lookupKey default_map (s @ rest) = (length s, k, False)"
proof -
  obtain n l inc where L: "lookupKey default_map s = (n, l, inc)" by (metis prod_cases3)
  have key: "keyAt default_map s = Some k" using assms by (simp only: keyAt_default_iff)
  have ne: "s \<noteq> []" using default_acceptable assms by (auto simp: acceptable_entry_def)
  have "length s = n \<and> k = l"
    by (rule ilook.match_unique [OF default_map_correct(1) L]) (use key ne in auto)
  moreover have "\<not> inc"
  proof
    assume inc
    then obtain t where "t \<noteq> []" "keyAt default_map (s @ t) \<noteq> None"
      using ilook.incomplete [OF default_map_correct(1) L] by blast
    then show False using default_code [OF assms, of "s @ t"] by (auto simp: keyAt_default_iff)
  qed
  ultimately have "lookupKey default_map s = (length s, k, False)" using L by simp
  then show ?thesis by (rule ilook.complete_stable [OF default_map_correct(1)])
qed

section \<open>Properties\<close>

text \<open>
  \<open>addDefaultEntriesToInputMap\<close> succeeds on a new map: no assertion of the expansion fails
  (every encoding fits its 32-byte buffer, every narrowing is in range), the map satisfies the
  trie invariant, and it contains exactly the expanded table.
\<close>

lemma default_map_built:
  "addDefaultEntriesToInputMap newNode = Some default_map \<and> map_inv default_map \<and>
   (\<forall>s k. keyAt default_map s = Some k \<longleftrightarrow> (s, k) \<in> set default_entries)"
  using default_table [of newNode] default_map_correct(1) keyAt_default_iff
  by (simp add: default_map_def)



end
