(* ===== verification/Geometry.thy ===== *)
theory Geometry
  imports VTPrelude
begin

text \<open>
  Console coordinates and rectangles (src/agent/Coord.h and SmallRect.h). A \<open>SHORT\<close> is an
  \<^typ>\<open>int\<close>; every store of a computed value goes through \<open>checkedNarrow<SHORT>\<close>, so the
  operations that compute return an option. \<open>short_coord\<close> and \<open>short_rect\<close> say that the fields
  are in the range of their C++ type.

  The lemmas: a constructed rectangle has the size it was given, \<open>intersected\<close> is the
  intersection of the sets of cells, \<open>ensureLineIncluded\<close> scrolls by the least amount.
\<close>

section \<open>Coord\<close>

record Coord =
  X :: int
  Y :: int

definition mkCoord :: "int \<Rightarrow> int \<Rightarrow> Coord" where
  "mkCoord x y = \<lparr>X = x, Y = y\<rparr>"

definition coord_add :: "Coord \<Rightarrow> Coord \<Rightarrow> Coord option" where
  "coord_add a b =
    do { x \<leftarrow> checkedNarrow SHORT_range (X a + X b);
         y \<leftarrow> checkedNarrow SHORT_range (Y a + Y b);
         Some (mkCoord x y) }"

definition coord_isEmpty :: "Coord \<Rightarrow> bool" where
  "coord_isEmpty c \<longleftrightarrow> X c \<le> 0 \<or> Y c \<le> 0"

definition short_coord :: "Coord \<Rightarrow> bool" where
  "short_coord c \<longleftrightarrow> isNarrowable SHORT_range (X c) \<and> isNarrowable SHORT_range (Y c)"

section \<open>SmallRect\<close>

record SmallRect =
  Left :: int
  Top :: int
  Right :: int
  Bottom :: int

definition emptyRect :: SmallRect where
  "emptyRect = \<lparr>Left = 0, Top = 0, Right = 0, Bottom = 0\<rparr>"

definition mkSmallRect :: "int \<Rightarrow> int \<Rightarrow> int \<Rightarrow> int \<Rightarrow> SmallRect option" where
  "mkSmallRect x y w h =
    do { r \<leftarrow> checkedNarrow SHORT_range (x + w - 1);
         b \<leftarrow> checkedNarrow SHORT_range (y + h - 1);
         Some \<lparr>Left = x, Top = y, Right = r, Bottom = b\<rparr> }"

definition rectOfCoords :: "Coord \<Rightarrow> Coord \<Rightarrow> SmallRect option" where
  "rectOfCoords topLeft sz = mkSmallRect (X topLeft) (Y topLeft) (X sz) (Y sz)"

definition containsRect :: "SmallRect \<Rightarrow> SmallRect \<Rightarrow> bool" where
  "containsRect r other \<longleftrightarrow> Left other \<ge> Left r \<and> Right other \<le> Right r \<and>
     Top other \<ge> Top r \<and> Bottom other \<le> Bottom r"

definition containsCoord :: "SmallRect \<Rightarrow> Coord \<Rightarrow> bool" where
  "containsCoord r c \<longleftrightarrow> X c \<ge> Left r \<and> X c \<le> Right r \<and> Y c \<ge> Top r \<and> Y c \<le> Bottom r"

definition intersected :: "SmallRect \<Rightarrow> SmallRect \<Rightarrow> SmallRect option" where
  "intersected r other =
    (let x1 = max (Left r) (Left other); x2 = min (Right r) (Right other);
         y1 = max (Top r) (Top other); y2 = min (Bottom r) (Bottom other)
     in do { a \<leftarrow> checkedNarrow SHORT_range x1;
             b \<leftarrow> checkedNarrow SHORT_range y1;
             w \<leftarrow> checkedNarrow SHORT_range (max 0 (x2 - x1 + 1));
             h \<leftarrow> checkedNarrow SHORT_range (max 0 (y2 - y1 + 1));
             mkSmallRect a b w h })"

definition rect_width :: "SmallRect \<Rightarrow> int option" where
  "rect_width r = checkedNarrow SHORT_range (Right r - Left r + 1)"

definition rect_height :: "SmallRect \<Rightarrow> int option" where
  "rect_height r = checkedNarrow SHORT_range (Bottom r - Top r + 1)"

definition rect_size :: "SmallRect \<Rightarrow> Coord option" where
  "rect_size r = do { w \<leftarrow> rect_width r; h \<leftarrow> rect_height r; Some (mkCoord w h) }"

definition setWidth :: "SmallRect \<Rightarrow> int \<Rightarrow> SmallRect option" where
  "setWidth r w = do { x \<leftarrow> checkedNarrow SHORT_range (Left r + w - 1); Some (r\<lparr>Right := x\<rparr>) }"

definition setHeight :: "SmallRect \<Rightarrow> int \<Rightarrow> SmallRect option" where
  "setHeight r h = do { x \<leftarrow> checkedNarrow SHORT_range (Top r + h - 1); Some (r\<lparr>Bottom := x\<rparr>) }"

definition ensureLineIncluded :: "SmallRect \<Rightarrow> int \<Rightarrow> SmallRect option" where
  "ensureLineIncluded r line =
    do {
      h \<leftarrow> rect_height r;
      if line < Top r then
        do { w \<leftarrow> rect_width r; mkSmallRect (Left r) line w h }
      else if line > Bottom r then
        do { t \<leftarrow> checkedNarrow SHORT_range (line - h + 1);
             w \<leftarrow> rect_width r;
             mkSmallRect (Left r) t w h }
      else Some r }"

definition short_rect :: "SmallRect \<Rightarrow> bool" where
  "short_rect r \<longleftrightarrow> isNarrowable SHORT_range (Left r) \<and> isNarrowable SHORT_range (Top r) \<and>
     isNarrowable SHORT_range (Right r) \<and> isNarrowable SHORT_range (Bottom r)"

lemmas geometry_defs =
  mkCoord_def coord_add_def mkSmallRect_def rectOfCoords_def rect_width_def rect_height_def rect_size_def
  setWidth_def setHeight_def

lemma bind_Some_iff: "Option.bind m f = Some y \<longleftrightarrow> (\<exists>x. m = Some x \<and> f x = Some y)"
  by (cases m) auto

lemma mkSmallRect_Some:
  "mkSmallRect x y w h = Some r \<longleftrightarrow>
     isNarrowable SHORT_range (x + w - 1) \<and> isNarrowable SHORT_range (y + h - 1) \<and>
     r = \<lparr>Left = x, Top = y, Right = x + w - 1, Bottom = y + h - 1\<rparr>"
  by (auto simp: mkSmallRect_def bind_Some_iff)

lemma mkSmallRect_size:
  "mkSmallRect x y w h = Some r \<Longrightarrow> Right r - Left r + 1 = w \<and> Bottom r - Top r + 1 = h"
  by (auto simp: mkSmallRect_Some)

lemma intersected_Some:
  "intersected r s = Some t \<Longrightarrow>
     Left t = max (Left r) (Left s) \<and> Top t = max (Top r) (Top s) \<and>
     Right t = Left t + max 0 (min (Right r) (Right s) - Left t + 1) - 1 \<and>
     Bottom t = Top t + max 0 (min (Bottom r) (Bottom s) - Top t + 1) - 1"
  by (auto simp: intersected_def Let_def bind_Some_iff mkSmallRect_Some)

lemma max0_upper: "(y :: int) \<ge> x1 \<Longrightarrow> y \<le> x1 + max 0 (x2 - x1 + 1) - 1 \<longleftrightarrow> y \<le> x2"
  by auto

section \<open>Properties\<close>

text \<open>
  \<open>intersected\<close> computes the intersection of two rectangles as sets of cells; where they do
  not meet the result contains no cell.
\<close>

lemma intersected_cells:
  assumes "intersected r s = Some t"
  shows "containsCoord t c \<longleftrightarrow> containsCoord r c \<and> containsCoord s c"
  using intersected_Some [OF assms] unfolding containsCoord_def
  by (smt (verit) max0_upper)

text \<open>
  \<open>ensureLineIncluded\<close> keeps the size and the horizontal position, contains the line when
  the rectangle has at least one row, and does not move a rectangle that contains it already.
\<close>

lemma ensureLineIncluded_correct:
  assumes "ensureLineIncluded r line = Some s"
  shows "Left s = Left r \<and> Right s = Right r \<and> Bottom s - Top s = Bottom r - Top r \<and>
    (Top r \<le> Bottom r \<longrightarrow> Top s \<le> line \<and> line \<le> Bottom s) \<and>
    (Top r \<le> line \<and> line \<le> Bottom r \<longrightarrow> s = r) \<and>
    (line < Top r \<longrightarrow> Top s = line) \<and> (Top r \<le> Bottom r \<and> Bottom r < line \<longrightarrow> Bottom s = line)"
  using assms
  by (auto simp: ensureLineIncluded_def bind_Some_iff mkSmallRect_Some rect_width_def rect_height_def
      split: if_splits)

end
