(* ===== verification/ScanMatch.thy ===== *)
theory ScanMatch
  imports Geometry
begin

text \<open>
  The matchers of terminal replies and mouse reports in src/agent/ConsoleInput.cc
  (\<open>matchDsr\<close>, \<open>matchMouseDefault\<close>, \<open>matchMouse1006\<close>, \<open>matchMouse1015\<close>, \<open>matchMouseRecord\<close>)
  with the macros they are written in. A matcher walks the pointer \<open>pch\<close> over the input and may
  leave the C++ function at every step: with 0 (no match), with -1 (the input ends before the
  sequence does), or by a failed assertion. Here the position is the rest of the input, and a
  step gives one of these exits or goes on.

  The lemmas: a matcher never reads past the end of its input; its answer other than -1 does
  not depend on what follows; a match has a length between 1 and the input size; a report that
  a terminal writes is read back.
\<close>

section \<open>The macros\<close>

datatype 'a scan = Return int | Abort | Go 'a string

definition sbind :: "(string \<Rightarrow> 'a scan) \<Rightarrow> ('a \<Rightarrow> string \<Rightarrow> 'b scan) \<Rightarrow> string \<Rightarrow> 'b scan" where
  "sbind p f s = (case p s of Return v \<Rightarrow> Return v | Abort \<Rightarrow> Abort | Go x r \<Rightarrow> f x r)"

definition sreturn :: "'a \<Rightarrow> string \<Rightarrow> 'a scan" where
  "sreturn x s = Go x s"

text \<open>The position is never at the end of the input; the equations for \<open>[]\<close> are not used.\<close>

definition CHECK :: "(char \<Rightarrow> bool) \<Rightarrow> string \<Rightarrow> unit scan" where
  "CHECK P s = (case s of [] \<Rightarrow> Return 0 | c # _ \<Rightarrow> if P c then Go () s else Return 0)"

definition ADVANCE :: "string \<Rightarrow> unit scan" where
  "ADVANCE s = (if tl s = [] then Return (- 1) else Go () (tl s))"

definition peek :: "string \<Rightarrow> char scan" where
  "peek s = (case s of [] \<Rightarrow> Return 0 | c # _ \<Rightarrow> Go c s)"

definition narrowShort :: "int \<Rightarrow> string \<Rightarrow> int scan" where
  "narrowShort v s = (case checkedNarrow SHORT_range v of None \<Rightarrow> Abort | Some x \<Rightarrow> Go x s)"

fun scanDigits :: "int \<Rightarrow> nat \<Rightarrow> nat \<Rightarrow> string \<Rightarrow> int scan" where
  "scanDigits out k maxLen [] = Return 0"
| "scanDigits out k maxLen (c # r) =
    (if \<not> (k + 1 < maxLen) then Return 0
     else let out' = out * 10 + int (digit_val c) in
       (case r of
          [] \<Rightarrow> Return (- 1)
        | d # _ \<Rightarrow> if is_digit d then scanDigits out' (k + 1) maxLen r else Go out' r))"

definition SCAN_INT :: "nat \<Rightarrow> string \<Rightarrow> int scan" where
  "SCAN_INT maxLen = sbind (CHECK is_digit) (\<lambda>_. scanDigits 0 0 maxLen)"

definition SCAN_SIGNED_INT :: "nat \<Rightarrow> string \<Rightarrow> int scan" where
  "SCAN_SIGNED_INT maxLen =
    sbind peek (\<lambda>c.
      if c = CHR ''-'' then
        sbind ADVANCE (\<lambda>_. sbind (SCAN_INT maxLen) (\<lambda>v. sreturn (- v)))
      else SCAN_INT maxLen)"

section \<open>The matchers\<close>

record MouseRecord =
  release :: bool
  flags :: int
  coord :: Coord

definition zeroMouseRecord :: MouseRecord where
  "zeroMouseRecord = \<lparr>release = False, flags = 0, coord = mkCoord 0 0\<rparr>"

definition lit :: "char \<Rightarrow> string \<Rightarrow> unit scan" where
  "lit c = sbind (CHECK (\<lambda>x. x = c)) (\<lambda>_. ADVANCE)"

text \<open>The end of a matcher: \<open>return checkedNarrow<int>(pch - input + 1)\<close>.\<close>

definition finish :: "(string \<Rightarrow> 'a scan) \<Rightarrow> 'a \<Rightarrow> string \<Rightarrow> (int \<times> 'a) option" where
  "finish p z s =
    (case p s of
       Return v \<Rightarrow> Some (v, z)
     | Abort \<Rightarrow> None
     | Go x r \<Rightarrow> Some (int (length s) - int (length r) + 1, x))"

definition dsrBody :: "string \<Rightarrow> unit scan" where
  "dsrBody =
    sbind (lit (CHR 0x1B)) (\<lambda>_. sbind (lit (CHR ''['')) (\<lambda>_.
    sbind (SCAN_INT 8) (\<lambda>_.
    sbind (lit (CHR '';'')) (\<lambda>_.
    sbind (SCAN_INT 8) (\<lambda>_.
    CHECK (\<lambda>c. c = CHR ''R''))))))"

definition matchDsr :: "string \<Rightarrow> int option" where
  "matchDsr input = map_option fst (finish dsrBody () input)"

text \<open>\<open>*pch\<close> is a signed \<open>char\<close>; the mask makes the difference a byte.\<close>

definition schar :: "char \<Rightarrow> int" where
  "schar c = (let n = of_char c in if n < 128 then n else n - 256)"

definition byteMinus :: "char \<Rightarrow> int \<Rightarrow> int" where
  "byteMinus c k = (schar c - k) AND 0xFF"

definition mouseDefaultBody :: "string \<Rightarrow> MouseRecord scan" where
  "mouseDefaultBody =
    sbind (lit (CHR 0x1B)) (\<lambda>_. sbind (lit (CHR ''['')) (\<lambda>_. sbind (lit (CHR ''M'')) (\<lambda>_.
    sbind peek (\<lambda>f. sbind ADVANCE (\<lambda>_.
    sbind peek (\<lambda>x. sbind ADVANCE (\<lambda>_.
    sbind peek (\<lambda>y.
    sreturn \<lparr>release = False, flags = byteMinus f 32,
             coord = mkCoord (byteMinus x 33) (byteMinus y 33)\<rparr>))))))))"

definition matchMouseDefault :: "string \<Rightarrow> (int \<times> MouseRecord) option" where
  "matchMouseDefault = finish mouseDefaultBody zeroMouseRecord"

definition mouse1006Body :: "string \<Rightarrow> MouseRecord scan" where
  "mouse1006Body =
    sbind (lit (CHR 0x1B)) (\<lambda>_. sbind (lit (CHR ''['')) (\<lambda>_. sbind (lit (CHR ''<'')) (\<lambda>_.
    sbind (SCAN_INT 8) (\<lambda>f.
    sbind (lit (CHR '';'')) (\<lambda>_.
    sbind (SCAN_SIGNED_INT 8) (\<lambda>tx.
    sbind (narrowShort (tx - 1)) (\<lambda>x.
    sbind (lit (CHR '';'')) (\<lambda>_.
    sbind (SCAN_SIGNED_INT 8) (\<lambda>ty.
    sbind (narrowShort (ty - 1)) (\<lambda>y.
    sbind (CHECK (\<lambda>c. c = CHR ''M'' \<or> c = CHR ''m'')) (\<lambda>_.
    sbind peek (\<lambda>c.
    sreturn \<lparr>release = (c = CHR ''m''), flags = f, coord = mkCoord x y\<rparr>))))))))))))"

definition matchMouse1006 :: "string \<Rightarrow> (int \<times> MouseRecord) option" where
  "matchMouse1006 = finish mouse1006Body zeroMouseRecord"

definition mouse1015Body :: "string \<Rightarrow> MouseRecord scan" where
  "mouse1015Body =
    sbind (lit (CHR 0x1B)) (\<lambda>_. sbind (lit (CHR ''['')) (\<lambda>_.
    sbind (SCAN_INT 8) (\<lambda>f.
    sbind (lit (CHR '';'')) (\<lambda>_.
    sbind (SCAN_SIGNED_INT 8) (\<lambda>tx.
    sbind (narrowShort (tx - 1)) (\<lambda>x.
    sbind (lit (CHR '';'')) (\<lambda>_.
    sbind (SCAN_SIGNED_INT 8) (\<lambda>ty.
    sbind (narrowShort (ty - 1)) (\<lambda>y.
    sbind (CHECK (\<lambda>c. c = CHR ''M'')) (\<lambda>_.
    sreturn \<lparr>release = False, flags = f - 32, coord = mkCoord x y\<rparr>))))))))))"

definition matchMouse1015 :: "string \<Rightarrow> (int \<times> MouseRecord) option" where
  "matchMouse1015 = finish mouse1015Body zeroMouseRecord"

text \<open>
  The caller uses the record only when the length is positive, and every matcher that returns
  a positive length has set all four fields, so what a failed matcher left in the record
  does not matter.
\<close>

definition matchMouseRecord :: "string \<Rightarrow> (int \<times> MouseRecord) option" where
  "matchMouseRecord input =
    do {
      (r, out) \<leftarrow> matchMouse1006 input;
      if r \<noteq> 0 then Some (r, out) else
      do {
        (r, out) \<leftarrow> matchMouse1015 input;
        if r \<noteq> 0 then Some (r, out) else
        do {
          (r, out) \<leftarrow> matchMouseDefault input;
          if r \<noteq> 0 then Some (r, out) else Some (0, zeroMouseRecord) } } }"

section \<open>Matchers do not look ahead\<close>

text \<open>
  \<open>good p\<close>: on a nonempty rest, \<open>p\<close> leaves with 0 or -1 or goes on at a nonempty rest that is not
  longer, and every answer other than -1 is kept when more input follows.
\<close>

definition good :: "(string \<Rightarrow> 'a scan) \<Rightarrow> bool" where
  "good p \<longleftrightarrow> (\<forall>s. s \<noteq> [] \<longrightarrow>
    (case p s of
       Return v \<Rightarrow> v = - 1 \<or> v = 0 \<and> (\<forall>q. p (s @ q) = Return 0)
     | Abort \<Rightarrow> (\<forall>q. p (s @ q) = Abort)
     | Go x r \<Rightarrow> r \<noteq> [] \<and> length r \<le> length s \<and> (\<forall>q. p (s @ q) = Go x (r @ q))))"

lemma goodI:
  assumes "\<And>s v. s \<noteq> [] \<Longrightarrow> p s = Return v \<Longrightarrow> v = - 1 \<or> v = 0 \<and> (\<forall>q. p (s @ q) = Return 0)"
    and "\<And>s q. s \<noteq> [] \<Longrightarrow> p s = Abort \<Longrightarrow> p (s @ q) = Abort"
    and "\<And>s x r q. s \<noteq> [] \<Longrightarrow> p s = Go x r \<Longrightarrow>
      r \<noteq> [] \<and> length r \<le> length s \<and> p (s @ q) = Go x (r @ q)"
  shows "good p"
  using assms unfolding good_def by (auto split: scan.splits)

lemma goodD:
  assumes "good p" and "s \<noteq> []"
  shows "p s = Return v \<Longrightarrow> v = - 1 \<or> v = 0 \<and> (\<forall>q. p (s @ q) = Return 0)"
    and "p s = Abort \<Longrightarrow> p (s @ q) = Abort"
    and "p s = Go x r \<Longrightarrow> r \<noteq> [] \<and> length r \<le> length s \<and> p (s @ q) = Go x (r @ q)"
  using assms unfolding good_def by (auto dest!: spec [of _ s])

lemma good_bind [intro]:
  assumes p: "good p" and f: "\<And>x. good (f x)"
  shows "good (sbind p f)"
proof (rule goodI)
  fix s v assume s: "s \<noteq> []" and v: "sbind p f s = Return v"
  show "v = - 1 \<or> v = 0 \<and> (\<forall>q. sbind p f (s @ q) = Return 0)"
  proof (cases "p s")
    case (Return w)
    then show ?thesis using v goodD(1) [OF p s Return] by (auto simp: sbind_def)
  next
    case (Go x r)
    then have r: "r \<noteq> []" and ext: "\<And>q. p (s @ q) = Go x (r @ q)"
      using goodD(3) [OF p s Go] by auto
    have "f x r = Return v" using v Go by (simp add: sbind_def)
    from goodD(1) [OF f r this] show ?thesis by (auto simp: sbind_def ext)
  qed (use v in \<open>simp add: sbind_def\<close>)
next
  fix s q assume s: "s \<noteq> []" and v: "sbind p f s = Abort"
  show "sbind p f (s @ q) = Abort"
  proof (cases "p s")
    case Abort
    then show ?thesis using goodD(2) [OF p s Abort] by (auto simp: sbind_def)
  next
    case (Go x r)
    then have r: "r \<noteq> []" and ext: "\<And>q. p (s @ q) = Go x (r @ q)"
      using goodD(3) [OF p s Go] by auto
    have "f x r = Abort" using v Go by (simp add: sbind_def)
    from goodD(2) [OF f r this] show ?thesis by (auto simp: sbind_def ext)
  qed (use v in \<open>simp add: sbind_def\<close>)
next
  fix s x r q assume s: "s \<noteq> []" and v: "sbind p f s = Go x r"
  then obtain y t where Go: "p s = Go y t" by (auto simp: sbind_def split: scan.splits)
  then have t: "t \<noteq> []" "length t \<le> length s" and ext: "\<And>q. p (s @ q) = Go y (t @ q)"
    using goodD(3) [OF p s Go] by auto
  have "f y t = Go x r" using v Go by (simp add: sbind_def)
  from goodD(3) [OF f t(1) this, of q] goodD(3) [OF f t(1) this, of "[]"] t(2)
  show "r \<noteq> [] \<and> length r \<le> length s \<and> sbind p f (s @ q) = Go x (r @ q)"
    by (auto simp: sbind_def ext)
qed

lemma good_return [intro, simp]: "good (sreturn x)"
  by (simp add: good_def sreturn_def)

lemma good_check [intro, simp]: "good (CHECK P)"
  by (rule goodI) (auto simp: CHECK_def split: list.splits if_splits)

lemma good_advance [intro, simp]: "good ADVANCE"
  by (rule goodI) (auto simp: ADVANCE_def split: if_splits)

lemma good_peek [intro, simp]: "good peek"
  by (rule goodI) (auto simp: peek_def split: list.splits)

lemma good_narrow [intro, simp]: "good (narrowShort v)"
  by (rule goodI) (auto simp: narrowShort_def split: option.splits)

lemma scanDigits_Cons:
  "scanDigits out k maxLen (c # d # r) =
    (if \<not> (k + 1 < maxLen) then Return 0
     else if is_digit d then scanDigits (out * 10 + int (digit_val c)) (k + 1) maxLen (d # r)
     else Go (out * 10 + int (digit_val c)) (d # r))"
  "scanDigits out k maxLen [c] = (if \<not> (k + 1 < maxLen) then Return 0 else Return (- 1))"
  by (simp_all add: Let_def)

declare scanDigits.simps(2) [simp del]

lemma good_digits [intro, simp]: "good (scanDigits out k maxLen)"
proof -
  have "s \<noteq> [] \<Longrightarrow>
    (case scanDigits out k maxLen s of
       Return v \<Rightarrow> v = - 1 \<or> v = 0 \<and> (\<forall>q. scanDigits out k maxLen (s @ q) = Return 0)
     | Abort \<Rightarrow> (\<forall>q. scanDigits out k maxLen (s @ q) = Abort)
     | Go x r \<Rightarrow> r \<noteq> [] \<and> length r \<le> length s \<and> (\<forall>q. scanDigits out k maxLen (s @ q) = Go x (r @ q)))"
    for s
  proof (induction s arbitrary: out k)
    case (Cons c s)
    note IHs = Cons.IH
    show ?case
    proof (cases s)
      case Nil
      have "scanDigits out k maxLen (c # q) = Return 0" if "\<not> k + 1 < maxLen" for q
        using that by (cases q) (simp_all add: scanDigits_Cons)
      then show ?thesis using Nil by (simp add: scanDigits_Cons)
    next
      case (Cons d r)
      then have "s \<noteq> []" by simp
      note IH = IHs [OF this, of "out * 10 + int (digit_val c)" "k + 1"]
      show ?thesis using IH Cons
        by (cases "scanDigits (out * 10 + int (digit_val c)) (k + 1) maxLen (d # r)")
          (simp_all add: scanDigits_Cons)
    qed
  qed simp
  then show ?thesis by (simp add: good_def)
qed

lemma good_scan_int [intro, simp]: "good (SCAN_INT n)"
  unfolding SCAN_INT_def by (rule good_bind) auto

lemma good_scan_signed_int [intro, simp]: "good (SCAN_SIGNED_INT n)"
  unfolding SCAN_SIGNED_INT_def by (rule good_bind) auto

lemma good_lit [intro, simp]: "good (lit c)"
  unfolding lit_def by (rule good_bind) auto

lemma good_bodies:
  "good dsrBody" "good mouseDefaultBody" "good mouse1006Body" "good mouse1015Body"
  unfolding dsrBody_def mouseDefaultBody_def mouse1006Body_def mouse1015Body_def
  by (intro good_bind good_return good_check good_peek good_advance good_narrow good_scan_int
      good_scan_signed_int good_lit)+

lemma finish_good:
  assumes g: "good p" and s: "s \<noteq> []"
  shows "finish p z s = Some (n, x) \<Longrightarrow> - 1 \<le> n \<and> n \<le> int (length s)"
    and "finish p z s = Some (n, x) \<Longrightarrow> n \<noteq> - 1 \<Longrightarrow> finish p z (s @ q) = Some (n, x)"
    and "finish p z s = None \<Longrightarrow> finish p z (s @ q) = None"
proof -
  show "finish p z s = Some (n, x) \<Longrightarrow> - 1 \<le> n \<and> n \<le> int (length s)"
    using goodD(1) [OF g s] goodD(3) [OF g s]
    by (cases "p s") (auto simp: finish_def Suc_le_eq)
  show "finish p z s = Some (n, x) \<Longrightarrow> n \<noteq> - 1 \<Longrightarrow> finish p z (s @ q) = Some (n, x)"
    using goodD(1) [OF g s] goodD(3) [OF g s]
    by (cases "p s") (auto simp: finish_def)
  show "finish p z s = None \<Longrightarrow> finish p z (s @ q) = None"
    using goodD(2) [OF g s] by (cases "p s") (auto simp: finish_def)
qed

lemma match_stable:
  assumes "s \<noteq> []"
  shows "matchDsr s = Some n \<Longrightarrow> - 1 \<le> n \<and> n \<le> int (length s)"
    and "matchDsr s = Some n \<Longrightarrow> n \<noteq> - 1 \<Longrightarrow> matchDsr (s @ q) = Some n"
    and "matchDsr s = None \<Longrightarrow> matchDsr (s @ q) = None"
  using finish_good [OF good_bodies(1) assms, of "()"]
  unfolding matchDsr_def by (fastforce, fastforce, simp)

lemmas mouse_defs_finish = matchMouse1006_def matchMouse1015_def matchMouseDefault_def

lemma matchMouseRecord_stable:
  assumes s: "s \<noteq> []"
  shows "matchMouseRecord s = Some (n, x) \<Longrightarrow> - 1 \<le> n \<and> n \<le> int (length s)"
    and "matchMouseRecord s = Some (n, x) \<Longrightarrow> n \<noteq> - 1 \<Longrightarrow> matchMouseRecord (s @ q) = Some (n, x)"
    and "matchMouseRecord s = None \<Longrightarrow> matchMouseRecord (s @ q) = None"
proof -
  note f1 = finish_good [OF good_bodies(3) s, where z = zeroMouseRecord, folded matchMouse1006_def]
  note f2 = finish_good [OF good_bodies(4) s, where z = zeroMouseRecord, folded matchMouse1015_def]
  note f3 = finish_good [OF good_bodies(2) s, where z = zeroMouseRecord, folded matchMouseDefault_def]
  show "matchMouseRecord s = Some (n, x) \<Longrightarrow> - 1 \<le> n \<and> n \<le> int (length s)"
    using f1(1) f2(1) f3(1)
    by (auto simp: matchMouseRecord_def bind_Some_iff split: if_splits)
  show "matchMouseRecord s = Some (n, x) \<Longrightarrow> n \<noteq> - 1 \<Longrightarrow> matchMouseRecord (s @ q) = Some (n, x)"
    using f1(2) f2(2) f3(2)
    by (auto simp: matchMouseRecord_def bind_Some_iff split: if_splits)
  assume N: "matchMouseRecord s = None"
  show "matchMouseRecord (s @ q) = None"
  proof (cases "matchMouse1006 s")
    case None
    then show ?thesis using f1(3) by (simp add: matchMouseRecord_def)
  next
    case (Some a)
    then have a: "matchMouse1006 s = Some (0, snd a)" using N
      by (cases a) (auto simp: matchMouseRecord_def split: if_splits)
    note a' = f1(2) [OF a, of q, simplified]
    show ?thesis
    proof (cases "matchMouse1015 s")
      case None
      then show ?thesis using f2(3) a' by (simp add: matchMouseRecord_def)
    next
      case (Some b)
      then have b: "matchMouse1015 s = Some (0, snd b)" using N a
        by (cases b) (auto simp: matchMouseRecord_def split: if_splits)
      note b' = f2(2) [OF b, of q, simplified]
      have "matchMouseDefault s = None" using N a b
        by (cases "matchMouseDefault s") (auto simp: matchMouseRecord_def split: if_splits)
      then show ?thesis using f3(3) a' b' by (simp add: matchMouseRecord_def)
    qed
  qed
qed

section \<open>Reports are read back\<close>

lemma scanDigits_digits:
  assumes "ds \<noteq> []" "\<forall>c \<in> set ds. is_digit c" "k + length ds < maxLen" "\<not> is_digit d"
  shows "scanDigits (int a) k maxLen (ds @ d # r) =
    Go (int (foldl (\<lambda>a c. 10 * a + digit_val c) a ds)) (d # r)"
  using assms
proof (induction ds arbitrary: a k)
  case (Cons c ds)
  have e: "int a * 10 + int (digit_val c) = int (10 * a + digit_val c)" by simp
  show ?case
  proof (cases ds)
    case Nil
    then show ?thesis using Cons.prems by (simp add: scanDigits_Cons)
  next
    case (Cons c' ds')
    have "scanDigits (int (10 * a + digit_val c)) (k + 1) maxLen (ds @ d # r) =
        Go (int (foldl (\<lambda>a c. 10 * a + digit_val c) (10 * a + digit_val c) ds)) (d # r)"
      using Cons.prems \<open>ds = c' # ds'\<close> by (intro Cons.IH) auto
    then show ?thesis using Cons.prems \<open>ds = c' # ds'\<close> by (simp add: scanDigits_Cons e)
  qed
qed simp

lemma SCAN_INT_decimal:
  assumes "length (decimal n) < maxLen" and "\<not> is_digit d"
  shows "SCAN_INT maxLen (decimal n @ d # r) = Go (int n) (d # r)"
proof -
  obtain c cs where c: "decimal n = c # cs" by (cases "decimal n") auto
  have "is_digit c" by (rule decimal_digits [of c n]) (simp add: c)
  moreover have "scanDigits (int 0) 0 maxLen (decimal n @ d # r) = Go (int (digits_val (decimal n))) (d # r)"
    using assms unfolding digits_val_def by (intro scanDigits_digits) (auto simp: decimal_digits)
  ultimately show ?thesis using digits_val_decimal [of n] by (simp add: SCAN_INT_def sbind_def CHECK_def c)
qed

text \<open>The decimal numeral of an integer, with a sign when it is negative.\<close>

definition signed_decimal :: "int \<Rightarrow> string" where
  "signed_decimal i = (if i < 0 then CHR ''-'' # decimal (nat (- i)) else decimal (nat i))"

lemma SCAN_SIGNED_INT_decimal:
  assumes "length (decimal (nat \<bar>i\<bar>)) < maxLen" and "\<not> is_digit d"
  shows "SCAN_SIGNED_INT maxLen (signed_decimal i @ d # r) = Go i (d # r)"
proof (cases "i < 0")
  case True
  then show ?thesis using SCAN_INT_decimal [of "nat (- i)" maxLen d r] assms
    by (simp add: SCAN_SIGNED_INT_def signed_decimal_def sbind_def peek_def ADVANCE_def sreturn_def)
next
  case False
  obtain c cs where c: "decimal (nat i) = c # cs" by (cases "decimal (nat i)") auto
  have "is_digit c" by (rule decimal_digits [of c "nat i"]) (simp add: c)
  then have "c \<noteq> CHR ''-''" by (auto simp: is_digit_def less_eq_char_def)
  then show ?thesis using SCAN_INT_decimal [of "nat i" maxLen d r] assms False c
    by (simp add: SCAN_SIGNED_INT_def signed_decimal_def sbind_def peek_def)
qed

lemma length_decimal: "n < 10 ^ Suc k \<Longrightarrow> length (decimal n) \<le> Suc k"
proof (induction k arbitrary: n)
  case 0
  then show ?case by (subst decimal.simps) simp
next
  case (Suc k)
  then have "n div 10 < 10 ^ Suc k" by (simp add: less_mult_imp_div_less mult.commute)
  from Suc.IH [OF this] show ?case by (subst decimal.simps) simp
qed

lemma lit_hit: "lit c (c # d # r) = Go () (d # r)"
  by (simp add: lit_def sbind_def CHECK_def ADVANCE_def)

lemma hd_decimal: "\<exists>c r. decimal n @ t = c # r"
  by (cases "decimal n") auto

lemma lit_decimal: "lit c (c # decimal n @ t) = Go () (decimal n @ t)"
  using hd_decimal [of n t] lit_hit by metis

lemma lit_signed: "lit c (c # signed_decimal i @ t) = Go () (signed_decimal i @ t)"
  using lit_decimal [of c "nat i" t] hd_decimal [of "nat (- i)" t]
  by (auto simp: signed_decimal_def lit_hit)

definition sgr_report :: "nat \<Rightarrow> int \<Rightarrow> int \<Rightarrow> bool \<Rightarrow> string" where
  "sgr_report f x y rel =
    CHR 0x1B # CHR ''['' # CHR ''<'' # decimal f @ CHR '';'' # signed_decimal x @ CHR '';'' #
    signed_decimal y @ [if rel then CHR ''m'' else CHR ''M'']"

lemma not_digits:
  "\<not> is_digit (CHR '';'')" "\<not> is_digit (CHR ''M'')" "\<not> is_digit (CHR ''m'')" "\<not> is_digit (CHR ''R'')"
  by (simp_all add: is_digit_def less_eq_char_def)

text \<open>
  An SGR (1006) mouse report with coordinates in the range of a console coordinate is read
  back: the match spans the whole report, and flags, zero-based position and press or release
  are the ones reported, whatever input follows.
\<close>

lemma mouse_sgr_roundtrip:
  assumes "f < 10000000" and "\<bar>x\<bar> \<le> 32767" and "\<bar>y\<bar> \<le> 32767"
  shows "matchMouseRecord (sgr_report f x y rel @ rest) =
    Some (int (length (sgr_report f x y rel)),
          \<lparr>release = rel, flags = int f, coord = mkCoord (x - 1) (y - 1)\<rparr>)"
proof -
  have lf: "length (decimal f) < 8" using length_decimal [of f 6] assms(1) by simp
  have lx: "length (decimal (nat \<bar>x\<bar>)) < 8" 
    using length_decimal [of "nat \<bar>x\<bar>" 6] assms(2) by (simp add: nat_less_iff)
  have ly: "length (decimal (nat \<bar>y\<bar>)) < 8" 
    using length_decimal [of "nat \<bar>y\<bar>" 6] assms(3) by (simp add: nat_less_iff)
  have nx: "narrowShort (x - 1) s = Go (x - 1) s" "narrowShort (y - 1) s = Go (y - 1) s" for s
    using assms(2,3) by (auto simp: narrowShort_def checkedNarrow_eq)
  define e where "e = (if rel then CHR ''m'' else CHR ''M'')"
  have e: "\<not> is_digit e" "e = CHR ''m'' \<longleftrightarrow> rel" "e = CHR ''M'' \<or> e = CHR ''m''"
    using not_digits by (auto simp: e_def)
  note scans = SCAN_INT_decimal [OF lf not_digits(1)] SCAN_SIGNED_INT_decimal [OF lx not_digits(1)]
    SCAN_SIGNED_INT_decimal [OF ly e(1)]
  have body: "mouse1006Body (sgr_report f x y rel @ rest) =
      Go \<lparr>release = rel, flags = int f, coord = mkCoord (x - 1) (y - 1)\<rparr> (e # rest)"
    using scans e by (simp add: mouse1006Body_def sgr_report_def e_def [symmetric] sbind_def lit_hit
        lit_decimal lit_signed nx CHECK_def peek_def sreturn_def)
  then have "matchMouse1006 (sgr_report f x y rel @ rest) =
      Some (int (length (sgr_report f x y rel)),
        \<lparr>release = rel, flags = int f, coord = mkCoord (x - 1) (y - 1)\<rparr>)"
    by (simp add: matchMouse1006_def finish_def)
  then show ?thesis by (simp add: matchMouseRecord_def sgr_report_def)
qed

end
