(* ===== verification/ConsoleInputReencoding.thy ===== *)
theory ConsoleInputReencoding
  imports WinTypes UnicodeEncoding Geometry
begin

text \<open>
  The construction of key records (\<open>appendInputRecord\<close> and \<open>appendCPInputRecords\<close> of
  src/agent/ConsoleInput.cc) and the re-encoding of key presses as escape sequences for a
  console in escape-input mode (src/agent/ConsoleInputReencoding.cc). The keyboard functions of
  Windows are parameters; a list of records is threaded through, and a failed narrowing ends
  the process.
\<close>

section \<open>The environment\<close>

text \<open>
  What the console and the keyboard layout answer while one batch of input is handled:
  \<open>GetConsoleMode\<close> (\<^term>\<open>None\<close> when it fails), \<open>VkKeyScan\<close>, \<open>MapVirtualKey(_, MAPVK_VK_TO_VSC)\<close>,
  \<open>GetTickCount64\<close> and \<open>GetDoubleClickTime\<close>.
\<close>

record Env =
  consoleMode :: "u32 option"
  vkKeyScan :: "u16 \<Rightarrow> u16"
  mapVirtualKey :: "u16 \<Rightarrow> u32"
  tickCount :: u64
  doubleClickTime :: u32

text \<open>Scan codes of the layout fit a \<open>WORD\<close>, as the documentation of the function says.\<close>

definition env_ok :: "Env \<Rightarrow> bool" where
  "env_ok env \<longleftrightarrow> (\<forall>vk. uint (mapVirtualKey env vk) \<le> 65535)"

definition sample_env :: Env where
  "sample_env = \<lparr>consoleMode = Some 0, vkKeyScan = (\<lambda>_. 0xFFFF), mapVirtualKey = (\<lambda>_. 0),
     tickCount = 0, doubleClickTime = 500\<rparr>"

lemma env_ok_sample: "env_ok sample_env"
  by (simp add: env_ok_def sample_env_def)

section \<open>Key records\<close>

type_synonym Records = "INPUT_RECORD list"

definition appendInputRecord ::
    "Env \<Rightarrow> bool \<Rightarrow> u16 \<Rightarrow> u16 \<Rightarrow> u16 \<Rightarrow> Records \<Rightarrow> Records option" where
  "appendInputRecord env keyDown vk utf16Char st records =
    do {
      sc \<leftarrow> checkedNarrow WORD_range (uint (mapVirtualKey env vk));
      Some (records @ [KeyEvent
        \<lparr>bKeyDown = keyDown, wRepeatCount = 1, wVirtualKeyCode = vk,
         wVirtualScanCode = word_of_int sc, UnicodeChar = utf16Char,
         keyControlState = ucast st\<rparr>]) }"

definition appendCPInputRecords ::
    "Env \<Rightarrow> bool \<Rightarrow> u16 \<Rightarrow> u32 \<Rightarrow> u16 \<Rightarrow> Records \<Rightarrow> Records option" where
  "appendCPInputRecords env keyDown vk codePoint st records =
    (case encodeUtf16 codePoint of
       [w] \<Rightarrow> appendInputRecord env keyDown vk w st records
     | [w1, w2] \<Rightarrow>
         do { r \<leftarrow> appendInputRecord env keyDown vk w1 st records;
              appendInputRecord env keyDown vk w2 st r }
     | _ \<Rightarrow> Some records)"

section \<open>Re-encoding\<close>

definition outch :: "Env \<Rightarrow> u16 \<Rightarrow> Records \<Rightarrow> Records option" where
  "outch env ch out = appendInputRecord env True 0 ch 0 out"

text \<open>\<open>EscapedKey\<close> with its kind; \<open>Numeric\<close> holds the two characters of \<open>content\<close>.\<close>

datatype EscapedKey = KindNone | Numeric u16 u16 | Letter u16

definition escapeCodeOf :: "u16 \<Rightarrow> EscapedKey" where
  "escapeCodeOf vk =
    (if vk = VK_UP then Letter 0x41
     else if vk = VK_DOWN then Letter 0x42
     else if vk = VK_RIGHT then Letter 0x43
     else if vk = VK_LEFT then Letter 0x44
     else if vk = VK_CLEAR then Letter 0x45
     else if vk = VK_F1 then Numeric 0x31 0x31
     else if vk = VK_F2 then Numeric 0x31 0x32
     else if vk = VK_F3 then Numeric 0x31 0x33
     else if vk = VK_F4 then Numeric 0x31 0x34
     else if vk = VK_F5 then Numeric 0x31 0x35
     else if vk = VK_F6 then Numeric 0x31 0x37
     else if vk = VK_F7 then Numeric 0x31 0x38
     else if vk = VK_F8 then Numeric 0x31 0x39
     else if vk = VK_F9 then Numeric 0x32 0x30
     else if vk = VK_F10 then Numeric 0x32 0x31
     else if vk = VK_F11 then Numeric 0x32 0x33
     else if vk = VK_F12 then Numeric 0x32 0x34
     else if vk = VK_HOME then Letter 0x48
     else if vk = VK_INSERT then Numeric 0x32 0
     else if vk = VK_DELETE then Numeric 0x33 0
     else if vk = VK_END then Letter 0x46
     else if vk = VK_PRIOR then Numeric 0x35 0
     else if vk = VK_NEXT then Numeric 0x36 0
     else KindNone)"

definition modifierFlags :: "u16 \<Rightarrow> int" where
  "modifierFlags st =
    (if st AND SHIFT_PRESSED \<noteq> 0 then 0x1 else 0) OR
    (if st AND LEFT_ALT_PRESSED \<noteq> 0 then 0x2 else 0) OR
    (if st AND LEFT_CTRL_PRESSED \<noteq> 0 then 0x4 else 0)"

definition outEscapedKey :: "Env \<Rightarrow> EscapedKey \<Rightarrow> int \<Rightarrow> Records \<Rightarrow> Records option" where
  "outEscapedKey env code flgs r0 =
    do {
      r1 \<leftarrow> outch env 0x1B r0;
      r2 \<leftarrow> outch env 0x5B r1;
      r3 \<leftarrow> (case code of
               Numeric a b \<Rightarrow> foreach (\<lambda>ch out. if ch \<noteq> 0 then outch env ch out else Some out) [a, b] r2
             | _ \<Rightarrow> (if flgs \<noteq> 0 then outch env 0x31 r2 else Some r2));
      r4 \<leftarrow> (if flgs \<noteq> 0 then
              do { r \<leftarrow> outch env 0x3B r3;
                   d \<leftarrow> checkedNarrow WORD_range (0x31 + flgs);
                   outch env (word_of_int d) r }
            else Some r3);
      (case code of Numeric a b \<Rightarrow> outch env 0x7E r4 | Letter c \<Rightarrow> outch env c r4
         | KindNone \<Rightarrow> Some r4) }"

definition reencodeEscapedKeyPress :: "Env \<Rightarrow> u16 \<Rightarrow> u32 \<Rightarrow> u16 \<Rightarrow> Records \<Rightarrow> Records option" where
  "reencodeEscapedKeyPress env vk codePoint st out =
    (if escapeCodeOf vk \<noteq> KindNone then outEscapedKey env (escapeCodeOf vk) (modifierFlags st) out
     else if vk = VK_BACK then
       do { r \<leftarrow> (if st AND LEFT_ALT_PRESSED \<noteq> 0 then outch env 0x1B out else Some out);
            outch env 0x7F r }
     else if vk = VK_TAB \<and> st AND SHIFT_PRESSED \<noteq> 0 then
       do { r \<leftarrow> outch env 0x1B out; r \<leftarrow> outch env 0x5B r; outch env 0x5A r }
     else if codePoint \<noteq> 0 then
       do { r \<leftarrow> (if st AND LEFT_ALT_PRESSED \<noteq> 0 then outch env 0x1B out else Some out);
            appendCPInputRecords env True 0 codePoint 0 r }
     else Some out)"

section \<open>The text that is typed\<close>

text \<open>The characters of the key-down records: what an application reads.\<close>

definition typed :: "INPUT_RECORD \<Rightarrow> u16 list" where
  "typed r = (case r of KeyEvent k \<Rightarrow> if bKeyDown k then [UnicodeChar k] else [] | MouseEvent _ \<Rightarrow> [])"

definition typed_text :: "Records \<Rightarrow> u16 list" where
  "typed_text rs = concat (map typed rs)"

lemma typed_text_append [simp]: "typed_text (xs @ ys) = typed_text xs @ typed_text ys"
  by (simp add: typed_text_def)

definition keyRecord :: "Env \<Rightarrow> bool \<Rightarrow> u16 \<Rightarrow> u16 \<Rightarrow> u16 \<Rightarrow> INPUT_RECORD" where
  "keyRecord env keyDown vk ch st = KeyEvent
     \<lparr>bKeyDown = keyDown, wRepeatCount = 1, wVirtualKeyCode = vk,
      wVirtualScanCode = word_of_int (uint (mapVirtualKey env vk)), UnicodeChar = ch,
      keyControlState = ucast st\<rparr>"

lemma appendInputRecord_ok:
  "env_ok env \<Longrightarrow> appendInputRecord env kd vk ch st rs = Some (rs @ [keyRecord env kd vk ch st])"
  by (simp add: appendInputRecord_def checkedNarrow_eq env_ok_def keyRecord_def)

lemma appendCPInputRecords_ok:
  "env_ok env \<Longrightarrow> appendCPInputRecords env kd vk cp st rs =
    Some (rs @ map (\<lambda>w. keyRecord env kd vk w st) (encodeUtf16 cp))"
  by (auto simp: appendCPInputRecords_def encodeUtf16_def Let_def appendInputRecord_ok)

lemma outch_ok: "env_ok env \<Longrightarrow> outch env ch rs = Some (rs @ [keyRecord env True 0 ch 0])"
  by (simp add: outch_def appendInputRecord_ok)

lemma typed_keyRecord [simp]: "typed_text [keyRecord env True vk ch st] = [ch]"
  "typed_text [keyRecord env False vk ch st] = []"
  by (simp_all add: typed_text_def typed_def keyRecord_def)

lemma typed_keyRecords [simp]: "typed_text (map (\<lambda>w. keyRecord env True vk w st) ws) = ws"
  by (induction ws) (simp_all add: typed_text_def typed_def keyRecord_def)

lemma modifierFlags_range: "0 \<le> modifierFlags st \<and> modifierFlags st \<le> 7"
  by (simp add: modifierFlags_def)

text \<open>The escape sequence that is typed for a special key.\<close>

definition escape_text :: "EscapedKey \<Rightarrow> int \<Rightarrow> u16 list" where
  "escape_text code flgs =
    [0x1B, 0x5B] @
    (case code of Numeric a b \<Rightarrow> filter (\<lambda>c. c \<noteq> 0) [a, b]
       | _ \<Rightarrow> if flgs \<noteq> 0 then [0x31] else []) @
    (if flgs \<noteq> 0 then [0x3B, word_of_int (0x31 + flgs)] else []) @
    (case code of Numeric a b \<Rightarrow> [0x7E] | Letter c \<Rightarrow> [c] | KindNone \<Rightarrow> [])"

lemma typed_text_Cons: "typed_text (r # rs) = typed r @ typed_text rs"
  by (simp add: typed_text_def)

lemma typed_Nil [simp]: "typed_text [] = []"
  by (simp add: typed_text_def)

lemma typed_key [simp]: "typed (keyRecord env True vk ch st) = [ch]"
  "typed (keyRecord env False vk ch st) = []"
  by (simp_all add: typed_def keyRecord_def)

text \<open>The records for a typed sequence, and for a re-encoded key press.\<close>

definition typeRecords :: "Env \<Rightarrow> u16 list \<Rightarrow> Records" where
  "typeRecords env ws = map (\<lambda>w. keyRecord env True 0 w 0) ws"

lemma typed_typeRecords [simp]: "typed_text (typeRecords env ws) = ws"
  by (simp add: typeRecords_def)

lemma outEscapedKey_ok:
  assumes env: "env_ok env" and f: "0 \<le> flgs" "flgs \<le> 7"
  shows "outEscapedKey env code flgs rs = Some (rs @ typeRecords env (escape_text code flgs))"
  using f
  by (cases code) (auto simp: outEscapedKey_def outch_ok [OF env] checkedNarrow_eq escape_text_def
      typeRecords_def)

definition reencoded_text :: "u16 \<Rightarrow> u32 \<Rightarrow> u16 \<Rightarrow> u16 list" where
  "reencoded_text vk codePoint st =
    (if escapeCodeOf vk \<noteq> KindNone then escape_text (escapeCodeOf vk) (modifierFlags st)
     else if vk = VK_BACK then (if st AND LEFT_ALT_PRESSED \<noteq> 0 then [0x1B] else []) @ [0x7F]
     else if vk = VK_TAB \<and> st AND SHIFT_PRESSED \<noteq> 0 then [0x1B, 0x5B, 0x5A]
     else if codePoint \<noteq> 0
     then (if st AND LEFT_ALT_PRESSED \<noteq> 0 then [0x1B] else []) @ encodeUtf16 codePoint
     else [])"

lemma reencode_ok:
  assumes env: "env_ok env"
  shows "reencodeEscapedKeyPress env vk cp st rs = Some (rs @ typeRecords env (reencoded_text vk cp st))"
  using outEscapedKey_ok [OF env, of "modifierFlags st" "escapeCodeOf vk" rs] modifierFlags_range [of st]
  by (auto simp: reencodeEscapedKeyPress_def outch_ok [OF env] appendCPInputRecords_ok [OF env]
      reencoded_text_def typeRecords_def)

end
