(* ===== verification/ConsoleInput.thy ===== *)
theory ConsoleInput
  imports ConsoleInputReencoding DefaultInputMap ScanMatch
begin

text \<open>
  The input side of the agent (src/agent/ConsoleInput.cc and .h): bytes from the terminal are
  queued, scanned into escape sequences, mouse reports, Alt-characters and UTF-8 characters, and
  turned into console input records.

  The state is the object's fields, the vector \<open>records\<close> that \<open>doWrite\<close> passes by reference
  (\<open>pending\<close>), and the sequence of calls made to the console and to the DSR sender (\<open>evlog\<close>). The
  answers of Windows are the \<^typ>\<open>Env\<close> of one batch; a failed assertion is \<^term>\<open>None\<close>.

  The lemmas: the scanner consumes at least one byte or asks for more, so the write loop
  terminates; its result on a complete sequence does not depend on what follows, so the way the
  bytes are cut into batches does not change what is delivered; mouse positions stay inside the
  window; key presses press and release the modifiers in matching order.
\<close>

section \<open>State\<close>

datatype Event =
    WroteInput Records
  | CtrlCEvent
  | KeyMessage bool u16 u32
  | SentDsr
  | SetMode u32

record DoubleClickDetection =
  dc_button :: u32
  dc_pos :: Coord
  dc_tick :: u64
  dc_released :: bool

definition noDoubleClick :: DoubleClickDetection where
  "noDoubleClick = \<lparr>dc_button = 0, dc_pos = mkCoord 0 0, dc_tick = 0, dc_released = False\<rparr>"

record ConsoleInputState =
  m_mouseMode :: int
  m_dsrSent :: bool
  m_byteQueue :: string
  m_inputMap :: Node
  m_lastWriteTick :: u64
  m_mouseButtonState :: u32
  m_doubleClick :: DoubleClickDetection
  m_enableExtendedEnabled :: bool
  m_mouseInputEnabled :: bool
  m_quickEditEnabled :: bool
  m_escapeInputEnabled :: bool
  m_mouseWindowRect :: SmallRect
  pending :: Records
  evlog :: "Event list"

definition VT7PTY_MOUSE_MODE_AUTO :: int where "VT7PTY_MOUSE_MODE_AUTO = 1"
definition VT7PTY_MOUSE_MODE_FORCE :: int where "VT7PTY_MOUSE_MODE_FORCE = 2"
definition kIncompleteEscapeTimeoutMs :: u64 where "kIncompleteEscapeTimeoutMs = 1000"

definition log_event :: "Event \<Rightarrow> ConsoleInputState \<Rightarrow> ConsoleInputState" where
  "log_event e st = st\<lparr>evlog := evlog st @ [e]\<rparr>"

section \<open>Records and keys\<close>

definition inputConsoleMode :: "Env \<Rightarrow> u32" where
  "inputConsoleMode env = (case consoleMode env of None \<Rightarrow> 0 | Some m \<Rightarrow> m)"

definition flushInputRecords :: "ConsoleInputState \<Rightarrow> ConsoleInputState option" where
  "flushInputRecords st =
    (if pending st = [] then Some st
     else do {
       _ \<leftarrow> checkedNarrow DWORD_range (int (length (pending st)));
       Some (log_event (WroteInput (pending st)) (st\<lparr>pending := []\<rparr>)) })"

definition keyMessageLParam :: "Env \<Rightarrow> bool \<Rightarrow> u16 \<Rightarrow> u32" where
  "keyMessageLParam env isKeyDown vk =
    (let scanCode = mapVirtualKey env vk; scanCode = (if scanCode > 255 then 0 else scanCode)
     in push_bit 16 scanCode OR 1 OR (if isKeyDown then 0 else 0xc0000000))"

definition sendKeyMessage :: "Env \<Rightarrow> bool \<Rightarrow> u16 \<Rightarrow> ConsoleInputState \<Rightarrow> ConsoleInputState" where
  "sendKeyMessage env isKeyDown vk st =
    log_event (KeyMessage isKeyDown vk (keyMessageLParam env isKeyDown vk)) st"

text \<open>A function on the vector of records, run on the one of the state.\<close>

definition onRecords :: "(Records \<Rightarrow> Records option) \<Rightarrow> ConsoleInputState \<Rightarrow> ConsoleInputState option" where
  "onRecords f st = do { r \<leftarrow> f (pending st); Some (st\<lparr>pending := r\<rparr>) }"

definition pressModifiers ::
    "Env \<Rightarrow> bool \<Rightarrow> bool \<Rightarrow> bool \<Rightarrow> bool \<Rightarrow> Records \<Rightarrow> (u16 \<times> Records) option" where
  "pressModifiers env ctrl leftAlt rightAlt shift r0 =
    do {
      (s1, r1) \<leftarrow> (if ctrl then
        (let s = 0 OR LEFT_CTRL_PRESSED
         in do { r \<leftarrow> appendInputRecord env True VK_CONTROL 0 s r0; Some (s, r) }) else Some (0, r0));
      (s2, r2) \<leftarrow> (if leftAlt then
        (let s = s1 OR LEFT_ALT_PRESSED
         in do { r \<leftarrow> appendInputRecord env True VK_MENU 0 s r1; Some (s, r) }) else Some (s1, r1));
      (s3, r3) \<leftarrow> (if rightAlt then
        (let s = s2 OR RIGHT_ALT_PRESSED
         in do { r \<leftarrow> appendInputRecord env True VK_MENU 0 (s OR ENHANCED_KEY) r2; Some (s, r) })
        else Some (s2, r2));
      (if shift then
        (let s = s3 OR SHIFT_PRESSED
         in do { r \<leftarrow> appendInputRecord env True VK_SHIFT 0 s r3; Some (s, r) }) else Some (s3, r3)) }"

definition releaseModifiers ::
    "Env \<Rightarrow> bool \<Rightarrow> bool \<Rightarrow> bool \<Rightarrow> bool \<Rightarrow> u16 \<Rightarrow> Records \<Rightarrow> Records option" where
  "releaseModifiers env ctrl leftAlt rightAlt shift s0 r0 =
    do {
      (s1, r1) \<leftarrow> (if shift then
        (let s = s0 AND NOT SHIFT_PRESSED
         in do { r \<leftarrow> appendInputRecord env False VK_SHIFT 0 s r0; Some (s, r) }) else Some (s0, r0));
      (s2, r2) \<leftarrow> (if rightAlt then
        (let s = s1 AND NOT RIGHT_ALT_PRESSED
         in do { r \<leftarrow> appendInputRecord env False VK_MENU 0 (s OR ENHANCED_KEY) r1; Some (s, r) })
        else Some (s1, r1));
      (s3, r3) \<leftarrow> (if leftAlt then
        (let s = s2 AND NOT LEFT_ALT_PRESSED
         in do { r \<leftarrow> appendInputRecord env False VK_MENU 0 s r2; Some (s, r) }) else Some (s2, r2));
      (if ctrl then
        (let s = s3 AND NOT LEFT_CTRL_PRESSED
         in appendInputRecord env False VK_CONTROL 0 s r3) else Some r3) }"

definition keyPressRecords ::
    "Env \<Rightarrow> bool \<Rightarrow> u16 \<Rightarrow> u32 \<Rightarrow> u32 \<Rightarrow> u16 \<Rightarrow> u32 \<Rightarrow> u16 \<Rightarrow> Records \<Rightarrow> Records option" where
  "keyPressRecords env escapeInput vk winDn winUp winKeyState vtCodePoint vtKeyState r0 =
    (let ctrl = winKeyState AND LEFT_CTRL_PRESSED \<noteq> 0;
         leftAlt = winKeyState AND LEFT_ALT_PRESSED \<noteq> 0;
         rightAlt = winKeyState AND RIGHT_ALT_PRESSED \<noteq> 0;
         shift = winKeyState AND SHIFT_PRESSED \<noteq> 0;
         enhanced = winKeyState AND ENHANCED_KEY \<noteq> 0
     in do {
       (s1, r1) \<leftarrow> pressModifiers env ctrl leftAlt rightAlt shift r0;
       let s2 = (if enhanced then s1 OR ENHANCED_KEY else s1);
       r2 \<leftarrow> (if escapeInput then reencodeEscapedKeyPress env vk vtCodePoint vtKeyState r1
             else appendCPInputRecords env True vk winDn s2 r1);
       r3 \<leftarrow> appendCPInputRecords env False vk winUp s2 r2;
       let s3 = (if enhanced then s2 AND NOT ENHANCED_KEY else s2);
       releaseModifiers env ctrl leftAlt rightAlt shift s3 r3 })"

definition appendKeyPress ::
    "Env \<Rightarrow> u16 \<Rightarrow> u32 \<Rightarrow> u32 \<Rightarrow> u16 \<Rightarrow> u32 \<Rightarrow> u16 \<Rightarrow> ConsoleInputState \<Rightarrow> ConsoleInputState option" where
  "appendKeyPress env vk winDn winUp winKeyState vtCodePoint vtKeyState st =
    (if m_escapeInputEnabled st \<and> vk \<in> {VK_UP, VK_DOWN, VK_LEFT, VK_RIGHT, VK_HOME, VK_END} \<and>
        \<not> winKeyState AND LEFT_CTRL_PRESSED \<noteq> 0 \<and> \<not> winKeyState AND LEFT_ALT_PRESSED \<noteq> 0 \<and>
        \<not> winKeyState AND RIGHT_ALT_PRESSED \<noteq> 0 \<and> \<not> winKeyState AND SHIFT_PRESSED \<noteq> 0
     then do {
       st \<leftarrow> flushInputRecords st;
       Some (sendKeyMessage env False vk (sendKeyMessage env True vk st)) }
     else onRecords (keyPressRecords env (m_escapeInputEnabled st) vk winDn winUp winKeyState
            vtCodePoint vtKeyState) st)"

text \<open>\<open>charBuffer\<close> is the rest of the input at the character; the decoder reads the character only.\<close>

definition appendUtf8Char ::
    "Env \<Rightarrow> string \<Rightarrow> bool \<Rightarrow> ConsoleInputState \<Rightarrow> ConsoleInputState option" where
  "appendUtf8Char env charBuffer terminalAltEscape st =
    (let codePoint = decodeUtf8 (map byte_of charBuffer) in
     if codePoint = - 1 then Some st
     else do {
       charScan \<leftarrow> (if codePoint > 0xFFFF then Some (- 1)
                  else do { w \<leftarrow> checkedNarrow WORD_range (uint codePoint);
                            Some (vkKeyScan env (word_of_int w)) });
       let vk = (if charScan \<noteq> - 1 then charScan AND 0xFF else 0);
       let st0 = (if charScan \<noteq> - 1 then
                    (if charScan AND 0x100 \<noteq> 0 then SHIFT_PRESSED else 0) OR
                    (if charScan AND 0x200 \<noteq> 0 then LEFT_CTRL_PRESSED else 0) OR
                    (if charScan AND 0x400 \<noteq> 0 then RIGHT_ALT_PRESSED else 0)
                  else 0);
       let clear = (charScan \<noteq> - 1 \<and> terminalAltEscape \<and> st0 AND LEFT_CTRL_PRESSED \<noteq> 0);
       let winDn = (if clear then 0 else codePoint);
       let winUp = (if clear \<or> terminalAltEscape then 0 else codePoint);
       let winKeyState = (if terminalAltEscape then st0 OR LEFT_ALT_PRESSED else st0);
       let vtKeyState = (if terminalAltEscape then LEFT_ALT_PRESSED else 0);
       appendKeyPress env vk winDn winUp winKeyState codePoint vtKeyState st })"

section \<open>Mouse input\<close>

definition clampToWindow :: "int \<Rightarrow> int \<Rightarrow> int \<Rightarrow> int option" where
  "clampToWindow origin x extent = checkedNarrow SHORT_range (origin + max 0 (min x (extent - 1)))"

definition relevantFlagOf :: "int \<Rightarrow> u32" where
  "relevantFlagOf button =
    (if button = 0 then FROM_LEFT_1ST_BUTTON_PRESSED
     else if button = 1 then FROM_LEFT_2ND_BUTTON_PRESSED
     else if button = 2 then RIGHTMOST_BUTTON_PRESSED
     else 0)"

definition mouseModifiers :: "int \<Rightarrow> u32" where
  "mouseModifiers flgs =
    (if flgs AND 0x04 \<noteq> 0 then ucast SHIFT_PRESSED else 0) OR
    (if flgs AND 0x08 \<noteq> 0 then ucast LEFT_ALT_PRESSED else 0) OR
    (if flgs AND 0x10 \<noteq> 0 then ucast LEFT_CTRL_PRESSED else 0)"

text \<open>
  A button event that is not a wheel event: the new button state and double-click detection, and
  the \<open>DOUBLE_CLICK\<close> flag to set in the event.
\<close>

definition buttonEvent ::
    "Env \<Rightarrow> MouseRecord \<Rightarrow> ConsoleInputState \<Rightarrow> (u32 \<times> ConsoleInputState) option" where
  "buttonEvent env rec st =
    (let button = flags rec AND 0x03 in
     if button = 3 then
       Some (0, st\<lparr>m_mouseButtonState := 0,
                   m_doubleClick := (m_doubleClick st)\<lparr>dc_released := True\<rparr>\<rparr>)
     else
       (let relevantFlag = relevantFlagOf button in
        do {
          ASSERT (relevantFlag \<noteq> 0);
          if release rec then
            (let st = st\<lparr>m_mouseButtonState := m_mouseButtonState st AND NOT relevantFlag\<rparr> in
             if relevantFlag = dc_button (m_doubleClick st)
             then Some (0, st\<lparr>m_doubleClick := (m_doubleClick st)\<lparr>dc_released := True\<rparr>\<rparr>)
             else Some (0, st\<lparr>m_doubleClick := noDoubleClick\<rparr>))
          else if m_mouseButtonState st AND relevantFlag = 0 then
            (let st = st\<lparr>m_mouseButtonState := m_mouseButtonState st OR relevantFlag\<rparr> in
             if dc_button (m_doubleClick st) = relevantFlag \<and>
                dc_pos (m_doubleClick st) = coord rec \<and>
                tickCount env - dc_tick (m_doubleClick st) < ucast (doubleClickTime env)
             then Some (DOUBLE_CLICK, st\<lparr>m_doubleClick := noDoubleClick\<rparr>)
             else Some (0, st\<lparr>m_doubleClick := (m_doubleClick st)
                      \<lparr>dc_button := relevantFlag, dc_pos := coord rec, dc_tick := tickCount env\<rparr>\<rparr>))
          else Some (0, st) }))"

definition pushMouseEvent ::
    "Coord \<Rightarrow> u32 \<Rightarrow> u32 \<Rightarrow> u32 \<Rightarrow> ConsoleInputState \<Rightarrow> ConsoleInputState" where
  "pushMouseEvent pos buttons control evflags st =
    (if m_mouseInputEnabled st \<and> \<not> m_quickEditEnabled st
     then st\<lparr>pending := pending st @ [MouseEvent
       \<lparr>mousePosition = (X pos, Y pos), dwButtonState = buttons, mouseControlState = control,
        dwEventFlags = evflags\<rparr>]\<rparr>
     else st)"

definition mouseRecordEvent :: "Env \<Rightarrow> MouseRecord \<Rightarrow> ConsoleInputState \<Rightarrow> ConsoleInputState option" where
  "mouseRecordEvent env rec st =
    do {
      w \<leftarrow> rect_width (m_mouseWindowRect st);
      x \<leftarrow> clampToWindow (Left (m_mouseWindowRect st)) (X (coord rec)) w;
      h \<leftarrow> rect_height (m_mouseWindowRect st);
      y \<leftarrow> clampToWindow (Top (m_mouseWindowRect st)) (Y (coord rec)) h;
      let pos = mkCoord x y;
      let control = mouseModifiers (flags rec);
      let button = flags rec AND 0x03;
      if flags rec AND 0x40 \<noteq> 0 then
        (if button = 0 then
           Some (pushMouseEvent pos (0x00780000 OR m_mouseButtonState st) control MOUSE_WHEELED st)
         else if button = 1 then
           Some (pushMouseEvent pos (0xff880000 OR m_mouseButtonState st) control MOUSE_WHEELED st)
         else Some st)
      else do {
        (dbl, st') \<leftarrow> buttonEvent env rec st;
        let evflags = (if flags rec AND 0x20 \<noteq> 0 then MOUSE_MOVED else 0) OR dbl;
        Some (pushMouseEvent pos (m_mouseButtonState st') control evflags st') } }"

definition scanMouseInput :: "Env \<Rightarrow> string \<Rightarrow> ConsoleInputState \<Rightarrow> (int \<times> ConsoleInputState) option" where
  "scanMouseInput env input st =
    do {
      (len, rec) \<leftarrow> matchMouseRecord input;
      if len \<le> 0 then Some (len, st)
      else do { st' \<leftarrow> mouseRecordEvent env rec st; Some (len, st') } }"

section \<open>Scanning\<close>

definition scanChar :: "Env \<Rightarrow> string \<Rightarrow> ConsoleInputState \<Rightarrow> (int \<times> ConsoleInputState) option" where
  "scanChar env input st =
    (let len = utf8CharLength (byte_of (hd input)) in
     if len = 0 then Some (1, st)
     else if len > length input then Some (- 1, st)
     else do { st' \<leftarrow> appendUtf8Char env input False st; Some (int len, st') })"

definition scanAltChar :: "Env \<Rightarrow> string \<Rightarrow> ConsoleInputState \<Rightarrow> (int \<times> ConsoleInputState) option" where
  "scanAltChar env input st =
    (if hd input = ESC \<and> length input \<ge> 2 \<and> input ! 1 \<noteq> ESC then
       (let len = utf8CharLength (byte_of (input ! 1)) in
        if len > 0 then
          (if 1 + len > length input then Some (- 1, st)
           else do { st' \<leftarrow> appendUtf8Char env (tl input) True st; Some (1 + int len, st') })
        else scanChar env input st)
     else scanChar env input st)"

definition scanKey :: "Env \<Rightarrow> bool \<Rightarrow> string \<Rightarrow> ConsoleInputState \<Rightarrow> (int \<times> ConsoleInputState) option" where
  "scanKey env isEof input st =
    (case lookupKey (m_inputMap st) input of (matchLen, k, incomplete) \<Rightarrow>
       if \<not> isEof \<and> incomplete then Some (- 1, st)
       else if matchLen > 0 then
         (let winDn = (if keyState k AND LEFT_CTRL_PRESSED \<noteq> 0 \<and> keyState k AND LEFT_ALT_PRESSED \<noteq> 0
                       then 0 else unicodeChar k);
              winUp = (if keyState k AND LEFT_ALT_PRESSED \<noteq> 0 then 0 else winDn)
          in do {
            st' \<leftarrow> appendKeyPress env (virtualKey k) winDn winUp (keyState k) (unicodeChar k) (keyState k) st;
            Some (int matchLen, st') })
       else scanAltChar env input st)"

definition scanInput :: "Env \<Rightarrow> bool \<Rightarrow> string \<Rightarrow> ConsoleInputState \<Rightarrow> (int \<times> ConsoleInputState) option" where
  "scanInput env isEof input st =
    do {
      ASSERT (length input \<ge> 1);
      if hd input = CHR 0x03 \<and> inputConsoleMode env AND ENABLE_PROCESSED_INPUT \<noteq> 0 then
        do { st' \<leftarrow> flushInputRecords st; Some (1, log_event CtrlCEvent st') }
      else if hd input = ESC then
        do {
          dsrLen \<leftarrow> matchDsr input;
          if dsrLen > 0 then Some (dsrLen, st\<lparr>m_dsrSent := False\<rparr>)
          else if \<not> isEof \<and> dsrLen = - 1 then Some (- 1, st)
          else do {
            (mouseLen, st') \<leftarrow> scanMouseInput env input st;
            if mouseLen > 0 \<or> (\<not> isEof \<and> mouseLen = - 1) then Some (mouseLen, st')
            else scanKey env isEof input st' } }
      else scanKey env isEof input st }"

section \<open>The scanner makes progress\<close>

lemma lookupKey_le: "lookupKey root s = (n, k, inc) \<Longrightarrow> n \<le> length s"
  using lookupLoop_match [of root s 0 0 kKeyZero n k inc] by (auto simp: lookupKey_def)

lemma scanChar_progress:
  "inp \<noteq> [] \<Longrightarrow> scanChar env inp st = Some (n, st') \<Longrightarrow> n = - 1 \<or> 1 \<le> n \<and> n \<le> int (length inp)"
  by (auto simp: scanChar_def Let_def bind_Some_iff Suc_le_eq split: if_splits)

lemma scanAltChar_progress:
  assumes "inp \<noteq> []" "scanAltChar env inp st = Some (n, st')"
  shows "n = - 1 \<or> 1 \<le> n \<and> n \<le> int (length inp)"
  using assms scanChar_progress [OF assms(1), of env st n st']
  by (auto simp: scanAltChar_def Let_def bind_Some_iff split: if_splits)

lemma scanKey_progress:
  assumes "inp \<noteq> []" "scanKey env isEof inp st = Some (n, st')"
  shows "n = - 1 \<or> 1 \<le> n \<and> n \<le> int (length inp)"
proof -
  obtain m k inc where L: "lookupKey (m_inputMap st) inp = (m, k, inc)" by (metis prod_cases3)
  from lookupKey_le [OF L] have m: "m \<le> length inp" .
  show ?thesis
  proof (cases "\<not> isEof \<and> inc")
    case True
    then show ?thesis using assms(2) L by (simp add: scanKey_def)
  next
    case False
    show ?thesis
    proof (cases "m > 0")
      case True
      then have "n = int m"
        using assms(2) L False by (auto simp: scanKey_def Let_def bind_Some_iff simp del: not_imp)
      then show ?thesis using m True by simp
    next
      case no: False
      then have "scanAltChar env inp st = Some (n, st')"
        using assms(2) L False by (auto simp: scanKey_def)
      then show ?thesis by (rule scanAltChar_progress [OF assms(1)])
    qed
  qed
qed

lemma scanMouseInput_len:
  assumes "inp \<noteq> []" "scanMouseInput env inp st = Some (n, st')"
  shows "- 1 \<le> n \<and> n \<le> int (length inp)" and "n \<le> 0 \<Longrightarrow> st' = st"
  using assms(2) matchMouseRecord_stable(1) [OF assms(1)]
  by (auto simp: scanMouseInput_def bind_Some_iff split: if_splits)

lemma scanInput_progress:
  assumes "scanInput env isEof inp st = Some (n, st')"
  shows "n = - 1 \<or> 1 \<le> n \<and> n \<le> int (length inp)"
proof -
  have ne: "inp \<noteq> []" using assms by (auto simp: scanInput_def bind_Some_iff)
  then have l: "1 \<le> int (length inp)" by (cases inp) auto
  show ?thesis
  proof (cases "hd inp = CHR 0x03 \<and> inputConsoleMode env AND ENABLE_PROCESSED_INPUT \<noteq> 0")
    case True
    then show ?thesis using assms l by (auto simp: scanInput_def bind_Some_iff)
  next
    case False
    note noctrl = this
    show ?thesis
    proof (cases "hd inp = ESC")
      case True
      then obtain d where d: "matchDsr inp = Some d"
        using assms noctrl by (auto simp: scanInput_def bind_Some_iff)
      from match_stable(1) [OF ne d] have dl: "- 1 \<le> d" "d \<le> int (length inp)" by auto
      consider "d > 0" "n = d" | "n = - 1" | m st1 where "scanMouseInput env inp st = Some (m, st1)"
          "m > 0 \<and> n = m \<or> n = - 1 \<or> scanKey env isEof inp st1 = Some (n, st')"
        using assms noctrl True d
        by (auto simp: scanInput_def bind_Some_iff split: if_splits)
      then show ?thesis
      proof cases
        case 3
        then show ?thesis using scanMouseInput_len(1) [OF ne 3(1)] scanKey_progress [OF ne, of env isEof st1 n st'] by auto
      qed (use dl in auto)
    next
      case False
      then have "scanKey env isEof inp st = Some (n, st')"
        using assms noctrl by (auto simp: scanInput_def bind_Some_iff split: if_splits)
      then show ?thesis by (rule scanKey_progress [OF ne])
    qed
  qed
qed

section \<open>Writing input\<close>

text \<open>
  The loop of \<open>doWrite\<close>; \<open>data\<close> is the queue from \<open>idx\<close> on. It gives the state and the rest that
  stays in the queue.
\<close>

function doWriteLoop :: "Env \<Rightarrow> bool \<Rightarrow> string \<Rightarrow> ConsoleInputState \<Rightarrow> (string \<times> ConsoleInputState) option" where
  "doWriteLoop env isEof data st =
    (if data = [] then Some (data, st)
     else
       (case checkedNarrow int_range (int (length data)) of
          None \<Rightarrow> None
        | Some _ \<Rightarrow>
           (case scanInput env isEof data st of
              None \<Rightarrow> None
            | Some (charSize, st') \<Rightarrow>
                if charSize = - 1 then Some (data, st')
                else doWriteLoop env isEof (drop (nat charSize) data) st')))"
  by pat_completeness auto
termination
proof (relation "measure (\<lambda>(env, isEof, data, st). length data)")
  show "wf (measure (\<lambda>(env :: Env, isEof :: bool, data :: string, st :: ConsoleInputState). length data))"
    by simp
next
  fix env :: Env and isEof :: bool and data :: string and st :: ConsoleInputState
    and i :: int and r :: "int \<times> ConsoleInputState" and charSize :: int and st' :: ConsoleInputState
  assume ne: "data \<noteq> []" and s: "scanInput env isEof data st = Some r"
    and r: "(charSize, st') = r" and n: "charSize \<noteq> - 1"
  have "1 \<le> charSize" using scanInput_progress [of env isEof data st charSize st'] s r n by simp
  then have "length (drop (nat charSize) data) < length data" using ne by simp
  then show "((env, isEof, drop (nat charSize) data, st'), env, isEof, data, st)
      \<in> measure (\<lambda>(env, isEof, data, st). length data)" by simp
qed

declare doWriteLoop.simps [simp del]

definition doWrite :: "Env \<Rightarrow> bool \<Rightarrow> ConsoleInputState \<Rightarrow> ConsoleInputState option" where
  "doWrite env isEof st =
    do {
      (rest, st1) \<leftarrow> doWriteLoop env isEof (m_byteQueue st) (st\<lparr>pending := []\<rparr>);
      flushInputRecords (st1\<lparr>m_byteQueue := rest\<rparr>) }"

definition writeInput :: "Env \<Rightarrow> string \<Rightarrow> ConsoleInputState \<Rightarrow> ConsoleInputState option" where
  "writeInput env input st =
    (if length input = 0 then Some st
     else do {
       st1 \<leftarrow> doWrite env False (st\<lparr>m_byteQueue := m_byteQueue st @ input\<rparr>);
       let st2 = (if m_byteQueue st1 \<noteq> [] \<and> \<not> m_dsrSent st1
                  then (log_event SentDsr st1)\<lparr>m_dsrSent := True\<rparr> else st1);
       Some (st2\<lparr>m_lastWriteTick := tickCount env\<rparr>) })"

definition flushIncompleteEscapeCode :: "Env \<Rightarrow> ConsoleInputState \<Rightarrow> ConsoleInputState option" where
  "flushIncompleteEscapeCode env st =
    (if m_byteQueue st \<noteq> [] \<and> tickCount env - m_lastWriteTick st > kIncompleteEscapeTimeoutMs
     then do { st1 \<leftarrow> doWrite env True st; Some (st1\<lparr>m_byteQueue := []\<rparr>) }
     else Some st)"

definition updateInputFlags :: "Env \<Rightarrow> ConsoleInputState \<Rightarrow> ConsoleInputState" where
  "updateInputFlags env st =
    (let mode = inputConsoleMode env in
     st\<lparr>m_enableExtendedEnabled := (mode AND ENABLE_EXTENDED_FLAGS \<noteq> 0),
        m_mouseInputEnabled := (mode AND ENABLE_MOUSE_INPUT \<noteq> 0),
        m_quickEditEnabled := (mode AND ENABLE_QUICK_EDIT_MODE \<noteq> 0),
        m_escapeInputEnabled := (mode AND 0x200 \<noteq> 0)\<rparr>)"

definition shouldActivateTerminalMouse :: "ConsoleInputState \<Rightarrow> bool" where
  "shouldActivateTerminalMouse st =
    (if m_mouseMode st = VT7PTY_MOUSE_MODE_AUTO
     then m_mouseInputEnabled st \<and> \<not> m_quickEditEnabled st \<and> m_enableExtendedEnabled st
     else m_mouseMode st = VT7PTY_MOUSE_MODE_FORCE)"

definition setMouseWindowRect :: "SmallRect \<Rightarrow> ConsoleInputState \<Rightarrow> ConsoleInputState" where
  "setMouseWindowRect r st = st\<lparr>m_mouseWindowRect := r\<rparr>"

text \<open>\<open>env'\<close> holds the answers after the mode was set, which \<open>updateInputFlags\<close> reads again.\<close>

definition newConsoleInput :: "Env \<Rightarrow> Env \<Rightarrow> int \<Rightarrow> ConsoleInputState option" where
  "newConsoleInput env env' mouseMode =
    do {
      inputMap \<leftarrow> addDefaultEntriesToInputMap newNode;
      let st0 = \<lparr>m_mouseMode = mouseMode, m_dsrSent = False, m_byteQueue = [], m_inputMap = inputMap,
        m_lastWriteTick = 0, m_mouseButtonState = 0, m_doubleClick = noDoubleClick,
        m_enableExtendedEnabled = False, m_mouseInputEnabled = False, m_quickEditEnabled = False,
        m_escapeInputEnabled = False, m_mouseWindowRect = emptyRect, pending = [], evlog = []\<rparr>;
      let st1 = (case consoleMode env of
          None \<Rightarrow> st0
        | Some mode \<Rightarrow>
            (let mode = mode OR ENABLE_EXTENDED_FLAGS OR ENABLE_INSERT_MODE;
                 mode = (if mouseMode = VT7PTY_MOUSE_MODE_AUTO then mode OR ENABLE_QUICK_EDIT_MODE
                         else mode AND NOT ENABLE_QUICK_EDIT_MODE)
             in log_event (SetMode mode) st0));
      Some (updateInputFlags env' st1) }"

section \<open>Cutting a stream into batches\<close>

text \<open>
  A scanner over a byte stream and the loop that runs it. The laws are what makes the result
  independent of the batches in which the bytes arrive: an answer other than \<open>incomplete\<close> is
  final, and an incomplete one leaves the state alone.
\<close>

locale stream_scanner =
  fixes inv :: "'s \<Rightarrow> bool"
    and scan :: "string \<Rightarrow> 's \<Rightarrow> (int \<times> 's) option"
    and loop :: "string \<Rightarrow> 's \<Rightarrow> (string \<times> 's) option"
    and bound :: nat
  assumes scan_inv: "inv s \<Longrightarrow> scan d s = Some (n, s') \<Longrightarrow> inv s'"
    and progress: "scan d s = Some (n, s') \<Longrightarrow> n = - 1 \<or> 1 \<le> n \<and> n \<le> int (length d)"
    and incomplete_keeps: "inv s \<Longrightarrow> scan d s = Some (- 1, s') \<Longrightarrow> s' = s"
    and final: "inv s \<Longrightarrow> d \<noteq> [] \<Longrightarrow> scan d s = Some (n, s') \<Longrightarrow> n \<noteq> - 1 \<Longrightarrow>
      scan (d @ e) s = Some (n, s')"
    and final_abort: "inv s \<Longrightarrow> d \<noteq> [] \<Longrightarrow> scan d s = None \<Longrightarrow> scan (d @ e) s = None"
    and loop_eq: "length d \<le> bound \<Longrightarrow> loop d s =
      (if d = [] then Some (d, s)
       else (case scan d s of
               None \<Rightarrow> None
             | Some (n, s') \<Rightarrow> if n = - 1 then Some (d, s') else loop (drop (nat n) d) s'))"
begin

lemma loop_inv:
  "inv s \<Longrightarrow> length d \<le> bound \<Longrightarrow> loop d s = Some (r, s') \<Longrightarrow> inv s'"
proof (induction "length d" arbitrary: d s rule: less_induct)
  case less
  show ?case
  proof (cases "d = []")
    case True
    then show ?thesis using less.prems by (simp add: loop_eq)
  next
    case False
    then obtain n s1 where S: "scan d s = Some (n, s1)"
      using less.prems(2,3) by (auto simp: loop_eq split: option.splits)
    have i: "inv s1" by (rule scan_inv [OF less.prems(1) S])
    show ?thesis
    proof (cases "n = - 1")
      case True
      then show ?thesis using S False less.prems(2,3) i by (simp add: loop_eq)
    next
      case n: False
      then have "1 \<le> n" using progress [OF S] by simp
      then have "length (drop (nat n) d) < length d" using False by simp
      moreover have "loop (drop (nat n) d) s1 = Some (r, s')"
        using S False n less.prems(2,3) by (simp add: loop_eq)
      ultimately show ?thesis using less.hyps [of "drop (nat n) d" s1] i less.prems(2) by simp
    qed
  qed
qed

lemma loop_append:
  "inv s \<Longrightarrow> length (d @ e) \<le> bound \<Longrightarrow>
   loop (d @ e) s = (case loop d s of None \<Rightarrow> None | Some (r, s') \<Rightarrow> loop (r @ e) s')"
proof (induction "length d" arbitrary: d s rule: less_induct)
  case less
  have ld: "length d \<le> bound" using less.prems(2) by simp
  show ?case
  proof (cases "d = []")
    case True
    then show ?thesis by (simp add: loop_eq)
  next
    case False
    show ?thesis
    proof (cases "scan d s")
      case None
      from final_abort [OF less.prems(1) False this, of e] None False show ?thesis
        using less.prems(2) ld by (simp add: loop_eq)
    next
      case (Some a)
      obtain n s1 where a: "a = (n, s1)" by fastforce
      show ?thesis
      proof (cases "n = - 1")
        case True
        then have "s1 = s" using incomplete_keeps less.prems(1) Some a by blast
        then show ?thesis using True Some a False ld by (simp add: loop_eq [of d])
      next
        case n: False
        have "1 \<le> n \<and> n \<le> int (length d)" using progress [of d s n s1] Some a n by auto
        then have n1: "1 \<le> nat n" "nat n \<le> length d" by auto
        have e1: "scan (d @ e) s = Some (n, s1)"
          using final [OF less.prems(1) False] Some a n by simp
        have "loop (drop (nat n) d @ e) s1 =
            (case loop (drop (nat n) d) s1 of None \<Rightarrow> None | Some (r, s') \<Rightarrow> loop (r @ e) s')"
          using less.hyps [of "drop (nat n) d" s1] n1 False less.prems Some a
            scan_inv [of s d n s1] by simp
        then show ?thesis
          using e1 Some a n n1 False less.prems(2) ld
          by (simp add: loop_eq [of "d @ e"] loop_eq [of d])
      qed
    qed
  qed
qed

end

section \<open>The scanner is final on complete input\<close>

definition input_inv :: "ConsoleInputState \<Rightarrow> bool" where
  "input_inv st \<longleftrightarrow> map_inv (m_inputMap st)"

lemma decodeUtf8_extend:
  assumes "s \<noteq> []" "utf8CharLength (byte_of (hd s)) \<le> length s"
  shows "decodeUtf8 (map byte_of (s @ q)) = decodeUtf8 (map byte_of s)"
proof (cases s)
  case (Cons c t)
  have "utf8CharLength (byte_of c) \<le> 4" by (simp add: utf8CharLength_def)
  then show ?thesis using assms Cons
    by (cases t; cases "tl t"; cases "tl (tl t)") (auto simp: decodeUtf8_def Let_def)
qed (use assms in simp)

lemma appendUtf8Char_extend:
  assumes "s \<noteq> []" "utf8CharLength (byte_of (hd s)) \<le> length s"
  shows "appendUtf8Char env (s @ q) alt st = appendUtf8Char env s alt st"
  unfolding appendUtf8Char_def decodeUtf8_extend [OF assms] by (rule refl)

lemma scanChar_final:
  assumes "s \<noteq> []"
  shows "scanChar env s st = Some (- 1, st) \<or> scanChar env (s @ q) st = scanChar env s st"
  using assms appendUtf8Char_extend [OF assms, of env q False st]
  by (cases "utf8CharLength (byte_of (hd s)) > length s") (auto simp: scanChar_def Let_def)

lemma scanAltChar_final:
  assumes "s \<noteq> []" and "hd s = ESC \<Longrightarrow> 2 \<le> length s"
  shows "scanAltChar env s st = Some (- 1, st) \<or> scanAltChar env (s @ q) st = scanAltChar env s st"
proof (cases "hd s = ESC \<and> s ! 1 \<noteq> ESC \<and> utf8CharLength (byte_of (s ! 1)) > 0")
  case True
  then have two: "2 \<le> length s" using assms(2) by simp
  then obtain a b t where s: "s = a # b # t"
    by (cases s; cases "tl s") auto
  show ?thesis
  proof (cases "1 + utf8CharLength (byte_of b) > length s")
    case inc: True
    then show ?thesis using True s by (simp add: scanAltChar_def)
  next
    case False
    then have "appendUtf8Char env ((b # t) @ q) True st = appendUtf8Char env (b # t) True st"
      using s by (intro appendUtf8Char_extend) auto
    then show ?thesis using True s False by (simp add: scanAltChar_def Let_def)
  qed
next
  case False
  have two: "(s @ q) ! 1 = s ! 1" if "hd s = ESC" using assms(2) that by (simp add: nth_append)
  have "scanAltChar env s st = scanChar env s st"
    using False assms by (auto simp: scanAltChar_def Let_def)
  moreover have "scanAltChar env (s @ q) st = scanChar env (s @ q) st"
    using False assms two by (auto simp: scanAltChar_def Let_def)
  ultimately show ?thesis using scanChar_final [OF assms(1)] by simp
qed

lemma scanKey_final:
  assumes "s \<noteq> []" and "hd s = ESC \<Longrightarrow> 2 \<le> length s" and inv: "input_inv st"
  shows "scanKey env False s st = Some (- 1, st) \<or> scanKey env False (s @ q) st = scanKey env False s st"
proof -
  obtain m k inc where L: "lookupKey (m_inputMap st) s = (m, k, inc)" by (metis prod_cases3)
  show ?thesis
  proof (cases inc)
    case True
    then show ?thesis using L by (simp add: scanKey_def)
  next
    case False
    then have L2: "lookupKey (m_inputMap st) (s @ q) = (m, k, False)"
      using ilook.complete_stable [of "m_inputMap st" s m k q] L inv by (simp add: input_inv_def)
    show ?thesis
      using scanAltChar_final [OF assms(1,2), of env st q] L L2 False
      by (cases "m > 0") (auto simp: scanKey_def)
  qed
qed

lemma scanInput_ESC:
  assumes "s \<noteq> []" "hd s = ESC"
  shows "scanInput env e s st =
    do {
      dsrLen \<leftarrow> matchDsr s;
      if dsrLen > 0 then Some (dsrLen, st\<lparr>m_dsrSent := False\<rparr>)
      else if \<not> e \<and> dsrLen = - 1 then Some (- 1, st)
      else do {
        (mouseLen, st') \<leftarrow> scanMouseInput env s st;
        if mouseLen > 0 \<or> (\<not> e \<and> mouseLen = - 1) then Some (mouseLen, st')
        else scanKey env e s st' } }"
proof -
  have "1 \<le> length s" using assms(1) by (simp add: Suc_le_eq)
  moreover have "ESC \<noteq> CHR 0x03" by (simp add: ESC_def)
  ultimately show ?thesis using assms(2) by (simp add: scanInput_def)
qed

lemma scanInput_final:
  assumes ne: "s \<noteq> []" and inv: "input_inv st"
  shows "scanInput env False s st = Some (- 1, st) \<or> scanInput env False (s @ q) st = scanInput env False s st"
proof (cases "hd s = ESC")
  case False
  then show ?thesis
    using ne scanKey_final [OF ne _ inv, of env q] by (auto simp: scanInput_def Suc_le_eq)
next
  case True
  note E = scanInput_ESC [OF ne True, of env False st]
  have "s @ q \<noteq> []" "hd (s @ q) = ESC" using ne True by auto
  note Eq = scanInput_ESC [OF this, of env False st]
  have two: "2 \<le> length s" if "matchDsr s \<noteq> Some (- 1)"
  proof (cases s)
    case (Cons c t)
    show ?thesis
    proof (cases t)
      case Nil
      then have "matchDsr s = Some (- 1)" using Cons True
        by (simp add: matchDsr_def finish_def dsrBody_def sbind_def lit_def CHECK_def ADVANCE_def ESC_def)
      then show ?thesis using that by simp
    qed (use Cons in simp)
  qed (use ne in simp)
  show ?thesis
  proof (cases "matchDsr s")
    case None
    then show ?thesis using match_stable(3) [OF ne, of q] E Eq by simp
  next
    case (Some d)
    note D = this
    show ?thesis
    proof (cases "d = - 1")
      case True
      then show ?thesis using E D by simp
    next
      case d: False
      have d2: "matchDsr (s @ q) = Some d" by (rule match_stable(2) [OF ne D d])
      have l2: "2 \<le> length s" using two D d by simp
      show ?thesis
      proof (cases "matchMouseRecord s")
        case None
        then show ?thesis using matchMouseRecord_stable(3) [OF ne, of q] D d d2 E Eq
          by (simp add: scanMouseInput_def)
      next
        case (Some a)
        obtain m rec where a: "matchMouseRecord s = Some (m, rec)" using Some by (cases a) auto
        show ?thesis
        proof (cases "m = - 1")
          case m: True
          then show ?thesis using a D d d2 E Eq
            by (cases "d > 0") (simp_all add: scanMouseInput_def)
        next
          case m: False
          have a2: "matchMouseRecord (s @ q) = Some (m, rec)"
            by (rule matchMouseRecord_stable(2) [OF ne a m])
          have "scanKey env False s st = Some (- 1, st) \<or> scanKey env False (s @ q) st = scanKey env False s st"
            by (rule scanKey_final [OF ne l2 inv])
          then show ?thesis using D d d2 a a2 m E Eq
            by (cases "d > 0"; cases "m > 0") (auto simp: scanMouseInput_def)
        qed
      qed
    qed
  qed
qed

lemma map_kept:
  "flushInputRecords st = Some st' \<Longrightarrow> m_inputMap st' = m_inputMap st"
  "onRecords f st = Some st' \<Longrightarrow> m_inputMap st' = m_inputMap st"
  by (auto simp: flushInputRecords_def onRecords_def log_event_def bind_Some_iff split: if_splits)

lemma appendKeyPress_map:
  "appendKeyPress env vk a b c d e st = Some st' \<Longrightarrow> m_inputMap st' = m_inputMap st"
  by (auto simp: appendKeyPress_def bind_Some_iff sendKeyMessage_def log_event_def map_kept split: if_splits)

lemma appendUtf8Char_map:
  "appendUtf8Char env s alt st = Some st' \<Longrightarrow> m_inputMap st' = m_inputMap st"
  by (auto simp: appendUtf8Char_def Let_def bind_Some_iff appendKeyPress_map split: if_splits)

lemma buttonEvent_map:
  "buttonEvent env rec st = Some (d, st') \<Longrightarrow> m_inputMap st' = m_inputMap st"
  by (auto simp: buttonEvent_def Let_def bind_Some_iff split: if_splits)

lemma pushMouseEvent_map [simp]: "m_inputMap (pushMouseEvent p b c f st) = m_inputMap st"
  by (simp add: pushMouseEvent_def)

lemma mouseRecordEvent_map:
  assumes "mouseRecordEvent env rec st = Some st'"
  shows "m_inputMap st' = m_inputMap st"
proof (cases "flags rec AND 0x40 \<noteq> 0")
  case True
  then show ?thesis using assms
    by (auto simp: mouseRecordEvent_def Let_def bind_Some_iff split: if_splits)
next
  case False
  then obtain d st1 p f where "buttonEvent env rec st = Some (d, st1)"
    "st' = pushMouseEvent p (m_mouseButtonState st1) (mouseModifiers (flags rec)) f st1"
    using assms by (auto simp: mouseRecordEvent_def Let_def bind_Some_iff)
  then show ?thesis using buttonEvent_map [of env rec st d st1] by simp
qed

lemma scanMouseInput_map:
  "scanMouseInput env s st = Some (n, st') \<Longrightarrow> m_inputMap st' = m_inputMap st"
  by (auto simp: scanMouseInput_def bind_Some_iff mouseRecordEvent_map split: if_splits)

lemma scanKey_map:
  "scanKey env e s st = Some (n, st') \<Longrightarrow> m_inputMap st' = m_inputMap st"
  by (auto simp: scanKey_def scanAltChar_def scanChar_def Let_def bind_Some_iff
      dest: appendKeyPress_map appendUtf8Char_map split: if_splits prod.splits)

lemma scanInput_inv:
  "input_inv st \<Longrightarrow> scanInput env e s st = Some (n, st') \<Longrightarrow> input_inv st'"
proof -
  assume inv: "input_inv st" and s: "scanInput env e s st = Some (n, st')"
  have "m_inputMap st' = m_inputMap st"
    using s by (auto simp: scanInput_def bind_Some_iff log_event_def map_kept
        dest!: scanMouseInput_map scanKey_map split: if_splits)
  then show "input_inv st'" using inv by (simp add: input_inv_def)
qed

lemma scanKey_incomplete_keeps:
  assumes "scanKey env e s st = Some (- 1, st')"
  shows "st' = st"
  using assms
  by (auto simp: scanKey_def scanAltChar_def scanChar_def Let_def bind_Some_iff split: if_splits prod.splits)

lemma scanInput_incomplete_keeps:
  assumes "scanInput env False s st = Some (- 1, st')"
  shows "st' = st"
proof -
  have ne: "s \<noteq> []" using assms by (auto simp: scanInput_def bind_Some_iff)
  show ?thesis
  proof (cases "hd s = ESC")
    case True
    note E = scanInput_ESC [OF ne True, of env False st]
    obtain d where D: "matchDsr s = Some d" using E assms by (cases "matchDsr s") auto
    show ?thesis
    proof (cases "d > 0 \<or> d = - 1")
      case True
      then show ?thesis using E D assms by auto
    next
      case False
      then obtain m st1 where M: "scanMouseInput env s st = Some (m, st1)"
        using E D assms by (cases "scanMouseInput env s st") auto
      show ?thesis
      proof (cases "m > 0 \<or> m = - 1")
        case True
        then have "m = - 1 \<and> st' = st1" using E D M assms False by auto
        then show ?thesis using scanMouseInput_len(2) [OF ne M] by simp
      next
        case m: False
        then have "scanKey env False s st1 = Some (- 1, st')" using E D M assms False by simp
        from scanKey_incomplete_keeps [OF this] show ?thesis
          using scanMouseInput_len(2) [OF ne M] m by simp
      qed
    qed
  next
    case False
    then show ?thesis using assms scanKey_incomplete_keeps [of env False s st st']
      by (auto simp: scanInput_def bind_Some_iff split: if_splits)
  qed
qed

interpretation input_scan: stream_scanner input_inv "scanInput env False" "doWriteLoop env False" "2147483647"
  for env
proof (unfold_locales, goal_cases)
  case (1 s d n s')
  then show ?case by (rule scanInput_inv)
next
  case (2 d s n s')
  then show ?case by (rule scanInput_progress)
next
  case (3 s d s')
  then show ?case by (intro scanInput_incomplete_keeps)
next
  case (4 s d n s' e)
  then show ?case using scanInput_final [of d s env e] by auto
next
  case (5 s d e)
  then show ?case using scanInput_final [of d s env e] by auto
next
  case (6 d s)
  then show ?case
    by (subst doWriteLoop.simps) (auto simp: checkedNarrow_eq split: option.splits)
qed

section \<open>Key presses in closed form\<close>

definition press_list :: "Env \<Rightarrow> bool \<Rightarrow> bool \<Rightarrow> bool \<Rightarrow> bool \<Rightarrow> Records" where
  "press_list env c l r s =
    (let s1 = (if c then LEFT_CTRL_PRESSED else 0);
         s2 = (if l then s1 OR LEFT_ALT_PRESSED else s1);
         s3 = (if r then s2 OR RIGHT_ALT_PRESSED else s2)
     in (if c then [keyRecord env True VK_CONTROL 0 s1] else []) @
        (if l then [keyRecord env True VK_MENU 0 s2] else []) @
        (if r then [keyRecord env True VK_MENU 0 (s3 OR ENHANCED_KEY)] else []) @
        (if s then [keyRecord env True VK_SHIFT 0 (s3 OR SHIFT_PRESSED)] else []))"

definition held_state :: "bool \<Rightarrow> bool \<Rightarrow> bool \<Rightarrow> bool \<Rightarrow> u16" where
  "held_state c l r s =
    (let s1 = (if c then LEFT_CTRL_PRESSED else 0);
         s2 = (if l then s1 OR LEFT_ALT_PRESSED else s1);
         s3 = (if r then s2 OR RIGHT_ALT_PRESSED else s2)
     in if s then s3 OR SHIFT_PRESSED else s3)"

definition release_list :: "Env \<Rightarrow> bool \<Rightarrow> bool \<Rightarrow> bool \<Rightarrow> bool \<Rightarrow> u16 \<Rightarrow> Records" where
  "release_list env c l r s s0 =
    (let s1 = (if s then s0 AND NOT SHIFT_PRESSED else s0);
         s2 = (if r then s1 AND NOT RIGHT_ALT_PRESSED else s1);
         s3 = (if l then s2 AND NOT LEFT_ALT_PRESSED else s2)
     in (if s then [keyRecord env False VK_SHIFT 0 s1] else []) @
        (if r then [keyRecord env False VK_MENU 0 (s2 OR ENHANCED_KEY)] else []) @
        (if l then [keyRecord env False VK_MENU 0 s3] else []) @
        (if c then [keyRecord env False VK_CONTROL 0 (s3 AND NOT LEFT_CTRL_PRESSED)] else []))"

definition key_list ::
    "Env \<Rightarrow> bool \<Rightarrow> u16 \<Rightarrow> u32 \<Rightarrow> u32 \<Rightarrow> u32 \<Rightarrow> u16 \<Rightarrow> u16 \<Rightarrow> Records" where
  "key_list env escapeInput vk winDn winUp vtCodePoint vtKeyState st =
    (if escapeInput then typeRecords env (reencoded_text vk vtCodePoint vtKeyState)
     else map (\<lambda>w. keyRecord env True vk w st) (encodeUtf16 winDn)) @
    map (\<lambda>w. keyRecord env False vk w st) (encodeUtf16 winUp)"

definition press_records ::
    "Env \<Rightarrow> bool \<Rightarrow> u16 \<Rightarrow> u32 \<Rightarrow> u32 \<Rightarrow> u16 \<Rightarrow> u32 \<Rightarrow> u16 \<Rightarrow> Records" where
  "press_records env escapeInput vk winDn winUp winKeyState vtCodePoint vtKeyState =
    (let c = winKeyState AND LEFT_CTRL_PRESSED \<noteq> 0; l = winKeyState AND LEFT_ALT_PRESSED \<noteq> 0;
         r = winKeyState AND RIGHT_ALT_PRESSED \<noteq> 0; s = winKeyState AND SHIFT_PRESSED \<noteq> 0;
         enhanced = winKeyState AND ENHANCED_KEY \<noteq> 0;
         st = (if enhanced then held_state c l r s OR ENHANCED_KEY else held_state c l r s);
         st' = (if enhanced then st AND NOT ENHANCED_KEY else st)
     in press_list env c l r s @
        key_list env escapeInput vk winDn winUp vtCodePoint vtKeyState st @
        release_list env c l r s st')"

lemma pressModifiers_ok:
  "env_ok env \<Longrightarrow> pressModifiers env c l r s rs = Some (held_state c l r s, rs @ press_list env c l r s)"
  by (cases c; cases l; cases r; cases s)
    (simp_all add: pressModifiers_def held_state_def press_list_def appendInputRecord_ok Let_def)

lemma releaseModifiers_ok:
  "env_ok env \<Longrightarrow> releaseModifiers env c l r s st rs = Some (rs @ release_list env c l r s st)"
  by (cases c; cases l; cases r; cases s)
    (simp_all add: releaseModifiers_def release_list_def appendInputRecord_ok Let_def)

lemma keyPressRecords_ok:
  assumes "env_ok env"
  shows "keyPressRecords env e vk dn up ws vc vs rs = Some (rs @ press_records env e vk dn up ws vc vs)"
  unfolding keyPressRecords_def press_records_def key_list_def Let_def
  using assms by (cases e) (simp_all add: pressModifiers_ok releaseModifiers_ok reencode_ok appendCPInputRecords_ok)

section \<open>Delivered input\<close>

text \<open>
  What the console gets, in order: the input records that were written or are still pending,
  and the other calls. The cut of the records into \<open>WriteConsoleInput\<close> calls is not visible.
\<close>

datatype Item = Delivered INPUT_RECORD | Called Event

definition items :: "Event \<Rightarrow> Item list" where
  "items e = (case e of WroteInput rs \<Rightarrow> map Delivered rs | _ \<Rightarrow> [Called e])"

definition delivered :: "ConsoleInputState \<Rightarrow> Item list" where
  "delivered st = concat (map items (evlog st)) @ map Delivered (pending st)"

text \<open>
  \<open>sim a b\<close>: \<open>b\<close> differs from \<open>a\<close> only in how much has been flushed already and in the queue, which
  the scanner does not look at.
\<close>

definition sim :: "ConsoleInputState \<Rightarrow> ConsoleInputState \<Rightarrow> bool" where
  "sim a b \<longleftrightarrow> b = a\<lparr>evlog := evlog b, pending := pending b, m_byteQueue := m_byteQueue b\<rparr> \<and> delivered a = delivered b \<and>
    length (pending b) \<le> length (pending a)"

lemma simE:
  assumes "sim a b"
  obtains L P Q where "b = a\<lparr>evlog := L, pending := P, m_byteQueue := Q\<rparr>"
    and "concat (map items (evlog a)) @ map Delivered (pending a) = concat (map items L) @ map Delivered P"
    and "length P \<le> length (pending a)"
  using assms by (auto simp: sim_def delivered_def)

lemma simI:
  "concat (map items (evlog a)) @ map Delivered (pending a) = concat (map items L) @ map Delivered P \<Longrightarrow>
   length P \<le> length (pending a) \<Longrightarrow> sim a (a\<lparr>evlog := L, pending := P, m_byteQueue := Q\<rparr>)"
  by (simp add: sim_def delivered_def)

lemma sim_refl [simp]: "sim a a"
  by (simp add: sim_def)

lemma sim_flush:
  assumes "sim a b" and "flushInputRecords a = Some a'"
  shows "\<exists>b'. flushInputRecords b = Some b' \<and> sim a' b' \<and> pending a' = [] \<and> pending b' = []"
proof -
  obtain L P Q where b: "b = a\<lparr>evlog := L, pending := P, m_byteQueue := Q\<rparr>"
    and d: "concat (map items (evlog a)) @ map Delivered (pending a) = concat (map items L) @ map Delivered P"
    and l: "length P \<le> length (pending a)" using assms(1) by (rule simE)
  show ?thesis
    using assms(2) d l
    by (auto simp: flushInputRecords_def b log_event_def sim_def delivered_def items_def checkedNarrow_eq
        split: if_splits)
qed

lemma sim_log:
  assumes "sim a b" "pending a = []" "pending b = []"
  shows "sim (log_event e a) (log_event e b) \<and> pending (log_event e a) = [] \<and> pending (log_event e b) = []"
proof -
  obtain L P Q where b: "b = a\<lparr>evlog := L, pending := P, m_byteQueue := Q\<rparr>"
    and d: "concat (map items (evlog a)) @ map Delivered (pending a) = concat (map items L) @ map Delivered P"
    using assms(1) by (rule simE)
  show ?thesis using d assms(2,3) by (simp add: b log_event_def sim_def delivered_def)
qed

lemma sim_push:
  assumes "sim a b"
  shows "sim (a\<lparr>pending := pending a @ r\<rparr>) (b\<lparr>pending := pending b @ r\<rparr>)"
proof -
  obtain L P Q where b: "b = a\<lparr>evlog := L, pending := P, m_byteQueue := Q\<rparr>"
    and d: "concat (map items (evlog a)) @ map Delivered (pending a) = concat (map items L) @ map Delivered P"
    and l: "length P \<le> length (pending a)" using assms(1) by (rule simE)
  have "concat (map items (evlog a)) @ map Delivered (pending a) @ map Delivered r =
      concat (map items L) @ map Delivered P @ map Delivered r"
    using arg_cong [OF d, of "\<lambda>z. z @ map Delivered r"] by simp
  then show ?thesis using l by (simp add: b sim_def delivered_def)
qed

lemma sim_fields:
  assumes "sim a b"
  shows "m_inputMap b = m_inputMap a" "m_escapeInputEnabled b = m_escapeInputEnabled a"
    "m_mouseWindowRect b = m_mouseWindowRect a" "m_dsrSent b = m_dsrSent a"
    "m_mouseInputEnabled b = m_mouseInputEnabled a" "m_quickEditEnabled b = m_quickEditEnabled a"
    "m_mouseButtonState b = m_mouseButtonState a"
  by (rule simE [OF assms]; simp)+

lemma sim_update:
  assumes "sim a b"
  shows "sim (a\<lparr>m_dsrSent := x\<rparr>) (b\<lparr>m_dsrSent := x\<rparr>)"
    and "sim (a\<lparr>m_byteQueue := q\<rparr>) (b\<lparr>m_byteQueue := r\<rparr>)"
  by (rule simE [OF assms]; simp add: sim_def delivered_def)+

lemma sim_appendKeyPress:
  assumes env: "env_ok env" and sim: "sim a b"
    and a: "appendKeyPress env vk dn up ws vc vs a = Some a'"
  shows "\<exists>b'. appendKeyPress env vk dn up ws vc vs b = Some b' \<and> sim a' b'"
proof (cases "m_escapeInputEnabled a \<and> vk \<in> {VK_UP, VK_DOWN, VK_LEFT, VK_RIGHT, VK_HOME, VK_END} \<and>
        \<not> ws AND LEFT_CTRL_PRESSED \<noteq> 0 \<and> \<not> ws AND LEFT_ALT_PRESSED \<noteq> 0 \<and>
        \<not> ws AND RIGHT_ALT_PRESSED \<noteq> 0 \<and> \<not> ws AND SHIFT_PRESSED \<noteq> 0")
  case True
  then obtain a1 where a1: "flushInputRecords a = Some a1"
    and a': "a' = sendKeyMessage env False vk (sendKeyMessage env True vk a1)"
    using a by (auto simp: appendKeyPress_def bind_Some_iff)
  obtain b1 where b1: "flushInputRecords b = Some b1" "sim a1 b1" "pending a1 = []" "pending b1 = []"
    using sim_flush [OF sim a1] by blast
  have "sim a' (sendKeyMessage env False vk (sendKeyMessage env True vk b1))"
    using sim_log [OF b1(2,3,4)] sim_log unfolding a' sendKeyMessage_def by blast
  moreover have "appendKeyPress env vk dn up ws vc vs b =
      Some (sendKeyMessage env False vk (sendKeyMessage env True vk b1))"
    using True b1(1) sim_fields(2) [OF sim] by (simp add: appendKeyPress_def)
  ultimately show ?thesis by blast
next
  case False
  have "a' = a\<lparr>pending := pending a @ press_records env (m_escapeInputEnabled a) vk dn up ws vc vs\<rparr>"
    using a unfolding appendKeyPress_def if_not_P [OF False] by (simp add: onRecords_def keyPressRecords_ok [OF env])
  moreover have "appendKeyPress env vk dn up ws vc vs b =
      Some (b\<lparr>pending := pending b @ press_records env (m_escapeInputEnabled a) vk dn up ws vc vs\<rparr>)"
    using False unfolding appendKeyPress_def sim_fields(2) [OF sim] if_not_P [OF False]
    by (simp add: onRecords_def keyPressRecords_ok [OF env])
  ultimately show ?thesis using sim_push [OF sim] by blast
qed

lemma sim_appendUtf8Char:
  assumes env: "env_ok env" and sim: "sim a b" and a: "appendUtf8Char env s alt a = Some a'"
  shows "\<exists>b'. appendUtf8Char env s alt b = Some b' \<and> sim a' b'"
proof (cases "decodeUtf8 (map byte_of s) = - 1")
  case True
  then show ?thesis using a sim by (simp add: appendUtf8Char_def Let_def)
next
  case False
  then show ?thesis using a sim_appendKeyPress [OF env sim]
    by (auto simp: appendUtf8Char_def Let_def bind_Some_iff split: if_splits)
qed

lemma buttonEvent_out:
  "buttonEvent env rec (a\<lparr>evlog := L, pending := P, m_byteQueue := Q\<rparr>) =
    map_option (\<lambda>(d, s). (d, s\<lparr>evlog := L, pending := P, m_byteQueue := Q\<rparr>)) (buttonEvent env rec a)"
  by (auto simp: buttonEvent_def Let_def ASSERT_def)

lemma buttonEvent_keeps:
  "buttonEvent env rec a = Some (d, s) \<Longrightarrow> evlog s = evlog a \<and> pending s = pending a"
  by (auto simp: buttonEvent_def Let_def bind_Some_iff split: if_splits)

lemma sim_pushMouse:
  assumes "sim a b"
  shows "sim (pushMouseEvent p bt c f a) (pushMouseEvent p bt c f b)"
  using sim_push [OF assms] assms sim_fields [OF assms] by (simp add: pushMouseEvent_def)

lemma sim_buttonEvent:
  assumes "sim a b" and "buttonEvent env rec a = Some (d, a')"
  shows "\<exists>b'. buttonEvent env rec b = Some (d, b') \<and> sim a' b'"
proof -
  obtain L P Q where b: "b = a\<lparr>evlog := L, pending := P, m_byteQueue := Q\<rparr>"
    and d: "concat (map items (evlog a)) @ map Delivered (pending a) = concat (map items L) @ map Delivered P"
    and l: "length P \<le> length (pending a)" using assms(1) by (rule simE)
  have "buttonEvent env rec b = Some (d, a'\<lparr>evlog := L, pending := P, m_byteQueue := Q\<rparr>)"
    using assms(2) by (simp add: b buttonEvent_out)
  moreover have "sim a' (a'\<lparr>evlog := L, pending := P, m_byteQueue := Q\<rparr>)"
    using buttonEvent_keeps [OF assms(2)] d l by (intro simI) simp_all
  ultimately show ?thesis by blast
qed

lemma sim_mouse:
  assumes sim: "sim a b" and a: "mouseRecordEvent env rec a = Some a'"
  shows "\<exists>b'. mouseRecordEvent env rec b = Some b' \<and> sim a' b'"
proof (cases "flags rec AND 0x40 \<noteq> 0")
  case True
  then obtain w x h y where A: "rect_width (m_mouseWindowRect a) = Some w"
      "clampToWindow (Left (m_mouseWindowRect a)) (X (coord rec)) w = Some x"
      "rect_height (m_mouseWindowRect a) = Some h"
      "clampToWindow (Top (m_mouseWindowRect a)) (Y (coord rec)) h = Some y"
    using a by (auto simp: mouseRecordEvent_def Let_def bind_Some_iff)
  define wheel where "wheel st =
    (if flags rec AND 0x03 = 0 then
       pushMouseEvent (mkCoord x y) (0x00780000 OR m_mouseButtonState st) (mouseModifiers (flags rec)) MOUSE_WHEELED st
     else if flags rec AND 0x03 = 1 then
       pushMouseEvent (mkCoord x y) (0xff880000 OR m_mouseButtonState st) (mouseModifiers (flags rec)) MOUSE_WHEELED st
     else st)" for st
  have "mouseRecordEvent env rec a = Some (wheel a)"
    using A True by (simp add: mouseRecordEvent_def wheel_def Let_def)
  moreover have "mouseRecordEvent env rec b = Some (wheel b)"
    using A True sim_fields(3) [OF sim] by (simp add: mouseRecordEvent_def wheel_def Let_def)
  moreover have "sim (wheel a) (wheel b)"
    using sim_pushMouse [OF sim] sim sim_fields(7) [OF sim] by (simp add: wheel_def)
  ultimately show ?thesis using a by simp
next
  case False
  then obtain w x h y d a1 where A: "rect_width (m_mouseWindowRect a) = Some w"
      "clampToWindow (Left (m_mouseWindowRect a)) (X (coord rec)) w = Some x"
      "rect_height (m_mouseWindowRect a) = Some h"
      "clampToWindow (Top (m_mouseWindowRect a)) (Y (coord rec)) h = Some y"
      "buttonEvent env rec a = Some (d, a1)"
      "a' = pushMouseEvent (mkCoord x y) (m_mouseButtonState a1) (mouseModifiers (flags rec))
         ((if flags rec AND 0x20 \<noteq> 0 then MOUSE_MOVED else 0) OR d) a1"
    using a by (auto simp: mouseRecordEvent_def Let_def bind_Some_iff)
  obtain b1 where b1: "buttonEvent env rec b = Some (d, b1)" "sim a1 b1"
    using sim_buttonEvent [OF sim A(5)] by blast
  have "mouseRecordEvent env rec b = Some (pushMouseEvent (mkCoord x y) (m_mouseButtonState b1)
      (mouseModifiers (flags rec)) ((if flags rec AND 0x20 \<noteq> 0 then MOUSE_MOVED else 0) OR d) b1)"
    using False A(1-4) b1(1) sim_fields(3) [OF sim] by (simp add: mouseRecordEvent_def Let_def)
  moreover have "sim a' (pushMouseEvent (mkCoord x y) (m_mouseButtonState b1)
      (mouseModifiers (flags rec)) ((if flags rec AND 0x20 \<noteq> 0 then MOUSE_MOVED else 0) OR d) b1)"
    unfolding A(6) sim_fields(7) [OF b1(2)] by (rule sim_pushMouse [OF b1(2)])
  ultimately show ?thesis by blast
qed

lemma sim_scanMouse:
  assumes "sim a b" "scanMouseInput env s a = Some (n, a')"
  shows "\<exists>b'. scanMouseInput env s b = Some (n, b') \<and> sim a' b'"
proof -
  obtain m rec where M: "matchMouseRecord s = Some (m, rec)"
    using assms(2) by (auto simp: scanMouseInput_def bind_Some_iff)
  show ?thesis
  proof (cases "m \<le> 0")
    case True
    then show ?thesis using assms M by (simp add: scanMouseInput_def)
  next
    case False
    then have "mouseRecordEvent env rec a = Some a'" "n = m"
      using assms(2) M by (auto simp: scanMouseInput_def bind_Some_iff)
    then show ?thesis using sim_mouse [OF assms(1)] False M by (fastforce simp: scanMouseInput_def)
  qed
qed

lemma sim_scanChar:
  assumes "env_ok env" "sim a b" "scanChar env s a = Some (n, a')"
  shows "\<exists>b'. scanChar env s b = Some (n, b') \<and> sim a' b'"
  using assms sim_appendUtf8Char [OF assms(1,2)]
  by (auto simp: scanChar_def Let_def bind_Some_iff split: if_splits)

lemma sim_scanAltChar:
  assumes "env_ok env" "sim a b" "scanAltChar env s a = Some (n, a')"
  shows "\<exists>b'. scanAltChar env s b = Some (n, b') \<and> sim a' b'"
  using assms sim_appendUtf8Char [OF assms(1,2)] sim_scanChar [OF assms(1,2)]
  by (auto simp: scanAltChar_def Let_def bind_Some_iff split: if_splits)

lemma sim_scanKey:
  assumes "env_ok env" "sim a b" "scanKey env e s a = Some (n, a')"
  shows "\<exists>b'. scanKey env e s b = Some (n, b') \<and> sim a' b'"
proof -
  obtain m k inc where L: "lookupKey (m_inputMap a) s = (m, k, inc)" by (metis prod_cases3)
  have Lb: "lookupKey (m_inputMap b) s = (m, k, inc)" using L sim_fields(1) [OF assms(2)] by simp
  consider "\<not> e \<and> inc" | "\<not> (\<not> e \<and> inc)" "m > 0" | "\<not> (\<not> e \<and> inc)" "\<not> m > 0" by blast
  then show ?thesis
  proof cases
    case 1
    then show ?thesis using assms(2,3) L Lb by (simp add: scanKey_def)
  next
    case 2
    then show ?thesis using assms(3) sim_appendKeyPress [OF assms(1,2)]
      unfolding scanKey_def L Lb prod.case Let_def if_not_P [OF 2(1)] if_P [OF 2(2)] bind_Some_iff
      by blast
  next
    case 3
    then show ?thesis using assms(3) sim_scanAltChar [OF assms(1,2)]
      unfolding scanKey_def L Lb prod.case Let_def if_not_P [OF 3(1)] if_not_P [OF 3(2)] by blast
  qed
qed

lemma sim_scanInput:
  assumes env: "env_ok env" and sim: "sim a b" and a: "scanInput env e s a = Some (n, a')"
  shows "\<exists>b'. scanInput env e s b = Some (n, b') \<and> sim a' b'"
proof -
  have ne: "s \<noteq> []" using a by (auto simp: scanInput_def bind_Some_iff)
  then have len: "1 \<le> length s" by (simp add: Suc_le_eq)
  consider (c) "hd s = CHR 0x03 \<and> inputConsoleMode env AND ENABLE_PROCESSED_INPUT \<noteq> 0"
    | (e) "hd s = ESC"
    | (k) "\<not> (hd s = CHR 0x03 \<and> inputConsoleMode env AND ENABLE_PROCESSED_INPUT \<noteq> 0)" "hd s \<noteq> ESC"
    by blast
  then show ?thesis
  proof cases
    case c
    then obtain a1 where a1: "flushInputRecords a = Some a1" "a' = log_event CtrlCEvent a1" "n = 1"
      using a by (auto simp: scanInput_def bind_Some_iff)
    obtain b1 where b1: "flushInputRecords b = Some b1" "sim a1 b1" "pending a1 = []" "pending b1 = []"
      using sim_flush [OF sim a1(1)] by blast
    then show ?thesis using c len a1 sim_log [OF b1(2,3,4)] by (simp add: scanInput_def)
  next
    case e
    note E = scanInput_ESC [OF ne e]
    obtain d where D: "matchDsr s = Some d" using a E by (cases "matchDsr s") auto
    show ?thesis
    proof (cases "d > 0 \<or> (\<not> e \<and> d = - 1)")
      case True
      then show ?thesis using a E D sim sim_update(1) [OF sim] by (auto split: if_splits)
    next
      case False
      then obtain m a1 where M: "scanMouseInput env s a = Some (m, a1)"
        using a E D by (cases "scanMouseInput env s a") auto
      obtain b1 where B: "scanMouseInput env s b = Some (m, b1)" "sim a1 b1"
        using sim_scanMouse [OF sim M] by blast
      show ?thesis using a E D M B False sim_scanKey [OF env B(2)] by (auto split: if_splits)
    qed
  next
    case k
    then have "scanKey env e s a = Some (n, a')" using a len by (auto simp: scanInput_def)
    from sim_scanKey [OF env sim this] k len show ?thesis by (auto simp: scanInput_def)
  qed
qed

lemma doWriteLoop_step:
  assumes "d \<noteq> []" "checkedNarrow int_range (int (length d)) \<noteq> None" "scanInput env e d st = Some (n, s1)"
  shows "doWriteLoop env e d st =
    (if n = - 1 then Some (d, s1) else doWriteLoop env e (drop (nat n) d) s1)"
  using assms by (subst doWriteLoop.simps) (auto simp: checkedNarrow_eq)

lemma doWriteLoop_SomeD:
  assumes "d \<noteq> []" "doWriteLoop env e d st = Some (r, s')"
  shows "checkedNarrow int_range (int (length d)) \<noteq> None \<and> (\<exists>n s1. scanInput env e d st = Some (n, s1))"
  using assms by (subst (asm) doWriteLoop.simps) (auto split: option.splits)

lemma sim_loop:
  assumes env: "env_ok env"
  shows "sim a b \<Longrightarrow> doWriteLoop env e d a = Some (r, a') \<Longrightarrow>
    \<exists>b'. doWriteLoop env e d b = Some (r, b') \<and> sim a' b'"
proof (induction "length d" arbitrary: d a b rule: less_induct)
  case less
  show ?case
  proof (cases "d = []")
    case True
    then show ?thesis using less.prems by (simp add: doWriteLoop.simps)
  next
    case False
    obtain n a1 where l: "checkedNarrow int_range (int (length d)) \<noteq> None"
      and s: "scanInput env e d a = Some (n, a1)"
      using doWriteLoop_SomeD [OF False less.prems(2)] by blast
    obtain b1 where b1: "scanInput env e d b = Some (n, b1)" "sim a1 b1"
      using sim_scanInput [OF env less.prems(1) s] by blast
    note steps = doWriteLoop_step [OF False l s] doWriteLoop_step [OF False l b1(1)]
    show ?thesis
    proof (cases "n = - 1")
      case True
      then show ?thesis using less.prems(2) steps b1(2) by simp
    next
      case n: False
      have "1 \<le> n" using scanInput_progress [OF s] n by simp
      then have "length (drop (nat n) d) < length d" using False by simp
      moreover have "doWriteLoop env e (drop (nat n) d) a1 = Some (r, a')"
        using less.prems(2) steps n by simp
      ultimately obtain b' where "doWriteLoop env e (drop (nat n) d) b1 = Some (r, b')" "sim a' b'"
        using less.hyps b1(2) by blast
      then show ?thesis using steps n by auto
    qed
  qed
qed

section \<open>Batches\<close>

lemma sim_delivered: "sim a b \<Longrightarrow> delivered b = delivered a"
  by (simp add: sim_def)

lemma sim_trans: "sim a b \<Longrightarrow> sim b c \<Longrightarrow> sim a c"
  by (erule simE, erule simE) (simp add: sim_def delivered_def)

lemma sim_queue: "sim a (a\<lparr>m_byteQueue := q\<rparr>)"
  by (simp add: sim_def delivered_def)

lemma flush_delivered:
  "flushInputRecords st = Some st' \<Longrightarrow> delivered st' = delivered st \<and> pending st' = [] \<and>
     sim st st' \<and> m_byteQueue st' = m_byteQueue st"
  using sim_flush [of st st st'] by (auto simp: flushInputRecords_def delivered_def items_def sim_def
      log_event_def bind_Some_iff split: if_splits)

lemma sim_inv: "sim a b \<Longrightarrow> input_inv b = input_inv a"
  by (simp add: input_inv_def sim_fields(1))

lemma loop_small: "doWriteLoop env e d st \<noteq> None \<Longrightarrow> length d \<le> 2147483647"
  by (subst (asm) doWriteLoop.simps) (auto simp: checkedNarrow_eq split: if_splits)

lemma doWrite_batches_sim:
  assumes env: "env_ok env" and inv: "input_inv st"
    and whole: "doWrite env False (st\<lparr>m_byteQueue := d @ e\<rparr>) = Some s"
    and first: "doWrite env False (st\<lparr>m_byteQueue := d\<rparr>) = Some s1"
  shows "\<exists>s2. doWrite env False (s1\<lparr>m_byteQueue := m_byteQueue s1 @ e\<rparr>) = Some s2 \<and>
    sim s s2 \<and> m_byteQueue s2 = m_byteQueue s \<and> pending s = [] \<and> pending s2 = []"
proof -
  obtain r s0 where W: "doWriteLoop env False (d @ e) (st\<lparr>m_byteQueue := d @ e, pending := []\<rparr>) = Some (r, s0)"
    and F: "flushInputRecords (s0\<lparr>m_byteQueue := r\<rparr>) = Some s"
    using whole unfolding doWrite_def by (auto simp: bind_Some_iff)
  have small: "length (d @ e) \<le> 2147483647" using loop_small W by fastforce
  have "sim (st\<lparr>m_byteQueue := d @ e, pending := []\<rparr>) (st\<lparr>m_byteQueue := d, pending := []\<rparr>)"
    by (simp add: sim_def delivered_def)
  from sim_loop [OF env this W] obtain s0' where
    W': "doWriteLoop env False (d @ e) (st\<lparr>m_byteQueue := d, pending := []\<rparr>) = Some (r, s0')" and S0: "sim s0 s0'"
    by blast
  have invd: "input_inv (st\<lparr>m_byteQueue := d, pending := []\<rparr>)" using inv by (simp add: input_inv_def)
  from input_scan.loop_append [OF invd small] W' obtain r1 t1 where
    L1: "doWriteLoop env False d (st\<lparr>m_byteQueue := d, pending := []\<rparr>) = Some (r1, t1)"
    and L2: "doWriteLoop env False (r1 @ e) t1 = Some (r, s0')"
    by (auto split: option.splits)
  have s1: "flushInputRecords (t1\<lparr>m_byteQueue := r1\<rparr>) = Some s1"
    using first L1 by (simp add: doWrite_def)
  note fs1 = flush_delivered [OF s1]
  have "sim t1 (s1\<lparr>m_byteQueue := m_byteQueue s1 @ e, pending := []\<rparr>)"
  proof -
    have "sim t1 s1" using sim_trans [OF sim_queue] fs1 by blast
    moreover have "s1\<lparr>m_byteQueue := q, pending := []\<rparr> = s1\<lparr>m_byteQueue := q\<rparr>" for q
      using fs1 by (cases s1) simp
    ultimately show ?thesis using sim_trans sim_queue by metis
  qed
  from sim_loop [OF env this L2] obtain s0'' where
    L3: "doWriteLoop env False (r1 @ e) (s1\<lparr>m_byteQueue := m_byteQueue s1 @ e, pending := []\<rparr>) = Some (r, s0'')"
    and S1: "sim s0' s0''" by blast
  have "sim (s0\<lparr>m_byteQueue := r\<rparr>) (s0''\<lparr>m_byteQueue := r\<rparr>)"
    using sim_update(2) [OF sim_trans [OF S0 S1]] .
  from sim_flush [OF this F] obtain s2 where
    s2: "flushInputRecords (s0''\<lparr>m_byteQueue := r\<rparr>) = Some s2" "sim s s2" "pending s = []" "pending s2 = []"
    by blast
  have "m_byteQueue s1 = r1" using fs1 by simp
  then have "doWrite env False (s1\<lparr>m_byteQueue := m_byteQueue s1 @ e\<rparr>) = Some s2"
    using L3 s2(1) by (simp add: doWrite_def)
  moreover have "m_byteQueue s2 = m_byteQueue s"
    using flush_delivered [OF s2(1)] flush_delivered [OF F] by simp
  ultimately show ?thesis using s2 by blast
qed

section \<open>Examples\<close>

definition sample_input :: ConsoleInputState where
  "sample_input = \<lparr>m_mouseMode = 1, m_dsrSent = True, m_byteQueue = [], m_inputMap = newNode,
     m_lastWriteTick = 0, m_mouseButtonState = 0, m_doubleClick = noDoubleClick,
     m_enableExtendedEnabled = True, m_mouseInputEnabled = True, m_quickEditEnabled = False,
     m_escapeInputEnabled = False, m_mouseWindowRect = \<lparr>Left = 0, Top = 10, Right = 79, Bottom = 34\<rparr>,
     pending = [], evlog = []\<rparr>"

lemma sample_input_inv: "input_inv sample_input"
  by (simp add: input_inv_def sample_input_def)

definition dsr_reply :: string where "dsr_reply = ESC # ''[1;1R''"

lemma decimal_digit: "n < 10 \<Longrightarrow> decimal n = [digit_char n]"
  by (subst decimal.simps) simp

lemma dsr_body_match:
  assumes "row < 10000000" "col < 10000000"
  shows "matchDsr (ESC # CHR ''['' # decimal row @ CHR '';'' # decimal col @ CHR ''R'' # rest) =
    Some (int (length (ESC # CHR ''['' # decimal row @ CHR '';'' # decimal col @ ''R'')))"
proof -
  have l: "length (decimal row) < 8" "length (decimal col) < 8"
    using length_decimal [of row 6] length_decimal [of col 6] assms by simp_all
  note scans = SCAN_INT_decimal [OF l(1) not_digits(1)] SCAN_INT_decimal [OF l(2) not_digits(4)]
  have "dsrBody (ESC # CHR ''['' # decimal row @ CHR '';'' # decimal col @ CHR ''R'' # rest) =
      Go () (CHR ''R'' # rest)"
    using scans by (simp add: dsrBody_def sbind_def ESC_def lit_hit lit_decimal CHECK_def)
  then show ?thesis by (simp add: matchDsr_def finish_def)
qed

lemma scanInput_dsr:
  assumes "matchDsr s = Some n" "n > 0" "hd s = ESC" "s \<noteq> []"
  shows "scanInput env isEof s st = Some (n, st\<lparr>m_dsrSent := False\<rparr>)"
  using assms by (simp add: scanInput_ESC)

lemma dsr_reply_match: "matchDsr (dsr_reply @ rest) = Some 6"
  using dsr_body_match [of 1 1 rest]
  by (simp add: dsr_reply_def decimal_digit digit_char_def char_of_def bit_0)

lemma clamp_bounds:
  "clampToWindow l v w = Some x \<Longrightarrow> 1 \<le> w \<Longrightarrow> l \<le> x \<and> x \<le> l + w - 1"
  by (auto simp: clampToWindow_def)

section \<open>Properties\<close>

text \<open>
  C23. The scanner makes progress: whenever it returns it asks for more input or consumes between
  one byte and the whole input, in every mode; so the loop of \<open>doWrite\<close> terminates.
\<close>

theorem scanInput_consumes:
  assumes "scanInput env isEof input st = Some (n, st')"
  shows "n = - 1 \<or> 1 \<le> n \<and> n \<le> int (length input)"
  using assms by (rule scanInput_progress)

theorem scanInput_consumes_witness:
  "(6 :: int) = - 1 \<or> 1 \<le> (6 :: int) \<and> 6 \<le> int (length dsr_reply)"
  by (rule scanInput_consumes [where env = sample_env and isEof = False and st = sample_input])
    (rule scanInput_dsr, use dsr_reply_match [of "[]"] in \<open>simp_all add: dsr_reply_def\<close>)

text \<open>
  C10. The way input is cut into batches does not matter: writing a batch and then a second one
  gives the same state as writing both at once, and the console receives the same records and
  the same other calls in the same order (only the grouping into \<open>WriteConsoleInput\<close> calls may
  differ). The hypotheses are that neither run ends the process and that the keyboard layout
  gives scan codes of 16 bits.
\<close>

theorem input_batches_equivalent:
  assumes "env_ok env" and "input_inv st"
    and "doWrite env False (st\<lparr>m_byteQueue := d @ e\<rparr>) = Some s"
    and "doWrite env False (st\<lparr>m_byteQueue := d\<rparr>) = Some s1"
  shows "\<exists>s2. doWrite env False (s1\<lparr>m_byteQueue := m_byteQueue s1 @ e\<rparr>) = Some s2 \<and>
    s2 = s\<lparr>evlog := evlog s2\<rparr> \<and> delivered s2 = delivered s"
proof -
  obtain s2 where s2: "doWrite env False (s1\<lparr>m_byteQueue := m_byteQueue s1 @ e\<rparr>) = Some s2"
    and sim: "sim s s2" and q: "m_byteQueue s2 = m_byteQueue s" "pending s = []" "pending s2 = []"
    using doWrite_batches_sim [OF assms] by blast
  have "s2 = s\<lparr>evlog := evlog s2, pending := pending s2, m_byteQueue := m_byteQueue s2\<rparr>"
    using sim by (simp add: sim_def)
  then have "s2 = s\<lparr>evlog := evlog s2\<rparr>" using q by (cases s; cases s2) simp
  with s2 sim show ?thesis by (auto simp: sim_delivered)
qed

lemma doWrite_esc:
  "doWrite sample_env False (sample_input\<lparr>m_byteQueue := [ESC]\<rparr>) = Some (sample_input\<lparr>m_byteQueue := [ESC]\<rparr>)"
proof -
  have "matchDsr [ESC] = Some (- 1)"
    by (simp add: matchDsr_def finish_def dsrBody_def sbind_def lit_def CHECK_def ADVANCE_def ESC_def)
  then have s: "scanInput sample_env False [ESC] st = Some (- 1, st)" for st
    by (simp add: scanInput_ESC)
  have "doWriteLoop sample_env False [ESC] st = Some ([ESC], st)" for st
    using doWriteLoop_step [of "[ESC]" sample_env False st "- 1" st] s by (simp add: checkedNarrow_eq)
  then show ?thesis by (simp add: doWrite_def flushInputRecords_def sample_input_def)
qed

lemma doWrite_dsr:
  "doWrite sample_env False (sample_input\<lparr>m_byteQueue := [ESC] @ ''[1;1R''\<rparr>) =
    Some (sample_input\<lparr>m_byteQueue := [], m_dsrSent := False\<rparr>)"
proof -
  have d: "[ESC] @ ''[1;1R'' = dsr_reply" by (simp add: dsr_reply_def)
  have s: "scanInput sample_env False dsr_reply st = Some (6, st\<lparr>m_dsrSent := False\<rparr>)" for st
    by (rule scanInput_dsr) (use dsr_reply_match [of "[]"] in \<open>simp_all add: dsr_reply_def\<close>)
  have "doWriteLoop sample_env False dsr_reply st = Some ([], st\<lparr>m_dsrSent := False\<rparr>)" for st
    using doWriteLoop_step [of dsr_reply sample_env False st 6] s
    by (simp add: checkedNarrow_eq dsr_reply_def doWriteLoop.simps [of _ _ "[]"])
  then show ?thesis unfolding d by (simp add: doWrite_def flushInputRecords_def sample_input_def)
qed

theorem input_batches_equivalent_witness:
  "\<exists>s2. doWrite sample_env False
      ((sample_input\<lparr>m_byteQueue := [ESC]\<rparr>)\<lparr>m_byteQueue :=
        m_byteQueue (sample_input\<lparr>m_byteQueue := [ESC]\<rparr>) @ ''[1;1R''\<rparr>) = Some s2 \<and>
    s2 = (sample_input\<lparr>m_byteQueue := [], m_dsrSent := False\<rparr>)\<lparr>evlog := evlog s2\<rparr> \<and>
    delivered s2 = delivered (sample_input\<lparr>m_byteQueue := [], m_dsrSent := False\<rparr>)"
  by (rule input_batches_equivalent [OF env_ok_sample sample_input_inv doWrite_dsr doWrite_esc])

text \<open>
  C30. Every mouse event that is queued for the console lies in the current mouse window rectangle,
  whatever coordinates the terminal reported; and no event is queued unless the console has
  mouse input enabled and quick edit disabled.
\<close>

theorem mouse_events_in_window:
  assumes "mouseRecordEvent env rec st = Some st'"
    and "Left (m_mouseWindowRect st) \<le> Right (m_mouseWindowRect st)"
    and "Top (m_mouseWindowRect st) \<le> Bottom (m_mouseWindowRect st)"
  shows "\<exists>new. pending st' = pending st @ new \<and>
    (\<forall>m. MouseEvent m \<in> set new \<longrightarrow>
       containsCoord (m_mouseWindowRect st) (mkCoord (fst (mousePosition m)) (snd (mousePosition m)))) \<and>
    (new \<noteq> [] \<longrightarrow> m_mouseInputEnabled st \<and> \<not> m_quickEditEnabled st)"
proof -
  obtain w x h y where A: "rect_width (m_mouseWindowRect st) = Some w"
      "clampToWindow (Left (m_mouseWindowRect st)) (X (coord rec)) w = Some x"
      "rect_height (m_mouseWindowRect st) = Some h"
      "clampToWindow (Top (m_mouseWindowRect st)) (Y (coord rec)) h = Some y"
    using assms(1) by (auto simp: mouseRecordEvent_def Let_def bind_Some_iff)
  have c: "containsCoord (m_mouseWindowRect st) (mkCoord x y)"
    using clamp_bounds [OF A(2)] clamp_bounds [OF A(4)] A(1,3) assms(2,3)
    by (auto simp: containsCoord_def mkCoord_def rect_width_def rect_height_def)
  have push: "\<exists>new. pending (pushMouseEvent (mkCoord x y) b cs f s) = pending st @ new \<and>
      (\<forall>m. MouseEvent m \<in> set new \<longrightarrow>
         containsCoord (m_mouseWindowRect st) (mkCoord (fst (mousePosition m)) (snd (mousePosition m)))) \<and>
      (new \<noteq> [] \<longrightarrow> m_mouseInputEnabled st \<and> \<not> m_quickEditEnabled st)"
    if "pending s = pending st" "m_mouseInputEnabled s = m_mouseInputEnabled st"
      "m_quickEditEnabled s = m_quickEditEnabled st" for b cs f s
    using c that by (auto simp: pushMouseEvent_def mkCoord_def)
  have keep: "pending s = pending st \<and> m_mouseInputEnabled s = m_mouseInputEnabled st \<and>
      m_quickEditEnabled s = m_quickEditEnabled st" if "buttonEvent env rec st = Some (d, s)" for d s
    using that by (auto simp: buttonEvent_def Let_def bind_Some_iff split: if_splits)
  have "(\<exists>b cs f s. st' = pushMouseEvent (mkCoord x y) b cs f s \<and> pending s = pending st \<and>
      m_mouseInputEnabled s = m_mouseInputEnabled st \<and> m_quickEditEnabled s = m_quickEditEnabled st)
      \<or> st' = st"
  proof (cases "flags rec AND 0x40 \<noteq> 0")
    case True
    then show ?thesis using assms(1) A
      by (cases "flags rec AND 3 = 0"; cases "flags rec AND 3 = 1")
        (simp_all add: mouseRecordEvent_def Let_def; blast)+
  next
    case False
    then obtain d s where B: "buttonEvent env rec st = Some (d, s)"
      "st' = pushMouseEvent (mkCoord x y) (m_mouseButtonState s) (mouseModifiers (flags rec))
         ((if flags rec AND 0x20 \<noteq> 0 then MOUSE_MOVED else 0) OR d) s"
      using assms(1) A by (auto simp: mouseRecordEvent_def Let_def bind_Some_iff)
    then show ?thesis using keep [OF B(1)] by blast
  qed
  then show ?thesis
  proof
    assume "\<exists>b cs f s. st' = pushMouseEvent (mkCoord x y) b cs f s \<and> pending s = pending st \<and>
      m_mouseInputEnabled s = m_mouseInputEnabled st \<and> m_quickEditEnabled s = m_quickEditEnabled st"
    then show ?thesis using push by blast
  qed auto
qed

definition sample_click :: MouseRecord where
  "sample_click = \<lparr>release = False, flags = 0, coord = mkCoord 200 5\<rparr>"

lemma sample_click_event:
  "mouseRecordEvent sample_env sample_click sample_input =
    Some (sample_input\<lparr>m_mouseButtonState := 1,
      m_doubleClick := \<lparr>dc_button = 1, dc_pos = mkCoord 200 5, dc_tick = 0, dc_released = False\<rparr>,
      pending := [MouseEvent \<lparr>mousePosition = (79, 15), dwButtonState = 1, mouseControlState = 0,
        dwEventFlags = 0\<rparr>]\<rparr>)"
  by (simp add: sample_env_def mouseRecordEvent_def sample_click_def sample_input_def rect_width_def rect_height_def
      clampToWindow_def checkedNarrow_eq buttonEvent_def relevantFlagOf_def mouse_defs noDoubleClick_def
      pushMouseEvent_def mouseModifiers_def mkCoord_def Let_def)

theorem mouse_events_in_window_witness:
  "\<exists>new. [MouseEvent \<lparr>mousePosition = (79, 15), dwButtonState = 1, mouseControlState = 0, dwEventFlags = 0\<rparr>] =
      [] @ new \<and>
    (\<forall>m. MouseEvent m \<in> set new \<longrightarrow>
       containsCoord (m_mouseWindowRect sample_input) (mkCoord (fst (mousePosition m)) (snd (mousePosition m))))"
proof -
  have "Left (m_mouseWindowRect sample_input) \<le> Right (m_mouseWindowRect sample_input)"
    "Top (m_mouseWindowRect sample_input) \<le> Bottom (m_mouseWindowRect sample_input)"
    "pending sample_input = []"
    by (simp_all add: sample_input_def)
  then show ?thesis
    using mouse_events_in_window [OF sample_click_event] by simp
qed


definition late_env :: Env where
  "late_env = sample_env\<lparr>tickCount := 2000\<rparr>"


text \<open>
  C36. A mouse report with a coordinate that does not fit a console coordinate fails the narrowing
  assertion, which ends the agent: the macros accept up to seven digits, \<open>checkedNarrow\<close> only
  those of a 16-bit value.
\<close>

theorem wide_mouse_report_ends_process:
  assumes "f < 10000000" and "32768 < x" and "x < 10000000"
  shows "scanInput env isEof (sgr_report f x y rel @ rest) st = None"
proof -
  have lf: "length (decimal f) < 8" using length_decimal [of f 6] assms(1) by simp
  have lx: "length (decimal (nat \<bar>x\<bar>)) < 8"
    using length_decimal [of "nat \<bar>x\<bar>" 6] assms(2,3) by (simp add: nat_less_iff)
  have nx: "narrowShort (x - 1) s = Abort" for s
    using assms(2) by (auto simp: narrowShort_def checkedNarrow_eq)
  note scans = SCAN_INT_decimal [OF lf not_digits(1)] SCAN_SIGNED_INT_decimal [OF lx not_digits(1)]
  have "mouse1006Body (sgr_report f x y rel @ rest) = Abort"
    using scans by (simp add: mouse1006Body_def sgr_report_def sbind_def lit_hit lit_decimal lit_signed nx)
  then have "matchMouseRecord (sgr_report f x y rel @ rest) = None"
    by (simp add: matchMouseRecord_def matchMouse1006_def finish_def)
  moreover have "matchDsr (sgr_report f x y rel @ rest) = Some 0"
    by (simp add: sgr_report_def matchDsr_def finish_def dsrBody_def sbind_def lit_hit SCAN_INT_def
        CHECK_def is_digit_def less_eq_char_def)
  moreover have "hd (sgr_report f x y rel @ rest) = ESC" "sgr_report f x y rel @ rest \<noteq> []"
    by (simp_all add: sgr_report_def ESC_def)
  ultimately show ?thesis by (simp add: scanInput_ESC scanMouseInput_def)
qed

theorem wide_mouse_report_ends_process_witness:
  "scanInput sample_env False (sgr_report 0 99999 1 False @ []) sample_input = None"
  by (rule wide_mouse_report_ends_process) simp_all

text \<open>
  The modified F3 keys of the default map (\<open>ESC [ 1 ; n R\<close>) never reach the console: the scanner
  takes them for the reply to a Device Status Report, in every mode.
\<close>

lemma modified_f3_is_taken_for_dsr:
  assumes "n \<in> {2..8}"
  shows "(ESC # ''[1;'' @ [digit_char n, CHR ''R''],
       \<lparr>virtualKey = VK_F3, unicodeChar = 0, keyState = modState (int n)\<rparr>) \<in> set default_entries \<and>
    scanInput env isEof (ESC # ''[1;'' @ [digit_char n, CHR ''R''] @ rest) st =
      Some (6, st\<lparr>m_dsrSent := False\<rparr>)"
proof -
  let ?e = "mk_encoding True (CHR ''['') (CHR ''R'') kSemiMod VK_F3 0 0"
  have row: "?e \<in> set escapeLetterEncodings" by (simp add: escapeLetterEncodings_def)
  have md: "int n \<in> set [2..8]" using assms by auto
  have sem: "modifiers ?e AND kSemiMod \<noteq> 0" by (simp add: mk_encoding_def kSemiMod_def)
  have key: "encodingKey ?e x = \<lparr>virtualKey = VK_F3, unicodeChar = 0, keyState = x\<rparr>" for x
    by (simp add: encodingKey_def mk_encoding_def enhance_def useEnhancedForVirtualKey_def VK_defs Let_def)
  have "([ESC, enc_prefix ?e, CHR ''1'', CHR '';'', digit_char n, enc_id ?e], encodingKey ?e (modState (int n)))
      \<in> set default_entries"
    using letter_entry(2) [OF row sem md] by simp
  moreover have "enc_prefix ?e = CHR ''[''" "enc_id ?e = CHR ''R''" by (simp_all add: mk_encoding_def)
  moreover have "matchDsr (ESC # ''[1;'' @ [digit_char n, CHR ''R''] @ rest) = Some 6"
    using dsr_body_match [of 1 n rest] assms
    by (simp add: decimal_digit digit_char_def [of "Suc 0"] char_of_def bit_0)
  ultimately show ?thesis by (simp add: key scanInput_dsr)
qed

end
