(* ===== verification/KeyPress.thy ===== *)
theory KeyPress
  imports ConsoleInput
begin

text \<open>
  Key presses as an application sees them: the modifiers that are held while the records of a key
  press are replayed, and the escape sequences of re-encoded keys, which the agent's own default
  map reads back as the same keys.
\<close>

section \<open>Replaying a key press\<close>

text \<open>
  \<open>replay\<close> follows which modifiers are held while an application processes key records, and checks
  that the control key state in every record is the held state.
\<close>

definition held_after :: "KeyEventRecord \<Rightarrow> u16 \<Rightarrow> u16" where
  "held_after k held =
    (let m = (if wVirtualKeyCode k = VK_CONTROL then LEFT_CTRL_PRESSED
              else if wVirtualKeyCode k = VK_SHIFT then SHIFT_PRESSED
              else if wVirtualKeyCode k = VK_MENU then
                (if keyControlState k AND ucast ENHANCED_KEY \<noteq> 0 then RIGHT_ALT_PRESSED
                 else LEFT_ALT_PRESSED)
              else 0)
     in if bKeyDown k then held OR m else held AND NOT m)"

fun replay :: "u16 \<Rightarrow> Records \<Rightarrow> u16 option" where
  "replay held [] = Some held"
| "replay held (KeyEvent k # rs) =
    (let held' = held_after k held in
     if keyControlState k AND NOT (ucast ENHANCED_KEY) = ucast held' then replay held' rs else None)"
| "replay held (MouseEvent m # rs) = replay held rs"

lemma replay_append: "replay h (xs @ ys) = Option.bind (replay h xs) (\<lambda>h'. replay h' ys)"
  by (induction h xs rule: replay.induct) (simp_all add: Let_def)

lemma replay_key:
  assumes "vk \<notin> {VK_CONTROL, VK_SHIFT, VK_MENU}" and "ucast st AND NOT (ucast ENHANCED_KEY) = (ucast h :: u32)"
  shows "replay h (map (\<lambda>w. keyRecord env kd vk w st) ws) = Some h"
proof (induction ws)
  case (Cons w ws)
  have "held_after \<lparr>bKeyDown = kd, wRepeatCount = 1, wVirtualKeyCode = vk,
      wVirtualScanCode = ucast (mapVirtualKey env vk), UnicodeChar = w, keyControlState = ucast st\<rparr> h = h"
    using assms(1) by (simp add: held_after_def)
  then show ?case using Cons assms(2) by (simp add: keyRecord_def Let_def)
qed simp

lemmas replay_defs = press_list_def release_list_def held_state_def keyRecord_def held_after_def
  key_state_defs VK_CONTROL_def VK_SHIFT_def VK_MENU_def

lemma replay_press: "replay 0 (press_list env c l r s) = Some (held_state c l r s)"
  by (cases c; cases l; cases r; cases s) (simp_all add: replay_defs Let_def)

lemma replay_release: "replay (held_state c l r s) (release_list env c l r s (held_state c l r s)) = Some 0"
  by (cases c; cases l; cases r; cases s) (simp_all add: replay_defs Let_def)

lemma held_enhanced:
  "(held_state c l r s OR ENHANCED_KEY) AND NOT ENHANCED_KEY = held_state c l r s"
  "(ucast (held_state c l r s OR ENHANCED_KEY) :: u32) AND NOT (ucast ENHANCED_KEY) = ucast (held_state c l r s)"
  "(ucast (held_state c l r s) :: u32) AND NOT (ucast ENHANCED_KEY) = ucast (held_state c l r s)"
  by (cases c; cases l; cases r; cases s; simp add: held_state_def key_state_defs Let_def)+

section \<open>Re-encoded keys are read back\<close>

definition units_string :: "u16 list \<Rightarrow> string" where
  "units_string ws = map (\<lambda>w. char_of_byte (ucast w)) ws"

lemma letter_members:
    "mk_encoding True (CHR ''['') (CHR ''A'') (kBare OR kBareMod OR kSemiMod) VK_UP 0 0 \<in> set escapeLetterEncodings"
    "mk_encoding True (CHR ''['') (CHR ''B'') (kBare OR kBareMod OR kSemiMod) VK_DOWN 0 0 \<in> set escapeLetterEncodings"
    "mk_encoding True (CHR ''['') (CHR ''C'') (kBare OR kBareMod OR kSemiMod) VK_RIGHT 0 0 \<in> set escapeLetterEncodings"
    "mk_encoding True (CHR ''['') (CHR ''D'') (kBare OR kBareMod OR kSemiMod) VK_LEFT 0 0 \<in> set escapeLetterEncodings"
    "mk_encoding True (CHR ''['') (CHR ''E'') (kBare OR kSemiMod) VK_CLEAR 0 0 \<in> set escapeLetterEncodings"
    "mk_encoding True (CHR ''['') (CHR ''H'') (kBare OR kBareMod OR kSemiMod) VK_HOME 0 0 \<in> set escapeLetterEncodings"
    "mk_encoding True (CHR ''['') (CHR ''F'') (kBare OR kBareMod OR kSemiMod) VK_END 0 0 \<in> set escapeLetterEncodings"
  by (simp_all add: escapeLetterEncodings_def)

lemma numeric_members:
    "mk_encoding True (CHR ''['') (char_of (11 :: nat)) (kBare OR kSemiMod OR kSuffixBoth) VK_F1 0 0 \<in> set escapeNumericEncodings"
    "mk_encoding True (CHR ''['') (char_of (12 :: nat)) (kBare OR kSemiMod OR kSuffixBoth) VK_F2 0 0 \<in> set escapeNumericEncodings"
    "mk_encoding True (CHR ''['') (char_of (13 :: nat)) (kBare OR kSemiMod OR kSuffixBoth) VK_F3 0 0 \<in> set escapeNumericEncodings"
    "mk_encoding True (CHR ''['') (char_of (14 :: nat)) (kBare OR kSemiMod OR kSuffixBoth) VK_F4 0 0 \<in> set escapeNumericEncodings"
    "mk_encoding True (CHR ''['') (char_of (15 :: nat)) (kBare OR kSemiMod OR kSuffixBoth) VK_F5 0 0 \<in> set escapeNumericEncodings"
    "mk_encoding True (CHR ''['') (char_of (17 :: nat)) (kBare OR kSemiMod OR kSuffixBoth) VK_F6 0 0 \<in> set escapeNumericEncodings"
    "mk_encoding True (CHR ''['') (char_of (18 :: nat)) (kBare OR kSemiMod OR kSuffixBoth) VK_F7 0 0 \<in> set escapeNumericEncodings"
    "mk_encoding True (CHR ''['') (char_of (19 :: nat)) (kBare OR kSemiMod OR kSuffixBoth) VK_F8 0 0 \<in> set escapeNumericEncodings"
    "mk_encoding True (CHR ''['') (char_of (20 :: nat)) (kBare OR kSemiMod OR kSuffixBoth) VK_F9 0 0 \<in> set escapeNumericEncodings"
    "mk_encoding True (CHR ''['') (char_of (21 :: nat)) (kBare OR kSemiMod OR kSuffixBoth) VK_F10 0 0 \<in> set escapeNumericEncodings"
    "mk_encoding True (CHR ''['') (char_of (23 :: nat)) (kBare OR kSemiMod OR kSuffixBoth) VK_F11 0 0 \<in> set escapeNumericEncodings"
    "mk_encoding True (CHR ''['') (char_of (24 :: nat)) (kBare OR kSemiMod OR kSuffixBoth) VK_F12 0 0 \<in> set escapeNumericEncodings"
    "mk_encoding True (CHR ''['') (char_of (2 :: nat)) (kBare OR kSemiMod OR kSuffixBoth) VK_INSERT 0 0 \<in> set escapeNumericEncodings"
    "mk_encoding True (CHR ''['') (char_of (3 :: nat)) (kBare OR kSemiMod OR kSuffixBoth) VK_DELETE 0 0 \<in> set escapeNumericEncodings"
    "mk_encoding True (CHR ''['') (char_of (5 :: nat)) (kBare OR kSemiMod OR kSuffixBoth) VK_PRIOR 0 0 \<in> set escapeNumericEncodings"
    "mk_encoding True (CHR ''['') (char_of (6 :: nat)) (kBare OR kSemiMod OR kSuffixBoth) VK_NEXT 0 0 \<in> set escapeNumericEncodings"
  by (simp_all add: escapeNumericEncodings_def)

definition letter_keys :: "(u16 \<times> u16 \<times> char \<times> int) list" where
  "letter_keys = [(VK_UP, 0x41, CHR ''A'', kBare OR kBareMod OR kSemiMod),
       (VK_DOWN, 0x42, CHR ''B'', kBare OR kBareMod OR kSemiMod),
       (VK_RIGHT, 0x43, CHR ''C'', kBare OR kBareMod OR kSemiMod),
       (VK_LEFT, 0x44, CHR ''D'', kBare OR kBareMod OR kSemiMod),
       (VK_CLEAR, 0x45, CHR ''E'', kBare OR kSemiMod),
       (VK_HOME, 0x48, CHR ''H'', kBare OR kBareMod OR kSemiMod),
       (VK_END, 0x46, CHR ''F'', kBare OR kBareMod OR kSemiMod)]"

definition numeric_keys :: "(u16 \<times> u16 \<times> u16 \<times> nat) list" where
  "numeric_keys =
      [(VK_F1, 0x31, 0x31, 11),
       (VK_F2, 0x31, 0x32, 12),
       (VK_F3, 0x31, 0x33, 13),
       (VK_F4, 0x31, 0x34, 14),
       (VK_F5, 0x31, 0x35, 15),
       (VK_F6, 0x31, 0x37, 17),
       (VK_F7, 0x31, 0x38, 18),
       (VK_F8, 0x31, 0x39, 19),
       (VK_F9, 0x32, 0x30, 20),
       (VK_F10, 0x32, 0x31, 21),
       (VK_F11, 0x32, 0x33, 23),
       (VK_F12, 0x32, 0x34, 24),
       (VK_INSERT, 0x32, 0, 2),
       (VK_DELETE, 0x33, 0, 3),
       (VK_PRIOR, 0x35, 0, 5),
       (VK_NEXT, 0x36, 0, 6)]"

lemma escapeCodeOf_letter: "escapeCodeOf vk = Letter c \<Longrightarrow> \<exists>ch m. (vk, c, ch, m) \<in> set letter_keys"
  by (auto simp: escapeCodeOf_def letter_keys_def split: if_splits)

lemma escapeCodeOf_numeric: "escapeCodeOf vk = Numeric a b \<Longrightarrow> \<exists>n. (vk, a, b, n) \<in> set numeric_keys"
  by (auto simp: escapeCodeOf_def numeric_keys_def split: if_splits)

lemma letter_row:
  "\<forall>(vk, c, ch, m) \<in> set letter_keys. char_of_byte (ucast c) = ch \<and>
    mk_encoding True (CHR ''['') ch m vk 0 0 \<in> set escapeLetterEncodings \<and>
    m AND kBare \<noteq> 0 \<and> m AND kSemiMod \<noteq> 0"
  unfolding letter_keys_def
  by (simp add: letter_members char_of_byte_def char_of_def) (simp add: kBare_def kBareMod_def kSemiMod_def bit_0)

lemma numeric_row:
  "\<forall>(vk, a, b, n) \<in> set numeric_keys.
    mk_encoding True (CHR ''['') (char_of n) (kBare OR kSemiMod OR kSuffixBoth) vk 0 0
      \<in> set escapeNumericEncodings \<and> n < 256 \<and>
    units_string (filter (\<lambda>c. c \<noteq> 0) [a, b]) = decimal n"
  unfolding numeric_keys_def
  by (simp add: numeric_members units_string_def char_of_byte_def decimal.simps digit_char_def)

lemma and_single: "(x :: 'a::len word) AND 2 ^ n = (if bit x n then 2 ^ n else 0)"
  by (auto intro!: bit_word_eqI simp: bit_simps)

lemma modState_flags:
  "modState (modifierFlags st + 1) = st AND (SHIFT_PRESSED OR LEFT_ALT_PRESSED OR LEFT_CTRL_PRESSED)"
proof -
  have "st AND (SHIFT_PRESSED OR LEFT_ALT_PRESSED OR LEFT_CTRL_PRESSED) =
      (st AND SHIFT_PRESSED) OR (st AND LEFT_ALT_PRESSED) OR (st AND LEFT_CTRL_PRESSED)"
    by (simp add: bit.conj_disj_distrib)
  moreover have "st AND SHIFT_PRESSED = (if bit st 4 then SHIFT_PRESSED else 0)"
    "st AND LEFT_ALT_PRESSED = (if bit st 1 then LEFT_ALT_PRESSED else 0)"
    "st AND LEFT_CTRL_PRESSED = (if bit st 3 then LEFT_CTRL_PRESSED else 0)"
    using and_single [of st 4] and_single [of st 1] and_single [of st 3]
    by (simp_all add: key_state_defs)
  ultimately show ?thesis
    by (cases "bit st 4"; cases "bit st 1"; cases "bit st 3")
      (simp_all add: modifierFlags_def modState_def key_state_defs)
qed

lemma encodingKey_special:
  assumes "escapeCodeOf vk \<noteq> KindNone" and "enc_key e = \<lparr>virtualKey = vk, unicodeChar = 0, keyState = 0\<rparr>"
  shows "virtualKey (encodingKey e x) = vk" and "unicodeChar (encodingKey e x) = 0"
    and "keyState (encodingKey e x) AND NOT ENHANCED_KEY = x AND NOT ENHANCED_KEY"
proof -
  have "vk \<noteq> VK_RETURN" using assms(1) by (auto simp: escapeCodeOf_def VK_defs)
  then show "virtualKey (encodingKey e x) = vk" "unicodeChar (encodingKey e x) = 0"
    using assms(2) by (auto simp: encodingKey_def enhance_def Let_def)
  have "(x OR ENHANCED_KEY) AND NOT ENHANCED_KEY = x AND NOT ENHANCED_KEY"
    by (simp add: bit_eq_iff bit_simps) blast
  then show "keyState (encodingKey e x) AND NOT ENHANCED_KEY = x AND NOT ENHANCED_KEY"
    using assms(2) by (auto simp: encodingKey_def enhance_def Let_def)
qed

lemma mod_mask:
  "(st AND (SHIFT_PRESSED OR LEFT_ALT_PRESSED OR LEFT_CTRL_PRESSED)) AND NOT ENHANCED_KEY =
    st AND (SHIFT_PRESSED OR LEFT_ALT_PRESSED OR LEFT_CTRL_PRESSED)"
  by (simp add: key_state_defs and.assoc)

lemma flag_digit:
  assumes "0 \<le> f" "f \<le> 7"
  shows "char_of_byte (ucast (word_of_int (0x31 + f) :: u16)) = digit_char (nat (f + 1))"
proof -
  have "f = 0 \<or> f = 1 \<or> f = 2 \<or> f = 3 \<or> f = 4 \<or> f = 5 \<or> f = 6 \<or> f = 7" using assms by presburger
  then show ?thesis by (elim disjE; hypsubst; simp add: char_of_byte_def digit_char_def)
qed

text \<open>The text typed for a special key is an entry of the default map for that key.\<close>

lemma escape_text_entry:
  assumes code: "escapeCodeOf vk = code" "code \<noteq> KindNone" and f: "f = modifierFlags st"
  shows "\<exists>e. enc_key e = \<lparr>virtualKey = vk, unicodeChar = 0, keyState = 0\<rparr> \<and>
    (units_string (escape_text code f), encodingKey e (modState (f + 1))) \<in> set default_entries"
proof -
  have fr: "0 \<le> f" "f \<le> 7" using modifierFlags_range [of st] f by auto
  have m1: "modState 1 = 0" by (simp add: modState_def)
  have esc: "char_of_byte 0x1B = ESC" "char_of_byte 0x5B = CHR ''[''" "char_of_byte 0x31 = CHR ''1''"
    "char_of_byte 0x3B = CHR '';''" "char_of_byte 0x7E = CHR ''~''"
    by (simp_all add: char_of_byte_def ESC_def char_of_def bit_0)
  show ?thesis
  proof (cases code)
    case (Letter c)
    then obtain ch m where mem: "(vk, c, ch, m) \<in> set letter_keys"
      using escapeCodeOf_letter code(1) by blast
    let ?e = "mk_encoding True (CHR ''['') ch m vk 0 0"
    have row: "char_of_byte (ucast c) = ch" "?e \<in> set escapeLetterEncodings"
      "m AND kBare \<noteq> 0" "m AND kSemiMod \<noteq> 0"
      using bspec [OF letter_row mem] by auto
    have e: "modifiers ?e = m" "enc_prefix ?e = CHR ''[''" "enc_id ?e = ch"
      "enc_key ?e = \<lparr>virtualKey = vk, unicodeChar = 0, keyState = 0\<rparr>"
      by (simp_all add: mk_encoding_def)
    show ?thesis
    proof (cases "f = 0")
      case True
      then have "units_string (escape_text code f) = [ESC, CHR ''['', ch]"
        using Letter row(1) esc by (simp add: escape_text_def units_string_def)
      then show ?thesis using letter_entry(1) [OF row(2)] row(3) e True m1
        by (intro exI [of _ ?e]) simp
    next
      case False
      then have "f + 1 \<in> set [2..8]" using fr by auto
      moreover have "units_string (escape_text code f) =
          [ESC, CHR ''['', CHR ''1'', CHR '';'', digit_char (nat (f + 1)), ch]"
        using Letter False row(1) esc flag_digit [OF fr] by (simp add: escape_text_def units_string_def)
      ultimately show ?thesis using letter_entry(2) [OF row(2), of "f + 1"] row(4) e
        by (intro exI [of _ ?e]) simp
    qed
  next
    case (Numeric a b)
    then obtain n where mem: "(vk, a, b, n) \<in> set numeric_keys"
      using escapeCodeOf_numeric code(1) by blast
    let ?e = "mk_encoding True (CHR ''['') (char_of n) (kBare OR kSemiMod OR kSuffixBoth) vk 0 0"
    have row: "?e \<in> set escapeNumericEncodings" "n < 256" "units_string (filter (\<lambda>c. c \<noteq> 0) [a, b]) = decimal n"
      using bspec [OF numeric_row mem] by auto
    have e: "enc_prefix ?e = CHR ''[''" "of_char (enc_id ?e) = n"
      "modifiers ?e AND kBare \<noteq> 0" "modifiers ?e AND kSemiMod \<noteq> 0"
      "enc_key ?e = \<lparr>virtualKey = vk, unicodeChar = 0, keyState = 0\<rparr>"
      using row(2) by (simp_all add: mk_encoding_def of_char_of kBare_def kSemiMod_def kSuffixBoth_def
          kSuffixCtrl_def kSuffixShift_def)
    have app: "units_string (xs @ ys) = units_string xs @ units_string ys" for xs ys
      by (simp add: units_string_def)
    show ?thesis
    proof (cases "f = 0")
      case True
      then have "units_string (escape_text code f) = [ESC, CHR ''[''] @ decimal n @ ''~''"
        using Numeric row(3) esc unfolding escape_text_def
        by (simp only: app EscapedKey.case if_True if_False simp_thms) (simp add: units_string_def)
      then show ?thesis using numeric_entry(1) [OF row(1)] e True m1
        by (intro exI [of _ ?e]) simp
    next
      case False
      then have "f + 1 \<in> set [2..8]" using fr by auto
      moreover have "units_string (escape_text code f) =
          [ESC, CHR ''[''] @ decimal n @ [CHR '';'', digit_char (nat (f + 1)), CHR ''~'']"
        using Numeric False row(3) esc flag_digit [OF fr] unfolding escape_text_def
        by (simp only: app EscapedKey.case if_True if_False simp_thms) (simp add: units_string_def)
      ultimately show ?thesis using numeric_entry(2) [OF row(1), of "f + 1"] e
        by (intro exI [of _ ?e]) simp
    qed
  qed (use code in simp)
qed

lemma length_units_string [simp]: "length (units_string ws) = length ws"
  by (simp add: units_string_def)

section \<open>Properties\<close>

text \<open>
  The records of a key press, replayed from a state with no modifier held, press and release
  the modifiers consistently: in every record the control key state is the set of modifiers held
  at that moment (apart from the enhanced-key bit), and none is held at the end.
\<close>

lemma keypress_modifiers_balanced:
  assumes "env_ok env" and "vk \<notin> {VK_CONTROL, VK_SHIFT, VK_MENU}"
    and "keyPressRecords env False vk winDn winUp winKeyState vtCodePoint vtKeyState [] = Some rs"
  shows "replay 0 rs = Some 0"
proof -
  have rs: "rs = press_records env False vk winDn winUp winKeyState vtCodePoint vtKeyState"
    using assms(3) keyPressRecords_ok [OF assms(1)] by simp
  show ?thesis
    unfolding rs press_records_def Let_def key_list_def
    by (simp add: replay_append replay_press replay_key [OF assms(2)] held_enhanced replay_release)
qed

text \<open>
  C21. In escape-input mode a special key is typed as an escape sequence, and looking that sequence
  up in the agent's own default map gives back the same key with the same Shift, Alt and Ctrl
  state, with nothing left over: the re-encoder and the decoder tables agree.
\<close>

theorem reencoded_key_is_read_back:
  assumes "env_ok env" and "escapeCodeOf vk \<noteq> KindNone"
  shows "\<exists>rs k. reencodeEscapedKeyPress env vk codePoint st [] = Some rs \<and>
    lookupKey default_map (units_string (typed_text rs)) = (length (typed_text rs), k, False) \<and>
    virtualKey k = vk \<and> unicodeChar k = 0 \<and>
    keyState k AND NOT ENHANCED_KEY = st AND (SHIFT_PRESSED OR LEFT_ALT_PRESSED OR LEFT_CTRL_PRESSED)"
proof -
  let ?t = "escape_text (escapeCodeOf vk) (modifierFlags st)"
  obtain e where e: "enc_key e = \<lparr>virtualKey = vk, unicodeChar = 0, keyState = 0\<rparr>"
    and mem: "(units_string ?t, encodingKey e (modState (modifierFlags st + 1))) \<in> set default_entries"
    using escape_text_entry [OF refl assms(2) refl] by blast
  have "reencodeEscapedKeyPress env vk codePoint st [] = Some (typeRecords env ?t)"
    using assms(2) by (simp add: reencode_ok [OF assms(1)] reencoded_text_def)
  moreover have "lookupKey default_map (units_string ?t) =
      (length ?t, encodingKey e (modState (modifierFlags st + 1)), False)"
    using default_lookup_table [OF mem, of "[]"] by simp
  ultimately show ?thesis
    using encodingKey_special [OF assms(2) e] modState_flags [of st] mod_mask [of st] by auto
qed

theorem reencoded_key_is_read_back_witness:
  "\<exists>rs k. reencodeEscapedKeyPress sample_env VK_F5 0 SHIFT_PRESSED [] = Some rs \<and>
    lookupKey default_map (units_string (typed_text rs)) = (length (typed_text rs), k, False) \<and>
    virtualKey k = VK_F5 \<and> unicodeChar k = 0 \<and>
    keyState k AND NOT ENHANCED_KEY =
      SHIFT_PRESSED AND (SHIFT_PRESSED OR LEFT_ALT_PRESSED OR LEFT_CTRL_PRESSED)"
  by (rule reencoded_key_is_read_back [OF env_ok_sample]) (simp add: escapeCodeOf_def VK_defs)

end
