(* ===== verification/ConsoleLine.thy ===== *)
theory ConsoleLine
  imports WinTypes
begin

text \<open>
  \<open>ConsoleLine\<close> (src/agent/ConsoleLine.cc) remembers the previous content of one output line
  and decides whether the line must be sent again. The vector never shrinks (except in \<open>reset\<close>
  and \<open>blank\<close>), so the cells past \<open>m_prevLength\<close> are what a narrower console hides.
\<close>

section \<open>State and operations\<close>

record ConsoleLineState =
  prevLength :: int
  prevData :: "CHAR_INFO list"

definition newConsoleLine :: ConsoleLineState where
  "newConsoleLine = \<lparr>prevLength = 0, prevData = []\<rparr>"

definition blankChar :: "u16 \<Rightarrow> CHAR_INFO" where
  "blankChar attributes = \<lparr>Attributes = attributes, cellChar = 0x20\<rparr>"

definition isLineBlank :: "CHAR_INFO list \<Rightarrow> int \<Rightarrow> u16 \<Rightarrow> bool" where
  "isLineBlank line len attributes =
     list_all (\<lambda>c. Attributes c = attributes \<and> cellChar c = 0x20) (take (nat len) line)"

definition areLinesEqual :: "CHAR_INFO list \<Rightarrow> CHAR_INFO list \<Rightarrow> int \<Rightarrow> bool" where
  "areLinesEqual line1 line2 len \<longleftrightarrow> take (nat len) line1 = take (nat len) line2"

definition resetLine :: "ConsoleLineState \<Rightarrow> ConsoleLineState" where
  "resetLine st = st\<lparr>prevLength := 0, prevData := []\<rparr>"

definition setLine :: "CHAR_INFO list \<Rightarrow> int \<Rightarrow> ConsoleLineState \<Rightarrow> ConsoleLineState" where
  "setLine line newLength st =
     (let data = (if int (length (prevData st)) < newLength
                  then resize (nat newLength) \<lparr>Attributes = 0, cellChar = 0\<rparr> (prevData st)
                  else prevData st);
          copied = take (nat newLength) line @ drop (nat newLength) data
      in st\<lparr>prevData := copied, prevLength := newLength\<rparr>)"

definition detectChangeAndSetLine ::
  "CHAR_INFO list \<Rightarrow> int \<Rightarrow> ConsoleLineState \<Rightarrow> (bool \<times> ConsoleLineState) option" where
  "detectChangeAndSetLine line newLength st = do {
     ASSERT (newLength \<ge> 1);
     ASSERT (prevLength st \<le> int (length (prevData st)));
     if newLength = prevLength st then
       (let equalLines = areLinesEqual (prevData st) line newLength
        in Some (\<not> equalLines, if \<not> equalLines then setLine line newLength st else st))
     else if prevLength st = 0 then Some (True, setLine line newLength st)
     else do {
       ASSERT (prevLength st \<ge> 1);
       let prevBlank = Attributes (prevData st ! nat (prevLength st - 1));
       let newBlank = Attributes (line ! nat (newLength - 1));
       equalLines \<leftarrow>
         (if newLength < prevLength st then
            Some (areLinesEqual (prevData st) line newLength \<and>
                  isLineBlank (drop (nat newLength) (prevData st)) (prevLength st - newLength)
                    newBlank)
          else do {
            ASSERT (newLength > prevLength st);
            if \<not> areLinesEqual (prevData st) line (prevLength st) then Some False
            else do {
              prevSize \<leftarrow> checkedNarrow int_range (int (length (prevData st)));
              Some (isLineBlank (drop (nat (prevLength st)) (prevData st))
                      (min prevSize newLength - prevLength st) prevBlank \<and>
                    isLineBlank (drop (nat (prevLength st)) line) (newLength - prevLength st)
                      prevBlank)
            }
          });
       Some (\<not> equalLines, setLine line newLength st)
     }
   }"

definition blankLine :: "u16 \<Rightarrow> ConsoleLineState \<Rightarrow> ConsoleLineState" where
  "blankLine attributes st =
     st\<lparr>prevData := (resize 1 \<lparr>Attributes = 0, cellChar = 0\<rparr> (prevData st))
          [0 := blankChar attributes],
        prevLength := 1\<rparr>"

section \<open>The remembered line\<close>

text \<open>
  The invariant that the assertions of the code check; the vector is no longer than an \<open>int\<close>
  can count. \<open>shownLine\<close> is the remembered line, \<open>hiddenCells\<close> what lies past its end.
\<close>

definition lineInv :: "ConsoleLineState \<Rightarrow> bool" where
  "lineInv st \<longleftrightarrow> 0 \<le> prevLength st \<and> prevLength st \<le> int (length (prevData st)) \<and>
     int (length (prevData st)) \<le> 2147483647"

definition shownLine :: "ConsoleLineState \<Rightarrow> CHAR_INFO list" where
  "shownLine st = take (nat (prevLength st)) (prevData st)"

definition hiddenCells :: "ConsoleLineState \<Rightarrow> CHAR_INFO list" where
  "hiddenCells st = drop (nat (prevLength st)) (prevData st)"

text \<open>
  A line padded to a width \<open>w\<close>: what a terminal of that width shows when the line continues with
  blanks in the attributes of its last cell.
\<close>

definition padLine :: "nat \<Rightarrow> CHAR_INFO list \<Rightarrow> CHAR_INFO list" where
  "padLine w l = l @ replicate (w - length l) (blankChar (Attributes (last l)))"

lemma lineInv_new [simp]: "lineInv newConsoleLine"
  by (simp add: lineInv_def newConsoleLine_def)

lemma lineInv_reset [simp]: "lineInv (resetLine st)"
  by (simp add: lineInv_def resetLine_def)

lemma lineInv_blank [simp]: "lineInv (blankLine a st)"
  by (simp add: lineInv_def blankLine_def)

lemma shownLine_blank [simp]: "shownLine (blankLine a st) = [blankChar a]"
proof -
  obtain x where "resize 1 \<lparr>Attributes = 0, cellChar = 0\<rparr> (prevData st) = [x]"
    by (cases "prevData st") (simp_all add: resize_def)
  then show ?thesis by (simp add: shownLine_def blankLine_def)
qed

lemma setLine_facts:
  assumes "n \<ge> 0" and "nat n \<le> length line"
  shows "prevLength (setLine line n st) = n"
    and "shownLine (setLine line n st) = take (nat n) line"
    and "hiddenCells (setLine line n st) = drop (nat n) (prevData st)"
    and "length (prevData (setLine line n st)) = max (nat n) (length (prevData st))"
  using assms
  by (auto simp: setLine_def shownLine_def hiddenCells_def Let_def resize_def max_def)

lemma setLine_same:
  assumes "lineInv st" and "areLinesEqual (prevData st) line (prevLength st)"
  shows "setLine line (prevLength st) st = st"
proof -
  have "take (nat (prevLength st)) line = take (nat (prevLength st)) (prevData st)"
    using assms(2) by (simp add: areLinesEqual_def)
  then show ?thesis
    using assms(1) by (simp add: lineInv_def setLine_def)
qed

lemma lineInv_setLine:
  assumes "lineInv st" and "0 \<le> n" and "n \<le> 2147483647" and "nat n \<le> length line"
  shows "lineInv (setLine line n st)"
  using assms setLine_facts(1, 4) [of n line st] by (auto simp: lineInv_def max_def)

lemma isLineBlank_replicate:
  assumes "nat n \<le> length l"
  shows "isLineBlank l n a \<longleftrightarrow> take (nat n) l = replicate (nat n) (blankChar a)"
proof -
  have "isLineBlank l n a \<longleftrightarrow> (\<forall>c \<in> set (take (nat n) l). c = blankChar a)"
    by (auto simp: isLineBlank_def list_all_iff blankChar_def CHAR_INFO.equality)
  also have "\<dots> \<longleftrightarrow> take (nat n) l = replicate (nat n) (blankChar a)"
    using assms by (metis in_set_replicate length_take min.absorb2 replicate_eqI)
  finally show ?thesis .
qed

section \<open>What detectChangeAndSetLine decides\<close>

definition lineUnchanged :: "CHAR_INFO list \<Rightarrow> CHAR_INFO list \<Rightarrow> CHAR_INFO list \<Rightarrow> bool" where
  "lineUnchanged old hidden new \<longleftrightarrow>
     old \<noteq> [] \<and>
     padLine (max (length old) (length new)) old = padLine (max (length old) (length new)) new \<and>
     set (take (length new - length old) hidden) \<subseteq> {blankChar (Attributes (last old))}"

lemma last_take_nth: "0 < n \<Longrightarrow> n \<le> length xs \<Longrightarrow> last (take n xs) = xs ! (n - 1)"
  by (subst last_conv_nth) auto

lemma padLine_same [simp]: "w \<le> length l \<Longrightarrow> padLine w l = l"
  by (simp add: padLine_def)

lemma shorter_unchanged:
  assumes "0 < n" and "n < length old" and "n \<le> length line"
  shows "padLine (length old) (take n line) = old \<longleftrightarrow>
     take n old = take n line \<and>
     drop n old = replicate (length old - n) (blankChar (Attributes (line ! (n - 1))))"
proof -
  have "padLine (length old) (take n line) =
      take n line @ replicate (length old - n) (blankChar (Attributes (line ! (n - 1))))"
    using assms by (simp add: padLine_def last_take_nth)
  also have "(\<dots> = old) \<longleftrightarrow> take n old = take n line \<and>
     drop n old = replicate (length old - n) (blankChar (Attributes (line ! (n - 1))))"
    using assms append_eq_conv_conj [of "take n line" _ old] by (auto simp: eq_commute)
  finally show ?thesis .
qed

lemma detect_result:
  assumes "lineInv st" and "1 \<le> n" and "n \<le> 2147483647" and "nat n \<le> length line"
  shows "detectChangeAndSetLine line n st =
    Some (\<not> lineUnchanged (shownLine st) (hiddenCells st) (take (nat n) line), setLine line n st)"
proof -
  define k where "k = nat n"
  define p where "p = nat (prevLength st)"
  define d where "d = prevData st"
  have n: "n = int k" and k: "0 < k" "k \<le> length line"
    using assms by (auto simp: k_def)
  have p: "prevLength st = int p" "p \<le> length d" "length d \<le> 2147483647" and pd: "prevData st = d"
    using assms(1) by (auto simp: p_def d_def lineInv_def)
  have sh: "shownLine st = take p d" "hiddenCells st = drop p d"
    by (simp_all add: shownLine_def hiddenCells_def p_def d_def)
  consider "k = p" | "p = 0" "k \<noteq> p" | "0 < k" "k < p" | "0 < p" "p < k" using k by linarith
  then show ?thesis
  proof cases
    case 1
    then have eq: "areLinesEqual d line n \<longleftrightarrow> lineUnchanged (take p d) (drop p d) (take k line)"
      using k p by (auto simp: areLinesEqual_def lineUnchanged_def n)
    have "areLinesEqual d line n \<Longrightarrow> setLine line n st = st"
      using setLine_same [OF assms(1), of line] 1 n p pd by simp
    then show ?thesis
      using eq 1 k p by (auto simp: detectChangeAndSetLine_def sh pd n Let_def simp flip: k_def)
  next
    case 2
    then show ?thesis
      using k p by (simp add: detectChangeAndSetLine_def sh pd n lineUnchanged_def flip: k_def)
  next
    case 3
    have "isLineBlank (drop k d) (int p - int k) (Attributes (line ! (k - 1))) \<longleftrightarrow>
        drop k (take p d) = replicate (p - k) (blankChar (Attributes (line ! (k - 1))))"
      using 3 p by (subst isLineBlank_replicate) (simp_all add: drop_take nat_diff_distrib)
    moreover have "areLinesEqual d line (int k) \<longleftrightarrow> take k (take p d) = take k line"
      using 3 by (simp add: areLinesEqual_def)
    ultimately have "areLinesEqual d line (int k) \<and>
        isLineBlank (drop k d) (int p - int k) (Attributes (line ! (k - 1))) \<longleftrightarrow>
        padLine p (take k line) = take p d"
      using shorter_unchanged [of k "take p d" line] 3 k p by simp
    moreover have "nat (int k - 1) = k - 1" using k by linarith
    ultimately show ?thesis
      using 3 k p
      by (auto simp: detectChangeAndSetLine_def sh pd n lineUnchanged_def Let_def nat_diff_distrib
          simp flip: k_def)
  next
    case 4
    let ?b = "blankChar (Attributes (d ! (p - 1)))"
    have sub: "nat (int k - int p) = k - p" using 4 by linarith
    have "isLineBlank (drop p d) (min (int (length d)) (int k) - int p) (Attributes (d ! (p - 1))) \<longleftrightarrow>
        set (take (k - p) (drop p d)) \<subseteq> {?b}"
      using 4 by (auto simp: isLineBlank_def list_all_iff blankChar_def min_def sub)
    moreover have "isLineBlank (drop p line) (int k - int p) (Attributes (d ! (p - 1))) \<and>
        take p d = take p line \<longleftrightarrow> padLine k (take p d) = take k line"
      using shorter_unchanged [of p "take k line" d] 4 k p
      by (auto simp: isLineBlank_replicate drop_take nat_diff_distrib)
    moreover have "nat (int p - 1) = p - 1" using 4 by linarith
    moreover have "last (take p d) = d ! (p - 1)" using 4 p by (simp add: last_take_nth)
    moreover have "d \<noteq> []" using 4 p by auto
    ultimately show ?thesis
      using 4 k p
      by (auto simp: detectChangeAndSetLine_def sh pd n lineUnchanged_def Let_def areLinesEqual_def
          checkedNarrow_eq simp flip: k_def)
  qed
qed

text \<open>
  On a line of at least one cell, \<open>detectChangeAndSetLine\<close> never fails an assertion and
  leaves the \<open>ConsoleLine\<close> exactly as \<open>setLine\<close> would. It reports no change just when a line
  was shown before, the old and the new line are the same after padding the shorter one with
  blanks in the attributes of its last cell, and every hidden cell that a longer line exposes is
  such a blank.
\<close>

lemma detectChange_correct:
  assumes "lineInv st" and "1 \<le> n" and "n \<le> 2147483647" and "nat n \<le> length line"
  shows "\<exists>changed. detectChangeAndSetLine line n st = Some (changed, setLine line n st) \<and>
     (\<not> changed \<longleftrightarrow> lineUnchanged (shownLine st) (hiddenCells st) (take (nat n) line)) \<and>
     lineInv (setLine line n st) \<and> shownLine (setLine line n st) = take (nat n) line"
  using assms detect_result [OF assms] lineInv_setLine [OF assms(1) _ assms(3, 4)]
    setLine_facts(2) [of n line st] by simp

section \<open>A run of unchanged lines\<close>

definition feedLine :: "CHAR_INFO list \<Rightarrow> (bool list \<times> ConsoleLineState) \<Rightarrow>
    (bool list \<times> ConsoleLineState) option" where
  "feedLine l acc = (case acc of (bs, st) \<Rightarrow> do {
     (b, st') \<leftarrow> detectChangeAndSetLine l (int (length l)) st;
     Some (bs @ [b], st')
   })"

lemma padLine_extend:
  assumes "l \<noteq> []" and "w \<le> w'"
  shows "padLine w' (padLine w l) = padLine w' l"
proof (cases "length l < w")
  case True
  then have "last (padLine w l) = blankChar (Attributes (last l))"
    by (simp add: padLine_def)
  then show ?thesis
    using assms True
    by (simp add: padLine_def blankChar_def flip: replicate_add)
qed (use assms in simp)

lemma unchanged_padLine:
  assumes "lineUnchanged old hidden new" and "new \<noteq> []" and "length old \<le> w" and "length new \<le> w"
  shows "padLine w old = padLine w new"
proof -
  let ?m = "max (length old) (length new)"
  have "padLine w old = padLine w (padLine ?m old)"
    using assms by (intro padLine_extend [symmetric]) (auto simp: lineUnchanged_def)
  also have "padLine ?m old = padLine ?m new"
    using assms(1) by (simp add: lineUnchanged_def)
  also have "padLine w (padLine ?m new) = padLine w new"
    using assms by (intro padLine_extend) auto
  finally show ?thesis .
qed

lemma feedLine_step:
  assumes "lineInv st" and "l \<noteq> []" and "length l \<le> 2147483647"
  shows "feedLine l (bs, st) = Some (bs @ [\<not> lineUnchanged (shownLine st) (hiddenCells st) l],
            setLine l (int (length l)) st)"
    and "lineInv (setLine l (int (length l)) st)"
    and "shownLine (setLine l (int (length l)) st) = l"
proof -
  have "1 \<le> int (length l)" using assms(2) by (cases l) auto
  then show "feedLine l (bs, st) = Some (bs @ [\<not> lineUnchanged (shownLine st) (hiddenCells st) l],
            setLine l (int (length l)) st)"
    using assms detect_result [of st "int (length l)" l] by (simp add: feedLine_def)
  show "lineInv (setLine l (int (length l)) st)" using assms by (simp add: lineInv_setLine)
  show "shownLine (setLine l (int (length l)) st) = l" by (simp add: setLine_facts)
qed

lemma feed_lines:
  assumes "lineInv st" and "\<forall>l \<in> set ls. l \<noteq> [] \<and> length l \<le> 2147483647"
  shows "\<exists>cs st'. foreach feedLine ls (bs, st) = Some (bs @ cs, st') \<and> length cs = length ls \<and>
     (True \<notin> set cs \<longrightarrow>
       (\<forall>l \<in> set ls. \<forall>w. (\<forall>k \<in> insert (shownLine st) (set ls). length k \<le> w) \<longrightarrow>
          padLine w l = padLine w (shownLine st)))"
  using assms
proof (induction ls arbitrary: bs st)
  case Nil
  then show ?case by simp
next
  case (Cons l ls)
  let ?u = "lineUnchanged (shownLine st) (hiddenCells st) l"
  let ?st = "setLine l (int (length l)) st"
  have l: "l \<noteq> []" "length l \<le> 2147483647" using Cons.prems by auto
  note step = feedLine_step [OF Cons.prems(1) l]
  obtain cs st' where rest: "foreach feedLine ls (bs @ [\<not> ?u], ?st) = Some ((bs @ [\<not> ?u]) @ cs, st')"
      "length cs = length ls"
      "True \<notin> set cs \<longrightarrow> (\<forall>l' \<in> set ls. \<forall>w. (\<forall>k \<in> insert l (set ls). length k \<le> w) \<longrightarrow>
          padLine w l' = padLine w l)"
    using Cons.IH [OF step(2), of "bs @ [\<not> ?u]"] Cons.prems(2) step(3) by auto
  have "foreach feedLine (l # ls) (bs, st) = Some (bs @ (\<not> ?u) # cs, st')"
    using rest(1) step(1) [of bs] by simp
  moreover have "length ((\<not> ?u) # cs) = length (l # ls)" using rest(2) by simp
  moreover have "True \<notin> set ((\<not> ?u) # cs) \<longrightarrow>
       (\<forall>l' \<in> set (l # ls). \<forall>w. (\<forall>k \<in> insert (shownLine st) (set (l # ls)). length k \<le> w) \<longrightarrow>
          padLine w l' = padLine w (shownLine st))"
    using rest(3) unchanged_padLine [of "shownLine st" "hiddenCells st" l] l by auto
  ultimately show ?case by blast
qed

text \<open>
  C29. Whatever widths a line passes through: it is handed to the \<open>ConsoleLine\<close> at each of
  them, no assertion fails, and if every report is ``unchanged'' then all the versions are
  the same content padded with blanks as the version that was sent to the terminal, at every width that is
  large enough, so nothing had to be sent again.
\<close>

theorem unchanged_lines_agree:
  assumes "lineInv st" and "\<forall>l \<in> set ls. l \<noteq> [] \<and> length l \<le> 2147483647"
  shows "\<exists>cs st'. foreach feedLine ls ([], st) = Some (cs, st') \<and> length cs = length ls \<and>
     (True \<notin> set cs \<longrightarrow>
       (\<forall>l \<in> set ls. \<forall>w. (\<forall>k \<in> insert (shownLine st) (set ls). length k \<le> w) \<longrightarrow>
          padLine w l = padLine w (shownLine st)))"
  using feed_lines [OF assms, of "[]"] by simp

theorem unchanged_lines_agree_witness:
  "\<exists>cs st'. foreach feedLine [[blankChar 7], [blankChar 7, blankChar 7]] ([], blankLine 7 newConsoleLine) =
       Some (cs, st') \<and> length cs = length [[blankChar 7], [blankChar 7, blankChar 7]] \<and>
     (True \<notin> set cs \<longrightarrow>
       (\<forall>l \<in> set [[blankChar 7], [blankChar 7, blankChar 7]].
          \<forall>w. (\<forall>k \<in> insert (shownLine (blankLine 7 newConsoleLine))
                (set [[blankChar 7], [blankChar 7, blankChar 7]]). length k \<le> w) \<longrightarrow>
          padLine w l = padLine w (shownLine (blankLine 7 newConsoleLine))))"
  by (rule unchanged_lines_agree) simp_all

end
