(* ===== verification/Terminal.thy ===== *)
theory Terminal
  imports WinTypes UnicodeEncoding
begin

text \<open>
  \<open>Terminal\<close> (src/agent/Terminal.cc) turns console lines into the bytes that the client's
  terminal receives. \<open>m_output.write\<close> appends to \<open>sent\<close>, the bytes written so far.
  \<open>m_termLineWorkingBuffer\<close> is only a buffer of \<open>sendLine\<close>, so it is not part of the state.
  An \<open>int64_t\<close> line number is an integer.
\<close>

section \<open>Colours\<close>

definition CSI :: string where "CSI = CHR 0x1B # ''[''"

definition COLOR_ATTRIBUTE_MASK :: u16 where
  "COLOR_ATTRIBUTE_MASK =
     FOREGROUND_BLUE OR FOREGROUND_GREEN OR FOREGROUND_RED OR FOREGROUND_INTENSITY OR
     BACKGROUND_BLUE OR BACKGROUND_GREEN OR BACKGROUND_RED OR BACKGROUND_INTENSITY OR
     COMMON_LVB_REVERSE_VIDEO OR COMMON_LVB_UNDERSCORE"

definition FLAG_RED :: u16 where "FLAG_RED = 1"
definition FLAG_GREEN :: u16 where "FLAG_GREEN = 2"
definition FLAG_BLUE :: u16 where "FLAG_BLUE = 4"
definition FLAG_BRIGHT :: u16 where "FLAG_BRIGHT = 8"
definition BLACK :: u16 where "BLACK = 0"
definition DKGRAY :: u16 where "DKGRAY = BLACK OR FLAG_BRIGHT"
definition LTGRAY :: u16 where "LTGRAY = FLAG_RED OR FLAG_GREEN OR FLAG_BLUE"
definition WHITE :: u16 where "WHITE = LTGRAY OR FLAG_BRIGHT"

lemmas colour_defs =
  FLAG_RED_def FLAG_GREEN_def FLAG_BLUE_def FLAG_BRIGHT_def BLACK_def DKGRAY_def LTGRAY_def WHITE_def

definition SGR_FORE :: nat where "SGR_FORE = 30"
definition SGR_FORE_HI :: nat where "SGR_FORE_HI = 90"
definition SGR_BACK :: nat where "SGR_BACK = 40"

definition outUInt :: "string \<Rightarrow> nat \<Rightarrow> string" where
  "outUInt out n = out @ decimal n"

definition outputSetColorSgrParams :: "string \<Rightarrow> bool \<Rightarrow> u16 \<Rightarrow> string" where
  "outputSetColorSgrParams out isFore color =
     (let out1 = out @ '';'';
          sgrBase = (if isFore then SGR_FORE else SGR_BACK)
      in if color AND FLAG_BRIGHT \<noteq> 0 then
           let colorBase = unat (color AND NOT FLAG_BRIGHT)
           in outUInt (outUInt out1 (sgrBase + colorBase) @ '';'')
                (sgrBase + (SGR_FORE_HI - SGR_FORE) + colorBase)
         else outUInt out1 (sgrBase + unat color))"

definition flagIf :: "u16 \<Rightarrow> u16 \<Rightarrow> u16 \<Rightarrow> u16" where
  "flagIf color bits flag = (if color AND bits \<noteq> 0 then flag else 0)"

definition foreBack :: "u16 \<Rightarrow> u16 \<times> u16" where
  "foreBack color =
     (let fore = flagIf color FOREGROUND_RED FLAG_RED OR flagIf color FOREGROUND_GREEN FLAG_GREEN OR
            flagIf color FOREGROUND_BLUE FLAG_BLUE OR flagIf color FOREGROUND_INTENSITY FLAG_BRIGHT;
          back = flagIf color BACKGROUND_RED FLAG_RED OR flagIf color BACKGROUND_GREEN FLAG_GREEN OR
            flagIf color BACKGROUND_BLUE FLAG_BLUE OR flagIf color BACKGROUND_INTENSITY FLAG_BRIGHT
      in if color AND COMMON_LVB_REVERSE_VIDEO \<noteq> 0 then (back, fore) else (fore, back))"

definition outputSetColor :: "string \<Rightarrow> u16 \<Rightarrow> string" where
  "outputSetColor out color = (case foreBack color of (fore, back) \<Rightarrow>
     let out1 = out @ CSI @ ''0'';
         out2 =
           (if back = BLACK then
              (if fore = LTGRAY then out1
               else if fore = WHITE then out1 @ '';1''
               else if fore = DKGRAY then out1 @ '';37;90''
               else outputSetColorSgrParams out1 True fore)
            else if back = WHITE then
              (let out3 = out1 @ '';7''
               in if fore = LTGRAY \<or> fore = BLACK then out3
                  else outputSetColorSgrParams out3 False fore)
            else outputSetColorSgrParams (outputSetColorSgrParams out1 True fore) False back);
         out4 = (if fore = back then out2 @ '';8'' else out2);
         out5 = (if color AND COMMON_LVB_UNDERSCORE \<noteq> 0 then out4 @ '';4'' else out4)
     in out5 @ ''m'')"

section \<open>Characters\<close>

definition fixSpecialCharacters :: "u32 \<Rightarrow> u32" where
  "fixSpecialCharacters ch =
     (if ch \<le> 0x1b then
        (if ch = 1 then 0x2554
         else if ch = 2 then 0x2557
         else if ch = 3 then 0x255A
         else if ch = 4 then 0x255D
         else if ch = 5 then 0x2551
         else if ch = 6 then 0x2550
         else if ch = 0x1b then 0x3F
         else ch)
      else ch)"

definition isFullWidthCharacter :: "CHAR_INFO list \<Rightarrow> int \<Rightarrow> bool" where
  "isFullWidthCharacter data width =
     (if width < 2 then False
      else Attributes (data ! 0) AND COMMON_LVB_LEADING_BYTE \<noteq> 0 \<and>
           Attributes (data ! 1) AND COMMON_LVB_TRAILING_BYTE \<noteq> 0 \<and>
           cellChar (data ! 0) = cellChar (data ! 1))"

text \<open>\<open>scanUnicodeScalarValue\<close> returns its two output parameters, the cell count and the character.\<close>

definition scanUnicodeScalarValue :: "CHAR_INFO list \<Rightarrow> int \<Rightarrow> (int \<times> u32) option" where
  "scanUnicodeScalarValue data width = do {
     ASSERT (width \<ge> 1);
     let w1 = (if isFullWidthCharacter data width then 2 else 1 :: int);
     let c1 = cellChar (data ! 0);
     if c1 AND 0xF800 = 0xD800 then
       (if c1 AND 0xFC00 \<noteq> 0xD800 \<or> width \<le> w1 \<or>
           cellChar (data ! nat w1) AND 0xFC00 \<noteq> 0xDC00
        then Some (w1, 0x3F)
        else Some (w1 + (if isFullWidthCharacter (drop (nat w1) data) (width - w1) then 2 else 1),
                   decodeSurrogatePair c1 (cellChar (data ! nat w1))))
     else Some (w1, ucast c1)
   }"

section \<open>The terminal\<close>

record TerminalState =
  sent :: string
  remoteLine :: int
  remoteColumn :: int
  lineDataValid :: bool
  lineData :: "CHAR_INFO list"
  cursorHidden :: bool
  remoteColor :: int
  plainMode :: bool
  outputColor :: bool
  mouseModeEnabled :: bool

definition newTerminal :: "bool \<Rightarrow> bool \<Rightarrow> TerminalState" where
  "newTerminal plain color =
     \<lparr>sent = [], remoteLine = 0, remoteColumn = 0, lineDataValid = True, lineData = [],
      cursorHidden = False, remoteColor = - 1, plainMode = plain, outputColor = color,
      mouseModeEnabled = False\<rparr>"

definition outWrite :: "string \<Rightarrow> TerminalState \<Rightarrow> TerminalState" where
  "outWrite s t = t\<lparr>sent := sent t @ s\<rparr>"

definition CRLF :: string where "CRLF = [CHR 0x0D, CHR 0x0A]"
definition CR :: string where "CR = [CHR 0x0D]"

text \<open>\<open>std::format("{}")\<close> of a signed integer.\<close>

definition formatInt :: "int \<Rightarrow> string" where
  "formatInt n = (if n < 0 then CHR ''-'' # decimal (nat (- n)) else decimal (nat n))"

datatype SendClearFlag = OmitClear | SendClear

definition resetTerminal :: "SendClearFlag \<Rightarrow> int \<Rightarrow> TerminalState \<Rightarrow> TerminalState" where
  "resetTerminal sendClearFirst newLine t =
     (let t1 = (if sendClearFirst = SendClear \<and> \<not> plainMode t
                then outWrite (CSI @ ''0m'' @ CSI @ ''1;1H'' @ CSI @ ''2J'') t else t)
      in t1\<lparr>remoteLine := newLine, remoteColumn := 0, lineData := [], cursorHidden := False,
            remoteColor := - 1\<rparr>)"

definition hideTerminalCursor :: "TerminalState \<Rightarrow> TerminalState" where
  "hideTerminalCursor t =
     (if \<not> plainMode t then
        (if cursorHidden t then t else (outWrite (CSI @ ''?25l'') t)\<lparr>cursorHidden := True\<rparr>)
      else t)"

text \<open>The loop of \<open>moveTerminalToLine\<close> that goes forward line by line.\<close>

function forwardToLine :: "int \<Rightarrow> TerminalState \<Rightarrow> TerminalState" where
  "forwardToLine line t =
     (if line > remoteLine t
      then forwardToLine line ((outWrite CRLF t)\<lparr>remoteLine := remoteLine t + 1\<rparr>)
      else t)"
  by auto
termination
  by (relation "measure (\<lambda>(line, t). nat (line - remoteLine t))") (auto simp: outWrite_def)

declare forwardToLine.simps [simp del]

definition moveTerminalToLine :: "int \<Rightarrow> TerminalState \<Rightarrow> TerminalState" where
  "moveTerminalToLine line t0 =
     (if line = remoteLine t0 then t0
      else
        let t = hideTerminalCursor t0;
            t1 = (if line < remoteLine t then
                    (if plainMode t then (outWrite CRLF t)\<lparr>remoteLine := line\<rparr>
                     else (outWrite (CR @ CSI @ formatInt (remoteLine t - line) @ ''A'') t)
                            \<lparr>remoteLine := line\<rparr>)
                  else if line > remoteLine t then forwardToLine line t
                  else t)
        in t1\<lparr>lineDataValid := True, lineData := [], remoteColumn := 0\<rparr>)"

definition showTerminalCursor :: "int \<Rightarrow> int \<Rightarrow> TerminalState \<Rightarrow> TerminalState" where
  "showTerminalCursor column line t0 =
     (let t = moveTerminalToLine line t0
      in if \<not> plainMode t then
           let t1 = (if remoteColumn t \<noteq> column then
                       (outWrite (CSI @ formatInt (column + 1) @ ''G'') t)
                         \<lparr>lineDataValid := (column = 0), lineData := [], remoteColumn := column\<rparr>
                     else t)
           in if cursorHidden t1 then (outWrite (CSI @ ''?25h'') t1)\<lparr>cursorHidden := False\<rparr> else t1
         else t)"

definition enableMouseMode :: "bool \<Rightarrow> TerminalState \<Rightarrow> TerminalState" where
  "enableMouseMode enabled t =
     (if mouseModeEnabled t = enabled \<or> plainMode t then t
      else
        let t1 = t\<lparr>mouseModeEnabled := enabled\<rparr>
        in if enabled then
             outWrite (CSI @ ''?1005l'' @ CSI @ ''?1000h'' @ CSI @ ''?1002h'' @ CSI @ ''?1003h'' @
               CSI @ ''?1015h'' @ CSI @ ''?1006h'') t1
           else
             outWrite (CSI @ ''?1006l'' @ CSI @ ''?1015l'' @ CSI @ ''?1003l'' @ CSI @ ''?1002l'' @
               CSI @ ''?1000l'') t1)"

section \<open>Sending a line\<close>

text \<open>The local variables of \<open>sendLine\<close> that its loop changes, and \<open>m_remoteColor\<close>.\<close>

record SendState =
  termLine :: string
  trimmedLineLength :: nat
  trimmedCellCount :: int
  alreadyErasedLine :: bool
  sentColor :: int

definition setColorStep :: "bool \<Rightarrow> CHAR_INFO \<Rightarrow> int \<Rightarrow> SendState \<Rightarrow> SendState" where
  "setColorStep withColor cell i s =
     (if withColor then
        let color = Attributes cell AND COLOR_ATTRIBUTE_MASK
        in if uint color \<noteq> sentColor s then
             let out = outputSetColor (termLine s) color
             in s\<lparr>termLine := out, trimmedLineLength := length out, sentColor := uint color,
                  trimmedCellCount := i\<rparr>
           else s
      else s)"

definition encodeCell :: "u32 \<Rightarrow> string" where
  "encodeCell ch = (let enc = encodeUtf8 ch in if enc = [] then ''?'' else map char_of_byte enc)"

definition cellStep :: "bool \<Rightarrow> int \<Rightarrow> int \<Rightarrow> int \<Rightarrow> u32 \<Rightarrow> SendState \<Rightarrow> SendState" where
  "cellStep plain width i cellCount ch s =
     (if ch = 0x20 then s\<lparr>termLine := termLine s @ '' ''\<rparr>
      else
        let s1 = (if i + cellCount = width
                  then s\<lparr>termLine := (if \<not> plain then termLine s @ CSI @ ''0K'' else termLine s),
                         alreadyErasedLine := True\<rparr>
                  else s);
            out = termLine s1 @ encodeCell (fixSpecialCharacters ch)
        in s1\<lparr>termLine := out, trimmedLineLength := length out, trimmedCellCount := i + cellCount\<rparr>)"

lemma scan_bounds:
  "scanUnicodeScalarValue data width = Some (n, ch) \<Longrightarrow> 1 \<le> n \<and> n \<le> width"
  by (auto simp: scanUnicodeScalarValue_def Let_def isFullWidthCharacter_def ASSERT_bind_Some
      split: if_splits)

declare Option.bind_cong [fundef_cong]

function sendLoop :: "bool \<Rightarrow> bool \<Rightarrow> CHAR_INFO list \<Rightarrow> int \<Rightarrow> int \<Rightarrow> SendState \<Rightarrow> SendState option" where
  "sendLoop plain withColor data width i s =
     (if i < width then do {
        let s1 = setColorStep withColor (data ! nat i) i s;
        (cellCount, ch) \<leftarrow> scanUnicodeScalarValue (drop (nat i) data) (width - i);
        sendLoop plain withColor data width (i + cellCount) (cellStep plain width i cellCount ch s1)
      }
      else Some s)"
  by pat_completeness auto
termination
  by (relation "measure (\<lambda>(plain, withColor, data, width, i, s). nat (width - i))")
    (auto dest: scan_bounds)

declare sendLoop.simps [simp del]

definition checkReuse :: "CHAR_INFO list \<Rightarrow> int \<Rightarrow> TerminalState \<Rightarrow> TerminalState option" where
  "checkReuse data width t =
     (if lineDataValid t then do {
        ASSERT (int (length (lineData t)) = remoteColumn t);
        Some (if remoteColumn t > 0 then
                let okWidth = (if plainMode t then width \<ge> int (length (lineData t))
                               else width > int (length (lineData t)))
                in if \<not> okWidth \<or> lineData t \<noteq> take (length (lineData t)) data
                   then t\<lparr>lineDataValid := False\<rparr> else t
              else t)
      }
      else Some t)"

definition restartLine :: "TerminalState \<Rightarrow> TerminalState" where
  "restartLine t =
     (if \<not> lineDataValid t then
        let t1 = hideTerminalCursor t;
            t2 = (if plainMode t1 then outWrite CRLF t1 else outWrite CR t1)
        in t2\<lparr>lineDataValid := True, lineData := [], remoteColumn := 0\<rparr>
      else t)"

definition outputLine :: "int \<Rightarrow> SendState \<Rightarrow> TerminalState \<Rightarrow> TerminalState" where
  "outputLine cursorColumn s t3 =
     (let t4 = (if cursorColumn \<noteq> - 1 \<and> trimmedCellCount s > cursorColumn
                then hideTerminalCursor t3 else t3);
          t5 = outWrite (take (trimmedLineLength s) (termLine s)) t4
      in if \<not> alreadyErasedLine s \<and> \<not> plainMode t5 then outWrite (CSI @ ''0K'') t5 else t5)"

definition sendLine :: "int \<Rightarrow> CHAR_INFO list \<Rightarrow> int \<Rightarrow> int \<Rightarrow> TerminalState \<Rightarrow> TerminalState option" where
  "sendLine line data width cursorColumn t0 = do {
     ASSERT (width \<ge> 1);
     t1 \<leftarrow> checkReuse data width (moveTerminalToLine line t0);
     let t2 = restartLine t1;
     start \<leftarrow> checkedNarrow int_range (int (length (lineData t2)));
     s \<leftarrow> sendLoop (plainMode t2) (outputColor t2) data width start
           \<lparr>termLine = [], trimmedLineLength = 0, trimmedCellCount = start,
            alreadyErasedLine = False, sentColor = remoteColor t2\<rparr>;
     let t6 = outputLine cursorColumn s (t2\<lparr>remoteColor := sentColor s\<rparr>);
     ASSERT (trimmedCellCount s \<le> width);
     Some (t6\<lparr>lineData := lineData t6 @
                take (nat (trimmedCellCount s) - length (lineData t6)) (drop (length (lineData t6)) data),
              remoteColumn := trimmedCellCount s\<rparr>)
   }"

section \<open>The remembered line\<close>

text \<open>What \<open>sendLine\<close> asserts: a valid remembered line ends where the cursor of the terminal is.\<close>

definition termInv :: "TerminalState \<Rightarrow> bool" where
  "termInv t \<longleftrightarrow> (lineDataValid t \<longrightarrow> int (length (lineData t)) = remoteColumn t)"

definition spacesFrom :: "CHAR_INFO list \<Rightarrow> int \<Rightarrow> int \<Rightarrow> bool" where
  "spacesFrom data a b \<longleftrightarrow> (\<forall>j. a \<le> int j \<and> int j < b \<longrightarrow> cellChar (data ! j) = 0x20)"

lemma termInv_simps [simp]:
  "termInv (newTerminal plain color)"
  "termInv (resetTerminal f n t)"
  "termInv (outWrite x t) \<longleftrightarrow> termInv t"
  "termInv (hideTerminalCursor t) \<longleftrightarrow> termInv t"
  "termInv (enableMouseMode b t) \<longleftrightarrow> termInv t"
  "termInv (restartLine t) \<longleftrightarrow> termInv t \<or> \<not> lineDataValid t"
  by (simp_all add: termInv_def newTerminal_def resetTerminal_def outWrite_def hideTerminalCursor_def
      enableMouseMode_def restartLine_def Let_def)

text \<open>Fields that an operation leaves alone.\<close>

lemma outWrite_simps [simp]:
  "sent (outWrite x t) = sent t @ x" "remoteLine (outWrite x t) = remoteLine t"
  "remoteColumn (outWrite x t) = remoteColumn t" "lineDataValid (outWrite x t) = lineDataValid t"
  "lineData (outWrite x t) = lineData t" "cursorHidden (outWrite x t) = cursorHidden t"
  "remoteColor (outWrite x t) = remoteColor t" "plainMode (outWrite x t) = plainMode t"
  "outputColor (outWrite x t) = outputColor t" "mouseModeEnabled (outWrite x t) = mouseModeEnabled t"
  by (simp_all add: outWrite_def)

lemma hide_simps [simp]:
  "remoteLine (hideTerminalCursor t) = remoteLine t"
  "remoteColumn (hideTerminalCursor t) = remoteColumn t"
  "lineDataValid (hideTerminalCursor t) = lineDataValid t"
  "lineData (hideTerminalCursor t) = lineData t"
  "remoteColor (hideTerminalCursor t) = remoteColor t"
  "plainMode (hideTerminalCursor t) = plainMode t"
  "outputColor (hideTerminalCursor t) = outputColor t"
  "mouseModeEnabled (hideTerminalCursor t) = mouseModeEnabled t"
  by (simp_all add: hideTerminalCursor_def)

lemma forwardToLine_eq:
  "remoteLine t \<le> line \<Longrightarrow>
   forwardToLine line t =
     t\<lparr>sent := sent t @ concat (replicate (nat (line - remoteLine t)) CRLF), remoteLine := line\<rparr>"
proof (induction line t rule: forwardToLine.induct)
  case (1 line t)
  show ?case
  proof (cases "line > remoteLine t")
    case True
    then have "nat (line - remoteLine t) = Suc (nat (line - (remoteLine t + 1)))" by linarith
    then show ?thesis using 1 True by (subst forwardToLine.simps) (simp add: outWrite_def)
  next
    case False
    then show ?thesis using 1(2) by (subst forwardToLine.simps) simp
  qed
qed

lemma move_simps [simp]:
  "remoteLine (moveTerminalToLine line t) = line"
  "plainMode (moveTerminalToLine line t) = plainMode t"
  "outputColor (moveTerminalToLine line t) = outputColor t"
  "remoteColor (moveTerminalToLine line t) = remoteColor t"
  "mouseModeEnabled (moveTerminalToLine line t) = mouseModeEnabled t"
  by (simp_all add: moveTerminalToLine_def Let_def forwardToLine_eq)

lemma termInv_move [simp]: "termInv t \<Longrightarrow> termInv (moveTerminalToLine line t)"
  by (simp add: moveTerminalToLine_def Let_def termInv_def)

lemma termInv_show: "termInv t \<Longrightarrow> termInv (showTerminalCursor column line t)"
  by (frule termInv_move [of t line])
    (simp add: showTerminalCursor_def Let_def termInv_def)

lemma restart_simps [simp]:
  "remoteLine (restartLine t) = remoteLine t" "plainMode (restartLine t) = plainMode t"
  "outputColor (restartLine t) = outputColor t" "remoteColor (restartLine t) = remoteColor t"
  "lineDataValid (restartLine t)" "mouseModeEnabled (restartLine t) = mouseModeEnabled t"
  by (simp_all add: restartLine_def Let_def)

lemma outputLine_simps [simp]:
  "remoteLine (outputLine c s t) = remoteLine t" "remoteColumn (outputLine c s t) = remoteColumn t"
  "lineDataValid (outputLine c s t) = lineDataValid t" "lineData (outputLine c s t) = lineData t"
  "remoteColor (outputLine c s t) = remoteColor t" "plainMode (outputLine c s t) = plainMode t"
  "outputColor (outputLine c s t) = outputColor t"
  "mouseModeEnabled (outputLine c s t) = mouseModeEnabled t"
  by (simp_all add: outputLine_def Let_def)

section \<open>The loop of sendLine\<close>

lemma high_bits_range:
  fixes c :: u16
  assumes "c AND 0xFC00 = v" and "unat v div 1024 = k"
  shows "1024 * k \<le> unat c \<and> unat c < 1024 * k + 1024"
proof -
  have "drop_bit 10 c = drop_bit 10 (c AND 0xFC00)"
  proof (rule bit_word_eqI)
    fix n assume "n < LENGTH(16)"
    then have "n \<le> 15" by simp
    then show "bit (drop_bit 10 c) n = bit (drop_bit 10 (c AND 0xFC00)) n"
    proof (cases "n \<le> 5")
      case True
      then have "n = 5 \<or> n = 4 \<or> n = 3 \<or> n = 2 \<or> n = 1 \<or> n = 0" by linarith
      then show ?thesis by (elim disjE) (simp_all add: bit_simps)
    next
      case False
      then have "\<not> bit c (10 + n)" using bit_imp_le_length [of c "10 + n"] by auto
      then show ?thesis by (simp add: bit_simps)
    qed
  qed
  then have "unat (drop_bit 10 c) = unat (drop_bit 10 v)"
    unfolding assms(1) by (rule arg_cong)
  then have "unat c div 2 ^ 10 = unat v div 2 ^ 10"
    by (simp only: unat_drop_bit_eq) (simp add: drop_bit_eq_div)
  then have "unat c div 1024 = unat v div 1024"
    by simp
  then show ?thesis using assms(2) by linarith
qed

lemma decodeSurrogatePair_range:
  assumes "c1 AND 0xFC00 = 0xD800" and "c2 AND 0xFC00 = 0xDC00"
  shows "0x10000 \<le> decodeSurrogatePair c1 c2 \<and> decodeSurrogatePair c1 c2 < 0x110000"
proof -
  have r: "1024 * 54 \<le> unat c1 \<and> unat c1 < 1024 * 54 + 1024"
    "1024 * 55 \<le> unat c2 \<and> unat c2 < 1024 * 55 + 1024"
    by (rule high_bits_range [OF assms(1)], simp) (rule high_bits_range [OF assms(2)], simp)
  obtain a b where ab: "unat c1 = 0xD800 + a" "unat c2 = 0xDC00 + b" "a < 1024" "b < 1024"
    using r le_Suc_ex [of "1024 * 54" "unat c1"] le_Suc_ex [of "1024 * 55" "unat c2"] by auto
  have "(ucast c1 :: u32) = of_nat (unat c1)" "(ucast c2 :: u32) = of_nat (unat c2)"
    by simp_all
  then have "(ucast c1 :: u32) = of_nat (0xD800 + a)" "(ucast c2 :: u32) = of_nat (0xDC00 + b)"
    unfolding ab(1, 2) .
  then have "decodeSurrogatePair c1 c2 = of_nat (1024 * a + b + 0x10000)"
    by (simp add: decodeSurrogatePair_def push_bit_eq_mult)
  moreover have "unat (of_nat (1024 * a + b + 0x10000) :: u32) = 1024 * a + b + 0x10000"
    using ab(3, 4) by (simp only: unat_of_nat) simp
  ultimately have "unat (decodeSurrogatePair c1 c2) = 1024 * a + b + 0x10000" by simp
  then show ?thesis using ab(3, 4) by (simp add: word_nat_alt)
qed

lemma ucast_u16_eq_iff: "(ucast (c :: u16) :: u32) = ucast d \<longleftrightarrow> c = (d :: u16)"
proof
  assume "(ucast c :: u32) = ucast d"
  then have "(ucast (ucast c :: u32) :: u16) = ucast (ucast d :: u32)" by (rule arg_cong)
  moreover have "(ucast (ucast b :: u32) :: u16) = b" for b :: u16
    by (rule bit_word_eqI) (simp add: bit_simps)
  ultimately show "c = d" by simp
qed simp

lemma scan_space:
  assumes "scanUnicodeScalarValue data width = Some (n, 0x20)"
  shows "cellChar (data ! 0) = 0x20 \<and> (n = 1 \<or>
    n = 2 \<and> cellChar (data ! 1) = 0x20 \<and> Attributes (data ! 0) AND COMMON_LVB_LEADING_BYTE \<noteq> 0)"
proof -
  have "ucast (cellChar (data ! 0)) = (0x20 :: u32) \<Longrightarrow> cellChar (data ! 0) = 0x20"
    using ucast_u16_eq_iff [of "cellChar (data ! 0)" "0x20"] by simp
  moreover have "\<not> 0x10000 \<le> (0x20 :: u32)" by simp
  ultimately show ?thesis
    using assms decodeSurrogatePair_range [of "cellChar (data ! 0)" "cellChar (data ! 1)"]
      decodeSurrogatePair_range [of "cellChar (data ! 0)" "cellChar (data ! 2)"]
    by (auto simp: scanUnicodeScalarValue_def Let_def isFullWidthCharacter_def ASSERT_bind_Some
        split: if_splits)
qed

text \<open>
  \<open>restBlank withColor data a b col\<close>: the cells from \<open>a\<close> to \<open>b\<close> are spaces and, unless a
  full-width cell is among them, all have the colour \<open>col\<close> when colours are sent.
\<close>

definition restBlank :: "bool \<Rightarrow> CHAR_INFO list \<Rightarrow> int \<Rightarrow> int \<Rightarrow> int \<Rightarrow> bool" where
  "restBlank withColor data a b col \<longleftrightarrow> spacesFrom data a b \<and>
     (withColor \<and>
      (\<forall>j. a \<le> int j \<and> int j < b \<longrightarrow> Attributes (data ! j) AND COMMON_LVB_LEADING_BYTE = 0) \<longrightarrow>
      (\<forall>j. a \<le> int j \<and> int j < b \<longrightarrow> uint (Attributes (data ! j) AND COLOR_ATTRIBUTE_MASK) = col))"

lemma restBlank_empty [simp]: "b \<le> a \<Longrightarrow> restBlank wc data a b col"
  by (auto simp: restBlank_def spacesFrom_def)

lemma restBlank_extend:
  assumes "restBlank wc data a i col" and "0 \<le> i" and "n = 1 \<or> n = 2"
    and "cellChar (data ! nat i) = 0x20" and "n = 2 \<longrightarrow> cellChar (data ! (nat i + 1)) = 0x20"
    and "n = 1 \<or> Attributes (data ! nat i) AND COMMON_LVB_LEADING_BYTE \<noteq> 0"
    and "wc \<longrightarrow> uint (Attributes (data ! nat i) AND COLOR_ATTRIBUTE_MASK) = col" and "a \<le> i"
  shows "restBlank wc data a (i + n) col"
proof -
  have idx: "j = nat i \<or> j = nat i + 1 \<and> n = 2" if "\<not> int j < i" "int j < i + n" for j
    using assms(2, 3) that by linarith
  have "spacesFrom data a (i + n)"
    using assms(1, 4, 5) idx unfolding restBlank_def spacesFrom_def by metis
  moreover have "uint (Attributes (data ! j) AND COLOR_ATTRIBUTE_MASK) = col"
    if "wc" and lead: "\<forall>j. a \<le> int j \<and> int j < i + n \<longrightarrow>
          Attributes (data ! j) AND COMMON_LVB_LEADING_BYTE = 0"
      and j: "a \<le> int j" "int j < i + n" for j
  proof -
    have n: "n = 1" using lead [rule_format, of "nat i"] assms(2, 3, 6, 8) by auto
    have "\<forall>j. a \<le> int j \<and> int j < i \<longrightarrow> Attributes (data ! j) AND COMMON_LVB_LEADING_BYTE = 0"
      using lead n by simp
    then have "int j < i \<Longrightarrow> ?thesis" using assms(1) \<open>wc\<close> j(1) unfolding restBlank_def by blast
    moreover have "\<not> int j < i \<Longrightarrow> j = nat i" using j(2) n by linarith
    ultimately show ?thesis using assms(7) \<open>wc\<close> by blast
  qed
  ultimately show ?thesis unfolding restBlank_def by blast
qed

lemma setColorStep_facts:
  assumes "trimmedCellCount s \<le> i" and "restBlank wc data (trimmedCellCount s) i (sentColor s)"
  shows "trimmedCellCount s \<le> trimmedCellCount (setColorStep wc c i s)"
    and "trimmedCellCount (setColorStep wc c i s) \<le> i"
    and "restBlank wc data (trimmedCellCount (setColorStep wc c i s)) i (sentColor (setColorStep wc c i s))"
    and "wc \<longrightarrow> uint (Attributes c AND COLOR_ATTRIBUTE_MASK) = sentColor (setColorStep wc c i s)"
  using assms by (auto simp: setColorStep_def Let_def)

lemma scan_defined: "1 \<le> width \<Longrightarrow> \<exists>n ch. scanUnicodeScalarValue data width = Some (n, ch)"
  by (auto simp: scanUnicodeScalarValue_def Let_def)

lemma sendLoop_result:
  assumes "0 \<le> i" and "i \<le> width" and "nat width \<le> length data" and "trimmedCellCount s \<le> i"
    and "restBlank wc data (trimmedCellCount s) i (sentColor s)"
  shows "\<exists>s'. sendLoop plain wc data width i s = Some s' \<and>
    trimmedCellCount s \<le> trimmedCellCount s' \<and> trimmedCellCount s' \<le> width \<and>
    restBlank wc data (trimmedCellCount s') width (sentColor s')"
  using assms
proof (induction plain wc data width i s rule: sendLoop.induct)
  case (1 plain wc data width i s)
  show ?case
  proof (cases "i < width")
    case False
    then show ?thesis using 1(2-) by (subst sendLoop.simps) auto
  next
    case True
    let ?s1 = "setColorStep wc (data ! nat i) i s"
    obtain n ch where sc: "scanUnicodeScalarValue (drop (nat i) data) (width - i) = Some (n, ch)"
      using scan_defined [of "width - i" "drop (nat i) data"] True by auto
    let ?s2 = "cellStep plain width i n ch ?s1"
    note col = setColorStep_facts [OF 1(5, 6), of "data ! nat i"]
    have n: "1 \<le> n" "n \<le> width - i" using scan_bounds [OF sc] by auto
    have inb: "nat i < length data" using True 1(2, 4) by linarith
    have "trimmedCellCount ?s1 \<le> trimmedCellCount ?s2 \<and> trimmedCellCount ?s2 \<le> i + n \<and>
        restBlank wc data (trimmedCellCount ?s2) (i + n) (sentColor ?s2)"
    proof (cases "ch = 0x20")
      case True
      then have sp: "cellChar (data ! nat i) = 0x20 \<and> (n = 1 \<or> n = 2 \<and>
          cellChar (data ! (nat i + 1)) = 0x20 \<and> Attributes (data ! nat i) AND COMMON_LVB_LEADING_BYTE \<noteq> 0)"
        using scan_space [of "drop (nat i) data" "width - i" n] sc inb n 1(2, 4)
        by (auto simp: nth_drop)
      have "restBlank wc data (trimmedCellCount ?s1) (i + n) (sentColor ?s1)"
        by (rule restBlank_extend [OF col(3) 1(2)]) (use sp col in auto)
      then show ?thesis using True col(2) n by (simp add: cellStep_def)
    next
      case False
      then show ?thesis using col(2) n by (auto simp: cellStep_def Let_def)
    qed
    then have "\<exists>s'. sendLoop plain wc data width (i + n) ?s2 = Some s' \<and>
        trimmedCellCount ?s2 \<le> trimmedCellCount s' \<and> trimmedCellCount s' \<le> width \<and>
        restBlank wc data (trimmedCellCount s') width (sentColor s')"
      using True 1(2, 4) n by (intro 1(1) [OF True refl sc refl]) auto
    then show ?thesis
      using True sc col(1) \<open>trimmedCellCount ?s1 \<le> trimmedCellCount ?s2 \<and> _\<close>
      by (subst sendLoop.simps) (auto simp: Let_def)
  qed
qed

section \<open>What sendLine leaves behind\<close>

lemma checkReuse_facts:
  assumes "termInv t" and "1 \<le> width"
  shows "\<exists>b. checkReuse data width t = Some (t\<lparr>lineDataValid := b\<rparr>) \<and>
     (b \<longrightarrow> lineDataValid t \<and> lineData t = take (length (lineData t)) data \<and>
        int (length (lineData t)) \<le> width)"
proof (cases "lineDataValid t")
  case False
  then have "checkReuse data width t = Some (t\<lparr>lineDataValid := False\<rparr>)"
    by (simp add: checkReuse_def)
  then show ?thesis by blast
next
  case True
  then have len: "int (length (lineData t)) = remoteColumn t" using assms(1) by (simp add: termInv_def)
  show ?thesis
  proof (cases "remoteColumn t > 0 \<and> (\<not> (if plainMode t then width \<ge> int (length (lineData t))
      else width > int (length (lineData t))) \<or> lineData t \<noteq> take (length (lineData t)) data)")
    case bad: True
    then have "checkReuse data width t = Some (t\<lparr>lineDataValid := False\<rparr>)"
      using True len by (simp add: checkReuse_def Let_def)
    then show ?thesis by blast
  next
    case ok: False
    then have "checkReuse data width t = Some t"
      using True len by (auto simp: checkReuse_def Let_def)
    then have "checkReuse data width t = Some (t\<lparr>lineDataValid := True\<rparr>)" using True by simp
    moreover have "lineData t = take (length (lineData t)) data \<and> int (length (lineData t)) \<le> width"
    proof (cases "remoteColumn t > 0")
      case False
      then have "length (lineData t) = 0" using len by linarith
      then have "lineData t = []" by simp
      then show ?thesis using assms(2) by simp
    qed (use ok in \<open>auto split: if_splits\<close>)
    ultimately show ?thesis using True by blast
  qed
qed

lemma restart_facts:
  assumes "termInv t"
    and "b \<longrightarrow> lineDataValid t \<and> lineData t = take (length (lineData t)) data \<and>
        int (length (lineData t)) \<le> width" and "0 \<le> width"
  shows "lineData (restartLine (t\<lparr>lineDataValid := b\<rparr>)) =
      take (length (lineData (restartLine (t\<lparr>lineDataValid := b\<rparr>)))) data \<and>
     int (length (lineData (restartLine (t\<lparr>lineDataValid := b\<rparr>)))) \<le> width"
  using assms by (cases b) (auto simp: restartLine_def Let_def)

lemma sendLine_result:
  assumes "termInv t" and "1 \<le> width" and "width \<le> 2147483647" and "nat width \<le> length data"
  shows "\<exists>t'. sendLine line data width cursorColumn t = Some t' \<and> termInv t' \<and>
     remoteLine t' = line \<and> 0 \<le> remoteColumn t' \<and> remoteColumn t' \<le> width \<and> lineDataValid t' \<and>
     lineData t' = take (nat (remoteColumn t')) data \<and>
     restBlank (outputColor t) data (remoteColumn t') width (remoteColor t') \<and>
     plainMode t' = plainMode t \<and> outputColor t' = outputColor t"
proof -
  obtain b where cr: "checkReuse data width (moveTerminalToLine line t) =
        Some ((moveTerminalToLine line t)\<lparr>lineDataValid := b\<rparr>)"
      "b \<longrightarrow> lineDataValid (moveTerminalToLine line t) \<and>
        lineData (moveTerminalToLine line t) = take (length (lineData (moveTerminalToLine line t))) data \<and>
        int (length (lineData (moveTerminalToLine line t))) \<le> width"
    using checkReuse_facts [OF termInv_move [OF assms(1)] assms(2)] by blast
  define t2 where "t2 = restartLine ((moveTerminalToLine line t)\<lparr>lineDataValid := b\<rparr>)"
  have ld: "lineData t2 = take (length (lineData t2)) data" "int (length (lineData t2)) \<le> width"
    using restart_facts [OF termInv_move [OF assms(1)] cr(2)] assms(2) by (simp_all add: t2_def)
  have fields: "remoteLine t2 = line" "lineDataValid t2" "plainMode t2 = plainMode t"
      "outputColor t2 = outputColor t" "remoteColor t2 = remoteColor t"
    by (simp_all add: t2_def)
  let ?k = "int (length (lineData t2))"
  let ?s = "\<lparr>termLine = [], trimmedLineLength = 0, trimmedCellCount = ?k,
      alreadyErasedLine = False, sentColor = remoteColor t2\<rparr>"
  have "\<exists>s'. sendLoop (plainMode t2) (outputColor t2) data width ?k ?s = Some s' \<and>
      trimmedCellCount ?s \<le> trimmedCellCount s' \<and> trimmedCellCount s' \<le> width \<and>
      restBlank (outputColor t2) data (trimmedCellCount s') width (sentColor s')"
    using ld(2) assms(4) by (intro sendLoop_result) simp_all
  then obtain s' where s': "sendLoop (plainMode t2) (outputColor t2) data width ?k ?s = Some s'"
      "?k \<le> trimmedCellCount s'" "trimmedCellCount s' \<le> width"
      "restBlank (outputColor t2) data (trimmedCellCount s') width (sentColor s')"
    by auto
  have join: "lineData t2 @ take (nat (trimmedCellCount s') - length (lineData t2))
      (drop (length (lineData t2)) data) = take (nat (trimmedCellCount s')) data"
    using ld(1) s'(2) by (metis le_add_diff_inverse nat_int nat_mono take_add)
  have "length (take (nat (trimmedCellCount s')) data) = nat (trimmedCellCount s')"
    using s'(3) assms(4) by simp
  moreover have "sendLine line data width cursorColumn t =
      Some ((outputLine cursorColumn s' (t2\<lparr>remoteColor := sentColor s'\<rparr>))
        \<lparr>lineData := take (nat (trimmedCellCount s')) data, remoteColumn := trimmedCellCount s'\<rparr>)"
    using s'(1, 3) ld(2) assms(2, 3) cr(1) fields join
    by (simp add: sendLine_def checkedNarrow_eq flip: t2_def)
  ultimately show ?thesis
    using s'(2-4) fields by (simp add: termInv_def)
qed

section \<open>Tokens\<close>

text \<open>
  Everything that is sent is a sequence of tokens: encoded characters, line ends and control
  sequences. Plain mode cannot move the cursor back or erase, so the only control sequence it
  may use is a colour.
\<close>

datatype TermToken = Text u32 | CarriageReturn | NewLine | Control string char

fun tokenBytes :: "TermToken \<Rightarrow> string" where
  "tokenBytes (Text ch) = map char_of_byte (encodeUtf8 ch)"
| "tokenBytes CarriageReturn = CR"
| "tokenBytes NewLine = CRLF"
| "tokenBytes (Control ps f) = CSI @ ps @ [f]"

fun tokenOk :: "bool \<Rightarrow> bool \<Rightarrow> TermToken \<Rightarrow> bool" where
  "tokenOk plain withColor (Text ch) \<longleftrightarrow> scalar_value ch \<and> ch \<noteq> 0x1b"
| "tokenOk plain withColor CarriageReturn \<longleftrightarrow> \<not> plain"
| "tokenOk plain withColor NewLine \<longleftrightarrow> True"
| "tokenOk plain withColor (Control ps f) \<longleftrightarrow>
     (\<forall>c \<in> set ps. is_digit c \<or> c = CHR '';'' \<or> c = CHR ''?'') \<and>
     (if plain then f = CHR ''m'' \<and> withColor else f \<in> set ''mGAJKHhl'')"

definition tokensBytes :: "TermToken list \<Rightarrow> string" where
  "tokensBytes toks = concat (map tokenBytes toks)"

text \<open>The bytes that lead from one state to another are tokens.\<close>

definition sendsTokens :: "TerminalState \<Rightarrow> TerminalState \<Rightarrow> bool" where
  "sendsTokens t t' \<longleftrightarrow> plainMode t' = plainMode t \<and> outputColor t' = outputColor t \<and>
     (\<exists>toks. sent t' = sent t @ tokensBytes toks \<and>
        (\<forall>tok \<in> set toks. tokenOk (plainMode t) (outputColor t) tok))"

lemma tokensBytes_simps [simp]:
  "tokensBytes [] = []"
  "tokensBytes (tok # toks) = tokenBytes tok @ tokensBytes toks"
  "tokensBytes (toks @ toks') = tokensBytes toks @ tokensBytes toks'"
  by (simp_all add: tokensBytes_def)

lemma sendsTokens_refl [simp, intro]: "sendsTokens t t"
  by (auto simp: sendsTokens_def intro: exI [of _ "[]"])

lemma sendsTokens_trans [trans]:
  assumes "sendsTokens t t'" and "sendsTokens t' t''" shows "sendsTokens t t''"
proof -
  obtain a where a: "sent t' = sent t @ tokensBytes a"
      "\<forall>tok \<in> set a. tokenOk (plainMode t) (outputColor t) tok"
      "plainMode t' = plainMode t" "outputColor t' = outputColor t"
    using assms(1) unfolding sendsTokens_def by blast
  obtain b where b: "sent t'' = sent t' @ tokensBytes b"
      "\<forall>tok \<in> set b. tokenOk (plainMode t') (outputColor t') tok"
      "plainMode t'' = plainMode t'" "outputColor t'' = outputColor t'"
    using assms(2) unfolding sendsTokens_def by blast
  have "sent t'' = sent t @ tokensBytes (a @ b)" "\<forall>tok \<in> set (a @ b). tokenOk (plainMode t) (outputColor t) tok"
    using a b by auto
  then show ?thesis using a b unfolding sendsTokens_def by metis
qed

lemma sendsTokensI:
  assumes "sent t' = sent t @ tokensBytes toks" and "plainMode t' = plainMode t"
    and "outputColor t' = outputColor t" and "\<forall>tok \<in> set toks. tokenOk (plainMode t) (outputColor t) tok"
  shows "sendsTokens t t'"
  using assms by (auto simp: sendsTokens_def)

lemma encodeCell_token:
  "ch \<noteq> 0x1b \<Longrightarrow> \<exists>tok. encodeCell ch = tokenBytes tok \<and> tokenOk plain wc tok"
proof (cases "scalar_value ch")
  case True
  moreover assume "ch \<noteq> 0x1b"
  ultimately have "encodeCell ch = tokenBytes (Text ch)" "tokenOk plain wc (Text ch)"
    by (simp_all add: encodeCell_def encodeUtf8_Nil_iff)
  then show ?thesis by blast
next
  case False
  then have "encodeUtf8 ch = []" by (simp add: encodeUtf8_Nil_iff)
  then have "encodeCell ch = ''?''" by (simp add: encodeCell_def)
  moreover have "tokenBytes (Text 0x3F) = ''?''" "tokenOk plain wc (Text 0x3F)"
    by (simp_all add: encodeUtf8_def scalar_value_def char_of_byte_def char_of_def bit_0)
  ultimately have "encodeCell ch = tokenBytes (Text 0x3F)" "tokenOk plain wc (Text 0x3F)"
    by simp_all
  then show ?thesis by blast
qed

lemma fixSpecialCharacters_not_escape: "fixSpecialCharacters ch \<noteq> 0x1b"
  by (simp add: fixSpecialCharacters_def)

abbreviation sgrChars :: "string \<Rightarrow> bool" where
  "sgrChars ps \<equiv> \<forall>c \<in> set ps. is_digit c \<or> c = CHR '';''"

lemma outputSetColorSgrParams_chars:
  "\<exists>ps. outputSetColorSgrParams out isFore color = out @ ps \<and> sgrChars ps"
  unfolding outputSetColorSgrParams_def Let_def outUInt_def
  by (auto dest: decimal_digits)

lemma outputSetColor_token:
  "\<exists>ps. outputSetColor out color = out @ tokenBytes (Control ps CHR ''m'') \<and> sgrChars ps"
proof -
  obtain fg bg where fb: "foreBack color = (fg, bg)" by fastforce
  define pre where "pre = out @ CSI @ ''0''"
  have A: "\<exists>ps. pre @ x = out @ CSI @ ps \<and> sgrChars ps" if "sgrChars x" for x
    using that by (intro exI [of _ "''0'' @ x"]) (auto simp: pre_def is_digit_def)
  have P: "\<exists>x. (if bg = BLACK then
              (if fg = LTGRAY then pre
               else if fg = WHITE then pre @ '';1''
               else if fg = DKGRAY then pre @ '';37;90''
               else outputSetColorSgrParams pre True fg)
            else if bg = WHITE then
              (if fg = LTGRAY \<or> fg = BLACK then pre @ '';7''
                  else outputSetColorSgrParams (pre @ '';7'') False fg)
            else outputSetColorSgrParams (outputSetColorSgrParams pre True fg) False bg) = pre @ x \<and>
      sgrChars x" (is "\<exists>x. ?body = pre @ x \<and> _")
  proof -
    obtain a where a: "outputSetColorSgrParams pre True fg = pre @ a" "sgrChars a"
      using outputSetColorSgrParams_chars by blast
    obtain b where b: "outputSetColorSgrParams (pre @ a) False bg = (pre @ a) @ b" "sgrChars b"
      using outputSetColorSgrParams_chars by blast
    obtain c where c: "outputSetColorSgrParams (pre @ '';7'') False fg = (pre @ '';7'') @ c" "sgrChars c"
      using outputSetColorSgrParams_chars by blast
    have "?body = pre @ (if bg = BLACK then
              (if fg = LTGRAY then [] else if fg = WHITE then '';1''
               else if fg = DKGRAY then '';37;90'' else a)
            else if bg = WHITE then (if fg = LTGRAY \<or> fg = BLACK then '';7'' else '';7'' @ c)
            else a @ b)"
      unfolding a(1) b(1) c(1) by simp
    then show ?thesis using a(2) b(2) c(2) by (auto simp: is_digit_def)
  qed
  then obtain x where x: "?body = pre @ x" "sgrChars x" by blast
  have "outputSetColor out color =
      (if color AND COMMON_LVB_UNDERSCORE \<noteq> 0
       then (if fg = bg then ?body @ '';8'' else ?body) @ '';4''
       else (if fg = bg then ?body @ '';8'' else ?body)) @ ''m''"
    by (simp only: outputSetColor_def fb prod.case Let_def pre_def)
  then have "outputSetColor out color = pre @ (x @ (if fg = bg then '';8'' else []) @
      (if color AND COMMON_LVB_UNDERSCORE \<noteq> 0 then '';4'' else [])) @ ''m''"
    unfolding x(1) by simp
  moreover have "sgrChars (x @ (if fg = bg then '';8'' else []) @
      (if color AND COMMON_LVB_UNDERSCORE \<noteq> 0 then '';4'' else []))"
    using x(2) by (auto simp: is_digit_def)
  ultimately show ?thesis using A by fastforce
qed

text \<open>The line being built: tokens up to the trimmed length, then spaces.\<close>

definition lineTokens :: "bool \<Rightarrow> bool \<Rightarrow> SendState \<Rightarrow> bool" where
  "lineTokens plain wc s \<longleftrightarrow> (\<exists>toks k. termLine s = tokensBytes toks @ replicate k CHR '' '' \<and>
     trimmedLineLength s = length (tokensBytes toks) \<and> (\<forall>tok \<in> set toks. tokenOk plain wc tok))"

lemma space_tokens:
  "replicate k CHR '' '' = tokensBytes (replicate k (Text 0x20))" "tokenOk plain wc (Text 0x20)"
  by (induction k)
    (simp_all add: encodeUtf8_def char_of_byte_def char_of_def bit_0 scalar_value_def)

text \<open>New tokens take the pending spaces with them.\<close>

lemma lineTokens_append:
  assumes "lineTokens plain wc s" and "\<forall>tok \<in> set new. tokenOk plain wc tok"
    and "termLine s' = termLine s @ tokensBytes new" and "trimmedLineLength s' = length (termLine s')"
  shows "lineTokens plain wc s'"
proof -
  obtain toks k where t: "termLine s = tokensBytes toks @ replicate k CHR '' ''"
      "\<forall>tok \<in> set toks. tokenOk plain wc tok"
    using assms(1) by (auto simp: lineTokens_def)
  let ?all = "toks @ replicate k (Text 0x20) @ new"
  have "termLine s' = tokensBytes ?all @ replicate 0 CHR '' ''"
    using assms(3) t(1) by (simp add: space_tokens(1))
  moreover have "trimmedLineLength s' = length (tokensBytes ?all)"
    using assms(4) calculation by simp
  moreover have "\<forall>tok \<in> set ?all. tokenOk plain wc tok"
    using t(2) assms(2) space_tokens(2) by auto
  ultimately show ?thesis unfolding lineTokens_def by blast
qed

lemma setColorStep_tokens:
  assumes "lineTokens plain wc s"
  shows "lineTokens plain wc (setColorStep wc c i s)"
proof (cases "wc \<and> uint (Attributes c AND COLOR_ATTRIBUTE_MASK) \<noteq> sentColor s")
  case False
  then have "setColorStep wc c i s = s" by (auto simp: setColorStep_def Let_def)
  then show ?thesis using assms by simp
next
  case True
  obtain ps where ps: "outputSetColor (termLine s) (Attributes c AND COLOR_ATTRIBUTE_MASK) =
      termLine s @ tokensBytes [Control ps CHR ''m'']" "sgrChars ps"
    using outputSetColor_token [of "termLine s" "Attributes c AND COLOR_ATTRIBUTE_MASK"] by auto
  show ?thesis
  proof (rule lineTokens_append [OF assms])
    show "\<forall>tok \<in> set [Control ps CHR ''m'']. tokenOk plain wc tok" using ps(2) True by auto
    show "termLine (setColorStep wc c i s) = termLine s @ tokensBytes [Control ps CHR ''m'']"
      using True ps(1) by (simp add: setColorStep_def Let_def)
    show "trimmedLineLength (setColorStep wc c i s) = length (termLine (setColorStep wc c i s))"
      using True by (simp add: setColorStep_def Let_def)
  qed
qed

lemma cellStep_tokens:
  assumes "lineTokens plain wc s"
  shows "lineTokens plain wc (cellStep plain width i n ch s)"
proof (cases "ch = 0x20")
  case True
  obtain toks k where t: "termLine s = tokensBytes toks @ replicate k CHR '' ''"
      "trimmedLineLength s = length (tokensBytes toks)" "\<forall>tok \<in> set toks. tokenOk plain wc tok"
    using assms by (auto simp: lineTokens_def)
  have "replicate k CHR '' '' @ '' '' = replicate (Suc k) CHR '' ''"
    by (simp add: replicate_append_same)
  then have "termLine (cellStep plain width i n ch s) = tokensBytes toks @ replicate (Suc k) CHR '' ''"
    using True t(1) by (simp only: cellStep_def) simp
  then show ?thesis using t(2, 3) True unfolding lineTokens_def
    by (intro exI [of _ toks] exI [of _ "Suc k"]) (simp add: cellStep_def)
next
  case False
  obtain tok where tok: "encodeCell (fixSpecialCharacters ch) = tokenBytes tok" "tokenOk plain wc tok"
    using encodeCell_token [OF fixSpecialCharacters_not_escape] by blast
  show ?thesis
  proof (rule lineTokens_append [OF assms])
    let ?new = "(if i + n = width \<and> \<not> plain then [Control ''0'' CHR ''K''] else []) @ [tok]"
    show "\<forall>tok \<in> set ?new. tokenOk plain wc tok" using tok(2) by (simp add: is_digit_def)
    show "termLine (cellStep plain width i n ch s) = termLine s @ tokensBytes ?new"
      using False tok(1) by (simp add: cellStep_def Let_def)
    show "trimmedLineLength (cellStep plain width i n ch s) = length (termLine (cellStep plain width i n ch s))"
      using False by (simp add: cellStep_def Let_def)
  qed
qed

lemma sendLoop_tokens:
  "sendLoop plain wc data width i s = Some s' \<Longrightarrow> lineTokens plain wc s \<Longrightarrow> lineTokens plain wc s'"
proof (induction plain wc data width i s arbitrary: s' rule: sendLoop.induct)
  case (1 plain wc data width i s)
  show ?case
  proof (cases "i < width")
    case False
    then show ?thesis using 1(2, 3) by (subst (asm) sendLoop.simps) simp
  next
    case True
    then obtain n ch where sc: "scanUnicodeScalarValue (drop (nat i) data) (width - i) = Some (n, ch)"
      using scan_defined [of "width - i" "drop (nat i) data"] by auto
    show ?thesis
    proof (rule 1(1) [OF True refl sc refl])
      show "sendLoop plain wc data width (i + n)
          (cellStep plain width i n ch (setColorStep wc (data ! nat i) i s)) = Some s'"
        using 1(2) True sc by (subst (asm) sendLoop.simps) (simp add: Let_def)
      show "lineTokens plain wc (cellStep plain width i n ch (setColorStep wc (data ! nat i) i s))"
        using 1(3) by (intro cellStep_tokens setColorStep_tokens)
    qed
  qed
qed

lemma is_digit_chars [simp]:
  "is_digit CHR ''0''" "is_digit CHR ''1''" "is_digit CHR ''2''" "is_digit CHR ''3''"
  "is_digit CHR ''5''" "is_digit CHR ''6''"
  by (simp_all add: is_digit_def)

lemma hide_tokens: "sendsTokens t (hideTerminalCursor t)"
proof (cases "plainMode t \<or> cursorHidden t")
  case False
  then show ?thesis
    by (intro sendsTokensI [where toks = "[Control ''?25'' CHR ''l'']"])
      (simp_all add: hideTerminalCursor_def)
next
  case True
  then have "hideTerminalCursor t = t" by (auto simp: hideTerminalCursor_def)
  then show ?thesis by simp
qed

lemma formatInt_digits: "c \<in> set (formatInt n) \<Longrightarrow> 0 \<le> n \<Longrightarrow> is_digit c"
  by (auto simp: formatInt_def dest: decimal_digits)

lemma newLines_tokens: "concat (replicate k CRLF) = tokensBytes (replicate k NewLine)"
  by (induction k) simp_all

lemma move_tokens: "sendsTokens t (moveTerminalToLine line t)"
proof -
  let ?h = "hideTerminalCursor t"
  let ?m = "moveTerminalToLine line t"
  consider "line = remoteLine t" | "line < remoteLine t" "plainMode t"
    | "line < remoteLine t" "\<not> plainMode t" | "remoteLine t < line" by linarith
  then show ?thesis
  proof cases
    case 1
    then show ?thesis by (simp add: moveTerminalToLine_def)
  next
    case 2
    then have "sendsTokens ?h ?m"
      by (intro sendsTokensI [where toks = "[NewLine]"]) (simp_all add: moveTerminalToLine_def Let_def)
    then show ?thesis using hide_tokens sendsTokens_trans by blast
  next
    case 3
    then have "sendsTokens ?h ?m"
      by (intro sendsTokensI [where toks = "[CarriageReturn, Control (formatInt (remoteLine t - line)) CHR ''A'']"])
        (auto simp: moveTerminalToLine_def Let_def dest: formatInt_digits)
    then show ?thesis using hide_tokens sendsTokens_trans by blast
  next
    case 4
    then have "sendsTokens ?h ?m"
      by (intro sendsTokensI [where toks = "replicate (nat (line - remoteLine t)) NewLine"])
        (simp_all add: moveTerminalToLine_def Let_def forwardToLine_eq newLines_tokens)
    then show ?thesis using hide_tokens sendsTokens_trans by blast
  qed
qed

lemma show_tokens:
  assumes "0 \<le> column"
  shows "sendsTokens t (showTerminalCursor column line t)"
proof -
  let ?m = "moveTerminalToLine line t"
  let ?c = "if remoteColumn ?m \<noteq> column then [Control (formatInt (column + 1)) CHR ''G''] else []"
  have "sendsTokens ?m (showTerminalCursor column line t)"
  proof (cases "plainMode t")
    case True
    then show ?thesis by (simp add: showTerminalCursor_def)
  next
    case False
    have "\<forall>c \<in> set (formatInt (column + 1)). is_digit c"
      using assms formatInt_digits [of _ "column + 1"] by simp
    then show ?thesis
      using False
      by (intro sendsTokensI [where toks = "?c @ (if cursorHidden ?m then [Control ''?25'' CHR ''h''] else [])"])
        (auto simp: showTerminalCursor_def Let_def)
  qed
  then show ?thesis using move_tokens sendsTokens_trans by blast
qed

lemma mouse_tokens: "sendsTokens t (enableMouseMode b t)"
proof (cases "mouseModeEnabled t = b \<or> plainMode t")
  case True
  then show ?thesis by (auto simp: enableMouseMode_def)
next
  case False
  then show ?thesis
    by (intro sendsTokensI [where toks = "if b then [Control ''?1005'' CHR ''l'',
        Control ''?1000'' CHR ''h'', Control ''?1002'' CHR ''h'', Control ''?1003'' CHR ''h'',
        Control ''?1015'' CHR ''h'', Control ''?1006'' CHR ''h'']
      else [Control ''?1006'' CHR ''l'', Control ''?1015'' CHR ''l'', Control ''?1003'' CHR ''l'',
        Control ''?1002'' CHR ''l'', Control ''?1000'' CHR ''l'']"])
      (simp_all add: enableMouseMode_def Let_def)
qed

lemma reset_tokens: "sendsTokens t (resetTerminal f n t)"
proof (cases "f = SendClear \<and> \<not> plainMode t")
  case True
  then show ?thesis
    by (intro sendsTokensI [where toks = "[Control ''0'' CHR ''m'', Control ''1;1'' CHR ''H'',
        Control ''2'' CHR ''J'']"]) (simp_all add: resetTerminal_def Let_def)
next
  case False
  then show ?thesis
    by (intro sendsTokensI [where toks = "[]"]) (auto simp: resetTerminal_def Let_def)
qed

lemma restart_tokens: "sendsTokens t (restartLine t)"
proof (cases "lineDataValid t")
  case True
  then show ?thesis by (simp add: restartLine_def)
next
  case False
  then have "sendsTokens (hideTerminalCursor t) (restartLine t)"
    by (intro sendsTokensI [where toks = "[if plainMode t then NewLine else CarriageReturn]"])
      (simp_all add: restartLine_def Let_def)
  then show ?thesis using hide_tokens sendsTokens_trans by blast
qed

lemma outputLine_tokens:
  assumes "lineTokens (plainMode t) (outputColor t) s"
  shows "sendsTokens t (outputLine c s t)"
proof -
  obtain toks k where t: "termLine s = tokensBytes toks @ replicate k CHR '' ''"
      "trimmedLineLength s = length (tokensBytes toks)"
      "\<forall>tok \<in> set toks. tokenOk (plainMode t) (outputColor t) tok"
    using assms by (auto simp: lineTokens_def)
  let ?h = "if c \<noteq> - 1 \<and> trimmedCellCount s > c then hideTerminalCursor t else t"
  let ?e = "if \<not> alreadyErasedLine s \<and> \<not> plainMode t then [Control ''0'' CHR ''K''] else []"
  have h: "sendsTokens t ?h" by (simp add: hide_tokens)
  have "sendsTokens ?h (outputLine c s t)"
    by (rule sendsTokensI [where toks = "toks @ ?e"]) (use t in \<open>auto simp: outputLine_def Let_def\<close>)
  then show ?thesis using h sendsTokens_trans by blast
qed

lemma sendLine_tokens:
  assumes "sendLine line data width c t = Some t'"
  shows "sendsTokens t t'"
proof -
  obtain t1 where t1: "checkReuse data width (moveTerminalToLine line t) = Some t1"
    using assms by (auto simp: sendLine_def ASSERT_bind_Some bind_eq_Some)
  define t2 where "t2 = restartLine t1"
  have same: "plainMode t1 = plainMode t2" "outputColor t1 = outputColor t2"
      "remoteColor t1 = remoteColor t2"
    by (simp_all add: t2_def)
  let ?k = "int (length (lineData t2))"
  obtain s where s: "sendLoop (plainMode t2) (outputColor t2) data width ?k
      \<lparr>termLine = [], trimmedLineLength = 0, trimmedCellCount = ?k, alreadyErasedLine = False,
       sentColor = remoteColor t2\<rparr> = Some s"
    and t': "sent t' = sent (outputLine c s (t2\<lparr>remoteColor := sentColor s\<rparr>))"
      "plainMode t' = plainMode t2" "outputColor t' = outputColor t2"
    using assms t1
    by (auto simp: sendLine_def ASSERT_bind_Some bind_eq_Some Let_def same simp flip: t2_def)
  have "sendsTokens (moveTerminalToLine line t) t1"
    using t1 by (auto simp: checkReuse_def ASSERT_bind_Some Let_def sendsTokens_def split: if_splits
        intro: exI [of _ "[]"])
  then have "sendsTokens t t2"
    unfolding t2_def using move_tokens restart_tokens sendsTokens_trans by blast
  moreover have "lineTokens (plainMode t2) (outputColor t2)
      \<lparr>termLine = [], trimmedLineLength = 0, trimmedCellCount = ?k, alreadyErasedLine = False,
       sentColor = remoteColor t2\<rparr>"
    unfolding lineTokens_def by (intro exI [of _ "[]"] exI [of _ 0]) simp
  then have "sendsTokens (t2\<lparr>remoteColor := sentColor s\<rparr>)
      (outputLine c s (t2\<lparr>remoteColor := sentColor s\<rparr>))"
    using sendLoop_tokens [OF s] by (intro outputLine_tokens) simp
  then have "sendsTokens t2 t'" using t' by (simp add: sendsTokens_def)
  ultimately show ?thesis using sendsTokens_trans by blast
qed

section \<open>Sessions\<close>

text \<open>The calls that the scraper makes, in any order.\<close>

datatype TerminalOp =
    OpReset SendClearFlag int
  | OpSendLine int "CHAR_INFO list" int int
  | OpShowCursor int int
  | OpHideCursor
  | OpMouseMode bool

fun runOp :: "TerminalOp \<Rightarrow> TerminalState \<Rightarrow> TerminalState option" where
  "runOp (OpReset f n) t = Some (resetTerminal f n t)"
| "runOp (OpSendLine line data width c) t = sendLine line data width c t"
| "runOp (OpShowCursor column line) t = Some (showTerminalCursor column line t)"
| "runOp OpHideCursor t = Some (hideTerminalCursor t)"
| "runOp (OpMouseMode b) t = Some (enableMouseMode b t)"

fun opOk :: "TerminalOp \<Rightarrow> bool" where
  "opOk (OpSendLine line data width c) \<longleftrightarrow>
     1 \<le> width \<and> width \<le> 2147483647 \<and> nat width \<le> length data"
| "opOk (OpShowCursor column line) \<longleftrightarrow> 0 \<le> column"
| "opOk _ \<longleftrightarrow> True"

lemma runOp_step:
  assumes "opOk oper" and "termInv t"
  shows "\<exists>t'. runOp oper t = Some t' \<and> termInv t' \<and> sendsTokens t t'"
proof (cases oper)
  case (OpSendLine line data width c)
  then show ?thesis using assms sendLine_result [of t width data line c] sendLine_tokens by fastforce
qed (use assms in \<open>simp_all add: termInv_show reset_tokens show_tokens hide_tokens mouse_tokens\<close>)

lemma session_result:
  assumes "\<forall>oper \<in> set opers. opOk oper" and "termInv t"
  shows "\<exists>t'. foreach runOp opers t = Some t' \<and> termInv t' \<and> sendsTokens t t'"
  using assms
proof (induction opers arbitrary: t)
  case (Cons oper opers)
  then obtain t1 where t1: "runOp oper t = Some t1" "termInv t1" "sendsTokens t t1"
    using runOp_step [of oper t] by auto
  then obtain t' where "foreach runOp opers t1 = Some t'" "termInv t'" "sendsTokens t1 t'"
    using Cons.IH [OF _ t1(2)] Cons.prems(1) by auto
  then show ?case using t1 sendsTokens_trans by auto
qed auto

text \<open>
  C18. Whatever the scraper does with a new terminal, in any order, with any cell contents: no
  assertion fails (\<open>sendLine\<close> always finds the remembered line where it left the cursor, and
  its trimmed cell count stays within the line) and what is sent is a sequence of encoded
  characters other than ESC, line ends and the control sequences listed in \<open>tokenOk\<close>. A
  cell cannot smuggle in a control sequence of its own; in plain mode the only control sequences
  are colours, and only when colours were asked for.
\<close>

theorem terminal_session:
  assumes "\<forall>oper \<in> set opers. opOk oper"
  shows "\<exists>t' toks. foreach runOp opers (newTerminal plain color) = Some t' \<and> termInv t' \<and>
     sent t' = tokensBytes toks \<and> (\<forall>tok \<in> set toks. tokenOk plain color tok)"
proof -
  let ?t = "newTerminal plain color"
  obtain t' where t': "foreach runOp opers ?t = Some t'" "termInv t'" "sendsTokens ?t t'"
    using session_result [OF assms, of ?t] by auto
  have "sent ?t = []" "plainMode ?t = plain" "outputColor ?t = color"
    by (simp_all add: newTerminal_def)
  then show ?thesis using t' by (auto simp: sendsTokens_def)
qed

theorem terminal_session_witness:
  "\<exists>t' toks. foreach runOp [OpReset SendClear 0, OpSendLine 1 [\<lparr>Attributes = 7, cellChar = 0x1b\<rparr>] 1 0,
      OpShowCursor 0 0] (newTerminal False True) = Some t' \<and> termInv t' \<and>
     sent t' = tokensBytes toks \<and> (\<forall>tok \<in> set toks. tokenOk False True tok)"
  by (rule terminal_session) simp

section \<open>Plain mode\<close>

lemma encodeUtf8_escape:
  assumes "0x1b \<in> set (encodeUtf8 ch)"
  shows "ch = 0x1b"
proof -
  have hi: "bit (0x1b :: u8) 7 = False" by simp
  have w: "(0x1b :: u8) \<noteq> ucast ((x :: u32) OR 0x80)" "(0x1b :: u8) \<noteq> ucast (x OR 0xC0)"
    "(0x1b :: u8) \<noteq> ucast (x OR 0xE0)" "(0x1b :: u8) \<noteq> ucast (x OR 0xF0)" for x
    by (rule notI, drule arg_cong [where f = "\<lambda>b. bit b 7"], simp add: bit_simps)+
  have "ch < 0x80 \<and> (0x1b :: u8) = ucast ch"
    using assms w by (auto simp: encodeUtf8_def split: if_splits)
  then show ?thesis
    using decodeUtf8_encodeUtf8_append [of ch "[]"]
    by (simp add: scalar_value_def encodeUtf8_def decodeUtf8_def utf8CharLength_def word_nat_alt Let_def)
qed


lemma plain_token_no_escape: "tokenOk True False tok \<Longrightarrow> CHR 0x1B \<notin> set (tokenBytes tok)"
proof (cases tok)
  case (Text ch)
  assume ok: "tokenOk True False tok"
  have "byte_of (CHR 0x1B) = 0x1b" by (simp add: of_char_def)
  then have "char_of_byte b = CHR 0x1B \<Longrightarrow> b = 0x1b" for b
    by (metis byte_of_char_of_byte)
  then show ?thesis using ok Text encodeUtf8_escape [of ch] by auto
qed (simp_all add: CR_def CRLF_def)

text \<open>
  In plain mode without colours, not a single ESC byte is ever sent, whatever the cells
  of the console hold (a cell with an escape character is shown as a question mark).
\<close>

lemma plain_output_has_no_escape:
  assumes "\<forall>oper \<in> set opers. opOk oper"
  shows "\<exists>t'. foreach runOp opers (newTerminal True False) = Some t' \<and> CHR 0x1B \<notin> set (sent t')"
proof -
  obtain t' where t': "foreach runOp opers (newTerminal True False) = Some t'"
      "sendsTokens (newTerminal True False) t'"
    using session_result [OF assms, of "newTerminal True False"] by auto
  then obtain toks where "sent t' = tokensBytes toks" "\<forall>tok \<in> set toks. tokenOk True False tok"
    by (auto simp: sendsTokens_def newTerminal_def)
  then show ?thesis using t'(1) plain_token_no_escape by (auto simp: tokensBytes_def)
qed

text \<open>
  After \<open>sendLine\<close> the terminal stands on that line, the remembered cells are exactly the
  first \<open>remoteColumn\<close> cells of the line, and every cell that was left out at its end is a
  space in the colour that was sent last (full-width cells aside): nothing visible was trimmed.
  The next \<open>sendLine\<close> finds its assertion satisfied.
\<close>

lemma sendLine_correct:
  assumes "termInv t" and "1 \<le> width" and "width \<le> 2147483647" and "nat width \<le> length data"
  shows "\<exists>t'. sendLine line data width cursorColumn t = Some t' \<and> termInv t' \<and>
     remoteLine t' = line \<and> 0 \<le> remoteColumn t' \<and> remoteColumn t' \<le> width \<and> lineDataValid t' \<and>
     lineData t' = take (nat (remoteColumn t')) data \<and>
     restBlank (outputColor t) data (remoteColumn t') width (remoteColor t')"
  using sendLine_result [OF assms, of line cursorColumn] by blast

end
