(* ===== verification/Protocol.thy ===== *)
theory Protocol
  imports VTPrelude
begin

text \<open>
  The control protocol: the tagged little-endian encoding of src/shared/Buffer.h and Buffer.cc,
  and the handshake of src/shared/Protocol.h. A \<open>WriteBuffer\<close> is the list of its bytes; an
  \<open>int32_t\<close> or \<open>int64_t\<close> is the word of its bits (compared through \<open>sint\<close>), and a
  \<open>wchar_t\<close> is a 16-bit unit. A reader may throw, and its assertion may end the process.
\<close>

section \<open>Little-endian bytes\<close>

definition leBytes :: "nat \<Rightarrow> 'a::len word \<Rightarrow> u8 list" where
  "leBytes n w = map (\<lambda>i. ucast (drop_bit (8 * i) w)) [0..<n]"

fun leWord :: "u8 list \<Rightarrow> 'a::len word" where
  "leWord [] = 0"
| "leWord (b # bs) = ucast b OR push_bit 8 (leWord bs)"

lemma length_leBytes [simp]: "length (leBytes n w) = n"
  by (simp add: leBytes_def)

lemma leBytes_Suc: "leBytes (Suc n) w = ucast w # leBytes n (drop_bit 8 w)"
proof -
  have "[0..<Suc n] = 0 # map Suc [0..<n]" by (simp add: map_Suc_upt upt_conv_Cons del: upt_Suc)
  then show ?thesis by (simp add: leBytes_def ac_simps del: upt_Suc)
qed

lemma leWord_leBytes_bits:
  "bit (leWord (leBytes n (w :: 'a::len word)) :: 'a word) k \<longleftrightarrow> bit w k \<and> k < 8 * n"
proof (induction n arbitrary: w k)
  case 0
  then show ?case by (simp add: leBytes_def)
next
  case (Suc n)
  show ?case
  proof (cases "k < LENGTH('a)")
    case False
    then show ?thesis using bit_imp_le_length by blast
  next
    case True
    show ?thesis
    proof (cases "k < 8")
      case True
      then show ?thesis using \<open>k < LENGTH('a)\<close>
        by (auto simp: leBytes_Suc bit_or_iff bit_push_bit_iff bit_ucast_iff)
    next
      case False
      then have "\<not> bit (ucast (ucast w :: u8) :: 'a word) k"
        by (auto simp: bit_ucast_iff dest: bit_imp_le_length)
      moreover have "bit (push_bit 8 (leWord (leBytes n (drop_bit 8 w))) :: 'a word) k \<longleftrightarrow>
          bit w k \<and> k < 8 * Suc n"
        using False True by (auto simp: bit_push_bit_iff Suc bit_drop_bit_eq)
      ultimately show ?thesis by (simp add: leBytes_Suc bit_or_iff)
    qed
  qed
qed

lemma leWord_leBytes:
  assumes "LENGTH('a) \<le> 8 * n"
  shows "leWord (leBytes n (w :: 'a::len word)) = w"
  using assms by (intro bit_word_eqI) (auto simp: leWord_leBytes_bits dest: bit_imp_le_length)

lemma leBytes_leWord:
  "8 * length bs \<le> LENGTH('a) \<Longrightarrow> leBytes (length bs) (leWord bs :: 'a::len word) = bs"
proof (induction bs)
  case Nil
  then show ?case by (simp add: leBytes_def)
next
  case (Cons b bs)
  have len: "8 \<le> LENGTH('a)" using Cons.prems by simp
  have "ucast (leWord (b # bs) :: 'a word) = b"
    using len by (intro bit_word_eqI)
      (auto simp: bit_ucast_iff bit_or_iff bit_push_bit_iff)
  moreover have "drop_bit 8 (leWord (b # bs) :: 'a word) = take_bit (LENGTH('a) - 8) (leWord bs)"
    by (intro bit_word_eqI)
      (auto simp: bit_drop_bit_eq bit_or_iff bit_push_bit_iff bit_take_bit_iff bit_ucast_iff
        dest: bit_imp_le_length)
  moreover have "leBytes (length bs) (take_bit (LENGTH('a) - 8) (leWord bs) :: 'a word) =
      leBytes (length bs) (leWord bs :: 'a word)"
  proof -
    have "ucast (drop_bit (8 * i) (take_bit (LENGTH('a) - 8) (leWord bs) :: 'a word)) =
        (ucast (drop_bit (8 * i) (leWord bs :: 'a word)) :: u8)" if "i < length bs" for i
      using that Cons.prems
      by (intro bit_word_eqI) (auto simp: bit_ucast_iff bit_drop_bit_eq bit_take_bit_iff)
    then show ?thesis by (simp add: leBytes_def)
  qed
  ultimately show ?case using Cons by (simp add: leBytes_Suc del: leWord.simps)
qed

section \<open>Buffers\<close>

text \<open>
  The C++ exceptions of the library: \<open>ReadBuffer::DecodeError\<close>, \<open>ClientException\<close> with its
  error code, any other \<open>Exception\<close>, and the two exceptions of \<open>std::wstring::resize\<close>.
\<close>

type_synonym wstring = "u16 list"

definition wliteral :: "string \<Rightarrow> wstring" where
  "wliteral s = map of_char s"

datatype Exn =
    DecodeError
  | ClientException int wstring
  | GeneralException wstring
  | BadAlloc
  | LengthError

record ReadBuffer =
  rbuf :: "u8 list"
  roff :: nat

definition newReadBuffer :: "u8 list \<Rightarrow> ReadBuffer" where
  "newReadBuffer bytes = \<lparr>rbuf = bytes, roff = 0\<rparr>"

type_synonym 'a reader = "ReadBuffer \<Rightarrow> (Exn + 'a \<times> ReadBuffer) option"

definition rreturn :: "'a \<Rightarrow> 'a reader" where
  "rreturn x b = Some (Inr (x, b))"

definition rthrow :: "Exn \<Rightarrow> 'a reader" where
  "rthrow e b = Some (Inl e)"

definition rbind :: "'a reader \<Rightarrow> ('a \<Rightarrow> 'c reader) \<Rightarrow> 'c reader" where
  "rbind m f b = (case m b of
      None \<Rightarrow> None
    | Some (Inl e) \<Rightarrow> Some (Inl e)
    | Some (Inr (x, b')) \<Rightarrow> f x b')"

definition READ_BUFFER_CHECK :: "bool \<Rightarrow> unit reader" where
  "READ_BUFFER_CHECK c = (if c then rreturn () else rthrow DecodeError)"

definition PieceInt32 :: u8 where "PieceInt32 = 0"
definition PieceInt64 :: u8 where "PieceInt64 = 1"
definition PieceWString :: u8 where "PieceWString = 2"

definition putRawData :: "u8 list \<Rightarrow> u8 list \<Rightarrow> u8 list" where
  "putRawData data buf = buf @ data"

definition replaceRawData :: "nat \<Rightarrow> u8 list \<Rightarrow> u8 list \<Rightarrow> u8 list option" where
  "replaceRawData pos data buf = do {
     ASSERT (pos \<le> length buf \<and> length data \<le> length buf - pos);
     Some (take pos buf @ data @ drop (pos + length data) buf)
   }"

definition putInt32 :: "u32 \<Rightarrow> u8 list \<Rightarrow> u8 list" where
  "putInt32 i buf = putRawData (leBytes 4 i) (putRawData [PieceInt32] buf)"

definition putInt64 :: "u64 \<Rightarrow> u8 list \<Rightarrow> u8 list" where
  "putInt64 i buf = putRawData (leBytes 8 i) (putRawData [PieceInt64] buf)"

definition putUInt64Raw :: "u64 \<Rightarrow> u8 list \<Rightarrow> u8 list" where
  "putUInt64Raw i buf = putRawData (leBytes 8 i) buf"

definition putWString :: "wstring \<Rightarrow> u8 list \<Rightarrow> u8 list" where
  "putWString str buf =
     putRawData (concat (map (leBytes 2) str))
       (putUInt64Raw (of_nat (length str)) (putRawData [PieceWString] buf))"

definition getRawData :: "nat \<Rightarrow> u8 list reader" where
  "getRawData n b = do {
     ASSERT (roff b \<le> length (rbuf b));
     rbind (READ_BUFFER_CHECK (n \<le> length (rbuf b) - roff b))
       (\<lambda>_ b'. Some (Inr (take n (drop (roff b) (rbuf b)), b'\<lparr>roff := roff b' + n\<rparr>))) b
   }"

definition getPiece :: "u8 reader" where
  "getPiece = rbind (getRawData 1) (\<lambda>bytes. rreturn (leWord bytes))"

definition getUInt64Raw :: "u64 reader" where
  "getUInt64Raw = rbind (getRawData 8) (\<lambda>bytes. rreturn (leWord bytes))"

definition getInt32 :: "u32 reader" where
  "getInt32 =
     rbind getPiece (\<lambda>piece.
     rbind (READ_BUFFER_CHECK (piece = PieceInt32)) (\<lambda>_.
     rbind (getRawData 4) (\<lambda>bytes. rreturn (leWord bytes))))"

definition getInt64 :: "u64 reader" where
  "getInt64 =
     rbind getPiece (\<lambda>piece.
     rbind (READ_BUFFER_CHECK (piece = PieceInt64)) (\<lambda>_.
     getUInt64Raw))"

fun unitsOfBytes :: "u8 list \<Rightarrow> wstring" where
  "unitsOfBytes (a # b # rest) = leWord [a, b] # unitsOfBytes rest"
| "unitsOfBytes _ = []"

definition SIZE_MAX :: nat where "SIZE_MAX = 2 ^ 64 - 1"

text \<open>
  \<open>std::wstring::resize\<close> throws \<open>std::length_error\<close> past \<open>max_size()\<close> and
  \<open>std::bad_alloc\<close> when there is no memory. What it does for a given size is the parameter
  \<open>grow\<close> of \<open>getWString\<close>.
\<close>

type_synonym allocator = "nat \<Rightarrow> Exn option"

definition getWString :: "allocator \<Rightarrow> wstring reader" where
  "getWString grow =
     rbind getPiece (\<lambda>piece.
     rbind (READ_BUFFER_CHECK (piece = PieceWString)) (\<lambda>_.
     rbind getUInt64Raw (\<lambda>charLen.
     rbind (READ_BUFFER_CHECK (unat charLen \<le> SIZE_MAX div 2)) (\<lambda>_.
     if charLen > 0 then
       (case grow (unat charLen) of
          Some e \<Rightarrow> rthrow e
        | None \<Rightarrow> rbind (getRawData (2 * unat charLen)) (\<lambda>bytes. rreturn (unitsOfBytes bytes)))
     else rreturn []))))"

definition assertEof :: "unit reader" where
  "assertEof b = READ_BUFFER_CHECK (roff b = length (rbuf b)) b"

section \<open>The handshake\<close>

definition VT7PTY_AGENT_IDENTITY :: wstring where
  "VT7PTY_AGENT_IDENTITY = wliteral ''VT7Pty-Agent''"

definition VT7PTY_PROTOCOL_VERSION :: u32 where "VT7PTY_PROTOCOL_VERSION = 1"
definition VT7PTY_MAX_CONTROL_PACKET_BYTES :: nat where
  "VT7PTY_MAX_CONTROL_PACKET_BYTES = 1024 * 1024"

record AgentHandshake =
  identity :: wstring
  protocolVersion :: u32

datatype AgentHandshakeStatus = Compatible | WrongIdentity | UnsupportedVersion

definition writeAgentHandshake :: "u8 list \<Rightarrow> u8 list" where
  "writeAgentHandshake packet = putInt32 VT7PTY_PROTOCOL_VERSION (putWString VT7PTY_AGENT_IDENTITY packet)"

definition readAgentHandshake :: "allocator \<Rightarrow> AgentHandshake reader" where
  "readAgentHandshake grow =
     rbind (getWString grow) (\<lambda>s. rbind getInt32 (\<lambda>v.
     rreturn \<lparr>identity = s, protocolVersion = v\<rparr>))"

definition classifyAgentHandshake :: "AgentHandshake \<Rightarrow> AgentHandshakeStatus" where
  "classifyAgentHandshake handshake =
     (if identity handshake \<noteq> VT7PTY_AGENT_IDENTITY then WrongIdentity
      else if protocolVersion handshake \<noteq> VT7PTY_PROTOCOL_VERSION then UnsupportedVersion
      else Compatible)"

text \<open>The messages from the client and the results of \<open>StartProcess\<close>, by their values on the wire.\<close>

definition MsgStartProcess :: u32 where "MsgStartProcess = 0"
definition MsgSetSize :: u32 where "MsgSetSize = 1"
definition MsgGetConsoleProcessList :: u32 where "MsgGetConsoleProcessList = 2"
definition ResultCreateProcessFailed :: u32 where "ResultCreateProcessFailed = 0"
definition ResultProcessCreated :: u32 where "ResultProcessCreated = 1"

section \<open>What is left to read\<close>

definition reading :: "ReadBuffer \<Rightarrow> u8 list \<Rightarrow> bool" where
  "reading b rest \<longleftrightarrow> roff b \<le> length (rbuf b) \<and> drop (roff b) (rbuf b) = rest"

lemma reading_new [simp]: "reading (newReadBuffer bytes) rest \<longleftrightarrow> rest = bytes"
  by (auto simp: reading_def newReadBuffer_def)

lemma getRawData_reading:
  assumes "reading b rest"
  shows "getRawData n b =
    (if n \<le> length rest then Some (Inr (take n rest, b\<lparr>roff := roff b + n\<rparr>))
     else Some (Inl DecodeError))"
proof -
  have "length rest = length (rbuf b) - roff b" "roff b \<le> length (rbuf b)"
      "drop (roff b) (rbuf b) = rest"
    using assms by (auto simp: reading_def)
  then show ?thesis
    by (simp add: getRawData_def rbind_def READ_BUFFER_CHECK_def rreturn_def rthrow_def)
qed

lemma reading_advance:
  assumes "reading b rest" and "n \<le> length rest"
  shows "reading (b\<lparr>roff := roff b + n\<rparr>) (drop n rest)"
  using assms by (auto simp: reading_def add.commute)

section \<open>Parsers\<close>

text \<open>
  The abstract view of a reader: a function of the bytes that are left, without assertions.
  \<open>simulates m g\<close> says that the reader of the code behaves as the parser \<open>g\<close>; in particular
  its assertion never fails.
\<close>

type_synonym 'a parser = "u8 list \<Rightarrow> Exn + 'a \<times> u8 list"

definition simulates :: "'a reader \<Rightarrow> 'a parser \<Rightarrow> bool" where
  "simulates m g \<longleftrightarrow> (\<forall>b rest. reading b rest \<longrightarrow>
     (case g rest of
        Inl e \<Rightarrow> m b = Some (Inl e)
      | Inr (x, rest') \<Rightarrow> \<exists>b'. m b = Some (Inr (x, b')) \<and> reading b' rest'))"

definition pbind :: "'a parser \<Rightarrow> ('a \<Rightarrow> 'c parser) \<Rightarrow> 'c parser" where
  "pbind g h rest = bindR (g rest) (\<lambda>(x, r). h x r)"

definition preturn :: "'a \<Rightarrow> 'a parser" where "preturn x rest = Inr (x, rest)"
definition pthrow :: "Exn \<Rightarrow> 'a parser" where "pthrow e rest = Inl e"

definition pcheck :: "bool \<Rightarrow> unit parser" where
  "pcheck c = (if c then preturn () else pthrow DecodeError)"

definition pRaw :: "nat \<Rightarrow> u8 list parser" where
  "pRaw n rest = (if n \<le> length rest then Inr (take n rest, drop n rest) else Inl DecodeError)"

definition pUInt64Raw :: "u64 parser" where
  "pUInt64Raw = pbind (pRaw 8) (\<lambda>bytes. preturn (leWord bytes))"

definition pTag :: "u8 \<Rightarrow> unit parser" where
  "pTag p = pbind (pRaw 1) (\<lambda>t. pcheck (leWord t = p))"

definition pInt32 :: "u32 parser" where
  "pInt32 = pbind (pTag PieceInt32) (\<lambda>_. pbind (pRaw 4) (\<lambda>bytes. preturn (leWord bytes)))"

definition pInt64 :: "u64 parser" where
  "pInt64 = pbind (pTag PieceInt64) (\<lambda>_. pUInt64Raw)"

definition pUnits :: "allocator \<Rightarrow> nat \<Rightarrow> wstring parser" where
  "pUnits grow n =
     (if n = 0 then preturn []
      else (case grow n of
          Some e \<Rightarrow> pthrow e
        | None \<Rightarrow> pbind (pRaw (2 * n)) (\<lambda>bytes. preturn (unitsOfBytes bytes))))"

definition pWString :: "allocator \<Rightarrow> wstring parser" where
  "pWString grow = pbind (pTag PieceWString) (\<lambda>_.
     pbind pUInt64Raw (\<lambda>n. pbind (pcheck (unat n \<le> SIZE_MAX div 2)) (\<lambda>_. pUnits grow (unat n))))"

definition pEof :: "unit parser" where
  "pEof rest = (if rest = [] then Inr ((), []) else Inl DecodeError)"

named_theorems sims

lemma simulates_rbind [sims]:
  assumes "simulates m g" and "\<And>x. simulates (f x) (h x)"
  shows "simulates (rbind m f) (pbind g h)"
  unfolding simulates_def
proof (intro allI impI)
  fix b rest assume r: "reading b rest"
  show "case pbind g h rest of Inl e \<Rightarrow> rbind m f b = Some (Inl e)
      | Inr (x, rest') \<Rightarrow> \<exists>b'. rbind m f b = Some (Inr (x, b')) \<and> reading b' rest'"
  proof (cases "g rest")
    case (Inl e)
    then have "m b = Some (Inl e)" using assms(1) r by (fastforce simp: simulates_def)
    then show ?thesis using Inl by (simp add: pbind_def rbind_def)
  next
    case (Inr p)
    obtain x rest' where p: "p = (x, rest')" by fastforce
    then obtain b' where "m b = Some (Inr (x, b'))" "reading b' rest'"
      using assms(1) r Inr by (fastforce simp: simulates_def)
    then have "rbind m f b = f x b'" "pbind g h rest = h x rest'"
      using Inr p by (simp_all add: pbind_def rbind_def)
    then show ?thesis
      using assms(2) [of x] \<open>reading b' rest'\<close> by (simp only: simulates_def)
  qed
qed

lemma simulates_basic [sims]:
  "simulates (rreturn x) (preturn x)"
  "simulates (rthrow e) (pthrow e)"
  "simulates (READ_BUFFER_CHECK c) (pcheck c)"
  "simulates (getRawData n) (pRaw n)"
  "simulates assertEof pEof"
  by (auto simp: simulates_def rreturn_def preturn_def rthrow_def pthrow_def READ_BUFFER_CHECK_def
      pcheck_def pRaw_def getRawData_reading reading_advance assertEof_def pEof_def reading_def add.commute)

lemma pbind_assoc: "pbind (pbind g h) k = pbind g (\<lambda>x. pbind (h x) k)"
  by (rule ext) (auto simp: pbind_def bindR_def split: sum.splits)

lemma pbind_preturn [simp]: "pbind (preturn x) h = h x"
  by (rule ext) (simp add: pbind_def preturn_def)

lemma simulates_UInt64Raw [sims]: "simulates getUInt64Raw pUInt64Raw"
  unfolding getUInt64Raw_def pUInt64Raw_def by (intro sims)

lemma simulates_tag [sims]:
  assumes "simulates f g"
  shows "simulates (rbind getPiece (\<lambda>t. rbind (READ_BUFFER_CHECK (t = p)) (\<lambda>_. f)))
    (pbind (pTag p) (\<lambda>_. g))"
proof -
  have "simulates (rbind getPiece (\<lambda>t. rbind (READ_BUFFER_CHECK (t = p)) (\<lambda>_. f)))
    (pbind (pbind (pRaw 1) (\<lambda>bytes. preturn (leWord bytes))) (\<lambda>t. pbind (pcheck (t = p)) (\<lambda>_. g)))"
    unfolding getPiece_def by (intro simulates_rbind simulates_basic assms)
  then show ?thesis by (simp add: pTag_def pbind_assoc)
qed

lemma simulates_ints [sims]: "simulates getInt32 pInt32" "simulates getInt64 pInt64"
  unfolding getInt32_def pInt32_def getInt64_def pInt64_def
  by (intro simulates_tag simulates_rbind simulates_basic simulates_UInt64Raw)+

lemma simulates_WString [sims]: "simulates (getWString grow) (pWString grow)"
proof -
  have "simulates (if charLen > 0 then (case grow (unat charLen) of
          Some e \<Rightarrow> rthrow e
        | None \<Rightarrow> rbind (getRawData (2 * unat charLen)) (\<lambda>bytes. rreturn (unitsOfBytes bytes)))
     else rreturn []) (pUnits grow (unat charLen))" for charLen :: u64
    by (auto simp: pUnits_def unat_eq_0 word_greater_zero_iff intro: sims split: option.splits)
  then show ?thesis
    unfolding getWString_def pWString_def
    by (intro simulates_tag simulates_rbind simulates_basic simulates_UInt64Raw)
qed

lemma simulates_new:
  assumes "simulates m g"
  shows "case g bytes of Inl e \<Rightarrow> m (newReadBuffer bytes) = Some (Inl e)
     | Inr (x, rest) \<Rightarrow> \<exists>b. m (newReadBuffer bytes) = Some (Inr (x, b)) \<and> reading b rest"
  using assms by (simp add: simulates_def)

section \<open>Round trips\<close>

text \<open>
  What the two ends of the pipe rely on for every kind of value: a put appends, a get reads back
  what was put and leaves the rest, and a get accepts nothing but what a put writes. Then any
  number of values in a row is read back, and the encoding is injective.
\<close>

locale codec =
  fixes put :: "'v \<Rightarrow> u8 list \<Rightarrow> u8 list"
    and get :: "u8 list \<Rightarrow> Exn + 'v \<times> u8 list"
    and ok :: "'v \<Rightarrow> bool"
  assumes put_append: "put v buf = buf @ put v []"
    and get_put: "ok v \<Longrightarrow> get (put v [] @ rest) = Inr (v, rest)"
    and get_canonical: "get s = Inr (v, rest) \<Longrightarrow> s = put v [] @ rest \<and> ok v"
begin

primrec getN :: "nat \<Rightarrow> u8 list \<Rightarrow> Exn + 'v list \<times> u8 list" where
  "getN 0 s = Inr ([], s)"
| "getN (Suc n) s = bindR (get s) (\<lambda>(v, s'). bindR (getN n s') (\<lambda>(vs, s''). Inr (v # vs, s'')))"

definition putAll :: "'v list \<Rightarrow> u8 list \<Rightarrow> u8 list" where
  "putAll vs buf = fold put vs buf"

lemma putAll_append: "putAll vs buf = buf @ putAll vs []"
proof (induction vs arbitrary: buf)
  case (Cons v vs)
  have "putAll (v # vs) buf = put v buf @ putAll vs []"
    using Cons [of "put v buf"] by (simp add: putAll_def)
  also have "\<dots> = buf @ (put v [] @ putAll vs [])"
    using put_append [of v buf] by simp
  also have "put v [] @ putAll vs [] = putAll (v # vs) []"
    using Cons [of "put v []"] by (simp add: putAll_def)
  finally show ?case .
qed (simp add: putAll_def)

lemma putAll_Cons: "putAll (v # vs) [] = put v [] @ putAll vs []"
  using putAll_append [of vs "put v []"] by (simp add: putAll_def)

lemma getN_putAll:
  "\<forall>v \<in> set vs. ok v \<Longrightarrow> getN (length vs) (putAll vs [] @ rest) = Inr (vs, rest)"
proof (induction vs)
  case (Cons v vs)
  have "putAll (v # vs) [] @ rest = put v [] @ (putAll vs [] @ rest)" by (simp add: putAll_Cons)
  then show ?case using Cons by (simp add: get_put)
qed (simp add: putAll_def)

lemma getN_canonical:
  "getN n s = Inr (vs, rest) \<Longrightarrow> s = putAll vs [] @ rest \<and> length vs = n \<and> (\<forall>v \<in> set vs. ok v)"
proof (induction n arbitrary: s vs)
  case (Suc n)
  then obtain v s' vs' where "get s = Inr (v, s')" "getN n s' = Inr (vs', rest)" "vs = v # vs'"
    by (auto simp: bindR_Inr)
  then show ?case using Suc.IH [of s' vs'] get_canonical [of s v s'] by (auto simp: putAll_Cons)
qed (simp add: putAll_def)

lemma put_inject: "ok v \<Longrightarrow> ok w \<Longrightarrow> put v [] = put w [] \<longleftrightarrow> v = w"
  using get_put [of v "[]"] get_put [of w "[]"] by (metis Inr_inject Pair_inject)

lemma prefix_free: "ok v \<Longrightarrow> ok w \<Longrightarrow> put v [] @ x = put w [] @ y \<longleftrightarrow> v = w \<and> x = y"
  using get_put [of v x] get_put [of w y] by (metis Inr_inject Pair_inject)

end

lemma take_drop_eq: "n \<le> length s \<Longrightarrow> length a = n \<Longrightarrow> take n s = a \<longleftrightarrow> s = a @ drop n s"
  by (metis append_eq_conv_conj append_take_drop_id)

lemma pRaw_append [simp]: "length a = n \<Longrightarrow> pRaw n (a @ rest) = Inr (a, rest)"
  by (simp add: pRaw_def)

lemma pRaw_Inr: "pRaw n s = Inr (a, rest) \<longleftrightarrow> s = a @ rest \<and> length a = n"
  by (auto simp: pRaw_def min_def)

lemma pRaw_Cons [simp]: "pRaw (Suc 0) (a # rest) = Inr ([a], rest)"
  by (simp add: pRaw_def)

lemma parser_Inr:
  "pbind g h s = Inr y \<longleftrightarrow> (\<exists>x r. g s = Inr (x, r) \<and> h x r = Inr y)"
  "preturn x s = Inr (z, r) \<longleftrightarrow> z = x \<and> r = s"
  "pcheck c s = Inr (u, r) \<longleftrightarrow> c \<and> r = s"
  by (auto simp: pbind_def bindR_Inr preturn_def pcheck_def pthrow_def)

lemma leWord_single [simp]: "leWord [a] = a"
  by simp

lemma leBytes_of_leWord:
  "length a = 4 \<Longrightarrow> leBytes 4 (leWord a :: u32) = a"
  "length a = 8 \<Longrightarrow> leBytes 8 (leWord a :: u64) = a"
  "length a = 2 \<Longrightarrow> leBytes 2 (leWord a :: u16) = a"
  using leBytes_leWord [of a, where ?'a = 32] leBytes_leWord [of a, where ?'a = 64]
    leBytes_leWord [of a, where ?'a = 16] by simp_all

interpretation u64c: codec putUInt64Raw pUInt64Raw "\<lambda>_. True"
  by unfold_locales
    (auto simp: putUInt64Raw_def putRawData_def pUInt64Raw_def pbind_def preturn_def leWord_leBytes
      bindR_Inr pRaw_Inr leBytes_of_leWord)

lemma pTag_Inr: "pTag p s = Inr (u, r) \<longleftrightarrow> s = p # r"
  by (cases s) (auto simp: pTag_def parser_Inr pRaw_def)

lemma pTag_Cons [simp]: "pTag p (p # r) = Inr ((), r)"
  by (simp add: pTag_Inr)

interpretation i32c: codec putInt32 pInt32 "\<lambda>_. True"
proof unfold_locales
  show "pInt32 (putInt32 v [] @ rest) = Inr (v, rest)" for v rest
    by (simp add: pInt32_def putInt32_def putRawData_def  pbind_def preturn_def leWord_leBytes)
  show "s = putInt32 v [] @ rest \<and> True" if "pInt32 s = Inr (v, rest)" for s v rest
    using that
    by (auto simp: pInt32_def putInt32_def putRawData_def pTag_Inr parser_Inr pRaw_Inr leBytes_of_leWord
       )
qed (simp add: putInt32_def putRawData_def)

interpretation i64c: codec putInt64 pInt64 "\<lambda>_. True"
proof unfold_locales
  show "pInt64 (putInt64 v [] @ rest) = Inr (v, rest)" for v rest
    using u64c.get_put [of v rest]
    by (simp add: putInt64_def putUInt64Raw_def putRawData_def pInt64_def pbind_def)
  show "s = putInt64 v [] @ rest \<and> True" if "pInt64 s = Inr (v, rest)" for s v rest
    using that u64c.get_canonical
    by (auto simp: putInt64_def putUInt64Raw_def putRawData_def pInt64_def pTag_Inr parser_Inr)
qed (simp add: putInt64_def putRawData_def)

lemma unitsOfBytes_bytes: "unitsOfBytes (concat (map (leBytes 2) str)) = str"
proof (induction str)
  case (Cons c str)
  obtain a b where ab: "leBytes 2 c = [a, b]"
    using length_leBytes [of 2 c] by (auto simp: numeral_2_eq_2 length_Suc_conv simp del: length_leBytes)
  then have "leWord [a, b] = c" using leWord_leBytes [of 2 c] by simp
  then show ?case using Cons ab by simp
qed simp

lemma bytes_unitsOfBytes:
  "even (length bs) \<Longrightarrow> concat (map (leBytes 2) (unitsOfBytes bs)) = bs \<and>
     2 * length (unitsOfBytes bs) = length bs"
proof (induction bs rule: unitsOfBytes.induct)
  case (1 a b rest)
  have "leBytes 2 (leWord [a, b] :: u16) = [a, b]" by (rule leBytes_of_leWord(3)) simp
  then show ?case using 1 by (simp del: leWord.simps)
qed auto

definition sendable :: "allocator \<Rightarrow> wstring \<Rightarrow> bool" where
  "sendable grow str \<longleftrightarrow> length str \<le> SIZE_MAX div 2 \<and> (str = [] \<or> grow (length str) = None)"

lemma unat_length: "n \<le> SIZE_MAX div 2 \<Longrightarrow> unat (of_nat n :: u64) = n"
  by (simp add: unat_of_nat SIZE_MAX_def)

interpretation wstr: codec putWString "pWString grow" "sendable grow" for grow
proof unfold_locales
  show "putWString v buf = buf @ putWString v []" for v buf
    by (simp add: putWString_def putUInt64Raw_def putRawData_def)
  show "pWString grow (putWString v [] @ rest) = Inr (v, rest)" if "sendable grow v" for v rest
  proof -
    have len: "length (concat (map (leBytes 2) v)) = 2 * length v"
      by (simp add: length_concat o_def sum_list_triv)
    have "putWString v [] @ rest =
        PieceWString # (putUInt64Raw (of_nat (length v)) [] @ (concat (map (leBytes 2) v) @ rest))"
      by (simp add: putWString_def putUInt64Raw_def putRawData_def)
    then show ?thesis
      using that len u64c.get_put [of "of_nat (length v)"]
      by (auto simp: pWString_def  pbind_def pcheck_def preturn_def sendable_def unat_length
          pUnits_def unitsOfBytes_bytes simp del: length_concat)
  qed
  show "s = putWString v [] @ rest \<and> sendable grow v" if read: "pWString grow s = Inr (v, rest)" for s v rest
  proof -
    obtain t n r where tn: "s = [PieceWString] @ t" "pUInt64Raw t = Inr (n, r)"
        "unat n \<le> SIZE_MAX div 2" "pUnits grow (unat n) r = Inr (v, rest)"
      using read by (auto simp: pWString_def pTag_Inr parser_Inr)
    have t: "t = putUInt64Raw n [] @ r" using u64c.get_canonical [OF tn(2)] by simp
    have "r = concat (map (leBytes 2) v) @ rest \<and> length v = unat n \<and> sendable grow v"
    proof (cases "unat n = 0")
      case True
      then show ?thesis using tn(4) by (simp add: pUnits_def preturn_def sendable_def)
    next
      case False
      then obtain bytes where "grow (unat n) = None" "r = bytes @ rest" "length bytes = 2 * unat n"
          "v = unitsOfBytes bytes"
        using tn(4) by (auto simp: pUnits_def parser_Inr pRaw_Inr pthrow_def split: option.splits)
      then show ?thesis using bytes_unitsOfBytes [of bytes] tn(3) by (simp add: sendable_def)
    qed
    then show ?thesis
      using tn(1) t by (simp add: putWString_def putUInt64Raw_def putRawData_def)
  qed
qed

section \<open>The readers of the code\<close>

lemma reader_roundtrip:
  assumes "simulates m g" and "g (bs @ rest) = Inr (x, rest)" and "reading b (bs @ rest)"
  shows "\<exists>b'. m b = Some (Inr (x, b')) \<and> reading b' rest"
  using assms by (fastforce simp: simulates_def)

definition sound_result :: "(Exn \<Rightarrow> bool) \<Rightarrow> ('a \<Rightarrow> u8 list) \<Rightarrow> u8 list \<Rightarrow>
    (Exn + 'a \<times> ReadBuffer) option \<Rightarrow> bool" where
  "sound_result thrown enc bytes r = (case r of
      None \<Rightarrow> False
    | Some (Inl e) \<Rightarrow> thrown e
    | Some (Inr (v, b)) \<Rightarrow> \<exists>rest. bytes = enc v @ rest \<and> reading b rest)"

lemma sound_resultI:
  assumes "simulates m g" and "\<And>v rest. g bytes = Inr (v, rest) \<Longrightarrow> bytes = enc v @ rest"
    and "\<And>e. g bytes = Inl e \<Longrightarrow> thrown e"
  shows "sound_result thrown enc bytes (m (newReadBuffer bytes))"
  using simulates_new [OF assms(1), of bytes] assms(2, 3)
  by (cases "g bytes") (fastforce simp: sound_result_def)+

lemma parser_Inl:
  "pbind g h s = Inl e \<longleftrightarrow> g s = Inl e \<or> (\<exists>x r. g s = Inr (x, r) \<and> h x r = Inl e)"
  "preturn x s \<noteq> Inl e"
  "pcheck c s = Inl e \<longleftrightarrow> \<not> c \<and> e = DecodeError"
  "pRaw n s = Inl e \<Longrightarrow> e = DecodeError"
  "pthrow e' s = Inl e \<longleftrightarrow> e = e'"
  by (auto simp: pbind_def bindR_Inl preturn_def pcheck_def pthrow_def pRaw_def split: if_splits)

lemma pTag_Inl: "pTag p s = Inl e \<Longrightarrow> e = DecodeError"
  by (auto simp: pTag_def parser_Inl dest: parser_Inl(4))

lemma pUInt64Raw_Inl: "pUInt64Raw s = Inl e \<Longrightarrow> e = DecodeError"
  by (auto simp: pUInt64Raw_def parser_Inl dest: parser_Inl(4))

lemma pInts_Inl: "pInt32 s = Inl e \<Longrightarrow> e = DecodeError" "pInt64 s = Inl e \<Longrightarrow> e = DecodeError"
  by (auto simp: pInt32_def pInt64_def parser_Inl dest: parser_Inl(4) pTag_Inl pUInt64Raw_Inl)

lemma pWString_Inl: "pWString grow s = Inl e \<Longrightarrow> e = DecodeError \<or> (\<exists>n. grow n = Some e)"
  by (auto simp: pWString_def parser_Inl pUnits_def dest: parser_Inl(4) pTag_Inl pUInt64Raw_Inl
      split: if_splits option.splits)


lemma simulates_handshake [sims]:
  "simulates (readAgentHandshake grow) (pbind (pWString grow) (\<lambda>s. pbind pInt32 (\<lambda>v.
     preturn \<lparr>identity = s, protocolVersion = v\<rparr>)))"
  unfolding readAgentHandshake_def by (intro sims)

lemma writeAgentHandshake_append: "writeAgentHandshake buf = buf @ writeAgentHandshake []"
  unfolding writeAgentHandshake_def
  by (metis append_assoc i32c.put_append wstr.put_append)

text \<open>
  The handshake that an agent writes, followed by any payload, is read back as compatible, and the
  payload is what is read next (the 12 characters of the identity must fit in memory).
\<close>

lemma handshake_read:
  assumes "reading b (writeAgentHandshake [] @ payload)" and "grow 12 = None"
  shows "\<exists>h b'. readAgentHandshake grow b = Some (Inr (h, b')) \<and> reading b' payload \<and>
     classifyAgentHandshake h = Compatible"
proof -
  let ?h = "\<lparr>identity = VT7PTY_AGENT_IDENTITY, protocolVersion = VT7PTY_PROTOCOL_VERSION\<rparr>"
  have "length VT7PTY_AGENT_IDENTITY = 12" "12 \<le> SIZE_MAX div 2"
    by (simp_all add: VT7PTY_AGENT_IDENTITY_def wliteral_def SIZE_MAX_def)
  then have ok: "sendable grow VT7PTY_AGENT_IDENTITY"
    using assms(2) by (simp only: sendable_def) simp
  have "writeAgentHandshake [] @ payload =
      putWString VT7PTY_AGENT_IDENTITY [] @ (putInt32 VT7PTY_PROTOCOL_VERSION [] @ payload)"
    using i32c.put_append [of VT7PTY_PROTOCOL_VERSION "putWString VT7PTY_AGENT_IDENTITY []"]
    by (simp add: writeAgentHandshake_def)
  then have "pbind (pWString grow) (\<lambda>s. pbind pInt32 (\<lambda>v. preturn \<lparr>identity = s, protocolVersion = v\<rparr>))
      (writeAgentHandshake [] @ payload) = Inr (?h, payload)"
    using ok by (simp add: pbind_def wstr.get_put i32c.get_put preturn_def)
  from reader_roundtrip [OF simulates_handshake this assms(1)]
  have "\<exists>b'. readAgentHandshake grow b = Some (Inr (?h, b')) \<and> reading b' payload" .
  moreover have "classifyAgentHandshake ?h = Compatible" by (simp add: classifyAgentHandshake_def)
  ultimately show ?thesis by blast
qed

end
