(* ===== verification/NamedPipe.thy ===== *)
theory NamedPipe
  imports Protocol
begin

text \<open>
  \<open>NamedPipe\<close> (src/agent/NamedPipe.cc): the agent's end of a pipe, with its input and output
  queues and one worker for each direction. The answers of Windows to \<open>ReadFile\<close>,
  \<open>WriteFile\<close>, \<open>GetOverlappedResult\<close> and \<open>ConnectNamedPipe\<close> are arguments; once a list of
  answers is used up, every further call is pending. The field \<open>delivered\<close> is not in the
  code: it records the bytes of the writes that Windows has completed.
\<close>

section \<open>State\<close>

datatype OpenMode = ModeNone | Reading | Writing | Duplex

fun modeBits :: "OpenMode \<Rightarrow> u8" where
  "modeBits ModeNone = 0"
| "modeBits Reading = 1"
| "modeBits Writing = 2"
| "modeBits Duplex = 3"

definition hasMode :: "OpenMode \<Rightarrow> OpenMode \<Rightarrow> bool" where
  "hasMode value flag \<longleftrightarrow> modeBits value AND modeBits flag \<noteq> 0"

datatype ServiceResult = NoProgress | ServiceError | Progress

record 'b IoWorker =
  pending :: bool
  currentIoSize :: nat
  ioBuffer :: "'b list"

definition kIoSize :: nat where "kIoSize = 64 * 1024"

definition newWorker :: "'b IoWorker" where
  "newWorker = \<lparr>pending = False, currentIoSize = 0, ioBuffer = []\<rparr>"

record 'b Pipe =
  pipeName :: wstring
  connecting :: bool
  openMode :: OpenMode
  readBufSize :: nat
  inQueue :: "'b list"
  outQueue :: "'b list"
  handleOpen :: bool
  inputWorker :: "'b IoWorker option"
  outputWorker :: "'b IoWorker option"
  delivered :: "'b list"

definition newPipe :: "'b Pipe" where
  "newPipe = \<lparr>pipeName = [], connecting = False, openMode = ModeNone, readBufSize = 64 * 1024,
     inQueue = [], outQueue = [], handleOpen = False, inputWorker = None, outputWorker = None,
     delivered = []\<rparr>"

definition isClosed :: "'b Pipe \<Rightarrow> bool" where "isClosed p \<longleftrightarrow> \<not> handleOpen p"
definition isConnecting :: "'b Pipe \<Rightarrow> bool" where "isConnecting p \<longleftrightarrow> connecting p"
definition isConnected :: "'b Pipe \<Rightarrow> bool" where
  "isConnected p \<longleftrightarrow> \<not> isClosed p \<and> \<not> isConnecting p"

section \<open>Workers\<close>

text \<open>
  The answer to an I/O call: completed with the \<open>actual\<close> size and, for a read, the bytes that
  Windows put in the buffer; pending (or, for \<open>GetOverlappedResult\<close>, incomplete); failed.
\<close>

datatype 'b IoAnswer = IoDone nat "'b list" | IoPending | IoError

datatype WorkerKind = InputWorker | OutputWorker

text \<open>
  \<open>shouldIssueIo\<close> of the two worker classes: the size of the next call, the bytes put in the
  worker's buffer and the pipe without the bytes taken from its output queue.
\<close>

fun shouldIssueIo :: "WorkerKind \<Rightarrow> 'b Pipe \<Rightarrow> (nat \<times> 'b list \<times> 'b Pipe) option option" where
  "shouldIssueIo InputWorker p = do {
     ASSERT (\<not> isConnecting p);
     Some (if isClosed p then None
           else if length (inQueue p) < readBufSize p then Some (kIoSize, [], p)
           else None)
   }"
| "shouldIssueIo OutputWorker p =
     (if outQueue p \<noteq> [] then do {
        writeSize \<leftarrow> checkedNarrow DWORD_range (int (min (length (outQueue p)) kIoSize));
        Some (Some (nat writeSize, take (nat writeSize) (outQueue p),
                    p\<lparr>outQueue := drop (nat writeSize) (outQueue p)\<rparr>))
      }
      else Some None)"

fun completeIo :: "WorkerKind \<Rightarrow> nat \<Rightarrow> 'b list \<Rightarrow> 'b IoWorker \<Rightarrow> 'b Pipe \<Rightarrow> 'b Pipe option" where
  "completeIo InputWorker amount data w p = Some (p\<lparr>inQueue := inQueue p @ take amount data\<rparr>)"
| "completeIo OutputWorker amount data w p = do {
     ASSERT (amount = currentIoSize w);
     Some (p\<lparr>delivered := delivered p @ ioBuffer w\<rparr>)
   }"

text \<open>The loop of \<open>IoWorker::service\<close>, which issues calls as long as they complete at once.\<close>

fun serviceLoop :: "WorkerKind \<Rightarrow> 'b IoAnswer list \<Rightarrow> ServiceResult \<Rightarrow> 'b IoWorker \<Rightarrow> 'b Pipe \<Rightarrow>
    (ServiceResult \<times> 'b IoWorker \<times> 'b Pipe) option" where
  "serviceLoop kind answers progress w p = do {
     issue \<leftarrow> shouldIssueIo kind p;
     (case issue of
        None \<Rightarrow> Some (progress, w, p)
      | Some (amount, buf, p1) \<Rightarrow>
          let w1 = w\<lparr>currentIoSize := amount, ioBuffer := buf\<rparr>
          in (case answers of
                [] \<Rightarrow> Some (progress, w1\<lparr>pending := True\<rparr>, p1)
              | IoPending # _ \<Rightarrow> Some (progress, w1\<lparr>pending := True\<rparr>, p1)
              | IoError # _ \<Rightarrow> Some (ServiceError, w1, p1)
              | IoDone actual data # rest \<Rightarrow> do {
                  p2 \<leftarrow> completeIo kind actual data w1 p1;
                  serviceLoop kind rest Progress (w1\<lparr>currentIoSize := 0\<rparr>) p2
                }))
   }"

declare serviceLoop.simps [simp del]

definition service :: "WorkerKind \<Rightarrow> 'b IoAnswer \<Rightarrow> 'b IoAnswer list \<Rightarrow> 'b IoWorker \<Rightarrow> 'b Pipe \<Rightarrow>
    (ServiceResult \<times> 'b IoWorker \<times> 'b Pipe) option" where
  "service kind overlapped answers w p =
     (if pending w then
        (case overlapped of
           IoPending \<Rightarrow> Some (NoProgress, w, p)
         | IoError \<Rightarrow> Some (ServiceError, w, p)
         | IoDone actual data \<Rightarrow> do {
             p1 \<leftarrow> completeIo kind actual data (w\<lparr>pending := False\<rparr>) p;
             serviceLoop kind answers Progress (w\<lparr>pending := False, currentIoSize := 0\<rparr>) p1
           })
      else serviceLoop kind answers NoProgress w p)"

section \<open>Opening, servicing and closing\<close>

definition startPipeWorkers :: "'b Pipe \<Rightarrow> 'b Pipe" where
  "startPipeWorkers p =
     (let p1 = (if hasMode (openMode p) Reading then p\<lparr>inputWorker := Some newWorker\<rparr> else p)
      in if hasMode (openMode p1) Writing then p1\<lparr>outputWorker := Some newWorker\<rparr> else p1)"

datatype ConnectAnswer = Connected | ConnectPending | ConnectFailed

definition openServerPipe :: "bool \<Rightarrow> bool \<Rightarrow> ConnectAnswer \<Rightarrow> wstring \<Rightarrow> OpenMode \<Rightarrow> 'b Pipe \<Rightarrow>
    'b Pipe option" where
  "openServerPipe descriptorOk createOk connect name mode p = do {
     ASSERT (isClosed p);
     ASSERT (hasMode mode Duplex);
     ASSERT descriptorOk;
     ASSERT createOk;
     let p1 = p\<lparr>pipeName := name, handleOpen := True, openMode := mode, connecting := True\<rparr>;
     (case connect of
        Connected \<Rightarrow> Some (startPipeWorkers (p1\<lparr>connecting := False\<rparr>))
      | ConnectPending \<Rightarrow> Some p1
      | ConnectFailed \<Rightarrow> None)
   }"

definition connectToServer :: "bool \<Rightarrow> wstring \<Rightarrow> OpenMode \<Rightarrow> 'b Pipe \<Rightarrow> 'b Pipe option" where
  "connectToServer openOk name mode p = do {
     ASSERT (isClosed p);
     ASSERT (hasMode mode Duplex);
     ASSERT openOk;
     Some (startPipeWorkers (p\<lparr>pipeName := name, handleOpen := True, openMode := mode\<rparr>))
   }"

definition closePipe :: "'b Pipe \<Rightarrow> 'b Pipe" where
  "closePipe p =
     (if \<not> handleOpen p then p
      else p\<lparr>connecting := False, inputWorker := None, outputWorker := None, handleOpen := False\<rparr>)"

text \<open>What Windows answers during one \<open>serviceIo\<close>.\<close>

record 'b ServiceAnswers =
  connectAnswer :: ConnectAnswer
  readOverlapped :: "'b IoAnswer"
  readAnswers :: "'b IoAnswer list"
  writeOverlapped :: "'b IoAnswer"
  writeAnswers :: "'b IoAnswer list"

datatype WaitEvent = ConnectEvent | InputEvent | OutputEvent

definition serviceOne :: "WorkerKind \<Rightarrow> 'b IoAnswer \<Rightarrow> 'b IoAnswer list \<Rightarrow> 'b IoWorker option \<Rightarrow>
    'b Pipe \<Rightarrow> (ServiceResult \<times> 'b IoWorker option \<times> 'b Pipe) option" where
  "serviceOne kind overlapped answers worker p = (case worker of
      None \<Rightarrow> Some (NoProgress, None, p)
    | Some w \<Rightarrow> do {
        (r, w', p') \<leftarrow> service kind overlapped answers w p;
        Some (r, Some w', p')
      })"

definition waitEventOf :: "WaitEvent \<Rightarrow> 'b IoWorker option \<Rightarrow> WaitEvent list" where
  "waitEventOf e worker = (case worker of
      Some w \<Rightarrow> if pending w then [e] else []
    | None \<Rightarrow> [])"

definition connectStage :: "'b ServiceAnswers \<Rightarrow> 'b Pipe \<Rightarrow> (bool \<times> WaitEvent list \<times> 'b Pipe) option" where
  "connectStage ans p =
     (if connecting p then
        (case connectAnswer ans of
           Connected \<Rightarrow> Some (True, [], startPipeWorkers (p\<lparr>connecting := False\<rparr>))
         | ConnectPending \<Rightarrow> Some (False, [ConnectEvent], p)
         | ConnectFailed \<Rightarrow> None)
      else Some (False, [], p))"

definition serviceIo :: "'b ServiceAnswers \<Rightarrow> 'b Pipe \<Rightarrow> (bool \<times> WaitEvent list \<times> 'b Pipe) option" where
  "serviceIo ans p =
     (if \<not> handleOpen p then Some (False, [], p)
      else do {
        (justConnected, waits, p1) \<leftarrow> connectStage ans p;
        (readProgress, iw, p2) \<leftarrow>
          serviceOne InputWorker (readOverlapped ans) (readAnswers ans) (inputWorker p1) p1;
        (writeProgress, ow, p3) \<leftarrow>
          serviceOne OutputWorker (writeOverlapped ans) (writeAnswers ans) (outputWorker p2) p2;
        let p4 = p3\<lparr>inputWorker := iw, outputWorker := ow\<rparr>;
        if readProgress = ServiceError \<or> writeProgress = ServiceError
        then Some (True, waits, closePipe p4)
        else Some (justConnected \<or> readProgress = Progress \<or> writeProgress = Progress,
                   waits @ waitEventOf InputEvent iw @ waitEventOf OutputEvent ow, p4)
      })"

section \<open>Queues\<close>

definition bytesToSend :: "'b Pipe \<Rightarrow> nat option" where
  "bytesToSend p = do {
     ASSERT (hasMode (openMode p) Writing);
     Some (length (outQueue p) + (case outputWorker p of
             Some w \<Rightarrow> if pending w then currentIoSize w else 0
           | None \<Rightarrow> 0))
   }"

definition pipeWrite :: "'b list \<Rightarrow> 'b Pipe \<Rightarrow> 'b Pipe option" where
  "pipeWrite data p = do {
     ASSERT (hasMode (openMode p) Writing);
     Some (p\<lparr>outQueue := outQueue p @ data\<rparr>)
   }"

definition readBufferSize :: "'b Pipe \<Rightarrow> nat option" where
  "readBufferSize p = do { ASSERT (hasMode (openMode p) Reading); Some (readBufSize p) }"

definition setReadBufferSize :: "nat \<Rightarrow> 'b Pipe \<Rightarrow> 'b Pipe option" where
  "setReadBufferSize amount p = do {
     ASSERT (hasMode (openMode p) Reading);
     Some (p\<lparr>readBufSize := amount\<rparr>)
   }"

definition bytesAvailable :: "'b Pipe \<Rightarrow> nat option" where
  "bytesAvailable p = do { ASSERT (hasMode (openMode p) Reading); Some (length (inQueue p)) }"

definition pipePeek :: "nat \<Rightarrow> 'b Pipe \<Rightarrow> 'b list option" where
  "pipePeek amount p = do {
     ASSERT (hasMode (openMode p) Reading);
     let ret = min amount (length (inQueue p));
     Some (take ret (inQueue p))
   }"

definition pipeRead :: "nat \<Rightarrow> 'b Pipe \<Rightarrow> ('b list \<times> 'b Pipe) option" where
  "pipeRead amount p = do {
     data \<leftarrow> pipePeek amount p;
     Some (data, p\<lparr>inQueue := drop (length data) (inQueue p)\<rparr>)
   }"

definition readToString :: "nat \<Rightarrow> 'b Pipe \<Rightarrow> ('b list \<times> 'b Pipe) option" where
  "readToString amount p = do {
     ASSERT (hasMode (openMode p) Reading);
     let retSize = min amount (length (inQueue p));
     Some (take retSize (inQueue p), p\<lparr>inQueue := drop retSize (inQueue p)\<rparr>)
   }"

definition readAllToString :: "'b Pipe \<Rightarrow> ('b list \<times> 'b Pipe) option" where
  "readAllToString p = do {
     ASSERT (hasMode (openMode p) Reading);
     Some (inQueue p, p\<lparr>inQueue := []\<rparr>)
   }"

section \<open>What the workers do\<close>

definition inFlight :: "'b IoWorker option \<Rightarrow> 'b list" where
  "inFlight worker = (case worker of
      Some w \<Rightarrow> if pending w then ioBuffer w else []
    | None \<Rightarrow> [])"

text \<open>Everything that was written to the pipe: delivered, with Windows, or queued.\<close>

definition outStream :: "'b Pipe \<Rightarrow> 'b list" where
  "outStream p = delivered p @ inFlight (outputWorker p) @ outQueue p"

lemma writeSize_narrow: "isNarrowable DWORD_range (int (min n kIoSize))"
  by (simp add: kIoSize_def)

lemma serviceLoop_output:
  assumes "serviceLoop OutputWorker answers progress w p = Some (r, w', p')" and "\<not> pending w"
  shows "p' = p\<lparr>outQueue := outQueue p', delivered := delivered p'\<rparr> \<and>
     (r \<noteq> ServiceError \<longrightarrow>
        delivered p' @ inFlight (Some w') @ outQueue p' = delivered p @ outQueue p \<and>
        (\<not> pending w' \<longrightarrow> outQueue p' = [])) \<and>
     (\<exists>rest. delivered p' @ rest = delivered p @ outQueue p) \<and>
     (pending w' \<longrightarrow> currentIoSize w' = length (ioBuffer w') \<and> ioBuffer w' \<noteq> [])"
  using assms
proof (induction OutputWorker answers progress w p rule: serviceLoop.induct)
  case (1 answers progress w p)
  show ?case
  proof (cases "outQueue p = []")
    case True
    then show ?thesis using 1(2, 3) by (subst (asm) serviceLoop.simps) (simp add: inFlight_def)
  next
    case False
    let ?n = "min (length (outQueue p)) kIoSize"
    let ?buf = "take ?n (outQueue p)"
    let ?w1 = "w\<lparr>currentIoSize := ?n, ioBuffer := ?buf\<rparr>"
    let ?p1 = "p\<lparr>outQueue := drop ?n (outQueue p)\<rparr>"
    have n: "0 < ?n" using False by (simp add: kIoSize_def)
    have issue: "shouldIssueIo OutputWorker p = Some (Some (?n, ?buf, ?p1))"
      using False by (simp add: checkedNarrow_eq kIoSize_def)
    have buf: "length ?buf = ?n" "?buf \<noteq> []" using n by auto
    show ?thesis
    proof (cases answers)
      case Nil
      then have "r = progress" "w' = ?w1\<lparr>pending := True\<rparr>" "p' = ?p1"
        using 1(2) issue by (subst (asm) serviceLoop.simps, simp)+
      then show ?thesis using buf by (simp add: inFlight_def)
    next
      case (Cons a rest)
      show ?thesis
      proof (cases a)
        case IoPending
        then have "r = progress" "w' = ?w1\<lparr>pending := True\<rparr>" "p' = ?p1"
          using 1(2) issue Cons by (subst (asm) serviceLoop.simps, simp)+
        then show ?thesis using buf by (simp add: inFlight_def)
      next
        case IoError
        then have "r = ServiceError" "w' = ?w1" "p' = ?p1"
          using 1(2) issue Cons by (subst (asm) serviceLoop.simps, simp)+
        then show ?thesis using 1(3) by simp
      next
        case (IoDone actual data)
        let ?p2 = "?p1\<lparr>delivered := delivered p @ ?buf\<rparr>"
        have step: "completeIo OutputWorker actual data ?w1 ?p1 = Some ?p2"
            "serviceLoop OutputWorker rest Progress (?w1\<lparr>currentIoSize := 0\<rparr>) ?p2 = Some (r, w', p')"
          using 1(2) issue Cons IoDone
          by (subst (asm) serviceLoop.simps, auto simp: ASSERT_bind_Some)+
        have "\<not> pending (?w1\<lparr>currentIoSize := 0\<rparr>)" using 1(3) by simp
        from 1(1) [OF issue refl refl refl refl Cons IoDone step(1) step(2) this]
        show ?thesis by auto
      qed
    qed
  qed
qed

text \<open>Windows never returns more bytes than the buffer of a worker holds.\<close>

definition fitsBuffer :: "'b IoAnswer list \<Rightarrow> bool" where
  "fitsBuffer answers \<longleftrightarrow> (\<forall>n d. IoDone n d \<in> set answers \<longrightarrow> n \<le> kIoSize)"

lemma serviceLoop_input:
  assumes "serviceLoop InputWorker answers progress w p = Some (r, w', p')" and "\<not> pending w"
  shows "(\<exists>got. p' = p\<lparr>inQueue := inQueue p @ got\<rparr>) \<and>
     (pending w' \<longrightarrow> length (inQueue p') < readBufSize p) \<and>
     (r \<noteq> ServiceError \<and> \<not> pending w' \<longrightarrow> isClosed p \<or> readBufSize p \<le> length (inQueue p')) \<and>
     (fitsBuffer answers \<and> length (inQueue p) < readBufSize p + kIoSize \<longrightarrow>
        length (inQueue p') < readBufSize p + kIoSize)"
  using assms
proof (induction InputWorker answers progress w p rule: serviceLoop.induct)
  case (1 answers progress w p)
  have run: "serviceLoop InputWorker answers progress w p = Some (r, w', p')" by (rule 1(2))
  have open_: "\<not> isConnecting p"
    using run by (subst (asm) serviceLoop.simps) (auto simp: ASSERT_bind_Some split: option.splits bind_splits)
  show ?case
  proof (cases "isClosed p \<or> readBufSize p \<le> length (inQueue p)")
    case True
    then have "shouldIssueIo InputWorker p = Some None" using open_ by auto
    then have "r = progress" "w' = w" "p' = p"
      using run by (subst (asm) serviceLoop.simps, simp)+
    then show ?thesis using 1(3) True by (auto intro: exI [of _ "[]"])
  next
    case False
    let ?w1 = "w\<lparr>currentIoSize := kIoSize, ioBuffer := []\<rparr>"
    have issue: "shouldIssueIo InputWorker p = Some (Some (kIoSize, [], p))"
      using False open_ by auto
    have stop: "answers = [] \<or> (\<exists>as. answers = IoPending # as) \<Longrightarrow> w' = ?w1\<lparr>pending := True\<rparr> \<and> p' = p"
      "\<exists>as. answers = IoError # as \<Longrightarrow> r = ServiceError \<and> w' = ?w1 \<and> p' = p"
      using run issue by (subst (asm) serviceLoop.simps, auto)+
    have same: "\<exists>got. p = p\<lparr>inQueue := inQueue p @ got\<rparr>" by (rule exI [of _ "[]"]) simp
    consider "answers = [] \<or> (\<exists>as. answers = IoPending # as)" | "\<exists>as. answers = IoError # as"
      | actual data as where "answers = IoDone actual data # as"
      by (metis IoAnswer.exhaust list.exhaust)
    then show ?thesis
    proof cases
      case 1
      then show ?thesis using stop(1) same False by auto
    next
      case 2
      then show ?thesis using stop(2) same \<open>\<not> pending w\<close> by auto
    next
      case 3
      let ?p2 = "p\<lparr>inQueue := inQueue p @ take actual data\<rparr>"
      have step: "completeIo InputWorker actual data ?w1 p = Some ?p2" by simp
      have more: "serviceLoop InputWorker as Progress (?w1\<lparr>currentIoSize := 0\<rparr>) ?p2 = Some (r, w', p')"
        using run 3 False open_ by (subst (asm) serviceLoop.simps) (simp add: ASSERT_def)
      have "\<not> pending (?w1\<lparr>currentIoSize := 0\<rparr>)" using \<open>\<not> pending w\<close> by simp
      note IH = 1(1) [OF issue refl refl refl refl 3 refl step more this]
      obtain got where got: "p' = ?p2\<lparr>inQueue := inQueue ?p2 @ got\<rparr>" using IH by blast
      have "\<exists>got. p' = p\<lparr>inQueue := inQueue p @ got\<rparr>"
        using got by (intro exI [of _ "take actual data @ got"]) simp
      moreover have "fitsBuffer answers \<Longrightarrow> fitsBuffer as \<and> length (inQueue ?p2) < readBufSize p + kIoSize"
      proof
        assume fits: "fitsBuffer answers"
        then show "fitsBuffer as" using 3 by (auto simp: fitsBuffer_def)
        have "actual \<le> kIoSize" using fits 3 by (auto simp: fitsBuffer_def)
        then show "length (inQueue ?p2) < readBufSize p + kIoSize"
          using False by (simp add: min_def)
      qed
      ultimately show ?thesis using IH by (auto simp: isClosed_def)
    qed
  qed
qed

definition workerOk :: "'b IoWorker \<Rightarrow> bool" where
  "workerOk w \<longleftrightarrow> (pending w \<longrightarrow> currentIoSize w = length (ioBuffer w) \<and> ioBuffer w \<noteq> [])"

lemma inFlight_simps [simp]:
  "inFlight None = []"
  "pending w \<Longrightarrow> inFlight (Some w) = ioBuffer w"
  "\<not> pending w \<Longrightarrow> inFlight (Some w) = []"
  by (simp_all add: inFlight_def)

lemma service_output:
  assumes "service OutputWorker ov answers w p = Some (r, w', p')" and "workerOk w"
  shows "p' = p\<lparr>outQueue := outQueue p', delivered := delivered p'\<rparr> \<and> workerOk w' \<and>
     (r \<noteq> ServiceError \<longrightarrow>
        delivered p' @ inFlight (Some w') @ outQueue p' = delivered p @ inFlight (Some w) @ outQueue p \<and>
        (\<not> pending w' \<longrightarrow> outQueue p' = [])) \<and>
     (\<exists>rest. delivered p' @ rest = delivered p @ inFlight (Some w) @ outQueue p)"
proof (cases "pending w")
  case False
  then show ?thesis
    using serviceLoop_output [of answers NoProgress w p r w' p'] assms
    by (simp add: service_def workerOk_def)
next
  case True
  show ?thesis
  proof (cases ov)
    case IoPending
    then have "r = NoProgress" "w' = w" "p' = p" using assms(1) True by (simp_all add: service_def)
    then show ?thesis using assms(2) True by simp
  next
    case IoError
    then have "r = ServiceError" "w' = w" "p' = p" using assms(1) True by (simp_all add: service_def)
    then show ?thesis using assms(2) by simp
  next
    case (IoDone actual data)
    let ?p1 = "p\<lparr>delivered := delivered p @ ioBuffer w\<rparr>"
    have "serviceLoop OutputWorker answers Progress (w\<lparr>pending := False, currentIoSize := 0\<rparr>) ?p1 =
        Some (r, w', p')"
      using assms(1) True IoDone by (simp add: service_def ASSERT_bind_Some)
    from serviceLoop_output [OF this] show ?thesis using True by (auto simp: workerOk_def)
  qed
qed

lemma service_input:
  assumes "service InputWorker ov answers w p = Some (r, w', p')"
    and "pending w \<longrightarrow> length (inQueue p) < readBufSize p"
  shows "(\<exists>got. p' = p\<lparr>inQueue := inQueue p @ got\<rparr>) \<and>
     (pending w' \<longrightarrow> length (inQueue p') < readBufSize p) \<and>
     (r \<noteq> ServiceError \<and> \<not> pending w' \<longrightarrow> isClosed p \<or> readBufSize p \<le> length (inQueue p')) \<and>
     (fitsBuffer (ov # answers) \<and> length (inQueue p) < readBufSize p + kIoSize \<longrightarrow>
        length (inQueue p') < readBufSize p + kIoSize)"
proof (cases "pending w")
  case False
  then have "serviceLoop InputWorker answers NoProgress w p = Some (r, w', p')"
    using assms(1) by (simp add: service_def)
  from serviceLoop_input [OF this False] show ?thesis by (auto simp: fitsBuffer_def)
next
  case True
  have same: "\<exists>got. p = p\<lparr>inQueue := inQueue p @ got\<rparr>" by (rule exI [of _ "[]"]) simp
  show ?thesis
  proof (cases ov)
    case IoPending
    then have "w' = w" "p' = p" using assms(1) True by (simp_all add: service_def)
    then show ?thesis using assms(2) True same by simp
  next
    case IoError
    then have "r = ServiceError" "w' = w" "p' = p" using assms(1) True by (simp_all add: service_def)
    then show ?thesis using assms(2) same by simp
  next
    case (IoDone actual data)
    let ?p1 = "p\<lparr>inQueue := inQueue p @ take actual data\<rparr>"
    have run: "serviceLoop InputWorker answers Progress (w\<lparr>pending := False, currentIoSize := 0\<rparr>) ?p1 =
        Some (r, w', p')"
      using assms(1) True IoDone by (simp add: service_def)
    note L = serviceLoop_input [OF run, simplified]
    obtain got where "p' = ?p1\<lparr>inQueue := inQueue ?p1 @ got\<rparr>" using L by auto
    then have "\<exists>got. p' = p\<lparr>inQueue := inQueue p @ got\<rparr>"
      by (intro exI [of _ "take actual data @ got"]) simp
    moreover have "fitsBuffer answers \<and> length (inQueue ?p1) < readBufSize p + kIoSize"
      if "fitsBuffer (ov # answers)"
    proof -
      have "actual \<le> kIoSize" using that IoDone by (auto simp: fitsBuffer_def)
      then show ?thesis using that assms(2) True by (auto simp: fitsBuffer_def)
    qed
    ultimately show ?thesis using L by (auto simp: isClosed_def)
  qed
qed

section \<open>The invariant of a pipe\<close>

definition pipeInv :: "'b Pipe \<Rightarrow> bool" where
  "pipeInv p \<longleftrightarrow>
     (inputWorker p \<noteq> None \<longleftrightarrow> handleOpen p \<and> \<not> connecting p \<and> hasMode (openMode p) Reading) \<and>
     (outputWorker p \<noteq> None \<longleftrightarrow> handleOpen p \<and> \<not> connecting p \<and> hasMode (openMode p) Writing) \<and>
     (connecting p \<longrightarrow> handleOpen p) \<and>
     (\<forall>w. inputWorker p = Some w \<and> pending w \<longrightarrow> length (inQueue p) < readBufSize p) \<and>
     (\<forall>w. outputWorker p = Some w \<longrightarrow> workerOk w) \<and>
     length (inQueue p) < readBufSize p + kIoSize"

lemma newWorker_simps [simp]: "\<not> pending newWorker" "workerOk newWorker"
  by (simp_all add: newWorker_def workerOk_def)

lemma startPipeWorkers_simps [simp]:
  "inputWorker (startPipeWorkers p) =
     (if hasMode (openMode p) Reading then Some newWorker else inputWorker p)"
  "outputWorker (startPipeWorkers p) =
     (if hasMode (openMode p) Writing then Some newWorker else outputWorker p)"
  "handleOpen (startPipeWorkers p) = handleOpen p" "connecting (startPipeWorkers p) = connecting p"
  "openMode (startPipeWorkers p) = openMode p" "inQueue (startPipeWorkers p) = inQueue p"
  "outQueue (startPipeWorkers p) = outQueue p" "readBufSize (startPipeWorkers p) = readBufSize p"
  "delivered (startPipeWorkers p) = delivered p"
  by (simp_all add: startPipeWorkers_def Let_def)

lemma pipeInv_new [simp]: "pipeInv newPipe"
  by (simp add: pipeInv_def newPipe_def)

lemma pipeInv_close: "pipeInv p \<Longrightarrow> pipeInv (closePipe p)"
  by (auto simp: pipeInv_def closePipe_def)

lemma pipeInv_start:
  assumes "handleOpen p" and "\<not> connecting p" and "inputWorker p = None" and "outputWorker p = None"
    and "length (inQueue p) < readBufSize p + kIoSize"
  shows "pipeInv (startPipeWorkers p)"
  using assms by (auto simp: pipeInv_def split: if_split_asm)

lemma pipeInv_closed:
  "pipeInv p \<Longrightarrow> isClosed p \<Longrightarrow> \<not> connecting p \<and> inputWorker p = None \<and> outputWorker p = None \<and>
     length (inQueue p) < readBufSize p + kIoSize"
  by (auto simp: pipeInv_def isClosed_def)

lemma pipeInv_openServer:
  assumes "pipeInv p" and "openServerPipe d c a name mode p = Some p'"
  shows "pipeInv p'"
proof -
  have "isClosed p" using assms(2) by (auto simp: openServerPipe_def ASSERT_bind_Some)
  note closed = pipeInv_closed [OF assms(1) this]
  show ?thesis
  proof (cases a)
    case Connected
    then show ?thesis
      using assms(2) closed
      by (auto simp: openServerPipe_def ASSERT_bind_Some Let_def intro: pipeInv_start)
  next
    case ConnectPending
    then show ?thesis
      using assms(2) closed by (auto simp: openServerPipe_def ASSERT_bind_Some Let_def pipeInv_def)
  qed (use assms(2) in \<open>auto simp: openServerPipe_def ASSERT_bind_Some Let_def\<close>)
qed

lemma pipeInv_connect:
  assumes "pipeInv p" and "connectToServer ok name mode p = Some p'"
  shows "pipeInv p'"
  using assms pipeInv_closed [OF assms(1)]
  by (auto simp: connectToServer_def ASSERT_bind_Some intro!: pipeInv_start)

lemma pipeInv_write: "pipeInv p \<Longrightarrow> pipeWrite x p = Some p' \<Longrightarrow> pipeInv p'"
  by (auto simp: pipeInv_def pipeWrite_def ASSERT_bind_Some)

lemma pipeInv_dropIn: "pipeInv p \<Longrightarrow> pipeInv (p\<lparr>inQueue := drop n (inQueue p)\<rparr>)"
  by (auto simp: pipeInv_def intro: order_le_less_trans [OF diff_le_self])

lemma pipeRead_eq:
  "pipeRead n p = Some (x, p') \<longleftrightarrow> hasMode (openMode p) Reading \<and> x = take n (inQueue p) \<and>
     p' = p\<lparr>inQueue := drop (length (take n (inQueue p))) (inQueue p)\<rparr>"
  by (auto simp: pipeRead_def pipePeek_def ASSERT_bind_Some bind_eq_Some min_def)

lemma readToString_eq:
  "readToString n p = Some (x, p') \<longleftrightarrow> hasMode (openMode p) Reading \<and> x = take n (inQueue p) \<and>
     p' = p\<lparr>inQueue := drop (length (take n (inQueue p))) (inQueue p)\<rparr>"
  by (auto simp: readToString_def ASSERT_bind_Some min_def)

lemma readAllToString_eq:
  "readAllToString p = Some (x, p') \<longleftrightarrow> hasMode (openMode p) Reading \<and> x = inQueue p \<and>
     p' = p\<lparr>inQueue := drop (length (inQueue p)) (inQueue p)\<rparr>"
  by (auto simp: readAllToString_def ASSERT_bind_Some)

lemma pipeInv_read:
  "pipeInv p \<Longrightarrow> pipeRead n p = Some (x, p') \<Longrightarrow> pipeInv p'"
  "pipeInv p \<Longrightarrow> readToString n p = Some (x, p') \<Longrightarrow> pipeInv p'"
  "pipeInv p \<Longrightarrow> readAllToString p = Some (x, p') \<Longrightarrow> pipeInv p'"
  by (auto simp only: pipeRead_eq readToString_eq readAllToString_eq intro: pipeInv_dropIn)

lemma pipeInv_grow:
  "pipeInv p \<Longrightarrow> setReadBufferSize n p = Some p' \<Longrightarrow> readBufSize p \<le> n \<Longrightarrow> pipeInv p'"
  by (auto simp: pipeInv_def setReadBufferSize_def ASSERT_bind_Some)

section \<open>One round of service\<close>

definition answersFit :: "'b ServiceAnswers \<Rightarrow> bool" where
  "answersFit ans \<longleftrightarrow> fitsBuffer (readOverlapped ans # readAnswers ans)"

lemma serviceOne_input:
  assumes "serviceOne InputWorker ov answers (inputWorker p) p = Some (r, iw, p')"
    and "pipeInv p" and "fitsBuffer (ov # answers)"
  shows "(\<exists>got. p' = p\<lparr>inQueue := inQueue p @ got\<rparr>) \<and> (iw = None \<longleftrightarrow> inputWorker p = None) \<and>
     (\<forall>w. iw = Some w \<and> pending w \<longrightarrow> length (inQueue p') < readBufSize p) \<and>
     (r \<noteq> ServiceError \<longrightarrow> (\<forall>w. iw = Some w \<and> \<not> pending w \<longrightarrow> readBufSize p \<le> length (inQueue p'))) \<and>
     length (inQueue p') < readBufSize p + kIoSize"
proof (cases "inputWorker p")
  case None
  then have "iw = None" "p' = p" using assms(1) by (simp_all add: serviceOne_def)
  then show ?thesis using None assms(2) by (auto simp: pipeInv_def intro: exI [of _ "[]"])
next
  case (Some w)
  then obtain w' where run: "service InputWorker ov answers w p = Some (r, w', p')" "iw = Some w'"
    using assms(1) by (auto simp: serviceOne_def bind_eq_Some)
  have inv: "pending w \<longrightarrow> length (inQueue p) < readBufSize p" "\<not> isClosed p"
      "length (inQueue p) < readBufSize p + kIoSize"
    using assms(2) Some by (auto simp: pipeInv_def isClosed_def)
  show ?thesis
    using service_input [OF run(1) inv(1)] inv run(2) Some assms(3) by auto
qed

lemma serviceOne_output:
  assumes "serviceOne OutputWorker ov answers (outputWorker p) p = Some (r, ow, p')"
    and "\<forall>w. outputWorker p = Some w \<longrightarrow> workerOk w"
  shows "p' = p\<lparr>outQueue := outQueue p', delivered := delivered p'\<rparr> \<and>
     (ow = None \<longleftrightarrow> outputWorker p = None) \<and> (\<forall>w. ow = Some w \<longrightarrow> workerOk w) \<and>
     (r \<noteq> ServiceError \<longrightarrow> delivered p' @ inFlight ow @ outQueue p' = outStream p \<and>
        (\<forall>w. ow = Some w \<and> \<not> pending w \<longrightarrow> outQueue p' = [])) \<and>
     (\<exists>rest. delivered p' @ rest = outStream p)"
proof (cases "outputWorker p")
  case None
  then have "ow = None" "p' = p" using assms(1) by (simp_all add: serviceOne_def)
  then show ?thesis using None by (simp add: outStream_def)
next
  case (Some w)
  then obtain w' where run: "service OutputWorker ov answers w p = Some (r, w', p')" "ow = Some w'"
    using assms(1) by (auto simp: serviceOne_def bind_eq_Some)
  show ?thesis
    using service_output [OF run(1)] run(2) Some assms(2) by (simp add: outStream_def)
qed

text \<open>A pipe waits for an event whenever there is something left to do.\<close>

definition waitsForWork :: "WaitEvent list \<Rightarrow> 'b Pipe \<Rightarrow> bool" where
  "waitsForWork waits p \<longleftrightarrow>
     (if connecting p then ConnectEvent \<in> set waits
      else (hasMode (openMode p) Reading \<longrightarrow>
              InputEvent \<in> set waits \<or> readBufSize p \<le> length (inQueue p)) \<and>
           (hasMode (openMode p) Writing \<longrightarrow> OutputEvent \<in> set waits \<or> outQueue p = []))"

lemma connectStage_facts:
  assumes "connectStage ans p = Some (b, waits, p1)" and "pipeInv p" and "handleOpen p"
  shows "pipeInv p1" "outStream p1 = outStream p" "inQueue p1 = inQueue p" "handleOpen p1"
    "connecting p1 \<longrightarrow> ConnectEvent \<in> set waits" "openMode p1 = openMode p" "readBufSize p1 = readBufSize p"
proof -
  have "pipeInv p1 \<and> outStream p1 = outStream p \<and> inQueue p1 = inQueue p \<and> handleOpen p1 \<and>
      (connecting p1 \<longrightarrow> ConnectEvent \<in> set waits) \<and> openMode p1 = openMode p \<and>
      readBufSize p1 = readBufSize p"
  proof (cases "connecting p")
    case False
    then show ?thesis using assms by (simp add: connectStage_def)
  next
    case True
    then have none: "inputWorker p = None" "outputWorker p = None"
        "length (inQueue p) < readBufSize p + kIoSize"
      using assms(2) by (auto simp: pipeInv_def)
    show ?thesis
    proof (cases "connectAnswer ans")
      case Connected
      then have "p1 = startPipeWorkers (p\<lparr>connecting := False\<rparr>)"
        using assms(1) True by (simp add: connectStage_def)
      moreover have "pipeInv (startPipeWorkers (p\<lparr>connecting := False\<rparr>))"
        using none assms(3) by (intro pipeInv_start) simp_all
      ultimately show ?thesis using none assms(3) by (simp add: outStream_def)
    qed (use assms True in \<open>auto simp: connectStage_def\<close>)
  qed
  then show "pipeInv p1" "outStream p1 = outStream p" "inQueue p1 = inQueue p" "handleOpen p1"
    "connecting p1 \<longrightarrow> ConnectEvent \<in> set waits" "openMode p1 = openMode p" "readBufSize p1 = readBufSize p"
    by simp_all
qed

lemma serviceIo_result:
  assumes "serviceIo ans p = Some (did, waits, p')" and "pipeInv p" and "answersFit ans"
  shows "pipeInv p' \<and> openMode p' = openMode p \<and> readBufSize p' = readBufSize p \<and>
     (\<exists>got. inQueue p' = inQueue p @ got) \<and>
     (\<exists>rest. delivered p' @ rest = outStream p) \<and>
     (handleOpen p' \<longrightarrow> outStream p' = outStream p \<and> waitsForWork waits p')"
proof (cases "handleOpen p")
  case False
  then have "p' = p" using assms(1) by (simp add: serviceIo_def)
  then show ?thesis using assms(2) False by (simp add: outStream_def)
next
  case True
  obtain b waits1 p1 where c: "connectStage ans p = Some (b, waits1, p1)"
    and rest: "(do {
        (readProgress, iw, p2) \<leftarrow>
          serviceOne InputWorker (readOverlapped ans) (readAnswers ans) (inputWorker p1) p1;
        (writeProgress, ow, p3) \<leftarrow>
          serviceOne OutputWorker (writeOverlapped ans) (writeAnswers ans) (outputWorker p2) p2;
        let p4 = p3\<lparr>inputWorker := iw, outputWorker := ow\<rparr>;
        if readProgress = ServiceError \<or> writeProgress = ServiceError
        then Some (True, waits1, closePipe p4)
        else Some (b \<or> readProgress = Progress \<or> writeProgress = Progress,
                   waits1 @ waitEventOf InputEvent iw @ waitEventOf OutputEvent ow, p4)
      }) = Some (did, waits, p')"
    using assms(1) True by (auto simp: serviceIo_def bind_eq_Some)
  note cf = connectStage_facts [OF c assms(2) True]
  obtain r iw p2 where i: "serviceOne InputWorker (readOverlapped ans) (readAnswers ans) (inputWorker p1) p1 =
      Some (r, iw, p2)"
    using rest by (auto simp: bind_eq_Some)
  have I: "(\<exists>got. p2 = p1\<lparr>inQueue := inQueue p1 @ got\<rparr>)" "iw = None \<longleftrightarrow> inputWorker p1 = None"
     "\<forall>w. iw = Some w \<and> pending w \<longrightarrow> length (inQueue p2) < readBufSize p1"
     "r \<noteq> ServiceError \<longrightarrow> (\<forall>w. iw = Some w \<and> \<not> pending w \<longrightarrow> readBufSize p1 \<le> length (inQueue p2))"
     "length (inQueue p2) < readBufSize p1 + kIoSize"
    using serviceOne_input [OF i cf(1)] assms(3) by (simp_all add: answersFit_def)
  obtain got where got: "p2 = p1\<lparr>inQueue := inQueue p1 @ got\<rparr>" using I(1) by blast
  have out2: "outStream p2 = outStream p" using got cf(2) by (simp add: outStream_def)
  obtain wr ow p3 where o: "serviceOne OutputWorker (writeOverlapped ans) (writeAnswers ans)
      (outputWorker p2) p2 = Some (wr, ow, p3)"
    using rest i by (auto simp: bind_eq_Some)
  have "\<forall>w. outputWorker p2 = Some w \<longrightarrow> workerOk w" using got cf(1) by (auto simp: pipeInv_def)
  note O = serviceOne_output [OF o this]
  define p4 where "p4 = p3\<lparr>inputWorker := iw, outputWorker := ow\<rparr>"
  have p': "p' = (if r = ServiceError \<or> wr = ServiceError then closePipe p4 else p4)"
    and waits: "\<not> (r = ServiceError \<or> wr = ServiceError) \<Longrightarrow>
      waits = waits1 @ waitEventOf InputEvent iw @ waitEventOf OutputEvent ow"
    using rest i o by (auto simp: p4_def split: if_splits)
  have p3: "p3 = p2\<lparr>outQueue := outQueue p3, delivered := delivered p3\<rparr>" using O by blast
  have fields: "handleOpen p4" "connecting p4 = connecting p1" "openMode p4 = openMode p1"
      "readBufSize p4 = readBufSize p1" "inQueue p4 = inQueue p2" "inputWorker p4 = iw"
      "outputWorker p4 = ow" "delivered p4 = delivered p3" "outQueue p4 = outQueue p3"
    using p3 got cf(4) by (simp_all add: p4_def) (metis Pipe.select_convs Pipe.surjective Pipe.update_convs)+
  have inv4: "pipeInv p4"
    using cf(1, 4) I(2, 3, 5) O got fields by (auto simp: pipeInv_def)
  have out4: "\<exists>rest. delivered p4 @ rest = outStream p" using O out2 fields(8) by simp
  have in4: "\<exists>got. inQueue p4 = inQueue p @ got" using got cf(3) fields(5) by simp
  show ?thesis
  proof (cases "r = ServiceError \<or> wr = ServiceError")
    case True
    then have "p' = closePipe p4" using p' by simp
    then show ?thesis
      using pipeInv_close [OF inv4] out4 in4 fields cf(6, 7) by (simp add: closePipe_def)
  next
    case False
    then have "outStream p4 = outStream p" using O out2 fields by (simp add: outStream_def)
    moreover have "waitsForWork waits p4"
      using False I(2, 4) O waits fields inv4 cf(5)
      by (auto simp: waitsForWork_def waitEventOf_def pipeInv_def split: option.splits)
    ultimately show ?thesis using False p' inv4 out4 in4 fields cf(6, 7) by simp
  qed
qed

text \<open>
  One \<open>serviceIo\<close> of the event loop keeps the invariant of the pipe (in particular the
  input queue stays within the read buffer size and one more buffer), appends what was received
  to the input queue, delivers nothing out of order and, while the pipe stays open, loses
  nothing of what was written. No wakeup is lost: the pipe asks to be woken for the connection,
  for input unless its queue is full, and for output unless its queue is empty.
\<close>

lemma serviceIo_correct:
  assumes "serviceIo ans p = Some (did, waits, p')" and "pipeInv p" and "answersFit ans"
  shows "pipeInv p' \<and> (\<exists>got. inQueue p' = inQueue p @ got) \<and>
     (\<exists>rest. delivered p' @ rest = outStream p) \<and>
     (handleOpen p' \<longrightarrow> outStream p' = outStream p \<and> waitsForWork waits p')"
  using serviceIo_result [OF assms] by simp

definition exampleAnswers :: "char ServiceAnswers" where
  "exampleAnswers = \<lparr>connectAnswer = Connected, readOverlapped = IoPending,
     readAnswers = [IoDone 2 ''ab''], writeOverlapped = IoPending, writeAnswers = [IoDone 1 []]\<rparr>"

definition examplePipe :: "char Pipe" where
  "examplePipe = newPipe\<lparr>openMode := Duplex, handleOpen := True, connecting := True, outQueue := ''x''\<rparr>"

lemma examplePipe_ok: "pipeInv examplePipe" "answersFit exampleAnswers"
  by (simp_all add: pipeInv_def examplePipe_def newPipe_def kIoSize_def answersFit_def fitsBuffer_def
      exampleAnswers_def)

lemma exampleService:
  "\<exists>r. serviceIo exampleAnswers examplePipe = Some r"
  by (auto simp add: serviceIo_def connectStage_def exampleAnswers_def examplePipe_def newPipe_def
      serviceOne_def service_def serviceLoop.simps startPipeWorkers_def hasMode_def newWorker_def
      isConnecting_def isClosed_def kIoSize_def checkedNarrow_eq Let_def closePipe_def
      ASSERT_def)

section \<open>Nothing is lost\<close>

text \<open>
  What the agent relies on when it sends output through a channel: every event adds its input to
  the stream, deliveries are a prefix of the stream, and a dead channel stays dead and delivers
  nothing more. Then, over any run, what has been delivered is a prefix of what was sent, and
  while the channel lives nothing is missing from the stream.
\<close>

locale out_channel =
  fixes inv :: "'p \<Rightarrow> bool"
    and act :: "'e \<Rightarrow> 'p \<Rightarrow> 'p option"
    and input :: "'e \<Rightarrow> 'b list"
    and okEvent :: "'e \<Rightarrow> bool"
    and stream :: "'p \<Rightarrow> 'b list"
    and arrived :: "'p \<Rightarrow> 'b list"
    and alive :: "'p \<Rightarrow> bool"
  assumes act_inv: "inv p \<Longrightarrow> okEvent e \<Longrightarrow> act e p = Some p' \<Longrightarrow> inv p'"
    and act_stream: "inv p \<Longrightarrow> okEvent e \<Longrightarrow> act e p = Some p' \<Longrightarrow> alive p' \<Longrightarrow>
      stream p' = stream p @ input e"
    and act_arrived: "inv p \<Longrightarrow> okEvent e \<Longrightarrow> act e p = Some p' \<Longrightarrow>
      \<exists>rest. arrived p' @ rest = stream p @ input e"
    and act_dead: "inv p \<Longrightarrow> okEvent e \<Longrightarrow> act e p = Some p' \<Longrightarrow> \<not> alive p \<Longrightarrow>
      \<not> alive p' \<and> arrived p' = arrived p"
begin

lemma run_faithful:
  assumes "foreach act es p = Some p'" and "\<forall>e \<in> set es. okEvent e" and "inv p"
    and "alive p \<longrightarrow> stream p = h" and "\<exists>rest. arrived p @ rest = h"
  shows "inv p' \<and> (alive p' \<longrightarrow> stream p' = h @ concat (map input es)) \<and>
     (\<exists>rest. arrived p' @ rest = h @ concat (map input es))"
  using assms
proof (induction es arbitrary: p h)
  case (Cons e es)
  then obtain p1 where p1: "act e p = Some p1" "foreach act es p1 = Some p'"
    by (auto simp: bind_eq_Some)
  have ok: "okEvent e" "\<forall>e \<in> set es. okEvent e" using Cons.prems(2) by auto
  have inv1: "inv p1" by (rule act_inv [OF Cons.prems(3) ok(1) p1(1)])
  have dead: "\<not> alive p \<Longrightarrow> \<not> alive p1 \<and> arrived p1 = arrived p"
    by (rule act_dead [OF Cons.prems(3) ok(1) p1(1)])
  have s1: "alive p1 \<longrightarrow> stream p1 = h @ input e"
    using act_stream [OF Cons.prems(3) ok(1) p1(1)] Cons.prems(4) dead by blast
  have a1: "\<exists>rest. arrived p1 @ rest = h @ input e"
  proof (cases "alive p")
    case True
    then show ?thesis using act_arrived [OF Cons.prems(3) ok(1) p1(1)] Cons.prems(4) by simp
  next
    case False
    then obtain rest where "arrived p1 @ rest = h" using dead Cons.prems(5) by auto
    then have "arrived p1 @ (rest @ input e) = h @ input e" by simp
    then show ?thesis by blast
  qed
  show ?case using Cons.IH [OF p1(2) ok(2) inv1 s1 a1] by simp
qed simp

end

datatype 'b PipeEvent = EvWrite "'b list" | EvService "'b ServiceAnswers"

fun pipeEvent :: "'b PipeEvent \<Rightarrow> 'b Pipe \<Rightarrow> 'b Pipe option" where
  "pipeEvent (EvWrite x) p = pipeWrite x p"
| "pipeEvent (EvService ans) p = do { (_, _, p') \<leftarrow> serviceIo ans p; Some p' }"

fun eventInput :: "'b PipeEvent \<Rightarrow> 'b list" where
  "eventInput (EvWrite x) = x"
| "eventInput (EvService ans) = []"

fun eventOk :: "'b PipeEvent \<Rightarrow> bool" where
  "eventOk (EvWrite x) \<longleftrightarrow> True"
| "eventOk (EvService ans) \<longleftrightarrow> answersFit ans"

lemma pipeEvent_service:
  "pipeEvent (EvService ans) p = Some p' \<longleftrightarrow> (\<exists>did waits. serviceIo ans p = Some (did, waits, p'))"
  by (auto simp: bind_eq_Some)

interpretation pch: out_channel pipeInv pipeEvent eventInput eventOk outStream delivered handleOpen
proof unfold_locales
  fix p p' :: "'b Pipe" and e :: "'b PipeEvent"
  assume a: "pipeInv p" "eventOk e" "pipeEvent e p = Some p'"
  have "pipeInv p' \<and> (handleOpen p' \<longrightarrow> outStream p' = outStream p @ eventInput e) \<and>
      (\<exists>rest. delivered p' @ rest = outStream p @ eventInput e) \<and>
      (\<not> handleOpen p \<longrightarrow> \<not> handleOpen p' \<and> delivered p' = delivered p)"
  proof (cases e)
    case (EvWrite x)
    then have "p' = p\<lparr>outQueue := outQueue p @ x\<rparr>"
      using a(3) by (simp add: pipeWrite_def ASSERT_bind_Some)
    then show ?thesis using a EvWrite pipeInv_write [of p x p'] by (simp add: outStream_def)
  next
    case (EvService ans)
    then obtain did waits where s: "serviceIo ans p = Some (did, waits, p')"
      using a(3) by (auto simp: bind_eq_Some)
    have "\<not> handleOpen p \<Longrightarrow> p' = p" using s by (simp add: serviceIo_def)
    then show ?thesis using serviceIo_result [OF s a(1)] a(2) EvService by auto
  qed
  then show "pipeInv p'" "handleOpen p' \<Longrightarrow> outStream p' = outStream p @ eventInput e"
    "\<exists>rest. delivered p' @ rest = outStream p @ eventInput e"
    "\<not> handleOpen p \<Longrightarrow> \<not> handleOpen p' \<and> delivered p' = delivered p"
    by blast+
qed

lemma bytesToSend_eq:
  assumes "pipeInv p" and "hasMode (openMode p) Writing"
  shows "bytesToSend p = Some (length (inFlight (outputWorker p)) + length (outQueue p))"
  using assms by (auto simp: bytesToSend_def pipeInv_def workerOk_def inFlight_def split: option.splits)

text \<open>
  C14. Whatever is written to a fresh pipe and however Windows answers, the completed writes are
  a prefix of the bytes written, in order; and as long as the pipe is open, \<open>bytesToSend\<close>
  being 0 means that all of them have been delivered. (This is the test that the agent makes
  before it closes the output pipes.)
\<close>

theorem pipe_delivers_in_order:
  assumes "foreach pipeEvent es p = Some p'" and "\<forall>e \<in> set es. eventOk e" and "pipeInv p"
    and "outStream p = []"
  shows "(\<exists>rest. delivered p' @ rest = concat (map eventInput es)) \<and>
     (handleOpen p' \<and> bytesToSend p' = Some 0 \<longrightarrow> delivered p' = concat (map eventInput es))"
proof -
  have "delivered p = []" using assms(4) by (simp add: outStream_def)
  then have run: "pipeInv p' \<and> (handleOpen p' \<longrightarrow> outStream p' = [] @ concat (map eventInput es)) \<and>
     (\<exists>rest. delivered p' @ rest = [] @ concat (map eventInput es))"
    using assms by (intro pch.run_faithful) simp_all
  moreover have "delivered p' = outStream p'" if "bytesToSend p' = Some 0"
  proof -
    have "hasMode (openMode p') Writing" using that by (auto simp: bytesToSend_def ASSERT_bind_Some)
    then show ?thesis using bytesToSend_eq [of p'] run that by (simp add: outStream_def)
  qed
  ultimately show ?thesis by simp
qed

lemma exampleEvents:
  "\<exists>p'. foreach pipeEvent [EvWrite ''y'', EvService exampleAnswers]
     (examplePipe\<lparr>outQueue := []\<rparr>) = Some p'"
  by (simp add: pipeWrite_def serviceIo_def connectStage_def exampleAnswers_def examplePipe_def newPipe_def
      serviceOne_def service_def serviceLoop.simps startPipeWorkers_def hasMode_def newWorker_def
      isConnecting_def isClosed_def kIoSize_def checkedNarrow_eq Let_def closePipe_def
      ASSERT_def)

theorem pipe_delivers_in_order_witness:
  "\<exists>p'. foreach pipeEvent [EvWrite ''y'', EvService exampleAnswers] (examplePipe\<lparr>outQueue := []\<rparr>) = Some p' \<and>
     (\<exists>rest. delivered p' @ rest = concat (map eventInput [EvWrite ''y'', EvService exampleAnswers])) \<and>
     (handleOpen p' \<and> bytesToSend p' = Some 0 \<longrightarrow>
        delivered p' = concat (map eventInput [EvWrite ''y'', EvService exampleAnswers]))"
proof -
  obtain p' where "foreach pipeEvent [EvWrite ''y'', EvService exampleAnswers]
      (examplePipe\<lparr>outQueue := []\<rparr>) = Some p'"
    using exampleEvents by blast
  moreover from this have "(\<exists>rest. delivered p' @ rest = concat (map eventInput [EvWrite ''y'', EvService exampleAnswers])) \<and>
     (handleOpen p' \<and> bytesToSend p' = Some 0 \<longrightarrow>
        delivered p' = concat (map eventInput [EvWrite ''y'', EvService exampleAnswers]))"
    by (rule pipe_delivers_in_order)
      (simp_all add: examplePipe_ok pipeInv_def outStream_def examplePipe_def newPipe_def kIoSize_def)
  ultimately show ?thesis by blast
qed

end
