(* ===== verification/Console.thy ===== *)
theory Console
  imports WinTypes Geometry
begin

text \<open>
  The console window and its screen buffers (src/agent/Win32Console.cc, Win32ConsoleBuffer.cc).

  The console is shared with the programs that run in it, so what a query answers may change at
  any time: the environment answers every call as a function of the whole history of calls, the
  queries included. What a call does to the console is therefore never assumed here; only its
  place in the history is part of the model. A screen buffer is named by its handle.
\<close>

section \<open>Calls and answers\<close>

definition MAX_CONSOLE_WIDTH :: int where "MAX_CONSOLE_WIDTH = 2500"
definition MAX_CONSOLE_HEIGHT :: int where "MAX_CONSOLE_HEIGHT = 2000"

record ConsoleInfo =
  dwSize :: Coord
  srWindow :: SmallRect
  dwCursorPosition :: Coord

definition zeroInfo :: ConsoleInfo where
  "zeroInfo = \<lparr>dwSize = mkCoord 0 0, srWindow = emptyRect, dwCursorPosition = mkCoord 0 0\<rparr>"

datatype ConsoleCall =
    SysCommand int
  | CancelSelection
  | FillCharacters int u16 int Coord
  | FillAttributes int u16 int Coord
  | GetScreenInfo int
  | SetBufferSize int Coord
  | SetWindow int SmallRect
  | SetCursor int Coord
  | ReadCells int SmallRect
  | WriteCells int SmallRect "CHAR_INFO list"
  | SetTextAttributes int u16
  | GetLargestWindow int
  | GetCursorInfo
  | GetOutputCP
  | GetOutputMode int
  | SetFont int "u16 list" u32 int
  | GetFont int
  | GetTitle nat
  | SetTitle "u16 list"

text \<open>
  \<open>cellAt\<close> answers a read of a rectangle cell by cell; it is \<^term>\<open>None\<close> where the call leaves
  the buffer of the caller as it was (the call failed, or the cell is outside of the screen
  buffer). \<open>stackCells\<close> is what an uninitialised array of the given length happens to contain.
\<close>

record ConsoleEnv =
  screenInfo :: "ConsoleCall list \<Rightarrow> ConsoleInfo option"
  cellAt :: "ConsoleCall list \<Rightarrow> int \<Rightarrow> int \<Rightarrow> CHAR_INFO option"
  resizeSucceeds :: "ConsoleCall list \<Rightarrow> bool"
  largestWindow :: "ConsoleCall list \<Rightarrow> Coord"
  cursorVisible :: "ConsoleCall list \<Rightarrow> bool option"
  outputCodePage :: "ConsoleCall list \<Rightarrow> int"
  outputMode :: "ConsoleCall list \<Rightarrow> u32 option"
  fontIsSet :: "ConsoleCall list \<Rightarrow> bool"
  faceNameOf :: "ConsoleCall list \<Rightarrow> u16 list option"
  titleOf :: "ConsoleCall list \<Rightarrow> u16 list"
  stackCells :: "ConsoleCall list \<Rightarrow> nat \<Rightarrow> CHAR_INFO list"
  windows8OrGreater :: bool

section \<open>The console window\<close>

record ConsoleState =
  history :: "ConsoleCall list"
  m_frozen :: bool
  m_freezeUsesMark :: bool
  m_isNewW10 :: bool
  m_titleWorkBuf :: nat

definition newConsole :: ConsoleState where
  "newConsole = \<lparr>history = [], m_frozen = False, m_freezeUsesMark = False, m_isNewW10 = False,
     m_titleWorkBuf = 16\<rparr>"

definition callConsole :: "ConsoleCall \<Rightarrow> ConsoleState \<Rightarrow> ConsoleState" where
  "callConsole c con = con\<lparr>history := history con @ [c]\<rparr>"

definition SC_CONSOLE_MARK :: int where "SC_CONSOLE_MARK = 0xFFF2"
definition SC_CONSOLE_SELECT_ALL :: int where "SC_CONSOLE_SELECT_ALL = 0xFFF5"

definition setFreezeUsesMark :: "bool \<Rightarrow> ConsoleState \<Rightarrow> ConsoleState" where
  "setFreezeUsesMark useMark con = con\<lparr>m_freezeUsesMark := useMark\<rparr>"

definition setNewW10 :: "bool \<Rightarrow> ConsoleState \<Rightarrow> ConsoleState" where
  "setNewW10 isNew con = con\<lparr>m_isNewW10 := isNew\<rparr>"

definition setFrozen :: "bool \<Rightarrow> ConsoleState \<Rightarrow> ConsoleState" where
  "setFrozen frozen con =
     (if frozen = m_frozen con then con
      else if frozen then
        (callConsole (SysCommand (if m_freezeUsesMark con then SC_CONSOLE_MARK
                                  else SC_CONSOLE_SELECT_ALL)) con)\<lparr>m_frozen := True\<rparr>
      else (callConsole CancelSelection con)\<lparr>m_frozen := False\<rparr>)"

text \<open>The title is passed as a C string, which ends at the first NUL.\<close>

definition setTitle :: "u16 list \<Rightarrow> ConsoleState \<Rightarrow> ConsoleState" where
  "setTitle title con = callConsole (SetTitle (takeWhile (\<lambda>c. c \<noteq> 0) title)) con"

text \<open>
  \<open>Win32Console::title\<close> asks again with a larger buffer until the title fits; it may never
  return when the title grows as fast. Of \<open>m_titleWorkBuf\<close> only the size matters, and
  \<open>sizeof(wchar_t)\<close> is 2. The result stops at the first NUL of the buffer.
\<close>

partial_function (option) consoleTitle :: "ConsoleEnv \<Rightarrow> ConsoleState \<Rightarrow> (u16 list \<times> ConsoleState) option" where
  "consoleTitle env con = do {
     checkedNarrow DWORD_range (int (m_titleWorkBuf con));
     let con1 = callConsole (GetTitle (m_titleWorkBuf con)) con;
     let title = titleOf env (history con1);
     let needed = (length title + 1) * 2;
     if m_titleWorkBuf con < needed then consoleTitle env (con1\<lparr>m_titleWorkBuf := needed\<rparr>)
     else Some (takeWhile (\<lambda>c. c \<noteq> 0) title, con1)
   }"

section \<open>The screen buffer\<close>

definition kDefaultAttributes :: u16 where "kDefaultAttributes = 7"

definition bufferInfo :: "ConsoleEnv \<Rightarrow> int \<Rightarrow> ConsoleState \<Rightarrow> ConsoleInfo \<times> ConsoleState" where
  "bufferInfo env h con =
     (let con1 = callConsole (GetScreenInfo h) con
      in (case screenInfo env (history con1) of None \<Rightarrow> zeroInfo | Some info \<Rightarrow> info, con1))"

definition clearLines :: "int \<Rightarrow> int \<Rightarrow> int \<Rightarrow> ConsoleInfo \<Rightarrow> ConsoleState \<Rightarrow> ConsoleState option" where
  "clearLines h row count info con = do {
     let width = X (dwSize info);
     y \<leftarrow> checkedNarrow SHORT_range row;
     let con1 = callConsole (FillCharacters h 0x20 (width * count) (mkCoord 0 y)) con;
     y2 \<leftarrow> checkedNarrow SHORT_range row;
     Some (callConsole (FillAttributes h kDefaultAttributes (width * count) (mkCoord 0 y2)) con1)
   }"

definition clearAllLines :: "int \<Rightarrow> ConsoleInfo \<Rightarrow> ConsoleState \<Rightarrow> ConsoleState option" where
  "clearAllLines h info con = clearLines h 0 (Y (dwSize info)) info con"

definition setBufferSize :: "ConsoleEnv \<Rightarrow> int \<Rightarrow> Coord \<Rightarrow> ConsoleState \<Rightarrow> bool \<times> ConsoleState" where
  "setBufferSize env h sz con =
     (let con1 = callConsole (SetBufferSize h sz) con in (resizeSucceeds env (history con1), con1))"

text \<open>The retry loop of \<open>resizeBufferRange\<close>; the result is the final size of a call that succeeded.\<close>

function resizeWider :: "ConsoleEnv \<Rightarrow> int \<Rightarrow> Coord \<Rightarrow> ConsoleState \<Rightarrow> Coord option \<times> ConsoleState" where
  "resizeWider env h sz con =
     (if X sz < 20 then
        let sz1 = sz\<lparr>X := X sz + 1\<rparr>; (ok, con1) = setBufferSize env h sz1 con
        in if ok then (Some sz1, con1) else resizeWider env h sz1 con1
      else (None, con))"
  by auto
termination
  by (relation "measure (\<lambda>(env, h, sz, con). nat (20 - X sz))") auto

declare resizeWider.simps [simp del]

definition resizeBufferRange ::
  "ConsoleEnv \<Rightarrow> int \<Rightarrow> Coord \<Rightarrow> ConsoleState \<Rightarrow> Coord option \<times> ConsoleState" where
  "resizeBufferRange env h initialSize con =
     (let (ok, con1) = setBufferSize env h initialSize con
      in if ok then (Some initialSize, con1) else resizeWider env h initialSize con1)"

definition resizeBuffer :: "int \<Rightarrow> Coord \<Rightarrow> ConsoleState \<Rightarrow> ConsoleState" where
  "resizeBuffer h sz con = callConsole (SetBufferSize h sz) con"

definition moveWindow :: "int \<Rightarrow> SmallRect \<Rightarrow> ConsoleState \<Rightarrow> ConsoleState" where
  "moveWindow h rect con = callConsole (SetWindow h rect) con"

definition setCursorPosition :: "int \<Rightarrow> Coord \<Rightarrow> ConsoleState \<Rightarrow> ConsoleState" where
  "setCursorPosition h c con = callConsole (SetCursor h c) con"

definition setTextAttribute :: "int \<Rightarrow> u16 \<Rightarrow> ConsoleState \<Rightarrow> ConsoleState" where
  "setTextAttribute h a con = callConsole (SetTextAttributes h a) con"

text \<open>
  A read fills the memory at \<open>data\<close> row by row. Memory that is too short for the rectangle would
  be overrun, which is undefined: the model returns \<^term>\<open>None\<close>.
\<close>

definition readCells :: "(int \<Rightarrow> int \<Rightarrow> CHAR_INFO option) \<Rightarrow> int \<Rightarrow> int \<Rightarrow> nat \<Rightarrow> nat \<Rightarrow>
    CHAR_INFO list \<Rightarrow> CHAR_INFO list" where
  "readCells answer x y w h old =
     map (\<lambda>(i, c). if i < w * h
            then case answer (x + int (i mod w)) (y + int (i div w)) of Some c' \<Rightarrow> c' | None \<Rightarrow> c
            else c) (zip [0..<length old] old)"

definition readBuffer :: "ConsoleEnv \<Rightarrow> int \<Rightarrow> SmallRect \<Rightarrow> CHAR_INFO list \<Rightarrow> ConsoleState \<Rightarrow>
    (CHAR_INFO list \<times> ConsoleState) option" where
  "readBuffer env h rect data con = do {
     sz \<leftarrow> rect_size rect;
     let w = nat (X sz);
     let n = nat (Y sz);
     if length data < w * n then None
     else (let con1 = callConsole (ReadCells h rect) con
           in Some (readCells (cellAt env (history con1)) (Left rect) (Top rect) w n data, con1))
   }"

definition writeBuffer :: "int \<Rightarrow> SmallRect \<Rightarrow> CHAR_INFO list \<Rightarrow> ConsoleState \<Rightarrow> ConsoleState option" where
  "writeBuffer h rect data con = do {
     sz \<leftarrow> rect_size rect;
     if length data < nat (X sz) * nat (Y sz) then None
     else Some (callConsole (WriteCells h rect data) con)
   }"

end
