(* ===== verification/LargeConsoleRead.thy ===== *)
theory LargeConsoleRead
  imports Console
begin

text \<open>
  Reading a large part of the screen buffer (src/agent/LargeConsoleRead.cc). Before Windows 8 one
  call can only transfer a limited number of cells, so the rectangle is read in bands of lines.
  \<open>abort\<close> and undefined accesses are \<^term>\<open>None\<close>.
\<close>

section \<open>The buffer\<close>

record LargeConsoleReadBuffer =
  m_rect :: SmallRect
  m_rectWidth :: int
  m_data :: "CHAR_INFO list"

definition newLargeBuffer :: LargeConsoleReadBuffer where
  "newLargeBuffer = \<lparr>m_rect = emptyRect, m_rectWidth = 0, m_data = []\<rparr>"

text \<open>\<open>lineStart\<close> is the index that \<open>lineData\<close> and \<open>lineDataMut\<close> point to, after the check of the line.\<close>

definition lineStart :: "LargeConsoleReadBuffer \<Rightarrow> int \<Rightarrow> nat option" where
  "lineStart b line =
     (if line < Top (m_rect b) \<or> line > Bottom (m_rect b) then None
      else Some (nat ((line - Top (m_rect b)) * m_rectWidth b)))"

definition lineCells :: "LargeConsoleReadBuffer \<Rightarrow> int \<Rightarrow> CHAR_INFO list option" where
  "lineCells b line = do { k \<leftarrow> lineStart b line; Some (drop k (m_data b)) }"

section \<open>The read\<close>

definition maxReadLines :: "int \<Rightarrow> int" where
  "maxReadLines width = max 1 (MAX_CONSOLE_WIDTH div width)"

function readBands :: "ConsoleEnv \<Rightarrow> int \<Rightarrow> SmallRect \<Rightarrow> int \<Rightarrow> LargeConsoleReadBuffer \<Rightarrow> ConsoleState \<Rightarrow>
    (LargeConsoleReadBuffer \<times> ConsoleState) option" where
  "readBands env h area curLine out con =
     (if curLine \<le> Bottom area then do {
        y \<leftarrow> checkedNarrow SHORT_range curLine;
        w \<leftarrow> rect_width area;
        lines \<leftarrow> checkedNarrow SHORT_range (min (maxReadLines w) (Bottom area + 1 - curLine));
        sub \<leftarrow> mkSmallRect (Left area) y w lines;
        k \<leftarrow> lineStart out curLine;
        (cells, con1) \<leftarrow> readBuffer env h sub (drop k (m_data out)) con;
        readBands env h area (Bottom sub + 1) (out\<lparr>m_data := take k (m_data out) @ cells\<rparr>) con1
      }
      else Some (out, con))"
  by pat_completeness auto
termination
  by (relation "measure (\<lambda>(env, h, area, curLine, out, con). nat (Bottom area + 1 - curLine))")
    (auto simp: mkSmallRect_Some maxReadLines_def)

declare readBands.simps [simp del]

definition maskAttributes :: "u16 \<Rightarrow> nat \<Rightarrow> CHAR_INFO list \<Rightarrow> CHAR_INFO list" where
  "maskAttributes msk count cells =
     (if msk \<noteq> 0xFFFF
      then map (\<lambda>c. c\<lparr>Attributes := Attributes c AND msk\<rparr>) (take count cells) @ drop count cells
      else cells)"

definition readLines :: "ConsoleEnv \<Rightarrow> int \<Rightarrow> SmallRect \<Rightarrow> LargeConsoleReadBuffer \<Rightarrow> ConsoleState \<Rightarrow>
    (LargeConsoleReadBuffer \<times> ConsoleState) option" where
  "readLines env h area out con =
     (if windows8OrGreater env then do {
        (cells, con1) \<leftarrow> readBuffer env h area (m_data out) con;
        Some (out\<lparr>m_data := cells\<rparr>, con1)
      }
      else readBands env h area (Top area) out con)"

definition largeConsoleRead :: "ConsoleEnv \<Rightarrow> int \<Rightarrow> SmallRect \<Rightarrow> u16 \<Rightarrow> LargeConsoleReadBuffer \<Rightarrow>
    ConsoleState \<Rightarrow> (LargeConsoleReadBuffer \<times> ConsoleState) option" where
  "largeConsoleRead env h area msk out con = do {
     w \<leftarrow> rect_width area;
     ASSERT (Left area \<ge> 0 \<and> Top area \<ge> 0 \<and> Right area \<ge> Left area \<and> Bottom area \<ge> Top area \<and>
             w \<le> MAX_CONSOLE_WIDTH);
     ht \<leftarrow> rect_height area;
     let count = nat (w * ht);
     let data = (if length (m_data out) < count
                 then resize count \<lparr>Attributes = 0, cellChar = 0\<rparr> (m_data out) else m_data out);
     let out1 = out\<lparr>m_data := data, m_rect := area, m_rectWidth := w\<rparr>;
     (out2, con1) \<leftarrow> readLines env h area out1 con;
     Some (out2\<lparr>m_data := maskAttributes msk count (m_data out2)\<rparr>, con1)
   }"

section \<open>What a read leaves in the buffer\<close>

lemma length_readCells [simp]: "length (readCells answer x y w n old) = length old"
  by (simp add: readCells_def)

lemma nth_readCells:
  "i < length old \<Longrightarrow> readCells answer x y w n old ! i =
     (if i < w * n then case answer (x + int (i mod w)) (y + int (i div w)) of
          Some c \<Rightarrow> c | None \<Rightarrow> old ! i
      else old ! i)"
  by (simp add: readCells_def)

lemma readCells_split:
  assumes "0 < w" and "w * (a + b) \<le> length old"
  shows "take (w * a) (readCells f x y w a old) @
      readCells f x (y + int a) w b (drop (w * a) (readCells f x y w a old)) =
    readCells f x y w (a + b) old"
proof (rule nth_equalityI)
  show "length (take (w * a) (readCells f x y w a old) @
      readCells f x (y + int a) w b (drop (w * a) (readCells f x y w a old))) =
    length (readCells f x y w (a + b) old)"
    using assms by simp
next
  fix i
  assume "i < length (take (w * a) (readCells f x y w a old) @
      readCells f x (y + int a) w b (drop (w * a) (readCells f x y w a old)))"
  then have i: "i < length old" using assms by simp
  have wa: "w * a \<le> length old" using assms(2) by (simp add: add_mult_distrib2)
  show "(take (w * a) (readCells f x y w a old) @
      readCells f x (y + int a) w b (drop (w * a) (readCells f x y w a old))) ! i =
    readCells f x y w (a + b) old ! i"
  proof (cases "i < w * a")
    case True
    then show ?thesis
      using i wa by (simp add: nth_append nth_readCells add_mult_distrib2)
  next
    case False
    then obtain j where j: "i = w * a + j" by (metis le_add_diff_inverse not_less)
    have dm: "i div w = a + j div w" "i mod w = j mod w" using assms(1) by (simp_all add: j)
    have dr: "drop (w * a) (readCells f x y w a old) ! j = old ! i"
      using i wa by (simp add: nth_drop nth_readCells j)
    then show ?thesis
      using i wa dm dr by (simp add: nth_append nth_readCells j add_mult_distrib2 add.assoc split: option.splits)
  qed
qed

lemma readCells_none [simp]: "readCells f x y w 0 old = old"
  by (rule nth_equalityI) (simp_all add: nth_readCells)

text \<open>A history that is extended by reads only.\<close>

definition readsOnly :: "ConsoleState \<Rightarrow> ConsoleState \<Rightarrow> bool" where
  "readsOnly con con' \<longleftrightarrow>
     (\<exists>cs. (\<forall>c \<in> set cs. \<exists>h rect. c = ReadCells h rect) \<and> con' = con\<lparr>history := history con @ cs\<rparr>)"

lemma readsOnly_refl [simp]: "readsOnly con con"
  unfolding readsOnly_def by (rule exI [of _ "[]"]) simp

lemma readsOnly_trans [trans]: "readsOnly a b \<Longrightarrow> readsOnly b c \<Longrightarrow> readsOnly a c"
  unfolding readsOnly_def
proof (elim exE conjE)
  fix cs ds
  assume "\<forall>c \<in> set cs. \<exists>h rect. c = ReadCells h rect" "b = a\<lparr>history := history a @ cs\<rparr>"
    "\<forall>c \<in> set ds. \<exists>h rect. c = ReadCells h rect" "c = b\<lparr>history := history b @ ds\<rparr>"
  then show "\<exists>cs. (\<forall>c \<in> set cs. \<exists>h rect. c = ReadCells h rect) \<and> c = a\<lparr>history := history a @ cs\<rparr>"
    by (intro exI [of _ "cs @ ds"]) auto
qed

lemma readsOnly_read: "readsOnly con (callConsole (ReadCells h rect) con)"
  unfolding readsOnly_def callConsole_def by (rule exI [of _ "[ReadCells h rect]"]) simp

lemma readsOnly_simps:
  "readsOnly con con' \<Longrightarrow>
     m_frozen con' = m_frozen con \<and> m_isNewW10 con' = m_isNewW10 con \<and>
     m_freezeUsesMark con' = m_freezeUsesMark con"
  by (auto simp: readsOnly_def)

text \<open>The content of the console does not change while it is only read.\<close>

definition stableContent :: "ConsoleEnv \<Rightarrow> (int \<Rightarrow> int \<Rightarrow> CHAR_INFO option) \<Rightarrow> ConsoleState \<Rightarrow> bool" where
  "stableContent env content con \<longleftrightarrow>
     (\<forall>con' h rect. readsOnly con con' \<longrightarrow>
        cellAt env (history (callConsole (ReadCells h rect) con')) = content)"

lemma stable_readsOnly: "stableContent env content con \<Longrightarrow> readsOnly con con' \<Longrightarrow> stableContent env content con'"
  unfolding stableContent_def by (blast intro: readsOnly_trans)

lemma stable_cellAt:
  "stableContent env content con \<Longrightarrow> cellAt env (history (callConsole (ReadCells h rect) con)) = content"
  unfolding stableContent_def by simp

section \<open>Areas\<close>

definition validArea :: "SmallRect \<Rightarrow> bool" where
  "validArea a \<longleftrightarrow> 0 \<le> Left a \<and> 0 \<le> Top a \<and> Left a \<le> Right a \<and> Top a \<le> Bottom a \<and>
     Bottom a < 32767 \<and> Right a < 32767 \<and> Right a - Left a + 1 \<le> MAX_CONSOLE_WIDTH"

definition areaWidth :: "SmallRect \<Rightarrow> nat" where "areaWidth a = nat (Right a - Left a + 1)"
definition areaHeight :: "SmallRect \<Rightarrow> nat" where "areaHeight a = nat (Bottom a - Top a + 1)"

lemma areaWidth_pos: "validArea a \<Longrightarrow> 0 < areaWidth a"
  by (simp add: validArea_def areaWidth_def)

lemma readBuffer_area:
  assumes "validArea a" and "areaWidth a * areaHeight a \<le> length data"
  shows "readBuffer env h a data con =
    Some (readCells (cellAt env (history (callConsole (ReadCells h a) con))) (Left a) (Top a)
            (areaWidth a) (areaHeight a) data, callConsole (ReadCells h a) con)"
  using assms
  by (simp add: readBuffer_def rect_size_def rect_width_def rect_height_def validArea_def mkCoord_def
      areaWidth_def areaHeight_def checkedNarrow_eq Let_def)

section \<open>Reading in bands\<close>

lemma readBands_ok:
  assumes "validArea a" and "m_rect out = a" and "m_rectWidth out = int (areaWidth a)"
    and "areaWidth a * areaHeight a \<le> length (m_data out)" and "Top a \<le> cur" and "cur \<le> Bottom a + 1"
  shows "\<exists>cells con'. readBands env h a cur out con = Some (out\<lparr>m_data := cells\<rparr>, con') \<and>
    length cells = length (m_data out) \<and> readsOnly con con' \<and>
    (\<forall>content old. stableContent env content con \<longrightarrow> length old = length (m_data out) \<longrightarrow>
       m_data out = readCells content (Left a) (Top a) (areaWidth a) (nat (cur - Top a)) old \<longrightarrow>
       cells = readCells content (Left a) (Top a) (areaWidth a) (areaHeight a) old)"
  using assms
proof (induction "nat (Bottom a + 1 - cur)" arbitrary: cur out con rule: less_induct)
  case less
  show ?case
  proof (cases "cur \<le> Bottom a")
    case False
    then have "nat (cur - Top a) = areaHeight a" using less.prems by (simp add: areaHeight_def)
    then show ?thesis
      using False by (subst readBands.simps) (intro exI [of _ "m_data out"] exI [of _ con], simp)
  next
    case True
    define w where "w = areaWidth a"
    define n where "n = min (maxReadLines (int w)) (Bottom a + 1 - cur)"
    define b where "b = nat n"
    define i where "i = nat (cur - Top a)"
    define sub where "sub = \<lparr>Left = Left a, Top = cur, Right = Right a, Bottom = cur + n - 1\<rparr>"
    have n: "1 \<le> n" "cur + n - 1 \<le> Bottom a" using True by (auto simp: n_def maxReadLines_def)
    have va: "0 \<le> Left a" "0 \<le> Top a" "Left a \<le> Right a" "Bottom a < 32767" "Right a < 32767"
      using less.prems(1) by (auto simp: validArea_def)
    have w: "0 < w" "rect_width a = Some (int w)" "Left a + int w - 1 = Right a"
      using va by (auto simp: w_def areaWidth_def rect_width_def)
    have sub: "validArea sub" "areaWidth sub = w" "areaHeight sub = b" "Left sub = Left a" "Top sub = cur"
      "Bottom sub = cur + n - 1"
      using less.prems(1, 5) n by (auto simp: sub_def validArea_def areaWidth_def areaHeight_def w_def b_def)
    have mk: "mkSmallRect (Left a) cur (int w) n = Some sub"
      using va n less.prems(5) w by (simp add: mkSmallRect_def checkedNarrow_eq sub_def)
    have ci: "cur = Top a + int i" using less.prems(5) by (simp add: i_def)
    have ib: "i + b \<le> areaHeight a" "nat (cur + n - Top a) = i + b"
      using n less.prems(5) by (auto simp: i_def b_def areaHeight_def)
    have wib: "w * (i + b) \<le> length (m_data out)"
      using le_trans [OF mult_le_mono2 [OF ib(1), of w]] less.prems(4) by (simp add: w_def)
    have st: "lineStart out cur = Some (w * i)"
      using less.prems True by (simp add: lineStart_def w_def i_def nat_mult_distrib mult.commute)
    define con1 where "con1 = callConsole (ReadCells h sub) con"
    define d where "d = take (w * i) (m_data out) @
        readCells (cellAt env (history con1)) (Left a) cur w b (drop (w * i) (m_data out))"
    have "areaWidth sub * areaHeight sub \<le> length (drop (w * i) (m_data out))"
      using wib by (simp add: sub add_mult_distrib2)
    from readBuffer_area [OF sub(1) this, of env h con]
    have rd: "readBuffer env h sub (drop (w * i) (m_data out)) con =
        Some (readCells (cellAt env (history con1)) (Left a) cur w b (drop (w * i) (m_data out)), con1)"
      by (simp add: sub con1_def)
    have rn: "- 32768 \<le> cur" "cur \<le> 32767" "- 32768 \<le> n" "n \<le> 32767"
      using va n less.prems(5) by auto
    have "1 \<le> maxReadLines (int w)" by (simp add: maxReadLines_def)
    then have step: "readBands env h a cur out con = readBands env h a (cur + n) (out\<lparr>m_data := d\<rparr>) con1"
      using True w(2) mk st rd rn
      by (subst readBands.simps) (simp add: checkedNarrow_eq flip: n_def d_def add: sub(6))
    have ld: "length d = length (m_data out)"
      using wib by (simp add: d_def add_mult_distrib2)
    have ro: "readsOnly con con1" by (simp add: con1_def readsOnly_read)
    have "\<exists>cells con'. readBands env h a (cur + n) (out\<lparr>m_data := d\<rparr>) con1 =
        Some ((out\<lparr>m_data := d\<rparr>)\<lparr>m_data := cells\<rparr>, con') \<and>
      length cells = length (m_data (out\<lparr>m_data := d\<rparr>)) \<and> readsOnly con1 con' \<and>
      (\<forall>content old. stableContent env content con1 \<longrightarrow>
         length old = length (m_data (out\<lparr>m_data := d\<rparr>)) \<longrightarrow>
         m_data (out\<lparr>m_data := d\<rparr>) =
           readCells content (Left a) (Top a) (areaWidth a) (nat (cur + n - Top a)) old \<longrightarrow>
         cells = readCells content (Left a) (Top a) (areaWidth a) (areaHeight a) old)"
    proof (rule less.hyps)
      show "nat (Bottom a + 1 - (cur + n)) < nat (Bottom a + 1 - cur)" using n(1) True by linarith
      show "Top a \<le> cur + n" using less.prems(5) n(1) by linarith
      show "cur + n \<le> Bottom a + 1" using n(2) by linarith
    qed (simp_all add: less.prems ld)
    moreover have over: "out\<lparr>m_data := d, m_data := c\<rparr> = out\<lparr>m_data := c\<rparr>" "m_data (out\<lparr>m_data := d\<rparr>) = d" for c
      by simp_all
    ultimately obtain cells con2 where IH:
      "readBands env h a (cur + n) (out\<lparr>m_data := d\<rparr>) con1 = Some (out\<lparr>m_data := cells\<rparr>, con2)"
      "length cells = length d" "readsOnly con1 con2"
      "\<And>content old. stableContent env content con1 \<Longrightarrow> length old = length d \<Longrightarrow>
         d = readCells content (Left a) (Top a) w (i + b) old \<Longrightarrow>
         cells = readCells content (Left a) (Top a) w (areaHeight a) old"
      unfolding ib(2) w_def over by blast
    have "cells = readCells content (Left a) (Top a) w (areaHeight a) old"
      if "stableContent env content con" "length old = length (m_data out)"
        "m_data out = readCells content (Left a) (Top a) w i old" for content old
    proof (rule IH(4))
      show "stableContent env content con1" using that(1) ro by (rule stable_readsOnly)
      show "length old = length d" using that ld by simp
      have "cellAt env (history con1) = content"
        using that(1) by (simp add: con1_def stable_cellAt)
      then have "d = take (w * i) (readCells content (Left a) (Top a) w i old) @
          readCells content (Left a) (Top a + int i) w b
            (drop (w * i) (readCells content (Left a) (Top a) w i old))"
        unfolding d_def that(3) ci by simp
      also have "\<dots> = readCells content (Left a) (Top a) w (i + b) old"
        by (rule readCells_split) (use w(1) wib that(2) in simp_all)
      finally show "d = readCells content (Left a) (Top a) w (i + b) old" .
    qed
    then show ?thesis
      using IH(1-3) ld readsOnly_trans [OF ro IH(3)] step
      by (intro exI [of _ cells] exI [of _ con2]) (simp add: w_def i_def)
  qed
qed

section \<open>What a large read does\<close>

definition masked :: "u16 \<Rightarrow> CHAR_INFO \<Rightarrow> CHAR_INFO" where
  "masked msk c = c\<lparr>Attributes := Attributes c AND msk\<rparr>"

lemma masked_all: "masked 0xFFFF c = c"
proof -
  have "(0xFFFF :: u16) = - 1" by simp
  then show ?thesis by (simp only: masked_def) simp
qed

lemma length_maskAttributes [simp]: "length (maskAttributes msk n cells) = length cells"
  by (simp add: maskAttributes_def min_def)

lemma nth_maskAttributes:
  "i < n \<Longrightarrow> i < length cells \<Longrightarrow> maskAttributes msk n cells ! i = masked msk (cells ! i)"
  using masked_all by (auto simp: maskAttributes_def nth_append masked_def)

lemma largeConsoleRead_ok:
  assumes "validArea a"
  shows "\<exists>out' con'. largeConsoleRead env h a msk out con = Some (out', con') \<and>
    m_rect out' = a \<and> m_rectWidth out' = int (areaWidth a) \<and>
    areaWidth a * areaHeight a \<le> length (m_data out') \<and> readsOnly con con' \<and>
    (\<forall>content. stableContent env content con \<longrightarrow>
       (\<forall>i c. i < areaWidth a * areaHeight a \<longrightarrow>
          content (Left a + int (i mod areaWidth a)) (Top a + int (i div areaWidth a)) = Some c \<longrightarrow>
          m_data out' ! i = masked msk c))"
proof -
  define w where "w = areaWidth a"
  define n where "n = areaHeight a"
  define d where "d = (if length (m_data out) < w * n
      then resize (w * n) \<lparr>Attributes = 0, cellChar = 0\<rparr> (m_data out) else m_data out)"
  define out1 where "out1 = out\<lparr>m_data := d, m_rect := a, m_rectWidth := int w\<rparr>"
  have d: "w * n \<le> length d" by (simp add: d_def)
  have va: "rect_width a = Some (int w)" "rect_height a = Some (int n)"
      "nat (int w * int n) = w * n" "int w \<le> MAX_CONSOLE_WIDTH"
    using assms by (auto simp: validArea_def w_def n_def areaWidth_def areaHeight_def rect_width_def
        rect_height_def nat_mult_distrib)
  obtain cells con' where r:
    "readLines env h a out1 con = Some (out1\<lparr>m_data := cells\<rparr>, con')"
    "length cells = length d" "readsOnly con con'"
    "\<And>content. stableContent env content con \<Longrightarrow> cells = readCells content (Left a) (Top a) w n d"
  proof (cases "windows8OrGreater env")
    case True
    have "w * n \<le> length (m_data out1)" using d by (simp add: out1_def)
    with readBuffer_area [of a "m_data out1" env h con] assms True show ?thesis
      by (intro that [of "readCells (cellAt env (history (callConsole (ReadCells h a) con)))
            (Left a) (Top a) w n d" "callConsole (ReadCells h a) con"])
        (auto simp: readLines_def w_def n_def out1_def readsOnly_read stable_cellAt)
  next
    case False
    have "Top a \<le> Bottom a + 1" using assms by (simp add: validArea_def)
    then show ?thesis
      using readBands_ok [of a out1 "Top a" env h con] assms d False
      by (auto simp: readLines_def out1_def w_def n_def intro: that)
  qed
  define fin where "fin = out1\<lparr>m_data := maskAttributes msk (w * n) cells\<rparr>"
  have "largeConsoleRead env h a msk out con = Some (fin, con')"
    unfolding largeConsoleRead_def va(1, 2) Option.bind.bind_lunit Let_def va(3)
      d_def [symmetric] out1_def [symmetric] r(1)
    using assms va(4) by (simp add: validArea_def fin_def)
  moreover have "m_data fin ! i = masked msk c"
    if "stableContent env content con" "i < w * n"
      "content (Left a + int (i mod w)) (Top a + int (i div w)) = Some c" for content i c
    using that r(2) r(4) [OF that(1)] d
    by (simp add: fin_def nth_maskAttributes nth_readCells)
  ultimately show ?thesis
    using r(2, 3) d by (intro exI [of _ fin] exI [of _ con']) (auto simp: fin_def out1_def w_def n_def)
qed

text \<open>
  C28. A large read of a valid area of the screen buffer never aborts and never overruns its
  memory, with one call on Windows 8 and later as with bands of lines before. When the content of
  the console does not change during the read, every line that the scraper then asks for holds
  the cells of that line of the console, with the masked attributes.
\<close>

theorem large_read_shows_console:
  assumes "validArea a" and "stableContent env content con"
    and "\<forall>x y. Left a \<le> x \<and> x \<le> Right a \<and> Top a \<le> y \<and> y \<le> Bottom a \<longrightarrow> content x y = Some (shown x y)"
  shows "\<exists>out' con'. largeConsoleRead env h a msk out con = Some (out', con') \<and> readsOnly con con' \<and>
    (\<forall>y. Top a \<le> y \<and> y \<le> Bottom a \<longrightarrow>
       (\<exists>rest. lineCells out' y =
          Some (map (\<lambda>x. masked msk (shown x y)) [Left a..Right a] @ rest)))"
proof -
  define w where "w = areaWidth a"
  obtain out' con' where r: "largeConsoleRead env h a msk out con = Some (out', con')"
    "m_rect out' = a" "m_rectWidth out' = int w" "w * areaHeight a \<le> length (m_data out')"
    "readsOnly con con'"
    "\<And>i c. i < w * areaHeight a \<Longrightarrow>
       content (Left a + int (i mod w)) (Top a + int (i div w)) = Some c \<Longrightarrow>
       m_data out' ! i = masked msk c"
    using largeConsoleRead_ok [OF assms(1), of env h msk out con] assms(2) unfolding w_def by blast
  have wp: "0 < w" "int w = Right a - Left a + 1"
    using assms(1) by (auto simp: w_def validArea_def areaWidth_def)
  have "\<exists>rest. lineCells out' y = Some (map (\<lambda>x. masked msk (shown x y)) [Left a..Right a] @ rest)"
    if y: "Top a \<le> y" "y \<le> Bottom a" for y
  proof -
    define j where "j = nat (y - Top a)"
    have j: "y = Top a + int j" "Suc j \<le> areaHeight a"
      using y by (auto simp: j_def areaHeight_def)
    have wj: "w * Suc j \<le> w * areaHeight a" using j(2) by (rule mult_le_mono2)
    have line: "lineCells out' y = Some (drop (w * j) (m_data out'))"
      using y r(2, 3)
      by (simp add: lineCells_def lineStart_def j_def nat_mult_distrib mult.commute)
    have "take w (drop (w * j) (m_data out')) = map (\<lambda>x. masked msk (shown x y)) [Left a..Right a]"
    proof (rule nth_equalityI)
      show "length (take w (drop (w * j) (m_data out'))) =
          length (map (\<lambda>x. masked msk (shown x y)) [Left a..Right a])"
        using r(4) wj wp(2) by simp
    next
      fix k
      assume "k < length (take w (drop (w * j) (m_data out')))"
      then have k: "k < w" by simp
      have lt: "w * j + k < w * areaHeight a" using k wj by simp
      have dm: "(w * j + k) mod w = k" "(w * j + k) div w = j" using k by simp_all
      have x: "Left a \<le> Left a + int k" "Left a + int k \<le> Right a" using k wp(2) by auto
      have "content (Left a + int k) y = Some (shown (Left a + int k) y)"
        using assms(3) x y by blast
      then have "m_data out' ! (w * j + k) = masked msk (shown (Left a + int k) y)"
        using r(6) [OF lt] dm j(1) by simp
      then show "take w (drop (w * j) (m_data out')) ! k =
          map (\<lambda>x. masked msk (shown x y)) [Left a..Right a] ! k"
        using k lt r(4) wp(2) by (simp add: nth_upto)
    qed
    then show ?thesis using line append_take_drop_id by metis
  qed
  then show ?thesis using r(1, 5) by blast
qed

text \<open>A console of 80 columns whose cells show their line number, on Windows 7.\<close>

definition sampleCell :: "int \<Rightarrow> int \<Rightarrow> CHAR_INFO" where
  "sampleCell x y = \<lparr>Attributes = 7, cellChar = word_of_int (48 + y mod 10)\<rparr>"

definition sampleConsole :: ConsoleEnv where
  "sampleConsole =
     \<lparr>screenInfo = \<lambda>_. Some \<lparr>dwSize = mkCoord 80 3000,
        srWindow = \<lparr>Left = 0, Top = 0, Right = 79, Bottom = 24\<rparr>, dwCursorPosition = mkCoord 2 3\<rparr>,
      cellAt = \<lambda>_ x y. if 0 \<le> x \<and> x < 80 \<and> 0 \<le> y \<and> y < 3000 then Some (sampleCell x y) else None,
      resizeSucceeds = \<lambda>_. True, largestWindow = \<lambda>_. mkCoord 200 100, cursorVisible = \<lambda>_. Some True,
      outputCodePage = \<lambda>_. 437, outputMode = \<lambda>_. Some 3, fontIsSet = \<lambda>_. True,
      faceNameOf = \<lambda>_. None, titleOf = \<lambda>_. [],
      stackCells = \<lambda>_ n. replicate n (sampleCell 0 0), windows8OrGreater = False\<rparr>"

theorem large_read_shows_console_witness:
  "\<exists>out' con'. largeConsoleRead sampleConsole 1 \<lparr>Left = 0, Top = 10, Right = 79, Bottom = 99\<rparr> 0x3FFF
      newLargeBuffer newConsole = Some (out', con') \<and> readsOnly newConsole con' \<and>
    (\<forall>y. Top \<lparr>Left = 0, Top = 10, Right = 79, Bottom = 99\<rparr> \<le> y \<and>
         y \<le> Bottom \<lparr>Left = 0, Top = 10, Right = 79, Bottom = 99\<rparr> \<longrightarrow>
       (\<exists>rest. lineCells out' y =
          Some (map (\<lambda>x. masked 0x3FFF (sampleCell x y))
            [Left \<lparr>Left = 0, Top = 10, Right = 79, Bottom = 99\<rparr>..
             Right \<lparr>Left = 0, Top = 10, Right = 79, Bottom = 99\<rparr>] @ rest)))"
  by (rule large_read_shows_console
        [where content = "\<lambda>x y. if 0 \<le> x \<and> x < 80 \<and> 0 \<le> y \<and> y < 3000 then Some (sampleCell x y) else None"])
    (auto simp: validArea_def MAX_CONSOLE_WIDTH_def stableContent_def sampleConsole_def)

end
