(* ===== verification/ConsoleFont.thy ===== *)
theory ConsoleFont
  imports Console
begin

text \<open>
  The choice of the console font (src/agent/ConsoleFont.cc). The agent wants the smallest font for
  which the window still is wide enough, so that a large screen buffer fits on the monitor.
  \<open>selectSmallFont\<close> scores every size of the table of a code page; the scores are
  \<open>std::tuple\<close>s, compared in lexicographic order.
\<close>

section \<open>Fonts and their sizes\<close>

definition wchars :: "string \<Rightarrow> u16 list" where
  "wchars s = map of_char s"

definition kLucidaConsole :: "u16 list" where "kLucidaConsole = wchars ''Lucida Console''"
definition kMSGothic :: "u16 list" where
  "kMSGothic = [0xff2d, 0xff33, 0x0020, 0x30b4, 0x30b7, 0x30c3, 0x30af]"
definition kNSimSun :: "u16 list" where "kNSimSun = [0x65b0, 0x5b8b, 0x4f53]"
definition kGulimChe :: "u16 list" where "kGulimChe = [0xad74, 0xb9bc, 0xccb4]"
definition kMingLight :: "u16 list" where "kMingLight = [0x7d30, 0x660e, 0x9ad4]"

record FontSize =
  pixelSize :: int
  pixelWidth :: int

record Font =
  faceName :: "u16 list"
  family :: u32
  fontSize :: int

definition fontSizes :: "(int \<times> int) list \<Rightarrow> FontSize list" where
  "fontSizes = map (\<lambda>(s, w). \<lparr>pixelSize = s, pixelWidth = w\<rparr>)"

section \<open>Tables\<close>

definition kLucidaFontSizes :: "FontSize list" where
  "kLucidaFontSizes = fontSizes
    [(5, 3), (6, 4), (8, 5), (10, 6), (12, 7), (14, 8), (16, 10), (18, 11), (20, 12),
     (36, 22), (48, 29), (60, 36), (72, 43)]"

definition k932GothicWin7 :: "FontSize list" where
  "k932GothicWin7 = fontSizes
    [(6, 3), (8, 4), (10, 5), (12, 6), (13, 7), (15, 8), (17, 9), (19, 10), (21, 11)]"

definition k932GothicWin8 :: "FontSize list" where
  "k932GothicWin8 = fontSizes
    [(5, 3), (7, 4), (9, 5), (11, 6), (13, 7), (15, 8), (17, 9), (20, 10), (22, 11),
     (24, 12), (36, 18), (48, 24), (60, 30), (72, 36)]"

definition k932GothicWin10 :: "FontSize list" where
  "k932GothicWin10 = fontSizes
    [(6, 3), (8, 4), (10, 5), (12, 6), (14, 7), (16, 8), (18, 9), (20, 10), (22, 11),
     (24, 12), (36, 18), (48, 24), (60, 30), (72, 36)]"

definition k936SimSun :: "FontSize list" where
  "k936SimSun = fontSizes
    [(6, 3), (8, 4), (10, 5), (12, 6), (14, 7), (16, 8), (18, 9), (20, 10), (22, 11),
     (24, 12), (36, 18), (48, 24), (60, 30), (72, 36)]"

definition k949GulimChe :: "FontSize list" where
  "k949GulimChe = fontSizes
    [(6, 3), (8, 4), (10, 5), (12, 6), (14, 7), (16, 8), (18, 9), (20, 10), (22, 11),
     (24, 12), (36, 18), (48, 24), (60, 30), (72, 36)]"

definition k950MingLight :: "FontSize list" where
  "k950MingLight = fontSizes
    [(6, 3), (8, 4), (10, 5), (12, 6), (14, 7), (16, 8), (18, 9), (20, 10), (22, 11),
     (24, 12), (36, 18), (48, 24), (60, 30), (72, 36)]"

section \<open>Scores\<close>

text \<open>\<open>std::tuple<int, int>\<close> with its comparison.\<close>

datatype FontScore = Score (scoreClass: int) (scoreWidth: int)

instantiation FontScore :: linorder
begin

definition less_eq_FontScore :: "FontScore \<Rightarrow> FontScore \<Rightarrow> bool" where
  "s \<le> t \<longleftrightarrow> scoreClass s < scoreClass t \<or> scoreClass s = scoreClass t \<and> scoreWidth s \<le> scoreWidth t"

definition less_FontScore :: "FontScore \<Rightarrow> FontScore \<Rightarrow> bool" where
  "s < t \<longleftrightarrow> scoreClass s < scoreClass t \<or> scoreClass s = scoreClass t \<and> scoreWidth s < scoreWidth t"

instance
  by standard (auto simp: less_eq_FontScore_def less_FontScore_def FontScore.expand)

end

lemma Score_le [simp]: "Score a b \<le> Score c d \<longleftrightarrow> a < c \<or> a = c \<and> b \<le> d"
  by (simp add: less_eq_FontScore_def)

lemma Score_less [simp]: "Score a b < Score c d \<longleftrightarrow> a < c \<or> a = c \<and> b < d"
  by (simp add: less_FontScore_def)

definition halfColumnsOf :: "int \<Rightarrow> int" where
  "halfColumnsOf columns = min columns (max 40 (columns div 2))"

definition fontScore :: "int \<Rightarrow> FontSize \<Rightarrow> FontScore" where
  "fontScore columns f =
     (let width = pixelWidth f * columns;
          halfWidth = pixelWidth f * halfColumnsOf columns
      in if width \<ge> 160 \<and> halfWidth \<ge> 160 then Score 2 (- width)
         else if width \<ge> 160 then Score 1 (- width)
         else Score 0 width)"

section \<open>Selection\<close>

text \<open>The loop over the table; its state is \<open>bestIndex\<close> (\<^term>\<open>None\<close> for -1) and \<open>bestScore\<close>.\<close>

definition bestStep :: "int \<Rightarrow> nat \<times> FontSize \<Rightarrow> nat option \<times> FontScore \<Rightarrow> nat option \<times> FontScore" where
  "bestStep columns e best =
     (let thisScore = fontScore columns (snd e)
      in if thisScore > snd best then (Some (fst e), thisScore) else best)"

definition isCjkCodePage :: "int \<Rightarrow> bool" where
  "isCjkCodePage cp \<longleftrightarrow> cp = 932 \<or> cp = 936 \<or> cp = 949 \<or> cp = 950"

definition fontTable :: "bool \<Rightarrow> int \<Rightarrow> bool \<Rightarrow> u16 list \<times> FontSize list" where
  "fontTable win8 codePage isNew =
     (if codePage = 932 then
        (kMSGothic, if isNew then k932GothicWin10 else if win8 then k932GothicWin8 else k932GothicWin7)
      else if codePage = 936 then (kNSimSun, k936SimSun)
      else if codePage = 949 then (kGulimChe, k949GulimChe)
      else if codePage = 950 then (kMingLight, k950MingLight)
      else (kLucidaConsole, kLucidaFontSizes))"

definition selectSmallFont :: "bool \<Rightarrow> int \<Rightarrow> int \<Rightarrow> bool \<Rightarrow> Font option" where
  "selectSmallFont win8 codePage columns isNew = do {
     let (face, table) = fontTable win8 codePage isNew;
     let bestIndex = fst (fold (bestStep columns) (enumerate 0 table) (None, Score (- 1) (- 1)));
     ASSERT (bestIndex \<noteq> None);
     Some \<lparr>faceName = face, family = 0x36, fontSize = pixelSize (table ! the bestIndex)\<rparr>
   }"

section \<open>Setting the font\<close>

definition LF_FACESIZE :: nat where "LF_FACESIZE = 32"

text \<open>Equality by \<open>wcsncmp\<close>: up to \<open>n\<close> units, and none after a NUL.\<close>

definition wcsncmpEqual :: "nat \<Rightarrow> u16 list \<Rightarrow> u16 list \<Rightarrow> bool" where
  "wcsncmpEqual n a b \<longleftrightarrow> takeWhile (\<lambda>c. c \<noteq> 0) (take n a) = takeWhile (\<lambda>c. c \<noteq> 0) (take n b)"

definition setConsoleFont :: "ConsoleEnv \<Rightarrow> int \<Rightarrow> Font \<Rightarrow> ConsoleState \<Rightarrow> bool \<times> ConsoleState" where
  "setConsoleFont env h font con =
     (let name = take (LF_FACESIZE - 1) (faceName font);
          con1 = callConsole (SetFont h name (family font) (fontSize font)) con
      in if \<not> fontIsSet env (history con1) then (False, con1)
         else let con2 = callConsole (GetFont h) con1
              in case faceNameOf env (history con2) of
                   None \<Rightarrow> (False, con2)
                 | Some face \<Rightarrow> (wcsncmpEqual LF_FACESIZE face (faceName font), con2))"

definition setSmallConsoleFont :: "ConsoleEnv \<Rightarrow> int \<Rightarrow> int \<Rightarrow> bool \<Rightarrow> ConsoleState \<Rightarrow> ConsoleState option" where
  "setSmallConsoleFont env h columns isNew con = do {
     let con1 = callConsole GetOutputCP con;
     let codePage = outputCodePage env (history con1);
     font \<leftarrow> selectSmallFont (windows8OrGreater env) codePage columns isNew;
     let (ok, con2) = setConsoleFont env h font con1;
     if ok then Some con2
     else if isCjkCodePage codePage then do {
       fontFB \<leftarrow> selectSmallFont (windows8OrGreater env) 0 columns isNew;
       Some (snd (setConsoleFont env h fontFB con2))
     }
     else Some con2
   }"

definition setSmallFont :: "ConsoleEnv \<Rightarrow> int \<Rightarrow> int \<Rightarrow> bool \<Rightarrow> ConsoleState \<Rightarrow> ConsoleState option" where
  "setSmallFont env h columns isNew con = setSmallConsoleFont env h columns isNew con"

section \<open>The best size\<close>

lemma fold_bestStep:
  fixes columns :: int and xs :: "FontSize list" and i0 :: "nat option"
  defines "sc \<equiv> fontScore columns"
  assumes "fold (bestStep columns) (enumerate n xs) (i0, s0) = (i, s)"
  shows "(i = i0 \<and> s = s0 \<and> (\<forall>f \<in> set xs. sc f \<le> s0)) \<or>
     (\<exists>k < length xs. i = Some (n + k) \<and> s = sc (xs ! k) \<and> s0 < s \<and>
        (\<forall>j < length xs. sc (xs ! j) \<le> sc (xs ! k)) \<and> (\<forall>j < k. sc (xs ! j) < sc (xs ! k)))"
  using assms(2)
proof (induction xs arbitrary: n i0 s0)
  case Nil
  then show ?case by simp
next
  case (Cons x xs)
  define b where "b = bestStep columns (n, x) (i0, s0)"
  have f: "fold (bestStep columns) (enumerate (Suc n) xs) b = (i, s)"
    using Cons.prems by (simp add: b_def)
  have all_Suc: "(\<forall>j < Suc m. P j) \<longleftrightarrow> P 0 \<and> (\<forall>j < m. P (Suc j))" for m and P :: "nat \<Rightarrow> bool"
    by (auto simp: less_Suc_eq_0_disj)
  show ?case
  proof (cases "s0 < sc x")
    case True
    then have b: "b = (Some n, sc x)" by (simp add: b_def bestStep_def sc_def)
    from Cons.IH [OF f [unfolded b]] show ?thesis
    proof (elim disjE exE conjE)
      assume "i = Some n" "s = sc x" "\<forall>f \<in> set xs. sc f \<le> sc x"
      then show ?thesis using True by (intro disjI2 exI [of _ 0]) (auto simp: all_Suc)
    next
      fix k
      assume "k < length xs" "i = Some (Suc n + k)" "s = sc (xs ! k)" "sc x < s"
        "\<forall>j < length xs. sc (xs ! j) \<le> sc (xs ! k)" "\<forall>j < k. sc (xs ! j) < sc (xs ! k)"
      then show ?thesis
        using True by (intro disjI2 exI [of _ "Suc k"]) (auto simp: all_Suc)
    qed
  next
    case False
    then have b: "b = (i0, s0)" by (simp add: b_def bestStep_def sc_def)
    from Cons.IH [OF f [unfolded b]] show ?thesis
    proof (elim disjE exE conjE)
      assume "i = i0" "s = s0" "\<forall>f \<in> set xs. sc f \<le> s0"
      then show ?thesis using False by auto
    next
      fix k
      assume "k < length xs" "i = Some (Suc n + k)" "s = sc (xs ! k)" "s0 < s"
        "\<forall>j < length xs. sc (xs ! j) \<le> sc (xs ! k)" "\<forall>j < k. sc (xs ! j) < sc (xs ! k)"
      then show ?thesis
        using False by (intro disjI2 exI [of _ "Suc k"]) (auto simp: all_Suc)
    qed
  qed
qed

lemma fontScore_above: "Score (- 1) (- 1) < fontScore columns f"
  by (simp add: fontScore_def Let_def)

lemma fontTable_not_empty: "snd (fontTable win8 codePage isNew) \<noteq> []"
  by (simp add: fontTable_def fontSizes_def k932GothicWin7_def k932GothicWin8_def k932GothicWin10_def
      k936SimSun_def k949GulimChe_def k950MingLight_def kLucidaFontSizes_def)

lemma selectSmallFont_best:
  fixes columns :: int
  defines "sc \<equiv> fontScore columns"
  shows "\<exists>k < length (snd (fontTable win8 codePage isNew)).
     selectSmallFont win8 codePage columns isNew =
       Some \<lparr>faceName = fst (fontTable win8 codePage isNew), family = 0x36,
             fontSize = pixelSize (snd (fontTable win8 codePage isNew) ! k)\<rparr> \<and>
     (\<forall>f \<in> set (snd (fontTable win8 codePage isNew)). sc f \<le> sc (snd (fontTable win8 codePage isNew) ! k))"
proof -
  obtain face table where t: "fontTable win8 codePage isNew = (face, table)" by fastforce
  obtain i s where f: "fold (bestStep columns) (enumerate 0 table) (None, Score (- 1) (- 1)) = (i, s)"
    by fastforce
  have ne: "table \<noteq> []" using fontTable_not_empty [of win8 codePage isNew] t by simp
  from fold_bestStep [OF f] ne fontScore_above
  obtain k where "k < length table" "i = Some k" "\<forall>j < length table. sc (table ! j) \<le> sc (table ! k)"
    unfolding sc_def by (metis add_0 last_in_set leD)
  then show ?thesis
    by (intro exI [of _ k]) (auto simp: selectSmallFont_def t f sc_def in_set_conv_nth)
qed

text \<open>A window of \<open>columns\<close> columns in a font is wide enough, and still is after half of them are gone.\<close>

definition wideEnough :: "int \<Rightarrow> FontSize \<Rightarrow> bool" where
  "wideEnough columns f \<longleftrightarrow> 160 \<le> pixelWidth f * columns"

definition halvable :: "int \<Rightarrow> FontSize \<Rightarrow> bool" where
  "halvable columns f \<longleftrightarrow> wideEnough columns f \<and> wideEnough (halfColumnsOf columns) f"

lemma fontScore_cases:
  "fontScore columns f =
     (if halvable columns f then Score 2 (- (pixelWidth f * columns))
      else if wideEnough columns f then Score 1 (- (pixelWidth f * columns))
      else Score 0 (pixelWidth f * columns))"
  by (simp add: fontScore_def halvable_def wideEnough_def Let_def)

text \<open>
  C37. For every code page the agent finds a font. When a size of its table keeps the window wide
  enough even for half of the columns, the narrowest of these is chosen; otherwise the narrowest
  one for which all of the columns are wide enough; otherwise the widest one of the table.
\<close>

theorem small_font_choice:
  assumes "1 \<le> columns"
  shows "\<exists>f \<in> set (snd (fontTable win8 codePage isNew)).
     selectSmallFont win8 codePage columns isNew =
       Some \<lparr>faceName = fst (fontTable win8 codePage isNew), family = 0x36, fontSize = pixelSize f\<rparr> \<and>
     (\<forall>g \<in> set (snd (fontTable win8 codePage isNew)).
        (halvable columns g \<longrightarrow> halvable columns f \<and> pixelWidth f \<le> pixelWidth g) \<and>
        (wideEnough columns g \<longrightarrow> halvable columns f \<or>
           wideEnough columns f \<and> pixelWidth f \<le> pixelWidth g) \<and>
        (wideEnough columns f \<or> pixelWidth g \<le> pixelWidth f))"
proof -
  obtain k where k: "k < length (snd (fontTable win8 codePage isNew))"
    "selectSmallFont win8 codePage columns isNew =
       Some \<lparr>faceName = fst (fontTable win8 codePage isNew), family = 0x36,
             fontSize = pixelSize (snd (fontTable win8 codePage isNew) ! k)\<rparr>"
    "\<forall>g \<in> set (snd (fontTable win8 codePage isNew)).
       fontScore columns g \<le> fontScore columns (snd (fontTable win8 codePage isNew) ! k)"
    using selectSmallFont_best [of win8 codePage isNew columns] by blast
  define f where "f = snd (fontTable win8 codePage isNew) ! k"
  have "(halvable columns g \<longrightarrow> halvable columns f \<and> pixelWidth f \<le> pixelWidth g) \<and>
        (wideEnough columns g \<longrightarrow> halvable columns f \<or>
           wideEnough columns f \<and> pixelWidth f \<le> pixelWidth g) \<and>
        (wideEnough columns f \<or> pixelWidth g \<le> pixelWidth f)"
    if "fontScore columns g \<le> fontScore columns f" for g
    using that assms
    by (auto simp: fontScore_cases halvable_def split: if_splits)
  then show ?thesis using k by (intro bexI [of _ f]) (auto simp: f_def)
qed

theorem small_font_choice_witness:
  "\<exists>f \<in> set (snd (fontTable True 437 True)).
     selectSmallFont True 437 80 True =
       Some \<lparr>faceName = fst (fontTable True 437 True), family = 0x36, fontSize = pixelSize f\<rparr> \<and>
     (\<forall>g \<in> set (snd (fontTable True 437 True)).
        (halvable 80 g \<longrightarrow> halvable 80 f \<and> pixelWidth f \<le> pixelWidth g) \<and>
        (wideEnough 80 g \<longrightarrow> halvable 80 f \<or> wideEnough 80 f \<and> pixelWidth f \<le> pixelWidth g) \<and>
        (wideEnough 80 f \<or> pixelWidth g \<le> pixelWidth f))"
  by (rule small_font_choice) simp

end
