(* ===== verification/Scraper.thy ===== *)
theory Scraper
  imports LargeConsoleRead ConsoleFont ConsoleLine Terminal
begin

text \<open>
  The scraper (src/agent/Scraper.cc): it watches one screen buffer of the console and sends the
  lines that changed to the terminal. In scrolling mode a marker that the scraper writes into the
  history of the buffer shows how far the buffer has scrolled; in direct mode, which a program
  enters by giving the buffer another height, the window is compared line by line.

  \<^term>\<open>None\<close> stands for a failed assertion, \<open>abort\<close> and for an access outside of an array. The
  64-bit line counters and the \<open>int\<close> expressions are unbounded integers: they would only overflow
  after \<open>2 ^ 63\<close> lines, and the conversions that the code checks are checked here.
\<close>

section \<open>State\<close>

definition BUFFER_LINE_COUNT :: int where "BUFFER_LINE_COUNT = 3000"
definition SYNC_MARKER_LEN :: int where "SYNC_MARKER_LEN = 16"
definition SYNC_MARKER_MARGIN :: int where "SYNC_MARKER_MARGIN = 200"

record ScraperState =
  m_console :: ConsoleState
  scTerminal :: TerminalState
  m_syncRow :: int
  m_syncCounter :: u32
  m_directMode :: bool
  m_ptySize :: Coord
  m_scrapedLineCount :: int
  m_scrolledCount :: int
  m_maxBufferedLine :: int
  m_readBuffer :: LargeConsoleReadBuffer
  m_bufferData :: "ConsoleLineState list"
  m_dirtyWindowTop :: int
  m_dirtyLineCount :: int

definition onConsole :: "(ConsoleState \<Rightarrow> ConsoleState) \<Rightarrow> ScraperState \<Rightarrow> ScraperState" where
  "onConsole f s = s\<lparr>m_console := f (m_console s)\<rparr>"

definition onTerminal :: "(TerminalState \<Rightarrow> TerminalState) \<Rightarrow> ScraperState \<Rightarrow> ScraperState" where
  "onTerminal f s = s\<lparr>scTerminal := f (scTerminal s)\<rparr>"

definition queryInfo :: "ConsoleEnv \<Rightarrow> int \<Rightarrow> ScraperState \<Rightarrow> ConsoleInfo \<times> ScraperState" where
  "queryInfo env h s =
     (let (info, con) = bufferInfo env h (m_console s) in (info, s\<lparr>m_console := con\<rparr>))"

text \<open>The \<open>ConsoleLine\<close> of a virtual line; a negative index is outside of the vector.\<close>

definition bufIndex :: "int \<Rightarrow> nat option" where
  "bufIndex line = (if line < 0 then None else Some (nat (line mod BUFFER_LINE_COUNT)))"

section \<open>Tracking\<close>

definition resetConsoleTracking :: "SendClearFlag \<Rightarrow> int \<Rightarrow> ScraperState \<Rightarrow> ScraperState" where
  "resetConsoleTracking sendClear scrapedLineCount s =
     s\<lparr>m_bufferData := map resetLine (m_bufferData s), m_syncRow := - 1,
       m_scrapedLineCount := scrapedLineCount, m_scrolledCount := 0, m_maxBufferedLine := - 1,
       m_dirtyWindowTop := - 1, m_dirtyLineCount := 0,
       scTerminal := resetTerminal sendClear scrapedLineCount (scTerminal s)\<rparr>"

definition markEntireWindowDirty :: "SmallRect \<Rightarrow> ScraperState \<Rightarrow> ScraperState option" where
  "markEntireWindowDirty windowRect s = do {
     ht \<leftarrow> rect_height windowRect;
     Some (s\<lparr>m_dirtyLineCount := max (m_dirtyLineCount s) (Top windowRect + ht)\<rparr>)
   }"

text \<open>The cells of a line that was read, at least \<open>w\<close> of them.\<close>

definition cellsAt :: "LargeConsoleReadBuffer \<Rightarrow> int \<Rightarrow> int \<Rightarrow> CHAR_INFO list option" where
  "cellsAt b line w = do {
     cells \<leftarrow> lineCells b line;
     if w < 1 \<or> int (length cells) < w then None else Some cells
   }"

definition scanLine :: "LargeConsoleReadBuffer \<Rightarrow> int \<Rightarrow> int \<Rightarrow> u16 \<times> int \<Rightarrow> (u16 \<times> int) option" where
  "scanLine b w line acc = (case acc of (prevLineAttr, dirty) \<Rightarrow> do {
     cells \<leftarrow> cellsAt b line w;
     let found = list_ex (\<lambda>c. cellChar c \<noteq> 0x20 \<or> Attributes c \<noteq> prevLineAttr) (take (nat w) cells);
     Some (Attributes (cells ! nat (w - 1)), if found then line + 1 else dirty)
   })"

definition scanForDirtyLines :: "SmallRect \<Rightarrow> ScraperState \<Rightarrow> ScraperState option" where
  "scanForDirtyLines windowRect s = do {
     let b = m_readBuffer s;
     w \<leftarrow> rect_width (m_rect b);
     ASSERT (m_dirtyLineCount s \<ge> 1);
     prevLine \<leftarrow> cellsAt b (m_dirtyLineCount s - 1) w;
     let prevLineAttr = Attributes (prevLine ! nat (w - 1));
     ht \<leftarrow> rect_height windowRect;
     (_, dirty) \<leftarrow> foreach (scanLine b w) [m_dirtyLineCount s..Top windowRect + ht - 1]
       (prevLineAttr, m_dirtyLineCount s);
     Some (s\<lparr>m_dirtyLineCount := dirty\<rparr>)
   }"

definition clearBufferRow :: "int \<Rightarrow> ScraperState \<Rightarrow> ScraperState option" where
  "clearBufferRow row s = do {
     let bufLine = row + m_scrolledCount s;
     k \<leftarrow> bufIndex bufLine;
     if k < length (m_bufferData s)
     then Some (s\<lparr>m_maxBufferedLine := max (m_maxBufferedLine s) bufLine,
                  m_bufferData := (m_bufferData s)[k := blankLine kDefaultAttributes (m_bufferData s ! k)]\<rparr>)
     else None
   }"

definition clearBufferLines :: "int \<Rightarrow> int \<Rightarrow> ScraperState \<Rightarrow> ScraperState option" where
  "clearBufferLines firstRow count s = do {
     ASSERT (\<not> m_directMode s);
     foreach clearBufferRow [firstRow..firstRow + count - 1] s
   }"

definition cursorInWindow :: "ConsoleInfo \<Rightarrow> bool" where
  "cursorInWindow info \<longleftrightarrow>
     Y (dwCursorPosition info) \<ge> Top (srWindow info) \<and> Y (dwCursorPosition info) \<le> Bottom (srWindow info)"

section \<open>The synchronization marker\<close>

definition syncMarkerText :: "u32 \<Rightarrow> CHAR_INFO list" where
  "syncMarkerText counter =
     map (\<lambda>c. \<lparr>Attributes = 7, cellChar = of_char c\<rparr>)
       (take (nat SYNC_MARKER_LEN) (''S*Y*N*C*'' @ paddedHex 8 (unat counter)))"

definition markerAt :: "CHAR_INFO list \<Rightarrow> CHAR_INFO list \<Rightarrow> nat \<Rightarrow> bool" where
  "markerAt column marker i \<longleftrightarrow>
     list_all (\<lambda>j. cellChar (column ! (i + j)) = cellChar (marker ! j)) [0..<nat SYNC_MARKER_LEN]"

fun searchMarker :: "CHAR_INFO list \<Rightarrow> CHAR_INFO list \<Rightarrow> nat \<Rightarrow> int" where
  "searchMarker column marker i =
     (if markerAt column marker i then int i
      else case i of 0 \<Rightarrow> - 1 | Suc j \<Rightarrow> searchMarker column marker j)"

declare searchMarker.simps [simp del]

definition findSyncMarker :: "ConsoleEnv \<Rightarrow> int \<Rightarrow> ScraperState \<Rightarrow> (int \<times> ScraperState) option" where
  "findSyncMarker env h s = do {
     ASSERT (m_syncRow s \<ge> 0);
     let marker = syncMarkerText (m_syncCounter s);
     ht \<leftarrow> checkedNarrow SHORT_range (m_syncRow s + SYNC_MARKER_LEN);
     rect \<leftarrow> mkSmallRect 0 0 1 ht;
     (column, con) \<leftarrow> readBuffer env h rect
       (stackCells env (history (m_console s)) (nat BUFFER_LINE_COUNT)) (m_console s);
     Some (searchMarker column marker (nat (m_syncRow s)), s\<lparr>m_console := con\<rparr>)
   }"

definition createSyncMarker :: "ConsoleEnv \<Rightarrow> int \<Rightarrow> int \<Rightarrow> ScraperState \<Rightarrow> ScraperState option" where
  "createSyncMarker env h row s = do {
     ASSERT (row \<ge> 1);
     let (info, s1) = queryInfo env h s;
     con \<leftarrow> clearLines h (row - 1) (SYNC_MARKER_LEN + 1) info (m_console s1);
     let s2 = s1\<lparr>m_console := con, m_syncCounter := m_syncCounter s1 + 1\<rparr>;
     let marker = syncMarkerText (m_syncCounter s2);
     let s3 = s2\<lparr>m_syncRow := row\<rparr>;
     y \<leftarrow> checkedNarrow SHORT_range (m_syncRow s3);
     markerRect \<leftarrow> mkSmallRect 0 y 1 SYNC_MARKER_LEN;
     con2 \<leftarrow> writeBuffer h markerRect marker (m_console s3);
     Some (s3\<lparr>m_console := con2\<rparr>)
   }"

section \<open>Attributes\<close>

definition attributesMask :: "ConsoleEnv \<Rightarrow> int \<Rightarrow> ScraperState \<Rightarrow> u16 \<times> ScraperState" where
  "attributesMask env h s =
     (let s1 = onConsole (callConsole GetOutputCP) s;
          isCjk = isCjkCodePage (outputCodePage env (history (m_console s1)));
          s2 = onConsole (callConsole (GetOutputMode h)) s1;
          modeBits = (case outputMode env (history (m_console s2)) of None \<Rightarrow> 0 | Some m \<Rightarrow> m);
          hasLvbGrid = (modeBits AND 0x10 \<noteq> 0);
          hasVtProcessing = (modeBits AND 0x4 \<noteq> 0);
          isReverseSupported = (isCjk \<or> hasLvbGrid \<or> hasVtProcessing \<or> m_isNewW10 (m_console s2));
          isUnderscoreSupported = (isCjk \<or> hasLvbGrid \<or> hasVtProcessing);
          mask0 = 0xFFFF :: u16;
          mask1 = (if \<not> isReverseSupported then mask0 AND NOT COMMON_LVB_REVERSE_VIDEO else mask0);
          mask2 = (if \<not> isUnderscoreSupported then mask1 AND NOT COMMON_LVB_UNDERSCORE else mask1)
      in (mask2, s2))"

text \<open>The large read into \<open>m_readBuffer\<close>, whose mask is computed first.\<close>

definition scrapeRead :: "ConsoleEnv \<Rightarrow> int \<Rightarrow> SmallRect \<Rightarrow> ScraperState \<Rightarrow> ScraperState option" where
  "scrapeRead env h area s = do {
     let (msk, s1) = attributesMask env h s;
     (b, con) \<leftarrow> largeConsoleRead env h area msk (m_readBuffer s1) (m_console s1);
     Some (s1\<lparr>m_readBuffer := b, m_console := con\<rparr>)
   }"

section \<open>Direct mode\<close>

definition directLine :: "int \<Rightarrow> int \<Rightarrow> int \<Rightarrow> int \<Rightarrow> int \<Rightarrow> ScraperState \<Rightarrow> ScraperState option" where
  "directLine topRow w cursorColumn cursorLine line s = do {
     curLine \<leftarrow> cellsAt (m_readBuffer s) (topRow + line) w;
     if nat line < length (m_bufferData s) then do {
       (changed, bufLine) \<leftarrow> detectChangeAndSetLine curLine w (m_bufferData s ! nat line);
       let s1 = s\<lparr>m_bufferData := (m_bufferData s)[nat line := bufLine]\<rparr>;
       if changed then do {
         t \<leftarrow> sendLine line curLine w (if line = cursorLine then cursorColumn else - 1) (scTerminal s1);
         Some (s1\<lparr>scTerminal := t\<rparr>)
       }
       else Some s1
     }
     else None
   }"

definition directScrapeOutput :: "ConsoleEnv \<Rightarrow> int \<Rightarrow> ConsoleInfo \<Rightarrow> bool \<Rightarrow> ScraperState \<Rightarrow>
    ScraperState option" where
  "directScrapeOutput env h info consoleCursorVisible s = do {
     let windowRect = srWindow info;
     ww \<leftarrow> rect_width windowRect;
     wh \<leftarrow> rect_height windowRect;
     scrapeRect \<leftarrow> mkSmallRect (Left windowRect) (Top windowRect)
       (min (min ww (X (m_ptySize s))) MAX_CONSOLE_WIDTH) (min (min wh (Y (m_ptySize s))) BUFFER_LINE_COUNT);
     w \<leftarrow> rect_width scrapeRect;
     ht \<leftarrow> rect_height scrapeRect;
     let cursor = dwCursorPosition info;
     let visible = (consoleCursorVisible \<and> containsCoord scrapeRect cursor);
     let cursorColumn = (if visible then X cursor - Left scrapeRect else - 1);
     let cursorLine = (if visible then Y cursor - Top scrapeRect else - 1);
     let s1 = (if visible then s else onTerminal hideTerminalCursor s);
     s2 \<leftarrow> scrapeRead env h scrapeRect s1;
     s3 \<leftarrow> foreach (directLine (Top scrapeRect) w cursorColumn cursorLine) [0..ht - 1] s2;
     Some (if visible then onTerminal (showTerminalCursor cursorColumn cursorLine) s3 else s3)
   }"

section \<open>Scrolling mode\<close>

text \<open>
  The parts of \<open>scrollingScrapeOutput\<close> in their order. The first component of a result is false
  where the code returns false.
\<close>

definition followMarker :: "ConsoleEnv \<Rightarrow> int \<Rightarrow> SmallRect \<Rightarrow> bool \<Rightarrow> ScraperState \<Rightarrow>
    (bool \<times> ScraperState) option" where
  "followMarker env h windowRect tentative s =
     (if m_syncRow s \<noteq> - 1 then do {
        (markerRow, s1) \<leftarrow> findSyncMarker env h s;
        if markerRow = - 1 then
          (if tentative then Some (False, s1)
           else Some (True, resetConsoleTracking SendClear (Top windowRect) s1))
        else if markerRow \<noteq> m_syncRow s1 then do {
          ASSERT (markerRow < m_syncRow s1);
          s2 \<leftarrow> markEntireWindowDirty windowRect
            (s1\<lparr>m_scrolledCount := m_scrolledCount s1 + (m_syncRow s1 - markerRow), m_syncRow := markerRow\<rparr>);
          Some (True, s2)
        }
        else Some (True, s1)
      }
      else Some (True, s))"

definition newSyncRow :: "SmallRect \<Rightarrow> int" where
  "newSyncRow windowRect = Top windowRect - SYNC_MARKER_LEN - SYNC_MARKER_MARGIN"

definition shouldCreateSyncRow :: "SmallRect \<Rightarrow> ScraperState \<Rightarrow> bool" where
  "shouldCreateSyncRow windowRect s \<longleftrightarrow>
     newSyncRow windowRect \<ge> m_syncRow s + SYNC_MARKER_LEN + SYNC_MARKER_MARGIN"

definition followWindow :: "SmallRect \<Rightarrow> bool \<Rightarrow> ScraperState \<Rightarrow> (bool \<times> ScraperState) option" where
  "followWindow windowRect tentative s =
     (if m_dirtyWindowTop s \<noteq> - 1 then
        (if Top windowRect > m_dirtyWindowTop s then do {
           s1 \<leftarrow> markEntireWindowDirty windowRect s;
           Some (True, s1)
         }
         else if Top windowRect < m_dirtyWindowTop s then
           (if tentative then Some (False, s)
            else Some (True, resetConsoleTracking SendClear (Top windowRect) s))
         else Some (True, s))
      else Some (True, s))"

definition countDirtyLines :: "ConsoleInfo \<Rightarrow> ScraperState \<Rightarrow> ScraperState" where
  "countDirtyLines info s =
     s\<lparr>m_dirtyWindowTop := Top (srWindow info),
       m_dirtyLineCount := max (max (m_dirtyLineCount s) (Y (dwCursorPosition info) + 1))
         (Top (srWindow info))\<rparr>"

definition firstVirtLine :: "SmallRect \<Rightarrow> ScraperState \<Rightarrow> int" where
  "firstVirtLine windowRect s = min (m_scrapedLineCount s) (Top windowRect + m_scrolledCount s)"

definition readDirtyLines :: "ConsoleEnv \<Rightarrow> int \<Rightarrow> ConsoleInfo \<Rightarrow> ScraperState \<Rightarrow> ScraperState option" where
  "readDirtyLines env h info s = do {
     let windowRect = srWindow info;
     first \<leftarrow> checkedNarrow int_range (firstVirtLine windowRect s - m_scrolledCount s);
     let firstReadLine = min first (m_dirtyLineCount s - 1);
     wh \<leftarrow> rect_height windowRect;
     let stopReadLine = max (Top windowRect + wh) (m_dirtyLineCount s);
     ASSERT (firstReadLine \<ge> 0 \<and> stopReadLine > firstReadLine);
     y \<leftarrow> checkedNarrow SHORT_range firstReadLine;
     n \<leftarrow> checkedNarrow SHORT_range (stopReadLine - firstReadLine);
     area \<leftarrow> mkSmallRect 0 y (min (X (dwSize info)) MAX_CONSOLE_WIDTH) n;
     scrapeRead env h area s
   }"

definition stillInSync :: "ConsoleEnv \<Rightarrow> int \<Rightarrow> ConsoleInfo \<Rightarrow> ScraperState \<Rightarrow>
    (bool \<times> ScraperState) option" where
  "stillInSync env h info s =
     (let (infoCheck, s1) = queryInfo env h s
      in if dwSize info \<noteq> dwSize infoCheck \<or> srWindow info \<noteq> srWindow infoCheck \<or>
            dwCursorPosition info \<noteq> dwCursorPosition infoCheck
         then Some (False, s1)
         else if m_syncRow s1 \<noteq> - 1 then do {
           (row, s2) \<leftarrow> findSyncMarker env h s1;
           Some (m_syncRow s1 = row, s2)
         }
         else Some (True, s1))"

text \<open>The loop that sends the lines; its state has the flag \<open>sawModifiedLine\<close>.\<close>

definition scrapeLine :: "int \<Rightarrow> int \<Rightarrow> int \<Rightarrow> int \<Rightarrow> bool \<times> ScraperState \<Rightarrow>
    (bool \<times> ScraperState) option" where
  "scrapeLine w cursorColumn cursorLine line acc = (case acc of (saw0, s) \<Rightarrow> do {
     row \<leftarrow> checkedNarrow int_range (line - m_scrolledCount s);
     curLine \<leftarrow> cellsAt (m_readBuffer s) row w;
     k \<leftarrow> bufIndex line;
     if k < length (m_bufferData s) then do {
       let bufLine = m_bufferData s ! k;
       let saw1 = (saw0 \<or> line > m_maxBufferedLine s);
       let s1 = s\<lparr>m_maxBufferedLine := max (m_maxBufferedLine s) line\<rparr>;
       (saw, bufLine') \<leftarrow> (if saw1 then Some (True, setLine curLine w bufLine)
                           else detectChangeAndSetLine curLine w bufLine);
       let s2 = s1\<lparr>m_bufferData := (m_bufferData s1)[k := bufLine']\<rparr>;
       if saw then do {
         t \<leftarrow> sendLine line curLine w (if line = cursorLine then cursorColumn else - 1) (scTerminal s2);
         Some (True, s2\<lparr>scTerminal := t\<rparr>)
       }
       else Some (False, s2)
     }
     else None
   })"

definition sendDirtyLines :: "ConsoleInfo \<Rightarrow> bool \<Rightarrow> int \<Rightarrow> ScraperState \<Rightarrow> ScraperState option" where
  "sendDirtyLines info consoleCursorVisible firstLine s = do {
     let windowRect = srWindow info;
     let cursor = dwCursorPosition info;
     s1 \<leftarrow> scanForDirtyLines windowRect s;
     wh \<leftarrow> rect_height windowRect;
     let stopVirtLine = min (m_dirtyLineCount s1) (Top windowRect + wh) + m_scrolledCount s1;
     let visible = (consoleCursorVisible \<and> containsCoord windowRect cursor);
     let cursorLine = (if visible then Y cursor + m_scrolledCount s1 else - 1);
     let cursorColumn = (if visible then X cursor else - 1);
     let s2 = (if visible then s1 else onTerminal hideTerminalCursor s1);
     w \<leftarrow> rect_width (m_rect (m_readBuffer s2));
     (_, s3) \<leftarrow> foreach (scrapeLine w cursorColumn cursorLine) [firstLine..stopVirtLine - 1] (False, s2);
     let s4 = s3\<lparr>m_scrapedLineCount := Top windowRect + m_scrolledCount s3\<rparr>;
     Some (if visible then onTerminal (showTerminalCursor cursorColumn cursorLine) s4 else s4)
   }"

definition scrapeDirtyLines :: "ConsoleEnv \<Rightarrow> int \<Rightarrow> ConsoleInfo \<Rightarrow> bool \<Rightarrow> bool \<Rightarrow> bool \<Rightarrow> ScraperState \<Rightarrow>
    (bool \<times> ScraperState) option" where
  "scrapeDirtyLines env h info consoleCursorVisible tentative createRow s0 = do {
     let s = countDirtyLines info s0;
     ASSERT (m_dirtyLineCount s \<ge> 1);
     let firstLine = firstVirtLine (srWindow info) s;
     s1 \<leftarrow> readDirtyLines env h info s;
     (same, s2) \<leftarrow> (if tentative then stillInSync env h info s1 else Some (True, s1));
     if \<not> same then Some (False, s2)
     else do {
       s3 \<leftarrow> (if createRow then do {
                 ASSERT (\<not> tentative);
                 createSyncMarker env h (newSyncRow (srWindow info)) s2
               }
               else Some s2);
       s4 \<leftarrow> sendDirtyLines info consoleCursorVisible firstLine s3;
       Some (True, s4)
     }
   }"

definition scrollingScrapeOutput :: "ConsoleEnv \<Rightarrow> int \<Rightarrow> ConsoleInfo \<Rightarrow> bool \<Rightarrow> bool \<Rightarrow> ScraperState \<Rightarrow>
    (bool \<times> ScraperState) option" where
  "scrollingScrapeOutput env h info consoleCursorVisible tentative s = do {
     (ok1, s1) \<leftarrow> followMarker env h (srWindow info) tentative s;
     if \<not> ok1 then Some (False, s1)
     else if tentative \<and> shouldCreateSyncRow (srWindow info) s1 then Some (False, s1)
     else do {
       (ok2, s2) \<leftarrow> followWindow (srWindow info) tentative s1;
       if \<not> ok2 then Some (False, s2)
       else scrapeDirtyLines env h info consoleCursorVisible tentative
              (shouldCreateSyncRow (srWindow info) s1) s2
     }
   }"

section \<open>Resizing\<close>

definition hideHistory :: "ConsoleEnv \<Rightarrow> int \<Rightarrow> ConsoleInfo \<Rightarrow> int \<Rightarrow> ScraperState \<Rightarrow> ScraperState option" where
  "hideHistory env h origInfo rows s =
     (if m_directMode s then Some (s\<lparr>m_bufferData := map resetLine (m_bufferData s)\<rparr>)
      else do {
        con \<leftarrow> clearLines h 0 (Top (srWindow origInfo)) origInfo (m_console s);
        s1 \<leftarrow> clearBufferLines 0 (Top (srWindow origInfo)) (s\<lparr>m_console := con\<rparr>);
        if m_syncRow s1 \<noteq> - 1
        then createSyncMarker env h
               (min (m_syncRow s1) (BUFFER_LINE_COUNT - rows - SYNC_MARKER_LEN - SYNC_MARKER_MARGIN)) s1
        else Some s1
      })"

definition finalBufferSize :: "ConsoleInfo \<Rightarrow> int \<Rightarrow> int \<Rightarrow> Coord option" where
  "finalBufferSize origInfo cols rows = do {
     x \<leftarrow> checkedNarrow SHORT_range cols;
     wh \<leftarrow> rect_height (srWindow origInfo);
     y \<leftarrow> (if wh = Y (dwSize origInfo) then checkedNarrow SHORT_range rows
           else checkedNarrow SHORT_range (max rows (Y (dwSize origInfo))));
     Some (mkCoord x y)
   }"

definition shrinkWindow :: "ConsoleEnv \<Rightarrow> int \<Rightarrow> int \<Rightarrow> int \<Rightarrow> ScraperState \<Rightarrow> ScraperState option" where
  "shrinkWindow env h visibleCols visibleRows s = do {
     let (info, s1) = queryInfo env h (onConsole (setFrozen True) s);
     let tmpWindowWidth = min (X (dwSize info)) visibleCols;
     let tmpWindowHeight = min (Y (dwSize info)) visibleRows;
     y \<leftarrow> checkedNarrow SHORT_range (min (Y (dwSize info) - tmpWindowHeight) (Top (srWindow info)));
     w \<leftarrow> checkedNarrow SHORT_range tmpWindowWidth;
     ht \<leftarrow> checkedNarrow SHORT_range tmpWindowHeight;
     tmpWindowRect \<leftarrow> mkSmallRect 0 y w ht;
     r \<leftarrow> (if cursorInWindow info then ensureLineIncluded tmpWindowRect (Y (dwCursorPosition info))
           else Some tmpWindowRect);
     Some (onConsole (moveWindow h r) s1)
   }"

definition finalWindow :: "bool \<Rightarrow> int \<Rightarrow> ConsoleInfo \<Rightarrow> int \<Rightarrow> int \<Rightarrow> SmallRect option" where
  "finalWindow directMode dirtyLineCount info visibleCols visibleRows = do {
     y \<leftarrow> checkedNarrow SHORT_range (min (Y (dwSize info) - visibleRows) (Top (srWindow info)));
     r0 \<leftarrow> mkSmallRect 0 y visibleCols visibleRows;
     r1 \<leftarrow> (if \<not> directMode \<and> dirtyLineCount > Bottom r0 + 1 then do {
              y1 \<leftarrow> checkedNarrow SHORT_range (dirtyLineCount - visibleRows);
              mkSmallRect 0 y1 visibleCols visibleRows
            }
            else Some r0);
     if cursorInWindow info then ensureLineIncluded r1 (Y (dwCursorPosition info)) else Some r1
   }"

definition expandWindow :: "ConsoleEnv \<Rightarrow> int \<Rightarrow> int \<Rightarrow> int \<Rightarrow> ScraperState \<Rightarrow> ScraperState option" where
  "expandWindow env h visibleCols visibleRows s = do {
     let (info, s1) = queryInfo env h (onConsole (setFrozen True) s);
     r \<leftarrow> finalWindow (m_directMode s1) (m_dirtyLineCount s1) info visibleCols visibleRows;
     Some ((onConsole (moveWindow h r) s1)\<lparr>m_dirtyWindowTop := Top r\<rparr>)
   }"

definition resizeImpl :: "ConsoleEnv \<Rightarrow> int \<Rightarrow> ConsoleInfo \<Rightarrow> ScraperState \<Rightarrow> ScraperState option" where
  "resizeImpl env h origInfo s = do {
     ASSERT (m_frozen (m_console s));
     let cols = X (m_ptySize s);
     let rows = Y (m_ptySize s);
     s1 \<leftarrow> hideHistory env h origInfo rows s;
     finalSize \<leftarrow> finalBufferSize origInfo cols rows;
     let s2 = onConsole (setFrozen False) s1;
     con3 \<leftarrow> setSmallFont env h cols (m_isNewW10 (m_console s2)) (m_console s2);
     let con4 = callConsole (GetLargestWindow h) con3;
     let largest = largestWindow env (history con4);
     narrowCols \<leftarrow> checkedNarrow SHORT_range cols;
     narrowRows \<leftarrow> checkedNarrow SHORT_range rows;
     let visibleCols = min narrowCols (X largest);
     let visibleRows = min narrowRows (Y largest);
     s5 \<leftarrow> shrinkWindow env h visibleCols visibleRows (s2\<lparr>m_console := con4\<rparr>);
     let s6 = onConsole (snd \<circ> resizeBufferRange env h finalSize) (onConsole (setFrozen False) s5);
     s7 \<leftarrow> expandWindow env h visibleCols visibleRows s6;
     ASSERT (m_frozen (m_console s7));
     Some s7
   }"

section \<open>Synchronization\<close>

text \<open>
  \<open>enterMode\<close> switches between the modes and returns whether the console must be resized. The
  result of the whole is \<open>finalInfoOut\<close> and the state.
\<close>

definition enterMode :: "ConsoleInfo \<Rightarrow> bool \<Rightarrow> ScraperState \<Rightarrow> bool \<times> ScraperState" where
  "enterMode info forceResize s =
     (let newDirectMode = (Y (dwSize info) \<noteq> BUFFER_LINE_COUNT)
      in if newDirectMode \<noteq> m_directMode s then
           let s1 = (resetConsoleTracking SendClear (if newDirectMode then 0 else Top (srWindow info)) s)
                      \<lparr>m_directMode := newDirectMode\<rparr>
           in if \<not> newDirectMode then (True, onConsole (setFrozen True) s1) else (forceResize, s1)
         else (forceResize, s))"

definition scrapeScrolling :: "ConsoleEnv \<Rightarrow> int \<Rightarrow> ConsoleInfo \<Rightarrow> bool \<Rightarrow> ScraperState \<Rightarrow>
    ScraperState option" where
  "scrapeScrolling env h info visible s = do {
     s1 \<leftarrow> (if \<not> m_frozen (m_console s) then do {
              (done, t) \<leftarrow> scrollingScrapeOutput env h info visible True s;
              Some (if \<not> done then onConsole (setFrozen True) t else t)
            }
            else Some s);
     if m_frozen (m_console s1)
     then map_option snd (scrollingScrapeOutput env h info visible False s1)
     else Some s1
   }"

definition syncConsoleContentAndSize :: "ConsoleEnv \<Rightarrow> int \<Rightarrow> bool \<Rightarrow> ScraperState \<Rightarrow>
    (ConsoleInfo \<times> ScraperState) option" where
  "syncConsoleContentAndSize env h force s = do {
     let s1 = (if \<not> m_isNewW10 (m_console s) \<or> force then onConsole (setFrozen True) s else s);
     let (info, s2) = queryInfo env h s1;
     let s3 = onConsole (callConsole GetCursorInfo) s2;
     let visible = (case cursorVisible env (history (m_console s3)) of None \<Rightarrow> True | Some v \<Rightarrow> v);
     let (forceResize, s4) = enterMode info force s3;
     s5 \<leftarrow> (if m_directMode s4 then do {
              t \<leftarrow> (if forceResize then resizeImpl env h info s4 else Some s4);
              directScrapeOutput env h info visible t
            }
            else do {
              t \<leftarrow> scrapeScrolling env h info visible s4;
              if forceResize then resizeImpl env h info t else Some t
            });
     Some (if forceResize then queryInfo env h s5 else (info, s5))
   }"

definition scrapeBuffer :: "ConsoleEnv \<Rightarrow> int \<Rightarrow> ScraperState \<Rightarrow> (ConsoleInfo \<times> ScraperState) option" where
  "scrapeBuffer env h s = syncConsoleContentAndSize env h False s"

definition resizeScraper :: "ConsoleEnv \<Rightarrow> int \<Rightarrow> Coord \<Rightarrow> ScraperState \<Rightarrow>
    (ConsoleInfo \<times> ScraperState) option" where
  "resizeScraper env h newSize s = syncConsoleContentAndSize env h True (s\<lparr>m_ptySize := newSize\<rparr>)"

section \<open>Construction\<close>

definition newScraper :: "ConsoleEnv \<Rightarrow> int \<Rightarrow> TerminalState \<Rightarrow> Coord \<Rightarrow> ConsoleState \<Rightarrow>
    ScraperState option" where
  "newScraper env h terminal initialSize con = do {
     let s0 = \<lparr>m_console = con, scTerminal = terminal, m_syncRow = - 1, m_syncCounter = 0,
               m_directMode = False, m_ptySize = initialSize, m_scrapedLineCount = 0,
               m_scrolledCount = 0, m_maxBufferedLine = - 1, m_readBuffer = newLargeBuffer,
               m_bufferData = [], m_dirtyWindowTop = - 1, m_dirtyLineCount = 0\<rparr>;
     let (info, s1) = queryInfo env h s0;
     let s2 = (resetConsoleTracking OmitClear (Top (srWindow info)) s1)
                \<lparr>m_bufferData := replicate (nat BUFFER_LINE_COUNT) newConsoleLine\<rparr>;
     con3 \<leftarrow> setSmallFont env h (X initialSize) (m_isNewW10 (m_console s2)) (m_console s2);
     r1 \<leftarrow> mkSmallRect 0 0 1 1;
     let con4 = snd (resizeBufferRange env h (mkCoord (X initialSize) BUFFER_LINE_COUNT)
                  (moveWindow h r1 con3));
     let con5 = callConsole (GetLargestWindow h) con4;
     let largest = largestWindow env (history con5);
     r2 \<leftarrow> mkSmallRect 0 0 (min (X initialSize) (X largest)) (min (Y initialSize) (Y largest));
     let con6 = setTextAttribute h kDefaultAttributes
                  (setCursorPosition h (mkCoord 0 0) (moveWindow h r2 con5));
     let (info2, con7) = bufferInfo env h con6;
     con8 \<leftarrow> clearAllLines h info2 con7;
     Some (s2\<lparr>m_console := con8\<rparr>)
   }"

end
