(* ===== verification/AgentControl.thy ===== *)
theory AgentControl
  imports ConsoleInput NamedPipe Scraper
begin

text \<open>
  The agent (src/agent/Agent.cc): the control pipe with its packets, the input pipe that feeds
  \<open>ConsoleInput\<close>, the output pipes with the terminal, and the shutdown after the child process
  has exited. A handler may end the process (a failed assertion, \<^term>\<open>None\<close>), throw
  (\<^term>\<open>Inl\<close>) or return the next state. The calls to Windows are answered by an environment.
  The agent owns the console window and the scrapers, which all refer to the same window; what
  their terminals send goes to the output pipes. A log records what concerns the child process and
  when the console is scraped and resized.
\<close>

section \<open>Results that may throw\<close>

type_synonym 'a outcome = "(Exn + 'a) option"

definition obind :: "'a outcome \<Rightarrow> ('a \<Rightarrow> 'c outcome) \<Rightarrow> 'c outcome" where
  "obind m f = (case m of
      None \<Rightarrow> None
    | Some (Inl e) \<Rightarrow> Some (Inl e)
    | Some (Inr x) \<Rightarrow> f x)"

lemma obind_Inr: "obind m f = Some (Inr y) \<longleftrightarrow> (\<exists>x. m = Some (Inr x) \<and> f x = Some (Inr y))"
  by (auto simp: obind_def split: option.splits sum.splits)

lemma obind_simps [simp]:
  "obind None f = None" "obind (Some (Inl e)) f = Some (Inl e)" "obind (Some (Inr x)) f = f x"
  by (simp_all add: obind_def)

section \<open>Environment and state\<close>

text \<open>
  The strings of a \<open>CreateProcessW\<close> call (\<^term>\<open>None\<close> for a null pointer) and its answer: the
  process and thread handles, or the error code.
\<close>

record SpawnCall =
  programArg :: "wstring option"
  cmdlineArg :: "wstring option"
  cwdArg :: "wstring option"
  envArg :: "wstring option"
  inheritHandles :: bool

datatype CreateAnswer = Created u64 u64 | CreateFailed u32

record AgentEnv =
  createProcess :: "SpawnCall \<Rightarrow> CreateAnswer"
  duplicateHandle :: "u64 \<Rightarrow> u64 option"
  consoleProcessList :: "nat \<Rightarrow> nat \<Rightarrow> u32 \<times> u32 list"
  childExited :: bool
  wideCharToMultiByte :: "wstring \<Rightarrow> int \<Rightarrow> int \<times> string"
  consoleEnv :: ConsoleEnv
  conoutHandle :: "int option"
  stdoutHandle :: int
  errorBufferHandle :: "int option"
  growString :: allocator
  inputSeparatedBytes :: bool
  inputEnv :: Env

datatype AgentEffect =
    Spawned SpawnCall u64
  | SpawnFailed SpawnCall u32
  | ClosedHandle u64
  | Resized int int
  | BufferSizeEvent Coord
  | Scraped

record AgentState =
  m_useConerr :: bool
  m_plainMode :: bool
  m_controlPipe :: "u8 Pipe"
  m_coninPipe :: "char Pipe"
  m_conoutPipe :: "char Pipe"
  m_conerrPipe :: "char Pipe option"
  m_autoShutdown :: bool
  m_exitAfterShutdown :: bool
  m_closingOutputPipes :: bool
  m_consoleInput :: ConsoleInputState
  m_childProcess :: "u64 option"
  m_currentTitle :: wstring
  theConsole :: ConsoleState
  m_errorBuffer :: "int option"
  m_primaryScraper :: ScraperState
  m_errorScraper :: "ScraperState option"
  m_exiting :: bool
  agentLog :: "AgentEffect list"

definition logEffect :: "AgentEffect \<Rightarrow> AgentState \<Rightarrow> AgentState" where
  "logEffect e ag = ag\<lparr>agentLog := agentLog ag @ [e]\<rparr>"

definition VT7PTY_SPAWN_FLAG_AUTO_SHUTDOWN :: u64 where "VT7PTY_SPAWN_FLAG_AUTO_SHUTDOWN = 1"
definition VT7PTY_SPAWN_FLAG_EXIT_AFTER_SHUTDOWN :: u64 where
  "VT7PTY_SPAWN_FLAG_EXIT_AFTER_SHUTDOWN = 2"
definition VT7PTY_SPAWN_FLAG_MASK :: u64 where
  "VT7PTY_SPAWN_FLAG_MASK = VT7PTY_SPAWN_FLAG_AUTO_SHUTDOWN OR VT7PTY_SPAWN_FLAG_EXIT_AFTER_SHUTDOWN"


definition shutdown :: "AgentState \<Rightarrow> AgentState" where
  "shutdown ag = ag\<lparr>m_exiting := True\<rparr>"

section \<open>Packets\<close>

definition newPacket :: "u8 list" where
  "newPacket = putUInt64Raw 0 []"

definition sendPacket :: "u8 list \<Rightarrow> u8 Pipe \<Rightarrow> u8 Pipe outcome" where
  "sendPacket packet pipe =
     (if length packet > VT7PTY_MAX_CONTROL_PACKET_BYTES
      then Some (Inl (GeneralException (wliteral ''Control reply exceeds the protocol size limit'')))
      else do {
        bytes \<leftarrow> replaceRawData 0 (leBytes 8 (of_nat (length packet) :: u64)) packet;
        p \<leftarrow> pipeWrite bytes pipe;
        Some (Inr p)
      })"

definition writePacket :: "u8 list \<Rightarrow> AgentState \<Rightarrow> AgentState outcome" where
  "writePacket packet ag =
     obind (sendPacket packet (m_controlPipe ag)) (\<lambda>p. Some (Inr (ag\<lparr>m_controlPipe := p\<rparr>)))"

lemma writePacket_eq:
  "writePacket packet ag =
     (if length packet > VT7PTY_MAX_CONTROL_PACKET_BYTES
      then Some (Inl (GeneralException (wliteral ''Control reply exceeds the protocol size limit'')))
      else do {
        bytes \<leftarrow> replaceRawData 0 (leBytes 8 (of_nat (length packet) :: u64)) packet;
        p \<leftarrow> pipeWrite bytes (m_controlPipe ag);
        Some (Inr (ag\<lparr>m_controlPipe := p\<rparr>))
      })"
  by (auto simp: writePacket_def sendPacket_def split: bind_splits)

text \<open>The requests, as the handlers read them from a packet.\<close>

datatype AgentRequest =
    StartProcess u64 bool bool wstring wstring wstring wstring
  | SetSize u32 u32
  | GetConsoleProcessList

definition rguard :: "bool \<Rightarrow> unit reader" where
  "rguard ok = (if ok then rreturn () else rthrow DecodeError)"

definition readStartProcess :: "allocator \<Rightarrow> AgentRequest reader" where
  "readStartProcess grow =
     rbind getInt64 (\<lambda>spawnFlags.
     rbind getInt32 (\<lambda>processHandleValue.
     rbind getInt32 (\<lambda>threadHandleValue.
     rbind (rguard (spawnFlags AND VT7PTY_SPAWN_FLAG_MASK = spawnFlags \<and>
         (processHandleValue = 0 \<or> processHandleValue = 1) \<and>
         (threadHandleValue = 0 \<or> threadHandleValue = 1))) (\<lambda>_.
     rbind (getWString grow) (\<lambda>program.
     rbind (getWString grow) (\<lambda>cmdline.
     rbind (getWString grow) (\<lambda>cwd.
     rbind (getWString grow) (\<lambda>env.
     rbind assertEof (\<lambda>_.
     rreturn (StartProcess spawnFlags (processHandleValue \<noteq> 0) (threadHandleValue \<noteq> 0)
       program cmdline cwd env))))))))))"

definition readSetSize :: "AgentRequest reader" where
  "readSetSize =
     rbind getInt32 (\<lambda>cols. rbind getInt32 (\<lambda>rows. rbind assertEof (\<lambda>_.
     rbind (rguard (\<not> (sint cols < 1 \<or> sint rows < 1))) (\<lambda>_.
     rreturn (SetSize cols rows)))))"

definition readProcessListRequest :: "AgentRequest reader" where
  "readProcessListRequest = rbind assertEof (\<lambda>_. rreturn GetConsoleProcessList)"

definition readRequest :: "allocator \<Rightarrow> bool \<Rightarrow> AgentRequest reader" where
  "readRequest grow busy =
     rbind getInt32 (\<lambda>type.
     if type = MsgStartProcess then rbind (rguard (\<not> busy)) (\<lambda>_. readStartProcess grow)
     else if type = MsgSetSize then readSetSize
     else if type = MsgGetConsoleProcessList then readProcessListRequest
     else rthrow DecodeError)"

section \<open>The console\<close>

text \<open>
  The scrapers share the console window of the agent: an operation takes the state of the window
  along and leaves it behind. What its terminal has sent goes to the pipe.
\<close>

definition flushTerminal :: "ScraperState \<Rightarrow> char Pipe \<Rightarrow> (ScraperState \<times> char Pipe) option" where
  "flushTerminal s p = do {
     p1 \<leftarrow> (if sent (scTerminal s) = [] then Some p else pipeWrite (sent (scTerminal s)) p);
     Some (onTerminal (\<lambda>t. t\<lparr>sent := []\<rparr>) s, p1)
   }"

definition runScraper :: "(ScraperState \<Rightarrow> (ConsoleInfo \<times> ScraperState) option) \<Rightarrow> ConsoleState \<Rightarrow>
    ScraperState \<Rightarrow> char Pipe \<Rightarrow> (ConsoleInfo \<times> ConsoleState \<times> ScraperState \<times> char Pipe) option" where
  "runScraper f con s p = do {
     (info, s1) \<leftarrow> f (s\<lparr>m_console := con\<rparr>);
     (s2, p1) \<leftarrow> flushTerminal s1 p;
     Some (info, m_console s1, s2, p1)
   }"

definition openPrimaryBuffer :: "AgentEnv \<Rightarrow> bool \<Rightarrow> int option" where
  "openPrimaryBuffer env useConerr = (if \<not> useConerr then conoutHandle env else Some (stdoutHandle env))"

text \<open>
  The calls of \<open>scrapeBuffers\<close> and \<open>resizeWindow\<close> to the two scrapers; the window that the primary
  one reports becomes the area of the mouse.
\<close>

definition usePrimary :: "(ScraperState \<Rightarrow> (ConsoleInfo \<times> ScraperState) option) \<Rightarrow> AgentState \<Rightarrow>
    AgentState option" where
  "usePrimary f ag = do {
     (info, con, s, p) \<leftarrow> runScraper f (theConsole ag) (m_primaryScraper ag) (m_conoutPipe ag);
     Some (ag\<lparr>theConsole := con, m_primaryScraper := s, m_conoutPipe := p,
              m_consoleInput := setMouseWindowRect (srWindow info) (m_consoleInput ag)\<rparr>)
   }"

definition useError :: "(int \<Rightarrow> ScraperState \<Rightarrow> (ConsoleInfo \<times> ScraperState) option) \<Rightarrow> AgentState \<Rightarrow>
    AgentState option" where
  "useError f ag = (case m_errorScraper ag of
      None \<Rightarrow> Some ag
    | Some es \<Rightarrow> do {
        h \<leftarrow> m_errorBuffer ag;
        ep \<leftarrow> m_conerrPipe ag;
        (_, con, s, p) \<leftarrow> runScraper (f h) (theConsole ag) es ep;
        Some (ag\<lparr>theConsole := con, m_errorScraper := Some s, m_conerrPipe := Some p\<rparr>)
      })"

definition freezeGuard :: "bool \<Rightarrow> (AgentState \<Rightarrow> AgentState option) \<Rightarrow> AgentState \<Rightarrow> AgentState option" where
  "freezeGuard frozen body ag = do {
     let previous = m_frozen (theConsole ag);
     ag1 \<leftarrow> body (ag\<lparr>theConsole := setFrozen frozen (theConsole ag)\<rparr>);
     Some (ag1\<lparr>theConsole := setFrozen previous (theConsole ag1)\<rparr>)
   }"

section \<open>Handlers\<close>

definition nonEmpty :: "wstring \<Rightarrow> wstring \<Rightarrow> wstring option" where
  "nonEmpty str value = (if str = [] then None else Some value)"

definition wantedHandle :: "AgentEnv \<Rightarrow> bool \<Rightarrow> u64 \<Rightarrow> u64 option" where
  "wantedHandle env want h = (if want then duplicateHandle env h else Some 0)"

definition startProcess :: "AgentEnv \<Rightarrow> u64 \<Rightarrow> bool \<Rightarrow> bool \<Rightarrow> wstring \<Rightarrow> wstring \<Rightarrow> wstring \<Rightarrow> wstring \<Rightarrow>
    AgentState \<Rightarrow> AgentState outcome" where
  "startProcess env spawnFlags wantProcessHandle wantThreadHandle program cmdline cwd environ ag =
     (let call = \<lparr>programArg = nonEmpty program program, cmdlineArg = nonEmpty cmdline (cmdline @ [0]),
                  cwdArg = nonEmpty cwd cwd, envArg = nonEmpty environ environ,
                  inheritHandles = m_useConerr ag\<rparr>
      in case createProcess env call of
           Created hProcess hThread \<Rightarrow> do {
             replyProcess \<leftarrow> wantedHandle env wantProcessHandle hProcess;
             replyThread \<leftarrow> wantedHandle env wantThreadHandle hThread;
             let ag1 = (logEffect (ClosedHandle hThread) (logEffect (Spawned call hProcess) ag))
                  \<lparr>m_childProcess := Some hProcess,
                   m_autoShutdown := (spawnFlags AND VT7PTY_SPAWN_FLAG_AUTO_SHUTDOWN \<noteq> 0),
                   m_exitAfterShutdown := (spawnFlags AND VT7PTY_SPAWN_FLAG_EXIT_AFTER_SHUTDOWN \<noteq> 0)\<rparr>;
             writePacket (putInt64 replyThread (putInt64 replyProcess
               (putInt32 ResultProcessCreated newPacket))) ag1
           }
         | CreateFailed lastError \<Rightarrow>
             writePacket (putInt32 lastError (putInt32 ResultCreateProcessFailed newPacket))
               (logEffect (SpawnFailed call lastError) ag))"

definition resizeWindow :: "AgentEnv \<Rightarrow> int \<Rightarrow> int \<Rightarrow> AgentState \<Rightarrow> AgentState option" where
  "resizeWindow env cols rows ag0 = do {
     ASSERT (cols \<ge> 1 \<and> rows \<ge> 1);
     freezeGuard (m_frozen (theConsole ag0)) (\<lambda>ag. do {
       w \<leftarrow> checkedNarrow SHORT_range (min cols MAX_CONSOLE_WIDTH);
       ht \<leftarrow> checkedNarrow SHORT_range (min rows MAX_CONSOLE_HEIGHT);
       h \<leftarrow> openPrimaryBuffer env (m_useConerr ag);
       ag1 \<leftarrow> usePrimary (resizeScraper (consoleEnv env) h (mkCoord w ht)) ag;
       ag2 \<leftarrow> useError (\<lambda>eh. resizeScraper (consoleEnv env) eh (mkCoord w ht)) ag1;
       let (info, con) = bufferInfo (consoleEnv env) h (theConsole ag2);
       Some (logEffect (BufferSizeEvent (dwSize info)) (logEffect (Resized w ht) (ag2\<lparr>theConsole := con\<rparr>)))
     }) ag0
   }"

text \<open>
  The buffer of \<open>GetConsoleProcessList\<close> grows until the list fits; the \<open>n\<close>-th call may see
  another list. Past \<open>2^32\<close> entries the narrowing fails.
\<close>

function processListLoop :: "(nat \<Rightarrow> nat \<Rightarrow> u32 \<times> u32 list) \<Rightarrow> nat \<Rightarrow> nat \<Rightarrow> u32 \<times> u32 list \<Rightarrow>
    (u32 \<times> u32 list) option" where
  "processListLoop list n bufSize answer =
     (if bufSize < unat (fst answer) then do {
        doubled \<leftarrow> checkedNarrow DWORD_range (int (bufSize * 2));
        let newSize = max (nat doubled) (unat (fst answer));
        processListLoop list (Suc n) newSize (list n newSize)
      }
      else Some answer)"
  by pat_completeness auto
termination
  by (relation "measure (\<lambda>(list, n, bufSize, answer). 2 ^ 32 - bufSize)")
    (auto simp: isNarrowable_def range_defs)

declare processListLoop.simps [simp del]

definition listProcesses :: "AgentEnv \<Rightarrow> AgentState \<Rightarrow> AgentState outcome" where
  "listProcesses env ag = do {
     (count, entries) \<leftarrow> processListLoop (consoleProcessList env) 1 64 (consoleProcessList env 0 64);
     replyCount \<leftarrow> checkedNarrow int_range (uint count);
     let reply = putInt32 (word_of_int replyCount) newPacket;
     writePacket (fold putInt32 (take (unat count) entries) reply) ag
   }"

fun performRequest :: "AgentEnv \<Rightarrow> AgentRequest \<Rightarrow> AgentState \<Rightarrow> AgentState outcome" where
  "performRequest env (StartProcess spawnFlags wantP wantT program cmdline cwd environ) ag =
     startProcess env spawnFlags wantP wantT program cmdline cwd environ ag"
| "performRequest env (SetSize cols rows) ag = do {
     ag1 \<leftarrow> resizeWindow env (sint cols) (sint rows) ag;
     writePacket newPacket ag1
   }"
| "performRequest env GetConsoleProcessList ag = listProcesses env ag"

text \<open>A packet as \<open>pollControlPipe\<close> hands it to \<open>handlePacket\<close>, its size first.\<close>

definition handlePacket :: "AgentEnv \<Rightarrow> u8 list \<Rightarrow> AgentState \<Rightarrow> AgentState outcome" where
  "handlePacket env bytes ag =
     obind (rbind getUInt64Raw (\<lambda>_. readRequest (growString env)
         (m_childProcess ag \<noteq> None \<or> m_closingOutputPipes ag)) (newReadBuffer bytes))
       (\<lambda>(request, _). performRequest env request ag)"

section \<open>The control pipe\<close>

definition rejectControl :: "AgentState \<Rightarrow> AgentState" where
  "rejectControl ag = shutdown (ag\<lparr>m_controlPipe := closePipe (m_controlPipe ag)\<rparr>)"

lemma logEffect_simps [simp]:
  "m_controlPipe (logEffect e ag) = m_controlPipe ag" "m_conoutPipe (logEffect e ag) = m_conoutPipe ag"
  "m_coninPipe (logEffect e ag) = m_coninPipe ag" "m_conerrPipe (logEffect e ag) = m_conerrPipe ag"
  "m_childProcess (logEffect e ag) = m_childProcess ag" "m_exiting (logEffect e ag) = m_exiting ag"
  "m_closingOutputPipes (logEffect e ag) = m_closingOutputPipes ag"
  "m_useConerr (logEffect e ag) = m_useConerr ag" "m_plainMode (logEffect e ag) = m_plainMode ag"
  "m_consoleInput (logEffect e ag) = m_consoleInput ag"
  "theConsole (logEffect e ag) = theConsole ag" "m_errorBuffer (logEffect e ag) = m_errorBuffer ag"
  "m_primaryScraper (logEffect e ag) = m_primaryScraper ag" "m_errorScraper (logEffect e ag) = m_errorScraper ag"
  "m_currentTitle (logEffect e ag) = m_currentTitle ag"
  "agentLog (logEffect e ag) = agentLog ag @ [e]" "m_autoShutdown (logEffect e ag) = m_autoShutdown ag"
  "m_exitAfterShutdown (logEffect e ag) = m_exitAfterShutdown ag"
  by (simp_all add: logEffect_def)

lemma writePacket_facts:
  assumes "writePacket packet ag = Some (Inr ag')" and "8 \<le> length packet"
  shows "ag' = ag\<lparr>m_controlPipe := (m_controlPipe ag)\<lparr>outQueue := outQueue (m_controlPipe ag) @
      leBytes 8 (of_nat (length packet) :: u64) @ drop 8 packet\<rparr>\<rparr>"
    and "length packet \<le> VT7PTY_MAX_CONTROL_PACKET_BYTES"
    and "hasMode (openMode (m_controlPipe ag)) Writing"
  using assms
  by (auto simp: writePacket_eq replaceRawData_def pipeWrite_def ASSERT_bind_Some bind_eq_Some
      split: if_splits)

lemma length_put [simp]:
  "length newPacket = 8" "length (putInt32 i b) = length b + 5" "length (putInt64 j b) = length b + 9"
  by (simp_all add: newPacket_def putUInt64Raw_def putRawData_def putInt32_def putInt64_def)

lemma length_fold_putInt32 [simp]: "length (fold putInt32 is b) = length b + 5 * length is"
  by (induction "is" arbitrary: b) simp_all

text \<open>What a request may change.\<close>

definition appended :: "'b Pipe \<Rightarrow> 'b Pipe \<Rightarrow> bool" where
  "appended p p' \<longleftrightarrow> (\<exists>q. p' = p\<lparr>outQueue := outQueue p @ q\<rparr>)"

lemma appended_refl [simp]: "appended p p"
  unfolding appended_def by (rule exI [of _ "[]"]) simp

lemma appended_trans: "appended p q \<Longrightarrow> appended q r \<Longrightarrow> appended p r"
  by (auto simp: appended_def)

lemma pipeWrite_appended: "pipeWrite data p = Some p' \<Longrightarrow> appended p p'"
  by (auto simp: pipeWrite_def appended_def ASSERT_bind_Some)

lemma flushTerminal_appended: "flushTerminal s p = Some (s', p') \<Longrightarrow> appended p p'"
  by (auto simp: flushTerminal_def bind_eq_Some dest: pipeWrite_appended split: if_splits)

lemma runScraper_appended: "runScraper f con s p = Some (info, con', s', p') \<Longrightarrow> appended p p'"
  by (auto simp: runScraper_def bind_eq_Some dest: flushTerminal_appended)

lemma rel_appended_refl [simp]: "rel_option appended x x"
  by (cases x) simp_all

lemma rel_appended_trans: "rel_option appended x y \<Longrightarrow> rel_option appended y z \<Longrightarrow> rel_option appended x z"
  by (cases x; cases y; cases z) (auto intro: appended_trans)

text \<open>Work on the console changes the scrapers and the window, and appends to the output pipes.\<close>

definition consoleWork :: "AgentState \<Rightarrow> AgentState \<Rightarrow> bool" where
  "consoleWork ag ag' \<longleftrightarrow>
     m_useConerr ag' = m_useConerr ag \<and> m_plainMode ag' = m_plainMode ag \<and>
     m_controlPipe ag' = m_controlPipe ag \<and> m_coninPipe ag' = m_coninPipe ag \<and>
     appended (m_conoutPipe ag) (m_conoutPipe ag') \<and>
     rel_option appended (m_conerrPipe ag) (m_conerrPipe ag') \<and>
     m_autoShutdown ag' = m_autoShutdown ag \<and> m_exitAfterShutdown ag' = m_exitAfterShutdown ag \<and>
     m_closingOutputPipes ag' = m_closingOutputPipes ag \<and> m_childProcess ag' = m_childProcess ag \<and>
     m_currentTitle ag' = m_currentTitle ag \<and> m_errorBuffer ag' = m_errorBuffer ag \<and>
     m_exiting ag' = m_exiting ag \<and> (m_errorScraper ag' = None \<longleftrightarrow> m_errorScraper ag = None)"

lemma consoleWork_refl [simp]: "consoleWork ag ag"
  by (simp add: consoleWork_def)

lemma consoleWork_trans: "consoleWork ag ag1 \<Longrightarrow> consoleWork ag1 ag2 \<Longrightarrow> consoleWork ag ag2"
  unfolding consoleWork_def by (auto intro: appended_trans rel_appended_trans)

lemma consoleWork_simps [simp]:
  "consoleWork ag (ag'\<lparr>theConsole := con\<rparr>) = consoleWork ag ag'"
  "consoleWork (ag\<lparr>theConsole := con\<rparr>) ag' = consoleWork ag ag'"
  "consoleWork ag (logEffect e ag') = consoleWork ag ag'"
  by (simp_all add: consoleWork_def)

lemma usePrimary_work:
  "usePrimary f ag = Some ag' \<Longrightarrow> consoleWork ag ag' \<and> agentLog ag' = agentLog ag"
  by (auto simp: usePrimary_def consoleWork_def bind_eq_Some dest!: runScraper_appended)

lemma useError_work:
  "useError f ag = Some ag' \<Longrightarrow> consoleWork ag ag' \<and> agentLog ag' = agentLog ag"
  by (auto simp: useError_def consoleWork_def bind_eq_Some dest!: runScraper_appended split: option.splits)

text \<open>The guard is used with the state that the window has, so it only thaws what its body freezes.\<close>

lemma freezeGuard_own:
  "freezeGuard (m_frozen (theConsole ag)) body ag =
     map_option (\<lambda>ag1. ag1\<lparr>theConsole := setFrozen (m_frozen (theConsole ag)) (theConsole ag1)\<rparr>) (body ag)"
  by (cases "body ag") (simp_all add: freezeGuard_def setFrozen_def)

lemma resizeWindow_parts:
  assumes "resizeWindow env cols rows ag = Some ag'"
  shows "\<exists>w ht h ag1 ag2 sz con.
     usePrimary (resizeScraper (consoleEnv env) h (mkCoord w ht)) ag = Some ag1 \<and>
     useError (\<lambda>eh. resizeScraper (consoleEnv env) eh (mkCoord w ht)) ag1 = Some ag2 \<and>
     con = callConsole (GetScreenInfo h) (theConsole ag2) \<and>
     ag' = logEffect (BufferSizeEvent sz) (logEffect (Resized w ht)
       (ag2\<lparr>theConsole := setFrozen (m_frozen (theConsole ag)) con\<rparr>))"
proof -
  obtain w ht h ag1 ag2 where r: "usePrimary (resizeScraper (consoleEnv env) h (mkCoord w ht)) ag = Some ag1"
      "useError (\<lambda>eh. resizeScraper (consoleEnv env) eh (mkCoord w ht)) ag1 = Some ag2"
      "ag' = (let (info, con) = bufferInfo (consoleEnv env) h (theConsole ag2)
        in (logEffect (BufferSizeEvent (dwSize info)) (logEffect (Resized w ht) (ag2\<lparr>theConsole := con\<rparr>)))
          \<lparr>theConsole := setFrozen (m_frozen (theConsole ag)) con\<rparr>)"
    using assms unfolding resizeWindow_def freezeGuard_own
    by (auto simp: ASSERT_bind_Some bind_eq_Some case_prod_beta Let_def)
  show ?thesis
    by (rule exI [of _ w], rule exI [of _ ht], rule exI [of _ h], rule exI [of _ ag1], rule exI [of _ ag2],
        rule exI [of _ "dwSize (fst (bufferInfo (consoleEnv env) h (theConsole ag2)))"])
      (simp add: r bufferInfo_def Let_def logEffect_def)
qed

lemma resizeWindow_work:
  assumes "resizeWindow env cols rows ag = Some ag'"
  shows "consoleWork ag ag' \<and> (\<exists>w h sz. agentLog ag' = agentLog ag @ [Resized w h, BufferSizeEvent sz])"
  using resizeWindow_parts [OF assms]
  by (auto dest!: usePrimary_work useError_work intro: consoleWork_trans)

definition sameChannels :: "AgentState \<Rightarrow> AgentState \<Rightarrow> bool" where
  "sameChannels ag ag' \<longleftrightarrow>
     m_coninPipe ag' = m_coninPipe ag \<and> appended (m_conoutPipe ag) (m_conoutPipe ag') \<and>
     rel_option appended (m_conerrPipe ag) (m_conerrPipe ag') \<and>
     m_closingOutputPipes ag' = m_closingOutputPipes ag \<and>
     m_exiting ag' = m_exiting ag \<and> m_useConerr ag' = m_useConerr ag \<and>
     m_plainMode ag' = m_plainMode ag \<and> (m_errorScraper ag' = None \<longleftrightarrow> m_errorScraper ag = None) \<and>
     (\<exists>reply. 8 \<le> length reply \<and> length reply \<le> VT7PTY_MAX_CONTROL_PACKET_BYTES \<and>
        m_controlPipe ag' = (m_controlPipe ag)\<lparr>outQueue := outQueue (m_controlPipe ag) @
          leBytes 8 (of_nat (length reply) :: u64) @ drop 8 reply\<rparr>)"

lemma writePacket_same:
  assumes "writePacket packet ag1 = Some (Inr ag')" and "8 \<le> length packet"
    and "m_coninPipe ag1 = m_coninPipe ag \<and> appended (m_conoutPipe ag) (m_conoutPipe ag1) \<and>
     rel_option appended (m_conerrPipe ag) (m_conerrPipe ag1) \<and>
     m_closingOutputPipes ag1 = m_closingOutputPipes ag \<and>
     m_exiting ag1 = m_exiting ag \<and> m_useConerr ag1 = m_useConerr ag \<and>
     m_plainMode ag1 = m_plainMode ag \<and> (m_errorScraper ag1 = None \<longleftrightarrow> m_errorScraper ag = None) \<and>
     m_controlPipe ag1 = m_controlPipe ag"
  shows "sameChannels ag ag'"
  using writePacket_facts [OF assms(1, 2)] assms(2, 3) unfolding sameChannels_def by auto

text \<open>Apart from a resize, a request does not touch the console.\<close>

definition sameConsole :: "AgentState \<Rightarrow> AgentState \<Rightarrow> bool" where
  "sameConsole ag ag' \<longleftrightarrow>
     m_conoutPipe ag' = m_conoutPipe ag \<and> m_conerrPipe ag' = m_conerrPipe ag \<and>
     theConsole ag' = theConsole ag \<and> m_primaryScraper ag' = m_primaryScraper ag \<and>
     m_errorScraper ag' = m_errorScraper ag"

lemma startProcess_same:
  assumes "startProcess env spawnFlags p t program cmdline cwd environ ag = Some (Inr ag')"
  shows "sameChannels ag ag' \<and> sameConsole ag ag'"
  using assms
  by (auto simp: startProcess_def Let_def bind_eq_Some sameConsole_def split: CreateAnswer.splits
      dest: writePacket_facts(1) elim!: writePacket_same)

lemma listProcesses_same:
  assumes "listProcesses env ag = Some (Inr ag')"
  shows "sameChannels ag ag' \<and> sameConsole ag ag'"
  using assms
  by (auto simp: listProcesses_def Let_def bind_eq_Some sameConsole_def
      dest: writePacket_facts(1) elim!: writePacket_same)

lemma performRequest_same:
  assumes "performRequest env req ag = Some (Inr ag')"
  shows "sameChannels ag ag'"
proof (cases req)
  case (StartProcess spawnFlags p t program cmdline cwd environ)
  then show ?thesis using assms startProcess_same by simp
next
  case (SetSize cols rows)
  then obtain ag1 where r: "resizeWindow env (sint cols) (sint rows) ag = Some ag1"
      "writePacket newPacket ag1 = Some (Inr ag')"
    using assms by (auto simp: bind_eq_Some)
  then show ?thesis
    using resizeWindow_work [OF r(1)] by (intro writePacket_same [OF r(2)]) (simp_all add: consoleWork_def)
next
  case GetConsoleProcessList
  then show ?thesis using assms listProcesses_same by simp
qed

lemma handlePacket_same:
  assumes "handlePacket env bytes ag = Some (Inr ag')"
  shows "sameChannels ag ag'"
  using assms performRequest_same by (fastforce simp: handlePacket_def obind_Inr)

lemma handlePacket_inQueue:
  assumes "handlePacket env bytes ag = Some (Inr ag')"
  shows "inQueue (m_controlPipe ag') = inQueue (m_controlPipe ag)"
    and "readBufSize (m_controlPipe ag') = readBufSize (m_controlPipe ag)"
    and "openMode (m_controlPipe ag') = openMode (m_controlPipe ag)"
  using handlePacket_same [OF assms] by (auto simp: sameChannels_def)

function pollControlLoop :: "AgentEnv \<Rightarrow> AgentState \<Rightarrow> AgentState outcome" where
  "pollControlLoop env ag = do {
     head \<leftarrow> pipePeek 8 (m_controlPipe ag);
     (if length head < 8 then Some (Inr ag)
      else
        let packetSize = unat (leWord head :: u64)
        in if packetSize < 8 \<or> packetSize > VT7PTY_MAX_CONTROL_PACKET_BYTES \<or> packetSize > SIZE_MAX
           then Some (Inr (rejectControl ag))
           else do {
             available \<leftarrow> bytesAvailable (m_controlPipe ag);
             if available < packetSize then do {
               bufSize \<leftarrow> readBufferSize (m_controlPipe ag);
               if bufSize < packetSize then do {
                 p \<leftarrow> setReadBufferSize packetSize (m_controlPipe ag);
                 Some (Inr (ag\<lparr>m_controlPipe := p\<rparr>))
               }
               else Some (Inr ag)
             }
             else do {
               (data, p) \<leftarrow> pipeRead packetSize (m_controlPipe ag);
               ASSERT (length data = packetSize);
               handled \<leftarrow> handlePacket env data (ag\<lparr>m_controlPipe := p\<rparr>);
               (case handled of
                  Inl DecodeError \<Rightarrow> Some (Inr (rejectControl (ag\<lparr>m_controlPipe := p\<rparr>)))
                | Inl e \<Rightarrow> Some (Inl e)
                | Inr ag' \<Rightarrow> pollControlLoop env ag')
             }
           })
   }"
  by pat_completeness auto
termination
proof (relation "measure (\<lambda>(env, ag). length (inQueue (m_controlPipe ag)))", goal_cases)
  case 1
  then show ?case by simp
next
  case (2 env ag head n available x data p u handled ag')
  then have "length (inQueue (m_controlPipe ag')) = length (inQueue p)"
    using handlePacket_inQueue(1) [of env data "ag\<lparr>m_controlPipe := p\<rparr>" ag'] by simp
  moreover have "p = (m_controlPipe ag)\<lparr>inQueue := drop (length data) (inQueue (m_controlPipe ag))\<rparr>"
      "data = take n (inQueue (m_controlPipe ag))" "length data = n" "8 \<le> n"
    using 2 pipeRead_eq [of n "m_controlPipe ag" data p] by (auto simp: ASSERT_def split: if_splits)
  ultimately show ?case by auto
qed

declare pollControlLoop.simps [simp del]

definition pollControlPipe :: "AgentEnv \<Rightarrow> AgentState \<Rightarrow> AgentState outcome" where
  "pollControlPipe env ag =
     (if isClosed (m_controlPipe ag) then Some (Inr (shutdown ag)) else pollControlLoop env ag)"

end
