(* ===== verification/ScraperLaws.thy ===== *)
theory ScraperLaws
  imports Scraper
begin

text \<open>
  What the scraper guarantees (src/agent/Scraper.cc): no assertion, no \<open>abort\<close> and no access
  outside of an array, whatever the programs in the console do between two calls, and what a scrape
  sends to the terminal.
\<close>

section \<open>The lines that were read\<close>

definition filled :: "LargeConsoleReadBuffer \<Rightarrow> SmallRect \<Rightarrow> bool" where
  "filled b a \<longleftrightarrow> validArea a \<and> m_rect b = a \<and> m_rectWidth b = int (areaWidth a) \<and>
     areaWidth a * areaHeight a \<le> length (m_data b)"

text \<open>The cells of a line, as the code sees them: from the first cell of the line on.\<close>

definition lineFrom :: "LargeConsoleReadBuffer \<Rightarrow> int \<Rightarrow> CHAR_INFO list" where
  "lineFrom b line = drop (nat ((line - Top (m_rect b)) * m_rectWidth b)) (m_data b)"

lemma filled_width:
  "filled b a \<Longrightarrow> rect_width (m_rect b) = Some (int (areaWidth a)) \<and> 1 \<le> areaWidth a \<and> areaWidth a \<le> 2500"
  by (auto simp: filled_def validArea_def areaWidth_def rect_width_def MAX_CONSOLE_WIDTH_def)

lemma filled_line:
  assumes "filled b a" and "Top a \<le> line" and "line \<le> Bottom a"
  shows "cellsAt b line (int (areaWidth a)) = Some (lineFrom b line)"
    and "areaWidth a \<le> length (lineFrom b line)"
proof -
  define j where "j = nat (line - Top a)"
  have j: "line - Top a = int j" "Suc j \<le> areaHeight a"
    using assms(2, 3) by (auto simp: j_def areaHeight_def)
  have "areaWidth a * Suc j \<le> areaWidth a * areaHeight a" using j(2) by (rule mult_le_mono2)
  then have len: "j * areaWidth a + areaWidth a \<le> length (m_data b)"
    using assms(1) by (simp add: filled_def algebra_simps)
  have at: "nat ((line - Top (m_rect b)) * m_rectWidth b) = j * areaWidth a"
    using assms(1) j(1) by (simp add: filled_def flip: of_nat_mult)
  show "areaWidth a \<le> length (lineFrom b line)"
    using len by (simp add: lineFrom_def at)
  then show "cellsAt b line (int (areaWidth a)) = Some (lineFrom b line)"
    using assms filled_width [OF assms(1)]
    by (simp add: cellsAt_def lineCells_def lineStart_def lineFrom_def filled_def)
qed

section \<open>The remembered lines\<close>

definition linesOk :: "ConsoleLineState list \<Rightarrow> bool" where
  "linesOk ls \<longleftrightarrow> length ls = 3000 \<and> (\<forall>l \<in> set ls. lineInv l)"

abbreviation slot :: "int \<Rightarrow> nat" where
  "slot line \<equiv> nat (line mod 3000)"

lemma slot_less [simp]: "slot line < 3000"
  using pos_mod_bound [of 3000 line] by linarith

lemma bufIndex_eq: "0 \<le> line \<Longrightarrow> bufIndex line = Some (slot line)"
  by (simp add: bufIndex_def BUFFER_LINE_COUNT_def)

lemma slot_distinct: "a < l \<Longrightarrow> l - a < 3000 \<Longrightarrow> slot l \<noteq> slot a"
proof
  assume "a < l" "l - a < 3000" "slot l = slot a"
  then have "l mod 3000 = a mod 3000"
    by (metis nat_eq_iff2 pos_mod_sign zero_less_numeral)
  then have "3000 dvd l - a" by (simp add: mod_eq_dvd_iff)
  with \<open>a < l\<close> \<open>l - a < 3000\<close> show False using zdvd_imp_le by force
qed

lemma linesOk_nth: "linesOk ls \<Longrightarrow> lineInv (ls ! slot line)"
  by (simp add: linesOk_def)

lemma linesOk_update: "linesOk ls \<Longrightarrow> lineInv l \<Longrightarrow> linesOk (ls[k := l])"
  by (auto simp: linesOk_def dest: set_update_subset_insert [THEN subsetD])

lemma linesOk_reset: "length ls = 3000 \<Longrightarrow> linesOk (map resetLine ls)"
  by (auto simp: linesOk_def)

section \<open>Sending lines\<close>

text \<open>A line must be sent when it was never buffered or differs from what is remembered of it.\<close>

definition mustSend :: "int \<Rightarrow> ScraperState \<Rightarrow> int \<Rightarrow> bool" where
  "mustSend w s line \<longleftrightarrow> line > m_maxBufferedLine s \<or>
     \<not> lineUnchanged (shownLine (m_bufferData s ! slot line)) (hiddenCells (m_bufferData s ! slot line))
         (take (nat w) (lineFrom (m_readBuffer s) (line - m_scrolledCount s)))"

definition sendFrom :: "ScraperState \<Rightarrow> int \<Rightarrow> int \<Rightarrow> int \<Rightarrow> int \<Rightarrow> TerminalState \<Rightarrow> TerminalState option" where
  "sendFrom s w cursorColumn cursorLine line t =
     sendLine line (lineFrom (m_readBuffer s) (line - m_scrolledCount s)) w
       (if line = cursorLine then cursorColumn else - 1) t"

lemma scrapeLine_ok:
  fixes saw :: bool and s :: ScraperState and line :: int and a :: SmallRect
  assumes "filled (m_readBuffer s) a" and "linesOk (m_bufferData s)" and "termInv (scTerminal s)"
    and "Top a \<le> line - m_scrolledCount s" and "line - m_scrolledCount s \<le> Bottom a" and "0 \<le> line"
  defines "w \<equiv> int (areaWidth a)" and "saw' \<equiv> saw \<or> mustSend (int (areaWidth a)) s line"
  shows "\<exists>t'. scrapeLine w cc cl line (saw, s) =
      Some (saw', s\<lparr>m_maxBufferedLine := max (m_maxBufferedLine s) line,
        m_bufferData := (m_bufferData s)[slot line :=
          setLine (lineFrom (m_readBuffer s) (line - m_scrolledCount s)) w (m_bufferData s ! slot line)],
        scTerminal := t'\<rparr>) \<and>
     (if saw' then sendFrom s w cc cl line (scTerminal s) = Some t' else t' = scTerminal s) \<and> termInv t' \<and>
     lineInv (setLine (lineFrom (m_readBuffer s) (line - m_scrolledCount s)) w (m_bufferData s ! slot line))"
proof -
  define cells where "cells = lineFrom (m_readBuffer s) (line - m_scrolledCount s)"
  have at: "cellsAt (m_readBuffer s) (line - m_scrolledCount s) w = Some cells"
    and len: "nat w \<le> length cells"
    using filled_line [OF assms(1) assms(4) assms(5)] by (simp_all add: cells_def w_def)
  have wb: "1 \<le> w" "w \<le> 2147483647" using filled_width [OF assms(1)] by (auto simp: w_def)
  have row: "checkedNarrow int_range (line - m_scrolledCount s) = Some (line - m_scrolledCount s)"
    using assms(1, 4, 5) by (simp add: filled_def validArea_def checkedNarrow_eq)
  have inv: "lineInv (m_bufferData s ! slot line)" using assms(2) by (rule linesOk_nth)
  have lt: "slot line < length (m_bufferData s)" using assms(2) by (simp add: linesOk_def)
  note det = detect_result [OF inv wb len]
  have inv': "lineInv (setLine cells w (m_bufferData s ! slot line))"
    using inv wb len by (intro lineInv_setLine) simp_all
  obtain t' where t': "sendFrom s w cc cl line (scTerminal s) = Some t'" "termInv t'"
    using sendLine_result [OF assms(3) wb len, of line "if line = cl then cc else - 1"]
    by (auto simp: sendFrom_def cells_def)
  show ?thesis
  proof (cases saw')
    case True
    then have "scrapeLine w cc cl line (saw, s) =
      Some (True, s\<lparr>m_maxBufferedLine := max (m_maxBufferedLine s) line,
        m_bufferData := (m_bufferData s)[slot line := setLine cells w (m_bufferData s ! slot line)],
        scTerminal := t'\<rparr>)"
      using t'(1) det lt
      by (auto simp: scrapeLine_def row at bufIndex_eq [OF assms(6)] Let_def saw'_def mustSend_def
          sendFrom_def simp flip: cells_def w_def)
    then show ?thesis using True t' inv' by (auto simp: cells_def)
  next
    case False
    then have "scrapeLine w cc cl line (saw, s) =
      Some (False, s\<lparr>m_maxBufferedLine := max (m_maxBufferedLine s) line,
        m_bufferData := (m_bufferData s)[slot line := setLine cells w (m_bufferData s ! slot line)],
        scTerminal := scTerminal s\<rparr>)"
      using det lt
      by (auto simp: scrapeLine_def row at bufIndex_eq [OF assms(6)] Let_def saw'_def mustSend_def
          simp flip: cells_def w_def)
    then show ?thesis using False assms(3) inv' by (auto simp: cells_def)
  qed
qed

text \<open>
  The loop over \<open>first .. stop - 1\<close>: it skips the lines before the first one that must be sent and
  sends all from there on; every line of the range is remembered as it was read.
\<close>

definition loopResult :: "int \<Rightarrow> int \<Rightarrow> int \<Rightarrow> int \<Rightarrow> int \<Rightarrow> bool \<Rightarrow> ScraperState \<Rightarrow> int \<Rightarrow> TerminalState \<Rightarrow>
    ConsoleLineState list \<Rightarrow> bool" where
  "loopResult w cc cl first stop saw s k t' d' \<longleftrightarrow>
     first \<le> k \<and> k \<le> stop \<and> (\<forall>l. first \<le> l \<and> l < k \<longrightarrow> \<not> mustSend w s l) \<and>
     (saw \<longrightarrow> k = first) \<and> (k < stop \<longrightarrow> saw \<or> mustSend w s k) \<and>
     foreach (sendFrom s w cc cl) [k..stop - 1] (scTerminal s) = Some t' \<and> termInv t' \<and> linesOk d' \<and>
     (\<forall>l. first \<le> l \<and> l < stop \<longrightarrow> d' ! slot l =
        setLine (lineFrom (m_readBuffer s) (l - m_scrolledCount s)) w (m_bufferData s ! slot l)) \<and>
     (\<forall>i. (\<forall>l. first \<le> l \<and> l < stop \<longrightarrow> slot l \<noteq> i) \<longrightarrow> d' ! i = m_bufferData s ! i)"

lemma scrapeLines_ok:
  fixes saw :: bool and s :: ScraperState and first stop :: int and a :: SmallRect
  assumes "filled (m_readBuffer s) a" and "linesOk (m_bufferData s)" and "termInv (scTerminal s)"
    and "Top a \<le> first - m_scrolledCount s" and "stop - 1 - m_scrolledCount s \<le> Bottom a" and "0 \<le> first"
    and "first \<le> stop" and "stop - first \<le> 3000"
  shows "\<exists>saw' k t' d'. foreach (scrapeLine (int (areaWidth a)) cc cl) [first..stop - 1] (saw, s) =
      Some (saw', s\<lparr>m_maxBufferedLine :=
          (if first < stop then max (m_maxBufferedLine s) (stop - 1) else m_maxBufferedLine s),
        m_bufferData := d', scTerminal := t'\<rparr>) \<and>
      loopResult (int (areaWidth a)) cc cl first stop saw s k t' d'"
  using assms
proof (induction "nat (stop - first)" arbitrary: first saw s)
  case 0
  then have "stop = first" by simp
  then show ?case
    using 0 by (intro exI [of _ saw] exI [of _ first] exI [of _ "scTerminal s"] exI [of _ "m_bufferData s"])
      (auto simp: loopResult_def)
next
  case (Suc n)
  define w where "w = int (areaWidth a)"
  define cells where "cells = (\<lambda>l. lineFrom (m_readBuffer s) (l - m_scrolledCount s))"
  define saw1 where "saw1 \<longleftrightarrow> saw \<or> mustSend w s first"
  define d where "d = (m_bufferData s)[slot first := setLine (cells first) w (m_bufferData s ! slot first)]"
  define M where "M = max (m_maxBufferedLine s) first"
  have lt: "first < stop" using Suc.hyps(2) by simp
  have up: "[first..stop - 1] = first # [first + 1..stop - 1]" using lt by (simp add: upto_rec1)
  obtain t1 where t1: "scrapeLine w cc cl first (saw, s) =
      Some (saw1, s\<lparr>m_maxBufferedLine := M, m_bufferData := d, scTerminal := t1\<rparr>)"
    "if saw1 then sendFrom s w cc cl first (scTerminal s) = Some t1 else t1 = scTerminal s"
    "termInv t1" "lineInv (setLine (cells first) w (m_bufferData s ! slot first))"
  proof -
    have "first - m_scrolledCount s \<le> Bottom a" using Suc.prems(5) lt by linarith
    from scrapeLine_ok [OF Suc.prems(1-4) this Suc.prems(6), of cc cl saw] show ?thesis
      using that unfolding w_def cells_def saw1_def d_def M_def by blast
  qed
  define s1 where "s1 = s\<lparr>m_maxBufferedLine := M, m_bufferData := d, scTerminal := t1\<rparr>"
  have s1: "m_readBuffer s1 = m_readBuffer s" "m_bufferData s1 = d" "scTerminal s1 = t1"
    "m_scrolledCount s1 = m_scrolledCount s" "m_maxBufferedLine s1 = M"
    by (simp_all add: s1_def)
  have ld: "linesOk d" using Suc.prems(2) t1(4) by (simp add: d_def linesOk_update)
  have "n = nat (stop - (first + 1))" using Suc.hyps(2) by simp
  then obtain saw' k t' d' where IH:
    "foreach (scrapeLine w cc cl) [first + 1..stop - 1] (saw1, s1) =
      Some (saw', s1\<lparr>m_maxBufferedLine := (if first + 1 < stop then max M (stop - 1) else M),
        m_bufferData := d', scTerminal := t'\<rparr>)"
    "loopResult w cc cl (first + 1) stop saw1 s1 k t' d'"
    using Suc.hyps(1) [of "first + 1" s1 saw1] Suc.prems lt ld t1(3) s1 unfolding w_def by auto
  have run: "foreach (scrapeLine w cc cl) [first..stop - 1] (saw, s) =
      Some (saw', s\<lparr>m_maxBufferedLine := (if first < stop then max (m_maxBufferedLine s) (stop - 1)
          else m_maxBufferedLine s), m_bufferData := d', scTerminal := t'\<rparr>)"
    using t1(1) IH(1) lt up by (auto simp: s1_def M_def)
  have other: "slot l \<noteq> slot first" if "first < l" "l < stop" for l
    using that Suc.prems(8) by (intro slot_distinct) auto
  have dl: "d ! slot l = m_bufferData s ! slot l" if "first < l" "l < stop" for l
    using other [OF that] by (simp add: d_def)
  have dfirst: "d ! slot first = setLine (cells first) w (m_bufferData s ! slot first)"
    using Suc.prems(2) by (simp add: d_def linesOk_def)
  have send: "sendFrom s1 w cc cl = sendFrom s w cc cl"
    by (simp add: sendFrom_def s1 fun_eq_iff)
  have must: "mustSend w s1 l \<longleftrightarrow> mustSend w s l" if "first < l" "l < stop" "\<not> saw1" for l
  proof -
    have "M = m_maxBufferedLine s" using that(3) by (auto simp: saw1_def mustSend_def M_def)
    then show ?thesis using dl [OF that(1, 2)] by (simp add: mustSend_def s1)
  qed
  from IH(2) have R: "first + 1 \<le> k" "k \<le> stop" "\<forall>l. first + 1 \<le> l \<and> l < k \<longrightarrow> \<not> mustSend w s1 l"
    "saw1 \<longrightarrow> k = first + 1" "k < stop \<longrightarrow> saw1 \<or> mustSend w s1 k"
    "foreach (sendFrom s w cc cl) [k..stop - 1] t1 = Some t'" "termInv t'" "linesOk d'"
    "\<forall>l. first + 1 \<le> l \<and> l < stop \<longrightarrow> d' ! slot l = setLine (cells l) w (d ! slot l)"
    "\<forall>i. (\<forall>l. first + 1 \<le> l \<and> l < stop \<longrightarrow> slot l \<noteq> i) \<longrightarrow> d' ! i = d ! i"
    unfolding loopResult_def send s1 cells_def by blast+
  have rem: "d' ! slot l = setLine (cells l) w (m_bufferData s ! slot l)" if "first \<le> l" "l < stop" for l
  proof (cases "l = first")
    case True
    have "\<forall>l. first + 1 \<le> l \<and> l < stop \<longrightarrow> slot l \<noteq> slot first" using other by auto
    then show ?thesis using R(10) dfirst True by simp
  next
    case False
    then show ?thesis using R(9) dl that by simp
  qed
  have keep: "d' ! i = m_bufferData s ! i" if "\<forall>l. first \<le> l \<and> l < stop \<longrightarrow> slot l \<noteq> i" for i
  proof -
    have "d' ! i = d ! i" using R(10) that by auto
    moreover have "i \<noteq> slot first" using that lt by auto
    ultimately show ?thesis by (simp add: d_def)
  qed
  define k' where "k' = (if saw1 then first else k)"
  have "loopResult w cc cl first stop saw s k' t' d'"
  proof (cases saw1)
    case True
    have "foreach (sendFrom s w cc cl) [first..stop - 1] (scTerminal s) = Some t'"
      using R(4, 6) t1(2) True by (simp add: up)
    then show ?thesis
      using True R(7, 8) rem keep lt by (auto simp: loopResult_def k'_def saw1_def cells_def)
  next
    case False
    have "\<not> mustSend w s l" if "first \<le> l" "l < k" for l
      using that False R(2, 3) must [of l] by (cases "l = first") (auto simp: saw1_def)
    moreover have "k < stop \<longrightarrow> mustSend w s k" using R(1, 5) False must [of k] by auto
    ultimately show ?thesis
      using False R(1, 2, 6-8) t1(2) rem keep
      by (simp add: loopResult_def k'_def saw1_def cells_def)
  qed
  then show ?case using run unfolding w_def by blast
qed

section \<open>Scanning for dirty lines\<close>

text \<open>What is not counted as dirty is blank, in the colour in which the last dirty line ends.\<close>

lemma scanLines_ok:
  assumes "filled b a" and "\<forall>l \<in> set ls. Top a \<le> l \<and> l \<le> Bottom a" and "\<forall>l \<in> set ls. d0 \<le> l"
    and "sorted_wrt (<) ls"
  shows "\<exists>attr d. foreach (scanLine b (int (areaWidth a))) ls (attr0, d0) = Some (attr, d) \<and>
     (d = d0 \<and> attr = attr0 \<or> d - 1 \<in> set ls) \<and>
     (\<forall>l \<in> set ls. d \<le> l \<longrightarrow> take (areaWidth a) (lineFrom b l) = replicate (areaWidth a) (blankChar attr))"
  using assms(2-)
proof (induction ls arbitrary: attr0 d0)
  case (Cons l ls)
  define w where "w = areaWidth a"
  define cells where "cells = lineFrom b l"
  have l: "Top a \<le> l" "l \<le> Bottom a" using Cons.prems(1) by auto
  have w: "1 \<le> w" "w \<le> length cells"
    using filled_width [OF assms(1)] filled_line(2) [OF assms(1) l] by (simp_all add: w_def cells_def)
  define found where "found \<longleftrightarrow> list_ex (\<lambda>c. cellChar c \<noteq> 0x20 \<or> Attributes c \<noteq> attr0) (take w cells)"
  define attr1 where "attr1 = Attributes (cells ! (w - 1))"
  define d1 where "d1 = (if found then l + 1 else d0)"
  have "nat (int w - 1) = w - 1" using w(1) by linarith
  then have 1: "scanLine b (int w) l (attr0, d0) = Some (attr1, d1)"
    using filled_line(1) [OF assms(1) l]
    by (simp add: scanLine_def Let_def found_def attr1_def d1_def cells_def w_def)
  have "\<forall>x \<in> set ls. d1 \<le> x" using Cons.prems(2, 3) by (auto simp: d1_def)
  then obtain attr d where 2: "foreach (scanLine b (int w)) ls (attr1, d1) = Some (attr, d)"
    "d = d1 \<and> attr = attr1 \<or> d - 1 \<in> set ls"
    "\<forall>l \<in> set ls. d \<le> l \<longrightarrow> take w (lineFrom b l) = replicate w (blankChar attr)"
    using Cons.IH [of d1 attr1] Cons.prems unfolding w_def by auto
  have blank: "take w cells = replicate w (blankChar attr0) \<and> attr1 = attr0" if "\<not> found"
  proof -
    have all: "c = blankChar attr0" if "c \<in> set (take w cells)" for c
      using that \<open>\<not> found\<close> by (auto simp: found_def list_ex_iff blankChar_def)
    have "take w cells ! (w - 1) \<in> set (take w cells)" using w by (intro nth_mem) simp
    then have "cells ! (w - 1) = blankChar attr0" using all w by simp
    moreover have "take w cells = replicate w (blankChar attr0)"
      using all w(2) by (metis length_take min.absorb2 replicate_eqI)
    ultimately show ?thesis by (simp add: attr1_def blankChar_def)
  qed
  have "take w cells = replicate w (blankChar attr)" if "d \<le> l"
  proof -
    have "d - 1 \<notin> set ls" using Cons.prems(3) that by auto
    then have "d = d1" "attr = attr1" using 2(2) by auto
    then show ?thesis using that blank by (auto simp: d1_def split: if_splits)
  qed
  moreover have "d = d0 \<and> attr = attr0 \<or> d - 1 \<in> set (l # ls)"
    using 2(2) blank by (auto simp: d1_def split: if_splits)
  ultimately show ?case using 1 2(1, 3) by (auto simp: w_def cells_def)
qed simp

lemma scanForDirtyLines_ok:
  assumes "filled (m_readBuffer s) a" and "1 \<le> m_dirtyLineCount s" and "Top a \<le> m_dirtyLineCount s - 1"
    and "m_dirtyLineCount s - 1 \<le> Bottom a" and "Bottom win \<le> Bottom a"
    and "rect_height win \<noteq> None"
  shows "\<exists>attr d. scanForDirtyLines win s = Some (s\<lparr>m_dirtyLineCount := d\<rparr>) \<and>
     m_dirtyLineCount s \<le> d \<and> d \<le> Bottom a + 1 \<and>
     (\<forall>l. d \<le> l \<and> l \<le> Bottom win \<longrightarrow>
        take (areaWidth a) (lineFrom (m_readBuffer s) l) = replicate (areaWidth a) (blankChar attr))"
proof -
  define ls where "ls = [m_dirtyLineCount s..Bottom win]"
  have stop: "Top win + (Bottom win - Top win + 1) - 1 = Bottom win" by simp
  have ht: "rect_height win = Some (Bottom win - Top win + 1)"
    using assms(6) by (auto simp: rect_height_def)
  have b: "\<forall>l \<in> set ls. Top a \<le> l \<and> l \<le> Bottom a" "\<forall>l \<in> set ls. m_dirtyLineCount s \<le> l"
    using assms(3, 5) by (auto simp: ls_def)
  have "sorted_wrt (<) ls" by (simp add: ls_def)
  then obtain attr d where d: "foreach (scanLine (m_readBuffer s) (int (areaWidth a))) ls
      (Attributes (lineFrom (m_readBuffer s) (m_dirtyLineCount s - 1) ! nat (int (areaWidth a) - 1)),
       m_dirtyLineCount s) = Some (attr, d)"
    "d = m_dirtyLineCount s \<or> d - 1 \<in> set ls"
    "\<forall>l \<in> set ls. d \<le> l \<longrightarrow> take (areaWidth a) (lineFrom (m_readBuffer s) l) =
       replicate (areaWidth a) (blankChar attr)"
    using scanLines_ok [OF assms(1) b] by blast
  have "scanForDirtyLines win s = Some (s\<lparr>m_dirtyLineCount := d\<rparr>)"
    using assms(2) filled_width [OF assms(1)] filled_line(1) [OF assms(1, 3, 4)] d(1)
    by (simp add: scanForDirtyLines_def ht stop Let_def ls_def)
  moreover have "m_dirtyLineCount s \<le> d \<and> d \<le> Bottom a + 1" using d(2) assms(4, 5) by (auto simp: ls_def)
  ultimately show ?thesis using d(2, 3) by (intro exI [of _ attr] exI [of _ d]) (auto simp: ls_def)
qed

section \<open>Calls of the console\<close>

text \<open>The calls between two states of the console, and the calls that only ask.\<close>

definition callsBetween :: "(ConsoleCall \<Rightarrow> bool) \<Rightarrow> ConsoleState \<Rightarrow> ConsoleState \<Rightarrow> bool" where
  "callsBetween P con con' \<longleftrightarrow> (\<exists>cs. list_all P cs \<and> con' = con\<lparr>history := history con @ cs\<rparr>)"

fun isQuery :: "ConsoleCall \<Rightarrow> bool" where
  "isQuery (GetScreenInfo h) \<longleftrightarrow> True"
| "isQuery (ReadCells h rect) \<longleftrightarrow> True"
| "isQuery GetOutputCP \<longleftrightarrow> True"
| "isQuery (GetOutputMode h) \<longleftrightarrow> True"
| "isQuery _ \<longleftrightarrow> False"

abbreviation queries :: "ConsoleState \<Rightarrow> ConsoleState \<Rightarrow> bool" where
  "queries \<equiv> callsBetween isQuery"

abbreviation extends :: "ConsoleState \<Rightarrow> ConsoleState \<Rightarrow> bool" where
  "extends \<equiv> callsBetween (\<lambda>_. True)"

lemma calls_refl [simp]: "callsBetween P con con"
  unfolding callsBetween_def by (rule exI [of _ "[]"]) simp

lemma calls_trans [trans]:
  assumes "callsBetween P a b" and "callsBetween P b c"
  shows "callsBetween P a c"
proof -
  obtain cs ds where "list_all P cs" "b = a\<lparr>history := history a @ cs\<rparr>"
    "list_all P ds" "c = b\<lparr>history := history b @ ds\<rparr>"
    using assms by (auto simp: callsBetween_def)
  then show ?thesis unfolding callsBetween_def by (intro exI [of _ "cs @ ds"]) simp
qed

lemma calls_step: "P c \<Longrightarrow> callsBetween P con (callConsole c con)"
  unfolding callsBetween_def callConsole_def by (rule exI [of _ "[c]"]) simp

lemma calls_next: "callsBetween P a b \<Longrightarrow> P c \<Longrightarrow> callsBetween P a (callConsole c b)"
  by (rule calls_trans [OF _ calls_step])

lemma calls_mono: "callsBetween P a b \<Longrightarrow> (\<And>c. P c \<Longrightarrow> Q c) \<Longrightarrow> callsBetween Q a b"
  unfolding callsBetween_def by (auto simp: list_all_iff)

lemma queries_extends: "queries a b \<Longrightarrow> extends a b"
  by (erule calls_mono) simp

lemma readsOnly_queries: "readsOnly a b \<Longrightarrow> queries a b"
  unfolding readsOnly_def callsBetween_def by (auto simp: list_all_iff) (metis isQuery.simps(2))

lemma calls_simps:
  "callsBetween P con con' \<Longrightarrow> m_frozen con' = m_frozen con \<and> m_isNewW10 con' = m_isNewW10 con"
  by (auto simp: callsBetween_def)

text \<open>The content of the screen buffer stays as it is while the console is only asked.\<close>

definition unchanging :: "ConsoleEnv \<Rightarrow> (int \<Rightarrow> int \<Rightarrow> CHAR_INFO option) \<Rightarrow> ConsoleState \<Rightarrow> bool" where
  "unchanging env content con \<longleftrightarrow> (\<forall>con'. queries con con' \<longrightarrow> cellAt env (history con') = content)"

lemma unchanging_queries: "unchanging env content con \<Longrightarrow> queries con con' \<Longrightarrow> unchanging env content con'"
  unfolding unchanging_def by (blast intro: calls_trans)

lemma unchanging_stable: "unchanging env content con \<Longrightarrow> stableContent env content con"
  unfolding unchanging_def stableContent_def
  by (meson calls_next isQuery.simps(2) readsOnly_queries)

section \<open>What Windows reports\<close>

text \<open>
  Documented facts: the window lies within the screen buffer and so does the cursor; sizes are
  16-bit; an array has its length; the largest window has at least one cell.
\<close>

definition infoOk :: "ConsoleInfo \<Rightarrow> bool" where
  "infoOk info \<longleftrightarrow> X (dwSize info) \<le> 32767 \<and> Y (dwSize info) \<le> 32767 \<and>
     0 \<le> Left (srWindow info) \<and> Left (srWindow info) \<le> Right (srWindow info) \<and>
     Right (srWindow info) < X (dwSize info) \<and>
     0 \<le> Top (srWindow info) \<and> Top (srWindow info) \<le> Bottom (srWindow info) \<and>
     Bottom (srWindow info) < Y (dwSize info) \<and>
     0 \<le> X (dwCursorPosition info) \<and> X (dwCursorPosition info) < X (dwSize info) \<and>
     0 \<le> Y (dwCursorPosition info) \<and> Y (dwCursorPosition info) < Y (dwSize info)"

definition consoleOk :: "ConsoleEnv \<Rightarrow> bool" where
  "consoleOk env \<longleftrightarrow>
     (\<forall>hist info. screenInfo env hist = Some info \<longrightarrow> infoOk info) \<and>
     (\<forall>hist n. length (stackCells env hist n) = n) \<and>
     (\<forall>hist. 1 \<le> X (largestWindow env hist) \<and> 1 \<le> Y (largestWindow env hist) \<and>
        X (largestWindow env hist) \<le> 32767 \<and> Y (largestWindow env hist) \<le> 32767)"

lemma queryInfo_ok:
  assumes "consoleOk env"
  shows "\<exists>info con. queryInfo env h s = (info, s\<lparr>m_console := con\<rparr>) \<and> queries (m_console s) con \<and>
     (infoOk info \<or> info = zeroInfo)"
  using assms
  by (auto simp: queryInfo_def bufferInfo_def Let_def consoleOk_def calls_step split: option.splits)

lemma rect_sizes:
  "infoOk info \<Longrightarrow>
     rect_width (srWindow info) = Some (Right (srWindow info) - Left (srWindow info) + 1) \<and>
     rect_height (srWindow info) = Some (Bottom (srWindow info) - Top (srWindow info) + 1)"
  by (auto simp: infoOk_def rect_width_def rect_height_def)

section \<open>The marker\<close>

lemma syncMarkerText_length [simp]: "length (syncMarkerText c) = 16"
  by (simp add: syncMarkerText_def SYNC_MARKER_LEN_def paddedHex_def Let_def)

lemma searchMarker_range: "- 1 \<le> searchMarker column marker i \<and> searchMarker column marker i \<le> int i"
proof (induction i)
  case 0
  then show ?case by (subst searchMarker.simps, subst searchMarker.simps) simp
next
  case (Suc i)
  then show ?case by (subst searchMarker.simps, subst searchMarker.simps) simp
qed

lemma column_rect: "0 \<le> y \<Longrightarrow> 1 \<le> n \<Longrightarrow> y + n \<le> 3000 \<Longrightarrow>
    mkSmallRect 0 y 1 n = Some \<lparr>Left = 0, Top = y, Right = 0, Bottom = y + n - 1\<rparr> \<and>
    validArea \<lparr>Left = 0, Top = y, Right = 0, Bottom = y + n - 1\<rparr> \<and>
    areaWidth \<lparr>Left = 0, Top = y, Right = 0, Bottom = y + n - 1\<rparr> = 1 \<and>
    areaHeight \<lparr>Left = 0, Top = y, Right = 0, Bottom = y + n - 1\<rparr> = nat n"
  by (simp add: mkSmallRect_def checkedNarrow_eq validArea_def areaWidth_def areaHeight_def
      MAX_CONSOLE_WIDTH_def)

lemma findSyncMarker_ok:
  assumes "consoleOk env" and "0 \<le> m_syncRow s" and "m_syncRow s \<le> 2984"
  shows "\<exists>r con. findSyncMarker env h s = Some (r, s\<lparr>m_console := con\<rparr>) \<and>
     - 1 \<le> r \<and> r \<le> m_syncRow s \<and> queries (m_console s) con"
proof -
  define n where "n = m_syncRow s + 16"
  define rect where "rect = \<lparr>Left = 0, Top = 0, Right = 0, Bottom = n - 1\<rparr>"
  define old where "old = stackCells env (history (m_console s)) 3000"
  have n: "1 \<le> n" "n \<le> 3000" using assms by (auto simp: n_def)
  have r: "mkSmallRect 0 0 1 n = Some rect" "validArea rect" "areaWidth rect * areaHeight rect \<le> 3000"
    using column_rect [of 0 n] n by (simp_all add: rect_def)
  have "length old = 3000" using assms(1) by (simp add: consoleOk_def old_def)
  then have rd: "readBuffer env h rect old (m_console s) =
      Some (readCells (cellAt env (history (callConsole (ReadCells h rect) (m_console s)))) (Left rect)
        (Top rect) (areaWidth rect) (areaHeight rect) old, callConsole (ReadCells h rect) (m_console s))"
    using readBuffer_area [OF r(2)] r(3) by simp
  have "findSyncMarker env h s = Some (searchMarker
      (readCells (cellAt env (history (callConsole (ReadCells h rect) (m_console s)))) (Left rect)
        (Top rect) (areaWidth rect) (areaHeight rect) old) (syncMarkerText (m_syncCounter s))
        (nat (m_syncRow s)), s\<lparr>m_console := callConsole (ReadCells h rect) (m_console s)\<rparr>)"
    using assms(2) n r(1) rd
    by (simp add: findSyncMarker_def SYNC_MARKER_LEN_def BUFFER_LINE_COUNT_def checkedNarrow_eq
        flip: n_def old_def)
  then show ?thesis
    using searchMarker_range [of _ _ "nat (m_syncRow s)"] assms(2) calls_step [of isQuery "ReadCells h rect"]
    by fastforce
qed

lemma clearLines_ok:
  assumes "- 32768 \<le> row" and "row \<le> 32767"
  shows "\<exists>con'. clearLines h row n info con = Some con' \<and> extends con con'"
  using assms by (simp add: clearLines_def checkedNarrow_eq Let_def calls_next)

lemma createSyncMarker_ok:
  assumes "1 \<le> row" and "row \<le> 2984"
  shows "\<exists>con. createSyncMarker env h row s =
      Some (s\<lparr>m_console := con, m_syncCounter := m_syncCounter s + 1, m_syncRow := row\<rparr>) \<and>
    extends (m_console s) con"
proof -
  obtain info con1 where q: "queryInfo env h s = (info, s\<lparr>m_console := con1\<rparr>)" "extends (m_console s) con1"
    by (auto simp: queryInfo_def bufferInfo_def Let_def calls_step)
  obtain con2 where c: "clearLines h (row - 1) 17 info con1 = Some con2" "extends con1 con2"
    using clearLines_ok [of "row - 1" h 17 info con1] assms by auto
  define rect where "rect = \<lparr>Left = 0, Top = row, Right = 0, Bottom = row + 15\<rparr>"
  define con3 where "con3 = callConsole (WriteCells h rect (syncMarkerText (m_syncCounter s + 1))) con2"
  have r: "mkSmallRect 0 row 1 16 = Some rect"
    using column_rect [of row 16] assms by (simp add: rect_def)
  have w: "writeBuffer h rect (syncMarkerText (m_syncCounter s + 1)) con2 = Some con3"
    using assms by (simp add: writeBuffer_def rect_size_def rect_width_def rect_height_def rect_def
        mkCoord_def con3_def checkedNarrow_eq)
  have "createSyncMarker env h row s =
      Some (s\<lparr>m_console := con3, m_syncCounter := m_syncCounter s + 1, m_syncRow := row\<rparr>)"
    using assms q(1) c(1) r w by (simp add: createSyncMarker_def SYNC_MARKER_LEN_def checkedNarrow_eq)
  moreover have "extends con2 con3" by (simp add: con3_def calls_step)
  then have "extends (m_console s) con3" using q(2) c(2) calls_trans by metis
  ultimately show ?thesis by blast
qed

section \<open>The invariant\<close>

text \<open>
  The marker lies in the part of the buffer that was already scraped, above the window as it was
  last seen. The second condition is what a resize can break, when the console moves its window up
  while it is not frozen.
\<close>

definition scCore :: "ScraperState \<Rightarrow> bool" where
  "scCore s \<longleftrightarrow> linesOk (m_bufferData s) \<and> termInv (scTerminal s) \<and>
     - 1 \<le> m_syncRow s \<and> m_syncRow s \<le> 2984 \<and> 0 \<le> m_scrolledCount s \<and>
     max 0 (m_syncRow s) \<le> m_scrapedLineCount s - m_scrolledCount s \<and>
     0 \<le> m_dirtyLineCount s \<and> m_dirtyLineCount s \<le> 3000 \<and>
     1 \<le> X (m_ptySize s) \<and> X (m_ptySize s) \<le> 32767 \<and>
     1 \<le> Y (m_ptySize s) \<and> Y (m_ptySize s) \<le> MAX_CONSOLE_HEIGHT"

definition scInv :: "ScraperState \<Rightarrow> bool" where
  "scInv s \<longleftrightarrow> scCore s \<and> m_syncRow s \<le> m_dirtyWindowTop s"

definition scrollInfo :: "ConsoleInfo \<Rightarrow> bool" where
  "scrollInfo info \<longleftrightarrow> infoOk info \<and> Y (dwSize info) = BUFFER_LINE_COUNT"

definition keepsLines :: "ScraperState \<Rightarrow> ScraperState \<Rightarrow> bool" where
  "keepsLines s s' \<longleftrightarrow> m_bufferData s' = m_bufferData s \<and> m_maxBufferedLine s' = m_maxBufferedLine s \<and>
     scTerminal s' = scTerminal s \<and> m_scrapedLineCount s' = m_scrapedLineCount s"

definition startsOver :: "int \<Rightarrow> ScraperState \<Rightarrow> ScraperState \<Rightarrow> bool" where
  "startsOver topRow s s' \<longleftrightarrow> m_bufferData s' = map resetLine (m_bufferData s) \<and>
     m_maxBufferedLine s' = - 1 \<and> scTerminal s' = resetTerminal SendClear topRow (scTerminal s) \<and>
     m_scrapedLineCount s' = topRow \<and> m_scrolledCount s' = 0"

text \<open>
  The lines that have been scraped for good end at the top of the window of the last scrape, so the
  next scrape begins with the first line that may still change.
\<close>

definition scrapedToWindow :: "int \<Rightarrow> ScraperState \<Rightarrow> bool" where
  "scrapedToWindow topRow s \<longleftrightarrow> m_scrapedLineCount s \<le>
     (if m_dirtyWindowTop s = - 1 then topRow else m_dirtyWindowTop s) + m_scrolledCount s"

lemma scInv_console [simp]: "scInv (s\<lparr>m_console := con\<rparr>) \<longleftrightarrow> scInv s"
  by (simp add: scInv_def scCore_def)

lemma scCore_console [simp]: "scCore (s\<lparr>m_console := con\<rparr>) \<longleftrightarrow> scCore s"
  by (simp add: scCore_def)

lemma scInv_reset:
  assumes "scCore s" and "0 \<le> n"
  shows "scInv (resetConsoleTracking f n s)"
  using assms by (auto simp: scInv_def scCore_def resetConsoleTracking_def linesOk_def)

lemma startsOver_reset: "startsOver n s (resetConsoleTracking SendClear n s)"
  by (simp add: startsOver_def resetConsoleTracking_def)

lemma startsOver_console [simp]: "startsOver n (s\<lparr>m_console := con\<rparr>) s' \<longleftrightarrow> startsOver n s s'"
  by (simp add: startsOver_def)

lemma reset_fields [simp]:
  "m_console (resetConsoleTracking f n s) = m_console s"
  "m_directMode (resetConsoleTracking f n s) = m_directMode s"
  "m_dirtyWindowTop (resetConsoleTracking f n s) = - 1"
  "m_syncRow (resetConsoleTracking f n s) = - 1"
  "m_scrapedLineCount (resetConsoleTracking f n s) = n"
  "m_scrolledCount (resetConsoleTracking f n s) = 0"
  by (simp_all add: resetConsoleTracking_def)

lemma scrapedToWindow_reset [simp]: "scrapedToWindow n (resetConsoleTracking f n s)"
  by (simp add: scrapedToWindow_def resetConsoleTracking_def)

lemma scrollInfo_bounds:
  "scrollInfo info \<Longrightarrow> 0 \<le> Top (srWindow info) \<and> Top (srWindow info) \<le> Bottom (srWindow info) \<and>
     Bottom (srWindow info) \<le> 2999 \<and> 0 \<le> Y (dwCursorPosition info) \<and> Y (dwCursorPosition info) \<le> 2999"
  by (auto simp: scrollInfo_def infoOk_def BUFFER_LINE_COUNT_def)

lemma markEntireWindowDirty_ok:
  assumes "scrollInfo info"
  shows "markEntireWindowDirty (srWindow info) s =
    Some (s\<lparr>m_dirtyLineCount := max (m_dirtyLineCount s) (Bottom (srWindow info) + 1)\<rparr>)"
  using rect_sizes [of info] assms by (simp add: markEntireWindowDirty_def scrollInfo_def)

lemma followMarker_ok:
  assumes "consoleOk env" and "scrollInfo info" and "scInv s"
  shows "\<exists>ok s'. followMarker env h (srWindow info) tentative s = Some (ok, s') \<and> scInv s' \<and>
     queries (m_console s) (m_console s') \<and> m_directMode s' = m_directMode s \<and> (\<not> tentative \<longrightarrow> ok) \<and>
     (keepsLines s s' \<or> startsOver (Top (srWindow info)) s s' \<and> m_dirtyWindowTop s' = - 1) \<and>
     (m_syncRow s = - 1 \<longrightarrow> s' = s) \<and>
     (scrapedToWindow (Top (srWindow info)) s \<longrightarrow> scrapedToWindow (Top (srWindow info)) s')"
proof (cases "m_syncRow s = - 1")
  case True
  then show ?thesis using assms(3) by (auto simp: followMarker_def keepsLines_def)
next
  case False
  have row: "0 \<le> m_syncRow s" "m_syncRow s \<le> 2984"
    using assms(3) False by (auto simp: scInv_def scCore_def)
  obtain r con where f: "findSyncMarker env h s = Some (r, s\<lparr>m_console := con\<rparr>)"
    "- 1 \<le> r" "r \<le> m_syncRow s" "queries (m_console s) con"
    using findSyncMarker_ok [OF assms(1) row] by blast
  note b = scrollInfo_bounds [OF assms(2)]
  have core: "scCore s" using assms(3) by (simp add: scInv_def)
  consider "r = - 1" tentative | "r = - 1" "\<not> tentative" | "0 \<le> r" "r = m_syncRow s" | "0 \<le> r" "r < m_syncRow s"
    using f(2, 3) by linarith
  then show ?thesis
  proof cases
    case 1
    then show ?thesis
      using False f assms(3) by (auto simp: followMarker_def keepsLines_def scrapedToWindow_def)
  next
    case 2
    then show ?thesis
      using False f scInv_reset [of "s\<lparr>m_console := con\<rparr>"] core b
      by (simp add: followMarker_def startsOver_reset scrapedToWindow_reset del: startsOver_console)
        (metis startsOver_console startsOver_reset)
  next
    case 3
    then show ?thesis
      using False f assms(3) by (auto simp: followMarker_def keepsLines_def scrapedToWindow_def)
  next
    case 4
    define s1 where "s1 = s\<lparr>m_console := con, m_scrolledCount := m_scrolledCount s + (m_syncRow s - r),
        m_syncRow := r, m_dirtyLineCount := max (m_dirtyLineCount s) (Bottom (srWindow info) + 1)\<rparr>"
    have "followMarker env h (srWindow info) tentative s = Some (True, s1)"
      using 4 False f(1) by (simp add: followMarker_def markEntireWindowDirty_ok [OF assms(2)] s1_def)
    moreover have "scInv s1" using 4 assms(3) b by (auto simp: scInv_def scCore_def s1_def)
    ultimately show ?thesis using f(4) False 4(2) by (auto simp: s1_def keepsLines_def scrapedToWindow_def)
  qed
qed

lemma followWindow_ok:
  assumes "scrollInfo info" and "scInv s"
  shows "\<exists>ok s'. followWindow (srWindow info) tentative s = Some (ok, s') \<and> scInv s' \<and>
     m_console s' = m_console s \<and> m_directMode s' = m_directMode s \<and> (\<not> tentative \<longrightarrow> ok) \<and>
     (ok \<longrightarrow> m_syncRow s' \<le> Top (srWindow info)) \<and>
     (keepsLines s s' \<or> startsOver (Top (srWindow info)) s s') \<and>
     (m_dirtyWindowTop s = - 1 \<longrightarrow> s' = s) \<and>
     (ok \<and> scrapedToWindow (Top (srWindow info)) s \<longrightarrow>
        m_scrapedLineCount s' \<le> Top (srWindow info) + m_scrolledCount s')"
proof -
  note b = scrollInfo_bounds [OF assms(1)]
  consider "m_dirtyWindowTop s = - 1" | "m_dirtyWindowTop s \<noteq> - 1" "Top (srWindow info) > m_dirtyWindowTop s"
    | "m_dirtyWindowTop s \<noteq> - 1" "Top (srWindow info) = m_dirtyWindowTop s"
    | "m_dirtyWindowTop s \<noteq> - 1" "Top (srWindow info) < m_dirtyWindowTop s"
    by linarith
  then show ?thesis
  proof cases
    case 2
    have "scInv (s\<lparr>m_dirtyLineCount := max (m_dirtyLineCount s) (Bottom (srWindow info) + 1)\<rparr>)"
      using assms(2) b by (auto simp: scInv_def scCore_def)
    then show ?thesis
      using 2 assms b
      by (auto simp: followWindow_def markEntireWindowDirty_ok keepsLines_def scInv_def scrapedToWindow_def)
  next
    case 4
    have "scInv (resetConsoleTracking SendClear (Top (srWindow info)) s)"
      using assms(2) b by (intro scInv_reset) (auto simp: scInv_def)
    then show ?thesis
      using 4 assms(2) b
      by (cases tentative) (auto simp: followWindow_def keepsLines_def startsOver_reset)
  qed (use assms b in \<open>auto simp: followWindow_def keepsLines_def scInv_def scrapedToWindow_def\<close>)
qed

lemma countDirtyLines_ok:
  assumes "scrollInfo info" and "scCore s" and "m_syncRow s \<le> Top (srWindow info)"
  shows "scInv (countDirtyLines info s) \<and> 1 \<le> m_dirtyLineCount (countDirtyLines info s) \<and>
     Top (srWindow info) \<le> m_dirtyLineCount (countDirtyLines info s) \<and>
     m_dirtyWindowTop (countDirtyLines info s) = Top (srWindow info) \<and>
     m_syncRow (countDirtyLines info s) = m_syncRow s \<and>
     m_console (countDirtyLines info s) = m_console s \<and>
     m_directMode (countDirtyLines info s) = m_directMode s \<and> keepsLines s (countDirtyLines info s) \<and>
     m_scrolledCount (countDirtyLines info s) = m_scrolledCount s \<and>
     m_scrapedLineCount (countDirtyLines info s) = m_scrapedLineCount s \<and>
     Y (dwCursorPosition info) < m_dirtyLineCount (countDirtyLines info s)"
  using assms scrollInfo_bounds [OF assms(1)]
  by (auto simp: countDirtyLines_def scInv_def scCore_def keepsLines_def)

section \<open>Reading\<close>

lemma attributesMask_ok:
  "\<exists>con. attributesMask env h s = (fst (attributesMask env h s), s\<lparr>m_console := con\<rparr>) \<and>
     queries (m_console s) con"
  by (simp add: attributesMask_def Let_def onConsole_def) (metis calls_next calls_refl isQuery.simps(3, 4))

text \<open>What a scrape has read when the content did not change: the cells with the masked attributes.\<close>

definition holds :: "(int \<Rightarrow> int \<Rightarrow> CHAR_INFO option) \<Rightarrow> u16 \<Rightarrow> SmallRect \<Rightarrow> LargeConsoleReadBuffer \<Rightarrow> bool" where
  "holds content msk a b \<longleftrightarrow>
     (\<forall>shown y. (\<forall>x. Left a \<le> x \<and> x \<le> Right a \<longrightarrow> content x y = Some (shown x)) \<longrightarrow>
        Top a \<le> y \<and> y \<le> Bottom a \<longrightarrow>
        take (areaWidth a) (lineFrom b y) = map (\<lambda>x. masked msk (shown x)) [Left a..Right a])"

lemma line_cells:
  assumes f: "filled b a" and y: "Top a \<le> y" "y \<le> Bottom a"
    and cells: "\<And>i c. i < areaWidth a * areaHeight a \<Longrightarrow>
       content (Left a + int (i mod areaWidth a)) (Top a + int (i div areaWidth a)) = Some c \<Longrightarrow>
       m_data b ! i = masked msk c"
    and shown: "\<And>x. Left a \<le> x \<Longrightarrow> x \<le> Right a \<Longrightarrow> content x y = Some (shown x)"
  shows "take (areaWidth a) (lineFrom b y) = map (\<lambda>x. masked msk (shown x)) [Left a..Right a]"
proof (rule nth_equalityI)
  have va: "validArea a" using f by (simp add: filled_def)
  have wd: "int (areaWidth a) = Right a - Left a + 1"
    using va by (simp add: validArea_def areaWidth_def)
  show "length (take (areaWidth a) (lineFrom b y)) = length (map (\<lambda>x. masked msk (shown x)) [Left a..Right a])"
    using filled_line(2) [OF f y] wd by simp
  fix k
  assume "k < length (take (areaWidth a) (lineFrom b y))"
  then have k: "k < areaWidth a" by simp
  define j where "j = nat (y - Top a)"
  have j: "y = Top a + int j" "Suc j \<le> areaHeight a" using y by (auto simp: j_def areaHeight_def)
  define i where "i = areaWidth a * j + k"
  have "areaWidth a * Suc j \<le> areaWidth a * areaHeight a" using j(2) by (rule mult_le_mono2)
  then have i: "i < areaWidth a * areaHeight a" using k by (simp add: i_def)
  have dm: "i mod areaWidth a = k" "i div areaWidth a = j" using k by (simp_all add: i_def)
  have "content (Left a + int k) y = Some (shown (Left a + int k))"
    using k wd by (intro shown) auto
  then have "m_data b ! i = masked msk (shown (Left a + int k))"
    using cells [OF i] dm j(1) by simp
  moreover have at: "nat ((y - Top (m_rect b)) * m_rectWidth b) = areaWidth a * j"
    using f j(1) by (simp add: filled_def mult.commute flip: of_nat_mult)
  moreover have "lineFrom b y = drop (areaWidth a * j) (m_data b)" by (simp only: lineFrom_def at)
  ultimately have "lineFrom b y ! k = masked msk (shown (Left a + int k))"
    using f i by (simp add: i_def filled_def)
  then show "take (areaWidth a) (lineFrom b y) ! k = map (\<lambda>x. masked msk (shown x)) [Left a..Right a] ! k"
    using k wd by (simp add: nth_upto)
qed

lemma scrapeRead_ok:
  assumes "validArea a"
  shows "\<exists>b con. scrapeRead env h a s = Some (s\<lparr>m_readBuffer := b, m_console := con\<rparr>) \<and> filled b a \<and>
     queries (m_console s) con \<and>
     (\<forall>content. unchanging env content (m_console s) \<longrightarrow>
        holds content (fst (attributesMask env h s)) a b)"
proof -
  define msk where "msk = fst (attributesMask env h s)"
  obtain con1 where m: "attributesMask env h s = (msk, s\<lparr>m_console := con1\<rparr>)" "queries (m_console s) con1"
    using attributesMask_ok [of env h s] unfolding msk_def by blast
  obtain b con2 where r: "largeConsoleRead env h a msk (m_readBuffer s) con1 = Some (b, con2)"
    "filled b a" "readsOnly con1 con2"
    "\<And>content i c. stableContent env content con1 \<Longrightarrow> i < areaWidth a * areaHeight a \<Longrightarrow>
       content (Left a + int (i mod areaWidth a)) (Top a + int (i div areaWidth a)) = Some c \<Longrightarrow>
       m_data b ! i = masked msk c"
    using largeConsoleRead_ok [OF assms, of env h msk "m_readBuffer s" con1] assms
    unfolding filled_def by blast
  have "holds content msk a b" if "unchanging env content (m_console s)" for content
  proof -
    have "stableContent env content con1"
      using that m(2) unchanging_queries unchanging_stable by blast
    then show ?thesis
      unfolding holds_def by (intro allI impI line_cells [where content = content, OF r(2)] r(4) [of content]) auto
  qed
  moreover have "queries (m_console s) con2"
    using m(2) r(3) readsOnly_queries calls_trans by blast
  ultimately show ?thesis
    using m(1) r(1, 2) by (auto simp: scrapeRead_def simp flip: msk_def)
qed

section \<open>Scraping in scrolling mode\<close>

definition readArea :: "ConsoleInfo \<Rightarrow> ScraperState \<Rightarrow> SmallRect" where
  "readArea info s =
     \<lparr>Left = 0,
      Top = min (firstVirtLine (srWindow info) s - m_scrolledCount s) (m_dirtyLineCount s - 1),
      Right = min (X (dwSize info)) MAX_CONSOLE_WIDTH - 1,
      Bottom = max (Bottom (srWindow info) + 1) (m_dirtyLineCount s) - 1\<rparr>"

lemma readDirtyLines_ok:
  assumes "scrollInfo info" and "scCore s" and "1 \<le> m_dirtyLineCount s"
  defines "a \<equiv> readArea info s"
  shows "\<exists>b con. readDirtyLines env h info s = Some (s\<lparr>m_readBuffer := b, m_console := con\<rparr>) \<and>
     filled b a \<and> queries (m_console s) con \<and>
     (\<forall>content. unchanging env content (m_console s) \<longrightarrow>
        holds content (fst (attributesMask env h s)) a b)"
proof -
  define first where "first = firstVirtLine (srWindow info) s - m_scrolledCount s"
  define y where "y = min first (m_dirtyLineCount s - 1)"
  define stop where "stop = max (Bottom (srWindow info) + 1) (m_dirtyLineCount s)"
  have b: "0 \<le> first" "first \<le> Top (srWindow info)" "0 \<le> y" "y < stop" "stop \<le> 3000" "1 \<le> X (dwSize info)"
      "Top (srWindow info) \<le> 2999"
    using assms(1-3) scrollInfo_bounds [OF assms(1)]
    by (auto simp: first_def y_def stop_def firstVirtLine_def scCore_def scrollInfo_def infoOk_def)
  define w where "w = min (X (dwSize info)) MAX_CONSOLE_WIDTH"
  have w: "1 \<le> w" "w \<le> 2500" using b(6) by (auto simp: w_def MAX_CONSOLE_WIDTH_def)
  have mk: "mkSmallRect 0 y w (stop - y) = Some a"
    using b w by (simp add: mkSmallRect_def checkedNarrow_eq a_def readArea_def y_def stop_def first_def w_def)
  have va: "validArea a"
    using b w by (simp add: validArea_def a_def readArea_def MAX_CONSOLE_WIDTH_def flip: y_def stop_def first_def w_def)
  have ht: "rect_height (srWindow info) = Some (Bottom (srWindow info) - Top (srWindow info) + 1)"
    using rect_sizes [of info] assms(1) by (simp add: scrollInfo_def)
  have st: "max (Top (srWindow info) + (Bottom (srWindow info) - Top (srWindow info) + 1)) (m_dirtyLineCount s) = stop"
    by (simp add: stop_def)
  have nar: "checkedNarrow int_range first = Some first" "ASSERT (0 \<le> y \<and> y < stop) = Some ()"
      "checkedNarrow SHORT_range y = Some y" "checkedNarrow SHORT_range (stop - y) = Some (stop - y)"
    using b by (simp_all add: checkedNarrow_eq)
  have "readDirtyLines env h info s = scrapeRead env h a s"
    unfolding readDirtyLines_def Let_def first_def [symmetric] nar(1) Option.bind.bind_lunit
      y_def [symmetric] ht st nar w_def [symmetric] mk ..
  then show ?thesis using scrapeRead_ok [OF va, of env h s] by simp
qed

lemma stillInSync_ok:
  assumes "consoleOk env" and "scCore s"
  shows "\<exists>ok con. stillInSync env h info s = Some (ok, s\<lparr>m_console := con\<rparr>) \<and> queries (m_console s) con"
proof -
  obtain i con1 where q: "queryInfo env h s = (i, s\<lparr>m_console := con1\<rparr>)" "queries (m_console s) con1"
    using queryInfo_ok [OF assms(1), of h s] by blast
  show ?thesis
  proof (cases "m_syncRow s = - 1")
    case True
    then show ?thesis using q by (auto simp: stillInSync_def)
  next
    case False
    then obtain r con2 where "findSyncMarker env h (s\<lparr>m_console := con1\<rparr>) = Some (r, s\<lparr>m_console := con2\<rparr>)"
      "queries con1 con2"
      using findSyncMarker_ok [OF assms(1), of "s\<lparr>m_console := con1\<rparr>" h] assms(2)
      by (auto simp: scCore_def)
    then show ?thesis using q calls_trans [OF q(2)] by (auto simp: stillInSync_def)
  qed
qed

text \<open>What sending the dirty lines does to a state that has read them.\<close>

definition shownCursor :: "ConsoleInfo \<Rightarrow> bool \<Rightarrow> bool" where
  "shownCursor info consoleCursorVisible \<longleftrightarrow>
     consoleCursorVisible \<and> containsCoord (srWindow info) (dwCursorPosition info)"

definition cursorLineOf :: "ConsoleInfo \<Rightarrow> bool \<Rightarrow> ScraperState \<Rightarrow> int" where
  "cursorLineOf info visible s =
     (if shownCursor info visible then Y (dwCursorPosition info) + m_scrolledCount s else - 1)"

definition cursorColumnOf :: "ConsoleInfo \<Rightarrow> bool \<Rightarrow> int" where
  "cursorColumnOf info visible = (if shownCursor info visible then X (dwCursorPosition info) else - 1)"

lemma sendDirtyLines_ok:
  fixes visible :: bool and first :: int
  assumes a: "filled (m_readBuffer s) a" and ls: "linesOk (m_bufferData s)" and t: "termInv (scTerminal s)"
    and info: "scrollInfo info" and dirty: "1 \<le> m_dirtyLineCount s" "Top (srWindow info) \<le> m_dirtyLineCount s"
    and area: "Top a \<le> m_dirtyLineCount s - 1" "m_dirtyLineCount s - 1 \<le> Bottom a"
      "Bottom (srWindow info) \<le> Bottom a" "Bottom a \<le> 2999"
    and first: "Top a \<le> first - m_scrolledCount s" "first \<le> Top (srWindow info) + m_scrolledCount s"
    and scrolled: "0 \<le> m_scrolledCount s"
  defines "w \<equiv> int (areaWidth a)" and "cc \<equiv> cursorColumnOf info visible" and "cl \<equiv> cursorLineOf info visible s"
    and "t0 \<equiv> (if shownCursor info visible then scTerminal s else hideTerminalCursor (scTerminal s))"
  shows "\<exists>attr d M k t' d'. sendDirtyLines info visible first s =
      Some (s\<lparr>m_dirtyLineCount := d, m_maxBufferedLine := M, m_bufferData := d',
              m_scrapedLineCount := Top (srWindow info) + m_scrolledCount s,
              scTerminal := (if shownCursor info visible then showTerminalCursor cc cl t' else t')\<rparr>) \<and>
     m_dirtyLineCount s \<le> d \<and> d \<le> 3000 \<and>
     M \<le> max (m_maxBufferedLine s) (min d (Bottom (srWindow info) + 1) + m_scrolledCount s - 1) \<and>
     loopResult w cc cl first (min d (Bottom (srWindow info) + 1) + m_scrolledCount s) False
       (s\<lparr>scTerminal := t0\<rparr>) k t' d' \<and>
     (\<forall>l. d \<le> l \<and> l \<le> Bottom (srWindow info) \<longrightarrow>
        take (areaWidth a) (lineFrom (m_readBuffer s) l) = replicate (areaWidth a) (blankChar attr))"
proof -
  have ht: "rect_height (srWindow info) = Some (Bottom (srWindow info) - Top (srWindow info) + 1)"
    using rect_sizes [of info] info by (simp add: scrollInfo_def)
  obtain attr d where d: "scanForDirtyLines (srWindow info) s = Some (s\<lparr>m_dirtyLineCount := d\<rparr>)"
    "m_dirtyLineCount s \<le> d" "d \<le> Bottom a + 1"
    "\<forall>l. d \<le> l \<and> l \<le> Bottom (srWindow info) \<longrightarrow>
       take (areaWidth a) (lineFrom (m_readBuffer s) l) = replicate (areaWidth a) (blankChar attr)"
    using scanForDirtyLines_ok [OF a dirty(1) area(1, 2, 3)] ht by auto
  define stop where "stop = min d (Bottom (srWindow info) + 1) + m_scrolledCount s"
  define s2 where "s2 = s\<lparr>m_dirtyLineCount := d, scTerminal := t0\<rparr>"
  note win = scrollInfo_bounds [OF info]
  have "0 \<le> Top a" using a by (simp add: filled_def validArea_def)
  then have range: "0 \<le> first" "first \<le> stop" "stop - first \<le> 3000"
      "stop - 1 - m_scrolledCount s \<le> Bottom a"
    using first scrolled win area d dirty by (auto simp: stop_def)
  have t0: "termInv t0" using t by (simp add: t0_def)
  obtain saw k t' d' where run: "foreach (scrapeLine w cc cl) [first..stop - 1] (False, s2) =
      Some (saw, s2\<lparr>m_maxBufferedLine := (if first < stop then max (m_maxBufferedLine s2) (stop - 1)
          else m_maxBufferedLine s2), m_bufferData := d', scTerminal := t'\<rparr>)"
    "loopResult w cc cl first stop False s2 k t' d'"
    using scrapeLines_ok [of s2 a first stop cc cl False] a ls t0 first(1) range
    unfolding w_def by (auto simp: s2_def)
  have fields: "m_readBuffer s2 = m_readBuffer s" "m_scrolledCount s2 = m_scrolledCount s"
      "m_bufferData s2 = m_bufferData s" "m_maxBufferedLine s2 = m_maxBufferedLine s" "scTerminal s2 = t0"
    by (simp_all add: s2_def)
  have loop: "loopResult w cc cl first stop False (s\<lparr>scTerminal := t0\<rparr>) k t' d'"
    using run(2) by (simp add: loopResult_def mustSend_def sendFrom_def [abs_def] fields)
  have cur: "(if visible \<and> containsCoord (srWindow info) (dwCursorPosition info)
        then Y (dwCursorPosition info) + m_scrolledCount s else - 1) = cl"
    "(if visible \<and> containsCoord (srWindow info) (dwCursorPosition info)
        then X (dwCursorPosition info) else - 1) = cc"
    by (auto simp: cl_def cc_def cursorLineOf_def cursorColumnOf_def shownCursor_def)
  define s1 where "s1 = s\<lparr>m_dirtyLineCount := d\<rparr>"
  have fields1: "m_scrolledCount s1 = m_scrolledCount s" "m_dirtyLineCount s1 = d" by (simp_all add: s1_def)
  have start: "(if visible \<and> containsCoord (srWindow info) (dwCursorPosition info)
        then s1 else onTerminal hideTerminalCursor s1) = s2"
    by (auto simp: s1_def s2_def t0_def shownCursor_def onTerminal_def)
  have wd: "rect_width (m_rect (m_readBuffer s2)) = Some w"
    using filled_width [OF a] by (simp add: w_def fields)
  have stp: "min d (Top (srWindow info) + (Bottom (srWindow info) - Top (srWindow info) + 1)) + m_scrolledCount s = stop"
    by (simp add: stop_def)
  define M where "M = (if first < stop then max (m_maxBufferedLine s2) (stop - 1) else m_maxBufferedLine s2)"
  define s3 where "s3 = s2\<lparr>m_maxBufferedLine := M, m_bufferData := d', scTerminal := t'\<rparr>"
  have s3: "(if visible \<and> containsCoord (srWindow info) (dwCursorPosition info)
        then onTerminal (showTerminalCursor cc cl)
          (s3\<lparr>m_scrapedLineCount := Top (srWindow info) + m_scrolledCount s3\<rparr>)
        else s3\<lparr>m_scrapedLineCount := Top (srWindow info) + m_scrolledCount s3\<rparr>) =
      s\<lparr>m_dirtyLineCount := d, m_maxBufferedLine := M, m_bufferData := d',
        m_scrapedLineCount := Top (srWindow info) + m_scrolledCount s,
        scTerminal := (if shownCursor info visible then showTerminalCursor cc cl t' else t')\<rparr>"
    by (simp add: s3_def s2_def onTerminal_def shownCursor_def)
  have "M \<le> max (m_maxBufferedLine s) (min d (Bottom (srWindow info) + 1) + m_scrolledCount s - 1)"
    by (simp add: M_def fields stop_def)
  moreover have "sendDirtyLines info visible first s =
      Some (s\<lparr>m_dirtyLineCount := d, m_maxBufferedLine := M, m_bufferData := d',
              m_scrapedLineCount := Top (srWindow info) + m_scrolledCount s,
              scTerminal := (if shownCursor info visible then showTerminalCursor cc cl t' else t')\<rparr>)"
    unfolding sendDirtyLines_def Let_def d(1) [folded s1_def] Option.bind.bind_lunit ht fields1 cur start
      stp wd run(1) [folded M_def s3_def] prod.case s3 ..
  ultimately show ?thesis
    using d(2-4) area(4) loop unfolding stop_def
    by (intro exI [of _ attr] exI [of _ d] exI [of _ M] exI [of _ k] exI [of _ t'] exI [of _ d']) simp
qed

text \<open>
  The outcome of a scrape from the state \<open>s\<close> in which the console has been tracked: \<open>b\<close> is what was
  read of the area \<open>a\<close>, the lines from \<open>k\<close> to \<open>stop - 1\<close> were sent, and what lies below \<open>stop\<close> in the
  window is blank.
\<close>

definition scrapeOutcome :: "ConsoleEnv \<Rightarrow> int \<Rightarrow> ConsoleInfo \<Rightarrow> bool \<Rightarrow> ScraperState \<Rightarrow> ScraperState \<Rightarrow>
    LargeConsoleReadBuffer \<Rightarrow> SmallRect \<Rightarrow> int \<Rightarrow> int \<Rightarrow> TerminalState \<Rightarrow> u16 \<Rightarrow> bool" where
  "scrapeOutcome env h info visible s s' b a k stop t' attr \<longleftrightarrow>
     filled b a \<and> a = readArea info (countDirtyLines info s) \<and>
     loopResult (int (areaWidth a)) (cursorColumnOf info visible) (cursorLineOf info visible s)
       (firstVirtLine (srWindow info) s) stop False
       (s\<lparr>m_readBuffer := b,
          scTerminal := (if shownCursor info visible then scTerminal s
                         else hideTerminalCursor (scTerminal s))\<rparr>) k t' (m_bufferData s') \<and>
     scTerminal s' = (if shownCursor info visible
       then showTerminalCursor (cursorColumnOf info visible) (cursorLineOf info visible s) t' else t') \<and>
     m_scrolledCount s' = m_scrolledCount s \<and>
     m_scrapedLineCount s' = Top (srWindow info) + m_scrolledCount s \<and>
     m_dirtyWindowTop s' = Top (srWindow info) \<and>
     m_maxBufferedLine s' \<le> max (m_maxBufferedLine s) (stop - 1) \<and>
     Top (srWindow info) + m_scrolledCount s \<le> stop \<and> stop \<le> Bottom (srWindow info) + 1 + m_scrolledCount s \<and>
     (\<forall>y. stop - m_scrolledCount s \<le> y \<and> y \<le> Bottom (srWindow info) \<longrightarrow>
        take (areaWidth a) (lineFrom b y) = replicate (areaWidth a) (blankChar attr)) \<and>
     (\<forall>content. unchanging env content (m_console s) \<longrightarrow>
        holds content (fst (attributesMask env h s)) a b)"

lemma attributesMask_console:
  "m_console s = m_console s' \<Longrightarrow> fst (attributesMask env h s) = fst (attributesMask env h s')"
  by (simp add: attributesMask_def onConsole_def Let_def)

lemma scrapeDirtyLines_ok:
  assumes env: "consoleOk env" and info: "scrollInfo info" and core: "scCore s0"
    and marker: "m_syncRow s0 \<le> Top (srWindow info)"
    and create: "createRow \<longrightarrow> \<not> tentative \<and> 431 \<le> Top (srWindow info)"
  shows "\<exists>ok s'. scrapeDirtyLines env h info visible tentative createRow s0 = Some (ok, s') \<and> scInv s' \<and>
     extends (m_console s0) (m_console s') \<and> m_directMode s' = m_directMode s0 \<and> (\<not> tentative \<longrightarrow> ok) \<and>
     m_syncRow s' = (if createRow then newSyncRow (srWindow info) else m_syncRow s0) \<and>
     (ok \<longrightarrow> (\<exists>b a k stop t' attr. scrapeOutcome env h info visible s0 s' b a k stop t' attr))"
proof -
  define s where "s = countDirtyLines info s0"
  note win = scrollInfo_bounds [OF info]
  have c: "scInv s" "1 \<le> m_dirtyLineCount s" "Top (srWindow info) \<le> m_dirtyLineCount s"
      "m_dirtyWindowTop s = Top (srWindow info)" "m_syncRow s = m_syncRow s0" "m_console s = m_console s0"
      "m_directMode s = m_directMode s0" "keepsLines s0 s" "m_scrolledCount s = m_scrolledCount s0"
      "m_scrapedLineCount s = m_scrapedLineCount s0"
    using countDirtyLines_ok [OF info core marker] by (simp_all add: s_def)
  have core': "scCore s" using c(1) by (simp add: scInv_def)
  define a where "a = readArea info s"
  define first where "first = firstVirtLine (srWindow info) s"
  obtain b con1 where rd: "readDirtyLines env h info s = Some (s\<lparr>m_readBuffer := b, m_console := con1\<rparr>)"
    "filled b a" "queries (m_console s) con1"
    "\<And>content. unchanging env content (m_console s) \<Longrightarrow> holds content (fst (attributesMask env h s)) a b"
    using readDirtyLines_ok [OF info core' c(2), of env h] unfolding a_def by blast
  define s1 where "s1 = s\<lparr>m_readBuffer := b, m_console := con1\<rparr>"
  have core1: "scCore s1" using core' by (simp add: s1_def scCore_def)
  obtain same con2 where sync: "(if tentative then stillInSync env h info s1 else Some (True, s1)) =
      Some (same, s1\<lparr>m_console := con2\<rparr>)" "queries con1 con2" "\<not> tentative \<longrightarrow> same"
  proof (cases tentative)
    case True
    then show ?thesis
      using stillInSync_ok [OF env core1, of h info] that by (auto simp: s1_def)
  next
    case False
    show ?thesis by (rule that [of True con1]) (simp_all add: False s1_def)
  qed
  define s2 where "s2 = s1\<lparr>m_console := con2\<rparr>"
  have ext2: "extends (m_console s0) con2"
    using rd(3) sync(2) c(6) by (metis calls_trans queries_extends)
  have inv2: "scInv s2" using c(1) core1 by (simp add: s2_def s1_def scInv_def scCore_def)
  have start: "scrapeDirtyLines env h info visible tentative createRow s0 =
      (if \<not> same then Some (False, s2)
       else do {
         s3 \<leftarrow> (if createRow then do {
                   ASSERT (\<not> tentative);
                   createSyncMarker env h (newSyncRow (srWindow info)) s2
                 }
                 else Some s2);
         s4 \<leftarrow> sendDirtyLines info visible first s3;
         Some (True, s4)
       })"
    unfolding scrapeDirtyLines_def Let_def s_def [symmetric] rd(1) [folded s1_def] Option.bind.bind_lunit
      sync(1) [folded s2_def] first_def [symmetric]
    using c(2) by simp
  show ?thesis
  proof (cases same)
    case False
    then have "tentative" "\<not> createRow" using sync(3) create by auto
    then show ?thesis
      using start False inv2 ext2 c(5, 7) by (auto simp: s2_def s1_def)
  next
    case True
    have srow: "newSyncRow (srWindow info) = Top (srWindow info) - 216"
      by (simp add: newSyncRow_def SYNC_MARKER_LEN_def SYNC_MARKER_MARGIN_def)
    define row where "row = (if createRow then newSyncRow (srWindow info) else m_syncRow s0)"
    obtain con3 ctr where s3: "(if createRow then do {
           ASSERT (\<not> tentative);
           createSyncMarker env h (newSyncRow (srWindow info)) s2
         }
         else Some s2) = Some (s2\<lparr>m_console := con3, m_syncCounter := ctr, m_syncRow := row\<rparr>)" "extends con2 con3"
    proof (cases createRow)
      case True
      then show ?thesis
        using createSyncMarker_ok [of "newSyncRow (srWindow info)" env h s2] create win srow that
        by (auto simp: row_def s2_def)
    next
      case False
      then show ?thesis
        using that [of "m_syncCounter s2" con2] c(5) by (simp add: s2_def s1_def row_def)
    qed
    define s3 where "s3 = s2\<lparr>m_console := con3, m_syncCounter := ctr, m_syncRow := row\<rparr>"
    have f3: "m_readBuffer s3 = b" "m_bufferData s3 = m_bufferData s0" "scTerminal s3 = scTerminal s0"
        "m_dirtyLineCount s3 = m_dirtyLineCount s" "m_scrolledCount s3 = m_scrolledCount s0"
        "m_maxBufferedLine s3 = m_maxBufferedLine s0" "m_syncRow s3 = row" "m_console s3 = con3"
        "m_directMode s3 = m_directMode s0" "m_dirtyWindowTop s3 = Top (srWindow info)"
      using c(4, 7-9) by (simp_all add: s3_def s2_def s1_def keepsLines_def)
    have ls: "linesOk (m_bufferData s3)" "termInv (scTerminal s3)" "0 \<le> m_scrolledCount s3"
      using core by (simp_all add: f3 scCore_def)
    have area: "Top a \<le> m_dirtyLineCount s3 - 1" "m_dirtyLineCount s3 - 1 \<le> Bottom a"
        "Bottom (srWindow info) \<le> Bottom a" "Bottom a \<le> 2999" "Top a \<le> first - m_scrolledCount s3"
        "first \<le> Top (srWindow info) + m_scrolledCount s3"
      using core' win c(9) by (auto simp: a_def readArea_def f3 first_def scCore_def firstVirtLine_def)
    obtain attr d M k t' d' where sd: "sendDirtyLines info visible first s3 =
      Some (s3\<lparr>m_dirtyLineCount := d, m_maxBufferedLine := M, m_bufferData := d',
              m_scrapedLineCount := Top (srWindow info) + m_scrolledCount s3,
              scTerminal := (if shownCursor info visible
                then showTerminalCursor (cursorColumnOf info visible) (cursorLineOf info visible s3) t' else t')\<rparr>)"
      "m_dirtyLineCount s3 \<le> d" "d \<le> 3000"
      "M \<le> max (m_maxBufferedLine s3) (min d (Bottom (srWindow info) + 1) + m_scrolledCount s3 - 1)"
      "loopResult (int (areaWidth a)) (cursorColumnOf info visible) (cursorLineOf info visible s3) first
         (min d (Bottom (srWindow info) + 1) + m_scrolledCount s3) False
       (s3\<lparr>scTerminal := (if shownCursor info visible then scTerminal s3
          else hideTerminalCursor (scTerminal s3))\<rparr>) k t' d'"
      "\<forall>l. d \<le> l \<and> l \<le> Bottom (srWindow info) \<longrightarrow>
        take (areaWidth a) (lineFrom (m_readBuffer s3) l) = replicate (areaWidth a) (blankChar attr)"
      using sendDirtyLines_ok [OF _ ls(1, 2) info _ _ area ls(3), of visible] rd(2) c(2, 3)
      unfolding f3(1, 4) by blast
    define s4 where "s4 = s3\<lparr>m_dirtyLineCount := d, m_maxBufferedLine := M, m_bufferData := d',
              m_scrapedLineCount := Top (srWindow info) + m_scrolledCount s3,
              scTerminal := (if shownCursor info visible
                then showTerminalCursor (cursorColumnOf info visible) (cursorLineOf info visible s3) t' else t')\<rparr>"
    have run: "scrapeDirtyLines env h info visible tentative createRow s0 = Some (True, s4)"
      using start True s3(1) sd(1) by (simp flip: s3_def s4_def)
    have "termInv t'" "linesOk d'" using sd(5) by (simp_all add: loopResult_def)
    then have inv4: "scInv s4"
      using inv2 win sd(2, 3) core marker create srow c(4, 5) row_def
      by (auto simp: s4_def s3_def s2_def s1_def scInv_def scCore_def termInv_show split: if_splits)
    define stop where "stop = min d (Bottom (srWindow info) + 1) + m_scrolledCount s0"
    have clo: "cursorLineOf info visible s3 = cursorLineOf info visible s0"
      by (simp add: cursorLineOf_def f3)
    have loop: "loopResult (int (areaWidth a)) (cursorColumnOf info visible) (cursorLineOf info visible s0)
       (firstVirtLine (srWindow info) s0) stop False
       (s0\<lparr>m_readBuffer := b, scTerminal := (if shownCursor info visible then scTerminal s0
                         else hideTerminalCursor (scTerminal s0))\<rparr>) k t' d'"
      using sd(5) c(9, 10)
      by (simp add: loopResult_def mustSend_def sendFrom_def [abs_def] f3 stop_def first_def clo firstVirtLine_def
          cong: if_cong)
    have "scrapeOutcome env h info visible s0 s4 b a k stop t' attr"
      unfolding scrapeOutcome_def
      using rd(2, 4) loop sd(2, 4, 6) c(3, 6) win attributesMask_console [OF c(6)]
      by (auto simp: a_def s_def [symmetric] s4_def f3 clo stop_def)
    moreover have "extends (m_console s0) (m_console s4)"
      using ext2 s3(2) by (simp add: s4_def f3 calls_trans [of _ _ con2])
    moreover have "m_directMode s4 = m_directMode s0" "m_syncRow s4 = row" by (simp_all add: s4_def f3)
    ultimately show ?thesis
      using run inv4 unfolding row_def by blast
  qed
qed

lemma shouldCreate_top: "scCore s \<Longrightarrow> shouldCreateSyncRow win s \<Longrightarrow> m_syncRow s + 432 \<le> Top win \<and> 431 \<le> Top win"
  by (simp add: shouldCreateSyncRow_def newSyncRow_def SYNC_MARKER_LEN_def SYNC_MARKER_MARGIN_def scCore_def)

lemma tracked_trans:
  assumes "keepsLines s s1 \<or> startsOver n s s1 \<and> m_dirtyWindowTop s1 = - 1"
    and "keepsLines s1 s2 \<or> startsOver n s1 s2" and "m_dirtyWindowTop s1 = - 1 \<longrightarrow> s2 = s1"
  shows "keepsLines s s2 \<or> startsOver n s s2"
  using assms by (auto simp: keepsLines_def startsOver_def)

lemma scrollingScrapeOutput_ok:
  assumes env: "consoleOk env" and info: "scrollInfo info" and inv: "scInv s"
  shows "\<exists>ok s'. scrollingScrapeOutput env h info visible tentative s = Some (ok, s') \<and> scInv s' \<and>
     extends (m_console s) (m_console s') \<and> m_directMode s' = m_directMode s \<and> (\<not> tentative \<longrightarrow> ok) \<and>
     (m_syncRow s = - 1 \<longrightarrow> m_syncRow s' = - 1 \<or> 215 \<le> m_syncRow s') \<and>
     (ok \<longrightarrow> (\<exists>s1 b a k stop t' attr. (keepsLines s s1 \<or> startsOver (Top (srWindow info)) s s1) \<and>
        queries (m_console s) (m_console s1) \<and> scCore s1 \<and>
        (scrapedToWindow (Top (srWindow info)) s \<longrightarrow>
           m_scrapedLineCount s1 \<le> Top (srWindow info) + m_scrolledCount s1) \<and>
        scrapeOutcome env h info visible s1 s' b a k stop t' attr))"
proof -
  obtain ok1 s1 where 1: "followMarker env h (srWindow info) tentative s = Some (ok1, s1)" "scInv s1"
    "queries (m_console s) (m_console s1)" "m_directMode s1 = m_directMode s" "\<not> tentative \<longrightarrow> ok1"
    "keepsLines s s1 \<or> startsOver (Top (srWindow info)) s s1 \<and> m_dirtyWindowTop s1 = - 1"
    "m_syncRow s = - 1 \<longrightarrow> s1 = s"
    "scrapedToWindow (Top (srWindow info)) s \<longrightarrow> scrapedToWindow (Top (srWindow info)) s1"
    using followMarker_ok [OF env info inv, of h tentative] by blast
  have core1: "scCore s1" using 1(2) by (simp add: scInv_def)
  show ?thesis
  proof (cases "\<not> ok1 \<or> tentative \<and> shouldCreateSyncRow (srWindow info) s1")
    case True
    then have "scrollingScrapeOutput env h info visible tentative s = Some (False, s1)"
      using 1(1) by (auto simp: scrollingScrapeOutput_def)
    then show ?thesis using True 1 queries_extends by auto
  next
    case False
    define create where "create = shouldCreateSyncRow (srWindow info) s1"
    obtain ok2 s2 where 2: "followWindow (srWindow info) tentative s1 = Some (ok2, s2)" "scInv s2"
      "m_console s2 = m_console s1" "m_directMode s2 = m_directMode s1" "\<not> tentative \<longrightarrow> ok2"
      "ok2 \<longrightarrow> m_syncRow s2 \<le> Top (srWindow info)"
      "keepsLines s1 s2 \<or> startsOver (Top (srWindow info)) s1 s2" "m_dirtyWindowTop s1 = - 1 \<longrightarrow> s2 = s1"
      "ok2 \<and> scrapedToWindow (Top (srWindow info)) s1 \<longrightarrow>
        m_scrapedLineCount s2 \<le> Top (srWindow info) + m_scrolledCount s2"
      using followWindow_ok [OF info 1(2), of tentative] by blast
    have run: "scrollingScrapeOutput env h info visible tentative s =
        (if \<not> ok2 then Some (False, s2)
         else scrapeDirtyLines env h info visible tentative create s2)"
      using False 1(1) 2(1) by (auto simp: scrollingScrapeOutput_def create_def)
    have row2: "m_syncRow s2 = - 1 \<or> m_syncRow s2 = m_syncRow s1"
      using 2(1) by (auto simp: followWindow_def markEntireWindowDirty_ok [OF info] split: if_splits)
    show ?thesis
    proof (cases ok2)
      case no: False
      then show ?thesis
        using run 2 1 row2 queries_extends by auto
    next
      case True
      have core2: "scCore s2" using 2(2) by (simp add: scInv_def)
      have cr: "create \<longrightarrow> \<not> tentative \<and> 431 \<le> Top (srWindow info)"
        using False shouldCreate_top [OF core1] by (auto simp: create_def)
      obtain ok s' where 3: "scrapeDirtyLines env h info visible tentative create s2 = Some (ok, s')" "scInv s'"
        "extends (m_console s2) (m_console s')" "m_directMode s' = m_directMode s2" "\<not> tentative \<longrightarrow> ok"
        "m_syncRow s' = (if create then newSyncRow (srWindow info) else m_syncRow s2)"
        "ok \<longrightarrow> (\<exists>b a k stop t' attr. scrapeOutcome env h info visible s2 s' b a k stop t' attr)"
        using scrapeDirtyLines_ok [OF env info core2 _ cr, of h visible] 2(6) True by blast
      have tr: "keepsLines s s2 \<or> startsOver (Top (srWindow info)) s s2"
        by (rule tracked_trans [OF 1(6) 2(7, 8)])
      have ext: "extends (m_console s) (m_console s')"
        using 3(3) 2(3) queries_extends [OF 1(3)] calls_trans by metis
      have row: "m_syncRow s = - 1 \<longrightarrow> m_syncRow s' = - 1 \<or> 215 \<le> m_syncRow s'"
        using 3(6) cr row2 1(7) by (auto simp: newSyncRow_def SYNC_MARKER_LEN_def SYNC_MARKER_MARGIN_def)
      have q: "queries (m_console s) (m_console s2)" using 1(3) 2(3) by simp
      have win: "scrapedToWindow (Top (srWindow info)) s \<longrightarrow>
          m_scrapedLineCount s2 \<le> Top (srWindow info) + m_scrolledCount s2"
        using 1(8) 2(9) True by blast
      have "scrollingScrapeOutput env h info visible tentative s = Some (ok, s')" using run True 3(1) by simp
      then show ?thesis
        using 3(2, 5, 7) ext row tr q core2 win 3(4) 2(4) 1(4)
        by (intro exI [of _ ok] exI [of _ s'] conjI) (auto, blast+)
    qed
  qed
qed

section \<open>Scraping in direct mode\<close>

definition windowOk :: "SmallRect \<Rightarrow> bool" where
  "windowOk r \<longleftrightarrow> 0 \<le> Left r \<and> Left r \<le> Right r \<and> Right r < 32767 \<and>
     0 \<le> Top r \<and> Top r \<le> Bottom r \<and> Bottom r < 32767"

lemma windowOk_info: "infoOk info \<or> info = zeroInfo \<Longrightarrow> windowOk (srWindow info)"
  by (auto simp: windowOk_def infoOk_def zeroInfo_def emptyRect_def)

lemma directLine_ok:
  assumes "filled (m_readBuffer s) a" and "linesOk (m_bufferData s)" and "termInv (scTerminal s)"
    and "0 \<le> line" and "Top a + line \<le> Bottom a" and "line < 3000"
  shows "\<exists>d t. directLine (Top a) (int (areaWidth a)) cc cl line s =
      Some (s\<lparr>m_bufferData := d, scTerminal := t\<rparr>) \<and> linesOk d \<and> termInv t"
proof -
  define cells where "cells = lineFrom (m_readBuffer s) (Top a + line)"
  define w where "w = int (areaWidth a)"
  have at: "cellsAt (m_readBuffer s) (Top a + line) w = Some cells" and len: "nat w \<le> length cells"
    using filled_line [OF assms(1), of "Top a + line"] assms(4, 5) by (simp_all add: cells_def w_def)
  have wb: "1 \<le> w" "w \<le> 2147483647" using filled_width [OF assms(1)] by (auto simp: w_def)
  have lt: "nat line < length (m_bufferData s)" using assms(2, 4, 6) by (simp add: linesOk_def)
  have inv: "lineInv (m_bufferData s ! nat line)" using assms(2) lt by (simp add: linesOk_def)
  have inv': "lineInv (setLine cells w (m_bufferData s ! nat line))"
    using inv wb len by (intro lineInv_setLine) simp_all
  obtain t where t: "sendLine line cells w (if line = cl then cc else - 1) (scTerminal s) = Some t" "termInv t"
    using sendLine_result [OF assms(3) wb len, of line "if line = cl then cc else - 1"] by blast
  define d where "d = (m_bufferData s)[nat line := setLine cells w (m_bufferData s ! nat line)]"
  have "linesOk d" using assms(2) inv' by (simp add: d_def linesOk_update)
  moreover have "directLine (Top a) w cc cl line s = Some (s\<lparr>m_bufferData := d, scTerminal := t\<rparr>) \<or>
      directLine (Top a) w cc cl line s = Some (s\<lparr>m_bufferData := d, scTerminal := scTerminal s\<rparr>)"
    using t(1) lt by (auto simp: directLine_def at detect_result [OF inv wb len] d_def Let_def split: if_splits)
  ultimately show ?thesis using t(2) assms(3) unfolding w_def by blast
qed

lemma directLines_ok:
  assumes "filled (m_readBuffer s) a" and "linesOk (m_bufferData s)" and "termInv (scTerminal s)"
    and "\<forall>l \<in> set ls. 0 \<le> l \<and> Top a + l \<le> Bottom a \<and> l < 3000"
  shows "\<exists>d t. foreach (directLine (Top a) (int (areaWidth a)) cc cl) ls s =
      Some (s\<lparr>m_bufferData := d, scTerminal := t\<rparr>) \<and> linesOk d \<and> termInv t"
  using assms
proof (induction ls arbitrary: s)
  case Nil
  then show ?case by (intro exI [of _ "m_bufferData s"] exI [of _ "scTerminal s"]) simp
next
  case (Cons l ls)
  then obtain d t where 1: "directLine (Top a) (int (areaWidth a)) cc cl l s =
      Some (s\<lparr>m_bufferData := d, scTerminal := t\<rparr>)" "linesOk d" "termInv t"
    using directLine_ok [of s a l cc cl] by auto
  then obtain d' t' where "foreach (directLine (Top a) (int (areaWidth a)) cc cl) ls
      (s\<lparr>m_bufferData := d, scTerminal := t\<rparr>) =
      Some ((s\<lparr>m_bufferData := d, scTerminal := t\<rparr>)\<lparr>m_bufferData := d', scTerminal := t'\<rparr>)"
    "linesOk d'" "termInv t'"
    using Cons.IH [of "s\<lparr>m_bufferData := d, scTerminal := t\<rparr>"] Cons.prems by auto
  then show ?case using 1 by auto
qed

lemma directScrapeOutput_ok:
  assumes "windowOk (srWindow info)" and "scCore s"
  shows "\<exists>b con d t. directScrapeOutput env h info visible s =
      Some (s\<lparr>m_readBuffer := b, m_console := con, m_bufferData := d, scTerminal := t\<rparr>) \<and>
     linesOk d \<and> termInv t \<and> queries (m_console s) con"
proof -
  define win where "win = srWindow info"
  define w where "w = min (min (Right win - Left win + 1) (X (m_ptySize s))) MAX_CONSOLE_WIDTH"
  define n where "n = min (min (Bottom win - Top win + 1) (Y (m_ptySize s))) BUFFER_LINE_COUNT"
  define a where "a = \<lparr>Left = Left win, Top = Top win, Right = Left win + w - 1, Bottom = Top win + n - 1\<rparr>"
  have wn: "1 \<le> w" "w \<le> 2500" "w \<le> Right win - Left win + 1" "1 \<le> n" "n \<le> 3000" "n \<le> Bottom win - Top win + 1"
    using assms by (auto simp: w_def n_def windowOk_def scCore_def win_def MAX_CONSOLE_WIDTH_def BUFFER_LINE_COUNT_def)
  have winb: "0 \<le> Left win" "Right win < 32767" "0 \<le> Top win" "Bottom win < 32767"
    using assms(1) by (auto simp: windowOk_def win_def)
  have va: "validArea a" using wn winb by (simp add: a_def validArea_def MAX_CONSOLE_WIDTH_def)
  have aw: "int (areaWidth a) = w" "Top a = Top win" "Left a = Left win" "Bottom a = Top win + n - 1"
    using wn by (simp_all add: areaWidth_def a_def)
  have sizes: "rect_width win = Some (Right win - Left win + 1)" "rect_height win = Some (Bottom win - Top win + 1)"
      "mkSmallRect (Left win) (Top win) w n = Some a" "rect_width a = Some w" "rect_height a = Some n"
    using wn winb by (auto simp: rect_width_def rect_height_def mkSmallRect_def checkedNarrow_eq a_def windowOk_def)
  define vis where "vis \<longleftrightarrow> visible \<and> containsCoord a (dwCursorPosition info)"
  define cc where "cc = (if vis then X (dwCursorPosition info) - Left a else - 1)"
  define cl where "cl = (if vis then Y (dwCursorPosition info) - Top a else - 1)"
  define s1 where "s1 = (if vis then s else onTerminal hideTerminalCursor s)"
  have s1: "m_console s1 = m_console s" "m_bufferData s1 = m_bufferData s" "termInv (scTerminal s1)"
    using assms(2) by (simp_all add: s1_def onTerminal_def scCore_def)
  obtain b con where rd: "scrapeRead env h a s1 = Some (s1\<lparr>m_readBuffer := b, m_console := con\<rparr>)"
    "filled b a" "queries (m_console s1) con"
    using scrapeRead_ok [OF va, of env h s1] by blast
  have "linesOk (m_bufferData s1)" using s1(2) assms(2) by (simp add: scCore_def)
  then obtain d t where run: "foreach (directLine (Top a) w cc cl) [0..n - 1]
      (s1\<lparr>m_readBuffer := b, m_console := con\<rparr>) =
      Some (s1\<lparr>m_readBuffer := b, m_console := con, m_bufferData := d, scTerminal := t\<rparr>)"
    "linesOk d" "termInv t"
    using directLines_ok [of "s1\<lparr>m_readBuffer := b, m_console := con\<rparr>" a "[0..n - 1]" cc cl]
      rd(2) s1(3) wn aw by auto
  define t' where "t' = (if vis then showTerminalCursor cc cl t else t)"
  have fin: "(if vis then onTerminal (showTerminalCursor cc cl)
        (s1\<lparr>m_readBuffer := b, m_console := con, m_bufferData := d, scTerminal := t\<rparr>)
      else s1\<lparr>m_readBuffer := b, m_console := con, m_bufferData := d, scTerminal := t\<rparr>) =
      s\<lparr>m_readBuffer := b, m_console := con, m_bufferData := d, scTerminal := t'\<rparr>"
    by (simp add: s1_def t'_def onTerminal_def)
  have "directScrapeOutput env h info visible s =
      Some (s\<lparr>m_readBuffer := b, m_console := con, m_bufferData := d, scTerminal := t'\<rparr>)"
    unfolding directScrapeOutput_def Let_def win_def [symmetric] sizes Option.bind.bind_lunit
      w_def [symmetric] n_def [symmetric] vis_def [symmetric] cc_def [symmetric] cl_def [symmetric]
      s1_def [symmetric] rd(1) run(1) fin ..
  then show ?thesis
    using run(2, 3) rd(3) s1(1) by (intro exI [of _ b] exI [of _ con] exI [of _ d] exI [of _ t'])
      (simp add: t'_def termInv_show)
qed

end
