(* ===== verification/ScraperSafety.thy ===== *)
theory ScraperSafety
  imports ScraperLaws
begin

text \<open>
  The operations of the scraper as its clients call them (src/agent/Scraper.cc): a scrape, a resize
  and the construction. The scraper never fails an assertion, with one exception, which is stated
  exactly: a resize while the marker has scrolled to the first row of the buffer.
\<close>

section \<open>Resizing\<close>

lemma clearBufferRow_ok:
  assumes "linesOk (m_bufferData s)" and "0 \<le> row" and "0 \<le> m_scrolledCount s"
  shows "\<exists>M d. clearBufferRow row s = Some (s\<lparr>m_maxBufferedLine := M, m_bufferData := d\<rparr>) \<and> linesOk d"
  using assms
  by (simp add: clearBufferRow_def bufIndex_eq linesOk_def [THEN iffD1, THEN conjunct1] Let_def)
    (intro exI conjI, rule refl, simp add: linesOk_update)

lemma clearBufferRows_ok:
  assumes "linesOk (m_bufferData s)" and "\<forall>r \<in> set rows. 0 \<le> r" and "0 \<le> m_scrolledCount s"
  shows "\<exists>M d. foreach clearBufferRow rows s = Some (s\<lparr>m_maxBufferedLine := M, m_bufferData := d\<rparr>) \<and> linesOk d"
  using assms
proof (induction rows arbitrary: s)
  case Nil
  then show ?case by (intro exI [of _ "m_maxBufferedLine s"] exI [of _ "m_bufferData s"]) simp
next
  case (Cons r rows)
  then obtain M d where 1: "clearBufferRow r s = Some (s\<lparr>m_maxBufferedLine := M, m_bufferData := d\<rparr>)" "linesOk d"
    using clearBufferRow_ok [of s r] by auto
  then obtain M' d' where "foreach clearBufferRow rows (s\<lparr>m_maxBufferedLine := M, m_bufferData := d\<rparr>) =
      Some (s\<lparr>m_maxBufferedLine := M', m_bufferData := d'\<rparr>)" "linesOk d'"
    using Cons.IH [of "s\<lparr>m_maxBufferedLine := M, m_bufferData := d\<rparr>"] Cons.prems by auto
  then show ?case using 1 by auto
qed

lemma hideHistory_ok:
  assumes "scCore s" and "windowOk (srWindow info)" and "m_syncRow s \<noteq> 0 \<or> m_directMode s"
    and "1 \<le> rows" and "rows \<le> 2000"
  shows "\<exists>s'. hideHistory env h info rows s = Some s' \<and> scCore s' \<and> extends (m_console s) (m_console s') \<and>
     m_syncRow s' \<le> m_syncRow s \<and> m_ptySize s' = m_ptySize s \<and> m_directMode s' = m_directMode s"
proof (cases "m_directMode s")
  case True
  then show ?thesis
    using assms(1) by (auto simp: hideHistory_def scCore_def linesOk_def)
next
  case False
  obtain con where c: "clearLines h 0 (Top (srWindow info)) info (m_console s) = Some con" "extends (m_console s) con"
    using clearLines_ok [of 0 h _ info "m_console s"] by auto
  have "linesOk (m_bufferData (s\<lparr>m_console := con\<rparr>))" "0 \<le> m_scrolledCount (s\<lparr>m_console := con\<rparr>)"
    using assms(1) by (simp_all add: scCore_def)
  then obtain M d where b: "clearBufferLines 0 (Top (srWindow info)) (s\<lparr>m_console := con\<rparr>) =
      Some (s\<lparr>m_console := con, m_maxBufferedLine := M, m_bufferData := d\<rparr>)" "linesOk d"
    using clearBufferRows_ok [of "s\<lparr>m_console := con\<rparr>" "[0..Top (srWindow info) - 1]"] False
    by (auto simp: clearBufferLines_def)
  define s1 where "s1 = s\<lparr>m_console := con, m_maxBufferedLine := M, m_bufferData := d\<rparr>"
  have s1: "scCore s1" "m_syncRow s1 = m_syncRow s" "m_ptySize s1 = m_ptySize s" "m_console s1 = con"
      "m_directMode s1 = m_directMode s"
    using assms(1) b(2) by (simp_all add: s1_def scCore_def)
  show ?thesis
  proof (cases "m_syncRow s = - 1")
    case True
    then show ?thesis using False c b(1) s1 by (simp add: hideHistory_def flip: s1_def)
  next
    case no: False
    define row where "row = min (m_syncRow s) (2784 - rows)"
    have row: "1 \<le> row" "row \<le> 2984" "row \<le> m_syncRow s"
      using no False assms by (auto simp: row_def scCore_def)
    obtain con2 where "createSyncMarker env h row s1 =
      Some (s1\<lparr>m_console := con2, m_syncCounter := m_syncCounter s1 + 1, m_syncRow := row\<rparr>)" "extends con con2"
      using createSyncMarker_ok [OF row(1, 2), of env h s1] s1(4) by auto
    moreover have "scCore (s1\<lparr>m_console := con2, m_syncCounter := m_syncCounter s1 + 1, m_syncRow := row\<rparr>)"
      using s1(1, 2) row by (auto simp: scCore_def)
    ultimately show ?thesis
      using no False c b(1) s1 row calls_trans [OF c(2)]
      by (simp add: hideHistory_def BUFFER_LINE_COUNT_def SYNC_MARKER_LEN_def SYNC_MARKER_MARGIN_def
          flip: s1_def row_def)
  qed
qed

lemma setSmallFont_ok: "\<exists>con'. setSmallFont env h cols isNew con = Some con' \<and> extends con con'"
proof -
  have set: "extends con (snd (setConsoleFont env h f con))" for f con
    by (simp add: setConsoleFont_def Let_def calls_next split: option.splits)
  have select: "\<exists>f. selectSmallFont w cp c n = Some f" for w cp c n
    using selectSmallFont_best [of w cp n c] by blast
  define con1 where "con1 = callConsole GetOutputCP con"
  define cp where "cp = outputCodePage env (history con1)"
  obtain f fb where f: "selectSmallFont (windows8OrGreater env) cp cols isNew = Some f"
      "selectSmallFont (windows8OrGreater env) 0 cols isNew = Some fb"
    using select by blast
  obtain ok con2 where c2: "setConsoleFont env h f con1 = (ok, con2)" by fastforce
  have "extends con con1" by (simp add: con1_def calls_step)
  then have "extends con con2" using set [of con1 f] c2 calls_trans by fastforce
  then have "extends con (snd (setConsoleFont env h fb con2))" by (rule calls_trans [OF _ set])
  with \<open>extends con con2\<close> show ?thesis
    using f c2 by (simp add: setSmallFont_def setSmallConsoleFont_def Let_def flip: con1_def cp_def)
qed

lemma resizeWider_ok: "extends con (snd (resizeWider env h sz con))"
proof (induction env h sz con rule: resizeWider.induct)
  case (1 env h sz con)
  show ?case
  proof (cases "X sz < 20")
    case True
    define sz1 where "sz1 = sz\<lparr>X := X sz + 1\<rparr>"
    define con1 where "con1 = callConsole (SetBufferSize h sz1) con"
    have "extends con con1" by (simp add: con1_def calls_step)
    moreover have "extends con1 (snd (resizeWider env h sz1 con1))" if "\<not> resizeSucceeds env (history con1)"
      using 1 True that unfolding sz1_def con1_def setBufferSize_def Let_def by simp
    ultimately show ?thesis
      using True calls_trans
      by (subst resizeWider.simps) (auto simp: setBufferSize_def Let_def simp flip: sz1_def con1_def)
  qed (subst resizeWider.simps, simp)
qed

lemma resizeBufferRange_ok: "extends con (snd (resizeBufferRange env h sz con))"
  using calls_trans [OF calls_step resizeWider_ok]
  by (simp add: resizeBufferRange_def setBufferSize_def Let_def calls_step)

lemma ensureLineIncluded_ok:
  assumes "Right r - Left r + 1 = w" and "Bottom r - Top r + 1 = n" and "Left r = 0"
    and "0 \<le> w" "w \<le> 32767" "0 \<le> n" "n \<le> 32767" "Bottom r \<le> 32767" "0 \<le> line" "line < 32767"
  shows "\<exists>r'. ensureLineIncluded r line = Some r'"
  using assms by (simp add: ensureLineIncluded_def rect_width_def rect_height_def checkedNarrow_eq mkSmallRect_def)

definition infoRange :: "ConsoleInfo \<Rightarrow> bool" where
  "infoRange info \<longleftrightarrow> 0 \<le> X (dwSize info) \<and> X (dwSize info) \<le> 32767 \<and> 0 \<le> Y (dwSize info) \<and>
     Y (dwSize info) \<le> 32767 \<and> windowOk (srWindow info) \<and>
     0 \<le> Y (dwCursorPosition info) \<and> Y (dwCursorPosition info) < 32767"

lemma infoRange_ok: "infoOk info \<or> info = zeroInfo \<Longrightarrow> infoRange info"
  by (auto simp: infoRange_def windowOk_def infoOk_def zeroInfo_def emptyRect_def mkCoord_def)

lemma shrinkWindow_ok:
  assumes "consoleOk env" and "1 \<le> cols" "cols \<le> 32767" "1 \<le> rows" "rows \<le> 32767"
  shows "\<exists>con. shrinkWindow env h cols rows s = Some (s\<lparr>m_console := con\<rparr>)"
proof -
  obtain info con where q: "queryInfo env h (onConsole (setFrozen True) s) = (info, s\<lparr>m_console := con\<rparr>)"
    "infoRange info"
    using queryInfo_ok [OF assms(1), of h "onConsole (setFrozen True) s"] infoRange_ok
    by (auto simp: onConsole_def)
  define w where "w = min (X (dwSize info)) cols"
  define n where "n = min (Y (dwSize info)) rows"
  define y where "y = min (Y (dwSize info) - n) (Top (srWindow info))"
  have b: "0 \<le> w" "w \<le> 32767" "0 \<le> n" "n \<le> 32767" "0 \<le> y" "y + n \<le> 32767" "y < 32767"
    using q(2) assms by (auto simp: w_def n_def y_def infoRange_def windowOk_def)
  define r where "r = \<lparr>Left = 0, Top = y, Right = w - 1, Bottom = y + n - 1\<rparr>"
  have mk: "checkedNarrow SHORT_range y = Some y" "checkedNarrow SHORT_range w = Some w"
      "checkedNarrow SHORT_range n = Some n" "mkSmallRect 0 y w n = Some r"
    using b by (simp_all add: mkSmallRect_def checkedNarrow_eq r_def)
  have "\<exists>r'. (if cursorInWindow info then ensureLineIncluded r (Y (dwCursorPosition info)) else Some r) = Some r'"
    using ensureLineIncluded_ok [of r w n "Y (dwCursorPosition info)"] b q(2) by (simp add: r_def infoRange_def)
  then obtain r' where r': "(if cursorInWindow info then ensureLineIncluded r (Y (dwCursorPosition info))
      else Some r) = Some r'" ..
  have "shrinkWindow env h cols rows s = Some (s\<lparr>m_console := moveWindow h r' con\<rparr>)"
    unfolding shrinkWindow_def q(1) Let_def prod.case n_def [symmetric] y_def [symmetric] w_def [symmetric]
      mk Option.bind.bind_lunit r'
    by (simp add: onConsole_def)
  then show ?thesis by blast
qed

lemma finalWindow_ok:
  assumes "infoRange info" and "0 \<le> dirty" "dirty \<le> 3000"
    and "1 \<le> cols" "cols \<le> 32767" "1 \<le> rows" "rows \<le> 32767"
  shows "\<exists>r. finalWindow direct dirty info cols rows = Some r"
proof -
  define y where "y = min (Y (dwSize info) - rows) (Top (srWindow info))"
  have b: "- 32767 \<le> y" "y < 32767" "y + rows \<le> 32767"
    using assms by (auto simp: y_def infoRange_def windowOk_def)
  define r0 where "r0 = \<lparr>Left = 0, Top = y, Right = cols - 1, Bottom = y + rows - 1\<rparr>"
  define r1 where "r1 = (if \<not> direct \<and> dirty > Bottom r0 + 1
    then \<lparr>Left = 0, Top = dirty - rows, Right = cols - 1, Bottom = dirty - 1\<rparr> else r0)"
  have mk: "checkedNarrow SHORT_range y = Some y" "mkSmallRect 0 y cols rows = Some r0"
      "checkedNarrow SHORT_range (dirty - rows) = Some (dirty - rows)"
      "mkSmallRect 0 (dirty - rows) cols rows = Some \<lparr>Left = 0, Top = dirty - rows, Right = cols - 1, Bottom = dirty - 1\<rparr>"
    using b assms by (simp_all add: mkSmallRect_def checkedNarrow_eq r0_def)
  have "\<exists>r. (if cursorInWindow info then ensureLineIncluded r1 (Y (dwCursorPosition info)) else Some r1) = Some r"
    using ensureLineIncluded_ok [of r1 cols rows "Y (dwCursorPosition info)"] b assms
    by (auto simp: r1_def r0_def infoRange_def)
  moreover have "(if \<not> direct \<and> Bottom r0 + 1 < dirty then Some \<lparr>Left = 0, Top = dirty - rows, Right = cols - 1, Bottom = dirty - 1\<rparr>
      else Some r0) = Some r1"
    by (simp add: r1_def)
  ultimately show ?thesis
    unfolding finalWindow_def y_def [symmetric] mk Option.bind.bind_lunit by simp
qed

lemma expandWindow_ok:
  assumes "consoleOk env" and "scCore s"
    and "1 \<le> cols" "cols \<le> 32767" "1 \<le> rows" "rows \<le> 32767"
  shows "\<exists>con topRow. expandWindow env h cols rows s = Some (s\<lparr>m_console := con, m_dirtyWindowTop := topRow\<rparr>) \<and>
    m_frozen con"
proof -
  obtain info con where q: "queryInfo env h (onConsole (setFrozen True) s) = (info, s\<lparr>m_console := con\<rparr>)"
    "infoRange info" "queries (setFrozen True (m_console s)) con"
    using queryInfo_ok [OF assms(1), of h "onConsole (setFrozen True) s"] infoRange_ok
    by (auto simp: onConsole_def)
  have "m_frozen (setFrozen True (m_console s))" by (simp add: setFrozen_def)
  then have fr: "m_frozen con" using calls_simps [OF q(3)] by simp
  have "0 \<le> m_dirtyLineCount s" "m_dirtyLineCount s \<le> 3000" using assms(2) by (simp_all add: scCore_def)
  then obtain r where r: "finalWindow (m_directMode s) (m_dirtyLineCount s) info cols rows = Some r"
    using finalWindow_ok [OF q(2) _ _ assms(3-6)] by blast
  have "expandWindow env h cols rows s =
      Some (s\<lparr>m_console := moveWindow h r con, m_dirtyWindowTop := Top r\<rparr>)"
    using q(1) r by (simp add: expandWindow_def onConsole_def)
  moreover have "m_frozen (moveWindow h r con)" using fr by (simp add: moveWindow_def callConsole_def)
  ultimately show ?thesis by blast
qed

lemma finalBufferSize_ok:
  assumes "infoRange info" and "1 \<le> cols" "cols \<le> 32767" "1 \<le> rows" "rows \<le> 32767"
  shows "\<exists>sz. finalBufferSize info cols rows = Some sz"
  using assms
  by (auto simp: finalBufferSize_def infoRange_def windowOk_def rect_height_def checkedNarrow_eq)

lemma resizeImpl_ok:
  assumes env: "consoleOk env" and core: "scCore s" and frozen: "m_frozen (m_console s)"
    and info: "infoRange info" and marker: "m_syncRow s \<noteq> 0 \<or> m_directMode s"
  shows "\<exists>s'. resizeImpl env h info s = Some s' \<and> scCore s' \<and> m_frozen (m_console s') \<and>
     m_directMode s' = m_directMode s \<and> m_ptySize s' = m_ptySize s \<and> m_syncRow s' \<le> m_syncRow s"
proof -
  define cols where "cols = X (m_ptySize s)"
  define rows where "rows = Y (m_ptySize s)"
  have b: "1 \<le> cols" "cols \<le> 32767" "1 \<le> rows" "rows \<le> 2000"
    using core by (auto simp: cols_def rows_def scCore_def MAX_CONSOLE_HEIGHT_def)
  obtain s1 where h1: "hideHistory env h info rows s = Some s1" "scCore s1" "m_syncRow s1 \<le> m_syncRow s"
      "m_ptySize s1 = m_ptySize s" "m_directMode s1 = m_directMode s"
    using hideHistory_ok [OF core _ marker b(3, 4), of info env h] info by (auto simp: infoRange_def)
  obtain sz where sz: "finalBufferSize info cols rows = Some sz"
    using finalBufferSize_ok [OF info b(1-3)] b(4) by auto
  define s2 where "s2 = onConsole (setFrozen False) s1"
  obtain con3 where font: "setSmallFont env h cols (m_isNewW10 (m_console s2)) (m_console s2) = Some con3"
    using setSmallFont_ok by blast
  define con4 where "con4 = callConsole (GetLargestWindow h) con3"
  define vc where "vc = min cols (X (largestWindow env (history con4)))"
  define vr where "vr = min rows (Y (largestWindow env (history con4)))"
  have v: "1 \<le> vc" "vc \<le> 32767" "1 \<le> vr" "vr \<le> 32767"
    using env b by (auto simp: vc_def vr_def consoleOk_def)
  obtain con5 where s5: "shrinkWindow env h vc vr (s2\<lparr>m_console := con4\<rparr>) = Some (s2\<lparr>m_console := con5\<rparr>)"
    using shrinkWindow_ok [OF env v, of h "s2\<lparr>m_console := con4\<rparr>"] by auto
  define s6 where "s6 = onConsole (snd \<circ> resizeBufferRange env h sz)
      (onConsole (setFrozen False) (s2\<lparr>m_console := con5\<rparr>))"
  have core6: "scCore s6" using h1(2) by (simp add: s6_def s2_def onConsole_def)
  obtain con7 topRow where s7: "expandWindow env h vc vr s6 = Some (s6\<lparr>m_console := con7, m_dirtyWindowTop := topRow\<rparr>)"
      "m_frozen con7"
    using expandWindow_ok [OF env core6 v, of h] by blast
  define s' where "s' = s6\<lparr>m_console := con7, m_dirtyWindowTop := topRow\<rparr>"
  have nar: "ASSERT (m_frozen (m_console s)) = Some ()" "checkedNarrow SHORT_range cols = Some cols"
      "checkedNarrow SHORT_range rows = Some rows" "ASSERT (m_frozen (m_console s')) = Some ()"
    using frozen b s7(2) by (simp_all add: checkedNarrow_eq s'_def)
  have "resizeImpl env h info s = Some s'"
    unfolding resizeImpl_def nar(1) Option.bind.bind_lunit Let_def cols_def [symmetric] rows_def [symmetric]
      h1(1) sz s2_def [symmetric] font con4_def [symmetric] nar(2, 3) vc_def [symmetric] vr_def [symmetric]
      s5 s6_def [symmetric] s7(1) s'_def [symmetric] nar(4) ..
  moreover have "scCore s'" using core6 by (simp add: s'_def scCore_def)
  ultimately show ?thesis
    using h1 s7(2) by (simp add: s'_def s6_def s2_def onConsole_def)
qed

lemma resize_marker_at_top:
  assumes "\<not> m_directMode s" and "m_syncRow s = 0"
  shows "resizeImpl env h info s = None"
proof -
  have "hideHistory env h info rows s = None" for rows
  proof -
    have keep: "m_syncRow t = m_syncRow s0" if "foreach clearBufferRow rs s0 = Some t" for rs s0 t
      using that
    proof (induction rs arbitrary: s0)
      case (Cons r rs)
      then show ?case
        by (auto simp: bind_eq_Some clearBufferRow_def Let_def split: if_splits)
    qed simp
    have "clearBufferLines 0 n s0 = Some t \<Longrightarrow> m_syncRow t = m_syncRow s0" for n s0 t
      by (auto simp: clearBufferLines_def bind_eq_Some dest: keep)
    then show ?thesis
      using assms
      by (cases "hideHistory env h info rows s")
        (auto simp: hideHistory_def bind_eq_Some createSyncMarker_def split: if_splits dest!: spec)
  qed
  then show ?thesis by (simp add: resizeImpl_def)
qed

text \<open>
  C27. A resize fails exactly when the scraper is in scrolling mode and its marker has scrolled to
  the first row of the buffer: \<open>createSyncMarker\<close> asserts that the row is at least 1, but
  \<open>findSyncMarker\<close> may find the marker in row 0. In every other state, and whatever the
  programs in the console do while it is not frozen, the resize goes through: the window and buffer
  sizes it computes are always in range.
\<close>

theorem resize_fails_at_top:
  assumes "consoleOk env" and "scCore s" and "m_frozen (m_console s)" and "infoOk info"
  shows "resizeImpl env h info s = None \<longleftrightarrow> m_syncRow s = 0 \<and> \<not> m_directMode s"
  using resize_marker_at_top [of s env h info] resizeImpl_ok [OF assms(1-3) infoRange_ok, of info h] assms(4)
  by (cases "m_syncRow s = 0 \<and> \<not> m_directMode s") auto

section \<open>Scraping\<close>

lemma enterMode_ok:
  assumes "scInv s" and "infoOk info \<or> info = zeroInfo"
  shows "\<exists>force' s'. enterMode info force s = (force', s') \<and> scInv s' \<and>
     (m_directMode s' \<longleftrightarrow> Y (dwSize info) \<noteq> BUFFER_LINE_COUNT) \<and>
     (force' \<longleftrightarrow> force \<or> m_directMode s \<and> \<not> m_directMode s') \<and> (force \<longrightarrow> m_frozen (m_console s) \<longrightarrow> m_frozen (m_console s')) \<and>
     (m_directMode s \<and> \<not> m_directMode s' \<longrightarrow> m_frozen (m_console s') \<and> m_syncRow s' = - 1)"
proof -
  have core: "scCore s" using assms(1) by (simp add: scInv_def)
  have topRow: "0 \<le> Top (srWindow info)" using infoRange_ok [OF assms(2)] by (simp add: infoRange_def windowOk_def)
  have inv: "scInv ((resetConsoleTracking SendClear n s)\<lparr>m_directMode := d\<rparr>)" if "0 \<le> n" for n d
    using scInv_reset [OF core that, of SendClear] by (simp add: scInv_def scCore_def)
  have fr: "m_frozen (setFrozen True con)" for con by (simp add: setFrozen_def)
  show ?thesis
    using assms(1) inv topRow fr
    by (auto simp: enterMode_def BUFFER_LINE_COUNT_def Let_def onConsole_def)
qed

lemma scrapeScrolling_ok:
  assumes env: "consoleOk env" and info: "scrollInfo info" and inv: "scInv s"
  shows "\<exists>s'. scrapeScrolling env h info visible s = Some s' \<and> scInv s' \<and> m_directMode s' = m_directMode s \<and>
     (m_frozen (m_console s) \<longrightarrow> m_frozen (m_console s')) \<and>
     (m_frozen (m_console s) \<and> m_syncRow s = - 1 \<longrightarrow> m_syncRow s' = - 1 \<or> 215 \<le> m_syncRow s')"
proof -
  have frozen: "\<exists>s'. scrollingScrapeOutput env h info visible False t = Some (True, s') \<and> scInv s' \<and>
      m_frozen (m_console s') = m_frozen (m_console t) \<and> m_directMode s' = m_directMode t \<and>
      (m_syncRow t = - 1 \<longrightarrow> m_syncRow s' = - 1 \<or> 215 \<le> m_syncRow s')" if t: "scInv t" for t
  proof -
    obtain ok s' where "scrollingScrapeOutput env h info visible False t = Some (ok, s')" "scInv s'"
      "extends (m_console t) (m_console s')" "m_directMode s' = m_directMode t" "ok"
      "m_syncRow t = - 1 \<longrightarrow> m_syncRow s' = - 1 \<or> 215 \<le> m_syncRow s'"
      using scrollingScrapeOutput_ok [OF env info t, of h visible False] by auto
    then show ?thesis using calls_simps by auto
  qed
  show ?thesis
  proof (cases "m_frozen (m_console s)")
    case True
    then show ?thesis using frozen [OF inv] by (auto simp: scrapeScrolling_def)
  next
    case False
    obtain ok t where 1: "scrollingScrapeOutput env h info visible True s = Some (ok, t)" "scInv t"
      "extends (m_console s) (m_console t)" "m_directMode t = m_directMode s"
      using scrollingScrapeOutput_ok [OF env info inv, of h visible True] by blast
    have nf: "\<not> m_frozen (m_console t)" using 1(3) False calls_simps by auto
    show ?thesis
    proof (cases ok)
      case True
      then show ?thesis using 1 False nf by (auto simp: scrapeScrolling_def)
    next
      case no: False
      have "scInv (onConsole (setFrozen True) t)" "m_frozen (m_console (onConsole (setFrozen True) t))"
        "m_directMode (onConsole (setFrozen True) t) = m_directMode t"
        using 1(2) by (simp_all add: onConsole_def setFrozen_def)
      then show ?thesis
        using frozen [of "onConsole (setFrozen True) t"] 1 False no by (auto simp: scrapeScrolling_def)
    qed
  qed
qed

lemma scrapeBuffer_ok:
  assumes env: "consoleOk env" and inv: "scInv s"
  shows "\<exists>info s'. scrapeBuffer env h s = Some (info, s') \<and> scCore s' \<and>
     ((m_directMode s \<longrightarrow> m_directMode s') \<longrightarrow> scInv s')"
proof -
  define s1 where "s1 = (if \<not> m_isNewW10 (m_console s) then onConsole (setFrozen True) s else s)"
  have s1: "scInv s1" "m_directMode s1 = m_directMode s"
    using inv by (auto simp: s1_def onConsole_def)
  obtain info con where q: "queryInfo env h s1 = (info, s1\<lparr>m_console := con\<rparr>)" "infoOk info \<or> info = zeroInfo"
    using queryInfo_ok [OF env, of h s1] by blast
  define s3 where "s3 = onConsole (callConsole GetCursorInfo) (s1\<lparr>m_console := con\<rparr>)"
  have s3: "scInv s3" "m_directMode s3 = m_directMode s" using s1 by (simp_all add: s3_def onConsole_def)
  define visible where
    "visible = (case cursorVisible env (history (m_console s3)) of None \<Rightarrow> True | Some v \<Rightarrow> v)"
  obtain force s4 where e: "enterMode info False s3 = (force, s4)" "scInv s4"
    "m_directMode s4 \<longleftrightarrow> Y (dwSize info) \<noteq> BUFFER_LINE_COUNT"
    "force \<longleftrightarrow> m_directMode s \<and> \<not> m_directMode s4"
    "m_directMode s \<and> \<not> m_directMode s4 \<longrightarrow> m_frozen (m_console s4) \<and> m_syncRow s4 = - 1"
    using enterMode_ok [OF s3(1) q(2), of False] s3(2) by auto
  have start: "scrapeBuffer env h s = do {
      s5 \<leftarrow> (if m_directMode s4 then do {
               t \<leftarrow> (if force then resizeImpl env h info s4 else Some s4);
               directScrapeOutput env h info visible t
             }
             else do {
               t \<leftarrow> scrapeScrolling env h info visible s4;
               if force then resizeImpl env h info t else Some t
             });
      Some (if force then queryInfo env h s5 else (info, s5))
    }"
    unfolding scrapeBuffer_def syncConsoleContentAndSize_def Let_def
    using e(1) q(1) by (simp flip: s1_def s3_def visible_def)
  have core4: "scCore s4" using e(2) by (simp add: scInv_def)
  show ?thesis
  proof (cases "m_directMode s4")
    case True
    then have nf: "\<not> force" using e(4) by simp
    obtain b con' d t where r: "directScrapeOutput env h info visible s4 =
        Some (s4\<lparr>m_readBuffer := b, m_console := con', m_bufferData := d, scTerminal := t\<rparr>)"
        "linesOk d" "termInv t"
      using directScrapeOutput_ok [OF windowOk_info [OF q(2)] core4, of env h visible] by blast
    have "scInv (s4\<lparr>m_readBuffer := b, m_console := con', m_bufferData := d, scTerminal := t\<rparr>)"
      using e(2) r(2, 3) by (simp add: scInv_def scCore_def)
    then show ?thesis using start True nf r(1) by (simp add: scInv_def)
  next
    case False
    then have si: "scrollInfo info"
      using e(3) q(2) by (auto simp: scrollInfo_def zeroInfo_def mkCoord_def BUFFER_LINE_COUNT_def)
    obtain s5 where s5: "scrapeScrolling env h info visible s4 = Some s5" "scInv s5"
      "m_directMode s5 = m_directMode s4"
      "m_frozen (m_console s4) \<longrightarrow> m_frozen (m_console s5)"
      "m_frozen (m_console s4) \<and> m_syncRow s4 = - 1 \<longrightarrow> m_syncRow s5 = - 1 \<or> 215 \<le> m_syncRow s5"
      using scrapeScrolling_ok [OF env si e(2), of h visible] by blast
    show ?thesis
    proof (cases force)
      case no: False
      then show ?thesis using start False s5 by (simp add: scInv_def)
    next
      case True
      have core5: "scCore s5" using s5(2) by (simp add: scInv_def)
      have m5: "m_frozen (m_console s5)" "m_syncRow s5 \<noteq> 0" using True e(4, 5) s5(4, 5) by auto
      obtain s6 where s6: "resizeImpl env h info s5 = Some s6" "scCore s6" "m_directMode s6 = m_directMode s5"
        using resizeImpl_ok [OF env core5 m5(1) infoRange_ok [OF q(2)]] m5(2) by blast
      obtain i c where "queryInfo env h s6 = (i, s6\<lparr>m_console := c\<rparr>)"
        using queryInfo_ok [OF env, of h s6] by blast
      then show ?thesis
        using start False True s5(1, 3) s6 e(4) by (intro exI [of _ i] exI [of _ "s6\<lparr>m_console := c\<rparr>"]) auto
    qed
  qed
qed

section \<open>Construction\<close>

lemma newScraper_ok:
  assumes env: "consoleOk env" and t: "termInv t"
    and size: "1 \<le> X sz" "X sz \<le> 32767" "1 \<le> Y sz" "Y sz \<le> MAX_CONSOLE_HEIGHT"
  shows "\<exists>s. newScraper env h t sz con = Some s \<and> scInv s \<and> \<not> m_directMode s"
proof -
  define s0 where "s0 = \<lparr>m_console = con, scTerminal = t, m_syncRow = - 1, m_syncCounter = 0,
               m_directMode = False, m_ptySize = sz, m_scrapedLineCount = 0,
               m_scrolledCount = 0, m_maxBufferedLine = - 1, m_readBuffer = newLargeBuffer,
               m_bufferData = [], m_dirtyWindowTop = - 1, m_dirtyLineCount = 0\<rparr>"
  obtain info con1 where q: "queryInfo env h s0 = (info, s0\<lparr>m_console := con1\<rparr>)" "infoOk info \<or> info = zeroInfo"
    using queryInfo_ok [OF env, of h s0] by blast
  define s2 where "s2 = (resetConsoleTracking OmitClear (Top (srWindow info)) (s0\<lparr>m_console := con1\<rparr>))
                \<lparr>m_bufferData := replicate (nat BUFFER_LINE_COUNT) newConsoleLine\<rparr>"
  obtain con3 where font: "setSmallFont env h (X sz) (m_isNewW10 (m_console s2)) (m_console s2) = Some con3"
    using setSmallFont_ok by blast
  have r1: "mkSmallRect 0 0 1 1 = Some \<lparr>Left = 0, Top = 0, Right = 0, Bottom = 0\<rparr>"
    by (simp add: mkSmallRect_def checkedNarrow_eq)
  define con4 where "con4 = snd (resizeBufferRange env h (mkCoord (X sz) BUFFER_LINE_COUNT)
                  (moveWindow h \<lparr>Left = 0, Top = 0, Right = 0, Bottom = 0\<rparr> con3))"
  define con5 where "con5 = callConsole (GetLargestWindow h) con4"
  have big: "1 \<le> X (largestWindow env (history con5))" "1 \<le> Y (largestWindow env (history con5))"
      "X (largestWindow env (history con5)) \<le> 32767" "Y (largestWindow env (history con5)) \<le> 32767"
    using env by (simp_all add: consoleOk_def)
  define w where "w = min (X sz) (X (largestWindow env (history con5)))"
  define n where "n = min (Y sz) (Y (largestWindow env (history con5)))"
  have "1 \<le> w" "w \<le> 32767" "1 \<le> n" "n \<le> 32767" using size big by (auto simp: w_def n_def)
  then obtain r2 where r2: "mkSmallRect 0 0 w n = Some r2"
    by (simp add: mkSmallRect_def checkedNarrow_eq)
  obtain info2 con7 where i2: "bufferInfo env h (setTextAttribute h kDefaultAttributes
                  (setCursorPosition h (mkCoord 0 0) (moveWindow h r2 con5))) = (info2, con7)"
    by fastforce
  obtain con8 where clr: "clearAllLines h info2 con7 = Some con8"
    using clearLines_ok [of 0 h _ info2 con7] by (auto simp: clearAllLines_def)
  have "newScraper env h t sz con = Some (s2\<lparr>m_console := con8\<rparr>)"
    unfolding newScraper_def s0_def [symmetric] Let_def q(1) prod.case s2_def [symmetric] font
      Option.bind.bind_lunit r1 con4_def [symmetric] con5_def [symmetric] w_def [symmetric]
      n_def [symmetric] r2 i2 clr ..
  moreover have "scInv (s2\<lparr>m_console := con8\<rparr>) \<and> \<not> m_directMode (s2\<lparr>m_console := con8\<rparr>)"
    using t size windowOk_info [OF q(2)]
    by (simp add: scInv_def scCore_def s2_def s0_def resetConsoleTracking_def linesOk_def BUFFER_LINE_COUNT_def
        windowOk_def)
  ultimately show ?thesis by blast
qed

text \<open>
  C4. Whatever the programs in the console do between any two calls (the environment answers each
  call as it likes, within the documented facts \<open>consoleOk\<close>), the construction of a scraper and every
  scrape run to their end: no assertion fails, no line outside of the area that was read is looked
  at, no array is overrun. The construction establishes the invariant \<open>scInv\<close>, and a scrape keeps
  it, unless it has switched back from direct to scrolling mode and resized the console, after
  which the core of the invariant holds.
\<close>

theorem scraper_never_fails:
  assumes "consoleOk env"
  shows "(termInv t \<and> 1 \<le> X sz \<and> X sz \<le> 32767 \<and> 1 \<le> Y sz \<and> Y sz \<le> MAX_CONSOLE_HEIGHT \<longrightarrow>
       (\<exists>s. newScraper env h t sz con = Some s \<and> scInv s)) \<and>
     (scInv s \<longrightarrow> (\<exists>info s'. scrapeBuffer env h s = Some (info, s') \<and> scCore s' \<and>
       ((m_directMode s \<longrightarrow> m_directMode s') \<longrightarrow> scInv s')))"
  using newScraper_ok [OF assms, of t sz h con] scrapeBuffer_ok [OF assms, of s h] by blast

definition sampleScraper :: ScraperState where
  "sampleScraper =
     \<lparr>m_console = newConsole\<lparr>m_frozen := True\<rparr>, scTerminal = newTerminal False True, m_syncRow = - 1,
      m_syncCounter = 0, m_directMode = False, m_ptySize = mkCoord 80 25, m_scrapedLineCount = 0,
      m_scrolledCount = 0, m_maxBufferedLine = - 1, m_readBuffer = newLargeBuffer,
      m_bufferData = replicate 3000 newConsoleLine, m_dirtyWindowTop = - 1, m_dirtyLineCount = 0\<rparr>"

lemma sampleConsole_ok: "consoleOk sampleConsole"
  by (simp add: consoleOk_def sampleConsole_def infoOk_def mkCoord_def)

lemma sampleScraper_inv: "scInv sampleScraper"
  by (simp add: scInv_def scCore_def sampleScraper_def linesOk_def mkCoord_def MAX_CONSOLE_HEIGHT_def)

theorem scraper_never_fails_witness:
  "(\<exists>s. newScraper sampleConsole 1 (newTerminal False True) (mkCoord 80 25) newConsole = Some s \<and> scInv s) \<and>
   (\<exists>info s'. scrapeBuffer sampleConsole 1 sampleScraper = Some (info, s') \<and> scCore s' \<and>
      ((m_directMode sampleScraper \<longrightarrow> m_directMode s') \<longrightarrow> scInv s'))"
  using scraper_never_fails [OF sampleConsole_ok, of "newTerminal False True" "mkCoord 80 25" 1 newConsole
      sampleScraper] sampleScraper_inv
  by (simp add: mkCoord_def MAX_CONSOLE_HEIGHT_def)

theorem resize_fails_at_top_witness:
  "resizeImpl sampleConsole 1 (fst (bufferInfo sampleConsole 1 newConsole)) (sampleScraper\<lparr>m_syncRow := 0\<rparr>) = None"
proof -
  have "scCore (sampleScraper\<lparr>m_syncRow := 0\<rparr>)" "m_frozen (m_console (sampleScraper\<lparr>m_syncRow := 0\<rparr>))"
    "\<not> m_directMode sampleScraper"
    using sampleScraper_inv by (simp_all add: scInv_def scCore_def) (simp_all add: sampleScraper_def)
  moreover have "infoOk (fst (bufferInfo sampleConsole 1 newConsole))"
    by (simp add: bufferInfo_def sampleConsole_def infoOk_def mkCoord_def Let_def)
  ultimately show ?thesis using resize_fails_at_top [OF sampleConsole_ok] by simp
qed

section \<open>What a scrape sends\<close>

text \<open>
  The specification of a scrape. Let \<open>row y\<close> be line \<open>y\<close> of the screen buffer, whose cells are
  \<open>shown\<close>, with masked attributes. After the console has been tracked (state \<open>s1\<close>, in which the
  remembered lines are those of before or all are forgotten), the scrape covers the virtual lines
  from the first one that is not yet scraped to \<open>stop\<close>. Every line before \<open>k\<close> is remembered and shows
  the same as the console; \<open>k\<close> is the first line that has changed, and all lines from \<open>k\<close> on are
  sent, in order, with exactly the cells of the console. Afterwards every covered line is
  remembered as the console shows it, the others as before, and below \<open>stop\<close> the window is blank in
  a single colour.
\<close>

definition scrapeRow :: "u16 \<Rightarrow> (int \<Rightarrow> int \<Rightarrow> CHAR_INFO) \<Rightarrow> int \<Rightarrow> int \<Rightarrow> CHAR_INFO list" where
  "scrapeRow msk shown w y = map (\<lambda>x. masked msk (shown x y)) [0..w - 1]"

definition remembered :: "ScraperState \<Rightarrow> int \<Rightarrow> CHAR_INFO list \<Rightarrow> bool" where
  "remembered s l cells \<longleftrightarrow> l \<le> m_maxBufferedLine s \<and>
     lineUnchanged (shownLine (m_bufferData s ! slot l)) (hiddenCells (m_bufferData s ! slot l)) cells"

definition startTerminal :: "ConsoleInfo \<Rightarrow> bool \<Rightarrow> ScraperState \<Rightarrow> TerminalState" where
  "startTerminal info visible s =
     (if shownCursor info visible then scTerminal s else hideTerminalCursor (scTerminal s))"

definition outcomeShows :: "ConsoleInfo \<Rightarrow> bool \<Rightarrow> (int \<Rightarrow> CHAR_INFO list) \<Rightarrow> int \<Rightarrow> ScraperState \<Rightarrow>
    ScraperState \<Rightarrow> (int \<Rightarrow> CHAR_INFO list) \<Rightarrow> int \<Rightarrow> int \<Rightarrow> TerminalState \<Rightarrow> u16 \<Rightarrow> bool" where
  "outcomeShows info visible row w s1 s' cells k stop t' attr \<longleftrightarrow>
     (let first = firstVirtLine (srWindow info) s1; top = Top (srWindow info) + m_scrolledCount s1;
          cc = cursorColumnOf info visible; cl = cursorLineOf info visible s1
      in (\<forall>y. first - m_scrolledCount s1 \<le> y \<and> y \<le> Bottom (srWindow info) \<longrightarrow> take (nat w) (cells y) = row y) \<and>
         first \<le> k \<and> k \<le> stop \<and> top \<le> stop \<and> stop \<le> Bottom (srWindow info) + 1 + m_scrolledCount s1 \<and>
         (\<forall>l. first \<le> l \<and> l < k \<longrightarrow> remembered s1 l (row (l - m_scrolledCount s1))) \<and>
         (k < stop \<longrightarrow> \<not> remembered s1 k (row (k - m_scrolledCount s1))) \<and>
         foreach (\<lambda>l. sendLine l (cells (l - m_scrolledCount s1)) w (if l = cl then cc else - 1)) [k..stop - 1]
           (startTerminal info visible s1) = Some t' \<and>
         scTerminal s' = (if shownCursor info visible then showTerminalCursor cc cl t' else t') \<and>
         (\<forall>l. first \<le> l \<and> l < stop \<longrightarrow> shownLine (m_bufferData s' ! slot l) = row (l - m_scrolledCount s1)) \<and>
         (\<forall>i. (\<forall>l. first \<le> l \<and> l < stop \<longrightarrow> slot l \<noteq> i) \<longrightarrow> m_bufferData s' ! i = m_bufferData s1 ! i) \<and>
         m_maxBufferedLine s' \<le> max (m_maxBufferedLine s1) (stop - 1) \<and>
         m_scrolledCount s' = m_scrolledCount s1 \<and> m_scrapedLineCount s' = top \<and>
         m_dirtyWindowTop s' = Top (srWindow info) \<and>
         (\<forall>y. stop - m_scrolledCount s1 \<le> y \<and> y \<le> Bottom (srWindow info) \<longrightarrow>
            row y = replicate (nat w) (blankChar attr)))"

definition scrapeShows :: "ConsoleEnv \<Rightarrow> int \<Rightarrow> ConsoleInfo \<Rightarrow> bool \<Rightarrow> (int \<Rightarrow> int \<Rightarrow> CHAR_INFO) \<Rightarrow>
    ScraperState \<Rightarrow> bool" where
  "scrapeShows env h info visible shown s \<longleftrightarrow> (
     \<exists>s1 s' msk cells k stop t' attr.
     scrollingScrapeOutput env h info visible False s = Some (True, s') \<and> scInv s' \<and>
     (keepsLines s s1 \<or> startsOver (Top (srWindow info)) s s1) \<and>
     (scrapedToWindow (Top (srWindow info)) s \<longrightarrow> m_scrapedLineCount s1 \<le> Top (srWindow info) + m_scrolledCount s1) \<and>
     msk OR COMMON_LVB_REVERSE_VIDEO OR COMMON_LVB_UNDERSCORE = 0xFFFF \<and>
     (let w = min (X (dwSize info)) MAX_CONSOLE_WIDTH
      in outcomeShows info visible (scrapeRow msk shown w) w s1 s' cells k stop t' attr))"

text \<open>The mask clears at most the two attributes that a console may not support.\<close>

lemma attributesMask_bits:
  "fst (attributesMask env h s) OR COMMON_LVB_REVERSE_VIDEO OR COMMON_LVB_UNDERSCORE = 0xFFFF"
  by (simp add: attributesMask_def Let_def COMMON_LVB_REVERSE_VIDEO_def COMMON_LVB_UNDERSCORE_def)

text \<open>The area that a scrape reads covers the lines that it looks at.\<close>

lemma readArea_covers:
  assumes info: "scrollInfo info" and core: "scCore s1" and f: "filled b a"
    and a: "a = readArea info (countDirtyLines info s1)"
  shows "Top a \<le> firstVirtLine (srWindow info) s1 - m_scrolledCount s1" "Bottom (srWindow info) \<le> Bottom a"
    "Bottom a \<le> 2999" "0 \<le> Top a" "Left a = 0" "Right a = min (X (dwSize info)) MAX_CONSOLE_WIDTH - 1"
    "areaWidth a = nat (min (X (dwSize info)) MAX_CONSOLE_WIDTH)" "1 \<le> min (X (dwSize info)) MAX_CONSOLE_WIDTH"
  using core scrollInfo_bounds [OF info] f info
  by (auto simp: a readArea_def countDirtyLines_def firstVirtLine_def scCore_def filled_def validArea_def
      areaWidth_def scrollInfo_def infoOk_def MAX_CONSOLE_WIDTH_def)

lemma outcome_rows:
  assumes info: "scrollInfo info" and core: "scCore s1" and o: "scrapeOutcome env h info visible s1 s' b a k stop t' attr"
    and still: "unchanging env content (m_console s1)"
    and shown: "\<forall>x y. 0 \<le> x \<and> x < X (dwSize info) \<and> 0 \<le> y \<and> y < BUFFER_LINE_COUNT \<longrightarrow> content x y = Some (shown x y)"
    and y: "Top a \<le> y" "y \<le> Bottom a"
  defines "w \<equiv> min (X (dwSize info)) MAX_CONSOLE_WIDTH"
  shows "take (nat w) (lineFrom b y) = scrapeRow (fst (attributesMask env h s1)) shown w y"
proof -
  have ra: "filled b a" "a = readArea info (countDirtyLines info s1)"
      "holds content (fst (attributesMask env h s1)) a b"
    using o still unfolding scrapeOutcome_def by blast+
  note cov = readArea_covers [OF info core ra(1, 2)]
  have "content x y = Some (shown x y)" if "Left a \<le> x" "x \<le> Right a" for x
    using shown that cov(3-6) y by (simp add: BUFFER_LINE_COUNT_def)
  then show ?thesis
    using ra(3) y cov(5-7) unfolding holds_def scrapeRow_def w_def by simp
qed

lemma outcome_shows:
  assumes info: "scrollInfo info" and core: "scCore s1" and o: "scrapeOutcome env h info visible s1 s' b a k stop t' attr"
    and still: "unchanging env content (m_console s1)"
    and shown: "\<forall>x y. 0 \<le> x \<and> x < X (dwSize info) \<and> 0 \<le> y \<and> y < BUFFER_LINE_COUNT \<longrightarrow> content x y = Some (shown x y)"
  defines "w \<equiv> min (X (dwSize info)) MAX_CONSOLE_WIDTH"
  shows "outcomeShows info visible (scrapeRow (fst (attributesMask env h s1)) shown w) w s1 s' (lineFrom b) k stop t' attr"
proof -
  let ?row = "scrapeRow (fst (attributesMask env h s1)) shown w" and ?first = "firstVirtLine (srWindow info) s1"
  let ?s2 = "s1\<lparr>m_readBuffer := b, scTerminal := startTerminal info visible s1\<rparr>"
  have ra: "filled b a" "a = readArea info (countDirtyLines info s1)"
    using o unfolding scrapeOutcome_def by blast+
  note cov = readArea_covers [OF info core ra, folded w_def]
  note rows = outcome_rows [OF info core o still shown, folded w_def]
  have nw: "int (nat w) = w" using cov(8) by simp
  have loop: "loopResult w (cursorColumnOf info visible) (cursorLineOf info visible s1) ?first stop False ?s2 k t'
      (m_bufferData s')"
    and stop: "stop \<le> Bottom (srWindow info) + 1 + m_scrolledCount s1" "Top (srWindow info) + m_scrolledCount s1 \<le> stop"
    and blank: "\<forall>y. stop - m_scrolledCount s1 \<le> y \<and> y \<le> Bottom (srWindow info) \<longrightarrow>
        take (nat w) (lineFrom b y) = replicate (nat w) (blankChar attr)"
    using o unfolding scrapeOutcome_def cov(7) nw startTerminal_def by blast+
  have inside: "take (nat w) (lineFrom b (l - m_scrolledCount s1)) = ?row (l - m_scrolledCount s1)"
    if "?first \<le> l" "l < stop" for l
    using that cov stop(1) by (intro rows) auto
  have must: "mustSend w ?s2 l \<longleftrightarrow> \<not> remembered s1 l (?row (l - m_scrolledCount s1))" if "?first \<le> l" "l < stop" for l
    using inside [OF that] by (auto simp: mustSend_def remembered_def)
  have rem: "shownLine (m_bufferData s' ! slot l) = ?row (l - m_scrolledCount s1)" if "?first \<le> l" "l < stop" for l
  proof -
    have "areaWidth a \<le> length (lineFrom b (l - m_scrolledCount s1))"
      using that cov stop(1) by (intro filled_line(2) [OF ra(1)]) auto
    then show ?thesis
      using loop that setLine_facts(2) [of w "lineFrom b (l - m_scrolledCount s1)"] inside [OF that] cov(7, 8)
      by (simp add: loopResult_def)
  qed
  have k: "?first \<le> k" "k \<le> stop" using loop by (simp_all add: loopResult_def)
  have skip: "\<forall>l. ?first \<le> l \<and> l < k \<longrightarrow> remembered s1 l (?row (l - m_scrolledCount s1))"
    using loop must k(2) by (auto simp: loopResult_def)
  have here: "k < stop \<longrightarrow> \<not> remembered s1 k (?row (k - m_scrolledCount s1))"
    using loop must [of k] k(1) by (auto simp: loopResult_def)
  have sends: "foreach (\<lambda>l. sendLine l (lineFrom b (l - m_scrolledCount s1)) w
        (if l = cursorLineOf info visible s1 then cursorColumnOf info visible else - 1)) [k..stop - 1]
      (startTerminal info visible s1) = Some t'"
    and others: "\<forall>i. (\<forall>l. ?first \<le> l \<and> l < stop \<longrightarrow> slot l \<noteq> i) \<longrightarrow> m_bufferData s' ! i = m_bufferData s1 ! i"
    using loop by (simp_all add: loopResult_def sendFrom_def [abs_def])
  have below: "\<forall>y. stop - m_scrolledCount s1 \<le> y \<and> y \<le> Bottom (srWindow info) \<longrightarrow>
      ?row y = replicate (nat w) (blankChar attr)"
    using rows blank cov(1, 2) k by (metis add_diff_eq diff_add_cancel diff_right_mono order_trans)
  have cells: "\<forall>y. ?first - m_scrolledCount s1 \<le> y \<and> y \<le> Bottom (srWindow info) \<longrightarrow>
      take (nat w) (lineFrom b y) = ?row y"
    using rows cov(1, 2) by auto
  show ?thesis
    unfolding outcomeShows_def Let_def
    using cells k stop skip here sends rem others below o unfolding scrapeOutcome_def by blast
qed

lemma scrape_shows:
  assumes env: "consoleOk env" and info: "scrollInfo info" and inv: "scInv s"
    and still: "unchanging env content (m_console s)"
    and shown: "\<forall>x y. 0 \<le> x \<and> x < X (dwSize info) \<and> 0 \<le> y \<and> y < BUFFER_LINE_COUNT \<longrightarrow> content x y = Some (shown x y)"
  shows "scrapeShows env h info visible shown s"
proof -
  obtain ok s' where run: "scrollingScrapeOutput env h info visible False s = Some (ok, s')" "scInv s'" "ok"
    "ok \<longrightarrow> (\<exists>s1 b a k stop t' attr. (keepsLines s s1 \<or> startsOver (Top (srWindow info)) s s1) \<and>
        queries (m_console s) (m_console s1) \<and> scCore s1 \<and>
        (scrapedToWindow (Top (srWindow info)) s \<longrightarrow>
           m_scrapedLineCount s1 \<le> Top (srWindow info) + m_scrolledCount s1) \<and>
        scrapeOutcome env h info visible s1 s' b a k stop t' attr)"
    using scrollingScrapeOutput_ok [OF env info inv, of h visible False] by blast
  then obtain s1 b a k stop t' attr where s1:
    "keepsLines s s1 \<or> startsOver (Top (srWindow info)) s s1" "queries (m_console s) (m_console s1)" "scCore s1"
    "scrapedToWindow (Top (srWindow info)) s \<longrightarrow> m_scrapedLineCount s1 \<le> Top (srWindow info) + m_scrolledCount s1"
    "scrapeOutcome env h info visible s1 s' b a k stop t' attr"
    by blast
  have "scrollingScrapeOutput env h info visible False s = Some (True, s')" using run(1, 3) by simp
  moreover note run(2) s1(1, 4) attributesMask_bits outcome_shows [OF info s1(3, 5) unchanging_queries [OF still s1(2)] shown]
  ultimately show ?thesis unfolding scrapeShows_def Let_def by (intro exI conjI)
qed

text \<open>
  C6. A scrape of the frozen console in scrolling mode, when the content of the screen buffer does
  not change meanwhile, succeeds and does what \<open>scrapeShows\<close> says: it sends the changed lines from
  the first change on, with exactly the cells of the console, and loses no line that is not blank.
\<close>

theorem scrape_sends_changes:
  assumes env: "consoleOk env" and info: "scrollInfo info" and inv: "scInv s"
    and still: "unchanging env content (m_console s)"
    and shown: "\<forall>x y. 0 \<le> x \<and> x < X (dwSize info) \<and> 0 \<le> y \<and> y < BUFFER_LINE_COUNT \<longrightarrow> content x y = Some (shown x y)"
  shows "scrapeShows env h info visible shown s"
  by (rule scrape_shows [OF assms])

theorem scrape_sends_changes_witness:
  "scrapeShows sampleConsole 1
     \<lparr>dwSize = mkCoord 80 3000, srWindow = \<lparr>Left = 0, Top = 0, Right = 79, Bottom = 24\<rparr>,
      dwCursorPosition = mkCoord 2 3\<rparr> True sampleCell sampleScraper"
  by (rule scrape_sends_changes [OF sampleConsole_ok _ sampleScraper_inv,
        where content = "\<lambda>x y. if 0 \<le> x \<and> x < 80 \<and> 0 \<le> y \<and> y < 3000 then Some (sampleCell x y) else None"])
    (simp_all add: scrollInfo_def infoOk_def mkCoord_def BUFFER_LINE_COUNT_def unchanging_def sampleConsole_def)

end
