(* ===== verification/ControlChannel.thy ===== *)
theory ControlChannel
  imports AgentControl ScraperSafety
begin

text \<open>
  What the control channel of the agent (src/agent/Agent.cc) promises: which packets are
  performed and which are rejected, that the result does not depend on how the bytes of the
  packets arrive, that the pipe keeps reading, and what ends the process.
\<close>

context codec
begin

lemma get_iff: "get s = Inr (v, rest) \<longleftrightarrow> s = put v [] @ rest \<and> ok v"
  using get_put get_canonical by blast

end

section \<open>The requests that are accepted\<close>

text \<open>A request as the client writes it, after the bytes of \<open>buf\<close>.\<close>

fun encodeRequest :: "AgentRequest \<Rightarrow> u8 list \<Rightarrow> u8 list" where
  "encodeRequest (StartProcess spawnFlags wantP wantT program cmdline cwd environ) buf =
     putWString environ (putWString cwd (putWString cmdline (putWString program
       (putInt32 (of_bool wantT) (putInt32 (of_bool wantP)
         (putInt64 spawnFlags (putInt32 MsgStartProcess buf)))))))"
| "encodeRequest (SetSize cols rows) buf = putInt32 rows (putInt32 cols (putInt32 MsgSetSize buf))"
| "encodeRequest GetConsoleProcessList buf = putInt32 MsgGetConsoleProcessList buf"

fun validRequest :: "allocator \<Rightarrow> bool \<Rightarrow> AgentRequest \<Rightarrow> bool" where
  "validRequest grow busy (StartProcess spawnFlags wantP wantT program cmdline cwd environ) \<longleftrightarrow>
     \<not> busy \<and> spawnFlags AND VT7PTY_SPAWN_FLAG_MASK = spawnFlags \<and>
     sendable grow program \<and> sendable grow cmdline \<and> sendable grow cwd \<and> sendable grow environ"
| "validRequest grow busy (SetSize cols rows) \<longleftrightarrow> 1 \<le> sint cols \<and> 1 \<le> sint rows"
| "validRequest grow busy GetConsoleProcessList \<longleftrightarrow> True"

definition pStartProcess :: "allocator \<Rightarrow> AgentRequest parser" where
  "pStartProcess grow =
     pbind pInt64 (\<lambda>spawnFlags. pbind pInt32 (\<lambda>p. pbind pInt32 (\<lambda>t.
     pbind (pcheck (spawnFlags AND VT7PTY_SPAWN_FLAG_MASK = spawnFlags \<and>
         (p = 0 \<or> p = 1) \<and> (t = 0 \<or> t = 1))) (\<lambda>_.
     pbind (pWString grow) (\<lambda>program. pbind (pWString grow) (\<lambda>cmdline.
     pbind (pWString grow) (\<lambda>cwd. pbind (pWString grow) (\<lambda>env. pbind pEof (\<lambda>_.
     preturn (StartProcess spawnFlags (p \<noteq> 0) (t \<noteq> 0) program cmdline cwd env))))))))))"

definition pSetSize :: "AgentRequest parser" where
  "pSetSize = pbind pInt32 (\<lambda>cols. pbind pInt32 (\<lambda>rows. pbind pEof (\<lambda>_.
     pbind (pcheck (\<not> (sint cols < 1 \<or> sint rows < 1))) (\<lambda>_. preturn (SetSize cols rows)))))"

definition pRequest :: "allocator \<Rightarrow> bool \<Rightarrow> AgentRequest parser" where
  "pRequest grow busy = pbind pInt32 (\<lambda>type.
     if type = MsgStartProcess then pbind (pcheck (\<not> busy)) (\<lambda>_. pStartProcess grow)
     else if type = MsgSetSize then pSetSize
     else if type = MsgGetConsoleProcessList then pbind pEof (\<lambda>_. preturn GetConsoleProcessList)
     else pthrow DecodeError)"

lemma simulates_rguard [sims]: "simulates (rguard c) (pcheck c)"
  by (auto simp: rguard_def pcheck_def intro: sims)

lemma simulates_if [sims]:
  "simulates m g \<Longrightarrow> simulates m' g' \<Longrightarrow> simulates (if c then m else m') (if c then g else g')"
  by simp

lemma simulates_request [sims]: "simulates (readRequest grow busy) (pRequest grow busy)"
  unfolding readRequest_def pRequest_def readStartProcess_def pStartProcess_def readSetSize_def
    pSetSize_def readProcessListRequest_def
  by (intro sims)

lemma pEof_Inr: "pEof s = Inr (u, r) \<longleftrightarrow> s = [] \<and> r = []"
  by (auto simp: pEof_def)

lemmas accepted = parser_Inr pEof_Inr i32c.get_iff i64c.get_iff wstr.get_iff
lemmas put_defs = putInt32_def putInt64_def putWString_def putUInt64Raw_def putRawData_def

lemma of_bool_flag: "p = 0 \<or> p = (1 :: u32) \<Longrightarrow> of_bool (p \<noteq> 0) = p"
  by auto

lemma pStartProcess_Inr:
  "pStartProcess grow s = Inr (req, r) \<longleftrightarrow> r = [] \<and>
     (\<exists>f p t a b c d. req = StartProcess f p t a b c d \<and> validRequest grow False req \<and>
        putInt32 MsgStartProcess [] @ s = encodeRequest req [])" (is "?L \<longleftrightarrow> ?R")
proof
  assume ?L
  then show ?R by (auto simp: pStartProcess_def accepted put_defs)
next
  assume ?R
  then obtain f p t a b c d where req: "req = StartProcess f p t a b c d"
      "validRequest grow False req" "putInt32 MsgStartProcess [] @ s = encodeRequest req []" "r = []"
    by blast
  then have "s = putInt64 f [] @ putInt32 (of_bool p) [] @ putInt32 (of_bool t) [] @
      putWString a [] @ putWString b [] @ putWString c [] @ putWString d []"
    by (simp add: put_defs)
  then show ?L using req
    by (simp add: pStartProcess_def pbind_def i32c.get_put i64c.get_put wstr.get_put pcheck_def
        preturn_def pEof_def wstr.get_put [where rest = "[]", simplified])
qed

lemma pSetSize_Inr:
  "pSetSize s = Inr (req, r) \<longleftrightarrow> r = [] \<and>
     (\<exists>cols rows. req = SetSize cols rows \<and> validRequest grow busy req \<and>
        putInt32 MsgSetSize [] @ s = encodeRequest req [])" (is "?L \<longleftrightarrow> ?R")
proof
  assume ?L
  then show ?R by (auto simp: pSetSize_def accepted put_defs)
next
  assume ?R
  then obtain cols rows where req: "req = SetSize cols rows" "validRequest grow busy req" "r = []"
      "s = putInt32 cols [] @ putInt32 rows []"
    by (auto simp: put_defs)
  then show ?L
    by (simp add: pSetSize_def pbind_def i32c.get_put pcheck_def preturn_def pEof_def
        i32c.get_put [where rest = "[]", simplified])
qed

fun requestType :: "AgentRequest \<Rightarrow> u32" where
  "requestType (StartProcess _ _ _ _ _ _ _) = MsgStartProcess"
| "requestType (SetSize _ _) = MsgSetSize"
| "requestType GetConsoleProcessList = MsgGetConsoleProcessList"

lemma encodeRequest_type: "\<exists>s. encodeRequest req [] = putInt32 (requestType req) [] @ s"
  by (cases req) (auto simp: put_defs)

lemma Msg_distinct [simp]:
  "MsgStartProcess \<noteq> MsgSetSize" "MsgStartProcess \<noteq> MsgGetConsoleProcessList"
  "MsgSetSize \<noteq> MsgGetConsoleProcessList" "MsgSetSize \<noteq> MsgStartProcess"
  "MsgGetConsoleProcessList \<noteq> MsgStartProcess" "MsgGetConsoleProcessList \<noteq> MsgSetSize"
  by (simp_all add: MsgStartProcess_def MsgSetSize_def MsgGetConsoleProcessList_def)

lemma pRequest_Inr:
  "pRequest grow busy s = Inr (req, r) \<longleftrightarrow>
     r = [] \<and> validRequest grow busy req \<and> s = encodeRequest req []" (is "?L \<longleftrightarrow> ?R")
proof
  assume ?L
  then obtain type t where s: "s = putInt32 type [] @ t" "(if type = MsgStartProcess then pbind (pcheck (\<not> busy)) (\<lambda>_. pStartProcess grow)
     else if type = MsgSetSize then pSetSize
     else if type = MsgGetConsoleProcessList then pbind pEof (\<lambda>_. preturn GetConsoleProcessList)
     else pthrow DecodeError) t = Inr (req, r)"
    by (auto simp: pRequest_def parser_Inr i32c.get_iff)
  consider "type = MsgStartProcess" | "type = MsgSetSize" | "type = MsgGetConsoleProcessList"
    using s(2) by (auto simp: pthrow_def split: if_splits)
  then show ?R
  proof cases
    case 1
    then have "\<not> busy" "pStartProcess grow t = Inr (req, r)" using s(2) by (auto simp: parser_Inr)
    then show ?thesis using s(1) 1 by (auto simp: pStartProcess_Inr)
  next
    case 2
    then show ?thesis using s by (simp add: pSetSize_Inr [where grow = grow and busy = busy])
  next
    case 3
    then show ?thesis using s by (auto simp: parser_Inr pEof_Inr)
  qed
next
  assume R: ?R
  then obtain t where t: "s = putInt32 (requestType req) [] @ t" using encodeRequest_type by metis
  then have "pRequest grow busy s = (if requestType req = MsgStartProcess then pbind (pcheck (\<not> busy)) (\<lambda>_. pStartProcess grow)
     else if requestType req = MsgSetSize then pSetSize
     else if requestType req = MsgGetConsoleProcessList then pbind pEof (\<lambda>_. preturn GetConsoleProcessList)
     else pthrow DecodeError) t"
    by (simp add: pRequest_def pbind_def i32c.get_put)
  moreover have "\<dots> = Inr (req, [])"
  proof (cases req)
    case (StartProcess f p q a b c d)
    have "pStartProcess grow t = Inr (req, [])"
      using R t StartProcess by (subst pStartProcess_Inr) auto
    then show ?thesis using R StartProcess by (simp add: parser_Inr)
  next
    case (SetSize cols rows)
    have "pSetSize t = Inr (req, [])"
      using R t SetSize by (subst pSetSize_Inr [where grow = grow and busy = busy]) auto
    then show ?thesis using SetSize by simp
  next
    case GetConsoleProcessList
    then have "t = []" using R t by simp
    then show ?thesis using GetConsoleProcessList by (simp add: parser_Inr pEof_Inr)
  qed
  ultimately show ?L using R by simp
qed

lemma pEof_Inl: "pEof s = Inl e \<Longrightarrow> e = DecodeError"
  by (auto simp: pEof_def split: if_splits)

lemma pRequest_Inl: "pRequest grow busy s = Inl e \<Longrightarrow> e = DecodeError \<or> (\<exists>n. grow n = Some e)"
  by (auto simp: pRequest_def pStartProcess_def pSetSize_def parser_Inl split: if_splits
      dest: pEof_Inl pInts_Inl pWString_Inl)

definition busy :: "AgentState \<Rightarrow> bool" where
  "busy ag \<longleftrightarrow> m_childProcess ag \<noteq> None \<or> m_closingOutputPipes ag"

lemma handlePacket_eq:
  assumes "8 \<le> length bytes"
  shows "handlePacket env bytes ag = (case pRequest (growString env) (busy ag) (drop 8 bytes) of
      Inl e \<Rightarrow> Some (Inl e) | Inr (req, _) \<Rightarrow> performRequest env req ag)"
proof -
  let ?m = "rbind getUInt64Raw (\<lambda>_. readRequest (growString env) (busy ag))"
  let ?g = "pbind pUInt64Raw (\<lambda>_. pRequest (growString env) (busy ag))"
  have "simulates ?m ?g" by (intro sims)
  note run = simulates_new [OF this, of bytes]
  have "?g bytes = pRequest (growString env) (busy ag) (drop 8 bytes)"
    using assms by (simp add: pbind_def pUInt64Raw_def pRaw_def preturn_def)
  then show ?thesis
    using run by (auto simp: handlePacket_def busy_def split: sum.splits prod.splits)
qed

text \<open>
  C11. The agent performs a control packet exactly when its payload is the encoding that the
  client writes for a valid request: known spawn flags, no child process yet and the output not
  closing, a size of at least one cell, and strings that fit in memory. Any other payload is
  rejected before anything is changed, by \<open>DecodeError\<close> or by what resizing a string throws.
\<close>

theorem control_requests:
  assumes "8 \<le> length bytes"
  shows "if \<exists>req. validRequest (growString env) (busy ag) req \<and> drop 8 bytes = encodeRequest req []
    then \<exists>!req. validRequest (growString env) (busy ag) req \<and> drop 8 bytes = encodeRequest req [] \<and>
      handlePacket env bytes ag = performRequest env req ag
    else \<exists>e. handlePacket env bytes ag = Some (Inl e) \<and>
      (e = DecodeError \<or> (\<exists>n. growString env n = Some e))"
proof (cases "pRequest (growString env) (busy ag) (drop 8 bytes)")
  case (Inl e)
  then show ?thesis
    using handlePacket_eq [OF assms, of env ag] pRequest_Inl [OF Inl]
      pRequest_Inr [of "growString env" "busy ag" "drop 8 bytes"] by auto
next
  case (Inr x)
  then obtain req r where x: "x = (req, r)" by fastforce
  have iff: "validRequest (growString env) (busy ag) q \<and> drop 8 bytes = encodeRequest q [] \<longleftrightarrow> q = req"
    for q
    using pRequest_Inr [of "growString env" "busy ag" "drop 8 bytes" q "[]"] Inr x
      pRequest_Inr [of "growString env" "busy ag" "drop 8 bytes" req r] by auto
  have "handlePacket env bytes ag = performRequest env req ag"
    using handlePacket_eq [OF assms, of env ag] Inr x by simp
  then show ?thesis using iff by metis
qed

section \<open>Polling\<close>

text \<open>The handlers look at the control pipe only to write their reply.\<close>

definition withInput :: "u8 list \<Rightarrow> nat \<Rightarrow> AgentState \<Rightarrow> AgentState" where
  "withInput q n ag = ag\<lparr>m_controlPipe := (m_controlPipe ag)\<lparr>inQueue := q, readBufSize := n\<rparr>\<rparr>"

definition mapOutcome :: "('a \<Rightarrow> 'c) \<Rightarrow> 'a outcome \<Rightarrow> 'c outcome" where
  "mapOutcome f = map_option (map_sum id f)"

lemma mapOutcome_simps [simp]:
  "mapOutcome f None = None" "mapOutcome f (Some (Inl e)) = Some (Inl e)"
  "mapOutcome f (Some (Inr x)) = Some (Inr (f x))"
  by (simp_all add: mapOutcome_def)

lemma withInput_simps [simp]:
  "m_childProcess (withInput q n ag) = m_childProcess ag" "m_exiting (withInput q n ag) = m_exiting ag"
  "m_closingOutputPipes (withInput q n ag) = m_closingOutputPipes ag"
  "m_useConerr (withInput q n ag) = m_useConerr ag"
  "m_consoleInput (withInput q n ag) = m_consoleInput ag"
  "openMode (m_controlPipe (withInput q n ag)) = openMode (m_controlPipe ag)"
  "outQueue (m_controlPipe (withInput q n ag)) = outQueue (m_controlPipe ag)"
  "inQueue (m_controlPipe (withInput q n ag)) = q" "readBufSize (m_controlPipe (withInput q n ag)) = n"
  "withInput q n (withInput q' n' ag) = withInput q n ag"
  "withInput (inQueue (m_controlPipe ag)) (readBufSize (m_controlPipe ag)) ag = ag"
  "busy (withInput q n ag) = busy ag"
  by (simp_all add: withInput_def busy_def)

lemma update_withInput:
  "logEffect e (withInput q n ag) = withInput q n (logEffect e ag)"
  "(withInput q n ag)\<lparr>m_consoleInput := st\<rparr> = withInput q n (ag\<lparr>m_consoleInput := st\<rparr>)"
  "(withInput q n ag)\<lparr>m_childProcess := c, m_autoShutdown := x, m_exitAfterShutdown := y\<rparr> =
     withInput q n (ag\<lparr>m_childProcess := c, m_autoShutdown := x, m_exitAfterShutdown := y\<rparr>)"
  by (simp_all add: logEffect_def withInput_def)

lemma writePacket_withInput:
  "writePacket packet (withInput q n ag) = mapOutcome (withInput q n) (writePacket packet ag)"
  by (auto simp: writePacket_eq mapOutcome_def pipeWrite_def withInput_def ASSERT_def
      split: option.splits bind_splits)

lemmas withInput_commutes = update_withInput writePacket_withInput

lemma startProcess_withInput:
  "startProcess env f p t a b c d (withInput q n ag) =
     mapOutcome (withInput q n) (startProcess env f p t a b c d ag)"
  unfolding startProcess_def Let_def
  by (auto simp: withInput_commutes split: CreateAnswer.splits Option.bind_splits)

lemma console_withInput [simp]:
  "theConsole (withInput q n ag) = theConsole ag" "m_primaryScraper (withInput q n ag) = m_primaryScraper ag"
  "m_errorScraper (withInput q n ag) = m_errorScraper ag" "m_errorBuffer (withInput q n ag) = m_errorBuffer ag"
  "(withInput q n ag)\<lparr>theConsole := con\<rparr> = withInput q n (ag\<lparr>theConsole := con\<rparr>)"
  by (simp_all add: withInput_def)

lemma usePrimary_withInput:
  "usePrimary f (withInput q n ag) = map_option (withInput q n) (usePrimary f ag)"
  by (auto simp: usePrimary_def withInput_def split: Option.bind_splits)

lemma useError_withInput:
  "useError f (withInput q n ag) = map_option (withInput q n) (useError f ag)"
  by (auto simp: useError_def withInput_def split: option.splits Option.bind_splits)

lemma resizeWindow_withInput:
  "resizeWindow env cols rows (withInput q n ag) =
     map_option (withInput q n) (resizeWindow env cols rows ag)"
  unfolding resizeWindow_def freezeGuard_own
  by (auto simp: withInput_commutes usePrimary_withInput useError_withInput ASSERT_def case_prod_beta Let_def
      split: Option.bind_splits)

lemma performRequest_withInput:
  "performRequest env req (withInput q n ag) = mapOutcome (withInput q n) (performRequest env req ag)"
proof (cases req)
  case (SetSize cols rows)
  then show ?thesis
    by (cases "resizeWindow env (sint cols) (sint rows) ag")
      (simp_all add: resizeWindow_withInput writePacket_withInput)
next
  case GetConsoleProcessList
  then show ?thesis
    by (auto simp: listProcesses_def writePacket_withInput Let_def split: Option.bind_splits)
qed (simp add: startProcess_withInput)

lemma handlePacket_withInput:
  assumes "8 \<le> length bytes"
  shows "handlePacket env bytes (withInput q n ag) = mapOutcome (withInput q n) (handlePacket env bytes ag)"
  by (simp add: handlePacket_eq [OF assms] performRequest_withInput split: sum.splits prod.splits)

text \<open>One step of the loop, on the bytes that have arrived.\<close>

datatype Frame = ShortFrame | BadFrame | PartialFrame nat | WholeFrame "u8 list" "u8 list"

definition nextFrame :: "u8 list \<Rightarrow> Frame" where
  "nextFrame q =
     (let n = unat (leWord (take 8 q) :: u64)
      in if length q < 8 then ShortFrame
         else if n < 8 \<or> n > VT7PTY_MAX_CONTROL_PACKET_BYTES then BadFrame
         else if length q < n then PartialFrame n
         else WholeFrame (take n q) (drop n q))"

lemma nextFrame_Whole:
  "nextFrame q = WholeFrame p r \<Longrightarrow> 8 \<le> length p \<and> q = p @ r"
  by (auto simp: nextFrame_def Let_def split: if_splits)

lemma maxPacket_SIZE_MAX: "n > SIZE_MAX \<Longrightarrow> n > VT7PTY_MAX_CONTROL_PACKET_BYTES"
  by (simp add: SIZE_MAX_def VT7PTY_MAX_CONTROL_PACKET_BYTES_def)

lemma pollControlLoop_step:
  assumes "hasMode (openMode (m_controlPipe ag)) Reading"
  defines "q \<equiv> inQueue (m_controlPipe ag)" and "b \<equiv> readBufSize (m_controlPipe ag)"
  shows "pollControlLoop env ag = (case nextFrame q of
      ShortFrame \<Rightarrow> Some (Inr ag)
    | BadFrame \<Rightarrow> Some (Inr (rejectControl ag))
    | PartialFrame n \<Rightarrow> Some (Inr (withInput q (max b n) ag))
    | WholeFrame p r \<Rightarrow> (case handlePacket env p (withInput r b ag) of
          None \<Rightarrow> None
        | Some (Inl e) \<Rightarrow> if e = DecodeError then Some (Inr (rejectControl (withInput r b ag)))
                         else Some (Inl e)
        | Some (Inr ag') \<Rightarrow> pollControlLoop env ag'))"
proof -
  let ?n = "unat (leWord (take 8 q) :: u64)"
  have peek: "pipePeek 8 (m_controlPipe ag) = Some (take 8 q)"
    using assms by (simp add: pipePeek_def min_def)
  have avail: "bytesAvailable (m_controlPipe ag) = Some (length q)"
    using assms by (simp add: bytesAvailable_def)
  have bufsize: "readBufferSize (m_controlPipe ag) = Some b"
    using assms by (simp add: readBufferSize_def)
  have same: "withInput q b ag = ag" by (simp add: q_def b_def)
  show ?thesis
  proof (cases "length q < 8 \<or> ?n < 8 \<or> ?n > VT7PTY_MAX_CONTROL_PACKET_BYTES")
    case True
    then show ?thesis
      by (subst pollControlLoop.simps) (auto simp: peek nextFrame_def Let_def)
  next
    case False
    then have ok: "\<not> (?n < 8 \<or> ?n > VT7PTY_MAX_CONTROL_PACKET_BYTES \<or> ?n > SIZE_MAX)"
        "\<not> length q < 8" using maxPacket_SIZE_MAX by blast+
    show ?thesis
    proof (cases "length q < ?n")
      case True
      then have "pollControlLoop env ag = Some (Inr (withInput q (max b ?n) ag))"
        using ok same assms(1)
        by (subst pollControlLoop.simps)
          (auto simp: peek avail bufsize setReadBufferSize_def withInput_def q_def b_def max_def Let_def)
      then show ?thesis using True False by (simp add: nextFrame_def Let_def)
    next
      case whole: False
      then have read: "pipeRead ?n (m_controlPipe ag) =
          Some (take ?n q, (m_controlPipe ag)\<lparr>inQueue := drop ?n q\<rparr>)"
        using assms(1) by (simp add: pipeRead_eq q_def)
      have "ag\<lparr>m_controlPipe := (m_controlPipe ag)\<lparr>inQueue := drop ?n q\<rparr>\<rparr> =
          withInput (drop ?n q) b ag" by (simp add: withInput_def b_def)
      then show ?thesis
        using ok whole
        by (subst pollControlLoop.simps)
          (auto simp: peek avail read nextFrame_def Let_def split: option.splits sum.splits Exn.splits)
    qed
  qed
qed

lemma handlePacket_keeps:
  assumes "handlePacket env bytes ag = Some (Inr ag')"
  shows "openMode (m_controlPipe ag') = openMode (m_controlPipe ag)"
    and "inQueue (m_controlPipe ag') = inQueue (m_controlPipe ag)"
    and "readBufSize (m_controlPipe ag') = readBufSize (m_controlPipe ag)"
    and "m_exiting ag' = m_exiting ag"
  using handlePacket_inQueue [OF assms] handlePacket_same [OF assms] by (auto simp: sameChannels_def)

text \<open>Induction along the frames of the queue.\<close>

lemma pollControl_induct [consumes 1, case_names Step]:
  assumes "hasMode (openMode (m_controlPipe ag)) Reading"
    and "\<And>ag. hasMode (openMode (m_controlPipe ag)) Reading \<Longrightarrow>
      (\<And>p r ag'. nextFrame (inQueue (m_controlPipe ag)) = WholeFrame p r \<Longrightarrow>
         handlePacket env p (withInput r (readBufSize (m_controlPipe ag)) ag) = Some (Inr ag') \<Longrightarrow>
         hasMode (openMode (m_controlPipe ag')) Reading \<Longrightarrow>
         inQueue (m_controlPipe ag') = r \<Longrightarrow>
         readBufSize (m_controlPipe ag') = readBufSize (m_controlPipe ag) \<Longrightarrow> P ag') \<Longrightarrow> P ag"
  shows "P ag"
  using assms(1)
proof (induction "length (inQueue (m_controlPipe ag))" arbitrary: ag rule: less_induct)
  case less
  show ?case
  proof (rule assms(2) [OF less.prems])
    fix p r and ag' :: AgentState
    assume "nextFrame (inQueue (m_controlPipe ag)) = WholeFrame p r"
      "inQueue (m_controlPipe ag') = r" and mode: "hasMode (openMode (m_controlPipe ag')) Reading"
    then have "length (inQueue (m_controlPipe ag')) < length (inQueue (m_controlPipe ag))"
      using nextFrame_Whole by fastforce
    then show "P ag'" using less.hyps mode by blast
  qed
qed

definition needsMore :: "nat \<Rightarrow> u8 list \<Rightarrow> bool" where
  "needsMore cap q \<longleftrightarrow> (case nextFrame q of
      ShortFrame \<Rightarrow> True | PartialFrame n \<Rightarrow> n \<le> cap | _ \<Rightarrow> False)"

lemma needsMore_less: "needsMore cap q \<Longrightarrow> 8 \<le> cap \<Longrightarrow> length q < cap"
  by (auto simp: needsMore_def nextFrame_def Let_def split: Frame.splits if_splits)

lemma pollControlLoop_needsMore:
  assumes "hasMode (openMode (m_controlPipe ag)) Reading"
    and "pollControlLoop env ag = Some (Inr ag')" and "\<not> m_exiting ag'"
  shows "needsMore (readBufSize (m_controlPipe ag')) (inQueue (m_controlPipe ag')) \<and>
     readBufSize (m_controlPipe ag) \<le> readBufSize (m_controlPipe ag') \<and>
     readBufSize (m_controlPipe ag') \<le> max (readBufSize (m_controlPipe ag)) VT7PTY_MAX_CONTROL_PACKET_BYTES"
  using assms
proof (induction ag rule: pollControl_induct [where env = env])
  case (Step ag)
  note step = pollControlLoop_step [OF Step(1), of env]
  show ?case
  proof (cases "nextFrame (inQueue (m_controlPipe ag))")
    case ShortFrame
    then have "ag' = ag" using Step(3) step by simp
    then show ?thesis using ShortFrame by (simp add: needsMore_def)
  next
    case BadFrame
    then show ?thesis using Step(3, 4) step by (auto simp: rejectControl_def shutdown_def)
  next
    case (PartialFrame n)
    then have "ag' = withInput (inQueue (m_controlPipe ag)) (max (readBufSize (m_controlPipe ag)) n) ag"
      using Step(3) step by simp
    moreover have "n \<le> VT7PTY_MAX_CONTROL_PACKET_BYTES"
      using PartialFrame by (auto simp: nextFrame_def Let_def split: if_splits)
    ultimately show ?thesis using PartialFrame by (simp add: needsMore_def)
  next
    case (WholeFrame p r)
    note whole = step [unfolded WholeFrame, simplified]
    show ?thesis
    proof (cases "handlePacket env p (withInput r (readBufSize (m_controlPipe ag)) ag)")
      case None
      then show ?thesis using whole Step(3) by simp
    next
      case (Some o1)
      show ?thesis
      proof (cases o1)
        case (Inl e)
        then show ?thesis using whole Step(3, 4) Some
          by (auto simp: rejectControl_def shutdown_def split: if_splits)
      next
        case (Inr ag1)
        note h = Some [unfolded Inr]
        have keep: "hasMode (openMode (m_controlPipe ag1)) Reading"
            "inQueue (m_controlPipe ag1) = r" "readBufSize (m_controlPipe ag1) = readBufSize (m_controlPipe ag)"
          using handlePacket_keeps [OF h] Step(1) by simp_all
        have "pollControlLoop env ag1 = Some (Inr ag')" using whole Step(3) h by simp
        from Step(2) [OF WholeFrame h keep this Step(4)] keep(3) show ?thesis by simp
      qed
    qed
  qed
qed

text \<open>
  C24. The control pipe never stalls: when the agent has polled it and does not exit, everything
  that is left in the queue is the beginning of one packet, and the read buffer has room for the
  rest of it, so the input worker issues the next read. The buffer never grows beyond the
  largest packet.
\<close>

theorem control_pipe_keeps_reading:
  assumes "pollControlPipe env ag = Some (Inr ag')" and "\<not> m_exiting ag'"
    and "hasMode (openMode (m_controlPipe ag)) Reading" and "8 \<le> readBufSize (m_controlPipe ag)"
    and "isConnected (m_controlPipe ag')"
  shows "(nextFrame (inQueue (m_controlPipe ag')) = ShortFrame \<or>
       (\<exists>n \<le> readBufSize (m_controlPipe ag'). nextFrame (inQueue (m_controlPipe ag')) = PartialFrame n)) \<and>
     shouldIssueIo InputWorker (m_controlPipe ag') = Some (Some (kIoSize, [], m_controlPipe ag')) \<and>
     readBufSize (m_controlPipe ag') \<le> max (readBufSize (m_controlPipe ag)) VT7PTY_MAX_CONTROL_PACKET_BYTES"
proof -
  have "pollControlLoop env ag = Some (Inr ag')"
    using assms(1, 2) by (auto simp: pollControlPipe_def shutdown_def split: if_splits)
  note more = pollControlLoop_needsMore [OF assms(3) this assms(2)]
  then have "nextFrame (inQueue (m_controlPipe ag')) = ShortFrame \<or>
       (\<exists>n \<le> readBufSize (m_controlPipe ag'). nextFrame (inQueue (m_controlPipe ag')) = PartialFrame n)"
    by (auto simp: needsMore_def split: Frame.splits)
  moreover have "length (inQueue (m_controlPipe ag')) < readBufSize (m_controlPipe ag')"
    using more assms(4) needsMore_less [of "readBufSize (m_controlPipe ag')"] by auto
  then have "shouldIssueIo InputWorker (m_controlPipe ag') = Some (Some (kIoSize, [], m_controlPipe ag'))"
    using assms(5) by (simp add: isConnected_def)
  ultimately show ?thesis using more by blast
qed

section \<open>Examples\<close>

definition sampleAgentEnv :: "CreateAnswer \<Rightarrow> allocator \<Rightarrow> AgentEnv" where
  "sampleAgentEnv answer grow =
     \<lparr>createProcess = \<lambda>_. answer, duplicateHandle = Some, consoleProcessList = \<lambda>_ _. (2, [7, 9]),
      childExited = False, wideCharToMultiByte = \<lambda>_ _. (0, []),
      consoleEnv = sampleConsole, conoutHandle = Some 1, stdoutHandle = 2, errorBufferHandle = Some 3,
      growString = grow, inputSeparatedBytes = False,
      inputEnv = sample_env\<rparr>"

definition openPipe :: "OpenMode \<Rightarrow> 'b list \<Rightarrow> 'b Pipe" where
  "openPipe mode q = startPipeWorkers (newPipe\<lparr>handleOpen := True, openMode := mode, inQueue := q\<rparr>)"

definition sampleAgent :: "u8 list \<Rightarrow> AgentState" where
  "sampleAgent q =
     \<lparr>m_useConerr = False, m_plainMode = False, m_controlPipe = openPipe Duplex q,
      m_coninPipe = openPipe Reading [], m_conoutPipe = openPipe Writing [], m_conerrPipe = None,
      m_autoShutdown = False, m_exitAfterShutdown = False, m_closingOutputPipes = False,
      m_consoleInput = \<lparr>m_mouseMode = 1, m_dsrSent = False, m_byteQueue = [], m_inputMap = newNode,
        m_lastWriteTick = 0, m_mouseButtonState = 0, m_doubleClick = noDoubleClick,
        m_enableExtendedEnabled = False, m_mouseInputEnabled = False, m_quickEditEnabled = False,
        m_escapeInputEnabled = False, m_mouseWindowRect = emptyRect, pending = [], evlog = []\<rparr>,
      m_childProcess = None, m_currentTitle = [0x20], theConsole = newConsole,
      m_errorBuffer = None, m_primaryScraper = sampleScraper, m_errorScraper = None,
      m_exiting = False, agentLog = []\<rparr>"

lemma sampleAgent_simps [simp]:
  "m_controlPipe (sampleAgent q) = openPipe Duplex q" "m_exiting (sampleAgent q) = False"
  "busy (sampleAgent q) = False"
  by (simp_all add: sampleAgent_def busy_def)

lemma openPipe_simps [simp]:
  "openMode (openPipe mode q) = mode" "inQueue (openPipe mode q) = q" "handleOpen (openPipe mode q)"
  "\<not> connecting (openPipe mode q)" "readBufSize (openPipe mode q) = 64 * 1024"
  by (simp_all add: openPipe_def newPipe_def)

lemma Duplex_modes [simp]: "hasMode Duplex Reading" "hasMode Duplex Writing"
  by (simp_all add: hasMode_def)

text \<open>A packet as it is on the wire.\<close>

definition frame :: "u8 list \<Rightarrow> u8 list" where
  "frame payload = leBytes 8 (of_nat (8 + length payload) :: u64) @ payload"

lemma nextFrame_frame:
  assumes "8 + length payload \<le> VT7PTY_MAX_CONTROL_PACKET_BYTES"
  shows "nextFrame (frame payload @ rest) = WholeFrame (frame payload) rest"
proof -
  have n: "unat (of_nat (8 + length payload) :: u64) = 8 + length payload"
    using assms by (simp add: unat_of_nat VT7PTY_MAX_CONTROL_PACKET_BYTES_def del: of_nat_add)
  have t: "take 8 (frame payload @ rest) = leBytes 8 (of_nat (8 + length payload) :: u64)"
    by (simp add: frame_def)
  have l: "length (frame payload) = 8 + length payload" by (simp add: frame_def)
  have "(leWord (leBytes 8 (of_nat (8 + length payload) :: u64)) :: u64) = of_nat (8 + length payload)"
    by (rule leWord_leBytes) simp
  then show ?thesis
    using assms n t l by (simp add: nextFrame_def Let_def del: of_nat_add)
qed

theorem control_requests_witness:
  "8 \<le> length (frame (encodeRequest GetConsoleProcessList [])) \<and>
   (let env = sampleAgentEnv (CreateFailed 2) (\<lambda>_. None); ag = sampleAgent [];
        bytes = frame (encodeRequest GetConsoleProcessList [])
    in if \<exists>req. validRequest (growString env) (busy ag) req \<and> drop 8 bytes = encodeRequest req []
       then \<exists>!req. validRequest (growString env) (busy ag) req \<and> drop 8 bytes = encodeRequest req [] \<and>
         handlePacket env bytes ag = performRequest env req ag
       else \<exists>e. handlePacket env bytes ag = Some (Inl e) \<and>
         (e = DecodeError \<or> (\<exists>n. growString env n = Some e)))"
proof -
  have l: "8 \<le> length (frame (encodeRequest GetConsoleProcessList []))" by (simp add: frame_def)
  show ?thesis
    unfolding Let_def by (rule conjI [OF l], rule control_requests [OF l])
qed

lemma sample_short: "pollControlPipe env (sampleAgent [9]) = Some (Inr (sampleAgent [9]))"
  by (simp add: pollControlPipe_def isClosed_def pollControlLoop_step nextFrame_def)

theorem control_pipe_keeps_reading_witness:
  "let ag = sampleAgent [9]
   in pollControlPipe (sampleAgentEnv (CreateFailed 2) (\<lambda>_. None)) ag = Some (Inr ag) \<and>
      shouldIssueIo InputWorker (m_controlPipe ag) = Some (Some (kIoSize, [], m_controlPipe ag))"
  using control_pipe_keeps_reading [OF sample_short] sample_short
  by (simp add: isConnected_def isClosed_def isConnecting_def Let_def)

section \<open>Arrival of the bytes\<close>

definition feed :: "u8 list \<Rightarrow> AgentState \<Rightarrow> AgentState" where
  "feed arrived ag = ag\<lparr>m_controlPipe := (m_controlPipe ag)\<lparr>inQueue := inQueue (m_controlPipe ag) @ arrived\<rparr>\<rparr>"

lemma feed_eq: "feed arrived ag = withInput (inQueue (m_controlPipe ag) @ arrived) (readBufSize (m_controlPipe ag)) ag"
  by (simp add: feed_def withInput_def)

text \<open>The outcome without the capacity of the read buffer, which only limits how much is read ahead.\<close>

definition forgetCap :: "AgentState \<Rightarrow> AgentState" where
  "forgetCap ag = withInput (inQueue (m_controlPipe ag)) 0 ag"

definition sameOutcome :: "AgentState outcome \<Rightarrow> AgentState outcome \<Rightarrow> bool" where
  "sameOutcome m m' \<longleftrightarrow> mapOutcome forgetCap m = mapOutcome forgetCap m'"

lemma forgetCap_withInput [simp]: "forgetCap (withInput q n ag) = withInput q 0 ag"
  by (simp add: forgetCap_def)

lemma rejectControl_withInput: "rejectControl (withInput q n ag) = withInput q n (rejectControl ag)"
  by (simp add: rejectControl_def withInput_def closePipe_def shutdown_def)

lemma rejectControl_simps [simp]:
  "inQueue (m_controlPipe (rejectControl ag)) = inQueue (m_controlPipe ag)" "m_exiting (rejectControl ag)"
  by (simp_all add: rejectControl_def closePipe_def shutdown_def)

lemma pollControlLoop_cap:
  assumes "hasMode (openMode (m_controlPipe ag)) Reading"
  shows "sameOutcome (pollControlLoop env (withInput (inQueue (m_controlPipe ag)) n ag)) (pollControlLoop env ag)"
  using assms
proof (induction ag rule: pollControl_induct [where env = env])
  case (Step ag)
  let ?q = "inQueue (m_controlPipe ag)" and ?b = "readBufSize (m_controlPipe ag)"
  have mode: "hasMode (openMode (m_controlPipe (withInput ?q n ag))) Reading" using Step(1) by simp
  note step = pollControlLoop_step [OF Step(1), of env] pollControlLoop_step [OF mode, of env]
  show ?case
  proof (cases "nextFrame ?q")
    case (WholeFrame p r)
    then have len: "8 \<le> length p" using nextFrame_Whole by blast
    note whole = step [simplified, unfolded WholeFrame, simplified, unfolded handlePacket_withInput [OF len]]
    show ?thesis
    proof (cases "handlePacket env p ag")
      case None
      then show ?thesis by (simp add: whole sameOutcome_def)
    next
      case (Some o1)
      show ?thesis
      proof (cases o1)
        case (Inl e)
        then show ?thesis by (simp add: whole sameOutcome_def Some rejectControl_withInput)
      next
        case (Inr ag1)
        have h: "handlePacket env p (withInput r ?b ag) = Some (Inr (withInput r ?b ag1))"
          by (simp add: handlePacket_withInput [OF len] Some Inr)
        have "hasMode (openMode (m_controlPipe (withInput r ?b ag1))) Reading"
          using handlePacket_keeps [OF h] Step(1) by simp
        from Step(2) [OF WholeFrame h this] show ?thesis by (simp add: whole Some Inr)
      qed
    qed
  qed (simp_all add: step sameOutcome_def rejectControl_withInput, simp_all add: forgetCap_def rejectControl_withInput)
qed

text \<open>
  C25. How the bytes of the packets arrive makes no difference: polling after some of them have
  arrived and again after the rest has the same outcome as polling once when all are there, with
  the same replies, the same effects and the same bytes left to read.
\<close>

theorem arrival_makes_no_difference:
  assumes "pollControlLoop env ag = Some (Inr ag1)" and "\<not> m_exiting ag1"
    and "hasMode (openMode (m_controlPipe ag)) Reading"
  shows "sameOutcome (pollControlLoop env (feed arrived ag1)) (pollControlLoop env (feed arrived ag))"
  using assms(3, 1, 2)
proof (induction ag rule: pollControl_induct [where env = env])
  case (Step ag)
  let ?q = "inQueue (m_controlPipe ag)" and ?b = "readBufSize (m_controlPipe ag)"
  have fed: "hasMode (openMode (m_controlPipe (feed arrived ag))) Reading"
    using Step(1) by (simp add: feed_eq)
  note step = pollControlLoop_step [OF Step(1), of env] pollControlLoop_step [OF fed, of env]
  show ?case
  proof (cases "nextFrame ?q")
    case ShortFrame
    then show ?thesis using Step(3) step by (simp add: sameOutcome_def)
  next
    case BadFrame
    then show ?thesis using Step(3, 4) step by (auto simp: rejectControl_def shutdown_def)
  next
    case (PartialFrame n)
    then have "feed arrived ag1 = withInput (?q @ arrived) (max ?b n) (feed arrived ag)"
      using Step(3) step by (auto simp: feed_eq)
    then show ?thesis
      using pollControlLoop_cap [OF fed, of env "max ?b n"] by (simp add: feed_eq)
  next
    case (WholeFrame p r)
    then have len: "8 \<le> length p" using nextFrame_Whole by blast
    have next': "nextFrame (?q @ arrived) = WholeFrame p (r @ arrived)"
      using WholeFrame by (auto simp: nextFrame_def Let_def split: if_splits)
    have "pollControlLoop env ag = Some (Inr ag1)" by (rule Step(3))
    then obtain ag2 where h: "handlePacket env p (withInput r ?b ag) = Some (Inr ag2)"
        and rest: "pollControlLoop env ag2 = Some (Inr ag1)"
      using Step(4) step(1) WholeFrame
      by (auto simp: rejectControl_def shutdown_def split: option.splits sum.splits if_splits)
    note keep = handlePacket_keeps [OF h]
    have mode: "hasMode (openMode (m_controlPipe ag2)) Reading" using keep(1) Step(1) by simp
    have "sameOutcome (pollControlLoop env (feed arrived ag1)) (pollControlLoop env (feed arrived ag2))"
      using Step(2) [OF WholeFrame h mode _ _ rest Step(4)] keep by simp
    moreover have "handlePacket env p (withInput (r @ arrived) ?b ag) = Some (Inr (feed arrived ag2))"
      using h handlePacket_withInput [OF len, of env "r @ arrived" ?b "withInput r ?b ag"] keep
      by (simp add: feed_eq)
    then have "pollControlLoop env (feed arrived ag) = pollControlLoop env (feed arrived ag2)"
      using step(2) next' by (simp add: feed_eq)
    ultimately show ?thesis by simp
  qed
qed

theorem arrival_makes_no_difference_witness:
  "let env = sampleAgentEnv (CreateFailed 2) (\<lambda>_. None);
       size = leBytes 8 (100000 :: u64);
       ag = sampleAgent size;
       ag1 = withInput size 100000 ag
   in pollControlLoop env ag = Some (Inr ag1) \<and>
      sameOutcome (pollControlLoop env (feed [0, 1] ag1)) (pollControlLoop env (feed [0, 1] ag))"
proof -
  let ?size = "leBytes 8 (100000 :: u64)"
  have "(leWord ?size :: u64) = 100000" by (rule leWord_leBytes) simp
  then have "nextFrame ?size = PartialFrame 100000"
    by (simp add: nextFrame_def VT7PTY_MAX_CONTROL_PACKET_BYTES_def)
  then have start: "pollControlLoop env (sampleAgent ?size) =
      Some (Inr (withInput ?size 100000 (sampleAgent ?size)))" for env
    by (simp add: pollControlLoop_step)
  show ?thesis
    unfolding Let_def by (intro conjI start arrival_makes_no_difference [OF start]) simp_all
qed

section \<open>Errors that are not handled\<close>

text \<open>A \<open>StartProcess\<close> packet that announces a program name of \<open>n\<close> characters and ends there.\<close>

definition announcing :: "u64 \<Rightarrow> u8 list" where
  "announcing n = frame (putUInt64Raw n (putRawData [PieceWString]
     (putInt32 0 (putInt32 0 (putInt64 0 (putInt32 MsgStartProcess []))))))"

lemma announcing_pRequest:
  assumes "0 < n" and "unat n \<le> SIZE_MAX div 2" and "grow (unat n) = Some e"
  shows "pRequest grow False (putUInt64Raw n (putRawData [PieceWString]
     (putInt32 0 (putInt32 0 (putInt64 0 (putInt32 MsgStartProcess [])))))) = Inl e"
proof -
  have eq: "putUInt64Raw n (putRawData [PieceWString]
      (putInt32 0 (putInt32 0 (putInt64 0 (putInt32 MsgStartProcess []))))) =
     putInt32 MsgStartProcess [] @ putInt64 0 [] @ putInt32 0 [] @ putInt32 0 [] @
       PieceWString # putUInt64Raw n []"
    by (simp add: put_defs)
  have "unat n \<noteq> 0" using assms(1) by (simp add: unat_eq_0 word_greater_zero_iff)
  then have "pWString grow (PieceWString # putUInt64Raw n []) = Inl e"
    using assms u64c.get_put [of n "[]"]
    by (simp add: pWString_def pbind_def pcheck_def preturn_def pUnits_def pthrow_def)
  then show ?thesis
    unfolding eq
    by (simp add: pRequest_def pStartProcess_def pbind_def i32c.get_put i64c.get_put pcheck_def preturn_def)
qed

text \<open>
  C35. A control packet whose string announces more characters than can be allocated is not
  rejected as malformed: what \<open>std::wstring::resize\<close> throws passes the handler of
  \<open>pollControlPipe\<close>, which catches only \<open>DecodeError\<close>, and so ends the agent without the
  orderly closing of the pipe.
\<close>

theorem announced_length_ends_agent:
  assumes "0 < n" and "unat n \<le> SIZE_MAX div 2" and "growString env (unat n) = Some e"
    and "e \<noteq> DecodeError" and "\<not> busy ag" and "isConnected (m_controlPipe ag)"
    and "hasMode (openMode (m_controlPipe ag)) Reading"
    and "inQueue (m_controlPipe ag) = announcing n @ rest"
  shows "pollControlPipe env ag = Some (Inl e)"
proof -
  have len: "8 \<le> length (announcing n)" by (simp add: announcing_def frame_def)
  have "length (announcing n) \<le> VT7PTY_MAX_CONTROL_PACKET_BYTES"
    by (simp add: announcing_def frame_def put_defs VT7PTY_MAX_CONTROL_PACKET_BYTES_def)
  then have "nextFrame (inQueue (m_controlPipe ag)) = WholeFrame (announcing n) rest"
    unfolding assms(8) announcing_def by (intro nextFrame_frame) (simp add: frame_def)
  moreover have "handlePacket env (announcing n) (withInput rest b ag) = Some (Inl e)" for b
    using announcing_pRequest [of n "growString env" e] assms
    by (simp add: handlePacket_eq [OF len]) (simp add: announcing_def frame_def)
  ultimately show ?thesis
    using assms(4, 6) pollControlLoop_step [OF assms(7), of env]
    by (simp add: pollControlPipe_def isConnected_def)
qed

theorem announced_length_ends_agent_witness:
  "pollControlPipe (sampleAgentEnv (CreateFailed 2) (\<lambda>n. if n < 1000 then None else Some BadAlloc))
     (sampleAgent (announcing 5000 @ [1])) = Some (Inl BadAlloc)"
  by (rule announced_length_ends_agent [of 5000 _ _ _ "[1]"])
    (simp_all add: sampleAgentEnv_def SIZE_MAX_def isConnected_def isClosed_def isConnecting_def)

end
