(* ===== verification/AgentLoop.thy ===== *)
theory AgentLoop
  imports AgentControl
begin

text \<open>
  The agent as a whole: its constructor, the input pipe, the poll timeout, the automatic
  shutdown of the output pipes (src/agent/Agent.cc) and one turn of the event loop
  (src/agent/EventLoop.cc) that drives them. The conversion of the window title uses the
  function \<open>WideCharToMultiByte\<close> of the environment.
\<close>

section \<open>Input\<close>

text \<open>\<open>ConsoleInput\<close> calls \<open>sendDsr\<close> through its log of events; the calls of one batch follow it.\<close>

definition sendDsr :: "AgentState \<Rightarrow> AgentState option" where
  "sendDsr ag =
     (if \<not> m_plainMode ag \<and> \<not> isClosed (m_conoutPipe ag) then do {
        p \<leftarrow> pipeWrite (CHR 0x1B # ''[6n'') (m_conoutPipe ag);
        Some (ag\<lparr>m_conoutPipe := p\<rparr>)
      }
      else Some ag)"

definition runConsoleInput :: "(ConsoleInputState \<Rightarrow> ConsoleInputState option) \<Rightarrow> AgentState \<Rightarrow>
    AgentState option" where
  "runConsoleInput f ag = do {
     st \<leftarrow> f ((m_consoleInput ag)\<lparr>evlog := []\<rparr>);
     let before = evlog (m_consoleInput ag);
     foreach (\<lambda>_. sendDsr) (filter (\<lambda>e. e = SentDsr) (evlog st))
       (ag\<lparr>m_consoleInput := st\<lparr>evlog := before @ evlog st\<rparr>\<rparr>)
   }"

definition pollConinPipe :: "AgentEnv \<Rightarrow> AgentState \<Rightarrow> AgentState option" where
  "pollConinPipe env ag = do {
     (newData, p) \<leftarrow> readAllToString (m_coninPipe ag);
     let ag1 = ag\<lparr>m_coninPipe := p\<rparr>;
     if inputSeparatedBytes env
     then foreach (\<lambda>c. runConsoleInput (writeInput (inputEnv env) [c])) newData ag1
     else runConsoleInput (writeInput (inputEnv env) newData) ag1
   }"

section \<open>Output and shutdown\<close>

text \<open>The terminal writes what it sends to the output pipe.\<close>

definition withTerminal :: "(TerminalState \<Rightarrow> TerminalState) \<Rightarrow> AgentState \<Rightarrow> AgentState option" where
  "withTerminal f ag = do {
     (s, p) \<leftarrow> flushTerminal (onTerminal f (m_primaryScraper ag)) (m_conoutPipe ag);
     Some (ag\<lparr>m_primaryScraper := s, m_conoutPipe := p\<rparr>)
   }"

definition utf8FromWide :: "(wstring \<Rightarrow> int \<Rightarrow> int \<times> string) \<Rightarrow> wstring \<Rightarrow> string option" where
  "utf8FromWide convert input = do {
     checkedNarrow int_range (int (length input));
     let mblen = fst (convert input 0);
     if mblen \<le> 0 then Some []
     else do {
       cap \<leftarrow> checkedNarrow int_range mblen;
       let (mblen2, bytes) = convert input cap;
       ASSERT (mblen2 = mblen);
       Some (resize (nat mblen) (CHR 0x00) bytes)
     }
   }"

text \<open>\<open>write(const char *)\<close> stops at the first NUL.\<close>

definition cString :: "string \<Rightarrow> string" where
  "cString s = takeWhile (\<lambda>c. c \<noteq> CHR 0x00) s"

definition syncConsoleTitle :: "AgentEnv \<Rightarrow> AgentState \<Rightarrow> AgentState option" where
  "syncConsoleTitle env ag = do {
     (newTitle, con) \<leftarrow> consoleTitle (consoleEnv env) (theConsole ag);
     let ag1 = ag\<lparr>theConsole := con\<rparr>;
     if newTitle \<noteq> m_currentTitle ag1 then do {
       p \<leftarrow> (if \<not> m_plainMode ag1 \<and> \<not> isClosed (m_conoutPipe ag1) then do {
               title \<leftarrow> utf8FromWide (wideCharToMultiByte env) newTitle;
               pipeWrite (cString (CHR 0x1B # '']0;'' @ title @ [CHR 0x07])) (m_conoutPipe ag1)
             }
             else Some (m_conoutPipe ag1));
       Some (ag1\<lparr>m_conoutPipe := p, m_currentTitle := newTitle\<rparr>)
     }
     else Some ag1
   }"

definition scrapeBuffers :: "AgentEnv \<Rightarrow> AgentState \<Rightarrow> AgentState option" where
  "scrapeBuffers env ag0 = freezeGuard (m_frozen (theConsole ag0)) (\<lambda>ag. do {
     h \<leftarrow> openPrimaryBuffer env (m_useConerr ag);
     ag1 \<leftarrow> usePrimary (scrapeBuffer (consoleEnv env) h) ag;
     ag2 \<leftarrow> useError (scrapeBuffer (consoleEnv env)) ag1;
     Some (logEffect Scraped ag2)
   }) ag0"

definition closeWhenSent :: "char Pipe \<Rightarrow> char Pipe option" where
  "closeWhenSent p =
     (if isConnected p then do {
        n \<leftarrow> bytesToSend p;
        Some (if n = 0 then closePipe p else p)
      }
      else Some p)"

definition autoClosePipesForShutdown :: "AgentState \<Rightarrow> AgentState option" where
  "autoClosePipesForShutdown ag =
     (if m_closingOutputPipes ag then do {
        conout \<leftarrow> closeWhenSent (m_conoutPipe ag);
        conerr \<leftarrow> (case m_conerrPipe ag of
            None \<Rightarrow> Some None
          | Some p \<Rightarrow> do { p' \<leftarrow> closeWhenSent p; Some (Some p') });
        let ag1 = ag\<lparr>m_conoutPipe := conout, m_conerrPipe := conerr\<rparr>;
        Some (if m_exitAfterShutdown ag1 \<and> isClosed conout \<and>
                 (case conerr of None \<Rightarrow> True | Some p \<Rightarrow> isClosed p)
              then shutdown ag1 else ag1)
      }
      else Some ag)"

definition checkChildExit :: "AgentEnv \<Rightarrow> AgentState \<Rightarrow> AgentState" where
  "checkChildExit env ag = (case m_childProcess ag of
      None \<Rightarrow> ag
    | Some h \<Rightarrow>
        if m_autoShutdown ag \<and> childExited env
        then (logEffect (ClosedHandle h) ag)\<lparr>m_childProcess := None, m_closingOutputPipes := True\<rparr>
        else ag)"

definition onPollTimeout :: "AgentEnv \<Rightarrow> AgentState \<Rightarrow> AgentState option" where
  "onPollTimeout env ag0 = do {
     let ag = ag0\<lparr>m_consoleInput := updateInputFlags (inputEnv env) (m_consoleInput ag0)\<rparr>;
     let mouse = shouldActivateTerminalMouse (m_consoleInput ag);
     ag1 \<leftarrow> runConsoleInput (flushIncompleteEscapeCode (inputEnv env)) ag;
     let shouldScrapeContent = \<not> m_closingOutputPipes ag1;
     let ag2 = checkChildExit env ag1;
     ag3 \<leftarrow> (if shouldScrapeContent then do {
               a \<leftarrow> syncConsoleTitle env ag2;
               scrapeBuffers env a
             }
             else Some ag2);
     ag4 \<leftarrow> withTerminal (enableMouseMode (mouse \<and> \<not> m_closingOutputPipes ag3)) ag3;
     autoClosePipesForShutdown ag4
   }"

section \<open>The event loop\<close>

datatype PipeId = ControlPipe | ConinPipe | ConoutPipe | ConerrPipe

definition onPipeIo :: "AgentEnv \<Rightarrow> PipeId \<Rightarrow> AgentState \<Rightarrow> AgentState outcome" where
  "onPipeIo env pid ag = (case pid of
      ConoutPipe \<Rightarrow> map_option Inr (autoClosePipesForShutdown ag)
    | ConerrPipe \<Rightarrow> map_option Inr (autoClosePipesForShutdown ag)
    | ConinPipe \<Rightarrow> map_option Inr (pollConinPipe env ag)
    | ControlPipe \<Rightarrow> pollControlPipe env ag)"

text \<open>The answers of Windows during one turn, and whether the poll interval has elapsed.\<close>

record TurnAnswers =
  controlAns :: "u8 ServiceAnswers"
  coninAns :: "char ServiceAnswers"
  conoutAns :: "char ServiceAnswers"
  conerrAns :: "char ServiceAnswers"
  intervalElapsed :: bool

text \<open>An event that the loop may wait for, named by its pipe.\<close>

type_synonym WaitHandle = "PipeId \<times> WaitEvent"

definition servicePipe :: "TurnAnswers \<Rightarrow> PipeId \<Rightarrow> AgentState \<Rightarrow>
    (bool \<times> WaitHandle list \<times> AgentState) option" where
  "servicePipe ans pid ag = (case pid of
      ControlPipe \<Rightarrow> do { (did, waits, p) \<leftarrow> serviceIo (controlAns ans) (m_controlPipe ag);
                          Some (did, map (Pair pid) waits, ag\<lparr>m_controlPipe := p\<rparr>) }
    | ConinPipe \<Rightarrow> do { (did, waits, p) \<leftarrow> serviceIo (coninAns ans) (m_coninPipe ag);
                        Some (did, map (Pair pid) waits, ag\<lparr>m_coninPipe := p\<rparr>) }
    | ConoutPipe \<Rightarrow> do { (did, waits, p) \<leftarrow> serviceIo (conoutAns ans) (m_conoutPipe ag);
                         Some (did, map (Pair pid) waits, ag\<lparr>m_conoutPipe := p\<rparr>) }
    | ConerrPipe \<Rightarrow> (case m_conerrPipe ag of
          None \<Rightarrow> Some (False, [], ag)
        | Some q \<Rightarrow> do { (did, waits, p) \<leftarrow> serviceIo (conerrAns ans) q;
                         Some (did, map (Pair pid) waits, ag\<lparr>m_conerrPipe := Some p\<rparr>) }))"

definition turnPipe :: "AgentEnv \<Rightarrow> TurnAnswers \<Rightarrow> PipeId \<Rightarrow> AgentState \<Rightarrow>
    (bool \<times> WaitHandle list \<times> AgentState) outcome" where
  "turnPipe env ans pid ag = do {
     (did, waits, ag1) \<leftarrow> servicePipe ans pid ag;
     if did then obind (onPipeIo env pid ag1) (\<lambda>ag2. Some (Inr (True, waits, ag2)))
     else Some (Inr (False, waits, ag1))
   }"

fun turnPipes :: "AgentEnv \<Rightarrow> TurnAnswers \<Rightarrow> PipeId list \<Rightarrow> AgentState \<Rightarrow>
    (bool \<times> WaitHandle list \<times> AgentState) outcome" where
  "turnPipes env ans [] ag = Some (Inr (False, [], ag))"
| "turnPipes env ans (pid # pids) ag =
     obind (turnPipe env ans pid ag) (\<lambda>(did, waits, ag1).
     obind (turnPipes env ans pids ag1) (\<lambda>(did', waits', ag2).
     Some (Inr (did \<or> did', waits @ waits', ag2))))"

text \<open>
  One turn of \<open>EventLoop::run\<close> up to the wait: the pipes in the order of their creation, then the
  timeout. It tells whether anything was done and which events are left to wait for.
\<close>

definition loopTurn :: "AgentEnv \<Rightarrow> TurnAnswers \<Rightarrow> AgentState \<Rightarrow>
    (bool \<times> WaitHandle list \<times> AgentState) outcome" where
  "loopTurn env ans ag =
     obind (turnPipes env ans [ControlPipe, ConinPipe, ConoutPipe, ConerrPipe] ag) (\<lambda>(did, waits, ag1).
     if intervalElapsed ans
     then map_option (\<lambda>ag2. Inr (True, waits, ag2)) (onPollTimeout env ag1)
     else Some (Inr (did, waits, ag1)))"

section \<open>Construction\<close>

definition createDataServerPipe :: "bool \<Rightarrow> ConnectAnswer \<Rightarrow> wstring \<Rightarrow> char Pipe option" where
  "createDataServerPipe write connect name = do {
     p \<leftarrow> openServerPipe True True connect name (if write then Writing else Reading) newPipe;
     if write then Some p else setReadBufferSize (64 * 1024) p
   }"

definition connectToControlPipe :: "wstring \<Rightarrow> u8 Pipe option" where
  "connectToControlPipe name = do {
     p \<leftarrow> connectToServer True name Duplex newPipe;
     setReadBufferSize (64 * 1024) p
   }"

definition VT7PTY_FLAG_CONERR :: u64 where "VT7PTY_FLAG_CONERR = 1"
definition VT7PTY_FLAG_PLAIN_OUTPUT :: u64 where "VT7PTY_FLAG_PLAIN_OUTPUT = 2"
definition VT7PTY_FLAG_COLOR_ESCAPES :: u64 where "VT7PTY_FLAG_COLOR_ESCAPES = 4"

record AgentNames =
  controlName :: wstring
  coninName :: wstring
  conoutName :: wstring
  conerrName :: wstring

definition setupPacket :: "bool \<Rightarrow> AgentNames \<Rightarrow> u8 list" where
  "setupPacket useConerr names =
     (let packet = putWString (conoutName names) (putWString (coninName names)
            (writeAgentHandshake newPacket))
      in if useConerr then putWString (conerrName names) packet else packet)"

text \<open>
  The new Windows 10 console is known by the Mark command, which does not move its cursor. A window
  of a single cell is expanded first.
\<close>

definition expandTinyWindow :: "ConsoleEnv \<Rightarrow> int \<Rightarrow> ConsoleState \<Rightarrow> (ConsoleInfo \<times> ConsoleState) option" where
  "expandTinyWindow env h con = do {
     con1 \<leftarrow> setSmallFont env h 400 False con;
     r1 \<leftarrow> mkSmallRect 0 0 1 1;
     let con2 = resizeBuffer h (mkCoord 400 1) (moveWindow h r1 con1);
     r2 \<leftarrow> mkSmallRect 0 0 2 1;
     let con3 = callConsole (GetLargestWindow h) (moveWindow h r2 con2);
     let largest = largestWindow env (history con3);
     let (bufInfo, con4) = bufferInfo env h con3;
     r3 \<leftarrow> mkSmallRect 0 0 (min (X largest) (X (dwSize bufInfo))) 1;
     let (info, con5) = bufferInfo env h (moveWindow h r3 con4);
     ASSERT (Right (srWindow info) > Left (srWindow info));
     Some (info, con5)
   }"

definition detectNewWindows10Console :: "ConsoleEnv \<Rightarrow> int \<Rightarrow> ConsoleState \<Rightarrow> ConsoleState option" where
  "detectNewWindows10Console env h con =
     (if \<not> windows8OrGreater env then Some con
      else do {
        let (info0, con0) = bufferInfo env h con;
        (info, con1) \<leftarrow> (if Left (srWindow info0) = Right (srWindow info0) \<and>
                             Top (srWindow info0) = Bottom (srWindow info0)
                          then expandTinyWindow env h con0 else Some (info0, con0));
        let initialPosition = mkCoord (Right (srWindow info)) (Bottom (srWindow info));
        let con2 = setCursorPosition h initialPosition con1;
        ASSERT (\<not> m_frozen con2);
        let (info3, con3) = bufferInfo env h (setFrozen True (setFreezeUsesMark True con2));
        let isNew = (dwCursorPosition info3 = initialPosition);
        let con4 = setCursorPosition h (mkCoord 0 0) (setFrozen False con3);
        Some (setNewW10 isNew (setFreezeUsesMark False con4))
      })"

text \<open>A scraper with its terminal, on the window and a pipe.\<close>

definition startScraper :: "ConsoleEnv \<Rightarrow> int \<Rightarrow> TerminalState \<Rightarrow> Coord \<Rightarrow> ConsoleState \<Rightarrow> char Pipe \<Rightarrow>
    (ConsoleState \<times> ScraperState \<times> char Pipe) option" where
  "startScraper env h terminal sz con p = do {
     s \<leftarrow> newScraper env h terminal sz con;
     (s1, p1) \<leftarrow> flushTerminal s p;
     Some (m_console s, s1, p1)
   }"

definition startErrorScraper :: "ConsoleEnv \<Rightarrow> int option \<Rightarrow> TerminalState \<Rightarrow> Coord \<Rightarrow> ConsoleState \<Rightarrow> char Pipe option \<Rightarrow>
    (ConsoleState \<times> ScraperState option \<times> char Pipe option) option" where
  "startErrorScraper env errorBuffer terminal sz con pipe = (case errorBuffer of
      None \<Rightarrow> Some (con, None, pipe)
    | Some h \<Rightarrow> do {
        p \<leftarrow> pipe;
        (con1, s, p1) \<leftarrow> startScraper env h terminal sz con p;
        Some (con1, Some s, Some p1)
      })"

text \<open>
  What the constructor does after it has sent the setup packet: the scrapers, the title and the
  console input.
\<close>

definition startConsole :: "AgentEnv \<Rightarrow> int \<Rightarrow> bool \<Rightarrow> bool \<Rightarrow> bool \<Rightarrow> Coord \<Rightarrow> int \<Rightarrow> int option \<Rightarrow> ConsoleState \<Rightarrow>
    u8 Pipe \<Rightarrow> char Pipe \<Rightarrow> char Pipe \<Rightarrow> char Pipe option \<Rightarrow> AgentState option" where
  "startConsole env mouseMode conerrWanted plain color sz h errorBuffer con control conin conout conerr = do {
     (con1, primary, conout1) \<leftarrow> startScraper (consoleEnv env) h (newTerminal plain color) sz con conout;
     (con2, error, conerr1) \<leftarrow> startErrorScraper (consoleEnv env) errorBuffer (newTerminal plain color) sz con1 conerr;
     let con3 = setTitle [0x20] con2;
     input \<leftarrow> newConsoleInput (inputEnv env) (inputEnv env) mouseMode;
     Some
       \<lparr>m_useConerr = conerrWanted, m_plainMode = plain, m_controlPipe = control, m_coninPipe = conin,
        m_conoutPipe = conout1, m_conerrPipe = conerr1, m_autoShutdown = False,
        m_exitAfterShutdown = False, m_closingOutputPipes = False, m_consoleInput = input,
        m_childProcess = None, m_currentTitle = [0x20], theConsole = con3, m_errorBuffer = errorBuffer,
        m_primaryScraper = primary, m_errorScraper = error, m_exiting = False, agentLog = []\<rparr>
   }"

definition newAgent :: "AgentEnv \<Rightarrow> AgentNames \<Rightarrow> (PipeId \<Rightarrow> ConnectAnswer) \<Rightarrow> u64 \<Rightarrow> int \<Rightarrow> int \<Rightarrow> int \<Rightarrow>
    AgentState outcome" where
  "newAgent env names connect agentFlags mouseMode initialCols initialRows = do {
     let conerrWanted = (agentFlags AND VT7PTY_FLAG_CONERR \<noteq> 0);
     let plain = (agentFlags AND VT7PTY_FLAG_PLAIN_OUTPUT \<noteq> 0);
     ASSERT (initialCols \<ge> 1 \<and> initialRows \<ge> 1);
     let color = (\<not> plain \<or> agentFlags AND VT7PTY_FLAG_COLOR_ESCAPES \<noteq> 0);
     w \<leftarrow> checkedNarrow SHORT_range (min initialCols MAX_CONSOLE_WIDTH);
     ht \<leftarrow> checkedNarrow SHORT_range (min initialRows MAX_CONSOLE_HEIGHT);
     h \<leftarrow> openPrimaryBuffer env conerrWanted;
     errorBuffer \<leftarrow> (if conerrWanted then map_option Some (errorBufferHandle env) else Some None);
     con \<leftarrow> detectNewWindows10Console (consoleEnv env) h newConsole;
     control \<leftarrow> connectToControlPipe (controlName names);
     conin \<leftarrow> createDataServerPipe False (connect ConinPipe) (coninName names);
     conout \<leftarrow> createDataServerPipe True (connect ConoutPipe) (conoutName names);
     conerr \<leftarrow> (if conerrWanted
                then map_option Some (createDataServerPipe True (connect ConerrPipe) (conerrName names))
                else Some None);
     obind (sendPacket (setupPacket conerrWanted names) control) (\<lambda>control1.
       map_option Inr (startConsole env mouseMode conerrWanted plain color (mkCoord w ht) h errorBuffer con
         control1 conin conout conerr))
   }"

end
