(* ===== verification/ScraperOutput.thy ===== *)
theory ScraperOutput
  imports ScraperSafety
begin

text \<open>
  What the scraper sends (src/agent/Scraper.cc, src/agent/Terminal.cc): whatever path a scrape, a
  resize or the construction takes, the output of its terminal grows by encoded characters, line
  ends and known control sequences only, and the mouse mode is left alone.
\<close>

section \<open>Drawing\<close>

definition drawn :: "TerminalState \<Rightarrow> TerminalState \<Rightarrow> bool" where
  "drawn t t' \<longleftrightarrow> sendsTokens t t' \<and> mouseModeEnabled t' = mouseModeEnabled t"

abbreviation draws :: "ScraperState \<Rightarrow> ScraperState \<Rightarrow> bool" where
  "draws s s' \<equiv> drawn (scTerminal s) (scTerminal s')"

lemma drawn_refl [simp]: "drawn t t"
  by (simp add: drawn_def)

lemma drawn_trans [trans]: "drawn t t1 \<Longrightarrow> drawn t1 t2 \<Longrightarrow> drawn t t2"
  unfolding drawn_def using sendsTokens_trans by metis

lemma drawn_foreach:
  assumes "\<And>x s s'. f x s = Some s' \<Longrightarrow> drawn (g s) (g s')"
  shows "foreach f xs s = Some s' \<Longrightarrow> drawn (g s) (g s')"
  by (induction xs arbitrary: s) (auto simp: bind_eq_Some dest: assms intro: drawn_trans)

lemma mouse_hide [simp]: "mouseModeEnabled (hideTerminalCursor t) = mouseModeEnabled t"
  by (simp add: hideTerminalCursor_def outWrite_def)

lemma mouse_forward [simp]: "mouseModeEnabled (forwardToLine line t) = mouseModeEnabled t"
  by (induction line t rule: forwardToLine.induct) (subst forwardToLine.simps, simp add: outWrite_def)

lemma mouse_move [simp]: "mouseModeEnabled (moveTerminalToLine line t) = mouseModeEnabled t"
  by (simp add: moveTerminalToLine_def Let_def outWrite_def)

lemma mouse_show [simp]: "mouseModeEnabled (showTerminalCursor c line t) = mouseModeEnabled t"
  by (simp add: showTerminalCursor_def Let_def outWrite_def)

lemma mouse_reset [simp]: "mouseModeEnabled (resetTerminal f n t) = mouseModeEnabled t"
  by (simp add: resetTerminal_def Let_def outWrite_def)

lemma mouse_restart [simp]: "mouseModeEnabled (restartLine t) = mouseModeEnabled t"
  by (simp add: restartLine_def Let_def outWrite_def)

lemma mouse_output [simp]: "mouseModeEnabled (outputLine c s t) = mouseModeEnabled t"
  by (simp add: outputLine_def Let_def outWrite_def)

lemma mouse_reuse: "checkReuse cells w t = Some t' \<Longrightarrow> mouseModeEnabled t' = mouseModeEnabled t"
  by (auto simp: checkReuse_def ASSERT_bind_Some Let_def split: if_splits)

lemma drawn_reset: "drawn t (resetTerminal f n t)"
  by (simp add: drawn_def reset_tokens)

lemma drawn_hide: "drawn t (hideTerminalCursor t)"
  by (simp add: drawn_def hide_tokens)

lemma drawn_show: "0 \<le> c \<Longrightarrow> drawn t (showTerminalCursor c line t)"
  by (simp add: drawn_def show_tokens)

lemma drawn_line:
  assumes "sendLine line cells w c t = Some t'"
  shows "drawn t t'"
proof -
  have "mouseModeEnabled t' = mouseModeEnabled t"
    using assms by (auto simp: sendLine_def ASSERT_bind_Some bind_eq_Some Let_def dest!: mouse_reuse)
  then show ?thesis using sendLine_tokens [OF assms] by (simp add: drawn_def)
qed

lemmas drawnI = drawn_reset drawn_hide drawn_show drawn_line

section \<open>Steps that send nothing\<close>

lemma queryInfo_terminal: "queryInfo env h s = (info, s') \<Longrightarrow> scTerminal s' = scTerminal s"
  by (auto simp: queryInfo_def split: prod.splits)

lemma markEntireWindowDirty_terminal: "markEntireWindowDirty r s = Some s' \<Longrightarrow> scTerminal s' = scTerminal s"
  by (auto simp: markEntireWindowDirty_def bind_eq_Some)

lemma findSyncMarker_terminal: "findSyncMarker env h s = Some (row, s') \<Longrightarrow> scTerminal s' = scTerminal s"
  by (auto simp: findSyncMarker_def bind_eq_Some)

lemma createSyncMarker_terminal: "createSyncMarker env h row s = Some s' \<Longrightarrow> scTerminal s' = scTerminal s"
  by (auto simp: createSyncMarker_def bind_eq_Some Let_def dest!: queryInfo_terminal split: prod.splits)

lemma scanForDirtyLines_terminal: "scanForDirtyLines r s = Some s' \<Longrightarrow> scTerminal s' = scTerminal s"
  by (auto simp: scanForDirtyLines_def bind_eq_Some Let_def)

lemma scrapeRead_terminal: "scrapeRead env h a s = Some s' \<Longrightarrow> scTerminal s' = scTerminal s"
  by (auto simp: scrapeRead_def attributesMask_def onConsole_def bind_eq_Some Let_def)

lemma readDirtyLines_terminal: "readDirtyLines env h info s = Some s' \<Longrightarrow> scTerminal s' = scTerminal s"
  by (auto simp: readDirtyLines_def bind_eq_Some Let_def dest: scrapeRead_terminal)

lemma stillInSync_terminal: "stillInSync env h info s = Some (ok, s') \<Longrightarrow> scTerminal s' = scTerminal s"
  by (auto simp: stillInSync_def bind_eq_Some Let_def
      dest!: queryInfo_terminal findSyncMarker_terminal split: prod.splits if_splits)

lemma clearBufferLines_terminal: "clearBufferLines r n s = Some s' \<Longrightarrow> scTerminal s' = scTerminal s"
proof -
  have "foreach clearBufferRow rows s = Some s' \<Longrightarrow> scTerminal s' = scTerminal s" for rows
    by (induction rows arbitrary: s) (auto simp: clearBufferRow_def bind_eq_Some Let_def split: if_splits)
  then show "clearBufferLines r n s = Some s' \<Longrightarrow> scTerminal s' = scTerminal s"
    by (auto simp: clearBufferLines_def bind_eq_Some)
qed

lemma hideHistory_terminal: "hideHistory env h info rows s = Some s' \<Longrightarrow> scTerminal s' = scTerminal s"
  by (auto simp: hideHistory_def bind_eq_Some Let_def
      dest!: clearBufferLines_terminal createSyncMarker_terminal split: if_splits)

lemma shrinkWindow_terminal: "shrinkWindow env h c r s = Some s' \<Longrightarrow> scTerminal s' = scTerminal s"
  by (auto simp: shrinkWindow_def bind_eq_Some Let_def onConsole_def dest!: queryInfo_terminal split: prod.splits)

lemma expandWindow_terminal: "expandWindow env h c r s = Some s' \<Longrightarrow> scTerminal s' = scTerminal s"
  by (auto simp: expandWindow_def bind_eq_Some Let_def onConsole_def dest!: queryInfo_terminal split: prod.splits)

lemma resizeImpl_terminal: "resizeImpl env h info s = Some s' \<Longrightarrow> scTerminal s' = scTerminal s"
  by (auto simp: resizeImpl_def bind_eq_Some Let_def onConsole_def
      dest!: hideHistory_terminal shrinkWindow_terminal expandWindow_terminal)

section \<open>Steps that draw\<close>

lemma drawn_resetTracking: "draws s (resetConsoleTracking f n s)"
  by (simp add: resetConsoleTracking_def drawn_reset)

lemma drawn_resetTracking': "scTerminal b = scTerminal s \<Longrightarrow> draws s (resetConsoleTracking f n b)"
  using drawn_resetTracking [of b] by simp

lemma followMarker_draws: "followMarker env h r tentative s = Some (ok, s') \<Longrightarrow> draws s s'"
  by (auto simp: followMarker_def bind_eq_Some drawn_resetTracking'
      dest!: findSyncMarker_terminal markEntireWindowDirty_terminal split: if_splits)

lemma followWindow_draws: "followWindow r tentative s = Some (ok, s') \<Longrightarrow> draws s s'"
  by (auto simp: followWindow_def bind_eq_Some drawn_resetTracking dest!: markEntireWindowDirty_terminal
      split: if_splits)

lemma scrapeLine_draws: "scrapeLine w c cl line (saw, s) = Some (saw', s') \<Longrightarrow> draws s s'"
  by (auto simp: scrapeLine_def bind_eq_Some Let_def dest!: drawn_line split: if_splits)

lemma scrapeLines_draws:
  "foreach (scrapeLine w c cl) lines acc = Some acc' \<Longrightarrow> draws (snd acc) (snd acc')"
  by (rule drawn_foreach) (auto dest!: scrapeLine_draws)

lemma sendDirtyLines_draws:
  assumes "sendDirtyLines info visible first s = Some s'" and "0 \<le> Left (srWindow info)"
  shows "draws s s'"
proof -
  obtain s1 wh w saw s3 vis cc cl where
      1: "scanForDirtyLines (srWindow info) s = Some s1" and
      3: "foreach (scrapeLine w cc cl) [first..min (m_dirtyLineCount s1) (Top (srWindow info) + wh) + m_scrolledCount s1 - 1]
        (False, if vis then s1 else onTerminal hideTerminalCursor s1) = Some (saw, s3)" and
      4: "s' = (if vis then onTerminal (showTerminalCursor cc cl)
          (s3\<lparr>m_scrapedLineCount := Top (srWindow info) + m_scrolledCount s3\<rparr>)
        else s3\<lparr>m_scrapedLineCount := Top (srWindow info) + m_scrolledCount s3\<rparr>)" and
      5: "vis = (visible \<and> containsCoord (srWindow info) (dwCursorPosition info))"
      "cc = (if vis then X (dwCursorPosition info) else - 1)"
    using assms(1) unfolding sendDirtyLines_def Let_def bind_eq_Some
    by (elim exE conjE) (simp split: prod.splits, blast)
  have "draws s (if vis then s1 else onTerminal hideTerminalCursor s1)"
    using scanForDirtyLines_terminal [OF 1] by (simp add: onTerminal_def drawn_hide)
  moreover have "draws (if vis then s1 else onTerminal hideTerminalCursor s1) s3"
    using scrapeLines_draws [OF 3] by simp
  moreover have "draws s3 s'"
    using 5 assms(2) by (auto simp: 4 onTerminal_def containsCoord_def intro!: drawn_show)
  ultimately show ?thesis using drawn_trans by blast
qed

lemma scrapeDirtyLines_draws:
  assumes "scrapeDirtyLines env h info visible tentative createRow s = Some (ok, s')"
    and "0 \<le> Left (srWindow info)"
  shows "draws s s'"
proof -
  obtain s1 same s2 where
      1: "readDirtyLines env h info (countDirtyLines info s) = Some s1" and
      2: "(if tentative then stillInSync env h info s1 else Some (True, s1)) = Some (same, s2)" and
      3: "(if \<not> same then Some (False, s2)
     else do {
       s3 \<leftarrow> (if createRow then do {
                 ASSERT (\<not> tentative);
                 createSyncMarker env h (newSyncRow (srWindow info)) s2
               }
               else Some s2);
       s4 \<leftarrow> sendDirtyLines info visible (firstVirtLine (srWindow info) (countDirtyLines info s)) s3;
       Some (True, s4)
     }) = Some (ok, s')"
    using assms(1) unfolding scrapeDirtyLines_def Let_def bind_eq_Some
    by (elim exE conjE) (rename_tac u a b, case_tac b, rule that, assumption, simp, simp)
  have "scTerminal s2 = scTerminal s"
    using readDirtyLines_terminal [OF 1] 2
    by (auto simp: countDirtyLines_def dest!: stillInSync_terminal split: if_splits)
  then show ?thesis
    using 3 sendDirtyLines_draws [OF _ assms(2)]
    by (auto simp: bind_eq_Some dest!: createSyncMarker_terminal split: if_splits) metis+
qed

lemma scrollingScrapeOutput_draws:
  assumes "scrollingScrapeOutput env h info visible tentative s = Some (ok, s')"
    and "0 \<le> Left (srWindow info)"
  shows "draws s s'"
  using assms(1) unfolding scrollingScrapeOutput_def bind_eq_Some
  by (auto simp: bind_eq_Some split: if_splits dest!: followMarker_draws followWindow_draws
      scrapeDirtyLines_draws [OF _ assms(2)] intro: drawn_trans)

lemma directLine_draws: "directLine topRow w c cl line s = Some s' \<Longrightarrow> draws s s'"
  by (auto simp: directLine_def bind_eq_Some Let_def dest!: drawn_line split: if_splits)

lemma directScrapeOutput_draws:
  assumes "directScrapeOutput env h info visible s = Some s'"
  shows "draws s s'"
proof -
  obtain r w ht s2 s3 vis cc cl where
      2: "scrapeRead env h r (if vis then s else onTerminal hideTerminalCursor s) = Some s2" and
      3: "foreach (directLine (Top r) w cc cl) [0..ht - 1] s2 = Some s3" and
      4: "s' = (if vis then onTerminal (showTerminalCursor cc cl) s3 else s3)" and
      5: "vis = (visible \<and> containsCoord r (dwCursorPosition info))"
      "cc = (if vis then X (dwCursorPosition info) - Left r else - 1)"
    using assms unfolding directScrapeOutput_def Let_def bind_eq_Some
    by (elim exE conjE) (simp, blast)
  have "draws s s2"
    using scrapeRead_terminal [OF 2] by (simp add: onTerminal_def drawn_hide)
  moreover have "draws s2 s3" by (rule drawn_foreach [OF directLine_draws 3])
  moreover have "draws s3 s'"
    using 5 by (auto simp: 4 onTerminal_def containsCoord_def intro!: drawn_show)
  ultimately show ?thesis using drawn_trans by blast
qed

lemma enterMode_draws: "enterMode info force s = (force', s') \<Longrightarrow> draws s s'"
  using drawn_resetTracking by (auto simp: enterMode_def Let_def onConsole_def split: if_splits)

lemma scrapeScrolling_draws:
  assumes "scrapeScrolling env h info visible s = Some s'" and "0 \<le> Left (srWindow info)"
  shows "draws s s'"
  using assms(1) unfolding scrapeScrolling_def
  by (auto simp: bind_eq_Some onConsole_def split: if_splits
      dest!: scrollingScrapeOutput_draws [OF _ assms(2)] intro: drawn_trans)

section \<open>The operations of the clients\<close>

lemma left_ok: "infoOk info \<or> info = zeroInfo \<Longrightarrow> 0 \<le> Left (srWindow info)"
  by (auto simp: infoOk_def zeroInfo_def emptyRect_def)

lemma syncConsole_draws:
  assumes "syncConsoleContentAndSize env h force s = Some (info', s')" and "consoleOk env"
  shows "draws s s'"
proof -
  define s1 where "s1 = (if \<not> m_isNewW10 (m_console s) \<or> force then onConsole (setFrozen True) s else s)"
  obtain info s2 where q: "queryInfo env h s1 = (info, s2)" by fastforce
  have left: "0 \<le> Left (srWindow info)"
    using queryInfo_ok [OF assms(2), of h s1] q by (auto intro: left_ok)
  define s3 where "s3 = onConsole (callConsole GetCursorInfo) s2"
  obtain force' s4 where e: "enterMode info force s3 = (force', s4)" by fastforce
  obtain visible s5 where
      5: "(if m_directMode s4 then do {
              t \<leftarrow> (if force' then resizeImpl env h info s4 else Some s4);
              directScrapeOutput env h info visible t
            }
            else do {
              t \<leftarrow> scrapeScrolling env h info visible s4;
              if force' then resizeImpl env h info t else Some t
            }) = Some s5" and
      6: "(if force' then queryInfo env h s5 else (info, s5)) = (info', s')"
    using assms(1) unfolding syncConsoleContentAndSize_def Let_def s1_def [symmetric] q prod.case
      s3_def [symmetric] e bind_eq_Some by auto
  have "draws s s3" using queryInfo_terminal [OF q] by (simp add: s3_def s1_def onConsole_def)
  moreover have "draws s3 s4" by (rule enterMode_draws [OF e])
  moreover have "draws s4 s5"
    using 5 by (auto simp: bind_eq_Some split: if_splits dest!: resizeImpl_terminal directScrapeOutput_draws
        scrapeScrolling_draws [OF _ left])
  moreover have "scTerminal s' = scTerminal s5" using 6 by (auto dest: queryInfo_terminal split: if_splits)
  ultimately show ?thesis using drawn_trans by metis
qed

lemma scrapeBuffer_draws: "scrapeBuffer env h s = Some (info, s') \<Longrightarrow> consoleOk env \<Longrightarrow> draws s s'"
  by (simp add: scrapeBuffer_def syncConsole_draws)

lemma resizeScraper_draws: "resizeScraper env h sz s = Some (info, s') \<Longrightarrow> consoleOk env \<Longrightarrow> draws s s'"
  using syncConsole_draws [of env h True "s\<lparr>m_ptySize := sz\<rparr>" info s'] by (simp add: resizeScraper_def)

lemma newScraper_terminal:
  assumes "newScraper env h t sz con = Some s"
  shows "\<exists>n. scTerminal s = resetTerminal OmitClear n t"
proof -
  define s0 where "s0 = \<lparr>m_console = con, scTerminal = t, m_syncRow = - 1, m_syncCounter = 0,
               m_directMode = False, m_ptySize = sz, m_scrapedLineCount = 0,
               m_scrolledCount = 0, m_maxBufferedLine = - 1, m_readBuffer = newLargeBuffer,
               m_bufferData = [], m_dirtyWindowTop = - 1, m_dirtyLineCount = 0\<rparr>"
  obtain info s1 where q: "queryInfo env h s0 = (info, s1)" by fastforce
  obtain con8 where "s = (resetConsoleTracking OmitClear (Top (srWindow info)) s1)
      \<lparr>m_bufferData := replicate (nat BUFFER_LINE_COUNT) newConsoleLine, m_console := con8\<rparr>"
    using assms unfolding newScraper_def Let_def s0_def [symmetric] q prod.case
    by (auto simp: bind_eq_Some case_prod_beta)
  then show ?thesis
    using queryInfo_terminal [OF q] by (auto simp: resetConsoleTracking_def s0_def)
qed

lemma newScraper_draws: "newScraper env h t sz con = Some s \<Longrightarrow> drawn t (scTerminal s)"
  using newScraper_terminal drawn_reset by metis

lemma newScraper_silent: "newScraper env h t sz con = Some s \<Longrightarrow> sent (scTerminal s) = sent t"
  using newScraper_terminal [of env h t sz con s] by (auto simp: resetTerminal_def)

end
