(* ===== verification/AgentConsole.thy ===== *)
theory AgentConsole
  imports AgentLoop ScraperOutput
begin

text \<open>
  What the agent's work on the console (src/agent/Agent.cc: \<open>scrapeBuffers\<close>, \<open>resizeWindow\<close>,
  \<open>syncConsoleTitle\<close>) does to its output pipes: the scrapers only add encoded characters, line ends
  and known control sequences, the window is thawed again, and the rest of the agent is untouched.
\<close>

abbreviation terminalOf :: "AgentState \<Rightarrow> TerminalState" where
  "terminalOf ag \<equiv> scTerminal (m_primaryScraper ag)"

section \<open>A terminal and its pipe\<close>

text \<open>The terminal holds nothing back between two operations: what it sends is in the pipe.\<close>

definition emits :: "TerminalState \<Rightarrow> char Pipe \<Rightarrow> TerminalState \<Rightarrow> char Pipe \<Rightarrow> bool" where
  "emits t p t' p' \<longleftrightarrow> plainMode t' = plainMode t \<and> outputColor t' = outputColor t \<and>
     (sent t = [] \<longrightarrow> sent t' = [] \<and>
        (\<exists>toks. p' = p\<lparr>outQueue := outQueue p @ tokensBytes toks\<rparr> \<and>
           (\<forall>tok \<in> set toks. tokenOk (plainMode t) (outputColor t) tok)))"

lemma emits_refl [simp]: "emits t p t p"
  unfolding emits_def by (intro conjI refl impI exI [of _ "[]"]) (simp_all add: tokensBytes_def)

lemma emits_trans:
  assumes "emits t p t1 p1" and "emits t1 p1 t2 p2"
  shows "emits t p t2 p2"
proof -
  have "\<exists>toks. p2 = p\<lparr>outQueue := outQueue p @ tokensBytes toks\<rparr> \<and>
      (\<forall>tok \<in> set toks. tokenOk (plainMode t) (outputColor t) tok)" if none: "sent t = []"
  proof -
    obtain a where a: "p1 = p\<lparr>outQueue := outQueue p @ tokensBytes a\<rparr>"
        "\<forall>tok \<in> set a. tokenOk (plainMode t) (outputColor t) tok"
      using assms(1) none unfolding emits_def by blast
    have "sent t1 = []" "plainMode t1 = plainMode t" "outputColor t1 = outputColor t"
      using assms(1) none unfolding emits_def by simp_all
    then obtain b where b: "p2 = p1\<lparr>outQueue := outQueue p1 @ tokensBytes b\<rparr>"
        "\<forall>tok \<in> set b. tokenOk (plainMode t) (outputColor t) tok"
      using assms(2) unfolding emits_def by auto
    show ?thesis
      using a b by (intro exI [of _ "a @ b"]) (auto simp: tokensBytes_def)
  qed
  moreover have "plainMode t2 = plainMode t" "outputColor t2 = outputColor t" "sent t = [] \<longrightarrow> sent t2 = []"
    using assms unfolding emits_def by simp_all
  ultimately show ?thesis unfolding emits_def by blast
qed

lemma emits_modes: "emits t p t' p' \<Longrightarrow> plainMode t' = plainMode t \<and> outputColor t' = outputColor t"
  by (simp add: emits_def)

lemma flush_emits:
  assumes "sendsTokens t (scTerminal s)" and "flushTerminal s p = Some (s', p')"
  shows "emits t p (scTerminal s') p' \<and> mouseModeEnabled (scTerminal s') = mouseModeEnabled (scTerminal s)"
proof -
  have s': "scTerminal s' = (scTerminal s)\<lparr>sent := []\<rparr>" "p' = p\<lparr>outQueue := outQueue p @ sent (scTerminal s)\<rparr>"
    using assms(2)
    by (auto simp: flushTerminal_def onTerminal_def bind_eq_Some pipeWrite_def ASSERT_bind_Some split: if_splits)
  then show ?thesis
    using assms(1) by (auto simp: emits_def sendsTokens_def)
qed

lemma runScraper_emits:
  assumes "runScraper f con s p = Some (info, con', s', p')"
    and "\<And>s info s'. f s = Some (info, s') \<Longrightarrow> draws s s'"
  shows "emits (scTerminal s) p (scTerminal s') p' \<and>
    mouseModeEnabled (scTerminal s') = mouseModeEnabled (scTerminal s)"
proof -
  obtain s1 where f: "f (s\<lparr>m_console := con\<rparr>) = Some (info, s1)" "flushTerminal s1 p = Some (s', p')"
    using assms(1) by (auto simp: runScraper_def bind_eq_Some)
  then show ?thesis using assms(2) [OF f(1)] flush_emits [OF _ f(2), of "scTerminal s"] by (simp add: drawn_def)
qed

section \<open>Work on the console\<close>

definition consoleOutput :: "AgentState \<Rightarrow> AgentState \<Rightarrow> bool" where
  "consoleOutput ag ag' \<longleftrightarrow> consoleWork ag ag' \<and>
     emits (terminalOf ag) (m_conoutPipe ag) (terminalOf ag') (m_conoutPipe ag') \<and>
     mouseModeEnabled (terminalOf ag') = mouseModeEnabled (terminalOf ag) \<and>
     (\<forall>es ep. m_errorScraper ag = Some es \<and> m_conerrPipe ag = Some ep \<longrightarrow>
        (\<exists>es' ep'. m_errorScraper ag' = Some es' \<and> m_conerrPipe ag' = Some ep' \<and>
           emits (scTerminal es) ep (scTerminal es') ep'))"

lemma consoleOutput_refl [simp]: "consoleOutput ag ag"
  by (simp add: consoleOutput_def)

lemma consoleOutput_trans:
  assumes "consoleOutput ag ag1" and "consoleOutput ag1 ag2"
  shows "consoleOutput ag ag2"
proof -
  have "\<exists>es' ep'. m_errorScraper ag2 = Some es' \<and> m_conerrPipe ag2 = Some ep' \<and>
      emits (scTerminal es) ep (scTerminal es') ep'"
    if both: "m_errorScraper ag = Some es" "m_conerrPipe ag = Some ep" for es ep
  proof -
    obtain es1 ep1 where 1: "m_errorScraper ag1 = Some es1" "m_conerrPipe ag1 = Some ep1"
        "emits (scTerminal es) ep (scTerminal es1) ep1"
      using assms(1) both unfolding consoleOutput_def by blast
    obtain es2 ep2 where 2: "m_errorScraper ag2 = Some es2" "m_conerrPipe ag2 = Some ep2"
        "emits (scTerminal es1) ep1 (scTerminal es2) ep2"
      using assms(2) 1(1, 2) unfolding consoleOutput_def by blast
    show ?thesis using 2 emits_trans [OF 1(3) 2(3)] by blast
  qed
  moreover have "consoleWork ag ag2" "emits (terminalOf ag) (m_conoutPipe ag) (terminalOf ag2) (m_conoutPipe ag2)"
      "mouseModeEnabled (terminalOf ag2) = mouseModeEnabled (terminalOf ag)"
    using assms unfolding consoleOutput_def by (simp_all add: consoleWork_trans [of ag ag1 ag2]
        emits_trans [of "terminalOf ag" "m_conoutPipe ag" "terminalOf ag1" "m_conoutPipe ag1"])
  ultimately show ?thesis unfolding consoleOutput_def by blast
qed

lemma consoleOutput_simps [simp]:
  "consoleOutput ag (ag'\<lparr>theConsole := con\<rparr>) = consoleOutput ag ag'"
  "consoleOutput (ag\<lparr>theConsole := con\<rparr>) ag' = consoleOutput ag ag'"
  "consoleOutput ag (logEffect e ag') = consoleOutput ag ag'"
  by (simp_all add: consoleOutput_def)

lemma usePrimary_output:
  assumes "usePrimary f ag = Some ag'" and "\<And>s info s'. f s = Some (info, s') \<Longrightarrow> draws s s'"
  shows "consoleOutput ag ag'"
  using usePrimary_work [OF assms(1)] assms(1)
  by (auto simp: usePrimary_def consoleOutput_def bind_eq_Some dest!: runScraper_emits [OF _ assms(2)])

lemma useError_output:
  assumes "useError f ag = Some ag'" and "\<And>h s info s'. f h s = Some (info, s') \<Longrightarrow> draws s s'"
  shows "consoleOutput ag ag'"
  using useError_work [OF assms(1)] assms(1)
  by (auto simp: useError_def consoleOutput_def bind_eq_Some split: option.splits
      dest!: runScraper_emits [OF _ assms(2)])

lemma m_frozen_set [simp]: "m_frozen (setFrozen b con) = b"
  by (simp add: setFrozen_def)

lemma m_frozen_call [simp]: "m_frozen (callConsole c con) = m_frozen con"
  by (simp add: callConsole_def)

lemma resizeWindow_output:
  assumes "resizeWindow env cols rows ag = Some ag'" and "consoleOk (consoleEnv env)"
  shows "consoleOutput ag ag' \<and> m_frozen (theConsole ag') = m_frozen (theConsole ag)"
proof -
  obtain w ht h ag1 ag2 sz con where
    1: "usePrimary (resizeScraper (consoleEnv env) h (mkCoord w ht)) ag = Some ag1" and
    2: "useError (\<lambda>eh. resizeScraper (consoleEnv env) eh (mkCoord w ht)) ag1 = Some ag2" and
    3: "ag' = logEffect (BufferSizeEvent sz) (logEffect (Resized w ht)
       (ag2\<lparr>theConsole := setFrozen (m_frozen (theConsole ag)) con\<rparr>))"
    using resizeWindow_parts [OF assms(1)] by blast
  note draw = resizeScraper_draws [OF _ assms(2)]
  show ?thesis
    using consoleOutput_trans [OF usePrimary_output [OF 1 draw] useError_output [OF 2 draw]]
    by (simp add: 3)
qed

lemma scrapeBuffers_parts:
  assumes "scrapeBuffers env ag = Some ag'"
  shows "\<exists>h ag1 ag2. openPrimaryBuffer env (m_useConerr ag) = Some h \<and>
     usePrimary (scrapeBuffer (consoleEnv env) h) ag = Some ag1 \<and>
     useError (scrapeBuffer (consoleEnv env)) ag1 = Some ag2 \<and>
     ag' = logEffect Scraped (ag2\<lparr>theConsole := setFrozen (m_frozen (theConsole ag)) (theConsole ag2)\<rparr>)"
  using assms unfolding scrapeBuffers_def freezeGuard_own
  by (auto simp: bind_eq_Some logEffect_def)

lemma scrapeBuffers_work:
  assumes "scrapeBuffers env ag = Some ag'"
  shows "consoleWork ag ag' \<and> agentLog ag' = agentLog ag @ [Scraped]"
  using scrapeBuffers_parts [OF assms]
  by (auto dest!: usePrimary_work useError_work intro: consoleWork_trans)

lemma scrapeBuffers_output:
  assumes "scrapeBuffers env ag = Some ag'" and "consoleOk (consoleEnv env)"
  shows "consoleOutput ag ag' \<and> m_frozen (theConsole ag') = m_frozen (theConsole ag)"
proof -
  obtain h ag1 ag2 where
    1: "usePrimary (scrapeBuffer (consoleEnv env) h) ag = Some ag1" and
    2: "useError (scrapeBuffer (consoleEnv env)) ag1 = Some ag2" and
    3: "ag' = logEffect Scraped (ag2\<lparr>theConsole := setFrozen (m_frozen (theConsole ag)) (theConsole ag2)\<rparr>)"
    using scrapeBuffers_parts [OF assms(1)] by blast
  note draw = scrapeBuffer_draws [OF _ assms(2)]
  show ?thesis
    using consoleOutput_trans [OF usePrimary_output [OF 1 draw] useError_output [OF 2 draw]]
    by (simp add: 3)
qed

section \<open>The mouse mode and the title\<close>

lemma withTerminal_facts:
  assumes "withTerminal f ag = Some ag'" and "sendsTokens (terminalOf ag) (f (terminalOf ag))"
  shows "\<exists>s p. ag' = ag\<lparr>m_primaryScraper := s, m_conoutPipe := p\<rparr> \<and>
     emits (terminalOf ag) (m_conoutPipe ag) (scTerminal s) p \<and> appended (m_conoutPipe ag) p \<and>
     mouseModeEnabled (scTerminal s) = mouseModeEnabled (f (terminalOf ag))"
proof -
  obtain s p where f: "flushTerminal (onTerminal f (m_primaryScraper ag)) (m_conoutPipe ag) = Some (s, p)"
      "ag' = ag\<lparr>m_primaryScraper := s, m_conoutPipe := p\<rparr>"
    using assms(1) by (auto simp: withTerminal_def bind_eq_Some)
  then show ?thesis
    using flush_emits [OF _ f(1), of "terminalOf ag"] assms(2) flushTerminal_appended [OF f(1)]
    by (auto simp: onTerminal_def)
qed

lemma consoleTitle_frozen: "consoleTitle env con = Some (title, con') \<Longrightarrow> m_frozen con' = m_frozen con"
proof -
  assume "consoleTitle env con = Some (title, con')"
  then have "m_frozen (snd (title, con')) = m_frozen con"
    by (rule consoleTitle.raw_induct [where P = "\<lambda>env con r. m_frozen (snd r) = m_frozen con", rotated])
      (auto simp: bind_eq_Some Let_def split: if_splits)
  then show "m_frozen con' = m_frozen con" by simp
qed

definition titleCommand :: "string \<Rightarrow> string" where
  "titleCommand title = cString (CHR 0x1B # '']0;'' @ title @ [CHR 0x07])"

text \<open>Nothing but the title in the window, the title sent and the output queue of CONOUT changes.\<close>

lemma syncConsoleTitle_facts:
  assumes "syncConsoleTitle env ag = Some ag'"
  shows "\<exists>p t con cmd. ag' = ag\<lparr>theConsole := con, m_conoutPipe := p, m_currentTitle := t\<rparr> \<and>
     p = (m_conoutPipe ag)\<lparr>outQueue := outQueue (m_conoutPipe ag) @ cmd\<rparr> \<and>
     m_frozen con = m_frozen (theConsole ag) \<and>
     (cmd = [] \<or> \<not> m_plainMode ag \<and> (\<exists>title. cmd = titleCommand title))"
proof -
  obtain newTitle con where c: "consoleTitle (consoleEnv env) (theConsole ag) = Some (newTitle, con)"
    and rest: "(if newTitle \<noteq> m_currentTitle ag then do {
       p \<leftarrow> (if \<not> m_plainMode ag \<and> \<not> isClosed (m_conoutPipe ag) then do {
               title \<leftarrow> utf8FromWide (wideCharToMultiByte env) newTitle;
               pipeWrite (titleCommand title) (m_conoutPipe ag)
             }
             else Some (m_conoutPipe ag));
       Some (ag\<lparr>theConsole := con, m_conoutPipe := p, m_currentTitle := newTitle\<rparr>)
     }
     else Some (ag\<lparr>theConsole := con\<rparr>)) = Some ag'"
    using assms by (auto simp: syncConsoleTitle_def bind_eq_Some Let_def titleCommand_def split: if_splits)
  have same: "ag\<lparr>theConsole := con\<rparr> = ag\<lparr>theConsole := con, m_conoutPipe := m_conoutPipe ag, m_currentTitle := m_currentTitle ag\<rparr>"
    by simp
  have keep: "p = p\<lparr>outQueue := outQueue p @ []\<rparr>" for p :: "char Pipe" by simp
  show ?thesis
  proof (cases "newTitle \<noteq> m_currentTitle ag \<and> \<not> m_plainMode ag \<and> \<not> isClosed (m_conoutPipe ag)")
    case True
    then obtain title p where p: "pipeWrite (titleCommand title) (m_conoutPipe ag) = Some p"
        "ag' = ag\<lparr>theConsole := con, m_conoutPipe := p, m_currentTitle := newTitle\<rparr>"
      using rest by (auto simp: bind_eq_Some)
    show ?thesis
      by (rule exI [of _ p], rule exI [of _ newTitle], rule exI [of _ con], rule exI [of _ "titleCommand title"])
        (use p consoleTitle_frozen [OF c] True in \<open>auto simp: pipeWrite_def ASSERT_bind_Some\<close>)
  next
    case False
    then have "ag' = (if newTitle = m_currentTitle ag then ag\<lparr>theConsole := con\<rparr>
        else ag\<lparr>theConsole := con, m_conoutPipe := m_conoutPipe ag, m_currentTitle := newTitle\<rparr>)"
      using rest by (auto split: if_splits)
    then obtain t where t: "ag' = ag\<lparr>theConsole := con, m_conoutPipe := m_conoutPipe ag, m_currentTitle := t\<rparr>"
      using same by metis
    show ?thesis
      by (rule exI [of _ "m_conoutPipe ag"], rule exI [of _ t], rule exI [of _ con], rule exI [of _ "[]"])
        (use t consoleTitle_frozen [OF c] keep in auto)
  qed
qed

section \<open>Construction\<close>

lemma newScraper_frozen:
  assumes "newScraper env h t sz con = Some s"
  shows "m_frozen (m_console s) = m_frozen con"
proof -
  define s0 where "s0 = \<lparr>m_console = con, scTerminal = t, m_syncRow = - 1, m_syncCounter = 0,
               m_directMode = False, m_ptySize = sz, m_scrapedLineCount = 0,
               m_scrolledCount = 0, m_maxBufferedLine = - 1, m_readBuffer = newLargeBuffer,
               m_bufferData = [], m_dirtyWindowTop = - 1, m_dirtyLineCount = 0\<rparr>"
  obtain info s1 where q: "queryInfo env h s0 = (info, s1)" by fastforce
  have 1: "m_frozen (m_console s1) = m_frozen con"
    using q by (auto simp: queryInfo_def bufferInfo_def s0_def Let_def)
  define after where "after = (\<lambda>r1 r2 con3. setTextAttribute h kDefaultAttributes (setCursorPosition h (mkCoord 0 0)
        (moveWindow h r2 (callConsole (GetLargestWindow h) (snd (resizeBufferRange env h
          (mkCoord (X sz) BUFFER_LINE_COUNT) (moveWindow h r1 con3)))))))"
  obtain con3 r1 r2 con8 where
      font: "setSmallFont env h (X sz) (m_isNewW10 (m_console s1)) (m_console s1) = Some con3" and
      clear: "clearAllLines h (fst (bufferInfo env h (after r1 r2 con3))) (snd (bufferInfo env h (after r1 r2 con3))) =
        Some con8" and s: "m_console s = con8"
    using assms unfolding newScraper_def Let_def s0_def [symmetric] q prod.case after_def
    by (auto simp: bind_eq_Some case_prod_beta resetConsoleTracking_def)
  have "m_frozen con3 = m_frozen (m_console s1)"
    using setSmallFont_ok [of env h "X sz" "m_isNewW10 (m_console s1)" "m_console s1"] font calls_simps by auto
  moreover have "m_frozen (snd (resizeBufferRange env h z d)) = m_frozen d" for z d
    using calls_simps [OF resizeBufferRange_ok] by simp
  ultimately have "m_frozen (snd (bufferInfo env h (after r1 r2 con3))) = m_frozen con"
    using 1 by (simp add: after_def bufferInfo_def Let_def setTextAttribute_def setCursorPosition_def moveWindow_def)
  then show ?thesis
    using clear by (auto simp: s clearAllLines_def clearLines_def bind_eq_Some Let_def)
qed

lemma startScraper_facts:
  assumes "startScraper env h t sz con p = Some (con', s, p')" and "sent t = []"
  shows "p' = p" "plainMode (scTerminal s) = plainMode t" "outputColor (scTerminal s) = outputColor t"
    "mouseModeEnabled (scTerminal s) = mouseModeEnabled t" "sent (scTerminal s) = []"
    "m_frozen con' = m_frozen con"
proof -
  obtain s0 where s0: "newScraper env h t sz con = Some s0" "flushTerminal s0 p = Some (s, p')" "con' = m_console s0"
    using assms(1) by (auto simp: startScraper_def bind_eq_Some)
  obtain n where "scTerminal s0 = resetTerminal OmitClear n t" using newScraper_terminal [OF s0(1)] by blast
  then show "p' = p" "plainMode (scTerminal s) = plainMode t" "outputColor (scTerminal s) = outputColor t"
    "mouseModeEnabled (scTerminal s) = mouseModeEnabled t" "sent (scTerminal s) = []"
    using s0(2) assms(2) by (auto simp: flushTerminal_def resetTerminal_def onTerminal_def)
  show "m_frozen con' = m_frozen con" using newScraper_frozen [OF s0(1)] s0(3) by simp
qed

lemma startErrorScraper_facts:
  assumes "startErrorScraper env eb t sz con p = Some (con', e, p')" and "sent t = []"
  shows "p' = p \<and> m_frozen con' = m_frozen con \<and> (e \<noteq> None \<longleftrightarrow> eb \<noteq> None) \<and>
    (\<forall>s. e = Some s \<longrightarrow> plainMode (scTerminal s) = plainMode t \<and>
       outputColor (scTerminal s) = outputColor t \<and> sent (scTerminal s) = [])"
proof (cases eb)
  case (Some h)
  then obtain q s q' where q: "p = Some q" "startScraper env h t sz con q = Some (con', s, q')" "e = Some s" "p' = Some q'"
    using assms(1) by (auto simp: startErrorScraper_def bind_eq_Some)
  show ?thesis using startScraper_facts [OF q(2) assms(2)] q Some by simp
qed (use assms(1) in \<open>simp add: startErrorScraper_def\<close>)

lemma detect_frozen:
  assumes "detectNewWindows10Console env h con = Some con'" and "\<not> m_frozen con"
  shows "\<not> m_frozen con'"
  using assms
  by (auto simp: detectNewWindows10Console_def bind_eq_Some Let_def case_prod_beta setNewW10_def
      setFreezeUsesMark_def setCursorPosition_def split: if_splits)

lemma newTerminal_simps [simp]:
  "plainMode (newTerminal plain color) = plain" "\<not> mouseModeEnabled (newTerminal plain color)"
  "sent (newTerminal plain color) = []" "outputColor (newTerminal plain color) = color"
  by (simp_all add: newTerminal_def)

lemma startConsole_facts:
  assumes "startConsole env mouse useErr plain color sz h eb con control conin conout conerr = Some ag"
    and "\<not> m_frozen con" and "eb \<noteq> None \<longleftrightarrow> useErr"
  shows "m_useConerr ag = useErr" "m_plainMode ag = plain" "m_controlPipe ag = control"
    "m_coninPipe ag = conin" "m_conoutPipe ag = conout" "m_conerrPipe ag = conerr"
    "\<not> m_closingOutputPipes ag" "m_childProcess ag = None" "agentLog ag = []" "m_errorBuffer ag = eb"
    "\<not> m_exiting ag" "\<not> m_frozen (theConsole ag)" "m_errorScraper ag \<noteq> None \<longleftrightarrow> useErr"
    "plainMode (terminalOf ag) = plain" "outputColor (terminalOf ag) = color"
    "\<not> mouseModeEnabled (terminalOf ag)" "sent (terminalOf ag) = []"
    "\<And>es. m_errorScraper ag = Some es \<Longrightarrow> plainMode (scTerminal es) = plain \<and>
       outputColor (scTerminal es) = color \<and> sent (scTerminal es) = []"
proof -
  obtain con1 primary conout1 con2 error conerr1 input where
      1: "startScraper (consoleEnv env) h (newTerminal plain color) sz con conout = Some (con1, primary, conout1)" and
      2: "startErrorScraper (consoleEnv env) eb (newTerminal plain color) sz con1 conerr = Some (con2, error, conerr1)" and
      ag: "ag = \<lparr>m_useConerr = useErr, m_plainMode = plain, m_controlPipe = control, m_coninPipe = conin,
        m_conoutPipe = conout1, m_conerrPipe = conerr1, m_autoShutdown = False,
        m_exitAfterShutdown = False, m_closingOutputPipes = False, m_consoleInput = input,
        m_childProcess = None, m_currentTitle = [0x20], theConsole = setTitle [0x20] con2, m_errorBuffer = eb,
        m_primaryScraper = primary, m_errorScraper = error, m_exiting = False, agentLog = []\<rparr>"
    using assms(1) by (auto simp: startConsole_def bind_eq_Some Let_def)
  note p = startScraper_facts [OF 1]
  note e = startErrorScraper_facts [OF 2, simplified]
  show "m_useConerr ag = useErr" "m_plainMode ag = plain" "m_controlPipe ag = control"
    "m_coninPipe ag = conin" "m_conoutPipe ag = conout" "m_conerrPipe ag = conerr"
    "\<not> m_closingOutputPipes ag" "m_childProcess ag = None" "agentLog ag = []" "m_errorBuffer ag = eb"
    "\<not> m_exiting ag" "\<not> m_frozen (theConsole ag)" "m_errorScraper ag \<noteq> None \<longleftrightarrow> useErr"
    "plainMode (terminalOf ag) = plain" "outputColor (terminalOf ag) = color"
    "\<not> mouseModeEnabled (terminalOf ag)" "sent (terminalOf ag) = []"
    using p e assms(2, 3) by (simp_all add: ag setTitle_def)
  show "plainMode (scTerminal es) = plain \<and> outputColor (scTerminal es) = color \<and> sent (scTerminal es) = []"
    if "m_errorScraper ag = Some es" for es
    using e that by (simp add: ag)
qed

lemma newAgent_parts:
  assumes "newAgent env names connect agentFlags mouse cols rows = Some (Inr ag)"
  shows "\<exists>useErr plain color sz h eb con control conin conout conerr control1.
     useErr = (agentFlags AND VT7PTY_FLAG_CONERR \<noteq> 0) \<and> (eb \<noteq> None \<longleftrightarrow> useErr) \<and>
     plain = (agentFlags AND VT7PTY_FLAG_PLAIN_OUTPUT \<noteq> 0) \<and>
     color = (\<not> plain \<or> agentFlags AND VT7PTY_FLAG_COLOR_ESCAPES \<noteq> 0) \<and> \<not> m_frozen con \<and>
     connectToControlPipe (controlName names) = Some control \<and>
     createDataServerPipe False (connect ConinPipe) (coninName names) = Some conin \<and>
     createDataServerPipe True (connect ConoutPipe) (conoutName names) = Some conout \<and>
     (if useErr then map_option Some (createDataServerPipe True (connect ConerrPipe) (conerrName names))
        else Some None) = Some conerr \<and>
     sendPacket (setupPacket useErr names) control = Some (Inr control1) \<and>
     startConsole env mouse useErr plain color sz h eb con control1 conin conout conerr = Some ag"
proof -
  define useErr where "useErr = (agentFlags AND VT7PTY_FLAG_CONERR \<noteq> 0)"
  define plain where "plain = (agentFlags AND VT7PTY_FLAG_PLAIN_OUTPUT \<noteq> 0)"
  define color where "color = (\<not> plain \<or> agentFlags AND VT7PTY_FLAG_COLOR_ESCAPES \<noteq> 0)"
  obtain w ht h eb con control conin conout conerr where
      eb: "(if useErr then map_option Some (errorBufferHandle env) else Some None) = Some eb" and
      con: "detectNewWindows10Console (consoleEnv env) h newConsole = Some con" and
      p: "connectToControlPipe (controlName names) = Some control"
      "createDataServerPipe False (connect ConinPipe) (coninName names) = Some conin"
      "createDataServerPipe True (connect ConoutPipe) (conoutName names) = Some conout"
      "(if useErr then map_option Some (createDataServerPipe True (connect ConerrPipe) (conerrName names))
        else Some None) = Some conerr" and
      rest: "obind (sendPacket (setupPacket useErr names) control) (\<lambda>control1.
       map_option Inr (startConsole env mouse useErr plain color (mkCoord w ht) h eb con
         control1 conin conout conerr)) = Some (Inr ag)"
    using assms unfolding newAgent_def Let_def bind_eq_Some useErr_def [symmetric] plain_def [symmetric]
      color_def [symmetric] by blast
  obtain control1 where c1: "sendPacket (setupPacket useErr names) control = Some (Inr control1)"
      "startConsole env mouse useErr plain color (mkCoord w ht) h eb con control1 conin conout conerr = Some ag"
    using rest unfolding obind_Inr by auto
  have "eb \<noteq> None \<longleftrightarrow> useErr" using eb by (auto split: if_splits)
  moreover have "\<not> m_frozen con" using detect_frozen [OF con] by (simp add: newConsole_def)
  ultimately show ?thesis
    unfolding useErr_def [symmetric] plain_def [symmetric] color_def [symmetric]
    by (rule_tac exI [of _ useErr], rule_tac exI [of _ plain], rule_tac exI [of _ color], rule_tac exI [of _ "mkCoord w ht"],
        rule_tac exI [of _ h], rule_tac exI [of _ eb], rule_tac exI [of _ con], rule_tac exI [of _ control],
        rule_tac exI [of _ conin], rule_tac exI [of _ conout], rule_tac exI [of _ conerr], rule_tac exI [of _ control1])
      (use p c1 in \<open>simp add: color_def\<close>)
qed

lemma sendPacket_appended: "sendPacket packet p = Some (Inr p') \<Longrightarrow> appended p p'"
  by (auto simp: sendPacket_def bind_eq_Some split: if_splits dest: pipeWrite_appended)

end
