(* ===== verification/AgentLife.thy ===== *)
theory AgentLife
  imports AgentConsole ControlChannel
begin

text \<open>
  The life of the agent (src/agent/Agent.cc, src/agent/EventLoop.cc): the states that the turns
  of its event loop reach, the invariant of its pipes, the life cycle of the child process as an
  abstract machine that the agent refines, and the closing of the output pipes.
\<close>

section \<open>Reachable states\<close>

definition answersOk :: "TurnAnswers \<Rightarrow> bool" where
  "answersOk ans \<longleftrightarrow> answersFit (controlAns ans) \<and> answersFit (coninAns ans) \<and>
     answersFit (conoutAns ans) \<and> answersFit (conerrAns ans)"

text \<open>
  The loop takes another turn unless the agent is exiting. The environment may answer
  differently in every turn, but Windows never reads more bytes than it was asked for, and what it
  says of a console window is consistent.
\<close>

inductive agentStep :: "AgentState \<Rightarrow> AgentState \<Rightarrow> bool" where
  turn: "\<not> m_exiting ag \<Longrightarrow> answersOk ans \<Longrightarrow> consoleOk (consoleEnv env) \<Longrightarrow>
    loopTurn env ans ag = Some (Inr (did, waits, ag')) \<Longrightarrow> agentStep ag ag'"

inductive agentReachable :: "AgentState \<Rightarrow> bool" where
  start: "newAgent env names connect agentFlags mouse cols rows = Some (Inr ag) \<Longrightarrow> agentReachable ag"
| step: "agentReachable ag \<Longrightarrow> agentStep ag ag' \<Longrightarrow> agentReachable ag'"

inductive_cases agentStepE: "agentStep ag ag'"

section \<open>What the parts of a turn change\<close>

text \<open>Only the console input and the output queue of CONOUT differ.\<close>

definition onlyOutput :: "AgentState \<Rightarrow> AgentState \<Rightarrow> bool" where
  "onlyOutput ag ag' \<longleftrightarrow> (\<exists>st p. ag' = ag\<lparr>m_consoleInput := st, m_conoutPipe := p\<rparr> \<and>
     appended (m_conoutPipe ag) p)"

lemma onlyOutput_refl [simp]: "onlyOutput ag ag"
  unfolding onlyOutput_def
  by (rule exI [of _ "m_consoleInput ag"], rule exI [of _ "m_conoutPipe ag"]) simp

lemma onlyOutput_conout: "appended (m_conoutPipe ag) p \<Longrightarrow> onlyOutput ag (ag\<lparr>m_conoutPipe := p\<rparr>)"
  unfolding onlyOutput_def by (rule exI [of _ "m_consoleInput ag"], rule exI [of _ p]) simp

lemma onlyOutput_trans: "onlyOutput ag ag1 \<Longrightarrow> onlyOutput ag1 ag2 \<Longrightarrow> onlyOutput ag ag2"
  unfolding onlyOutput_def by (fastforce intro: appended_trans)

lemma onlyOutput_foreach:
  assumes "\<And>x ag ag'. f x ag = Some ag' \<Longrightarrow> onlyOutput ag ag'"
  shows "foreach f xs ag = Some ag' \<Longrightarrow> onlyOutput ag ag'"
  by (induction xs arbitrary: ag) (auto simp: bind_eq_Some dest: assms intro: onlyOutput_trans)

lemma sendDsr_onlyOutput: "sendDsr ag = Some ag' \<Longrightarrow> onlyOutput ag ag'"
  by (auto simp: sendDsr_def bind_eq_Some split: if_splits dest!: pipeWrite_appended
      intro: onlyOutput_conout)

lemma runConsoleInput_onlyOutput:
  assumes "runConsoleInput f ag = Some ag'"
  shows "onlyOutput ag ag'"
proof -
  obtain st where "foreach (\<lambda>_. sendDsr) (filter (\<lambda>e. e = SentDsr) (evlog st))
       (ag\<lparr>m_consoleInput := st\<lparr>evlog := evlog (m_consoleInput ag) @ evlog st\<rparr>\<rparr>) = Some ag'"
    using assms by (auto simp: runConsoleInput_def bind_eq_Some Let_def)
  then have "onlyOutput (ag\<lparr>m_consoleInput := st\<lparr>evlog := evlog (m_consoleInput ag) @ evlog st\<rparr>\<rparr>) ag'"
    by (rule onlyOutput_foreach [rotated]) (rule sendDsr_onlyOutput)
  then show ?thesis by (auto simp: onlyOutput_def)
qed

lemma pollConinPipe_facts:
  assumes "pollConinPipe env ag = Some ag'"
  shows "onlyOutput (ag\<lparr>m_coninPipe := m_coninPipe ag'\<rparr>) ag'"
    and "\<exists>s. readAllToString (m_coninPipe ag) = Some (s, m_coninPipe ag')"
proof -
  obtain newData p where r: "readAllToString (m_coninPipe ag) = Some (newData, p)"
    and run: "(if inputSeparatedBytes env
     then foreach (\<lambda>c. runConsoleInput (writeInput (inputEnv env) [c])) newData (ag\<lparr>m_coninPipe := p\<rparr>)
     else runConsoleInput (writeInput (inputEnv env) newData) (ag\<lparr>m_coninPipe := p\<rparr>)) = Some ag'"
    using assms by (auto simp: pollConinPipe_def bind_eq_Some Let_def)
  have "onlyOutput (ag\<lparr>m_coninPipe := p\<rparr>) ag'"
    using run by (auto split: if_splits dest: runConsoleInput_onlyOutput
        onlyOutput_foreach [rotated] intro: runConsoleInput_onlyOutput)
  moreover from this have "m_coninPipe ag' = p" by (auto simp: onlyOutput_def)
  ultimately show "onlyOutput (ag\<lparr>m_coninPipe := m_coninPipe ag'\<rparr>) ag'"
    "\<exists>s. readAllToString (m_coninPipe ag) = Some (s, m_coninPipe ag')"
    using r by auto
qed

section \<open>The invariant of the pipes\<close>

definition pipeOk :: "OpenMode \<Rightarrow> 'b Pipe \<Rightarrow> bool" where
  "pipeOk mode p \<longleftrightarrow> pipeInv p \<and> openMode p = mode \<and> 64 * 1024 \<le> readBufSize p"

definition pipesOk :: "AgentState \<Rightarrow> bool" where
  "pipesOk ag \<longleftrightarrow> pipeOk Duplex (m_controlPipe ag) \<and> pipeOk Reading (m_coninPipe ag) \<and>
     pipeOk Writing (m_conoutPipe ag) \<and>
     (m_conerrPipe ag \<noteq> None \<longleftrightarrow> m_useConerr ag) \<and>
     (\<forall>p. m_conerrPipe ag = Some p \<longrightarrow> pipeOk Writing p) \<and>
     (m_errorScraper ag \<noteq> None \<longleftrightarrow> m_useConerr ag) \<and>
     plainMode (terminalOf ag) = m_plainMode ag \<and>
     (m_plainMode ag \<longrightarrow> \<not> mouseModeEnabled (terminalOf ag)) \<and>
     \<not> m_frozen (theConsole ag)"

lemma pipeOk_service:
  "serviceIo ans p = Some (did, waits, p') \<Longrightarrow> pipeOk mode p \<Longrightarrow> answersFit ans \<Longrightarrow> pipeOk mode p'"
  using serviceIo_result unfolding pipeOk_def by metis

lemma pipeInv_appendOut: "pipeInv p \<Longrightarrow> pipeInv (p\<lparr>outQueue := q\<rparr>)"
  by (auto simp: pipeInv_def)

lemma pipeOk_appended: "appended p p' \<Longrightarrow> pipeOk mode p \<Longrightarrow> pipeOk mode p'"
  by (auto simp: appended_def pipeOk_def intro: pipeInv_appendOut)

lemma pipeOk_close [simp]: "pipeOk mode p \<Longrightarrow> pipeOk mode (closePipe p)"
  by (auto simp: pipeOk_def pipeInv_close) (simp_all add: closePipe_def)

lemma pipeOk_readAll: "readAllToString p = Some (x, p') \<Longrightarrow> pipeOk mode p \<Longrightarrow> pipeOk mode p'"
  using pipeInv_read(3) [of p x p'] by (auto simp: pipeOk_def readAllToString_eq)

lemma pipesOk_onlyOutput: "onlyOutput ag ag' \<Longrightarrow> pipesOk ag \<Longrightarrow> pipesOk ag'"
  by (auto simp: onlyOutput_def pipesOk_def intro: pipeOk_appended)

lemma pipesOk_channels:
  assumes "pipesOk ag" and "pipeOk Duplex (m_controlPipe ag')" and "pipeOk Reading (m_coninPipe ag')"
    and "appended (m_conoutPipe ag) (m_conoutPipe ag')"
    and "rel_option appended (m_conerrPipe ag) (m_conerrPipe ag')"
    and "m_useConerr ag' = m_useConerr ag" "m_plainMode ag' = m_plainMode ag"
    and "m_errorScraper ag' = None \<longleftrightarrow> m_errorScraper ag = None"
    and "plainMode (terminalOf ag') = plainMode (terminalOf ag)"
    and "mouseModeEnabled (terminalOf ag') = mouseModeEnabled (terminalOf ag)"
    and "m_frozen (theConsole ag') = m_frozen (theConsole ag)"
  shows "pipesOk ag'"
  using assms
  by (cases "m_conerrPipe ag"; cases "m_conerrPipe ag'") (auto simp: pipesOk_def intro: pipeOk_appended)

lemma pipesOk_consoleOutput:
  assumes "consoleOutput ag ag'" and "m_frozen (theConsole ag') = m_frozen (theConsole ag)" and "pipesOk ag"
  shows "pipesOk ag'"
  using assms by (intro pipesOk_channels [OF assms(3)])
    (auto simp: consoleOutput_def consoleWork_def pipesOk_def dest: emits_modes)

section \<open>The life of the child process\<close>

text \<open>
  The agent starts at most one child process, scrapes the console while it waits and while the
  child runs, and once more after the exit. \<open>LStarted\<close> is the moment in which the thread
  handle is still open, \<open>LExited\<close> the moment before the final scrape.
\<close>

datatype Life = LIdle | LStarted u64 | LRunning u64 | LExited | LClosing

fun lifeStep :: "AgentEffect \<Rightarrow> Life \<Rightarrow> Life option" where
  "lifeStep (SpawnFailed _ _) LIdle = Some LIdle"
| "lifeStep (Spawned _ h) LIdle = Some (LStarted h)"
| "lifeStep (ClosedHandle _) (LStarted h) = Some (LRunning h)"
| "lifeStep (ClosedHandle h') (LRunning h) = (if h' = h then Some LExited else None)"
| "lifeStep Scraped LIdle = Some LIdle"
| "lifeStep Scraped (LRunning h) = Some (LRunning h)"
| "lifeStep Scraped LExited = Some LClosing"
| "lifeStep (Resized _ _) LIdle = Some LIdle"
| "lifeStep (Resized _ _) (LRunning h) = Some (LRunning h)"
| "lifeStep (Resized _ _) LClosing = Some LClosing"
| "lifeStep (BufferSizeEvent _) LIdle = Some LIdle"
| "lifeStep (BufferSizeEvent _) (LRunning h) = Some (LRunning h)"
| "lifeStep (BufferSizeEvent _) LClosing = Some LClosing"
| "lifeStep _ _ = None"

definition lifeOf :: "AgentState \<Rightarrow> Life" where
  "lifeOf ag = (if m_closingOutputPipes ag then LClosing
     else (case m_childProcess ag of None \<Rightarrow> LIdle | Some h \<Rightarrow> LRunning h))"

text \<open>A part of a turn follows the machine, and leaves no child process once it is closing.\<close>

definition childOk :: "AgentState \<Rightarrow> bool" where
  "childOk ag \<longleftrightarrow> \<not> (m_closingOutputPipes ag \<and> m_childProcess ag \<noteq> None)"

definition tracks :: "AgentState \<Rightarrow> AgentState \<Rightarrow> bool" where
  "tracks ag ag' \<longleftrightarrow> (\<exists>es. agentLog ag' = agentLog ag @ es \<and>
     foreach lifeStep es (lifeOf ag) = Some (lifeOf ag'))"

lemma tracks_trans: "tracks ag ag1 \<Longrightarrow> tracks ag1 ag2 \<Longrightarrow> tracks ag ag2"
  unfolding tracks_def by (fastforce simp: foreach_append)

lemma tracks_same:
  "agentLog ag' = agentLog ag \<Longrightarrow> lifeOf ag' = lifeOf ag \<Longrightarrow> tracks ag ag'"
  by (auto simp: tracks_def intro: exI [of _ "[]"])

lemma tracksI:
  "agentLog ag' = agentLog ag @ es \<Longrightarrow> foreach lifeStep es (lifeOf ag) = Some (lifeOf ag') \<Longrightarrow> tracks ag ag'"
  by (auto simp: tracks_def)

definition mouseOk :: "AgentState \<Rightarrow> bool" where
  "mouseOk ag \<longleftrightarrow> (m_closingOutputPipes ag \<longrightarrow> \<not> mouseModeEnabled (terminalOf ag))"

definition good :: "AgentState \<Rightarrow> AgentState \<Rightarrow> bool" where
  "good ag ag' \<longleftrightarrow> (pipesOk ag \<and> childOk ag \<and> mouseOk ag \<longrightarrow>
     pipesOk ag' \<and> childOk ag' \<and> mouseOk ag' \<and> tracks ag ag')"

lemma good_trans: "good ag ag1 \<Longrightarrow> good ag1 ag2 \<Longrightarrow> good ag ag2"
  unfolding good_def using tracks_trans by blast

lemma good_refl [simp]: "good ag ag"
  by (simp add: good_def tracks_same)

lemma good_onlyOutput: "onlyOutput ag ag' \<Longrightarrow> good ag ag'"
  unfolding good_def
  by (auto simp: pipesOk_onlyOutput) (auto simp: onlyOutput_def childOk_def lifeOf_def mouseOk_def intro!: tracks_same)

lemma good_channels:
  assumes "pipesOk ag \<Longrightarrow> pipesOk ag'" and "agentLog ag' = agentLog ag"
    and "m_childProcess ag' = m_childProcess ag" and "m_closingOutputPipes ag' = m_closingOutputPipes ag"
    and "mouseOk ag \<Longrightarrow> mouseOk ag'"
  shows "good ag ag'"
  using assms by (auto simp: good_def childOk_def lifeOf_def intro!: tracks_same)

section \<open>The handlers of the control pipe\<close>

lemma writePacket_log:
  assumes "writePacket packet ag = Some (Inr ag')"
  shows "agentLog ag' = agentLog ag \<and> m_childProcess ag' = m_childProcess ag \<and>
    m_closingOutputPipes ag' = m_closingOutputPipes ag"
  using assms by (auto simp: writePacket_eq bind_eq_Some split: if_splits)

lemma startProcess_life:
  assumes "startProcess env f p t a b c d ag = Some (Inr ag')" and "\<not> busy ag"
  shows "tracks ag ag' \<and> childOk ag'"
proof -
  define call where "call = \<lparr>programArg = nonEmpty a a, cmdlineArg = nonEmpty b (b @ [0]),
     cwdArg = nonEmpty c c, envArg = nonEmpty d d, inheritHandles = m_useConerr ag\<rparr>"
  have idle: "m_childProcess ag = None" "\<not> m_closingOutputPipes ag" using assms(2) by (auto simp: busy_def)
  show ?thesis
  proof (cases "createProcess env call")
    case (Created hp ht)
    obtain x y where w: "writePacket (putInt64 y (putInt64 x (putInt32 ResultProcessCreated newPacket)))
        ((logEffect (ClosedHandle ht) (logEffect (Spawned call hp) ag))\<lparr>m_childProcess := Some hp,
           m_autoShutdown := (f AND VT7PTY_SPAWN_FLAG_AUTO_SHUTDOWN \<noteq> 0),
           m_exitAfterShutdown := (f AND VT7PTY_SPAWN_FLAG_EXIT_AFTER_SHUTDOWN \<noteq> 0)\<rparr>) = Some (Inr ag')"
      using assms(1) Created by (auto simp: startProcess_def Let_def bind_eq_Some call_def)
    then have "agentLog ag' = agentLog ag @ [Spawned call hp, ClosedHandle ht]"
        "m_childProcess ag' = Some hp" "\<not> m_closingOutputPipes ag'"
      using writePacket_log [OF w] idle by simp_all
    then show ?thesis using idle by (auto simp: childOk_def lifeOf_def intro: tracksI)
  next
    case (CreateFailed err)
    then have w: "writePacket (putInt32 err (putInt32 ResultCreateProcessFailed newPacket))
               (logEffect (SpawnFailed call err) ag) = Some (Inr ag')"
      using assms(1) by (simp add: startProcess_def Let_def call_def)
    then have "agentLog ag' = agentLog ag @ [SpawnFailed call err]"
        "m_childProcess ag' = None" "\<not> m_closingOutputPipes ag'"
      using writePacket_log [OF w] idle by simp_all
    then show ?thesis using idle by (auto simp: childOk_def lifeOf_def intro: tracksI)
  qed
qed

lemma resizeWindow_log:
  assumes "resizeWindow env cols rows ag = Some ag1"
  shows "\<exists>w h sz. agentLog ag1 = agentLog ag @ [Resized w h, BufferSizeEvent sz] \<and>
       m_childProcess ag1 = m_childProcess ag \<and> m_closingOutputPipes ag1 = m_closingOutputPipes ag"
  using resizeWindow_work [OF assms] by (auto simp: consoleWork_def)

lemma performRequest_life:
  assumes "performRequest env req ag = Some (Inr ag')" and "validRequest grow (busy ag) req"
    and "childOk ag"
  shows "tracks ag ag' \<and> childOk ag'"
proof (cases req)
  case (StartProcess f p t a b c d)
  then show ?thesis using assms(1, 2) startProcess_life by simp
next
  case (SetSize cols rows)
  then obtain w h sz ag1 where r: "agentLog ag1 = agentLog ag @ [Resized w h, BufferSizeEvent sz]"
      "m_childProcess ag1 = m_childProcess ag" "m_closingOutputPipes ag1 = m_closingOutputPipes ag"
      "writePacket newPacket ag1 = Some (Inr ag')"
    using assms(1) resizeWindow_log by (auto simp: bind_eq_Some) blast
  then have "lifeOf ag' = lifeOf ag" "childOk ag' = childOk ag"
    using writePacket_log [OF r(4)] by (simp_all add: lifeOf_def childOk_def)
  moreover have "foreach lifeStep [Resized w h, BufferSizeEvent sz] (lifeOf ag) = Some (lifeOf ag)"
    by (auto simp: lifeOf_def split: option.splits)
  ultimately show ?thesis using assms(3) r(1) writePacket_log [OF r(4)] by (auto intro: tracksI)
next
  case GetConsoleProcessList
  then obtain packet where "writePacket packet ag = Some (Inr ag')"
    using assms(1) by (auto simp: listProcesses_def Let_def bind_eq_Some)
  note writePacket_log [OF this]
  then show ?thesis using assms(3) by (auto simp: childOk_def lifeOf_def intro: tracks_same)
qed

text \<open>A resize works on the console; apart from that a request leaves it alone.\<close>

lemma performRequest_console:
  assumes "performRequest env req ag = Some (Inr ag')" and "consoleOk (consoleEnv env)"
  shows "\<exists>ag1. consoleOutput ag ag1 \<and> m_frozen (theConsole ag1) = m_frozen (theConsole ag) \<and> sameConsole ag1 ag'"
proof (cases req)
  case (StartProcess f p t a b c d)
  then have "sameConsole ag ag'" using assms(1) startProcess_same by simp
  then show ?thesis by (intro exI [of _ ag]) simp
next
  case (SetSize cols rows)
  then obtain ag1 where r: "resizeWindow env (sint cols) (sint rows) ag = Some ag1"
      "writePacket newPacket ag1 = Some (Inr ag')"
    using assms(1) by (auto simp: bind_eq_Some)
  have "sameConsole ag1 ag'" using writePacket_facts(1) [OF r(2)] by (simp add: sameConsole_def)
  then show ?thesis using resizeWindow_output [OF r(1) assms(2)] by blast
next
  case GetConsoleProcessList
  then have "sameConsole ag ag'" using assms(1) listProcesses_same by simp
  then show ?thesis by (intro exI [of _ ag]) simp
qed

lemma performRequest_pipesOk:
  assumes "performRequest env req ag = Some (Inr ag')" and "consoleOk (consoleEnv env)"
  shows "(pipesOk ag \<longrightarrow> pipesOk ag') \<and> mouseOk ag' = mouseOk ag"
proof -
  obtain ag1 where ag1: "consoleOutput ag ag1" "m_frozen (theConsole ag1) = m_frozen (theConsole ag)"
      "sameConsole ag1 ag'"
    using performRequest_console [OF assms] by blast
  note same = performRequest_same [OF assms(1)]
  have modes: "plainMode (terminalOf ag') = plainMode (terminalOf ag)"
      "mouseModeEnabled (terminalOf ag') = mouseModeEnabled (terminalOf ag)"
      "m_frozen (theConsole ag') = m_frozen (theConsole ag)"
    using ag1 by (auto simp: consoleOutput_def sameConsole_def dest: emits_modes)
  have "pipesOk ag'" if "pipesOk ag"
    using same that modes by (intro pipesOk_channels [OF that])
      (auto simp: sameChannels_def pipesOk_def pipeOk_def intro: pipeInv_appendOut)
  then show ?thesis using same modes by (auto simp: sameChannels_def mouseOk_def)
qed

lemma handlePacket_good:
  assumes "handlePacket env bytes ag = Some (Inr ag')" and "8 \<le> length bytes"
    and "consoleOk (consoleEnv env)"
  shows "good ag ag'"
proof -
  obtain req r where req: "pRequest (growString env) (busy ag) (drop 8 bytes) = Inr (req, r)"
      "performRequest env req ag = Some (Inr ag')"
    using assms handlePacket_eq [OF assms(2), of env ag] by (auto split: sum.splits)
  have "validRequest (growString env) (busy ag) req" using req(1) pRequest_Inr by blast
  then show ?thesis
    using performRequest_life [OF req(2)] performRequest_pipesOk [OF req(2) assms(3)]
    by (auto simp: good_def)
qed

lemma withInput_good:
  assumes "length q \<le> length (inQueue (m_controlPipe ag))" and "readBufSize (m_controlPipe ag) \<le> n"
  shows "good ag (withInput q n ag)"
proof (rule good_channels)
  assume "pipesOk ag"
  moreover have "pipeInv ((m_controlPipe ag)\<lparr>inQueue := q, readBufSize := n\<rparr>)"
    if "pipeInv (m_controlPipe ag)"
    using that assms by (auto simp: pipeInv_def)
  ultimately show "pipesOk (withInput q n ag)"
    using assms by (auto simp: pipesOk_def pipeOk_def withInput_def)
qed (simp_all add: withInput_def mouseOk_def)

lemma rejectControl_good [simp]: "good ag (rejectControl ag)"
  by (rule good_channels) (auto simp: rejectControl_def shutdown_def pipesOk_def mouseOk_def)

lemma pollControlLoop_good:
  assumes "hasMode (openMode (m_controlPipe ag)) Reading" and "pollControlLoop env ag = Some (Inr ag')"
    and env: "consoleOk (consoleEnv env)"
  shows "good ag ag'"
  using assms(1, 2)
proof (induction ag rule: pollControl_induct [where env = env])
  case (Step ag)
  let ?b = "readBufSize (m_controlPipe ag)"
  note step = pollControlLoop_step [OF Step(1), of env]
  show ?case
  proof (cases "nextFrame (inQueue (m_controlPipe ag))")
    case (PartialFrame n)
    then show ?thesis using Step(3) step by (auto intro: withInput_good)
  next
    case (WholeFrame p r)
    then have len: "8 \<le> length p" "length r \<le> length (inQueue (m_controlPipe ag))"
      using nextFrame_Whole by fastforce+
    then have drop: "good ag (withInput r ?b ag)" by (intro withInput_good) simp_all
    show ?thesis
    proof (cases "\<exists>ag1. handlePacket env p (withInput r ?b ag) = Some (Inr ag1)")
      case True
      then obtain ag1 where h: "handlePacket env p (withInput r ?b ag) = Some (Inr ag1)" by blast
      note keep = handlePacket_keeps [OF h]
      have "pollControlLoop env ag1 = Some (Inr ag')" using Step(3) step WholeFrame h by simp
      then have "good ag1 ag'" using Step(2) [OF WholeFrame h] keep Step(1) by simp
      then show ?thesis using drop handlePacket_good [OF h len(1) env] good_trans by blast
    next
      case False
      then have "ag' = rejectControl (withInput r ?b ag)"
        using Step(3) step WholeFrame by (auto split: option.splits sum.splits if_splits)
      then show ?thesis using drop good_trans rejectControl_good by blast
    qed
  qed (use Step(3) step in auto)
qed

section \<open>The rest of a turn\<close>

lemma servicePipe_good:
  assumes "servicePipe ans pid ag = Some (did, waits, ag')" and "answersOk ans"
  shows "good ag ag'"
proof (rule good_channels)
  assume "pipesOk ag"
  then show "pipesOk ag'"
    using assms by (cases pid) (auto simp: servicePipe_def pipesOk_def answersOk_def bind_eq_Some
        split: option.splits intro: pipeOk_service)
qed (use assms in \<open>cases pid; auto simp: servicePipe_def mouseOk_def bind_eq_Some split: option.splits\<close>)+

lemma closeWhenSent_cases: "closeWhenSent p = Some p' \<Longrightarrow> p' = p \<or> p' = closePipe p"
  by (auto simp: closeWhenSent_def bind_eq_Some split: if_splits)

lemma autoClose_facts:
  assumes "autoClosePipesForShutdown ag = Some ag'"
  shows "\<exists>conout conerr ex. ag' = ag\<lparr>m_conoutPipe := conout, m_conerrPipe := conerr, m_exiting := ex\<rparr> \<and>
     (conout = m_conoutPipe ag \<or> conout = closePipe (m_conoutPipe ag)) \<and>
     (conerr = m_conerrPipe ag \<or> conerr = map_option closePipe (m_conerrPipe ag))"
proof (cases "m_closingOutputPipes ag")
  case False
  then have "ag' = ag" using assms by (simp add: autoClosePipesForShutdown_def)
  then show ?thesis by (intro exI [of _ "m_conoutPipe ag"] exI [of _ "m_conerrPipe ag"]
        exI [of _ "m_exiting ag"]) simp
next
  case True
  then obtain conout conerr where c: "closeWhenSent (m_conoutPipe ag) = Some conout"
      "(case m_conerrPipe ag of None \<Rightarrow> Some None
          | Some p \<Rightarrow> do { p' \<leftarrow> closeWhenSent p; Some (Some p') }) = Some conerr"
      "ag' = (let ag1 = ag\<lparr>m_conoutPipe := conout, m_conerrPipe := conerr\<rparr>
        in if m_exitAfterShutdown ag1 \<and> isClosed conout \<and>
                 (case conerr of None \<Rightarrow> True | Some p \<Rightarrow> isClosed p)
              then shutdown ag1 else ag1)"
    using assms by (auto simp: autoClosePipesForShutdown_def bind_eq_Some Let_def)
  have "conout = m_conoutPipe ag \<or> conout = closePipe (m_conoutPipe ag)"
    using closeWhenSent_cases [OF c(1)] .
  moreover have "conerr = m_conerrPipe ag \<or> conerr = map_option closePipe (m_conerrPipe ag)"
    using c(2) by (auto simp: bind_eq_Some split: option.splits dest: closeWhenSent_cases)
  moreover have "\<exists>ex. ag' = ag\<lparr>m_conoutPipe := conout, m_conerrPipe := conerr, m_exiting := ex\<rparr>"
    using c(3) by (auto simp: Let_def shutdown_def intro: exI [of _ "m_exiting ag"])
  ultimately show ?thesis by blast
qed

lemma autoClose_good: "autoClosePipesForShutdown ag = Some ag' \<Longrightarrow> good ag ag'"
  by (rule good_channels) (auto dest!: autoClose_facts simp: pipesOk_def mouseOk_def)

lemma enableMouseMode_simps [simp]:
  "plainMode (enableMouseMode b t) = plainMode t"
  "mouseModeEnabled (enableMouseMode b t) = (if plainMode t then mouseModeEnabled t else b)"
  by (auto simp: enableMouseMode_def Let_def outWrite_def)

lemma withTerminal_result:
  assumes "withTerminal (enableMouseMode (b \<and> \<not> m_closingOutputPipes ag)) ag = Some ag'" and "pipesOk ag"
  shows "pipesOk ag' \<and> mouseOk ag' \<and> childOk ag' = childOk ag \<and> agentLog ag' = agentLog ag \<and> lifeOf ag' = lifeOf ag"
proof -
  obtain s p where sp: "ag' = ag\<lparr>m_primaryScraper := s, m_conoutPipe := p\<rparr>"
      "emits (terminalOf ag) (m_conoutPipe ag) (scTerminal s) p" "appended (m_conoutPipe ag) p"
      "mouseModeEnabled (scTerminal s) =
        mouseModeEnabled (enableMouseMode (b \<and> \<not> m_closingOutputPipes ag) (terminalOf ag))"
    using withTerminal_facts [OF assms(1) mouse_tokens] by blast
  have "pipeOk Writing p" using assms(2) pipeOk_appended [OF sp(3)] by (simp add: pipesOk_def)
  then show ?thesis
    using assms(2) sp(4) emits_modes [OF sp(2)]
    by (auto simp: sp(1) pipesOk_def mouseOk_def childOk_def lifeOf_def split: if_splits)
qed

text \<open>The exit check and the scrape after it, as one step of the machine.\<close>

lemma exitAndScrape:
  assumes "(if \<not> m_closingOutputPipes ag then do {
               a \<leftarrow> syncConsoleTitle env (checkChildExit env ag);
               scrapeBuffers env a
             }
             else Some (checkChildExit env ag)) = Some ag'"
    and "pipesOk ag" and "childOk ag" and "consoleOk (consoleEnv env)"
  shows "pipesOk ag' \<and> childOk ag' \<and> tracks ag ag'"
proof (cases "m_closingOutputPipes ag")
  case True
  then have "checkChildExit env ag = ag"
    using assms(3) by (auto simp: childOk_def checkChildExit_def split: option.splits)
  then show ?thesis using assms True by (simp add: tracks_same)
next
  case False
  then obtain a where a: "syncConsoleTitle env (checkChildExit env ag) = Some a"
      "scrapeBuffers env a = Some ag'"
    using assms(1) by (auto simp: bind_eq_Some)
  obtain p t con cmd where pt: "a = (checkChildExit env ag)\<lparr>theConsole := con, m_conoutPipe := p, m_currentTitle := t\<rparr>"
      "p = (m_conoutPipe (checkChildExit env ag))\<lparr>outQueue := outQueue (m_conoutPipe (checkChildExit env ag)) @ cmd\<rparr>"
      "m_frozen con = m_frozen (theConsole (checkChildExit env ag))"
    using syncConsoleTitle_facts [OF a(1)] by blast
  have app: "appended (m_conoutPipe (checkChildExit env ag)) p" using pt(2) by (auto simp: appended_def)
  have "pipesOk (checkChildExit env ag)"
    using assms(2) by (auto simp: checkChildExit_def pipesOk_def split: option.splits)
  then have "pipesOk a"
    using app by (auto simp: pt(1, 3) pipesOk_def intro: pipeOk_appended)
  then have "pipesOk ag'"
    using scrapeBuffers_output [OF a(2) assms(4)] pipesOk_consoleOutput by blast
  moreover have scraped: "agentLog ag' = agentLog a @ [Scraped]" "m_childProcess ag' = m_childProcess a"
      "m_closingOutputPipes ag' = m_closingOutputPipes a"
    using scrapeBuffers_work [OF a(2)] by (simp_all add: consoleWork_def)
  moreover have "childOk ag' \<and> tracks ag ag'"
  proof (cases "m_childProcess ag")
    case None
    then have "checkChildExit env ag = ag" by (simp add: checkChildExit_def)
    then have "agentLog ag' = agentLog ag @ [Scraped]" "lifeOf ag' = LIdle" "lifeOf ag = LIdle" "childOk ag'"
      using scraped pt(1) None False by (simp_all add: lifeOf_def childOk_def)
    then show ?thesis by (auto intro: tracksI)
  next
    case (Some h)
    then have start: "lifeOf ag = LRunning h" using False by (simp add: lifeOf_def)
    show ?thesis
    proof (cases "m_autoShutdown ag \<and> childExited env")
      case True
      then have "agentLog ag' = agentLog ag @ [ClosedHandle h, Scraped]" "lifeOf ag' = LClosing"
          "childOk ag'"
        using scraped pt(1) Some by (simp_all add: checkChildExit_def lifeOf_def childOk_def)
      then show ?thesis using start by (auto intro: tracksI)
    next
      case False
      then have "checkChildExit env ag = ag" using Some by (auto simp: checkChildExit_def)
      then have "agentLog ag' = agentLog ag @ [Scraped]" "lifeOf ag' = lifeOf ag" "childOk ag' = childOk ag"
        using scraped pt(1) by (simp_all add: lifeOf_def childOk_def)
      then show ?thesis using start assms(3) by (auto intro: tracksI)
    qed
  qed
  ultimately show ?thesis by blast
qed

lemma onPollTimeout_good:
  assumes "onPollTimeout env ag = Some ag'" and "consoleOk (consoleEnv env)"
  shows "good ag ag'"
proof -
  define ag0 where "ag0 = ag\<lparr>m_consoleInput := updateInputFlags (inputEnv env) (m_consoleInput ag)\<rparr>"
  obtain mouse ag1 ag3 ag4 where
      1: "runConsoleInput (flushIncompleteEscapeCode (inputEnv env)) ag0 = Some ag1" and
      3: "(if \<not> m_closingOutputPipes ag1 then do {
               a \<leftarrow> syncConsoleTitle env (checkChildExit env ag1);
               scrapeBuffers env a
             }
             else Some (checkChildExit env ag1)) = Some ag3" and
      4: "withTerminal (enableMouseMode (mouse \<and> \<not> m_closingOutputPipes ag3)) ag3 = Some ag4" and
      5: "autoClosePipesForShutdown ag4 = Some ag'"
    using assms(1) by (auto simp: onPollTimeout_def bind_eq_Some Let_def ag0_def)
  have "good ag ag0"
    by (rule good_channels) (simp_all add: ag0_def pipesOk_def mouseOk_def)
  moreover have "good ag0 ag1" by (rule good_onlyOutput [OF runConsoleInput_onlyOutput [OF 1]])
  moreover have "good ag1 ag4"
    using exitAndScrape [OF 3 _ _ assms(2)] withTerminal_result [OF 4]
    by (auto simp: good_def intro: tracks_trans tracks_same)
  moreover have "good ag4 ag'" by (rule autoClose_good [OF 5])
  ultimately show ?thesis using good_trans by blast
qed

lemma pollConinPipe_good:
  assumes "pollConinPipe env ag = Some ag'"
  shows "good ag ag'"
proof -
  note facts = pollConinPipe_facts [OF assms]
  have "good ag (ag\<lparr>m_coninPipe := m_coninPipe ag'\<rparr>)"
    using facts(2) by (intro good_channels) (auto simp: pipesOk_def mouseOk_def intro: pipeOk_readAll)
  then show ?thesis using good_onlyOutput [OF facts(1)] good_trans by blast
qed

lemma onPipeIo_good:
  assumes "onPipeIo env pid ag = Some (Inr ag')" and "consoleOk (consoleEnv env)"
  shows "good ag ag'"
proof (cases pid)
  case ControlPipe
  then have poll: "pollControlPipe env ag = Some (Inr ag')" using assms(1) by (simp add: onPipeIo_def)
  show ?thesis
  proof (cases "isClosed (m_controlPipe ag)")
    case True
    then have "ag' = shutdown ag" using poll by (simp add: pollControlPipe_def)
    then show ?thesis by (intro good_channels) (auto simp: shutdown_def pipesOk_def mouseOk_def)
  next
    case False
    then have "pollControlLoop env ag = Some (Inr ag')" using poll by (simp add: pollControlPipe_def)
    moreover have "pipesOk ag \<Longrightarrow> hasMode (openMode (m_controlPipe ag)) Reading"
      by (simp add: pipesOk_def pipeOk_def)
    ultimately show ?thesis using pollControlLoop_good assms(2) by (fastforce simp: good_def)
  qed
qed (use assms in \<open>auto simp: onPipeIo_def intro: pollConinPipe_good autoClose_good\<close>)

lemma turnPipe_parts:
  assumes "turnPipe env ans pid ag = Some (Inr (did, waits, ag'))"
  shows "\<exists>ag1. servicePipe ans pid ag = Some (did, waits, ag1) \<and>
     (if did then onPipeIo env pid ag1 = Some (Inr ag') else ag' = ag1)"
  using assms by (auto simp: turnPipe_def bind_eq_Some obind_Inr split: if_splits)

lemma turnPipe_good:
  assumes "turnPipe env ans pid ag = Some (Inr (did, waits, ag'))" and "answersOk ans" and "consoleOk (consoleEnv env)"
  shows "good ag ag'"
proof -
  obtain ag1 where s: "servicePipe ans pid ag = Some (did, waits, ag1)"
      "if did then onPipeIo env pid ag1 = Some (Inr ag') else ag' = ag1"
    using turnPipe_parts [OF assms(1)] by blast
  have "good ag1 ag'" using s(2) assms(3) by (auto split: if_splits intro: onPipeIo_good)
  then show ?thesis using servicePipe_good [OF s(1) assms(2)] good_trans by blast
qed

lemma turnPipes_parts:
  assumes "turnPipes env ans (pid # pids) ag = Some (Inr (did, waits, ag'))"
  shows "\<exists>did1 waits1 ag1 did2 waits2. turnPipe env ans pid ag = Some (Inr (did1, waits1, ag1)) \<and>
     turnPipes env ans pids ag1 = Some (Inr (did2, waits2, ag')) \<and> did = (did1 \<or> did2) \<and> waits = waits1 @ waits2"
  using assms by (auto simp: obind_Inr split: prod.splits)

lemma turnPipes_induct:
  assumes "turnPipes env ans pids ag = Some (Inr (did, waits, ag'))" and "P ag"
    and "\<And>pid ag did waits ag'. turnPipe env ans pid ag = Some (Inr (did, waits, ag')) \<Longrightarrow> P ag \<Longrightarrow> P ag'"
  shows "P ag'"
  using assms(1, 2)
proof (induction pids arbitrary: ag did waits)
  case (Cons pid pids)
  obtain did1 waits1 ag1 did2 waits2 where "turnPipe env ans pid ag = Some (Inr (did1, waits1, ag1))"
      "turnPipes env ans pids ag1 = Some (Inr (did2, waits2, ag'))"
    using turnPipes_parts [OF Cons.prems(1)] by blast
  then show ?case using Cons.IH assms(3) Cons.prems(2) by blast
qed simp

lemma loopTurn_parts:
  assumes "loopTurn env ans ag = Some (Inr (did, waits, ag'))"
  shows "\<exists>did1 ag1. turnPipes env ans [ControlPipe, ConinPipe, ConoutPipe, ConerrPipe] ag = Some (Inr (did1, waits, ag1)) \<and>
     (if intervalElapsed ans then did \<and> onPollTimeout env ag1 = Some ag' else did = did1 \<and> ag' = ag1)"
proof -
  obtain did1 waits1 ag1 where
      "turnPipes env ans [ControlPipe, ConinPipe, ConoutPipe, ConerrPipe] ag = Some (Inr (did1, waits1, ag1))"
      "(if intervalElapsed ans
     then map_option (\<lambda>ag2. Inr (True, waits1, ag2)) (onPollTimeout env ag1)
     else Some (Inr (did1, waits1, ag1))) = (Some (Inr (did, waits, ag')) :: (bool \<times> WaitHandle list \<times> AgentState) outcome)"
    using assms unfolding loopTurn_def obind_Inr by auto
  then show ?thesis by (cases "intervalElapsed ans") auto
qed

lemma loopTurn_good:
  assumes "loopTurn env ans ag = Some (Inr (did, waits, ag'))" and "answersOk ans" and "consoleOk (consoleEnv env)"
  shows "good ag ag'"
proof -
  obtain did1 ag1 where t: "turnPipes env ans [ControlPipe, ConinPipe, ConoutPipe, ConerrPipe] ag = Some (Inr (did1, waits, ag1))"
      "if intervalElapsed ans then did \<and> onPollTimeout env ag1 = Some ag' else did = did1 \<and> ag' = ag1"
    using loopTurn_parts [OF assms(1)] by blast
  have "good ag ag1"
    by (rule turnPipes_induct [OF t(1)]) (use turnPipe_good assms(2, 3) good_trans in \<open>blast+\<close> | simp)+
  moreover have "good ag1 ag'" using t(2) assms(3) by (auto split: if_splits intro: onPollTimeout_good)
  ultimately show ?thesis using good_trans by blast
qed

section \<open>The reachable states\<close>

lemma hasMode_simps [simp]:
  "hasMode Reading Reading" "\<not> hasMode Reading Writing" "hasMode Writing Writing"
  "\<not> hasMode Writing Reading"
  by (simp_all add: hasMode_def)

lemma connect_openMode:
  "connectToServer ok name mode p = Some p' \<Longrightarrow> openMode p' = mode"
  "openServerPipe d c a name mode p = Some p' \<Longrightarrow> openMode p' = mode"
  "connectToServer ok name mode p = Some p' \<Longrightarrow> readBufSize p' = readBufSize p"
  "openServerPipe d c a name mode p = Some p' \<Longrightarrow> readBufSize p' = readBufSize p"
  by (auto simp: connectToServer_def openServerPipe_def ASSERT_bind_Some Let_def split: ConnectAnswer.splits)

lemma pipeOk_grow:
  assumes "setReadBufferSize n p = Some p'" and "pipeInv p" and "openMode p = mode"
    and "readBufSize p = 64 * 1024" and "64 * 1024 \<le> n"
  shows "pipeOk mode p'"
  using pipeInv_grow [OF assms(2, 1)] assms
  by (auto simp: pipeOk_def setReadBufferSize_def ASSERT_bind_Some)

lemma newPipe_cap: "readBufSize newPipe = 64 * 1024"
  by (simp add: newPipe_def)

lemma controlPipe_ok:
  assumes "connectToControlPipe name = Some p"
  shows "pipeOk Duplex p"
proof -
  obtain q where q: "connectToServer True name Duplex newPipe = Some q"
      "setReadBufferSize (64 * 1024) q = Some p"
    using assms unfolding connectToControlPipe_def bind_eq_Some by blast
  show ?thesis
    by (rule pipeOk_grow [OF q(2) pipeInv_connect [OF pipeInv_new q(1)]])
      (use connect_openMode(1, 3) [OF q(1)] in \<open>simp_all add: newPipe_cap\<close>)
qed

lemma dataPipe_ok:
  assumes "createDataServerPipe toWrite a name = Some p"
  shows "pipeOk (if toWrite then Writing else Reading) p"
proof -
  obtain q where q: "openServerPipe True True a name (if toWrite then Writing else Reading) newPipe = Some q"
      "(if toWrite then Some q else setReadBufferSize (64 * 1024) q) = Some p"
    using assms unfolding createDataServerPipe_def bind_eq_Some by blast
  note inv = pipeInv_openServer [OF pipeInv_new q(1)]
  note modes = connect_openMode(2) [OF q(1)] connect_openMode(4) [OF q(1)]
  show ?thesis
  proof (cases toWrite)
    case True
    then show ?thesis using q(2) inv modes by (simp add: pipeOk_def newPipe_cap)
  next
    case False
    then have "setReadBufferSize (64 * 1024) q = Some p" using q(2) by simp
    then show ?thesis
      by (rule pipeOk_grow [OF _ inv]) (use modes False in \<open>simp_all add: newPipe_cap\<close>)
  qed
qed

lemmas dataPipes_ok = dataPipe_ok [of True, simplified] dataPipe_ok [of False, simplified]

lemma newAgent_ok:
  assumes "newAgent env names connect agentFlags mouse cols rows = Some (Inr ag)"
  shows "pipesOk ag \<and> childOk ag \<and> mouseOk ag \<and> agentLog ag = [] \<and> lifeOf ag = LIdle"
proof -
  obtain useErr plain color sz h eb con control conin conout conerr control1 where
      eb: "eb \<noteq> None \<longleftrightarrow> useErr" "\<not> m_frozen con" and
      c: "connectToControlPipe (controlName names) = Some control"
      "createDataServerPipe False (connect ConinPipe) (coninName names) = Some conin"
      "createDataServerPipe True (connect ConoutPipe) (conoutName names) = Some conout"
      "(if useErr then map_option Some (createDataServerPipe True (connect ConerrPipe) (conerrName names))
        else Some None) = Some conerr" and
      w: "sendPacket (setupPacket useErr names) control = Some (Inr control1)" and
      s: "startConsole env mouse useErr plain color sz h eb con control1 conin conout conerr = Some ag"
    using newAgent_parts [OF assms] by (elim exE conjE) (rule that)
  note facts = startConsole_facts [OF s eb(2, 1)]
  have "(conerr \<noteq> None \<longleftrightarrow> useErr) \<and> (\<forall>p. conerr = Some p \<longrightarrow> pipeOk Writing p)"
    using c(4) dataPipes_ok(1) by (auto split: if_splits)
  moreover have "pipeOk Duplex control1" "pipeOk Reading conin" "pipeOk Writing conout"
    using pipeOk_appended [OF sendPacket_appended [OF w] controlPipe_ok [OF c(1)]] dataPipes_ok(2) [OF c(2)]
      dataPipes_ok(1) [OF c(3)] by blast+
  ultimately have "pipesOk ag" unfolding pipesOk_def using facts(1-16) by simp
  then show ?thesis
    using facts(7-9) facts(16) by (simp add: childOk_def mouseOk_def lifeOf_def)
qed

lemma reachable_good:
  "agentReachable ag \<Longrightarrow> pipesOk ag \<and> childOk ag \<and> mouseOk ag \<and>
     foreach lifeStep (agentLog ag) LIdle = Some (lifeOf ag)"
proof (induction rule: agentReachable.induct)
  case (start env names connect agentFlags mouse cols rows ag)
  then show ?case using newAgent_ok [OF start] by simp
next
  case (step ag ag')
  then obtain env ans did waits where "loopTurn env ans ag = Some (Inr (did, waits, ag'))" "answersOk ans"
      "consoleOk (consoleEnv env)"
    by (auto elim: agentStepE)
  then have "good ag ag'" by (rule loopTurn_good)
  then show ?case using step.IH by (auto simp: good_def tracks_def foreach_append)
qed

section \<open>Properties\<close>

text \<open>
  C17. Every state that the agent reaches is well typed: the control pipe is duplex, CONIN is
  open for reading only and CONOUT and CONERR for writing only, CONERR and its scraper exist exactly
  when they were asked for, the pipes keep their invariant with read buffers of at least 64 KB, plain
  mode never turns the terminal's mouse mode on, and once the output pipes are being closed the
  mouse mode is off and no child process is left. Between two turns the console window is never
  left frozen.
\<close>

theorem reachable_well_typed:
  assumes "agentReachable ag"
  shows "pipesOk ag \<and> mouseOk ag \<and> childOk ag"
  using reachable_good [OF assms] by simp

text \<open>
  C1. The agent implements the abstract life cycle of its child process: in every reachable
  state the log of its effects is a run of the machine, from idle to the state that the agent is
  in. So it starts a process only when it has none, closes the handle of the thread at once and
  that of the process only after its exit, and its poll scrapes the console once more after the exit
  and never again (a resize that comes later still redraws).
\<close>

theorem child_lifecycle:
  assumes "agentReachable ag"
  shows "foreach lifeStep (agentLog ag) LIdle = Some (lifeOf ag)"
  using reachable_good [OF assms] by simp

definition isSpawned :: "AgentEffect \<Rightarrow> bool" where
  "isSpawned e \<longleftrightarrow> (case e of Spawned _ _ \<Rightarrow> True | _ \<Rightarrow> False)"

fun spawnsLeft :: "Life \<Rightarrow> nat" where
  "spawnsLeft LIdle = 1"
| "spawnsLeft _ = 0"

lemma lifeStep_spawns:
  "lifeStep e l = Some l' \<Longrightarrow> of_bool (isSpawned e) + spawnsLeft l' = spawnsLeft l"
  by (cases e; cases l) (auto simp: isSpawned_def split: if_splits)

lemma foreach_spawns:
  "foreach lifeStep es l = Some l' \<Longrightarrow> length (filter isSpawned es) + spawnsLeft l' = spawnsLeft l"
  by (induction es arbitrary: l) (auto simp: bind_eq_Some dest!: lifeStep_spawns)

lemma closing_scraped:
  "foreach lifeStep es l = Some LClosing \<Longrightarrow> l \<noteq> LClosing \<Longrightarrow>
     \<exists>pre post. es = pre @ [Scraped] @ post \<and> foreach lifeStep pre l = Some LExited \<and>
       foreach lifeStep post LClosing = Some LClosing"
proof (induction es arbitrary: l)
  case (Cons e es)
  then obtain l1 where l1: "lifeStep e l = Some l1" "foreach lifeStep es l1 = Some LClosing"
    by (auto simp: bind_eq_Some)
  show ?case
  proof (cases "l1 = LClosing")
    case True
    then have "e = Scraped" "l = LExited" using l1(1) Cons.prems(2)
      by (cases e; cases l; auto split: if_splits)+
    then show ?thesis using l1 True by (intro exI [of _ "[]"] exI [of _ es]) simp
  next
    case False
    then obtain pre post where "es = pre @ [Scraped] @ post" "foreach lifeStep pre l1 = Some LExited"
        "foreach lifeStep post LClosing = Some LClosing"
      using Cons.IH [OF l1(2)] by blast
    then show ?thesis using l1 by (intro exI [of _ "e # pre"] exI [of _ post]) simp
  qed
qed simp

lemma exited_closed:
  "foreach lifeStep es l = Some LExited \<Longrightarrow> l \<noteq> LExited \<Longrightarrow> \<exists>pre h. es = pre @ [ClosedHandle h]"
proof (induction es rule: rev_induct)
  case (snoc e es)
  then obtain l1 where "foreach lifeStep es l = Some l1" "lifeStep e l1 = Some LExited"
    by (auto simp: foreach_append bind_eq_Some)
  then have "\<exists>h. e = ClosedHandle h" by (cases e; cases l1) (auto split: if_splits)
  then show ?case by auto
qed simp

lemma closing_quiet:
  "foreach lifeStep es LClosing = Some LClosing \<Longrightarrow> e \<in> set es \<Longrightarrow> e \<noteq> Scraped \<and> \<not> isSpawned e"
proof (induction es)
  case (Cons a es)
  then obtain l1 where l1: "lifeStep a LClosing = Some l1" "foreach lifeStep es l1 = Some LClosing"
    by (auto simp: bind_eq_Some)
  then have "l1 = LClosing" "a \<noteq> Scraped" "\<not> isSpawned a" by (cases a; simp add: isSpawned_def)+
  then show ?case using Cons l1 by auto
qed simp

text \<open>
  C2. An agent creates at most one child process in its life, whatever its clients send; and when
  it closes its output pipes after the exit of the child, the console has been scraped after the
  exit, so the final output of the child has been collected, and is not scraped again.
\<close>

theorem one_child_and_final_scrape:
  assumes "agentReachable ag"
  shows "length (filter isSpawned (agentLog ag)) \<le> 1 \<and>
     (m_closingOutputPipes ag \<longrightarrow> (\<exists>pre h post. agentLog ag = pre @ [ClosedHandle h, Scraped] @ post \<and>
        (\<forall>e \<in> set post. e \<noteq> Scraped \<and> \<not> isSpawned e)))"
proof (intro conjI impI)
  have run: "foreach lifeStep (agentLog ag) LIdle = Some (lifeOf ag)"
    using reachable_good [OF assms] by simp
  show "length (filter isSpawned (agentLog ag)) \<le> 1" using foreach_spawns [OF run] by simp
  assume "m_closingOutputPipes ag"
  then obtain pre post where p: "agentLog ag = pre @ [Scraped] @ post"
      "foreach lifeStep pre LIdle = Some LExited" "foreach lifeStep post LClosing = Some LClosing"
    using closing_scraped [of "agentLog ag" LIdle] run by (auto simp: lifeOf_def)
  obtain pre' h where "pre = pre' @ [ClosedHandle h]" using exited_closed [OF p(2)] by auto
  then show "\<exists>pre h post. agentLog ag = pre @ [ClosedHandle h, Scraped] @ post \<and>
        (\<forall>e \<in> set post. e \<noteq> Scraped \<and> \<not> isSpawned e)"
    using p closing_quiet by (intro exI [of _ pre'] exI [of _ h] exI [of _ post]) auto
qed

section \<open>Closing the output\<close>

lemma allSent_iff:
  assumes "pipeInv p" and "hasMode (openMode p) Writing"
  shows "bytesToSend p = Some n \<Longrightarrow> n = 0 \<longleftrightarrow> delivered p = outStream p"
  using bytesToSend_eq [OF assms] by (auto simp: outStream_def)

definition sentAll :: "'b Pipe \<Rightarrow> bool" where
  "sentAll p \<longleftrightarrow> isConnected p \<and> delivered p = outStream p"

lemma closeWhenSent_eq:
  assumes "pipeOk Writing p"
  shows "closeWhenSent p = Some (if sentAll p then closePipe p else p)"
proof (cases "isConnected p")
  case True
  have inv: "pipeInv p" "hasMode (openMode p) Writing" using assms by (simp_all add: pipeOk_def)
  obtain n where n: "bytesToSend p = Some n" using bytesToSend_eq [OF inv] by blast
  show ?thesis
    using True n allSent_iff [OF inv n] by (simp add: closeWhenSent_def sentAll_def)
qed (simp add: closeWhenSent_def sentAll_def)

text \<open>
  C3. The automatic shutdown loses no output. Once the child has exited, an output pipe is closed
  exactly when its client has connected and every byte that was ever written to it has been
  delivered; and the agent exits, if that was asked for, exactly when the output pipes are closed.
  Before the exit of the child nothing happens.
\<close>

theorem shutdown_loses_no_output:
  assumes "pipesOk ag"
  defines "closing \<equiv> m_closingOutputPipes ag"
  shows "\<exists>ag'. autoClosePipesForShutdown ag = Some ag' \<and>
     m_conoutPipe ag' = (if closing \<and> sentAll (m_conoutPipe ag) then closePipe (m_conoutPipe ag)
       else m_conoutPipe ag) \<and>
     m_conerrPipe ag' = map_option (\<lambda>p. if closing \<and> sentAll p then closePipe p else p) (m_conerrPipe ag) \<and>
     (m_exiting ag' \<longleftrightarrow> m_exiting ag \<or> closing \<and> m_exitAfterShutdown ag \<and> isClosed (m_conoutPipe ag') \<and>
       (\<forall>p. m_conerrPipe ag' = Some p \<longrightarrow> isClosed p))"
proof (cases "m_closingOutputPipes ag")
  case False
  then show ?thesis by (simp add: autoClosePipesForShutdown_def closing_def option.map_ident)
next
  case True
  have out: "closeWhenSent (m_conoutPipe ag) =
      Some (if sentAll (m_conoutPipe ag) then closePipe (m_conoutPipe ag) else m_conoutPipe ag)"
    using assms(1) by (intro closeWhenSent_eq) (simp add: pipesOk_def)
  show ?thesis
  proof (cases "m_conerrPipe ag")
    case None
    then show ?thesis
      using True out by (auto simp: autoClosePipesForShutdown_def closing_def shutdown_def Let_def)
  next
    case (Some q)
    then have "closeWhenSent q = Some (if sentAll q then closePipe q else q)"
      using assms(1) by (intro closeWhenSent_eq) (simp add: pipesOk_def)
    then show ?thesis
      using True out Some by (auto simp: autoClosePipesForShutdown_def closing_def shutdown_def Let_def)
  qed
qed

lemma openPipe_ok: "pipeOk mode (openPipe mode [])"
  by (simp add: pipeOk_def openPipe_def newPipe_def pipeInv_def kIoSize_def)

theorem shutdown_loses_no_output_witness:
  "let ag = (sampleAgent [])\<lparr>m_closingOutputPipes := True, m_exitAfterShutdown := True\<rparr>
   in \<exists>ag'. autoClosePipesForShutdown ag = Some ag' \<and> isClosed (m_conoutPipe ag') \<and> m_exiting ag'"
proof -
  let ?ag = "(sampleAgent [])\<lparr>m_closingOutputPipes := True, m_exitAfterShutdown := True\<rparr>"
  have "pipesOk ?ag"
    by (simp add: pipesOk_def openPipe_ok)
      (simp add: sampleAgent_def openPipe_ok sampleScraper_def newConsole_def)
  note closed = shutdown_loses_no_output [OF this]
  have "sentAll (m_conoutPipe ?ag)" "m_conerrPipe ?ag = None" "isClosed (closePipe (m_conoutPipe ?ag))"
    by (simp_all add: sampleAgent_def sentAll_def outStream_def openPipe_def newPipe_def newWorker_def
        isConnected_def isClosed_def isConnecting_def inFlight_def closePipe_def)
  then show ?thesis using closed by (auto simp: Let_def)
qed

section \<open>A run of the agent\<close>

definition sampleNames :: AgentNames where
  "sampleNames = \<lparr>controlName = [], coninName = [0x69], conoutName = [0x6F], conerrName = []\<rparr>"

definition startedAgent :: "ConsoleInputState \<Rightarrow> ConsoleState \<Rightarrow> ScraperState \<Rightarrow> AgentState" where
  "startedAgent st con sc = (sampleAgent [])
     \<lparr>m_controlPipe := (openPipe Duplex [])\<lparr>outQueue := frame (drop 8 (setupPacket False sampleNames))\<rparr>,
      m_coninPipe := newPipe\<lparr>pipeName := [0x69], handleOpen := True, openMode := Reading, connecting := True\<rparr>,
      m_conoutPipe := newPipe\<lparr>pipeName := [0x6F], handleOpen := True, openMode := Writing, connecting := True\<rparr>,
      m_consoleInput := st, theConsole := con, m_primaryScraper := sc\<rparr>"

lemma openPipe_outQueue [simp]: "outQueue (openPipe mode q) = []"
  by (simp add: openPipe_def newPipe_def)

lemma sampleConsoleInput: "\<exists>st. newConsoleInput sample_env sample_env 1 = Some st"
  by (simp add: newConsoleInput_def default_table Let_def)

lemma sampleControl: "connectToControlPipe [] = Some (openPipe Duplex [])"
  by (simp add: connectToControlPipe_def connectToServer_def newPipe_def isClosed_def setReadBufferSize_def
      openPipe_def startPipeWorkers_def hasMode_def)

lemma sampleData:
  "createDataServerPipe toWrite ConnectPending name = Some (newPipe\<lparr>pipeName := name, handleOpen := True,
     openMode := (if toWrite then Writing else Reading), connecting := True\<rparr>)"
  by (simp add: createDataServerPipe_def openServerPipe_def newPipe_def isClosed_def setReadBufferSize_def
      hasMode_def)

lemma writePacket_frame:
  assumes "hasMode (openMode (m_controlPipe ag)) Writing"
    and "8 \<le> length packet" and "length packet \<le> VT7PTY_MAX_CONTROL_PACKET_BYTES"
  shows "writePacket packet ag = Some (Inr (ag\<lparr>m_controlPipe := (m_controlPipe ag)\<lparr>outQueue :=
    outQueue (m_controlPipe ag) @ frame (drop 8 packet)\<rparr>\<rparr>))"
  using assms by (simp add: writePacket_eq replaceRawData_def pipeWrite_def frame_def)

lemma sampleScraper_started:
  "\<exists>con s. startScraper sampleConsole 1 (newTerminal False True) (mkCoord 80 25) newConsole p = Some (con, s, p)"
proof -
  obtain s where s: "newScraper sampleConsole 1 (newTerminal False True) (mkCoord 80 25) newConsole = Some s"
    using newScraper_ok [OF sampleConsole_ok, of "newTerminal False True" "mkCoord 80 25" 1 newConsole]
    by (auto simp: mkCoord_def MAX_CONSOLE_HEIGHT_def)
  then show ?thesis
    using newScraper_silent [OF s] by (simp add: startScraper_def flushTerminal_def)
qed

lemma sendPacket_frame:
  assumes "hasMode (openMode p) Writing"
    and "8 \<le> length packet" and "length packet \<le> VT7PTY_MAX_CONTROL_PACKET_BYTES"
  shows "sendPacket packet p = Some (Inr (p\<lparr>outQueue := outQueue p @ frame (drop 8 packet)\<rparr>))"
  using assms by (simp add: sendPacket_def replaceRawData_def pipeWrite_def frame_def)

lemma startedAgent_new:
  "\<exists>st con sc. newAgent (sampleAgentEnv answer (\<lambda>_. None)) sampleNames (\<lambda>_. ConnectPending) 0 1 80 25 =
     Some (Inr (startedAgent st con sc))"
proof -
  obtain st where st: "newConsoleInput sample_env sample_env 1 = Some st" using sampleConsoleInput by blast
  have env: "inputEnv (sampleAgentEnv answer (\<lambda>_. None)) = sample_env"
      "consoleEnv (sampleAgentEnv answer (\<lambda>_. None)) = sampleConsole"
      "openPrimaryBuffer (sampleAgentEnv answer (\<lambda>_. None)) False = Some 1"
    by (simp_all add: sampleAgentEnv_def openPrimaryBuffer_def)
  have detect: "detectNewWindows10Console sampleConsole 1 newConsole = Some newConsole"
    by (simp add: detectNewWindows10Console_def sampleConsole_def)
  have size: "length (setupPacket False sampleNames) \<le> VT7PTY_MAX_CONTROL_PACKET_BYTES"
      "8 \<le> length (setupPacket False sampleNames)"
    by (simp_all add: setupPacket_def sampleNames_def put_defs newPacket_def writeAgentHandshake_def
        VT7PTY_AGENT_IDENTITY_def wliteral_def VT7PTY_MAX_CONTROL_PACKET_BYTES_def)
  have narrow: "checkedNarrow SHORT_range (min 80 MAX_CONSOLE_WIDTH) = Some 80"
      "checkedNarrow SHORT_range (min 25 MAX_CONSOLE_HEIGHT) = Some 25"
    by (simp_all add: checkedNarrow_eq isNarrowable_def range_defs MAX_CONSOLE_WIDTH_def MAX_CONSOLE_HEIGHT_def)
  have names: "controlName sampleNames = []" "coninName sampleNames = [0x69]" "conoutName sampleNames = [0x6F]"
    by (simp_all add: sampleNames_def)
  let ?conout = "newPipe\<lparr>pipeName := [0x6F], handleOpen := True, openMode := Writing, connecting := True\<rparr>"
  obtain con sc where scraper: "startScraper sampleConsole 1 (newTerminal False True) (mkCoord 80 25) newConsole
      ?conout = Some (con, sc, ?conout)"
    using sampleScraper_started by blast
  show ?thesis
    by (rule exI [of _ st], rule exI [of _ "setTitle [0x20] con"], rule exI [of _ sc])
      (simp add: newAgent_def startConsole_def st env narrow names sampleControl sampleData sendPacket_frame size
        detect scraper startErrorScraper_def startedAgent_def sampleAgent_def Let_def)
qed

text \<open>The client sends one packet; the data pipes are not connected yet.\<close>

definition idleAnswers :: "'b IoAnswer list \<Rightarrow> 'b ServiceAnswers" where
  "idleAnswers reads = \<lparr>connectAnswer = ConnectPending, readOverlapped = IoPending, readAnswers = reads,
     writeOverlapped = IoPending, writeAnswers = []\<rparr>"

definition packetTurn :: "u8 list \<Rightarrow> TurnAnswers" where
  "packetTurn packet = \<lparr>controlAns = idleAnswers [IoDone (length packet) packet], coninAns = idleAnswers [],
     conoutAns = idleAnswers [], conerrAns = idleAnswers [], intervalElapsed = False\<rparr>"

lemma serviceIo_waiting:
  assumes "p = newPipe\<lparr>pipeName := name, handleOpen := True, openMode := mode, connecting := True\<rparr>"
  shows "serviceIo (idleAnswers reads) p = Some (False, [ConnectEvent], p)"
  using assms by (simp add: serviceIo_def connectStage_def idleAnswers_def serviceOne_def newPipe_def waitEventOf_def)

lemma serviceIo_packet:
  assumes "packet \<noteq> []" and "length packet < 64 * 1024"
  shows "\<exists>waits p. serviceIo (idleAnswers [IoDone (length packet) packet]) ((openPipe Duplex [])\<lparr>outQueue := out\<rparr>) =
      Some (True, waits, p) \<and> inQueue p = packet \<and> openMode p = Duplex \<and> handleOpen p"
  using assms
  by (cases "out = []")
    (simp_all add: serviceIo_def connectStage_def idleAnswers_def openPipe_def newPipe_def startPipeWorkers_def
      serviceOne_def service_def serviceLoop.simps newWorker_def isConnecting_def isClosed_def kIoSize_def
      checkedNarrow_eq isNarrowable_def range_defs hasMode_def Let_def)

definition sampleSpawn :: AgentRequest where
  "sampleSpawn = StartProcess 1 True False [] [0x61] [] []"

lemma sampleSpawn_packet:
  "8 + length (encodeRequest sampleSpawn []) \<le> 100"
  by (simp add: sampleSpawn_def put_defs)

lemma sampleRun:
  "\<exists>ag call. agentReachable ag \<and> agentLog ag = [Spawned call 100, ClosedHandle 200]"
proof -
  let ?env = "sampleAgentEnv (Created 100 200) (\<lambda>_. None)" and ?payload = "encodeRequest sampleSpawn []"
  let ?packet = "frame ?payload"
  obtain st con sc where new:
      "newAgent ?env sampleNames (\<lambda>_. ConnectPending) 0 1 80 25 = Some (Inr (startedAgent st con sc))"
    using startedAgent_new by blast
  define ag where "ag = startedAgent st con sc"
  have pipes: "m_controlPipe ag = (openPipe Duplex [])\<lparr>outQueue := frame (drop 8 (setupPacket False sampleNames))\<rparr>"
      "m_coninPipe ag = newPipe\<lparr>pipeName := [0x69], handleOpen := True, openMode := Reading, connecting := True\<rparr>"
      "m_conoutPipe ag = newPipe\<lparr>pipeName := [0x6F], handleOpen := True, openMode := Writing, connecting := True\<rparr>"
      "m_conerrPipe ag = None" "agentLog ag = []" "m_exiting ag = False" "busy ag = False"
    by (simp_all add: ag_def startedAgent_def sampleAgent_def busy_def)
  have len: "?packet \<noteq> []" "length ?packet < 64 * 1024" "8 \<le> length ?packet"
    using sampleSpawn_packet by (auto simp: frame_def leBytes_def)
  obtain waits p where p: "serviceIo (idleAnswers [IoDone (length ?packet) ?packet]) (m_controlPipe ag) =
      Some (True, waits, p)" "inQueue p = ?packet" "openMode p = Duplex" "handleOpen p"
    using serviceIo_packet [OF len(1, 2)] pipes(1) by metis
  define ag1 where "ag1 = ag\<lparr>m_controlPipe := p\<rparr>"
  have mode: "hasMode (openMode (m_controlPipe ag1)) Reading" "hasMode (openMode p) Writing"
    using p by (simp_all add: ag1_def)
  have next1: "nextFrame (inQueue (m_controlPipe ag1)) = WholeFrame ?packet []"
    using nextFrame_frame [of ?payload "[]"] sampleSpawn_packet p(2)
    by (simp add: ag1_def VT7PTY_MAX_CONTROL_PACKET_BYTES_def)
  define ag2 where "ag2 = withInput [] (readBufSize (m_controlPipe ag1)) ag1"
  have "validRequest (growString ?env) False sampleSpawn"
    by (simp add: sampleSpawn_def sendable_def sampleAgentEnv_def SIZE_MAX_def
        VT7PTY_SPAWN_FLAG_MASK_def VT7PTY_SPAWN_FLAG_AUTO_SHUTDOWN_def VT7PTY_SPAWN_FLAG_EXIT_AFTER_SHUTDOWN_def)
  then have "pRequest (growString ?env) False ?payload = Inr (sampleSpawn, [])" by (simp add: pRequest_Inr)
  moreover have "busy ag2 = False" using pipes by (simp add: ag2_def ag1_def busy_def)
  ultimately have performed: "handlePacket ?env ?packet ag2 = performRequest ?env sampleSpawn ag2"
    by (subst handlePacket_eq [OF len(3)]) (simp add: frame_def)
  moreover have "\<exists>call ag3. performRequest ?env sampleSpawn ag2 = Some (Inr ag3) \<and>
      agentLog ag3 = agentLog ag2 @ [Spawned call 100, ClosedHandle 200]"
    using mode(2)
    by (simp add: sampleSpawn_def startProcess_def sampleAgentEnv_def Let_def wantedHandle_def writePacket_frame
        VT7PTY_MAX_CONTROL_PACKET_BYTES_def ag2_def ag1_def)
  ultimately obtain call ag3 where h: "handlePacket ?env ?packet ag2 = Some (Inr ag3)"
      "agentLog ag3 = [Spawned call 100, ClosedHandle 200]"
    using pipes(5) by (auto simp: ag2_def ag1_def withInput_def)
  note keep = handlePacket_keeps [OF h(1)]
  have "pollControlLoop ?env ag3 = Some (Inr ag3)"
    using keep mode(1) by (subst pollControlLoop_step) (simp_all add: ag2_def nextFrame_def)
  then have "pollControlPipe ?env ag1 = Some (Inr ag3)"
    using pollControlLoop_step [OF mode(1), of ?env] next1 h p(4)
    by (simp add: pollControlPipe_def isClosed_def ag1_def flip: ag2_def)
      (simp add: ag2_def ag1_def)
  then have 1: "turnPipe ?env (packetTurn ?packet) ControlPipe ag = Some (Inr (True, map (Pair ControlPipe) waits, ag3))"
    using p(1) by (simp add: turnPipe_def servicePipe_def onPipeIo_def packetTurn_def ag1_def)
  have "sameChannels ag2 ag3 \<and> sameConsole ag2 ag3"
    using performed h(1) by (auto simp: sampleSpawn_def dest!: startProcess_same)
  then have same: "m_coninPipe ag3 = m_coninPipe ag" "m_conoutPipe ag3 = m_conoutPipe ag" "m_conerrPipe ag3 = None"
    using pipes by (simp_all add: sameChannels_def sameConsole_def ag2_def ag1_def withInput_def)
  have "\<exists>w. turnPipe ?env (packetTurn ?packet) pid ag3 = Some (Inr (False, w, ag3))" if "pid \<noteq> ControlPipe" for pid
    using that same serviceIo_waiting [OF pipes(2)] serviceIo_waiting [OF pipes(3)]
    by (cases pid) (simp_all add: turnPipe_def servicePipe_def packetTurn_def)
  then obtain w where "\<forall>pid. pid \<noteq> ControlPipe \<longrightarrow> turnPipe ?env (packetTurn ?packet) pid ag3 = Some (Inr (False, w pid, ag3))"
    by metis
  then obtain did w' where "loopTurn ?env (packetTurn ?packet) ag = Some (Inr (did, w', ag3))"
    using 1 by (simp add: loopTurn_def packetTurn_def)
  moreover have "answersOk (packetTurn ?packet)"
    using len(2) by (simp add: answersOk_def packetTurn_def answersFit_def idleAnswers_def fitsBuffer_def kIoSize_def)
  moreover have "consoleOk (consoleEnv ?env)" using sampleConsole_ok by (simp add: sampleAgentEnv_def)
  ultimately have "agentStep ag ag3" using pipes(6) by (intro agentStep.turn) simp_all
  then have "agentReachable ag3" using agentReachable.start [OF new] ag_def agentReachable.step by blast
  then show ?thesis using h(2) by blast
qed

theorem reachable_well_typed_witness:
  "\<exists>ag call. agentReachable ag \<and> agentLog ag = [Spawned call 100, ClosedHandle 200] \<and>
     pipesOk ag \<and> mouseOk ag \<and> childOk ag"
  using sampleRun reachable_well_typed by blast

theorem child_lifecycle_witness:
  "\<exists>ag call. agentReachable ag \<and> agentLog ag = [Spawned call 100, ClosedHandle 200] \<and>
     lifeOf ag = LRunning 100"
proof -
  obtain ag call where run: "agentReachable ag" "agentLog ag = [Spawned call 100, ClosedHandle 200]"
    using sampleRun by blast
  then show ?thesis using child_lifecycle [OF run(1)] by auto
qed

theorem one_child_and_final_scrape_witness:
  "\<exists>ag. agentReachable ag \<and> length (filter isSpawned (agentLog ag)) = 1"
proof -
  obtain ag call where run: "agentReachable ag" "agentLog ag = [Spawned call 100, ClosedHandle 200]"
    using sampleRun by blast
  then have "length (filter isSpawned (agentLog ag)) \<le> 1" "isSpawned (Spawned call 100)"
    using one_child_and_final_scrape [OF run(1)] by (simp_all add: isSpawned_def)
  then have "length (filter isSpawned (agentLog ag)) = 1" using run(2) by simp
  then show ?thesis using run(1) by blast
qed

end
