(* ===== verification/Client.thy ===== *)
theory Client
  imports ControlChannel AgentLoop
begin

text \<open>
  The client library (src/libvt7pty/vt7pty.cc, src/libvt7pty/AgentLocation.cc): its control pipe,
  the start of the agent and the remote calls. A function may end the process (a failed
  assertion, \<^term>\<open>None\<close>), throw or return, and keeps its state in all cases but the first.
  The answers of Windows to the reads and writes of the control pipe are a list in the state;
  when it is used up, every further call stays pending until the timeout.
\<close>

section \<open>State and errors\<close>

text \<open>How an overlapped call ends, and what the wait for a pending call returns.\<close>

datatype Completion = Success nat "u8 list" | Failure u32

datatype WaitAnswer = IoSignaled Completion | AgentExited | WaitTimeout | WaitFailed u32 | WaitOther

record Client =
  agentProcess :: u64
  controlOpen :: bool
  agentTimeoutMs :: u32
  coninPipeName :: wstring
  conoutPipeName :: wstring
  conerrPipeName :: wstring
  ioAnswers :: "(Completion \<times> WaitAnswer) list"
  written :: "u8 list"

definition newClient :: "(Completion \<times> WaitAnswer) list \<Rightarrow> Client" where
  "newClient answers = \<lparr>agentProcess = 0, controlOpen = False, agentTimeoutMs = 0, coninPipeName = [],
     conoutPipeName = [], conerrPipeName = [], ioAnswers = answers, written = []\<rparr>"

type_synonym 'a io = "Client \<Rightarrow> ((Exn + 'a) \<times> Client) option"

definition ioReturn :: "'a \<Rightarrow> 'a io" where "ioReturn x c = Some (Inr x, c)"
definition ioThrow :: "Exn \<Rightarrow> 'a io" where "ioThrow e c = Some (Inl e, c)"

definition ioBind :: "'a io \<Rightarrow> ('a \<Rightarrow> 'd io) \<Rightarrow> 'd io" where
  "ioBind m f c = (case m c of
      None \<Rightarrow> None
    | Some (Inl e, c') \<Rightarrow> Some (Inl e, c')
    | Some (Inr x, c') \<Rightarrow> f x c')"

text \<open>An assertion or a checked conversion within a call.\<close>

definition ioTry :: "'a option \<Rightarrow> 'a io" where
  "ioTry m c = map_option (\<lambda>x. (Inr x, c)) m"

definition VT7PTY_ERROR_SUCCESS :: int where "VT7PTY_ERROR_SUCCESS = 0"
definition VT7PTY_ERROR_OUT_OF_MEMORY :: int where "VT7PTY_ERROR_OUT_OF_MEMORY = 1"
definition VT7PTY_ERROR_SPAWN_CREATE_PROCESS_FAILED :: int where
  "VT7PTY_ERROR_SPAWN_CREATE_PROCESS_FAILED = 2"
definition VT7PTY_ERROR_LOST_CONNECTION :: int where "VT7PTY_ERROR_LOST_CONNECTION = 3"
definition VT7PTY_ERROR_AGENT_EXE_MISSING :: int where "VT7PTY_ERROR_AGENT_EXE_MISSING = 4"
definition VT7PTY_ERROR_UNSPECIFIED :: int where "VT7PTY_ERROR_UNSPECIFIED = 5"
definition VT7PTY_ERROR_AGENT_DIED :: int where "VT7PTY_ERROR_AGENT_DIED = 6"
definition VT7PTY_ERROR_AGENT_TIMEOUT :: int where "VT7PTY_ERROR_AGENT_TIMEOUT = 7"
definition VT7PTY_ERROR_AGENT_CREATION_FAILED :: int where "VT7PTY_ERROR_AGENT_CREATION_FAILED = 8"
definition VT7PTY_ERROR_AGENT_INCOMPATIBLE :: int where "VT7PTY_ERROR_AGENT_INCOMPATIBLE = 9"

definition ERROR_BROKEN_PIPE :: u32 where "ERROR_BROKEN_PIPE = 109"
definition ERROR_NO_DATA :: u32 where "ERROR_NO_DATA = 232"
definition ERROR_PIPE_NOT_CONNECTED :: u32 where "ERROR_PIPE_NOT_CONNECTED = 233"
definition ERROR_PIPE_CONNECTED :: u32 where "ERROR_PIPE_CONNECTED = 535"
definition ERROR_IO_PENDING :: u32 where "ERROR_IO_PENDING = 997"

text \<open>An error object; \<^term>\<open>None\<close> is the null pointer, and a message is the text it points to.\<close>

record ApiError =
  errCode :: int
  errMsg :: wstring

definition kOutOfMemory :: ApiError where
  "kOutOfMemory = \<lparr>errCode = VT7PTY_ERROR_OUT_OF_MEMORY, errMsg = wliteral ''Out of memory''\<rparr>"
definition kBadRpcPacket :: ApiError where
  "kBadRpcPacket = \<lparr>errCode = VT7PTY_ERROR_UNSPECIFIED, errMsg = wliteral ''Bad RPC packet''\<rparr>"
definition kUncaughtException :: ApiError where
  "kUncaughtException =
     \<lparr>errCode = VT7PTY_ERROR_UNSPECIFIED, errMsg = wliteral ''Uncaught C++ exception''\<rparr>"

definition vt7pty_error_code :: "ApiError option \<Rightarrow> int" where
  "vt7pty_error_code err = (case err of Some e \<Rightarrow> errCode e | None \<Rightarrow> VT7PTY_ERROR_SUCCESS)"

definition vt7pty_error_msg :: "ApiError option \<Rightarrow> wstring" where
  "vt7pty_error_msg err = (case err of Some e \<Rightarrow> errMsg e | None \<Rightarrow> wliteral ''Success'')"

fun translateException :: "Exn \<Rightarrow> ApiError" where
  "translateException DecodeError = kBadRpcPacket"
| "translateException (ClientException code msg) = \<lparr>errCode = code, errMsg = msg\<rparr>"
| "translateException (GeneralException msg) = \<lparr>errCode = VT7PTY_ERROR_UNSPECIFIED, errMsg = msg\<rparr>"
| "translateException BadAlloc = kOutOfMemory"
| "translateException LengthError = kUncaughtException"

text \<open>\<open>API_TRY\<close> and \<open>API_CATCH\<close>: the result with the error object, and the state.\<close>

definition apiCall :: "'a \<Rightarrow> 'a io \<Rightarrow> Client \<Rightarrow> (('a \<times> ApiError option) \<times> Client) option" where
  "apiCall ret body c = (case body c of
      None \<Rightarrow> None
    | Some (Inl e, c') \<Rightarrow> Some ((ret, Some (translateException e)), c')
    | Some (Inr x, c') \<Rightarrow> Some ((x, None), c'))"

definition windowsError :: "string \<Rightarrow> u32 \<Rightarrow> Exn" where
  "windowsError pfx errorCode =
     GeneralException (wliteral (pfx @ '': Windows error '' @ formatInt (uint errorCode)))"

text \<open>What is left of a wide string that passes through a C string.\<close>

definition cWString :: "wstring \<Rightarrow> wstring" where
  "cWString s = takeWhile (\<lambda>c. c \<noteq> 0) s"

section \<open>Configuration\<close>

record Config =
  cfgFlags :: u64
  cfgCols :: int
  cfgRows :: int
  cfgMouseMode :: int
  timeoutMs :: u32

definition VT7PTY_FLAG_MASK :: u64 where 
  "VT7PTY_FLAG_MASK = VT7PTY_FLAG_CONERR OR VT7PTY_FLAG_PLAIN_OUTPUT OR VT7PTY_FLAG_COLOR_ESCAPES"

definition vt7pty_config_new :: "u64 \<Rightarrow> Config option" where
  "vt7pty_config_new flgs = do {
     ASSERT (flgs AND VT7PTY_FLAG_MASK = flgs);
     Some \<lparr>cfgFlags = flgs, cfgCols = 80, cfgRows = 25, cfgMouseMode = VT7PTY_MOUSE_MODE_AUTO,
           timeoutMs = 30000\<rparr>
   }"

definition vt7pty_config_set_initial_size :: "int \<Rightarrow> int \<Rightarrow> Config \<Rightarrow> Config option" where
  "vt7pty_config_set_initial_size cols rows cfg = do {
     ASSERT (cols > 0 \<and> rows > 0);
     Some (cfg\<lparr>cfgCols := cols, cfgRows := rows\<rparr>)
   }"

definition vt7pty_config_set_mouse_mode :: "int \<Rightarrow> Config \<Rightarrow> Config option" where
  "vt7pty_config_set_mouse_mode mode cfg = do {
     ASSERT (mode \<ge> 0 \<and> mode \<le> VT7PTY_MOUSE_MODE_FORCE);
     Some (cfg\<lparr>cfgMouseMode := mode\<rparr>)
   }"

definition vt7pty_config_set_agent_timeout :: "u32 \<Rightarrow> Config \<Rightarrow> Config option" where
  "vt7pty_config_set_agent_timeout ms cfg = do {
     ASSERT (ms > 0);
     Some (cfg\<lparr>timeoutMs := ms\<rparr>)
   }"

section \<open>The control pipe\<close>

definition nextAnswer :: "(Completion \<times> WaitAnswer) io" where
  "nextAnswer c = (case ioAnswers c of
      [] \<Rightarrow> Some (Inr (Failure ERROR_IO_PENDING, WaitTimeout), c)
    | a # rest \<Rightarrow> Some (Inr a, c\<lparr>ioAnswers := rest\<rparr>))"

definition handlePendingIo :: "Completion \<Rightarrow> WaitAnswer \<Rightarrow> Completion io" where
  "handlePendingIo result wait =
     (if result = Failure ERROR_IO_PENDING then
        (case wait of
           IoSignaled completion \<Rightarrow> ioReturn completion
         | AgentExited \<Rightarrow> ioThrow (ClientException VT7PTY_ERROR_AGENT_DIED (wliteral ''agent died''))
         | WaitTimeout \<Rightarrow>
             ioThrow (ClientException VT7PTY_ERROR_AGENT_TIMEOUT (wliteral ''agent timed out''))
         | WaitFailed e \<Rightarrow> ioThrow (windowsError ''WaitForMultipleObjects failed'' e)
         | WaitOther \<Rightarrow> (\<lambda>_. None))
      else ioReturn result)"

definition handleReadWriteErrors :: "u32 \<Rightarrow> string \<Rightarrow> 'a io" where
  "handleReadWriteErrors lastError genericErrMsg =
     (if lastError = ERROR_BROKEN_PIPE \<or> lastError = ERROR_NO_DATA \<or>
         lastError = ERROR_PIPE_NOT_CONNECTED
      then ioThrow (ClientException VT7PTY_ERROR_LOST_CONNECTION (wliteral ''lost connection to agent''))
      else ioThrow (windowsError genericErrMsg lastError))"

definition connectControlPipe :: "unit io" where
  "connectControlPipe =
     ioBind nextAnswer (\<lambda>(result, wait).
     ioBind (handlePendingIo result wait) (\<lambda>completion.
     case completion of
       Success _ _ \<Rightarrow> ioReturn ()
     | Failure lastError \<Rightarrow>
         if lastError = ERROR_PIPE_CONNECTED then ioReturn ()
         else ioThrow (windowsError ''ConnectNamedPipe failed'' lastError)))"

definition wroteData :: "u8 list \<Rightarrow> nat \<Rightarrow> unit io" where
  "wroteData data actual c = do {
     ASSERT (actual = length data);
     Some (Inr (), c\<lparr>written := written c @ data\<rparr>)
   }"

definition writeData :: "u8 list \<Rightarrow> unit io" where
  "writeData data =
     ioBind (ioTry (checkedNarrow DWORD_range (int (length data)))) (\<lambda>_.
     ioBind nextAnswer (\<lambda>(result, wait).
     ioBind (handlePendingIo result wait) (\<lambda>completion.
     case completion of
       Success actual _ \<Rightarrow> wroteData data actual
     | Failure lastError \<Rightarrow> handleReadWriteErrors lastError ''WriteFile failed'')))"

definition clientWritePacket :: "u8 list \<Rightarrow> unit io" where
  "clientWritePacket packet =
     (if length packet > VT7PTY_MAX_CONTROL_PACKET_BYTES
      then ioThrow (GeneralException (wliteral ''Agent RPC error: outgoing packet exceeds limit''))
      else ioBind (ioTry (replaceRawData 0 (leBytes 8 (of_nat (length packet) :: u64)) packet)) writeData)"

definition readData :: "nat \<Rightarrow> (nat \<times> u8 list) io" where
  "readData amount =
     ioBind (ioTry (checkedNarrow DWORD_range (int amount))) (\<lambda>_.
     ioBind nextAnswer (\<lambda>(result, wait).
     ioBind (handlePendingIo result wait) (\<lambda>completion.
     case completion of
       Success actual bytes \<Rightarrow> ioReturn (actual, bytes)
     | Failure lastError \<Rightarrow> handleReadWriteErrors lastError ''ReadFile failed'')))"

lemma readData_answers:
  assumes "readData amount c = Some (Inr x, c')"
  shows "length (ioAnswers c') < length (ioAnswers c)"
  using assms
  by (auto simp: readData_def ioBind_def ioTry_def nextAnswer_def handlePendingIo_def ioReturn_def ioThrow_def
      handleReadWriteErrors_def split: option.splits sum.splits list.splits Completion.splits WaitAnswer.splits
      if_splits)

function readAll :: "nat \<Rightarrow> u8 list io" where
  "readAll amount c =
     (if amount = 0 then Some (Inr [], c)
      else (case readData amount c of
          None \<Rightarrow> None
        | Some (Inl e, c') \<Rightarrow> Some (Inl e, c')
        | Some (Inr (chunk, bytes), c') \<Rightarrow> do {
            ASSERT (chunk \<le> amount);
            (r, c'') \<leftarrow> readAll (amount - chunk) c';
            Some (map_sum id (\<lambda>rest. take chunk bytes @ rest) r, c'')
          }))"
  by pat_completeness auto
termination
  by (relation "measure (\<lambda>(amount, c). length (ioAnswers c))") (auto dest: readData_answers)

declare readAll.simps [simp del]

definition readUInt64 :: "u64 io" where
  "readUInt64 = ioBind (readAll 8) (\<lambda>bytes. ioReturn (leWord bytes))"

definition readPacket :: "u8 list io" where
  "readPacket =
     ioBind readUInt64 (\<lambda>packetSize.
     if unat packetSize < 8 \<or> unat packetSize > VT7PTY_MAX_CONTROL_PACKET_BYTES \<or>
        unat packetSize > SIZE_MAX
     then ioThrow (GeneralException (wliteral ''Agent RPC error: invalid packet size''))
     else readAll (unat packetSize - 8))"

text \<open>The reader of a packet that has been received.\<close>

definition decode :: "'a reader \<Rightarrow> ReadBuffer \<Rightarrow> ('a \<times> ReadBuffer) io" where
  "decode m b c = map_option (\<lambda>r. (r, c)) (m b)"

end
