(* ===== verification/ClientApi.thy ===== *)
theory ClientApi
  imports Client
begin

text \<open>
  The remote calls of the client library (src/libvt7pty/vt7pty.cc) and the start of the agent
  (also src/libvt7pty/AgentLocation.cc).
\<close>

section \<open>Finding and starting the agent\<close>

definition dirname :: "wstring \<Rightarrow> wstring" where
  "dirname path = (case dropWhile (\<lambda>c. c \<noteq> 0x5C \<and> c \<noteq> 0x2F) (rev path) of
      [] \<Rightarrow> [] | _ # rest \<Rightarrow> rev rest)"

text \<open>The answers of Windows while the agent is started.\<close>

record OpenEnv =
  moduleFileName :: wstring
  pathExists :: "wstring \<Rightarrow> bool"
  createEventError :: "u32 option"
  descriptorOk :: bool
  createPipeError :: "u32 option"
  uniqueName :: wstring
  showConsole :: bool
  forceSwHide :: bool
  noSwHide :: bool
  startAgent :: "bool \<Rightarrow> wstring \<Rightarrow> wstring \<Rightarrow> u32 + u64 \<times> u32"
  pipeClientPid :: "u32 + u32"
  growClient :: allocator

definition findAgentProgram :: "OpenEnv \<Rightarrow> Exn + wstring" where
  "findAgentProgram oe =
     (let ret = dirname (moduleFileName oe) @ [0x5C] @ wliteral ''VT7Pty-Agent.exe''
      in if pathExists oe ret then Inr ret
         else Inl (ClientException VT7PTY_ERROR_AGENT_EXE_MISSING
           (cWString (wliteral ''VT7Pty agent executable is missing: '' @ [0x27] @ ret @ [0x27]))))"

text \<open>The environment variable and the two debug flags that control the window of the agent.\<close>

definition shouldSpecifyHideFlag :: "OpenEnv \<Rightarrow> bool" where
  "shouldSpecifyHideFlag oe =
     (let ret = \<not> showConsole oe
      in if forceSwHide oe \<and> noSwHide oe then ret
         else if forceSwHide oe then True
         else if noSwHide oe then False
         else ret)"

definition agentCommandLine :: "wstring \<Rightarrow> wstring \<Rightarrow> wstring \<Rightarrow> wstring" where
  "agentCommandLine exePath ctlPipe params =
     [0x22] @ exePath @ [0x22, 0x20] @ ctlPipe @ [0x20] @ params"

definition controlPipeName :: "wstring \<Rightarrow> wstring" where
  "controlPipeName uniq = wliteral [CHR 0x5C, CHR 0x5C, CHR ''.'', CHR 0x5C] @ wliteral ''pipe'' @
     [0x5C] @ wliteral ''vt7pty-control-v1-'' @ uniq"

definition startAgentProcess :: "OpenEnv \<Rightarrow> wstring \<Rightarrow> wstring \<Rightarrow> Exn + u64 \<times> u32" where
  "startAgentProcess oe ctlPipe params =
     bindR (findAgentProgram oe) (\<lambda>exePath.
       case startAgent oe (shouldSpecifyHideFlag oe) exePath (agentCommandLine exePath ctlPipe params @ [0]) of
            Inl lastError \<Rightarrow> Inl (ClientException VT7PTY_ERROR_AGENT_CREATION_FAILED
              (wliteral (''VT7Pty-Agent CreateProcess failed with error 0x'' @ hexadecimal (unat lastError))))
          | Inr started \<Rightarrow> Inr started)"

definition verifyPipeClientPid :: "OpenEnv \<Rightarrow> u32 \<Rightarrow> Exn + unit" where
  "verifyPipeClientPid oe agentPid = (case pipeClientPid oe of
      Inr clientPid \<Rightarrow>
        if clientPid \<noteq> agentPid then
          Inl (GeneralException (wliteral (''Security check failed: pipe client pid ('' @
            formatInt (uint clientPid) @ '') does not match agent pid ('' @
            formatInt (uint agentPid) @ '')'')))
        else Inr ()
    | Inl lastError \<Rightarrow> Inl (windowsError ''GetNamedPipeClientProcessId failed'' lastError))"

definition ioLift :: "Exn + 'a \<Rightarrow> 'a io" where
  "ioLift r c = Some (r, c)"

text \<open>The part of \<open>createAgentSession\<close> after the control pipe has its name.\<close>

definition createAgentSession :: "OpenEnv \<Rightarrow> Config \<Rightarrow> wstring \<Rightarrow> unit io" where
  "createAgentSession oe cfg params c0 =
     (let c = c0\<lparr>agentTimeoutMs := timeoutMs cfg\<rparr>;
          pipeName = controlPipeName (uniqueName oe)
      in case createEventError oe of
           Some e \<Rightarrow> ioThrow (windowsError ''CreateEventW failed'' e) c
         | None \<Rightarrow>
             if \<not> descriptorOk oe then
               ioThrow (GeneralException
                 (wliteral (''could not create the control pipe'' @ [CHR 0x27] @ ''s SECURITY_DESCRIPTOR''))) c
             else (case createPipeError oe of
                 Some e \<Rightarrow> ioThrow (windowsError ''CreateNamedPipeW failed'' e) c
               | None \<Rightarrow>
                   ioBind (ioLift (startAgentProcess oe pipeName params)) (\<lambda>(process, agentPid) c1.
                     ioBind connectControlPipe (\<lambda>_. ioLift (verifyPipeClientPid oe agentPid))
                       (c1\<lparr>agentProcess := process\<rparr>))
                     (c\<lparr>controlOpen := True\<rparr>)))"

definition readHandshake :: "allocator \<Rightarrow> AgentHandshake reader" where
  "readHandshake grow b = (case readAgentHandshake grow b of
      Some (Inl DecodeError) \<Rightarrow> Some (Inl (ClientException VT7PTY_ERROR_AGENT_INCOMPATIBLE
        (wliteral ''VT7Pty agent handshake is missing or malformed'')))
    | r \<Rightarrow> r)"

definition checkHandshake :: "AgentHandshake \<Rightarrow> unit reader" where
  "checkHandshake handshake = (case classifyAgentHandshake handshake of
      WrongIdentity \<Rightarrow> rthrow (ClientException VT7PTY_ERROR_AGENT_INCOMPATIBLE
        (cWString (wliteral ''VT7Pty agent identity mismatch: expected '' @ [0x27] @ VT7PTY_AGENT_IDENTITY @
           [0x27] @ wliteral '', received '' @ [0x27] @ identity handshake @ [0x27])))
    | UnsupportedVersion \<Rightarrow> rthrow (ClientException VT7PTY_ERROR_AGENT_INCOMPATIBLE
        (wliteral (''VT7Pty agent protocol mismatch: client='' @ formatInt (sint VT7PTY_PROTOCOL_VERSION) @
           '', agent='' @ formatInt (sint (protocolVersion handshake)))))
    | Compatible \<Rightarrow> rreturn ())"

text \<open>What \<open>vt7pty_open\<close> reads from the setup packet: the names of the pipes.\<close>

definition readSetup :: "allocator \<Rightarrow> u64 \<Rightarrow> (wstring \<times> wstring \<times> wstring) reader" where
  "readSetup grow flgs =
     rbind (readHandshake grow) (\<lambda>handshake.
     rbind (checkHandshake handshake) (\<lambda>_.
     rbind (getWString grow) (\<lambda>coninName.
     rbind (getWString grow) (\<lambda>conoutName.
     rbind (if flgs AND VT7PTY_FLAG_CONERR \<noteq> 0 then getWString grow else rreturn []) (\<lambda>conerrName.
     rbind assertEof (\<lambda>_. rreturn (coninName, conoutName, conerrName)))))))"

definition openParams :: "Config \<Rightarrow> wstring" where
  "openParams cfg = wliteral (formatInt (uint (cfgFlags cfg)) @ '' '' @ formatInt (cfgMouseMode cfg) @ '' '' @
     formatInt (cfgCols cfg) @ '' '' @ formatInt (cfgRows cfg))"

text \<open>A client that fails to open is destroyed; its state is only of use to the caller's proof.\<close>

definition openSession :: "OpenEnv \<Rightarrow> Config \<Rightarrow> unit io" where
  "openSession oe cfg =
     ioBind (createAgentSession oe cfg (openParams cfg)) (\<lambda>_.
     ioBind readPacket (\<lambda>bytes.
     ioBind (decode (readSetup (growClient oe) (cfgFlags cfg)) (newReadBuffer bytes))
       (\<lambda>((coninName, conoutName, conerrName), _) c.
         Some (Inr (), c\<lparr>coninPipeName := coninName, conoutPipeName := conoutName,
                         conerrPipeName := conerrName\<rparr>))))"

definition vt7pty_open :: "OpenEnv \<Rightarrow> Config \<Rightarrow> (Completion \<times> WaitAnswer) list \<Rightarrow>
    (Client option \<times> ApiError option) option" where
  "vt7pty_open oe cfg answers =
     map_option (\<lambda>((ok, err), c). (if ok then Some c else None, err))
       (apiCall False (ioBind (openSession oe cfg) (\<lambda>_. ioReturn True)) (newClient answers))"

text \<open>The names as C strings, \<^term>\<open>None\<close> for a null pointer.\<close>

definition vt7pty_conin_name :: "Client \<Rightarrow> wstring" where
  "vt7pty_conin_name c = cWString (coninPipeName c)"
definition vt7pty_conout_name :: "Client \<Rightarrow> wstring" where
  "vt7pty_conout_name c = cWString (conoutPipeName c)"
definition vt7pty_conerr_name :: "Client \<Rightarrow> wstring option" where
  "vt7pty_conerr_name c = (if conerrPipeName c = [] then None else Some (cWString (conerrPipeName c)))"

section \<open>Remote calls\<close>

text \<open>
  \<open>RpcOperation\<close>: the body throws before it calls \<open>success\<close> (then the control pipe is
  closed) or returns what happens after it.
\<close>

definition rpcOperation :: "(Exn + 'a) io \<Rightarrow> 'a io" where
  "rpcOperation body c =
     (if \<not> controlOpen c
      then Some (Inl (GeneralException (wliteral ''Agent shutdown due to RPC failure'')), c)
      else (case body c of
          None \<Rightarrow> None
        | Some (Inl e, c') \<Rightarrow> Some (Inl e, c'\<lparr>controlOpen := False\<rparr>)
        | Some (Inr r, c') \<Rightarrow> Some (r, c')))"

text \<open>
  The environment block of a caller: the characters in memory from the pointer on. Reading past
  the readable memory ends the process.
\<close>

definition kMaximumEnvironmentCharacters :: nat where "kMaximumEnvironmentCharacters = 32767"

definition readUnit :: "wstring \<Rightarrow> nat \<Rightarrow> u16 option" where
  "readUnit mem i = (if i < length mem then Some (mem ! i) else None)"

function envBlockLoop :: "wstring \<Rightarrow> nat \<Rightarrow> (Exn + wstring) option" where
  "envBlockLoop mem n =
     (if n < kMaximumEnvironmentCharacters then do {
        a \<leftarrow> readUnit mem (n - 1);
        b \<leftarrow> (if a = 0 then readUnit mem n else Some 1);
        if a = 0 \<and> b = 0 then Some (Inr (take (n + 1) mem))
        else envBlockLoop mem (n + 1)
      }
      else Some (Inl (ClientException VT7PTY_ERROR_UNSPECIFIED
        (wliteral ''Environment block is not terminated within 32,767 characters''))))"
  by pat_completeness auto
termination
  by (relation "measure (\<lambda>(mem, n). kMaximumEnvironmentCharacters - n)") auto

declare envBlockLoop.simps [simp del]

definition wstringFromEnvBlock :: "wstring option \<Rightarrow> (Exn + wstring) option" where
  "wstringFromEnvBlock env = (case env of
      None \<Rightarrow> Some (Inr [])
    | Some mem \<Rightarrow> do {
        first \<leftarrow> readUnit mem 0;
        if first = 0 then Some (Inr [0, 0]) else envBlockLoop mem 1
      })"

record SpawnConfig =
  cfgSpawnFlags :: u64
  cfgAppname :: wstring
  cfgCmdline :: wstring
  cfgCwd :: wstring
  cfgEnv :: wstring

definition fromCString :: "wstring option \<Rightarrow> wstring" where
  "fromCString str = (case str of None \<Rightarrow> [] | Some s \<Rightarrow> cWString s)"

definition vt7pty_spawn_config_new :: "u64 \<Rightarrow> wstring option \<Rightarrow> wstring option \<Rightarrow> wstring option \<Rightarrow>
    wstring option \<Rightarrow> (SpawnConfig option \<times> ApiError option) option" where
  "vt7pty_spawn_config_new spawnFlags appname cmdline cwd env = do {
     ASSERT (spawnFlags AND VT7PTY_SPAWN_FLAG_MASK = spawnFlags);
     block \<leftarrow> wstringFromEnvBlock env;
     Some (case block of
         Inl e \<Rightarrow> (None, Some (translateException e))
       | Inr str \<Rightarrow> (Some \<lparr>cfgSpawnFlags = spawnFlags, cfgAppname = fromCString appname,
           cfgCmdline = fromCString cmdline, cfgCwd = fromCString cwd, cfgEnv = str\<rparr>, None))
   }"

definition spawnPacket :: "SpawnConfig \<Rightarrow> bool \<Rightarrow> bool \<Rightarrow> u8 list" where
  "spawnPacket cfg wantProcess wantThread =
     putWString (cfgEnv cfg) (putWString (cfgCwd cfg) (putWString (cfgCmdline cfg)
       (putWString (cfgAppname cfg) (putInt32 (of_bool wantThread) (putInt32 (of_bool wantProcess)
         (putInt64 (cfgSpawnFlags cfg) (putInt32 MsgStartProcess newPacket)))))))"

text \<open>\<open>stealHandle\<close>: the duplicate of a handle of the agent, or the error of Windows.\<close>

type_synonym duplicator = "u64 \<Rightarrow> u64 \<Rightarrow> u32 + u64"

definition stealHandle :: "duplicator \<Rightarrow> u64 \<Rightarrow> u64 \<Rightarrow> Exn + u64" where
  "stealHandle dup process handle = (if handle = 0 then Inr 0 else
     (case dup process handle of
        Inl e \<Rightarrow> Inl (windowsError ''DuplicateHandle of process handle'' e)
      | Inr h \<Rightarrow> Inr h))"

text \<open>The reply to \<open>StartProcess\<close>.\<close>

datatype SpawnReply = ReplyFailed u32 | ReplyCreated u64 u64

definition readSpawnReply :: "SpawnReply reader" where
  "readSpawnReply =
     rbind getInt32 (\<lambda>result.
     if result = ResultCreateProcessFailed then
       rbind getInt32 (\<lambda>lastError. rbind assertEof (\<lambda>_. rreturn (ReplyFailed lastError)))
     else if result = ResultProcessCreated then
       rbind getInt64 (\<lambda>remoteProcess. rbind getInt64 (\<lambda>remoteThread. rbind assertEof (\<lambda>_.
       rreturn (ReplyCreated remoteProcess remoteThread))))
     else rthrow (GeneralException (wliteral ''Agent RPC error: invalid StartProcessResult'')))"

text \<open>What the pointers of the caller receive.\<close>

record SpawnOut =
  processHandle :: u64
  threadHandle :: u64
  createProcessError :: u32

definition finishSpawn :: "duplicator \<Rightarrow> bool \<Rightarrow> bool \<Rightarrow> SpawnReply \<Rightarrow>
    (Exn + SpawnOut \<times> (Exn + unit)) io" where
  "finishSpawn dup wantProcess wantThread reply c = (case reply of
      ReplyFailed lastError \<Rightarrow>
        ioReturn (Inr (\<lparr>processHandle = 0, threadHandle = 0, createProcessError = lastError\<rparr>,
          Inl (ClientException VT7PTY_ERROR_SPAWN_CREATE_PROCESS_FAILED
            (wliteral ''CreateProcess failed'')))) c
    | ReplyCreated remoteProcess remoteThread \<Rightarrow>
        ioBind (ioLift (stealHandle dup (agentProcess c) remoteProcess)) (\<lambda>localProcess.
        ioBind (ioLift (stealHandle dup (agentProcess c) remoteThread)) (\<lambda>localThread.
        ioReturn (Inr (\<lparr>processHandle = (if wantProcess then localProcess else 0),
          threadHandle = (if wantThread then localThread else 0), createProcessError = 0\<rparr>,
          Inr ())))) c)"

definition spawnRpc :: "duplicator \<Rightarrow> SpawnConfig \<Rightarrow> bool \<Rightarrow> bool \<Rightarrow> (SpawnOut \<times> (Exn + unit)) io" where
  "spawnRpc dup cfg wantProcess wantThread =
     rpcOperation
       (ioBind (clientWritePacket (spawnPacket cfg wantProcess wantThread)) (\<lambda>_.
        ioBind readPacket (\<lambda>bytes.
        ioBind (decode readSpawnReply (newReadBuffer bytes)) (\<lambda>(reply, _).
        finishSpawn dup wantProcess wantThread reply))))"

definition vt7pty_spawn :: "duplicator \<Rightarrow> SpawnConfig \<Rightarrow> bool \<Rightarrow> bool \<Rightarrow> Client \<Rightarrow>
    ((SpawnOut \<times> bool \<times> ApiError option) \<times> Client) option" where
  "vt7pty_spawn dup cfg wantProcess wantThread c = (case spawnRpc dup cfg wantProcess wantThread c of
      None \<Rightarrow> None
    | Some (Inl e, c') \<Rightarrow>
        Some ((\<lparr>processHandle = 0, threadHandle = 0, createProcessError = 0\<rparr>, False,
               Some (translateException e)), c')
    | Some (Inr (out, Inl e), c') \<Rightarrow> Some ((out, False, Some (translateException e)), c')
    | Some (Inr (out, Inr _), c') \<Rightarrow> Some ((out, True, None), c'))"

definition sizePacket :: "int \<Rightarrow> int \<Rightarrow> u8 list" where
  "sizePacket cols rows = putInt32 (word_of_int rows) (putInt32 (word_of_int cols)
     (putInt32 MsgSetSize newPacket))"

definition vt7pty_set_size :: "int \<Rightarrow> int \<Rightarrow> Client \<Rightarrow> ((bool \<times> ApiError option) \<times> Client) option" where
  "vt7pty_set_size cols rows c = do {
     ASSERT (cols > 0 \<and> rows > 0);
     apiCall False
       (rpcOperation
         (ioBind (clientWritePacket (sizePacket cols rows)) (\<lambda>_.
          ioBind readPacket (\<lambda>bytes.
          ioBind (decode assertEof (newReadBuffer bytes)) (\<lambda>_. ioReturn (Inr True)))))) c
   }"

text \<open>The entries that the loop stores into the caller's array, and the count.\<close>

primrec readEntries :: "nat \<Rightarrow> u32 list reader" where
  "readEntries 0 = rreturn []"
| "readEntries (Suc n) = rbind getInt32 (\<lambda>e. rbind (readEntries n) (\<lambda>rest. rreturn (e # rest)))"

definition readProcessList :: "int \<Rightarrow> (int \<times> u32 list) reader" where
  "readProcessList processCount =
     rbind getInt32 (\<lambda>actualProcessCount.
     rbind (if sint actualProcessCount \<le> processCount
            then readEntries (nat (sint actualProcessCount)) else rreturn []) (\<lambda>entries.
     rbind assertEof (\<lambda>_. rreturn (sint actualProcessCount, entries))))"

definition vt7pty_get_console_process_list :: "int \<Rightarrow> Client \<Rightarrow>
    (((int \<times> u32 list) \<times> ApiError option) \<times> Client) option" where
  "vt7pty_get_console_process_list processCount =
     apiCall (0, [])
       (rpcOperation
         (ioBind (clientWritePacket (putInt32 MsgGetConsoleProcessList newPacket)) (\<lambda>_.
          ioBind readPacket (\<lambda>bytes.
          ioBind (decode (readProcessList processCount) (newReadBuffer bytes)) (\<lambda>(r, _).
          ioReturn (Inr r))))))"

end
