(* ===== verification/ClientLaws.thy ===== *)
theory ClientLaws
  imports ClientApi AgentLife
begin

text \<open>
  What the client library (src/libvt7pty/vt7pty.cc) promises: the copy of the environment block,
  the opening of a session with an agent, a remote call from the client to the agent and back,
  and the closing of the control pipe after a failure.
\<close>

section \<open>The environment block\<close>

text \<open>The block up to its first two NULs, by recursion on the memory.\<close>

fun scanBlock :: "wstring \<Rightarrow> wstring option" where
  "scanBlock (a # b # rest) =
     (if a = 0 \<and> b = 0 then Some [a, b] else map_option ((#) a) (scanBlock (b # rest)))"
| "scanBlock _ = None"

lemma scanBlock_length: "scanBlock mem = Some t \<Longrightarrow> 2 \<le> length t \<and> length t \<le> length mem"
  by (induction mem arbitrary: t rule: scanBlock.induct) (auto split: if_splits)

lemma scanBlock_take: "scanBlock mem = Some t \<Longrightarrow> t = take (length t) mem"
  by (induction mem arbitrary: t rule: scanBlock.induct) (auto split: if_splits)

lemma envBlockLoop_scan:
  assumes "scanBlock (drop (n - 1) mem) = Some t" and "1 \<le> n"
  shows "envBlockLoop mem n =
    (if n + length t \<le> kMaximumEnvironmentCharacters + 1 then Some (Inr (take (n - 1 + length t) mem))
     else Some (Inl (ClientException VT7PTY_ERROR_UNSPECIFIED
        (wliteral ''Environment block is not terminated within 32,767 characters''))))"
  using assms
proof (induction mem n arbitrary: t rule: envBlockLoop.induct)
  case (1 mem n)
  have len: "2 \<le> length t" "length t \<le> length mem - (n - 1)" using scanBlock_length [OF 1(2)] by auto
  then have n: "n - 1 < length mem" "n < length mem" "Suc (n - 1) = n" using 1(3) by auto
  then have d: "drop (n - 1) mem = mem ! (n - 1) # drop n mem" "drop n mem = mem ! n # drop (Suc n) mem"
    using Cons_nth_drop_Suc [of "n - 1" mem] Cons_nth_drop_Suc [of n mem] by simp_all
  show ?case
  proof (cases "mem ! (n - 1) = 0 \<and> mem ! n = 0")
    case True
    then have "length t = 2" using 1(2) d by auto
    then show ?thesis using True n by (subst envBlockLoop.simps) (simp add: readUnit_def)
  next
    case False
    then obtain t' where t': "scanBlock (drop n mem) = Some t'" "t = mem ! (n - 1) # t'"
      using 1(2) d by auto
    then have later: "2 \<le> length t'" using scanBlock_length by blast
    show ?thesis
    proof (cases "n < kMaximumEnvironmentCharacters")
      case True
      have step: "envBlockLoop mem n = envBlockLoop mem (n + 1)"
        using True False n by (subst envBlockLoop.simps) (auto simp: readUnit_def)
      have "envBlockLoop mem (n + 1) = (if n + 1 + length t' \<le> kMaximumEnvironmentCharacters + 1
          then Some (Inr (take (n + length t') mem))
          else Some (Inl (ClientException VT7PTY_ERROR_UNSPECIFIED
            (wliteral ''Environment block is not terminated within 32,767 characters''))))"
        using 1(1) [OF True, of "mem ! (n - 1)" "if mem ! (n - 1) = 0 then mem ! n else 1" t'] False n t'
        by (auto simp: readUnit_def)
      then show ?thesis using step t'(2) n(3) by (simp add: add.commute)
    next
      case False
      then show ?thesis using t' later 1(3) by (subst envBlockLoop.simps) simp
    qed
  qed
qed

lemma scanBlock_string:
  assumes "0 \<notin> set s"
  shows "scanBlock (s @ 0 # x # rest) = map_option ((@) s) (scanBlock (0 # x # rest))"
  using assms
proof (induction s)
  case Nil
  then show ?case by (cases "scanBlock (0 # x # rest)") (simp_all del: scanBlock.simps)
next
  case (Cons c s)
  then show ?case
    by (cases s) (auto simp: option.map_comp o_def intro!: option.map_cong)
qed

definition envBlock :: "wstring list \<Rightarrow> wstring" where
  "envBlock strs = concat (map (\<lambda>s. s @ [0]) strs) @ [0]"

lemma scanBlock_envBlock:
  assumes "\<forall>s \<in> set strs. s \<noteq> [] \<and> 0 \<notin> set s" and "strs \<noteq> []"
  shows "scanBlock (envBlock strs @ junk) = Some (envBlock strs)"
  using assms
proof (induction strs)
  case (Cons s strs)
  show ?case
  proof (cases strs)
    case Nil
    then show ?thesis using Cons.prems(1) by (simp add: envBlock_def scanBlock_string)
  next
    case (Cons s' strs')
    then obtain c cs where s': "s' = c # cs" "c \<noteq> 0" using Cons.prems(1) by (cases s') auto
    have IH: "scanBlock (envBlock strs @ junk) = Some (envBlock strs)" using Cons.IH Cons.prems(1) Cons by simp
    then show ?thesis
      using Cons.prems(1) Cons s' scanBlock_string [of s c] by (auto simp: envBlock_def)
  qed
qed simp

text \<open>
  The copy of an environment block is exact and bounded. A block of non-empty strings is
  copied to its final NUL, whatever follows it in memory, and nothing behind it is read; a block
  of more than 32,767 characters is refused with an error, and an empty block becomes two NULs.
\<close>

lemma env_block_copied:
  assumes "\<forall>s \<in> set strs. s \<noteq> [] \<and> 0 \<notin> set s"
  shows "wstringFromEnvBlock (Some (envBlock strs @ junk)) =
    (if strs = [] then Some (Inr [0, 0])
     else if length (envBlock strs) \<le> kMaximumEnvironmentCharacters then Some (Inr (envBlock strs))
     else Some (Inl (ClientException VT7PTY_ERROR_UNSPECIFIED
        (wliteral ''Environment block is not terminated within 32,767 characters''))))"
proof (cases strs)
  case Nil
  then show ?thesis by (simp add: wstringFromEnvBlock_def envBlock_def readUnit_def)
next
  case (Cons s rest)
  then obtain c cs where s: "s = c # cs" "c \<noteq> 0" using assms by (cases s) auto
  then have first: "readUnit (envBlock strs @ junk) 0 = Some c"
    using Cons by (simp add: readUnit_def envBlock_def)
  have "scanBlock (envBlock strs @ junk) = Some (envBlock strs)"
    using scanBlock_envBlock [OF assms] Cons by blast
  then show ?thesis
    using envBlockLoop_scan [of 1 "envBlock strs @ junk" "envBlock strs"] first s(2) Cons
    by (simp add: wstringFromEnvBlock_def)
qed

section \<open>Fail-stop\<close>

text \<open>The transfers leave the handle of the control pipe alone.\<close>

definition keepsOpen :: "'a io \<Rightarrow> bool" where
  "keepsOpen m \<longleftrightarrow> (\<forall>c r c'. m c = Some (r, c') \<longrightarrow> controlOpen c' = controlOpen c)"

named_theorems keeps

lemma keepsOpen_bind [keeps]: "keepsOpen m \<Longrightarrow> (\<And>x. keepsOpen (f x)) \<Longrightarrow> keepsOpen (ioBind m f)"
  unfolding keepsOpen_def ioBind_def by (fastforce split: option.splits sum.splits)

lemma keepsOpen_basic [keeps]:
  "keepsOpen (ioReturn x)" "keepsOpen (ioThrow e)" "keepsOpen (ioTry t)" "keepsOpen (ioLift r)"
  "keepsOpen (\<lambda>_. None)" "keepsOpen nextAnswer" "keepsOpen (decode d b)" "keepsOpen (wroteData data n)"
  by (auto simp: keepsOpen_def ioReturn_def ioThrow_def ioTry_def ioLift_def nextAnswer_def decode_def
      wroteData_def ASSERT_bind_Some split: list.splits)

lemma keepsOpen_case [keeps]:
  "(\<And>n b. keepsOpen (f n b)) \<Longrightarrow> (\<And>e. keepsOpen (g e)) \<Longrightarrow>
     keepsOpen (case x of Success n b \<Rightarrow> f n b | Failure e \<Rightarrow> g e)"
  "(\<And>a b. keepsOpen (h a b)) \<Longrightarrow> keepsOpen (case y of (a, b) \<Rightarrow> h a b)"
  "keepsOpen m \<Longrightarrow> keepsOpen m' \<Longrightarrow> keepsOpen (if c then m else m')"
  by (simp_all split: Completion.splits prod.splits)

lemma keepsOpen_pending [keeps]: "keepsOpen (handlePendingIo r w)"
  unfolding handlePendingIo_def by (auto intro: keeps split: WaitAnswer.splits)

lemma keepsOpen_errors [keeps]: "keepsOpen (handleReadWriteErrors e msg)"
  unfolding handleReadWriteErrors_def by (intro keeps)

lemma keepsOpen_transfers [keeps]: "keepsOpen (writeData data)" "keepsOpen (readData n)"
  unfolding writeData_def readData_def by (intro keeps)+

lemma readAll_keepsOpen: "readAll n c = Some (r, c') \<Longrightarrow> controlOpen c' = controlOpen c"
proof (induction "length (ioAnswers c)" arbitrary: n c r rule: less_induct)
  case less
  show ?case
  proof (cases "readData n c")
    case None
    then show ?thesis using less(2) by (subst (asm) readAll.simps) (auto split: if_splits)
  next
    case (Some x)
    obtain res c1 where x: "x = (res, c1)" by fastforce
    have open1: "controlOpen c1 = controlOpen c"
      using Some x keepsOpen_transfers(2) by (auto simp: keepsOpen_def)
    show ?thesis
    proof (cases res)
      case (Inl e)
      then show ?thesis using less(2) Some x open1 by (subst (asm) readAll.simps) (auto split: if_splits)
    next
      case (Inr p)
      then have shorter: "length (ioAnswers c1) < length (ioAnswers c)"
        using readData_answers Some x by blast
      show ?thesis
        using less(2) Some x Inr open1
        by (subst (asm) readAll.simps)
          (auto simp: ASSERT_bind_Some bind_eq_Some split: if_splits prod.splits dest: less(1) [OF shorter])
    qed
  qed
qed

lemma keepsOpen_packets [keeps]:
  "keepsOpen (readAll n)" "keepsOpen readPacket" "keepsOpen (clientWritePacket packet)"
proof -
  show all: "keepsOpen (readAll n)" for n using readAll_keepsOpen by (auto simp: keepsOpen_def)
  show "keepsOpen readPacket" "keepsOpen (clientWritePacket packet)"
    unfolding readPacket_def readUInt64_def clientWritePacket_def by (intro keeps all)+
qed

lemma rpcOperation_open:
  assumes "keepsOpen body" and "rpcOperation body c = Some (r, c')"
  shows "if controlOpen c
    then (\<exists>c1. (body c = Some (Inr r, c') \<and> controlOpen c') \<or>
      (\<exists>e. body c = Some (Inl e, c1) \<and> r = Inl e \<and> c' = c1\<lparr>controlOpen := False\<rparr>))
    else c' = c \<and> r = Inl (GeneralException (wliteral ''Agent shutdown due to RPC failure''))"
  using assms unfolding rpcOperation_def keepsOpen_def
  by (auto split: option.splits sum.splits prod.splits if_splits)

text \<open>
  What a remote call leaves behind: nothing happens on a closed pipe; otherwise the pipe stays open
  after a success, and after an error only if the agent has answered (\<open>answered\<close>).
\<close>

definition failStop :: "Client \<Rightarrow> ApiError option \<Rightarrow> bool \<Rightarrow> Client \<Rightarrow> bool" where
  "failStop c err answered c' \<longleftrightarrow>
     (if controlOpen c then (err = None \<longrightarrow> controlOpen c') \<and> (err \<noteq> None \<and> \<not> answered \<longrightarrow> \<not> controlOpen c')
      else c' = c \<and> vt7pty_error_code err = VT7PTY_ERROR_UNSPECIFIED)"

lemma failStop_apiCall:
  assumes "apiCall d (rpcOperation body) c = Some ((x, err), c')" and "keepsOpen body"
    and "\<And>c1 r c2. body c1 = Some (Inr r, c2) \<Longrightarrow> \<not> isl r"
  shows "failStop c err False c'"
proof -
  obtain r where r: "rpcOperation body c = Some (r, c')" "err = None \<longleftrightarrow> (\<exists>y. r = Inr y)"
      "\<And>e. r = Inl e \<Longrightarrow> err = Some (translateException e)"
    using assms(1) by (auto simp: apiCall_def split: option.splits sum.splits)
  show ?thesis
  proof (cases "controlOpen c")
    case False
    then have "c' = c" "r = Inl (GeneralException (wliteral ''Agent shutdown due to RPC failure''))"
      using rpcOperation_open [OF assms(2) r(1)] by simp_all
    then show ?thesis using False r(3) by (simp add: failStop_def vt7pty_error_code_def)
  next
    case True
    then consider "body c = Some (Inr r, c')" "controlOpen c'" | e where "r = Inl e" "\<not> controlOpen c'"
      using rpcOperation_open [OF assms(2) r(1)] by auto
    then show ?thesis
    proof cases
      case 1
      then have "err = None" using assms(3) [OF 1(1)] r(2) by (cases r) auto
      then show ?thesis using True 1(2) by (simp add: failStop_def)
    next
      case 2
      then show ?thesis using True r(2) by (simp add: failStop_def)
    qed
  qed
qed

definition spawnFailed :: ApiError where
  "spawnFailed = translateException (ClientException VT7PTY_ERROR_SPAWN_CREATE_PROCESS_FAILED
     (wliteral ''CreateProcess failed''))"

lemma keepsOpen_finish [keeps]: "keepsOpen (finishSpawn dup wantP wantT reply)"
  by (cases reply) (auto simp: keepsOpen_def finishSpawn_def ioReturn_def ioBind_def ioLift_def
      split: option.splits sum.splits)

lemma finishSpawn_answer:
  assumes "finishSpawn dup wantP wantT reply c = Some (Inr r, c')"
  shows "\<exists>out. r = Inr (out, Inr ()) \<or> r = Inr (out, Inl (ClientException
    VT7PTY_ERROR_SPAWN_CREATE_PROCESS_FAILED (wliteral ''CreateProcess failed'')))"
  using assms
  by (cases reply) (auto simp: finishSpawn_def ioReturn_def ioBind_def ioLift_def split: option.splits sum.splits)

lemma bind_answer:
  "ioBind m f c = Some (Inr r, c') \<longleftrightarrow> (\<exists>x c1. m c = Some (Inr x, c1) \<and> f x c1 = Some (Inr r, c'))"
  by (auto simp: ioBind_def split: option.splits sum.splits)

text \<open>
  C12. The control pipe of the client is fail-stop: a remote call that does not complete its
  exchange with the agent (an I/O error, a timeout, the death of the agent, a malformed or
  oversized packet) closes the pipe, so a later call cannot take the rest of an old reply for its
  own; every call on a closed pipe fails at once and touches nothing. A reported failure of
  \<open>CreateProcess\<close> is an answer, and leaves the pipe open.
\<close>

theorem control_pipe_fail_stop:
  "(vt7pty_set_size cols rows c = Some ((ok, err), c') \<longrightarrow> failStop c err False c') \<and>
   (vt7pty_get_console_process_list n c = Some ((r, err), c') \<longrightarrow> failStop c err False c') \<and>
   (vt7pty_spawn dup cfg wantP wantT c = Some ((out, ok, err), c') \<longrightarrow>
      failStop c err (err = Some spawnFailed) c')"
proof (intro conjI impI)
  assume "vt7pty_set_size cols rows c = Some ((ok, err), c')"
  then show "failStop c err False c'"
    unfolding vt7pty_set_size_def ASSERT_bind_Some
    by (elim conjE failStop_apiCall) (intro keeps, auto simp: ioBind_def ioReturn_def split: option.splits sum.splits)
next
  assume "vt7pty_get_console_process_list n c = Some ((r, err), c')"
  then show "failStop c err False c'"
    unfolding vt7pty_get_console_process_list_def
    by (elim failStop_apiCall)
      (intro keeps, auto simp: ioBind_def ioReturn_def split: option.splits sum.splits prod.splits)
next
  assume spawn: "vt7pty_spawn dup cfg wantP wantT c = Some ((out, ok, err), c')"
  let ?body = "ioBind (clientWritePacket (spawnPacket cfg wantP wantT)) (\<lambda>_.
        ioBind readPacket (\<lambda>bytes.
        ioBind (decode readSpawnReply (newReadBuffer bytes)) (\<lambda>(reply, _).
        finishSpawn dup wantP wantT reply)))"
  obtain r where r: "rpcOperation ?body c = Some (r, c')"
      "err = (case r of Inl e \<Rightarrow> Some (translateException e) | Inr (_, Inl e) \<Rightarrow> Some (translateException e)
        | Inr (_, Inr _) \<Rightarrow> None)"
    using spawn by (auto simp: vt7pty_spawn_def spawnRpc_def split: option.splits sum.splits)
  have keep: "keepsOpen ?body" by (intro keeps)
  have "err = None \<or> err = Some spawnFailed" if "?body c = Some (Inr r, c')"
    using that r(2) by (auto simp: bind_answer spawnFailed_def dest!: finishSpawn_answer)
  then show "failStop c err (err = Some spawnFailed) c'"
    using rpcOperation_open [OF keep r(1)] r(2)
    by (auto simp: failStop_def vt7pty_error_code_def split: if_splits sum.splits)
qed

section \<open>An exchange with the agent\<close>

text \<open>
  How the bytes of a transfer arrive: in pieces of any size, each at once or after a wait.
\<close>

definition pieceAnswer :: "bool \<Rightarrow> u8 list \<Rightarrow> Completion \<times> WaitAnswer" where
  "pieceAnswer now bytes =
     (if now then (Success (length bytes) bytes, WaitTimeout)
      else (Failure ERROR_IO_PENDING, IoSignaled (Success (length bytes) bytes)))"

definition deliver :: "(bool \<times> u8 list) list \<Rightarrow> (Completion \<times> WaitAnswer) list" where
  "deliver pieces = map (\<lambda>(now, bytes). pieceAnswer now bytes) pieces"

definition piecesOf :: "u8 list \<Rightarrow> (bool \<times> u8 list) list \<Rightarrow> bool" where
  "piecesOf bytes pieces \<longleftrightarrow> concat (map snd pieces) = bytes \<and> (\<forall>p \<in> set pieces. snd p \<noteq> [])"

lemma readData_piece:
  assumes "ioAnswers c = pieceAnswer now bytes # rest" and "n \<le> 2 ^ 32 - 1"
  shows "readData n c = Some (Inr (length bytes, bytes), c\<lparr>ioAnswers := rest\<rparr>)"
  using assms by (cases now) (simp_all add: readData_def ioBind_def ioTry_def checkedNarrow_eq nextAnswer_def
      pieceAnswer_def handlePendingIo_def ioReturn_def)

lemma readAll_pieces:
  assumes "piecesOf bytes pieces" and "ioAnswers c = deliver pieces @ rest" and "length bytes \<le> 2 ^ 32 - 1"
  shows "readAll (length bytes) c = Some (Inr bytes, c\<lparr>ioAnswers := rest\<rparr>)"
  using assms
proof (induction pieces arbitrary: bytes c)
  case Nil
  then show ?case by (subst readAll.simps) (simp add: piecesOf_def deliver_def)
next
  case (Cons p pieces)
  obtain now x where p: "p = (now, x)" by fastforce
  define bytes' where "bytes' = concat (map snd pieces)"
  have b: "bytes = x @ bytes'" "x \<noteq> []" "piecesOf bytes' pieces"
    using Cons.prems(1) p by (auto simp: piecesOf_def bytes'_def)
  have "readData (length bytes) c = Some (Inr (length x, x), c\<lparr>ioAnswers := deliver pieces @ rest\<rparr>)"
    using Cons.prems(2, 3) p by (intro readData_piece) (simp_all add: deliver_def)
  moreover have "readAll (length bytes') (c\<lparr>ioAnswers := deliver pieces @ rest\<rparr>) =
      Some (Inr bytes', c\<lparr>ioAnswers := rest\<rparr>)"
    using Cons.IH [OF b(3), of "c\<lparr>ioAnswers := deliver pieces @ rest\<rparr>"] Cons.prems(3) b(1) by simp
  ultimately show ?case using b(1, 2) by (subst readAll.simps) simp
qed

text \<open>A packet of the agent arrives as its size and then its payload.\<close>

definition arrives :: "u8 list \<Rightarrow> (Completion \<times> WaitAnswer) list \<Rightarrow> bool" where
  "arrives payload answers \<longleftrightarrow> (\<exists>header body. answers = deliver header @ deliver body \<and>
     piecesOf (leBytes 8 (of_nat (8 + length payload) :: u64)) header \<and> piecesOf payload body)"

lemma readPacket_arrives:
  assumes "arrives payload answers" and "ioAnswers c = answers @ rest"
    and "8 + length payload \<le> VT7PTY_MAX_CONTROL_PACKET_BYTES"
  shows "readPacket c = Some (Inr payload, c\<lparr>ioAnswers := rest\<rparr>)"
proof -
  let ?size = "leBytes 8 (of_nat (8 + length payload) :: u64)"
  obtain header body where a: "answers = deliver header @ deliver body" "piecesOf ?size header"
      "piecesOf payload body"
    using assms(1) by (auto simp: arrives_def)
  have "readAll 8 c = Some (Inr ?size, c\<lparr>ioAnswers := deliver body @ rest\<rparr>)"
    using readAll_pieces [OF a(2), of c "deliver body @ rest"] assms(2) a(1) by simp
  moreover have "(leWord ?size :: u64) = of_nat (8 + length payload)" by (rule leWord_leBytes) simp
  moreover have "unat (of_nat (8 + length payload) :: u64) = 8 + length payload"
    using assms(3) by (simp add: unat_of_nat VT7PTY_MAX_CONTROL_PACKET_BYTES_def del: of_nat_add)
  moreover have "readAll (length payload) (c\<lparr>ioAnswers := deliver body @ rest\<rparr>) =
      Some (Inr payload, c\<lparr>ioAnswers := rest\<rparr>)"
    using readAll_pieces [OF a(3), of "c\<lparr>ioAnswers := deliver body @ rest\<rparr>" rest] assms(3)
    by (simp add: VT7PTY_MAX_CONTROL_PACKET_BYTES_def)
  ultimately show ?thesis
    using assms(3) maxPacket_SIZE_MAX [of "8 + length payload"]
    by (auto simp: readPacket_def readUInt64_def ioBind_def ioReturn_def simp del: of_nat_add)
qed

lemma clientWritePacket_ok:
  assumes "ioAnswers c = pieceAnswer now packet # rest" and "8 \<le> length packet"
    and "length packet \<le> VT7PTY_MAX_CONTROL_PACKET_BYTES"
  shows "clientWritePacket packet c =
    Some (Inr (), c\<lparr>ioAnswers := rest, written := written c @ frame (drop 8 packet)\<rparr>)"
proof -
  have "replaceRawData 0 (leBytes 8 (of_nat (length packet) :: u64)) packet = Some (frame (drop 8 packet))"
    using assms(2) by (simp add: replaceRawData_def frame_def)
  moreover have "length (frame (drop 8 packet)) = length packet" using assms(2) by (simp add: frame_def)
  ultimately show ?thesis
    using assms(1, 3)
    by (cases now) (simp_all add: clientWritePacket_def writeData_def ioBind_def ioTry_def checkedNarrow_eq
        nextAnswer_def pieceAnswer_def handlePendingIo_def ioReturn_def wroteData_def
        VT7PTY_MAX_CONTROL_PACKET_BYTES_def)
qed

lemma decode_parser:
  assumes "simulates m g" and "g bytes = Inr (x, rest)"
  shows "\<exists>b. decode m (newReadBuffer bytes) c = Some (Inr (x, b), c)"
  using simulates_new [OF assms(1), of bytes] assms(2) by (auto simp: decode_def)

lemma decode_parser_error:
  assumes "simulates m g" and "g bytes = Inl e"
  shows "decode m (newReadBuffer bytes) c = Some (Inl e, c)"
  using simulates_new [OF assms(1), of bytes] assms(2) by (simp add: decode_def)

lemma frame_inject: "frame p = frame q \<longleftrightarrow> p = q"
  by (metis append_eq_append_conv frame_def length_leBytes)

text \<open>One request and its reply; \<open>sentTo c packet rest\<close> is the client after it.\<close>

definition sentTo :: "Client \<Rightarrow> u8 list \<Rightarrow> (Completion \<times> WaitAnswer) list \<Rightarrow> Client" where
  "sentTo c payload rest = c\<lparr>ioAnswers := rest, written := written c @ frame payload\<rparr>"

lemma exchange:
  assumes "ioAnswers c = pieceAnswer now packet # answers @ rest"
    and "8 \<le> length packet" and "length packet \<le> VT7PTY_MAX_CONTROL_PACKET_BYTES"
    and "arrives reply answers" and "8 + length reply \<le> VT7PTY_MAX_CONTROL_PACKET_BYTES"
  shows "ioBind (clientWritePacket packet) (\<lambda>_. ioBind readPacket f) c = f reply (sentTo c (drop 8 packet) rest)"
proof -
  define c1 where "c1 = c\<lparr>ioAnswers := answers @ rest, written := written c @ frame (drop 8 packet)\<rparr>"
  have w: "clientWritePacket packet c = Some (Inr (), c1)"
    using clientWritePacket_ok [OF assms(1-3)] by (simp add: c1_def)
  have "readPacket c1 = Some (Inr reply, c1\<lparr>ioAnswers := rest\<rparr>)"
    by (rule readPacket_arrives [OF assms(4) _ assms(5)]) (simp add: c1_def)
  moreover have "c1\<lparr>ioAnswers := rest\<rparr> = sentTo c (drop 8 packet) rest"
    by (simp add: c1_def sentTo_def)
  ultimately show ?thesis using w by (simp add: ioBind_def)
qed

lemma rpc_exchange:
  fixes m :: "'a reader" and f :: "'a \<times> ReadBuffer \<Rightarrow> (Exn + 'd) io"
  assumes "ioAnswers c = pieceAnswer now packet # answers @ rest"
    and "8 \<le> length packet" and "length packet \<le> VT7PTY_MAX_CONTROL_PACKET_BYTES"
    and "arrives reply answers" and "8 + length reply \<le> VT7PTY_MAX_CONTROL_PACKET_BYTES"
    and "simulates m g"
  defines "body \<equiv> ioBind (clientWritePacket packet) (\<lambda>_. ioBind readPacket (\<lambda>bytes.
      ioBind (decode m (newReadBuffer bytes)) f))"
    and "c' \<equiv> sentTo c (drop 8 packet) rest"
  shows "g reply = Inr (x, r) \<Longrightarrow> \<exists>b. rpcOperation body c = rpcOperation (\<lambda>_. f (x, b) c') c"
    and "g reply = Inl e \<Longrightarrow> rpcOperation body c = rpcOperation (\<lambda>_. Some (Inl e, c')) c"
proof -
  have body: "body c = ioBind (decode m (newReadBuffer reply)) f c'"
    unfolding body_def c'_def by (rule exchange [OF assms(1-5)])
  show "\<exists>b. rpcOperation body c = rpcOperation (\<lambda>_. f (x, b) c') c" if ok: "g reply = Inr (x, r)"
  proof -
    obtain b where "decode m (newReadBuffer reply) c' = Some (Inr (x, b), c')"
      using decode_parser [OF assms(6) ok] by blast
    then have "body c = f (x, b) c'" using body by (simp add: ioBind_def)
    then show ?thesis by (intro exI [of _ b]) (simp add: rpcOperation_def)
  qed
  show "rpcOperation body c = rpcOperation (\<lambda>_. Some (Inl e, c')) c" if bad: "g reply = Inl e"
    using decode_parser_error [OF assms(6) bad] body by (simp add: rpcOperation_def ioBind_def)
qed

definition pSpawnReply :: "SpawnReply parser" where
  "pSpawnReply = pbind pInt32 (\<lambda>result.
     if result = ResultCreateProcessFailed then
       pbind pInt32 (\<lambda>lastError. pbind pEof (\<lambda>_. preturn (ReplyFailed lastError)))
     else if result = ResultProcessCreated then
       pbind pInt64 (\<lambda>p. pbind pInt64 (\<lambda>t. pbind pEof (\<lambda>_. preturn (ReplyCreated p t))))
     else pthrow (GeneralException (wliteral ''Agent RPC error: invalid StartProcessResult'')))"

lemma simulates_spawnReply: "simulates readSpawnReply pSpawnReply"
  unfolding readSpawnReply_def pSpawnReply_def by (intro sims)

lemma pSpawnReply_get:
  "pSpawnReply (putInt32 e (putInt32 ResultCreateProcessFailed [])) = Inr (ReplyFailed e, [])"
  "pSpawnReply (putInt64 t (putInt64 p (putInt32 ResultProcessCreated []))) = Inr (ReplyCreated p t, [])"
proof -
  have eq: "putInt32 e (putInt32 r []) = putInt32 r [] @ putInt32 e []"
    "putInt64 t (putInt64 p (putInt32 r [])) = putInt32 r [] @ putInt64 p [] @ putInt64 t []" for r
    by (simp_all add: put_defs)
  show "pSpawnReply (putInt32 e (putInt32 ResultCreateProcessFailed [])) = Inr (ReplyFailed e, [])"
    "pSpawnReply (putInt64 t (putInt64 p (putInt32 ResultProcessCreated []))) = Inr (ReplyCreated p t, [])"
    unfolding eq
    by (simp_all add: pSpawnReply_def pbind_def i32c.get_put i64c.get_put pEof_def preturn_def
        i32c.get_put [where rest = "[]", simplified] i64c.get_put [where rest = "[]", simplified]
        ResultCreateProcessFailed_def ResultProcessCreated_def)
qed

lemma drop_newPacket:
  "drop 8 (putInt32 a (putInt32 r newPacket)) = putInt32 a (putInt32 r [])"
  "drop 8 (putInt64 t (putInt64 p (putInt32 r newPacket))) = putInt64 t (putInt64 p (putInt32 r []))"
  by (simp_all add: put_defs newPacket_def)

lemma writePacket_frame_iff:
  assumes "writePacket packet ag = Some (Inr ag')" and "8 \<le> length packet"
  shows "outQueue (m_controlPipe ag') = outQueue (m_controlPipe ag) @ frame (drop 8 packet)"
  using writePacket_facts [OF assms] assms(2) by (simp add: frame_def)

lemma spawnPacket_frame:
  "spawnPacket cfg p t = newPacket @ encodeRequest (StartProcess (cfgSpawnFlags cfg) p t (cfgAppname cfg)
     (cfgCmdline cfg) (cfgCwd cfg) (cfgEnv cfg)) []"
  by (simp add: spawnPacket_def put_defs newPacket_def)

text \<open>
  C9. Spawning works from end to end. The client writes the packet of its request; the agent,
  given that packet, calls \<open>CreateProcess\<close> with the client's strings and appends its reply; the
  client, to which the reply arrives in any pieces, reports the result of that call: the handles it
  asked for, taken over from the agent, or the error code of \<open>CreateProcess\<close>. The control pipe
  stays open, and nothing else is read or written.
\<close>

theorem spawn_end_to_end:
  fixes cfg wantP wantT ag
  defines "req \<equiv> StartProcess (cfgSpawnFlags cfg) wantP wantT (cfgAppname cfg) (cfgCmdline cfg) (cfgCwd cfg)
      (cfgEnv cfg)"
    and "call \<equiv> \<lparr>programArg = nonEmpty (cfgAppname cfg) (cfgAppname cfg),
      cmdlineArg = nonEmpty (cfgCmdline cfg) (cfgCmdline cfg @ [0]), cwdArg = nonEmpty (cfgCwd cfg) (cfgCwd cfg),
      envArg = nonEmpty (cfgEnv cfg) (cfgEnv cfg), inheritHandles = m_useConerr ag\<rparr>"
  assumes "controlOpen c" and "validRequest (growString env) (busy ag) req"
    and "length (spawnPacket cfg wantP wantT) \<le> VT7PTY_MAX_CONTROL_PACKET_BYTES"
    and "handlePacket env (frame (encodeRequest req [])) ag = Some (Inr ag')"
    and "outQueue (m_controlPipe ag') = outQueue (m_controlPipe ag) @ frame reply"
    and "ioAnswers c = pieceAnswer now (spawnPacket cfg wantP wantT) # answers @ rest"
    and "arrives reply answers"
  defines "c' \<equiv> sentTo c (encodeRequest req []) rest"
  shows "case createProcess env call of
      CreateFailed e \<Rightarrow> vt7pty_spawn dup cfg wantP wantT c =
        Some ((\<lparr>processHandle = 0, threadHandle = 0, createProcessError = e\<rparr>, False, Some spawnFailed), c')
    | Created hp ht \<Rightarrow> \<exists>rp rt. wantedHandle env wantP hp = Some rp \<and> wantedHandle env wantT ht = Some rt \<and>
        (\<forall>lp lt. stealHandle dup (agentProcess c) rp = Inr lp \<and> stealHandle dup (agentProcess c) rt = Inr lt \<longrightarrow>
           vt7pty_spawn dup cfg wantP wantT c =
             Some ((\<lparr>processHandle = (if wantP then lp else 0), threadHandle = (if wantT then lt else 0),
                     createProcessError = 0\<rparr>, True, None), c'))"
proof -
  let ?packet = "spawnPacket cfg wantP wantT"
  have packet: "drop 8 ?packet = encodeRequest req []" "8 \<le> length ?packet"
    by (simp_all add: spawnPacket_frame req_def)
  have "pRequest (growString env) (busy ag) (encodeRequest req []) = Inr (req, [])"
    using assms(4) by (simp add: pRequest_Inr)
  then have "handlePacket env (frame (encodeRequest req [])) ag = performRequest env req ag"
    by (subst handlePacket_eq) (simp_all add: frame_def)
  then have start: "startProcess env (cfgSpawnFlags cfg) wantP wantT (cfgAppname cfg) (cfgCmdline cfg) (cfgCwd cfg)
      (cfgEnv cfg) ag = Some (Inr ag')"
    using assms(6) by (simp add: req_def)
  have reply: "reply = drop 8 p \<and> 8 + length reply \<le> VT7PTY_MAX_CONTROL_PACKET_BYTES"
    if "writePacket p ag1 = Some (Inr ag')" "8 \<le> length p" "m_controlPipe ag1 = m_controlPipe ag" for p ag1
    using writePacket_frame_iff [OF that(1, 2)] writePacket_facts(2) [OF that(1, 2)] assms(7) that(2, 3)
    by (simp add: frame_inject)
  have run: "spawnRpc dup cfg wantP wantT c = rpcOperation (\<lambda>_. finishSpawn dup wantP wantT r c') c"
    if ok: "pSpawnReply reply = Inr (r, [])" "8 + length reply \<le> VT7PTY_MAX_CONTROL_PACKET_BYTES" for r
    using rpc_exchange(1) [OF assms(8) packet(2) assms(5) assms(9) ok(2) simulates_spawnReply ok(1),
        where f = "\<lambda>(reply, _). finishSpawn dup wantP wantT reply"] packet(1)
    by (simp add: spawnRpc_def c'_def)
  show ?thesis
  proof (cases "createProcess env call")
    case (CreateFailed e)
    then have w: "writePacket (putInt32 e (putInt32 ResultCreateProcessFailed newPacket))
        (logEffect (SpawnFailed call e) ag) = Some (Inr ag')"
      using start by (simp add: startProcess_def Let_def call_def)
    have r0: "reply = drop 8 (putInt32 e (putInt32 ResultCreateProcessFailed newPacket)) \<and>
        8 + length reply \<le> VT7PTY_MAX_CONTROL_PACKET_BYTES" by (rule reply [OF w]) simp_all
    then have r: "reply = putInt32 e (putInt32 ResultCreateProcessFailed [])" by (simp add: drop_newPacket)
    have small: "8 + length reply \<le> VT7PTY_MAX_CONTROL_PACKET_BYTES" using r0 by (rule conjunct2)
    show ?thesis
      using run [of "ReplyFailed e"] assms(3) CreateFailed r small
      by (simp add: pSpawnReply_get vt7pty_spawn_def rpcOperation_def finishSpawn_def ioReturn_def spawnFailed_def)
  next
    case (Created hp ht)
    then obtain rp rt ag1 where w: "wantedHandle env wantP hp = Some rp" "wantedHandle env wantT ht = Some rt"
        "writePacket (putInt64 rt (putInt64 rp (putInt32 ResultProcessCreated newPacket))) ag1 = Some (Inr ag')"
        "m_controlPipe ag1 = m_controlPipe ag"
      using start by (auto simp: startProcess_def Let_def call_def bind_eq_Some)
    have r0: "reply = drop 8 (putInt64 rt (putInt64 rp (putInt32 ResultProcessCreated newPacket))) \<and>
        8 + length reply \<le> VT7PTY_MAX_CONTROL_PACKET_BYTES" by (rule reply [OF w(3) _ w(4)]) simp
    then have r: "reply = putInt64 rt (putInt64 rp (putInt32 ResultProcessCreated []))" by (simp add: drop_newPacket)
    have small: "8 + length reply \<le> VT7PTY_MAX_CONTROL_PACKET_BYTES" using r0 by (rule conjunct2)
    have "agentProcess c' = agentProcess c" by (simp add: c'_def sentTo_def)
    then show ?thesis
      using run [of "ReplyCreated rp rt"] assms(3) Created w(1, 2) r small
      by (auto simp: pSpawnReply_get vt7pty_spawn_def rpcOperation_def finishSpawn_def ioReturn_def ioBind_def ioLift_def)
  qed
qed

section \<open>The process list\<close>

lemma getN_parser:
  "simulates (readEntries n) (\<lambda>s. i32c.getN n s)"
proof (induction n)
  case 0
  have "(\<lambda>s. i32c.getN 0 s) = preturn []" by (rule ext) (simp add: preturn_def)
  then show ?case by (simp add: sims)
next
  case (Suc n)
  have "(\<lambda>s. i32c.getN (Suc n) s) = pbind pInt32 (\<lambda>e. pbind (i32c.getN n) (\<lambda>rest. preturn (e # rest)))"
    by (rule ext) (auto simp: pbind_def preturn_def bindR_def split: sum.splits)
  then show ?case using Suc by (auto intro: sims)
qed

definition pProcessList :: "int \<Rightarrow> (int \<times> u32 list) parser" where
  "pProcessList n = pbind pInt32 (\<lambda>count.
     pbind (if sint count \<le> n then i32c.getN (nat (sint count)) else preturn []) (\<lambda>entries.
     pbind pEof (\<lambda>_. preturn (sint count, entries))))"

lemma simulates_processList: "simulates (readProcessList n) (pProcessList n)"
  unfolding readProcessList_def pProcessList_def by (intro sims getN_parser)

text \<open>The payload of the reply, as \<open>handleGetConsoleProcessListPacket\<close> puts it together.\<close>

definition processListReply :: "u32 list \<Rightarrow> u8 list" where
  "processListReply entries = fold putInt32 entries (putInt32 (of_nat (length entries)) [])"

lemma processListReply_eq:
  "processListReply entries = putInt32 (of_nat (length entries)) [] @ i32c.putAll entries []"
  unfolding processListReply_def by (metis i32c.putAll_append i32c.putAll_def)

lemma pProcessList_reply:
  assumes "length entries < 2 ^ 31"
  shows "pProcessList n (processListReply entries) =
    (if int (length entries) \<le> n \<or> entries = [] then Inr ((int (length entries), entries), [])
     else Inl DecodeError)"
proof -
  let ?count = "of_nat (length entries) :: u32"
  have count: "sint ?count = int (length entries)"
    using assms by (simp add: signed_of_nat signed_take_bit_int_eq_self)
  have entries: "i32c.getN (length entries) (i32c.putAll entries []) = Inr (entries, [])"
    using i32c.getN_putAll [of entries "[]"] by simp
  have "i32c.putAll entries [] = [] \<longleftrightarrow> entries = []"
  proof -
    have "length (i32c.putAll entries []) = 5 * length entries" by (simp add: i32c.putAll_def)
    then show ?thesis by (cases "i32c.putAll entries []"; cases entries) auto
  qed
  then show ?thesis
    by (auto simp: pProcessList_def processListReply_eq pbind_def i32c.get_put count entries preturn_def pEof_def)
qed

text \<open>
  C34. When the agent answers with the list of the console's processes, the client returns all of
  them if they fit the caller's array. If there are more, the call does not report how many there
  are, as its code intends: the entries are left in the packet, so the check for its end throws,
  the caller gets 0 and \<open>Bad RPC packet\<close>, and the control pipe is closed for good.
\<close>

theorem process_list_result:
  assumes "controlOpen c" and "ioAnswers c = pieceAnswer now (putInt32 MsgGetConsoleProcessList newPacket) # answers @ rest"
    and "arrives (processListReply entries) answers"
    and "8 + length (processListReply entries) \<le> VT7PTY_MAX_CONTROL_PACKET_BYTES" and "entries \<noteq> []"
  defines "c' \<equiv> sentTo c (encodeRequest GetConsoleProcessList []) rest"
  shows "vt7pty_get_console_process_list n c =
    (if int (length entries) \<le> n then Some (((int (length entries), entries), None), c')
     else Some (((0, []), Some kBadRpcPacket), c'\<lparr>controlOpen := False\<rparr>))"
proof -
  let ?packet = "putInt32 MsgGetConsoleProcessList newPacket"
  have packet: "8 \<le> length ?packet" "length ?packet \<le> VT7PTY_MAX_CONTROL_PACKET_BYTES"
      "drop 8 ?packet = encodeRequest GetConsoleProcessList []"
    by (simp_all add: put_defs newPacket_def VT7PTY_MAX_CONTROL_PACKET_BYTES_def)
  have "length (processListReply entries) = 5 + 5 * length entries" by (simp add: processListReply_def)
  then have "length entries < 2 ^ 31" using assms(4) by (simp add: VT7PTY_MAX_CONTROL_PACKET_BYTES_def)
  note parse = pProcessList_reply [OF this, of n]
  note rpc = rpc_exchange [OF assms(2) packet(1, 2) assms(3, 4) simulates_processList [of n],
      where f = "\<lambda>(r, _). ioReturn (Inr r)"]
  show ?thesis
  proof (cases "int (length entries) \<le> n")
    case True
    then obtain b where "rpcOperation (ioBind (clientWritePacket ?packet) (\<lambda>_. ioBind readPacket (\<lambda>bytes.
        ioBind (decode (readProcessList n) (newReadBuffer bytes)) (\<lambda>(r, _). ioReturn (Inr r))))) c =
        rpcOperation (\<lambda>_. ioReturn (Inr (int (length entries), entries)) c') c"
      using rpc(1) parse packet(3) by (auto simp: c'_def)
    then show ?thesis
      using True assms(1)
      by (simp add: vt7pty_get_console_process_list_def apiCall_def) (simp add: rpcOperation_def ioReturn_def)
  next
    case False
    then have "rpcOperation (ioBind (clientWritePacket ?packet) (\<lambda>_. ioBind readPacket (\<lambda>bytes.
        ioBind (decode (readProcessList n) (newReadBuffer bytes)) (\<lambda>(r, _). ioReturn (Inr r))))) c =
        rpcOperation (\<lambda>_. Some (Inl DecodeError, c')) c"
      using rpc(2) parse packet(3) assms(5) by (auto simp: c'_def)
    then show ?thesis
      using False assms(1)
      by (simp add: vt7pty_get_console_process_list_def apiCall_def) (simp add: rpcOperation_def)
  qed
qed

section \<open>Opening a session\<close>

text \<open>The setup packet of a compatible agent is read back, whatever the reader does with others.\<close>

lemma readSetup_setupPacket:
  assumes "grow 12 = None" and "sendable grow (coninName names)" and "sendable grow (conoutName names)"
    and "useConerr \<longleftrightarrow> flgs AND VT7PTY_FLAG_CONERR \<noteq> 0" and "useConerr \<Longrightarrow> sendable grow (conerrName names)"
  shows "\<exists>b. readSetup grow flgs (newReadBuffer (drop 8 (setupPacket useConerr names))) =
    Some (Inr ((coninName names, conoutName names, if useConerr then conerrName names else []), b))"
proof -
  let ?rest = "putWString (coninName names) [] @ putWString (conoutName names) [] @
      (if useConerr then putWString (conerrName names) [] else [])"
  let ?p = "pbind (pWString grow) (\<lambda>a. pbind (pWString grow) (\<lambda>b.
     pbind (if flgs AND VT7PTY_FLAG_CONERR \<noteq> 0 then pWString grow else preturn []) (\<lambda>c.
     pbind pEof (\<lambda>_. preturn (a, b, c)))))"
  have payload: "drop 8 (setupPacket useConerr names) = writeAgentHandshake [] @ ?rest"
    by (simp add: setupPacket_def writeAgentHandshake_def put_defs newPacket_def Let_def)
  obtain h b where h: "readAgentHandshake grow (newReadBuffer (writeAgentHandshake [] @ ?rest)) = Some (Inr (h, b))"
      "reading b ?rest" "classifyAgentHandshake h = Compatible"
    using handshake_read [of "newReadBuffer (writeAgentHandshake [] @ ?rest)" ?rest grow] assms(1) by auto
  have "simulates (rbind (getWString grow) (\<lambda>a. rbind (getWString grow) (\<lambda>b.
     rbind (if flgs AND VT7PTY_FLAG_CONERR \<noteq> 0 then getWString grow else rreturn []) (\<lambda>c.
     rbind assertEof (\<lambda>_. rreturn (a, b, c)))))) ?p"
    by (intro sims)
  moreover have "?p (?rest @ []) = Inr ((coninName names, conoutName names,
      if useConerr then conerrName names else []), [])"
    using assms(2-5)
    by (simp add: pbind_def wstr.get_put preturn_def pEof_def wstr.get_put [where rest = "[]", simplified])
  ultimately obtain b' where "rbind (getWString grow) (\<lambda>a. rbind (getWString grow) (\<lambda>b.
     rbind (if flgs AND VT7PTY_FLAG_CONERR \<noteq> 0 then getWString grow else rreturn []) (\<lambda>c.
     rbind assertEof (\<lambda>_. rreturn (a, b, c))))) b = Some (Inr ((coninName names, conoutName names,
      if useConerr then conerrName names else []), b'))"
    using reader_roundtrip [of _ ?p ?rest "[]" _ b] h(2) by fastforce
  then show ?thesis
    unfolding payload
    using h(1, 3) by (simp add: readSetup_def rbind_def readHandshake_def checkHandshake_def rreturn_def)
qed

lemma connectToControlPipe_out: "connectToControlPipe name = Some p \<Longrightarrow> outQueue p = []"
  by (auto simp: connectToControlPipe_def connectToServer_def newPipe_def setReadBufferSize_def ASSERT_bind_Some
      bind_eq_Some startPipeWorkers_def Let_def)

lemma setupPacket_length: "8 \<le> length (setupPacket useConerr names)"
  by (simp add: setupPacket_def put_defs newPacket_def writeAgentHandshake_def Let_def)

lemma createDataServerPipe_name: "createDataServerPipe toWrite a name = Some p \<Longrightarrow> pipeName p = name"
  by (auto simp: createDataServerPipe_def openServerPipe_def setReadBufferSize_def ASSERT_bind_Some bind_eq_Some
      startPipeWorkers_def Let_def split: if_splits ConnectAnswer.splits)

lemma newAgent_setup:
  assumes "newAgent env names connect agentFlags mouse cols rows = Some (Inr ag)"
  defines "useConerr \<equiv> agentFlags AND VT7PTY_FLAG_CONERR \<noteq> 0"
  shows "outQueue (m_controlPipe ag) = frame (drop 8 (setupPacket useConerr names)) \<and>
     length (setupPacket useConerr names) \<le> VT7PTY_MAX_CONTROL_PACKET_BYTES \<and>
     pipeName (m_coninPipe ag) = coninName names \<and> pipeName (m_conoutPipe ag) = conoutName names \<and>
     (case m_conerrPipe ag of Some p \<Rightarrow> pipeName p | None \<Rightarrow> []) = (if useConerr then conerrName names else [])"
proof -
  let ?packet = "setupPacket useConerr names"
  obtain useErr plain color sz h eb con control conin conout conerr control1 where
      flag: "useErr = (agentFlags AND VT7PTY_FLAG_CONERR \<noteq> 0)" and eb: "eb \<noteq> None \<longleftrightarrow> useErr" "\<not> m_frozen con" and
      c: "connectToControlPipe (controlName names) = Some control"
      "createDataServerPipe False (connect ConinPipe) (coninName names) = Some conin"
      "createDataServerPipe True (connect ConoutPipe) (conoutName names) = Some conout"
      "(if useErr then map_option Some (createDataServerPipe True (connect ConerrPipe) (conerrName names))
        else Some None) = Some conerr" and
      w: "sendPacket (setupPacket useErr names) control = Some (Inr control1)" and
      s: "startConsole env mouse useErr plain color sz h eb con control1 conin conout conerr = Some ag"
    using newAgent_parts [OF assms(1)] by (elim exE conjE) (rule that)
  note flag = flag [folded useConerr_def]
  note facts = startConsole_facts(1-6) [OF s eb(2, 1)]
  have "outQueue control1 = frame (drop 8 ?packet)" "length ?packet \<le> VT7PTY_MAX_CONTROL_PACKET_BYTES"
    using w setupPacket_length [of useConerr names] connectToControlPipe_out [OF c(1)]
    by (auto simp: flag sendPacket_def replaceRawData_def pipeWrite_def ASSERT_bind_Some bind_eq_Some frame_def
        split: if_splits)
  then show ?thesis
    using facts c createDataServerPipe_name flag by (auto split: if_splits option.splits)
qed

definition connected :: "Completion \<times> WaitAnswer \<Rightarrow> bool" where
  "connected a \<longleftrightarrow> (case a of
      (Success _ _, _) \<Rightarrow> True
    | (Failure e, w) \<Rightarrow> e = ERROR_PIPE_CONNECTED \<or>
        e = ERROR_IO_PENDING \<and> (\<exists>n bs. w = IoSignaled (Success n bs)))"

lemma connectControlPipe_ok:
  "connected a \<Longrightarrow> ioAnswers c = a # rest \<Longrightarrow> connectControlPipe c = Some (Inr (), c\<lparr>ioAnswers := rest\<rparr>)"
  by (cases a) (auto simp: connectControlPipe_def connected_def ioBind_def nextAnswer_def handlePendingIo_def
      ioReturn_def ERROR_PIPE_CONNECTED_def ERROR_IO_PENDING_def split: Completion.splits if_splits)

text \<open>
  C16. Opening a session works from end to end: the client starts the agent and, given the setup
  packet that the constructor of the agent has queued, in any pieces, checks its identity and
  version and takes over the names of the agent's own data pipes, that of CONERR only if it was
  asked for. The session has the agent's process and an open control pipe.
\<close>

theorem session_opened:
  assumes agent: "newAgent env names connect (cfgFlags cfg) mouse cols rows = Some (Inr ag)"
    and queued: "outQueue (m_controlPipe ag) = frame payload" and "arrives payload answers"
    and start: "createEventError oe = None" "descriptorOk oe" "createPipeError oe = None"
      "findAgentProgram oe = Inr exe" "\<And>hide cmdline. startAgent oe hide exe cmdline = Inr (process, pid)"
      "pipeClientPid oe = Inr pid" "connected conn"
    and fits: "growClient oe 12 = None" "sendable (growClient oe) (coninName names)"
      "sendable (growClient oe) (conoutName names)" "sendable (growClient oe) (conerrName names)"
  shows "\<exists>c. vt7pty_open oe cfg (conn # answers @ rest) = Some (Some c, None) \<and> controlOpen c \<and>
     agentProcess c = process \<and> coninPipeName c = pipeName (m_coninPipe ag) \<and>
     conoutPipeName c = pipeName (m_conoutPipe ag) \<and>
     conerrPipeName c = (case m_conerrPipe ag of Some p \<Rightarrow> pipeName p | None \<Rightarrow> [])"
proof -
  let ?packet = "setupPacket (cfgFlags cfg AND VT7PTY_FLAG_CONERR \<noteq> 0) names"
  have payload: "payload = drop 8 ?packet" using newAgent_setup [OF agent] queued by (simp add: frame_inject)
  have small: "8 + length payload \<le> VT7PTY_MAX_CONTROL_PACKET_BYTES"
    using newAgent_setup [OF agent] setupPacket_length payload by simp
  define c1 where "c1 = (newClient (answers @ rest))\<lparr>agentTimeoutMs := timeoutMs cfg, controlOpen := True,
     agentProcess := process\<rparr>"
  have "createAgentSession oe cfg (openParams cfg) (newClient (conn # answers @ rest)) = Some (Inr (), c1)"
  proof -
    have "connectControlPipe (c1\<lparr>ioAnswers := conn # answers @ rest\<rparr>) = Some (Inr (), c1)"
      using connectControlPipe_ok [OF start(7)] by (simp add: c1_def newClient_def)
    then show ?thesis
      using start by (simp add: createAgentSession_def startAgentProcess_def Let_def ioBind_def ioLift_def
          verifyPipeClientPid_def c1_def newClient_def)
  qed
  moreover have "readPacket c1 = Some (Inr payload, c1\<lparr>ioAnswers := rest\<rparr>)"
    by (rule readPacket_arrives [OF assms(3) _ small]) (simp add: c1_def newClient_def)
  moreover obtain b where "readSetup (growClient oe) (cfgFlags cfg) (newReadBuffer payload) =
      Some (Inr ((coninName names, conoutName names,
        if cfgFlags cfg AND VT7PTY_FLAG_CONERR \<noteq> 0 then conerrName names else []), b))"
    using readSetup_setupPacket [OF fits(1-3), of "cfgFlags cfg AND VT7PTY_FLAG_CONERR \<noteq> 0" "cfgFlags cfg"]
      fits(4) payload by auto
  moreover have "pipeName (m_coninPipe ag) = coninName names \<and> pipeName (m_conoutPipe ag) = conoutName names \<and>
      (case m_conerrPipe ag of Some p \<Rightarrow> pipeName p | None \<Rightarrow> []) =
        (if cfgFlags cfg AND VT7PTY_FLAG_CONERR \<noteq> 0 then conerrName names else [])"
    using newAgent_setup [OF agent] by simp
  ultimately show ?thesis
    by (simp add: vt7pty_open_def apiCall_def openSession_def ioBind_def decode_def ioReturn_def)
      (simp add: c1_def newClient_def)
qed

section \<open>Examples\<close>

definition sampleClient :: "(Completion \<times> WaitAnswer) list \<Rightarrow> Client" where
  "sampleClient answers = (newClient answers)\<lparr>controlOpen := True, agentProcess := 9\<rparr>"

lemma sampleClient_simps [simp]:
  "ioAnswers (sampleClient answers) = answers" "controlOpen (sampleClient answers)"
  "agentProcess (sampleClient answers) = 9"
  by (simp_all add: sampleClient_def newClient_def)

definition whole :: "u8 list \<Rightarrow> (Completion \<times> WaitAnswer) list" where
  "whole payload = deliver [(True, leBytes 8 (of_nat (8 + length payload) :: u64))] @
     deliver (if payload = [] then [] else [(False, payload)])"

lemma arrives_whole: "arrives payload (whole payload)"
  unfolding arrives_def whole_def
  by (rule exI [of _ "[(True, leBytes 8 (of_nat (8 + length payload) :: u64))]"],
      rule exI [of _ "if payload = [] then [] else [(False, payload)]"])
    (auto simp: piecesOf_def leBytes_def)

definition sampleSpawnConfig :: SpawnConfig where
  "sampleSpawnConfig = \<lparr>cfgSpawnFlags = 1, cfgAppname = [], cfgCmdline = [0x61], cfgCwd = [], cfgEnv = []\<rparr>"

lemma sample_spawn_packet: "length (spawnPacket sampleSpawnConfig True False) \<le> VT7PTY_MAX_CONTROL_PACKET_BYTES"
  by (simp add: sampleSpawnConfig_def spawnPacket_def put_defs newPacket_def VT7PTY_MAX_CONTROL_PACKET_BYTES_def)

theorem spawn_end_to_end_witness:
  "\<exists>reply c'. vt7pty_spawn (\<lambda>_ h. Inr (h + 1)) sampleSpawnConfig True False
     (sampleClient (pieceAnswer True (spawnPacket sampleSpawnConfig True False) # whole reply)) =
       Some ((\<lparr>processHandle = 101, threadHandle = 0, createProcessError = 0\<rparr>, True, None), c')"
proof -
  let ?env = "sampleAgentEnv (Created 100 200) (\<lambda>_. None)"
  let ?req = "StartProcess (cfgSpawnFlags sampleSpawnConfig) True False (cfgAppname sampleSpawnConfig)
    (cfgCmdline sampleSpawnConfig) (cfgCwd sampleSpawnConfig) (cfgEnv sampleSpawnConfig)"
  have valid: "validRequest (growString ?env) (busy (sampleAgent [])) ?req"
    by (simp add: sampleSpawnConfig_def sendable_def sampleAgentEnv_def SIZE_MAX_def VT7PTY_SPAWN_FLAG_MASK_def
        VT7PTY_SPAWN_FLAG_AUTO_SHUTDOWN_def VT7PTY_SPAWN_FLAG_EXIT_AFTER_SHUTDOWN_def)
  then have "pRequest (growString ?env) (busy (sampleAgent [])) (encodeRequest ?req []) = Inr (?req, [])"
    by (simp only: pRequest_Inr simp_thms)
  then have "handlePacket ?env (frame (encodeRequest ?req [])) (sampleAgent []) = performRequest ?env ?req (sampleAgent [])"
    by (subst handlePacket_eq) (simp_all add: frame_def)
  moreover have "\<exists>ag'. performRequest ?env ?req (sampleAgent []) = Some (Inr ag')"
    by (simp add: startProcess_def sampleAgentEnv_def Let_def wantedHandle_def writePacket_eq replaceRawData_def
        pipeWrite_def VT7PTY_MAX_CONTROL_PACKET_BYTES_def)
  ultimately obtain ag' where h: "handlePacket ?env (frame (encodeRequest ?req [])) (sampleAgent []) = Some (Inr ag')"
    by auto
  obtain reply where out: "outQueue (m_controlPipe ag') = outQueue (m_controlPipe (sampleAgent [])) @ frame reply"
    using handlePacket_same [OF h] by (auto simp: sameChannels_def frame_def)
  show ?thesis
    using spawn_end_to_end [OF sampleClient_simps(2) valid sample_spawn_packet h out _ arrives_whole,
        of "pieceAnswer True (spawnPacket sampleSpawnConfig True False) # whole reply" True "[]" "\<lambda>_ h. Inr (h + 1)"]
    by (auto simp: sampleAgentEnv_def wantedHandle_def stealHandle_def)
qed

theorem control_pipe_fail_stop_witness:
  "\<exists>err c'. vt7pty_set_size 80 25 (sampleClient []) = Some ((False, Some err), c') \<and> \<not> controlOpen c'"
proof -
  have "\<exists>err c'. vt7pty_set_size 80 25 (sampleClient []) = Some ((False, Some err), c')"
    by (simp add: vt7pty_set_size_def sizePacket_def newPacket_def put_defs apiCall_def rpcOperation_def ioBind_def
        clientWritePacket_def ioTry_def replaceRawData_def writeData_def nextAnswer_def handlePendingIo_def
        ioThrow_def checkedNarrow_eq VT7PTY_MAX_CONTROL_PACKET_BYTES_def)
  then show ?thesis
    using control_pipe_fail_stop [of 80 25 "sampleClient []"] by (fastforce simp: failStop_def)
qed

theorem process_list_result_witness:
  "\<exists>c'. vt7pty_get_console_process_list 1
     (sampleClient (pieceAnswer True (putInt32 MsgGetConsoleProcessList newPacket) # whole (processListReply [7, 9]))) =
     Some (((0, []), Some kBadRpcPacket), c') \<and> \<not> controlOpen c'"
proof -
  let ?c = "sampleClient (pieceAnswer True (putInt32 MsgGetConsoleProcessList newPacket) # whole (processListReply [7, 9]))"
  have "controlOpen ?c" "ioAnswers ?c = pieceAnswer True (putInt32 MsgGetConsoleProcessList newPacket) #
      whole (processListReply [7, 9]) @ []"
    by (simp_all add: sampleClient_def newClient_def)
  moreover have "8 + length (processListReply [7, 9]) \<le> VT7PTY_MAX_CONTROL_PACKET_BYTES"
    by (simp add: processListReply_def VT7PTY_MAX_CONTROL_PACKET_BYTES_def)
  ultimately show ?thesis
    using process_list_result [OF _ _ arrives_whole, of ?c True "[7, 9]" "[]" 1] by simp
qed

definition sampleOpenEnv :: OpenEnv where
  "sampleOpenEnv = \<lparr>moduleFileName = [0x43, 0x3A, 0x5C, 0x61], pathExists = \<lambda>_. True, createEventError = None,
     descriptorOk = True, createPipeError = None, uniqueName = [0x31],
     showConsole = False, forceSwHide = False, noSwHide = False, startAgent = \<lambda>_ _ _. Inr (9, 4),
     pipeClientPid = Inr 4, growClient = \<lambda>_. None\<rparr>"

lemma sampleFindAgent: "\<exists>exe. findAgentProgram sampleOpenEnv = Inr exe"
  by (simp add: findAgentProgram_def sampleOpenEnv_def Let_def)

theorem session_opened_witness:
  "\<exists>cfg payload c. vt7pty_config_new 0 = Some cfg \<and>
     vt7pty_open sampleOpenEnv cfg ((Success 0 [], WaitTimeout) # whole payload) = Some (Some c, None) \<and>
     coninPipeName c = [0x69] \<and> conoutPipeName c = [0x6F] \<and> conerrPipeName c = []"
proof -
  obtain cfg where cfg: "vt7pty_config_new 0 = Some cfg" "cfgFlags cfg = 0"
    by (simp add: vt7pty_config_new_def)
  obtain st con sc where new: "newAgent (sampleAgentEnv (CreateFailed 2) (\<lambda>_. None)) sampleNames (\<lambda>_. ConnectPending)
      (cfgFlags cfg) 1 80 25 = Some (Inr (startedAgent st con sc))"
    using startedAgent_new [of "CreateFailed 2"] cfg(2) by auto
  define payload where "payload = drop 8 (setupPacket False sampleNames)"
  have queued: "outQueue (m_controlPipe (startedAgent st con sc)) = frame payload"
    by (simp add: startedAgent_def payload_def)
  obtain exe where exe: "findAgentProgram sampleOpenEnv = Inr exe" using sampleFindAgent by blast
  have names: "pipeName (m_coninPipe (startedAgent st con sc)) = [0x69]" "pipeName (m_conoutPipe (startedAgent st con sc)) = [0x6F]"
      "m_conerrPipe (startedAgent st con sc) = None"
    by (simp_all add: startedAgent_def sampleAgent_def)
  have "\<exists>c. vt7pty_open sampleOpenEnv cfg ((Success 0 [], WaitTimeout) # whole payload @ []) = Some (Some c, None) \<and>
     controlOpen c \<and> agentProcess c = 9 \<and> coninPipeName c = pipeName (m_coninPipe (startedAgent st con sc)) \<and>
     conoutPipeName c = pipeName (m_conoutPipe (startedAgent st con sc)) \<and>
     conerrPipeName c = (case m_conerrPipe (startedAgent st con sc) of Some p \<Rightarrow> pipeName p | None \<Rightarrow> [])"
    by (rule session_opened [OF new queued arrives_whole _ _ _ exe])
      (simp_all add: sampleOpenEnv_def connected_def sampleNames_def sendable_def SIZE_MAX_def)
  then show ?thesis using cfg(1) names by auto
qed

end
