(* ===== verification/AgentOutput.thy ===== *)
theory AgentOutput
  imports AgentLife
begin

text \<open>
  What the agent sends to its output pipes, over its whole life (src/agent/Agent.cc,
  src/agent/Terminal.cc, src/agent/NamedPipe.cc): CONOUT carries the tokens of the terminal, the
  queries for the cursor position and the titles of the console, in one piece each; CONERR
  carries tokens only.
\<close>

section \<open>The language of an output pipe\<close>

datatype OutPiece = TerminalPiece TermToken | DsrPiece | TitlePiece string

fun pieceBytes :: "OutPiece \<Rightarrow> string" where
  "pieceBytes (TerminalPiece tok) = tokenBytes tok"
| "pieceBytes DsrPiece = CHR 0x1B # ''[6n''"
| "pieceBytes (TitlePiece title) = titleCommand title"

fun pieceOk :: "bool \<Rightarrow> bool \<Rightarrow> OutPiece \<Rightarrow> bool" where
  "pieceOk plain withColor (TerminalPiece tok) \<longleftrightarrow> tokenOk plain withColor tok"
| "pieceOk plain withColor _ \<longleftrightarrow> \<not> plain"

definition isTerminalPiece :: "OutPiece \<Rightarrow> bool" where
  "isTerminalPiece x \<longleftrightarrow> (case x of TerminalPiece _ \<Rightarrow> True | _ \<Rightarrow> False)"

definition streamOk :: "(OutPiece \<Rightarrow> bool) \<Rightarrow> string \<Rightarrow> bool" where
  "streamOk ok s \<longleftrightarrow> (\<exists>pieces. s = concat (map pieceBytes pieces) \<and> (\<forall>x \<in> set pieces. ok x))"

lemma streamOk_Nil [simp]: "streamOk ok []"
  unfolding streamOk_def by (rule exI [of _ "[]"]) simp

lemma streamOk_append: "streamOk ok s \<Longrightarrow> streamOk ok t \<Longrightarrow> streamOk ok (s @ t)"
proof -
  assume "streamOk ok s" and "streamOk ok t"
  then obtain xs ys where x: "s = concat (map pieceBytes xs)" "\<forall>x \<in> set xs. ok x"
    and y: "t = concat (map pieceBytes ys)" "\<forall>y \<in> set ys. ok y"
    unfolding streamOk_def by blast
  show ?thesis
    unfolding streamOk_def using x y by (intro exI [of _ "xs @ ys"]) auto
qed

lemma streamOk_piece: "ok x \<Longrightarrow> streamOk ok (pieceBytes x)"
  unfolding streamOk_def by (rule exI [of _ "[x]"]) simp

lemma streamOk_tokens:
  assumes "\<forall>tok \<in> set toks. ok (TerminalPiece tok)"
  shows "streamOk ok (tokensBytes toks)"
  unfolding streamOk_def using assms
  by (intro exI [of _ "map TerminalPiece toks"]) (auto simp: tokensBytes_def comp_def)

text \<open>
  While the pipe is open, all that was written is well formed; after it has been closed, what was
  delivered is the beginning of something well formed.
\<close>

definition pipeSends :: "(OutPiece \<Rightarrow> bool) \<Rightarrow> char Pipe \<Rightarrow> bool" where
  "pipeSends ok p \<longleftrightarrow> (\<exists>rest. streamOk ok (delivered p @ rest)) \<and> (handleOpen p \<longrightarrow> streamOk ok (outStream p))"

lemma pipeSends_append:
  assumes "pipeSends ok p" and "streamOk ok s"
  shows "pipeSends ok (p\<lparr>outQueue := outQueue p @ s\<rparr>)"
  using assms streamOk_append [of ok "outStream p" s] by (auto simp: pipeSends_def outStream_def)

lemma pipeSends_close [simp]: "pipeSends ok p \<Longrightarrow> pipeSends ok (closePipe p)"
  by (auto simp: pipeSends_def closePipe_def)

lemma pipeSends_service:
  assumes "serviceIo ans p = Some (did, waits, p')" and "pipeInv p" and "answersFit ans" and "pipeSends ok p"
  shows "pipeSends ok p'"
proof (cases "handleOpen p")
  case True
  then have all: "streamOk ok (outStream p)" using assms(4) by (simp add: pipeSends_def)
  obtain rest where "delivered p' @ rest = outStream p" "handleOpen p' \<longrightarrow> outStream p' = outStream p"
    using serviceIo_result [OF assms(1-3)] by blast
  then show ?thesis using all unfolding pipeSends_def by metis
next
  case False
  then have "p' = p" using assms(1) by (simp add: serviceIo_def)
  then show ?thesis using assms(4) by simp
qed

lemma pipeSends_emits:
  assumes "emits t p t' p'" and "sent t = []" and "pipeSends ok p"
    and "\<And>tok. tokenOk (plainMode t) (outputColor t) tok \<Longrightarrow> ok (TerminalPiece tok)"
  shows "pipeSends ok p'"
proof -
  obtain toks where toks: "p' = p\<lparr>outQueue := outQueue p @ tokensBytes toks\<rparr>"
      "\<forall>tok \<in> set toks. tokenOk (plainMode t) (outputColor t) tok"
    using assms(1, 2) unfolding emits_def by blast
  then show ?thesis
    using pipeSends_append [OF assms(3) streamOk_tokens [of toks ok]] assms(4) by simp
qed

section \<open>The output of the agent\<close>

text \<open>What may be sent on CONOUT, and on CONERR.\<close>

abbreviation conoutOk :: "AgentState \<Rightarrow> OutPiece \<Rightarrow> bool" where
  "conoutOk ag \<equiv> pieceOk (m_plainMode ag) (outputColor (terminalOf ag))"

definition conerrOk :: "TerminalState \<Rightarrow> OutPiece \<Rightarrow> bool" where
  "conerrOk t x \<longleftrightarrow> isTerminalPiece x \<and> pieceOk (plainMode t) (outputColor t) x"

definition outputOk :: "AgentState \<Rightarrow> bool" where
  "outputOk ag \<longleftrightarrow> sent (terminalOf ag) = [] \<and> plainMode (terminalOf ag) = m_plainMode ag \<and>
     pipeSends (conoutOk ag) (m_conoutPipe ag) \<and>
     (\<forall>es p. m_errorScraper ag = Some es \<and> m_conerrPipe ag = Some p \<longrightarrow>
        sent (scTerminal es) = [] \<and> plainMode (scTerminal es) = m_plainMode ag \<and>
        pipeSends (conerrOk (scTerminal es)) p)"

definition keepsOutput :: "AgentState \<Rightarrow> AgentState \<Rightarrow> bool" where
  "keepsOutput ag ag' \<longleftrightarrow> (outputOk ag \<longrightarrow> outputOk ag')"

lemma keepsOutput_refl [simp]: "keepsOutput ag ag"
  by (simp add: keepsOutput_def)

lemma keepsOutput_trans: "keepsOutput ag ag1 \<Longrightarrow> keepsOutput ag1 ag2 \<Longrightarrow> keepsOutput ag ag2"
  by (simp add: keepsOutput_def)

lemma keepsOutput_same:
  assumes "m_plainMode ag' = m_plainMode ag" and "m_primaryScraper ag' = m_primaryScraper ag"
    and "m_errorScraper ag' = m_errorScraper ag"
    and "m_conoutPipe ag' = m_conoutPipe ag \<or> m_conoutPipe ag' = closePipe (m_conoutPipe ag)"
    and "m_conerrPipe ag' = m_conerrPipe ag \<or> m_conerrPipe ag' = map_option closePipe (m_conerrPipe ag)"
  shows "keepsOutput ag ag'"
proof -
  have out: "pipeSends ok (m_conoutPipe ag')" if "pipeSends ok (m_conoutPipe ag)" for ok
    using assms(4) that by auto
  have err: "pipeSends ok q" if "\<forall>p. m_conerrPipe ag = Some p \<longrightarrow> pipeSends ok p" "m_conerrPipe ag' = Some q" for ok q
    using assms(5) that by (cases "m_conerrPipe ag") auto
  have some: "m_conerrPipe ag' = Some q \<Longrightarrow> \<exists>p. m_conerrPipe ag = Some p" for q
    using assms(5) by (cases "m_conerrPipe ag") auto
  have A: "pipeSends (conoutOk ag) (m_conoutPipe ag')" if "outputOk ag"
    by (rule out) (use that in \<open>simp add: outputOk_def\<close>)
  have B: "sent (scTerminal es) = [] \<and> plainMode (scTerminal es) = m_plainMode ag \<and>
      pipeSends (conerrOk (scTerminal es)) q"
    if "outputOk ag" "m_errorScraper ag = Some es" "m_conerrPipe ag' = Some q" for es q
    using err [of "conerrOk (scTerminal es)" q] some [of q] that unfolding outputOk_def by blast
  have "outputOk ag'" if ok: "outputOk ag"
    unfolding outputOk_def assms(1-3)
  proof (intro conjI allI impI; (elim conjE)?)
    show "sent (terminalOf ag) = []" "plainMode (terminalOf ag) = m_plainMode ag"
      using ok by (simp_all add: outputOk_def)
    show "pipeSends (conoutOk ag) (m_conoutPipe ag')" by (rule A [OF ok])
  qed (use B [OF ok] in blast)+
  then show ?thesis by (simp add: keepsOutput_def)
qed

text \<open>Only CONOUT has grown, by pieces that are allowed there.\<close>

lemma keepsOutput_conout:
  assumes "m_plainMode ag' = m_plainMode ag" and "m_primaryScraper ag' = m_primaryScraper ag"
    and "m_errorScraper ag' = m_errorScraper ag" and "m_conerrPipe ag' = m_conerrPipe ag"
    and "m_conoutPipe ag' = (m_conoutPipe ag)\<lparr>outQueue := outQueue (m_conoutPipe ag) @ s\<rparr>"
    and "streamOk (conoutOk ag) s"
  shows "keepsOutput ag ag'"
  using assms by (auto simp: keepsOutput_def outputOk_def intro: pipeSends_append)

lemma consoleOutput_keeps:
  assumes "consoleOutput ag ag'"
  shows "keepsOutput ag ag'"
  unfolding keepsOutput_def
proof
  assume ok: "outputOk ag"
  have work: "consoleWork ag ag'" and emit: "emits (terminalOf ag) (m_conoutPipe ag) (terminalOf ag') (m_conoutPipe ag')"
    using assms by (simp_all add: consoleOutput_def)
  have plain: "m_plainMode ag' = m_plainMode ag" using work by (simp add: consoleWork_def)
  have sent: "sent (terminalOf ag') = []" using emit ok by (simp add: emits_def outputOk_def)
  have "pipeSends (conoutOk ag) (m_conoutPipe ag')"
    using ok by (intro pipeSends_emits [OF emit]) (simp_all add: outputOk_def)
  then have out: "pipeSends (conoutOk ag') (m_conoutPipe ag')" using emits_modes [OF emit] plain by simp
  have "sent (scTerminal es') = [] \<and> plainMode (scTerminal es') = m_plainMode ag' \<and>
      pipeSends (conerrOk (scTerminal es')) p'"
    if both: "m_errorScraper ag' = Some es'" "m_conerrPipe ag' = Some p'" for es' p'
  proof -
    have some: "m_errorScraper ag' \<noteq> None" "rel_option appended (m_conerrPipe ag) (m_conerrPipe ag')"
      using both work by (simp_all add: consoleWork_def)
    have "m_errorScraper ag' = None \<longleftrightarrow> m_errorScraper ag = None" using work by (simp add: consoleWork_def)
    then have "m_errorScraper ag \<noteq> None" using some(1) by metis
    moreover have "m_conerrPipe ag \<noteq> None" using some(2) both(2) by (cases "m_conerrPipe ag") simp_all
    ultimately have "m_errorScraper ag \<noteq> None" "m_conerrPipe ag \<noteq> None" by simp_all
    then obtain es p where esp: "m_errorScraper ag = Some es" "m_conerrPipe ag = Some p" by blast
    then have e: "emits (scTerminal es) p (scTerminal es') p'"
      using assms both unfolding consoleOutput_def by auto
    have es: "sent (scTerminal es) = []" "plainMode (scTerminal es) = m_plainMode ag"
        "pipeSends (conerrOk (scTerminal es)) p"
      using ok esp unfolding outputOk_def by blast+
    have "conerrOk (scTerminal es') = conerrOk (scTerminal es)"
      using emits_modes [OF e] by (intro ext) (simp add: conerrOk_def)
    moreover have "pipeSends (conerrOk (scTerminal es)) p'"
      by (rule pipeSends_emits [OF e es(1, 3)]) (simp add: conerrOk_def isTerminalPiece_def)
    moreover have "sent (scTerminal es') = []" using e es(1) by (simp add: emits_def)
    ultimately show ?thesis using emits_modes [OF e] es(2) plain by simp
  qed
  then show "outputOk ag'"
    using sent out emits_modes [OF emit] ok plain unfolding outputOk_def by auto
qed

section \<open>The parts of a turn\<close>

lemma sendDsr_keeps: "sendDsr ag = Some ag' \<Longrightarrow> keepsOutput ag ag'"
proof (cases "\<not> m_plainMode ag \<and> \<not> isClosed (m_conoutPipe ag)")
  case True
  assume "sendDsr ag = Some ag'"
  then have "ag' = ag\<lparr>m_conoutPipe := (m_conoutPipe ag)\<lparr>outQueue := outQueue (m_conoutPipe ag) @ pieceBytes DsrPiece\<rparr>\<rparr>"
    using True by (auto simp: sendDsr_def bind_eq_Some pipeWrite_def ASSERT_bind_Some)
  then show ?thesis
    using True by (intro keepsOutput_conout [where s = "pieceBytes DsrPiece"] streamOk_piece) simp_all
qed (simp add: sendDsr_def)

lemma foreach_keeps:
  assumes "\<And>x ag ag'. f x ag = Some ag' \<Longrightarrow> keepsOutput ag ag'"
  shows "foreach f xs ag = Some ag' \<Longrightarrow> keepsOutput ag ag'"
  by (induction xs arbitrary: ag) (auto simp: bind_eq_Some dest: assms intro: keepsOutput_trans)

lemma runConsoleInput_keeps:
  assumes "runConsoleInput f ag = Some ag'"
  shows "keepsOutput ag ag'"
proof -
  obtain st where st: "foreach (\<lambda>_. sendDsr) (filter (\<lambda>e. e = SentDsr) (evlog st))
       (ag\<lparr>m_consoleInput := st\<lparr>evlog := evlog (m_consoleInput ag) @ evlog st\<rparr>\<rparr>) = Some ag'"
    using assms by (auto simp: runConsoleInput_def bind_eq_Some Let_def)
  have "keepsOutput ag (ag\<lparr>m_consoleInput := st\<lparr>evlog := evlog (m_consoleInput ag) @ evlog st\<rparr>\<rparr>)"
    by (rule keepsOutput_same) simp_all
  also note foreach_keeps [OF sendDsr_keeps st]
  finally (keepsOutput_trans) show ?thesis .
qed

lemma pollConinPipe_keeps:
  assumes "pollConinPipe env ag = Some ag'"
  shows "keepsOutput ag ag'"
proof -
  obtain newData p where run: "(if inputSeparatedBytes env
     then foreach (\<lambda>c. runConsoleInput (writeInput (inputEnv env) [c])) newData (ag\<lparr>m_coninPipe := p\<rparr>)
     else runConsoleInput (writeInput (inputEnv env) newData) (ag\<lparr>m_coninPipe := p\<rparr>)) = Some ag'"
    using assms by (auto simp: pollConinPipe_def bind_eq_Some Let_def)
  have "keepsOutput ag (ag\<lparr>m_coninPipe := p\<rparr>)" by (rule keepsOutput_same) simp_all
  moreover have "keepsOutput (ag\<lparr>m_coninPipe := p\<rparr>) ag'"
    using run by (auto split: if_splits intro: runConsoleInput_keeps foreach_keeps [OF runConsoleInput_keeps])
  ultimately show ?thesis using keepsOutput_trans by blast
qed

lemma autoClose_keeps: "autoClosePipesForShutdown ag = Some ag' \<Longrightarrow> keepsOutput ag ag'"
  by (rule keepsOutput_same) (auto dest!: autoClose_facts)

lemma handlePacket_keepsOutput:
  assumes "handlePacket env bytes ag = Some (Inr ag')" and "8 \<le> length bytes" and "consoleOk (consoleEnv env)"
  shows "keepsOutput ag ag'"
proof -
  obtain req where req: "performRequest env req ag = Some (Inr ag')"
    using assms handlePacket_eq [OF assms(2), of env ag] by (auto split: sum.splits)
  obtain ag1 where ag1: "consoleOutput ag ag1" "sameConsole ag1 ag'"
    using performRequest_console [OF req assms(3)] by blast
  have "m_plainMode ag' = m_plainMode ag" "m_plainMode ag1 = m_plainMode ag"
    using performRequest_same [OF req] ag1(1) by (simp_all add: sameChannels_def consoleOutput_def consoleWork_def)
  then have "keepsOutput ag1 ag'"
    using ag1(2) by (intro keepsOutput_same) (simp_all add: sameConsole_def)
  then show ?thesis using consoleOutput_keeps [OF ag1(1)] keepsOutput_trans by blast
qed

lemma pollControlLoop_keeps:
  assumes "hasMode (openMode (m_controlPipe ag)) Reading" and "pollControlLoop env ag = Some (Inr ag')"
    and env: "consoleOk (consoleEnv env)"
  shows "keepsOutput ag ag'"
  using assms(1, 2)
proof (induction ag rule: pollControl_induct [where env = env])
  case (Step ag)
  let ?b = "readBufSize (m_controlPipe ag)"
  note step = pollControlLoop_step [OF Step(1), of env]
  have input: "keepsOutput ag (withInput q n ag)" for q n
    by (rule keepsOutput_same) (simp_all add: withInput_def)
  show ?case
  proof (cases "nextFrame (inQueue (m_controlPipe ag))")
    case (PartialFrame n)
    then show ?thesis using Step(3) step input by auto
  next
    case (WholeFrame p r)
    then have len: "8 \<le> length p" using nextFrame_Whole by fastforce
    show ?thesis
    proof (cases "\<exists>ag1. handlePacket env p (withInput r ?b ag) = Some (Inr ag1)")
      case True
      then obtain ag1 where h: "handlePacket env p (withInput r ?b ag) = Some (Inr ag1)" by blast
      have "pollControlLoop env ag1 = Some (Inr ag')" using Step(3) step WholeFrame h by simp
      then have "keepsOutput ag1 ag'" using Step(2) [OF WholeFrame h] handlePacket_keeps [OF h] Step(1) by simp
      then show ?thesis using input handlePacket_keepsOutput [OF h len env] keepsOutput_trans by blast
    next
      case False
      then have "ag' = rejectControl (withInput r ?b ag)"
        using Step(3) step WholeFrame by (auto split: option.splits sum.splits if_splits)
      moreover have "keepsOutput (withInput r ?b ag) (rejectControl (withInput r ?b ag))"
        by (rule keepsOutput_same) (auto simp: rejectControl_def shutdown_def)
      ultimately show ?thesis using input keepsOutput_trans by blast
    qed
  next
    case BadFrame
    then have "ag' = rejectControl ag" using Step(3) step by auto
    then show ?thesis by (intro keepsOutput_same) (auto simp: rejectControl_def shutdown_def)
  qed (use Step(3) step in auto)
qed

lemma syncConsoleTitle_keeps:
  assumes "syncConsoleTitle env ag = Some ag'"
  shows "keepsOutput ag ag'"
proof -
  obtain p t con cmd where f: "ag' = ag\<lparr>theConsole := con, m_conoutPipe := p, m_currentTitle := t\<rparr>"
      "p = (m_conoutPipe ag)\<lparr>outQueue := outQueue (m_conoutPipe ag) @ cmd\<rparr>"
      "cmd = [] \<or> \<not> m_plainMode ag \<and> (\<exists>title. cmd = titleCommand title)"
    using syncConsoleTitle_facts [OF assms] by blast
  have "streamOk (conoutOk ag) cmd"
  proof (cases "cmd = []")
    case False
    then obtain title where "cmd = pieceBytes (TitlePiece title)" "\<not> m_plainMode ag" using f(3) by auto
    then show ?thesis using streamOk_piece [of "conoutOk ag" "TitlePiece title"] by simp
  qed simp
  then show ?thesis using f(1, 2) by (intro keepsOutput_conout [where s = cmd]) simp_all
qed

lemma withTerminal_keeps:
  assumes "withTerminal (enableMouseMode b) ag = Some ag'"
  shows "keepsOutput ag ag'"
proof -
  obtain s p where sp: "ag' = ag\<lparr>m_primaryScraper := s, m_conoutPipe := p\<rparr>"
      "emits (terminalOf ag) (m_conoutPipe ag) (scTerminal s) p"
    using withTerminal_facts [OF assms mouse_tokens] by blast
  note modes = emits_modes [OF sp(2)]
  have "outputOk ag'" if ok: "outputOk ag"
  proof -
    have "pipeSends (conoutOk ag) p"
      using ok by (intro pipeSends_emits [OF sp(2)]) (simp_all add: outputOk_def)
    moreover have "sent (scTerminal s) = []" using sp(2) ok by (simp add: emits_def outputOk_def)
    ultimately show ?thesis using ok modes unfolding outputOk_def by (auto simp: sp(1))
  qed
  then show ?thesis by (simp add: keepsOutput_def)
qed

lemma onPollTimeout_keeps:
  assumes "onPollTimeout env ag = Some ag'" and "consoleOk (consoleEnv env)"
  shows "keepsOutput ag ag'"
proof -
  define ag0 where "ag0 = ag\<lparr>m_consoleInput := updateInputFlags (inputEnv env) (m_consoleInput ag)\<rparr>"
  obtain mouse ag1 ag3 ag4 where
      1: "runConsoleInput (flushIncompleteEscapeCode (inputEnv env)) ag0 = Some ag1" and
      3: "(if \<not> m_closingOutputPipes ag1 then do {
               a \<leftarrow> syncConsoleTitle env (checkChildExit env ag1);
               scrapeBuffers env a
             }
             else Some (checkChildExit env ag1)) = Some ag3" and
      4: "withTerminal (enableMouseMode (mouse \<and> \<not> m_closingOutputPipes ag3)) ag3 = Some ag4" and
      5: "autoClosePipesForShutdown ag4 = Some ag'"
    using assms(1) by (auto simp: onPollTimeout_def bind_eq_Some Let_def ag0_def)
  have "keepsOutput ag ag0" by (rule keepsOutput_same) (simp_all add: ag0_def)
  also note runConsoleInput_keeps [OF 1]
  also (keepsOutput_trans) have "keepsOutput ag1 (checkChildExit env ag1)"
    by (rule keepsOutput_same) (simp_all add: checkChildExit_def split: option.splits)
  also (keepsOutput_trans) have "keepsOutput (checkChildExit env ag1) ag3"
    using 3 scrapeBuffers_output [OF _ assms(2)] consoleOutput_keeps syncConsoleTitle_keeps keepsOutput_trans
    by (auto simp: bind_eq_Some split: if_splits) blast
  also (keepsOutput_trans) note withTerminal_keeps [OF 4]
  also (keepsOutput_trans) note autoClose_keeps [OF 5]
  finally (keepsOutput_trans) show ?thesis .
qed

lemma servicePipe_keeps:
  assumes "servicePipe ans pid ag = Some (did, waits, ag')" and "answersOk ans" and "pipesOk ag"
  shows "keepsOutput ag ag'"
proof (cases pid)
  case ConoutPipe
  then obtain ws p where p: "serviceIo (conoutAns ans) (m_conoutPipe ag) = Some (did, ws, p)"
      "ag' = ag\<lparr>m_conoutPipe := p\<rparr>"
    using assms(1) by (auto simp: servicePipe_def bind_eq_Some)
  have "pipeInv (m_conoutPipe ag)" "answersFit (conoutAns ans)"
    using assms(2, 3) by (simp_all add: pipesOk_def pipeOk_def answersOk_def)
  then show ?thesis
    using pipeSends_service [OF p(1)] by (auto simp: keepsOutput_def outputOk_def p(2))
next
  case ConerrPipe
  show ?thesis
  proof (cases "m_conerrPipe ag")
    case (Some q)
    then obtain ws p where p: "serviceIo (conerrAns ans) q = Some (did, ws, p)"
        "ag' = ag\<lparr>m_conerrPipe := Some p\<rparr>"
      using assms(1) ConerrPipe by (auto simp: servicePipe_def bind_eq_Some)
    have "pipeInv q" "answersFit (conerrAns ans)"
      using assms(2, 3) Some by (simp_all add: pipesOk_def pipeOk_def answersOk_def)
    then show ?thesis
      using pipeSends_service [OF p(1)] Some by (auto simp: keepsOutput_def outputOk_def p(2))
  qed (use assms(1) ConerrPipe in \<open>simp add: servicePipe_def\<close>)
qed (use assms(1) in \<open>auto simp: servicePipe_def bind_eq_Some intro!: keepsOutput_same\<close>)

lemma onPipeIo_keeps:
  assumes "onPipeIo env pid ag = Some (Inr ag')" and "consoleOk (consoleEnv env)" and "pipesOk ag"
  shows "keepsOutput ag ag'"
proof (cases pid)
  case ControlPipe
  then have poll: "pollControlPipe env ag = Some (Inr ag')" using assms(1) by (simp add: onPipeIo_def)
  show ?thesis
  proof (cases "isClosed (m_controlPipe ag)")
    case True
    then have "ag' = shutdown ag" using poll by (simp add: pollControlPipe_def)
    then show ?thesis by (intro keepsOutput_same) (auto simp: shutdown_def)
  next
    case False
    then have loop: "pollControlLoop env ag = Some (Inr ag')" using poll by (simp add: pollControlPipe_def)
    have "hasMode (openMode (m_controlPipe ag)) Reading" using assms(3) by (simp add: pipesOk_def pipeOk_def)
    then show ?thesis using pollControlLoop_keeps loop assms(2) by blast
  qed
qed (use assms in \<open>auto simp: onPipeIo_def intro: pollConinPipe_keeps autoClose_keeps\<close>)

text \<open>The conditions of a turn, with the invariant of the output.\<close>

definition soundAgent :: "AgentState \<Rightarrow> bool" where
  "soundAgent ag \<longleftrightarrow> pipesOk ag \<and> childOk ag \<and> mouseOk ag \<and> outputOk ag"

lemma turnPipe_sound:
  assumes "turnPipe env ans pid ag = Some (Inr (did, waits, ag'))" and "answersOk ans"
    and "consoleOk (consoleEnv env)" and "soundAgent ag"
  shows "soundAgent ag'"
proof -
  obtain ag1 where s: "servicePipe ans pid ag = Some (did, waits, ag1)"
      "if did then onPipeIo env pid ag1 = Some (Inr ag') else ag' = ag1"
    using turnPipe_parts [OF assms(1)] by blast
  have "pipesOk ag1" "outputOk ag1"
    using servicePipe_good [OF s(1) assms(2)] servicePipe_keeps [OF s(1) assms(2)] assms(4)
    by (simp_all add: good_def keepsOutput_def soundAgent_def)
  then have "outputOk ag'"
    using onPipeIo_keeps [of env pid ag1 ag'] s(2) assms(3) by (auto simp: keepsOutput_def split: if_splits)
  then show ?thesis using turnPipe_good [OF assms(1-3)] assms(4) by (simp add: good_def soundAgent_def)
qed

lemma loopTurn_sound:
  assumes "loopTurn env ans ag = Some (Inr (did, waits, ag'))" and "answersOk ans"
    and "consoleOk (consoleEnv env)" and "soundAgent ag"
  shows "soundAgent ag'"
proof -
  obtain did1 ag1 where t: "turnPipes env ans [ControlPipe, ConinPipe, ConoutPipe, ConerrPipe] ag = Some (Inr (did1, waits, ag1))"
      "if intervalElapsed ans then did \<and> onPollTimeout env ag1 = Some ag' else did = did1 \<and> ag' = ag1"
    using loopTurn_parts [OF assms(1)] by blast
  have "soundAgent ag1"
    by (rule turnPipes_induct [where P = soundAgent, OF t(1) assms(4)]) (rule turnPipe_sound [OF _ assms(2, 3)])
  then show ?thesis
    using t(2) onPollTimeout_good [OF _ assms(3)] onPollTimeout_keeps [OF _ assms(3)]
    by (auto simp: soundAgent_def good_def keepsOutput_def split: if_splits)
qed

text \<open>
  The title goes out as the program in the console has chosen it: a title with a BEL ends the command
  early, and what follows it reaches the client as output of its own.
\<close>

lemma title_sent_verbatim:
  assumes "consoleTitle (consoleEnv env) (theConsole ag) = Some (newTitle, con)"
    and "newTitle \<noteq> m_currentTitle ag" and "\<not> m_plainMode ag" and "handleOpen (m_conoutPipe ag)"
    and "hasMode (openMode (m_conoutPipe ag)) Writing"
    and "utf8FromWide (wideCharToMultiByte env) newTitle = Some title" and "CHR 0x00 \<notin> set title"
  shows "\<exists>ag'. syncConsoleTitle env ag = Some ag' \<and> m_currentTitle ag' = newTitle \<and>
     outQueue (m_conoutPipe ag') = outQueue (m_conoutPipe ag) @ CHR 0x1B # '']0;'' @ title @ [CHR 0x07]"
proof -
  have "cString (CHR 0x1B # '']0;'' @ title @ [CHR 0x07]) = CHR 0x1B # '']0;'' @ title @ [CHR 0x07]"
    using assms(7) unfolding cString_def by (intro takeWhile_eq_all_conv [THEN iffD2]) auto
  then show ?thesis
    using assms by (simp add: syncConsoleTitle_def isClosed_def pipeWrite_def ASSERT_bind_Some)
qed

section \<open>The start\<close>

lemma dataPipe_empty:
  assumes "createDataServerPipe toWrite a name = Some p"
  shows "delivered p = []" "outStream p = []"
proof -
  have "delivered p = [] \<and> outStream p = []"
    using assms
    by (auto simp: createDataServerPipe_def bind_eq_Some openServerPipe_def ASSERT_bind_Some Let_def newPipe_def
        setReadBufferSize_def startPipeWorkers_def outStream_def newWorker_def inFlight_def
        split: ConnectAnswer.splits if_splits)
  then show "delivered p = []" "outStream p = []" by simp_all
qed

lemma newAgent_outputOk:
  assumes "newAgent env names connect agentFlags mouse cols rows = Some (Inr ag)"
  shows "outputOk ag"
proof -
  obtain useErr plain color sz h eb con control conin conout conerr control1 where
      eb: "eb \<noteq> None \<longleftrightarrow> useErr" "\<not> m_frozen con" and
      c: "createDataServerPipe True (connect ConoutPipe) (conoutName names) = Some conout"
      "(if useErr then map_option Some (createDataServerPipe True (connect ConerrPipe) (conerrName names))
        else Some None) = Some conerr" and
      s: "startConsole env mouse useErr plain color sz h eb con control1 conin conout conerr = Some ag"
    using newAgent_parts [OF assms] by (elim exE conjE) (rule that)
  note facts = startConsole_facts [OF s eb(2, 1)]
  have empty: "pipeSends ok p" if "delivered p = []" "outStream p = []" for ok p
    using that by (auto simp: pipeSends_def intro: exI [of _ "[]"])
  have "pipeSends ok p" if "conerr = Some p" for ok p
    using c(2) that empty dataPipe_empty by (auto split: if_splits)
  then show ?thesis
    using facts(2, 5, 6, 14, 17) facts(18) empty [OF dataPipe_empty [OF c(1)]]
    unfolding outputOk_def by auto
qed

lemma reachable_sound:
  assumes "agentReachable ag"
  shows "soundAgent ag"
  using assms
proof (induction rule: agentReachable.induct)
  case (start env names connect agentFlags mouse cols rows ag)
  then show ?case using newAgent_ok [OF start] newAgent_outputOk [OF start] by (simp add: soundAgent_def)
next
  case (step ag ag')
  then show ?case using loopTurn_sound by (auto elim!: agentStepE)
qed

lemma plain_pieces_no_escape:
  assumes "streamOk (pieceOk True False) s"
  shows "CHR 0x1B \<notin> set s"
proof -
  obtain pieces where p: "s = concat (map pieceBytes pieces)" "\<forall>x \<in> set pieces. pieceOk True False x"
    using assms unfolding streamOk_def by blast
  have "CHR 0x1B \<notin> set (pieceBytes x)" if "x \<in> set pieces" for x
    using p(2) that plain_token_no_escape by (cases x) auto
  then show ?thesis using p(1) by auto
qed

text \<open>
  C8. Over the whole life of an agent, whatever its clients send and its console shows, the
  client of CONOUT receives the beginning of a sequence of whole pieces (all of it, while the pipe
  is open and its bytes are sent): encoded characters other than ESC, line ends and known control
  sequences of the terminal, the query for the cursor position and the command that sets the
  title. In plain mode there are neither queries nor titles, and the only control sequences are
  colours; without colours no ESC is ever delivered. CONERR never carries queries or titles.
\<close>

theorem agent_output_stream:
  assumes "agentReachable ag"
  shows "(\<exists>rest. streamOk (conoutOk ag) (delivered (m_conoutPipe ag) @ rest)) \<and>
     (handleOpen (m_conoutPipe ag) \<longrightarrow> streamOk (conoutOk ag) (outStream (m_conoutPipe ag))) \<and>
     (m_plainMode ag \<and> \<not> outputColor (terminalOf ag) \<longrightarrow> CHR 0x1B \<notin> set (delivered (m_conoutPipe ag))) \<and>
     (\<forall>p. m_conerrPipe ag = Some p \<longrightarrow> (\<exists>es rest. m_errorScraper ag = Some es \<and>
        streamOk (conerrOk (scTerminal es)) (delivered p @ rest)))"
proof -
  have ok: "outputOk ag" "pipesOk ag" using reachable_sound [OF assms] by (simp_all add: soundAgent_def)
  then obtain rest where out: "streamOk (conoutOk ag) (delivered (m_conoutPipe ag) @ rest)"
      "handleOpen (m_conoutPipe ag) \<longrightarrow> streamOk (conoutOk ag) (outStream (m_conoutPipe ag))"
    unfolding outputOk_def pipeSends_def by blast
  have "CHR 0x1B \<notin> set (delivered (m_conoutPipe ag))" if "m_plainMode ag" "\<not> outputColor (terminalOf ag)"
    using plain_pieces_no_escape [of "delivered (m_conoutPipe ag) @ rest"] out(1) that by simp
  moreover have "\<exists>es rest. m_errorScraper ag = Some es \<and> streamOk (conerrOk (scTerminal es)) (delivered p @ rest)"
    if "m_conerrPipe ag = Some p" for p
  proof -
    have "m_errorScraper ag \<noteq> None" using ok(2) that unfolding pipesOk_def by blast
    then obtain es where "m_errorScraper ag = Some es" by blast
    then show ?thesis using ok(1) that unfolding outputOk_def pipeSends_def by blast
  qed
  ultimately show ?thesis using out by blast
qed

theorem agent_output_stream_witness:
  "\<exists>ag. agentReachable ag \<and> (\<exists>rest. streamOk (conoutOk ag) (delivered (m_conoutPipe ag) @ rest))"
  using sampleRun agent_output_stream by blast

end
