(* ===== verification/EventLoop.thy ===== *)
theory EventLoop
  imports AgentLife
begin

text \<open>
  The event loop around the turns of the agent (src/agent/EventLoop.cc): the clock that decides
  when to poll, and the wait for an event or for the next poll when a turn found nothing to do.
  The answers of Windows (the clock at the three places where it is read, and whether the wait
  failed) are arguments.
\<close>

section \<open>The loop\<close>

record EventLoopState =
  theAgent :: AgentState
  m_pollInterval :: int
  lastTime :: u64

record ClockAnswers =
  checkTime :: u64
  pollTime :: u64
  waitTime :: u64
  waitFailed :: bool

definition INFINITE :: u32 where "INFINITE = 0xFFFFFFFF"

definition setPollInterval :: "int \<Rightarrow> EventLoopState \<Rightarrow> EventLoopState" where
  "setPollInterval ms st = st\<lparr>m_pollInterval := ms\<rparr>"

definition pollDue :: "u64 \<Rightarrow> EventLoopState \<Rightarrow> bool" where
  "pollDue now st \<longleftrightarrow> m_pollInterval st > 0 \<and> now - lastTime st \<ge> of_int (m_pollInterval st)"

definition waitTimeout :: "u64 \<Rightarrow> EventLoopState \<Rightarrow> u32" where
  "waitTimeout now st =
     (if m_pollInterval st > 0 then
        let elapsed = now - lastTime st
        in if elapsed \<ge> of_int (m_pollInterval st) then 0 else ucast (of_int (m_pollInterval st) - elapsed)
      else INFINITE)"

datatype LoopWait = NoWait | Sleep u32 | WaitForObjects "WaitHandle list" u32

definition waitForWork :: "ClockAnswers \<Rightarrow> WaitHandle list \<Rightarrow> EventLoopState \<Rightarrow> LoopWait option" where
  "waitForWork clk waitHandles st = do {
     let timeout = waitTimeout (waitTime clk) st;
     if waitHandles = [] then do {
       ASSERT (timeout \<noteq> INFINITE);
       Some (if timeout > 0 then Sleep timeout else NoWait)
     }
     else do {
       ASSERT (\<not> waitFailed clk);
       Some (WaitForObjects waitHandles timeout)
     }
   }"

text \<open>The body of the loop. The flag \<open>intervalElapsed\<close> of the turn is what the clock says.\<close>

definition loopBody :: "AgentEnv \<Rightarrow> TurnAnswers \<Rightarrow> ClockAnswers \<Rightarrow> EventLoopState \<Rightarrow>
    (LoopWait \<times> EventLoopState) outcome" where
  "loopBody env ans clk st =
     (let due = pollDue (checkTime clk) st
      in obind (loopTurn env (ans\<lparr>intervalElapsed := due\<rparr>) (theAgent st)) (\<lambda>(didSomething, waitHandles, ag).
         let st1 = st\<lparr>theAgent := ag, lastTime := (if due then pollTime clk else lastTime st)\<rparr>
         in if didSomething then Some (Inr (NoWait, st1))
            else map_option (\<lambda>w. Inr (w, st1)) (waitForWork clk waitHandles st1)))"

text \<open>The loop over a list of answers, one for each round; it ends by itself once the agent exits.\<close>

fun runLoop :: "(AgentEnv \<times> TurnAnswers \<times> ClockAnswers) list \<Rightarrow> EventLoopState \<Rightarrow> EventLoopState outcome" where
  "runLoop [] st = Some (Inr st)"
| "runLoop ((env, ans, clk) # rounds) st =
     (if m_exiting (theAgent st) then Some (Inr st)
      else obind (loopBody env ans clk st) (\<lambda>(_, st1). runLoop rounds st1))"

definition startLoop :: "u64 \<Rightarrow> AgentState \<Rightarrow> EventLoopState" where
  "startLoop now ag = setPollInterval 25 \<lparr>theAgent = ag, m_pollInterval = 0, lastTime = now\<rparr>"

section \<open>Rounds are steps of the agent\<close>

definition roundOk :: "AgentEnv \<times> TurnAnswers \<times> ClockAnswers \<Rightarrow> bool" where
  "roundOk r \<longleftrightarrow> consoleOk (consoleEnv (fst r)) \<and> answersOk (fst (snd r))"

lemma answersOk_elapsed [simp]: "answersOk (ans\<lparr>intervalElapsed := b\<rparr>) = answersOk ans"
  by (simp add: answersOk_def)

lemma loopBody_parts:
  assumes "loopBody env ans clk st = Some (Inr (w, st'))"
  shows "\<exists>did waits. loopTurn env (ans\<lparr>intervalElapsed := pollDue (checkTime clk) st\<rparr>) (theAgent st) =
       Some (Inr (did, waits, theAgent st')) \<and>
     m_pollInterval st' = m_pollInterval st \<and>
     lastTime st' = (if pollDue (checkTime clk) st then pollTime clk else lastTime st) \<and>
     (if did then w = NoWait else waitForWork clk waits st' = Some w)"
proof -
  define due where "due = pollDue (checkTime clk) st"
  obtain did waits ag where t: "loopTurn env (ans\<lparr>intervalElapsed := due\<rparr>) (theAgent st) = Some (Inr (did, waits, ag))"
    and rest: "(let st1 = st\<lparr>theAgent := ag, lastTime := (if due then pollTime clk else lastTime st)\<rparr>
         in if did then Some (Inr (NoWait, st1))
            else map_option (\<lambda>w. Inr (w, st1)) (waitForWork clk waits st1)) =
         (Some (Inr (w, st')) :: (LoopWait \<times> EventLoopState) outcome)"
    using assms unfolding loopBody_def Let_def due_def [symmetric] obind_Inr by auto
  define st1 where "st1 = st\<lparr>theAgent := ag, lastTime := (if due then pollTime clk else lastTime st)\<rparr>"
  have st': "st' = st1" "if did then w = NoWait else waitForWork clk waits st1 = Some w"
    using rest unfolding Let_def st1_def [symmetric] by (auto split: if_splits)
  show ?thesis
    unfolding due_def [symmetric] st'(1)
    by (rule exI [of _ did], rule exI [of _ waits]) (use t st'(2) in \<open>simp add: st1_def\<close>)
qed

lemma runLoop_reachable:
  assumes "runLoop rounds st = Some (Inr st')" and "agentReachable (theAgent st)" and "list_all roundOk rounds"
  shows "agentReachable (theAgent st') \<and> m_pollInterval st' = m_pollInterval st"
  using assms
proof (induction rounds arbitrary: st)
  case (Cons r rounds)
  obtain env ans clk where r: "r = (env, ans, clk)" by (cases r)
  show ?case
  proof (cases "m_exiting (theAgent st)")
    case False
    then obtain w st1 where 1: "loopBody env ans clk st = Some (Inr (w, st1))" "runLoop rounds st1 = Some (Inr st')"
      using Cons.prems(1) by (auto simp: r obind_Inr)
    obtain did waits where "loopTurn env (ans\<lparr>intervalElapsed := pollDue (checkTime clk) st\<rparr>) (theAgent st) =
       Some (Inr (did, waits, theAgent st1))" "m_pollInterval st1 = m_pollInterval st"
      using loopBody_parts [OF 1(1)] by blast
    moreover from this have "agentStep (theAgent st) (theAgent st1)"
      using Cons.prems(3) False
      by (intro agentStep.turn [where env = env and ans = "ans\<lparr>intervalElapsed := pollDue (checkTime clk) st\<rparr>"])
        (simp_all add: roundOk_def r)
    ultimately show ?thesis
      using Cons.IH [OF 1(2)] Cons.prems(2, 3) agentReachable.step by simp
  qed (use Cons.prems r in simp)
qed simp

section \<open>Waiting\<close>

text \<open>The events among the handles cover everything that the pipes still have to do.\<close>

definition waitsFor :: "WaitHandle list \<Rightarrow> PipeId \<Rightarrow> 'b Pipe \<Rightarrow> bool" where
  "waitsFor handles pid p \<longleftrightarrow> isClosed p \<or> waitsForWork (map snd (filter (\<lambda>h. fst h = pid) handles)) p"

definition waitsForAll :: "WaitHandle list \<Rightarrow> AgentState \<Rightarrow> bool" where
  "waitsForAll handles ag \<longleftrightarrow> waitsFor handles ControlPipe (m_controlPipe ag) \<and>
     waitsFor handles ConinPipe (m_coninPipe ag) \<and> waitsFor handles ConoutPipe (m_conoutPipe ag) \<and>
     (\<forall>p. m_conerrPipe ag = Some p \<longrightarrow> waitsFor handles ConerrPipe p)"

lemma waitsForWork_mono: "waitsForWork ws p \<Longrightarrow> set ws \<subseteq> set ws' \<Longrightarrow> waitsForWork ws' p"
  by (auto simp: waitsForWork_def split: if_splits)

lemma waitsFor_mono: "waitsFor hs pid p \<Longrightarrow> set hs \<subseteq> set hs' \<Longrightarrow> waitsFor hs' pid p"
  by (fastforce simp: waitsFor_def intro: waitsForWork_mono)

lemma serviceIo_waitsFor:
  assumes "serviceIo ans p = Some (did, waits, p')" and "pipeOk mode p" and "answersFit ans"
  shows "waitsFor (map (Pair pid) waits) pid p'"
proof -
  have "map snd (filter (\<lambda>h. fst h = pid) (map (Pair pid) waits)) = waits" by (induction waits) simp_all
  then show ?thesis
    using serviceIo_result [OF assms(1) _ assms(3)] assms(2) by (auto simp: waitsFor_def isClosed_def pipeOk_def)
qed

text \<open>A pipe that had nothing to do is left waiting, and the other pipes are left alone.\<close>

definition pipeWaits :: "WaitHandle list \<Rightarrow> PipeId \<Rightarrow> AgentState \<Rightarrow> bool" where
  "pipeWaits handles pid ag \<longleftrightarrow> (case pid of
      ControlPipe \<Rightarrow> waitsFor handles pid (m_controlPipe ag)
    | ConinPipe \<Rightarrow> waitsFor handles pid (m_coninPipe ag)
    | ConoutPipe \<Rightarrow> waitsFor handles pid (m_conoutPipe ag)
    | ConerrPipe \<Rightarrow> (\<forall>p. m_conerrPipe ag = Some p \<longrightarrow> waitsFor handles pid p))"

lemma idle_pipe:
  assumes "turnPipe env ans pid ag = Some (Inr (False, waits, ag'))" and "pipesOk ag" and "answersOk ans"
  shows "pipeWaits waits pid ag' \<and> (\<forall>q hs. q \<noteq> pid \<longrightarrow> pipeWaits hs q ag' = pipeWaits hs q ag)"
proof -
  have s: "servicePipe ans pid ag = Some (False, waits, ag')" using turnPipe_parts [OF assms(1)] by simp
  have "pipeWaits waits pid ag'"
    using s assms(2, 3)
    by (cases pid) (auto simp: servicePipe_def bind_eq_Some pipeWaits_def pipesOk_def answersOk_def
        split: option.splits intro: serviceIo_waitsFor)
  moreover have "pipeWaits hs q ag' = pipeWaits hs q ag" if "q \<noteq> pid" for q hs
    using s that
    by (cases pid; cases q) (auto simp: servicePipe_def bind_eq_Some pipeWaits_def split: option.splits)
  ultimately show ?thesis by blast
qed

lemma pipeWaits_mono: "pipeWaits hs pid ag \<Longrightarrow> set hs \<subseteq> set hs' \<Longrightarrow> pipeWaits hs' pid ag"
  by (auto simp: pipeWaits_def split: PipeId.splits intro: waitsFor_mono)

lemma idle_pipes:
  assumes "turnPipes env ans pids ag = Some (Inr (False, waits, ag'))" and "distinct pids"
    and "pipesOk ag \<and> childOk ag \<and> mouseOk ag" and "answersOk ans" and "consoleOk (consoleEnv env)"
  shows "(\<forall>pid \<in> set pids. pipeWaits waits pid ag') \<and>
     (\<forall>q hs. q \<notin> set pids \<longrightarrow> pipeWaits hs q ag' = pipeWaits hs q ag)"
  using assms(1-3)
proof (induction pids arbitrary: ag waits)
  case (Cons pid pids)
  obtain waits1 ag1 waits2 where t: "turnPipe env ans pid ag = Some (Inr (False, waits1, ag1))"
      "turnPipes env ans pids ag1 = Some (Inr (False, waits2, ag'))" "waits = waits1 @ waits2"
    using turnPipes_parts [OF Cons.prems(1)] by auto
  have "good ag ag1" using turnPipe_good [OF t(1) assms(4, 5)] .
  then have rest: "\<forall>p \<in> set pids. pipeWaits waits2 p ag'"
      "\<forall>q hs. q \<notin> set pids \<longrightarrow> pipeWaits hs q ag' = pipeWaits hs q ag1"
    using Cons.IH [OF t(2)] Cons.prems(2, 3) by (auto simp: good_def)
  have first: "pipeWaits waits1 pid ag1" "\<forall>q hs. q \<noteq> pid \<longrightarrow> pipeWaits hs q ag1 = pipeWaits hs q ag"
    using idle_pipe [OF t(1)] Cons.prems(3) assms(4) by blast+
  have "pipeWaits waits1 pid ag'" using first(1) rest(2) Cons.prems(2) by simp
  then show ?case
    using rest first(2) pipeWaits_mono [of waits1 _ ag' waits] pipeWaits_mono [of waits2 _ ag' waits]
    by (auto simp: t(3))
qed simp

lemma waitsForAll_pipes:
  "waitsForAll hs ag \<longleftrightarrow> (\<forall>pid \<in> set [ControlPipe, ConinPipe, ConoutPipe, ConerrPipe]. pipeWaits hs pid ag)"
  by (auto simp: waitsForAll_def pipeWaits_def)

text \<open>The timeout is the rest of the poll interval.\<close>

lemma waitTimeout_rest:
  assumes "0 < m_pollInterval st" and "m_pollInterval st \<le> 2147483647"
  shows "uint (waitTimeout now st) = max 0 (m_pollInterval st - uint (now - lastTime st))"
proof -
  define n elapsed where "n = (of_int (m_pollInterval st) :: u64)" and "elapsed = now - lastTime st"
  have n: "uint n = m_pollInterval st"
    using assms unfolding n_def by (simp add: uint_word_of_int)
  have "uint (ucast (n - elapsed) :: u32) = uint n - uint elapsed" if "elapsed < n"
  proof -
    have "uint (n - elapsed) = uint n - uint elapsed" using that uint_sub_lem [of elapsed n] by (simp add: word_less_def)
    moreover have "0 \<le> uint n - uint elapsed" "uint n - uint elapsed < 4294967296"
      using n assms(2) uint_ge_0 [of elapsed] that unfolding word_less_def by linarith+
    ultimately show ?thesis by (simp add: unsigned_ucast_eq take_bit_int_eq_self)
  qed
  then show ?thesis
    using assms(1) n by (auto simp: waitTimeout_def Let_def word_le_def word_less_def simp flip: n_def elapsed_def)
qed

text \<open>
  C13. The event loop loses no wake-up and does not oversleep: when a round ends in a wait, nothing
  is left that could be done at once, every open pipe with work left has its event among the
  handles waited for, and the wait ends when the rest of the poll interval is over, so its time is
  never infinite. Every round takes a reachable agent to a reachable one, and with the
  answers of Windows as documented no assertion of the loop fails.
\<close>

theorem loop_waits_for_work:
  assumes "agentReachable (theAgent st)" and "\<not> m_exiting (theAgent st)"
    and "0 < m_pollInterval st" and "m_pollInterval st \<le> 2147483647"
    and "roundOk (env, ans, clk)" and "\<not> waitFailed clk"
    and "loopTurn env (ans\<lparr>intervalElapsed := pollDue (checkTime clk) st\<rparr>) (theAgent st) =
      Some (Inr (did, waits, ag))"
  shows "\<exists>w st'. loopBody env ans clk st = Some (Inr (w, st')) \<and> theAgent st' = ag \<and> agentReachable ag \<and>
     (pollDue (checkTime clk) st \<longrightarrow> did) \<and>
     (if did then w = NoWait
      else waitsForAll waits ag \<and> lastTime st' = lastTime st \<and>
        (let rest = max 0 (m_pollInterval st - uint (waitTime clk - lastTime st))
         in w = (if waits \<noteq> [] then WaitForObjects waits (of_int rest)
                 else if rest = 0 then NoWait else Sleep (of_int rest))))"
proof -
  define due where "due = pollDue (checkTime clk) st"
  note turn = assms(7) [folded due_def]
  define st1 where "st1 = st\<lparr>theAgent := ag, lastTime := (if due then pollTime clk else lastTime st)\<rparr>"
  have reach: "agentReachable ag"
    using assms(1, 2, 5) turn by (intro agentReachable.step [OF assms(1)] agentStep.turn [OF assms(2) _ _ turn])
      (simp_all add: roundOk_def)
  show ?thesis
  proof (cases did)
    case True
    then have "loopBody env ans clk st = Some (Inr (NoWait, st1))"
      using turn by (simp add: loopBody_def st1_def flip: due_def)
    then show ?thesis using True reach by (simp add: st1_def)
  next
    case False
    obtain did1 ag1 where p: "turnPipes env (ans\<lparr>intervalElapsed := due\<rparr>)
        [ControlPipe, ConinPipe, ConoutPipe, ConerrPipe] (theAgent st) = Some (Inr (did1, waits, ag1))"
        "if due then did \<and> onPollTimeout env ag1 = Some ag else did = did1 \<and> ag = ag1"
      using loopTurn_parts [OF turn] by auto
    then have idle: "\<not> due" "did1 = False" "ag1 = ag" using False by (auto split: if_splits)
    have "waitsForAll waits ag"
      using idle_pipes [OF p(1) [unfolded idle(2, 3)]] reachable_good [OF assms(1)] assms(5)
      by (simp add: waitsForAll_pipes roundOk_def)
    define rest where "rest = max 0 (m_pollInterval st - uint (waitTime clk - lastTime st))"
    have st1: "m_pollInterval st1 = m_pollInterval st" "lastTime st1 = lastTime st" "theAgent st1 = ag"
      using idle(1) by (simp_all add: st1_def)
    have time: "uint (waitTimeout (waitTime clk) st1) = rest"
      using waitTimeout_rest [of st1 "waitTime clk"] assms(3, 4) st1 by (simp add: rest_def)
    have small: "rest \<le> 2147483647"
      using assms(4) uint_ge_0 [of "waitTime clk - lastTime st"] unfolding rest_def by linarith
    have "waitTimeout (waitTime clk) st1 = of_int rest" using time by (metis word_of_int_uint)
    moreover have "waitTimeout (waitTime clk) st1 \<noteq> INFINITE" using time small by (auto simp: INFINITE_def)
    moreover have "0 < waitTimeout (waitTime clk) st1 \<longleftrightarrow> rest \<noteq> 0"
      using time by (auto simp: word_less_def rest_def)
    ultimately have wait: "waitForWork clk waits st1 = Some (if waits \<noteq> [] then WaitForObjects waits (of_int rest)
                 else if rest = 0 then NoWait else Sleep (of_int rest))"
      using assms(6) by (simp add: waitForWork_def)
    have "loopBody env ans clk st = map_option (\<lambda>w. Inr (w, st1)) (waitForWork clk waits st1)"
      using turn False by (simp add: loopBody_def st1_def Let_def flip: due_def)
    then show ?thesis
      using wait False \<open>waitsForAll waits ag\<close> st1 reach idle(1) by (simp add: rest_def Let_def flip: due_def)
  qed
qed


text \<open>The first round of a new agent finds nothing to do; five ticks of the interval have passed.\<close>

definition idleTurn :: TurnAnswers where
  "idleTurn = \<lparr>controlAns = idleAnswers [], coninAns = idleAnswers [],
     conoutAns = idleAnswers [], conerrAns = idleAnswers [], intervalElapsed = False\<rparr>"

lemma serviceIo_idle:
  assumes "out \<noteq> []" and "length out < 64 * 1024"
  shows "\<exists>p. serviceIo (idleAnswers []) ((openPipe Duplex [])\<lparr>outQueue := out\<rparr>) =
      Some (False, [InputEvent, OutputEvent], p)"
  using assms
  by (simp add: serviceIo_def connectStage_def idleAnswers_def openPipe_def newPipe_def startPipeWorkers_def
      serviceOne_def service_def serviceLoop.simps newWorker_def isConnecting_def isClosed_def kIoSize_def
      checkedNarrow_eq isNarrowable_def range_defs hasMode_def Let_def waitEventOf_def)

lemma sampleRound:
  "\<exists>env ag ag'. agentReachable ag \<and> \<not> m_exiting ag \<and> consoleOk (consoleEnv env) \<and>
     loopTurn env idleTurn ag = Some (Inr (False, [(ControlPipe, InputEvent), (ControlPipe, OutputEvent),
       (ConinPipe, ConnectEvent), (ConoutPipe, ConnectEvent)], ag'))"
proof -
  let ?env = "sampleAgentEnv (Created 100 200) (\<lambda>_. None)"
  let ?out = "frame (drop 8 (setupPacket False sampleNames))"
  obtain st con sc where new:
      "newAgent ?env sampleNames (\<lambda>_. ConnectPending) 0 1 80 25 = Some (Inr (startedAgent st con sc))"
    using startedAgent_new by blast
  define ag where "ag = startedAgent st con sc"
  have pipes: "m_controlPipe ag = (openPipe Duplex [])\<lparr>outQueue := ?out\<rparr>"
      "m_coninPipe ag = newPipe\<lparr>pipeName := [0x69], handleOpen := True, openMode := Reading, connecting := True\<rparr>"
      "m_conoutPipe ag = newPipe\<lparr>pipeName := [0x6F], handleOpen := True, openMode := Writing, connecting := True\<rparr>"
      "m_conerrPipe ag = None" "\<not> m_exiting ag"
    by (simp_all add: ag_def startedAgent_def sampleAgent_def)
  have "?out \<noteq> [] \<and> length ?out < 64 * 1024"
    by (simp add: frame_def leBytes_def setupPacket_def sampleNames_def put_defs newPacket_def
        writeAgentHandshake_def VT7PTY_AGENT_IDENTITY_def wliteral_def)
  then obtain p where p: "serviceIo (idleAnswers []) (m_controlPipe ag) = Some (False, [InputEvent, OutputEvent], p)"
    using serviceIo_idle pipes(1) by metis
  define ag1 where "ag1 = ag\<lparr>m_controlPipe := p\<rparr>"
  have "turnPipe ?env idleTurn ControlPipe ag = Some (Inr (False, [(ControlPipe, InputEvent), (ControlPipe, OutputEvent)], ag1))"
    using p by (simp add: turnPipe_def servicePipe_def idleTurn_def ag1_def)
  moreover have "turnPipe ?env idleTurn ConinPipe ag1 = Some (Inr (False, [(ConinPipe, ConnectEvent)], ag1))"
    "turnPipe ?env idleTurn ConoutPipe ag1 = Some (Inr (False, [(ConoutPipe, ConnectEvent)], ag1))"
    "turnPipe ?env idleTurn ConerrPipe ag1 = Some (Inr (False, [], ag1))"
    using pipes serviceIo_waiting [OF pipes(2)] serviceIo_waiting [OF pipes(3)]
    by (simp_all add: turnPipe_def servicePipe_def idleTurn_def ag1_def)
  moreover have "\<not> intervalElapsed idleTurn" by (simp add: idleTurn_def)
  ultimately have "loopTurn ?env idleTurn ag = Some (Inr (False, [(ControlPipe, InputEvent), (ControlPipe, OutputEvent),
       (ConinPipe, ConnectEvent), (ConoutPipe, ConnectEvent)], ag1))"
    by (simp add: loopTurn_def)
  moreover have "agentReachable ag" using agentReachable.start [OF new] by (simp add: ag_def)
  moreover have "consoleOk (consoleEnv ?env)" using sampleConsole_ok by (simp add: sampleAgentEnv_def)
  ultimately show ?thesis using pipes(5) by blast
qed

theorem loop_waits_for_work_witness:
  "\<exists>env st st'. loopBody env idleTurn \<lparr>checkTime = 105, pollTime = 0, waitTime = 105, waitFailed = False\<rparr> st =
     Some (Inr (WaitForObjects [(ControlPipe, InputEvent), (ControlPipe, OutputEvent),
       (ConinPipe, ConnectEvent), (ConoutPipe, ConnectEvent)] 20, st'))"
proof -
  let ?clk = "\<lparr>checkTime = 105, pollTime = 0, waitTime = 105, waitFailed = False\<rparr>"
  obtain env ag ag' where a: "agentReachable ag" "\<not> m_exiting ag" "consoleOk (consoleEnv env)"
      "loopTurn env idleTurn ag = Some (Inr (False, [(ControlPipe, InputEvent), (ControlPipe, OutputEvent),
       (ConinPipe, ConnectEvent), (ConoutPipe, ConnectEvent)], ag'))"
    using sampleRound by blast
  define st where "st = startLoop 100 ag"
  have st: "theAgent st = ag" "m_pollInterval st = 25" "lastTime st = 100"
    by (simp_all add: st_def startLoop_def setPollInterval_def)
  have due: "\<not> pollDue 105 st" by (simp add: pollDue_def st)
  have ok: "roundOk (env, idleTurn, ?clk)"
    using a(3) by (simp add: roundOk_def idleTurn_def answersOk_def answersFit_def idleAnswers_def fitsBuffer_def)
  have same: "idleTurn\<lparr>intervalElapsed := pollDue (checkTime ?clk) st\<rparr> = idleTurn"
    using due by (simp add: idleTurn_def)
  have turn: "loopTurn env (idleTurn\<lparr>intervalElapsed := pollDue (checkTime ?clk) st\<rparr>) (theAgent st) =
      Some (Inr (False, [(ControlPipe, InputEvent), (ControlPipe, OutputEvent),
       (ConinPipe, ConnectEvent), (ConoutPipe, ConnectEvent)], ag'))"
    using a(4) same st(1) by simp
  have hyp: "agentReachable (theAgent st)" "\<not> m_exiting (theAgent st)" "0 < m_pollInterval st"
      "m_pollInterval st \<le> 2147483647" "\<not> waitFailed ?clk"
    using a st by simp_all
  obtain w st' where w: "loopBody env idleTurn ?clk st = Some (Inr (w, st'))"
      "w = WaitForObjects [(ControlPipe, InputEvent), (ControlPipe, OutputEvent),
       (ConinPipe, ConnectEvent), (ConoutPipe, ConnectEvent)] (of_int (max 0 (m_pollInterval st - uint (waitTime ?clk - lastTime st))))"
    using loop_waits_for_work [OF hyp(1-4) ok hyp(5) turn] by (auto simp: Let_def)
  have "max 0 (m_pollInterval st - uint (waitTime ?clk - lastTime st)) = 20" by (simp add: st)
  then show ?thesis using w by auto
qed

end
