(* ===== verification/Startup.thy ===== *)
theory Startup
  imports ClientApi AgentLoop
begin

text \<open>
  How an agent is started: the names of its pipes (src/shared/GenRandom.cc) and the main program
  of the agent, which reads the command line that the client library has composed
  (src/agent/main.cc). The random generators of Windows, the clock and the splitting of a
  command line by \<open>CommandLineToArgvW\<close> are arguments.
\<close>

section \<open>Random names\<close>

text \<open>
  \<open>rtlGenRandom\<close> is \<^term>\<open>None\<close> when the procedure is missing from advapi32.dll, and a call answers
  \<^term>\<open>None\<close> when it fails.
\<close>

record RandomEnv =
  rtlGenRandom :: "(nat \<Rightarrow> u8 list option) option"
  cryptAcquired :: bool
  cryptGenRandom :: "nat \<Rightarrow> u8 list option"

definition fillBuffer :: "RandomEnv \<Rightarrow> nat \<Rightarrow> u8 list option option" where
  "fillBuffer renv n = (case rtlGenRandom renv of
      Some generate \<Rightarrow> do { checkedNarrow DWORD_range (int n); Some (generate n) }
    | None \<Rightarrow>
        if cryptAcquired renv then do {
          checkedNarrow DWORD_range (int n);
          let answer = cryptGenRandom renv n;
          (if answer = None then map_option (\<lambda>_. ()) (checkedNarrow int_range (int n)) else Some ());
          Some answer
        }
        else Some None)"

definition randomBytes :: "RandomEnv \<Rightarrow> nat \<Rightarrow> u8 list option" where
  "randomBytes renv numBytes = do {
     r \<leftarrow> fillBuffer renv numBytes;
     Some (case r of None \<Rightarrow> [] | Some bytes \<Rightarrow> resize numBytes 0 bytes)
   }"

definition randomHexString :: "RandomEnv \<Rightarrow> nat \<Rightarrow> string option" where
  "randomHexString renv numBytes = do {
     bytes \<leftarrow> randomBytes renv numBytes;
     Some (concat (map (\<lambda>b. [hexDigit (unat (drop_bit 4 b)), hexDigit (unat (b AND 0xF))]) bytes))
   }"

definition systemTimeAsUInt64 :: "u32 \<Rightarrow> u32 \<Rightarrow> u64" where
  "systemTimeAsUInt64 dwHighDateTime dwLowDateTime =
     push_bit 32 (ucast dwHighDateTime) OR ucast dwLowDateTime"

text \<open>The counter is shared by the process; \<open>InterlockedIncrement\<close> returns the new value.\<close>

definition genUniqueName :: "u32 \<Rightarrow> RandomEnv \<Rightarrow> u64 \<Rightarrow> u32 \<Rightarrow> (string \<times> u32) option" where
  "genUniqueName pid renv time g_pipeCounter = do {
     let counter = g_pipeCounter + 1;
     let result = formatInt (uint pid) @ ''-'' @ formatInt (sint counter) @ ''-'' @ hexadecimal (unat time);
     random \<leftarrow> randomHexString renv 16;
     Some (if random \<noteq> [] then result @ ''-'' @ random else result, counter)
   }"

definition dataPipeName :: "string \<Rightarrow> string \<Rightarrow> wstring" where
  "dataPipeName kind uniq = wliteral [CHR 0x5C, CHR 0x5C, CHR ''.'', CHR 0x5C] @ wliteral ''pipe'' @ [0x5C] @
     wliteral (''vt7pty-data-v1-'' @ kind @ ''-'' @ uniq)"

section \<open>The main program of the agent\<close>

text \<open>
  \<open>strtoll\<close> and \<open>atoi\<close> of the Microsoft C library: spaces, a sign, digits; too large a value
  becomes the nearest one of the type.
\<close>

definition isSpace :: "char \<Rightarrow> bool" where
  "isSpace c \<longleftrightarrow> c = CHR '' '' \<or> (of_char c :: nat) \<in> {9..13}"

definition parseDecimal :: "int_range \<Rightarrow> string \<Rightarrow> int" where
  "parseDecimal r str =
     (let s = dropWhile isSpace str;
          digits = (if s \<noteq> [] \<and> (hd s = CHR ''-'' \<or> hd s = CHR ''+'') then tl s else s);
          n = int (digits_val (takeWhile is_digit digits));
          v = (if s \<noteq> [] \<and> hd s = CHR ''-'' then - n else n)
      in max (fst r) (min (snd r) v))"

definition vt7pty_atoi64 :: "string \<Rightarrow> u64" where
  "vt7pty_atoi64 str = of_int (parseDecimal (- 9223372036854775808, 9223372036854775807) str)"

definition atoi :: "string \<Rightarrow> int" where
  "atoi str = parseDecimal int_range str"

datatype MainAction = PrintVersion | ShowInput bool bool | BadShowInputOption wstring | PrintUsage
  | RunAgent wstring u64 int int int

fun showInputOptions :: "wstring list \<Rightarrow> bool \<Rightarrow> bool \<Rightarrow> MainAction" where
  "showInputOptions [] withMouse escapeInput = ShowInput withMouse escapeInput"
| "showInputOptions (a # args) withMouse escapeInput =
     (if a = wliteral ''--with-mouse'' then showInputOptions args True escapeInput
      else if a = wliteral ''--escape-input'' then showInputOptions args withMouse True
      else BadShowInputOption a)"

definition agentMain :: "(wstring \<Rightarrow> int \<Rightarrow> int \<times> string) \<Rightarrow> wstring list \<Rightarrow> MainAction option" where
  "agentMain convert argv =
     (if length argv = 2 \<and> argv ! 1 = wliteral ''--version'' then Some PrintVersion
      else if length argv \<ge> 2 \<and> argv ! 1 = wliteral ''--show-input''
      then Some (showInputOptions (drop 2 argv) False False)
      else if length argv \<noteq> 6 then Some PrintUsage
      else do {
        agentFlags \<leftarrow> utf8FromWide convert (argv ! 2);
        mouse \<leftarrow> utf8FromWide convert (argv ! 3);
        cols \<leftarrow> utf8FromWide convert (argv ! 4);
        rows \<leftarrow> utf8FromWide convert (argv ! 5);
        Some (RunAgent (argv ! 1) (vt7pty_atoi64 (cString agentFlags)) (atoi (cString mouse))
          (atoi (cString cols)) (atoi (cString rows)))
      })"

definition exitCode :: "MainAction \<Rightarrow> int" where
  "exitCode action = (case action of PrintVersion \<Rightarrow> 0 | ShowInput _ _ \<Rightarrow> 0 | _ \<Rightarrow> 1)"

section \<open>Names differ\<close>

lemma of_char_hexDigit: "n < 16 \<Longrightarrow> (of_char (hexDigit n) :: nat) = (if n < 10 then 48 + n else 87 + n)"
  by (simp add: of_char_of)

definition hexChars :: "string" where "hexChars = ''0123456789abcdef''"

lemma hexDigit_chars_all: "list_all (\<lambda>n. hexDigit n \<in> set hexChars) [0..<16]"
  by code_simp

lemma hexDigit_chars: "n < 16 \<Longrightarrow> hexDigit n \<in> set hexChars"
  using hexDigit_chars_all by (simp add: list_all_iff)

lemma hexDigit_inject: "m < 16 \<Longrightarrow> n < 16 \<Longrightarrow> hexDigit m = hexDigit n \<longleftrightarrow> m = n"
proof -
  assume "m < 16" and "n < 16"
  then have "hexDigit m = hexDigit n \<Longrightarrow> m = n"
    using of_char_hexDigit [of m] of_char_hexDigit [of n] by (auto split: if_splits)
  then show ?thesis by blast
qed

declare hexDigit.simps [simp del]

lemma hexadecimal_chars: "set (hexadecimal n) \<subseteq> set hexChars"
proof (induction n rule: hexadecimal.induct)
  case (1 n)
  then show ?case
    by (subst hexadecimal.simps) (use hexDigit_chars [of n] hexDigit_chars [of "n mod 16"] in auto)
qed

lemma hexadecimal_inject: "hexadecimal m = hexadecimal n \<Longrightarrow> m = n"
proof (induction m arbitrary: n rule: hexadecimal.induct)
  case (1 m)
  have ne: "hexadecimal k \<noteq> []" "[] \<noteq> hexadecimal k" for k by (subst hexadecimal.simps; simp)+
  show ?case
  proof (cases "m < 16 \<or> n < 16")
    case True
    then show ?thesis
      using 1(2) ne hexDigit_inject by (subst (asm) (1 2) hexadecimal.simps) (auto split: if_splits)
  next
    case False
    then have "hexadecimal (m div 16) = hexadecimal (n div 16)" "m mod 16 = n mod 16"
      using 1(2) hexDigit_inject by (subst (asm) (1 2) hexadecimal.simps; simp)+
    then show ?thesis using 1(1) False by (metis div_mult_mod_eq)
  qed
qed

lemma hexadecimal_length: "n < 16 ^ k \<Longrightarrow> 0 < k \<Longrightarrow> length (hexadecimal n) \<le> k"
proof (induction n arbitrary: k rule: hexadecimal.induct)
  case (1 n)
  then obtain j where k: "k = Suc j" by (cases k) auto
  show ?case
  proof (cases "n < 16")
    case False
    then have "n div 16 < 16 ^ j" "0 < j" using 1(2) by (auto simp: k less_mult_imp_div_less intro!: gr0I)
    then show ?thesis using 1(1) [OF False, of j] False by (subst hexadecimal.simps) (simp add: k)
  qed (use k in \<open>subst hexadecimal.simps; simp\<close>)
qed

lemma decimal_length: "n < 10 ^ k \<Longrightarrow> 0 < k \<Longrightarrow> length (decimal n) \<le> k"
proof (induction n arbitrary: k rule: decimal.induct)
  case (1 n)
  then obtain j where k: "k = Suc j" by (cases k) auto
  show ?case
  proof (cases "n < 10")
    case False
    then have "n div 10 < 10 ^ j" "0 < j" using 1(2) by (auto simp: k less_mult_imp_div_less intro!: gr0I)
    then show ?thesis using 1(1) [OF False, of j] False by (subst decimal.simps) (simp add: k)
  qed (use k in \<open>subst decimal.simps; simp\<close>)
qed

lemma decimal_no_dash: "CHR ''-'' \<notin> set (decimal n)"
  using decimal_digits [of "CHR ''-''" n] by (auto simp: is_digit_iff)

lemma hexadecimal_no_dash: "CHR ''-'' \<notin> set (hexadecimal n)"
  using hexadecimal_chars [of n] by (auto simp: hexChars_def)

text \<open>The first part of a text up to a dash.\<close>

lemma dash_inject:
  assumes "a @ CHR ''-'' # x = b @ CHR ''-'' # y" and "CHR ''-'' \<notin> set a" and "CHR ''-'' \<notin> set b"
  shows "a = b \<and> x = y"
proof -
  have "takeWhile (\<lambda>c. c \<noteq> CHR ''-'') (u @ CHR ''-'' # v) = u" if "CHR ''-'' \<notin> set u" for u v :: string
    using that by (induction u) auto
  then have "a = b" using assms by metis
  then show ?thesis using assms(1) by simp
qed

lemma formatInt_dash_inject:
  assumes "formatInt m @ CHR ''-'' # x = formatInt n @ CHR ''-'' # y"
  shows "m = n \<and> x = y"
proof -
  have digit: "\<exists>c cs. decimal k = c # cs \<and> c \<noteq> CHR ''-''" for k
    using decimal_not_Nil [of k] decimal_no_dash [of k] by (cases "decimal k") auto
  have sign: "(m < 0) = (n < 0)"
    using assms digit [of "nat m"] digit [of "nat n"] by (auto simp: formatInt_def split: if_splits)
  show ?thesis
  proof (cases "m < 0")
    case True
    then have "decimal (nat (- m)) @ CHR ''-'' # x = decimal (nat (- n)) @ CHR ''-'' # y"
      using assms sign by (simp add: formatInt_def)
    then have "decimal (nat (- m)) = decimal (nat (- n)) \<and> x = y" by (rule dash_inject) (rule decimal_no_dash)+
    then show ?thesis using True sign by auto
  next
    case False
    then have "decimal (nat m) @ CHR ''-'' # x = decimal (nat n) @ CHR ''-'' # y"
      using assms sign by (simp add: formatInt_def)
    then have "decimal (nat m) = decimal (nat n) \<and> x = y" by (rule dash_inject) (rule decimal_no_dash)+
    then show ?thesis using False sign by auto
  qed
qed

lemma hex_dash_inject:
  assumes "hexadecimal m @ x = hexadecimal n @ y" and "x = [] \<or> hd x = CHR ''-''" and "y = [] \<or> hd y = CHR ''-''"
  shows "m = n"
proof -
  have "takeWhile (\<lambda>c. c \<noteq> CHR ''-'') (hexadecimal k @ z) = hexadecimal k" if "z = [] \<or> hd z = CHR ''-''" for k z
    using that hexadecimal_no_dash [of k] by (cases z) (auto simp: takeWhile_append)
  then have "hexadecimal m = hexadecimal n" using assms by metis
  then show ?thesis by (rule hexadecimal_inject)
qed

lemma randomHexString_facts:
  "\<exists>s. randomHexString renv 16 = Some s \<and> set s \<subseteq> set hexChars \<and> length s \<le> 32"
proof -
  have "\<exists>bytes. randomBytes renv 16 = Some bytes \<and> length bytes \<le> 16"
    by (auto simp: randomBytes_def fillBuffer_def checkedNarrow_eq isNarrowable_def range_defs Let_def
        split: option.splits)
  then obtain bytes where b: "randomBytes renv 16 = Some bytes" "length bytes \<le> 16" by blast
  have small: "unat (drop_bit 4 x) < 16" "unat (x AND 0xF) < 16" for x :: u8
  proof -
    show "unat (x AND 0xF) < 16" using word_and_le1 [of x 15] by (simp add: word_le_nat_alt)
    have "unat x < 256" by (rule less_le_trans [OF unsigned_less]) simp
    then show "unat (drop_bit 4 x) < 16"
      by (simp add: drop_bit_eq_div unat_div less_mult_imp_div_less)
  qed
  have "set (concat (map (\<lambda>b. [hexDigit (unat (drop_bit 4 b)), hexDigit (unat (b AND 0xF))]) bytes)) \<subseteq> set hexChars"
    using hexDigit_chars small by auto
  moreover have "length (concat (map (\<lambda>b. [hexDigit (unat (drop_bit 4 b)), hexDigit (unat (b AND 0xF))]) bytes)) \<le> 32"
    using b(2) by (simp add: length_concat comp_def sum_list_triv)
  ultimately show ?thesis using b(1) by (simp add: randomHexString_def)
qed

lemma genUniqueName_facts:
  "\<exists>tail. genUniqueName pid renv time n = Some (formatInt (uint pid) @ CHR ''-'' # formatInt (sint (n + 1)) @
       CHR ''-'' # hexadecimal (unat time) @ tail, n + 1) \<and> (tail = [] \<or> hd tail = CHR ''-'') \<and>
     set tail \<subseteq> insert (CHR ''-'') (set hexChars) \<and> length tail \<le> 33"
proof -
  obtain s where s: "randomHexString renv 16 = Some s" "set s \<subseteq> set hexChars" "length s \<le> 32"
    using randomHexString_facts by blast
  show ?thesis
    by (rule exI [of _ "if s = [] then [] else CHR ''-'' # s"]) (use s in \<open>auto simp: genUniqueName_def Let_def\<close>)
qed

text \<open>The names that a process makes, one after the other.\<close>

fun genNames :: "u32 \<Rightarrow> (RandomEnv \<times> u64) list \<Rightarrow> u32 \<Rightarrow> string list option" where
  "genNames pid [] n = Some []"
| "genNames pid ((renv, time) # calls) n = do {
     (name, n1) \<leftarrow> genUniqueName pid renv time n;
     names \<leftarrow> genNames pid calls n1;
     Some (name # names)
   }"

definition nameOf :: "u32 \<Rightarrow> u32 \<Rightarrow> string \<Rightarrow> bool" where
  "nameOf pid counter name \<longleftrightarrow> (\<exists>time tail. name = formatInt (uint pid) @ CHR ''-'' # formatInt (sint counter) @
     CHR ''-'' # hexadecimal (unat (time :: u64)) @ tail \<and> (tail = [] \<or> hd tail = CHR ''-'') \<and>
     set tail \<subseteq> insert (CHR ''-'') (set hexChars) \<and> length tail \<le> 33)"

lemma nameOf_inject:
  assumes "nameOf pid c name" and "nameOf pid' c' name"
  shows "pid' = pid \<and> c' = c"
proof -
  obtain rest where 1: "name = formatInt (uint pid) @ CHR ''-'' # formatInt (sint c) @ CHR ''-'' # rest"
    using assms(1) unfolding nameOf_def by blast
  obtain rest' where 2: "name = formatInt (uint pid') @ CHR ''-'' # formatInt (sint c') @ CHR ''-'' # rest'"
    using assms(2) unfolding nameOf_def by blast
  have "uint pid = uint pid'" "sint c = sint c'"
    using formatInt_dash_inject [OF trans [OF 1 [symmetric] 2]] formatInt_dash_inject by blast+
  moreover from this(2) have "c = c'" by (rule signed_word_eqI)
  ultimately show ?thesis by (simp add: word_uint_eq_iff)
qed

lemma nameOf_text:
  assumes "nameOf pid counter name"
  shows "set name \<subseteq> insert (CHR ''-'') (set hexChars) \<and> length name \<le> 72"
proof -
  obtain time tail where n: "name = formatInt (uint pid) @ CHR ''-'' # formatInt (sint counter) @
     CHR ''-'' # hexadecimal (unat (time :: u64)) @ tail" "set tail \<subseteq> insert (CHR ''-'') (set hexChars)" "length tail \<le> 33"
    using assms unfolding nameOf_def by blast
  have digits: "set (decimal k) \<subseteq> set hexChars" for k
  proof
    fix c assume "c \<in> set (decimal k)"
    then have d: "48 \<le> (of_char c :: nat)" "(of_char c :: nat) \<le> 57" using decimal_digits is_digit_iff by blast+
    have ten: "(of_char c :: nat) - 48 < 10" using d by linarith
    then have "c = hexDigit (of_char c - 48)" using d by (simp add: hexDigit.simps)
    moreover have "(of_char c :: nat) - 48 < 16" using ten by simp
    ultimately show "c \<in> set hexChars" using hexDigit_chars by metis
  qed
  have "uint pid < 4294967296" using uint_lt2p [of pid] by simp
  then have "nat (uint pid) < 10000000000" using uint_ge_0 [of pid] by linarith
  then have "nat (uint pid) < 10 ^ 10" by simp
  then have l1: "length (formatInt (uint pid)) \<le> 10" using decimal_length [of _ 10] by (simp add: formatInt_def)
  have "- 2147483648 \<le> sint counter \<and> sint counter < 2147483648"
    using sint_ge [of counter] sint_lt [of counter] by simp
  then have "nat (sint counter) < 10000000000" "nat (- sint counter) < 10000000000" by linarith+
  then have ten: "nat (sint counter) < 10 ^ 10" "nat (- sint counter) < 10 ^ 10" by simp_all
  have "length (decimal (nat (sint counter))) \<le> 10" "length (decimal (nat (- sint counter))) \<le> 10"
    by (rule decimal_length [OF ten(1)], simp, rule decimal_length [OF ten(2)], simp)
  then have l2: "length (formatInt (sint counter)) \<le> 11" by (simp add: formatInt_def)
  have "unat time < 16 ^ 16" by (rule less_le_trans [OF unsigned_less]) simp
  then have l3: "length (hexadecimal (unat time)) \<le> 16" by (rule hexadecimal_length) simp
  show ?thesis
    using digits hexadecimal_chars [of "unat time"] n(2, 3) l1 l2 l3
    unfolding n(1) by (auto simp: formatInt_def)
qed

lemma genNames_nameOf:
  "\<exists>names. genNames pid calls n = Some names \<and>
     list_all2 (nameOf pid) (map (\<lambda>k. n + 1 + of_nat k) [0..<length calls]) names"
proof (induction calls arbitrary: n)
  case (Cons call calls)
  obtain renv time where call: "call = (renv, time)" by fastforce
  obtain tail where t: "genUniqueName pid renv time n = Some (formatInt (uint pid) @ CHR ''-'' # formatInt (sint (n + 1)) @
       CHR ''-'' # hexadecimal (unat time) @ tail, n + 1)" "tail = [] \<or> hd tail = CHR ''-''"
     "set tail \<subseteq> insert (CHR ''-'') (set hexChars)" "length tail \<le> 33"
    using genUniqueName_facts by blast
  define name where "name = formatInt (uint pid) @ CHR ''-'' # formatInt (sint (n + 1)) @
       CHR ''-'' # hexadecimal (unat time) @ tail"
  have first: "nameOf pid (n + 1) name" unfolding nameOf_def name_def using t(2-4) by blast
  obtain names where names: "genNames pid calls (n + 1) = Some names"
      "list_all2 (nameOf pid) (map (\<lambda>k. n + 1 + 1 + of_nat k) [0..<length calls]) names"
    using Cons.IH by blast
  have "map (\<lambda>k. n + 1 + of_nat k) [0..<length (call # calls)] =
      (n + 1) # map (\<lambda>k. n + 1 + 1 + of_nat k) [0..<length calls]"
    unfolding length_Cons map_upt_Suc by (simp add: algebra_simps)
  then show ?case
    using names first t(1) by (simp add: call flip: name_def)
qed simp

text \<open>
  C33. The names of pipes never collide: the generator never fails, up to \<open>2 ^ 32\<close> names of one
  process are different from each other and from all names of a process with another id, whatever
  the clock and the random generators answer (also when there is no random generator at all). The
  names are lower case, so they differ for Windows too, and at most 72 characters long.
\<close>

theorem pipe_names_distinct:
  assumes "length calls \<le> 4294967296"
  shows "\<exists>names. genNames pid calls n = Some names \<and> length names = length calls \<and> distinct names \<and>
     (\<forall>name \<in> set names. set name \<subseteq> insert (CHR ''-'') (set hexChars) \<and> length name \<le> 72 \<and>
        (\<forall>pid' calls' n' names'. pid' \<noteq> pid \<and> genNames pid' calls' n' = Some names' \<longrightarrow> name \<notin> set names'))"
proof -
  let ?counter = "\<lambda>n (calls :: (RandomEnv \<times> u64) list). map (\<lambda>k. n + 1 + of_nat k :: u32) [0..<length calls]"
  obtain names where names: "genNames pid calls n = Some names" "list_all2 (nameOf pid) (?counter n calls) names"
    using genNames_nameOf by blast
  have len: "length names = length calls" using list_all2_lengthD [OF names(2)] by simp
  have nth: "nameOf pid (n + 1 + of_nat k) (names ! k)" if "k < length names" for k
    using list_all2_nthD2 [OF names(2) that] that len by simp
  have "distinct names"
  proof (unfold distinct_conv_nth, intro allI impI)
    fix i j assume ij: "i < length names" "j < length names" "i \<noteq> j"
    have "(of_nat i :: u32) \<noteq> of_nat j"
      using ij assms len by (simp add: word_of_nat_eq_iff take_bit_nat_eq_self)
    then show "names ! i \<noteq> names ! j" using nameOf_inject [OF nth [OF ij(1)]] nth [OF ij(2)] by fastforce
  qed
  moreover have "set name \<subseteq> insert (CHR ''-'') (set hexChars) \<and> length name \<le> 72 \<and>
      (\<forall>pid' calls' n' names'. pid' \<noteq> pid \<and> genNames pid' calls' n' = Some names' \<longrightarrow> name \<notin> set names')"
    if elem: "name \<in> set names" for name
  proof -
    obtain i where "i < length names" "names ! i = name" using elem by (auto simp: in_set_conv_nth)
    then obtain k where k: "nameOf pid (n + 1 + of_nat k) name" using nth by blast
    have "name \<notin> set names'" if "pid' \<noteq> pid" "genNames pid' calls' n' = Some names'" for pid' calls' n' names'
    proof
      assume "name \<in> set names'"
      moreover have "list_all2 (nameOf pid') (?counter n' calls') names'" using genNames_nameOf [of pid' calls' n'] that by auto
      ultimately obtain c where "nameOf pid' c name" by (auto simp: in_set_conv_nth list_all2_conv_all_nth)
      then show False using nameOf_inject [OF k] that(1) by blast
    qed
    then show ?thesis using nameOf_text [OF k] by blast
  qed
  ultimately show ?thesis using names(1) len by blast
qed

theorem pipe_names_distinct_witness:
  "\<exists>a b. genNames 7 [(\<lparr>rtlGenRandom = None, cryptAcquired = False, cryptGenRandom = \<lambda>_. None\<rparr>, 5),
     (\<lparr>rtlGenRandom = None, cryptAcquired = False, cryptGenRandom = \<lambda>_. None\<rparr>, 5)] 0 = Some [a, b] \<and> a \<noteq> b"
proof -
  let ?calls = "[(\<lparr>rtlGenRandom = None, cryptAcquired = False, cryptGenRandom = \<lambda>_. None\<rparr>, 5 :: u64),
     (\<lparr>rtlGenRandom = None, cryptAcquired = False, cryptGenRandom = \<lambda>_. None\<rparr>, 5)]"
  obtain names where "genNames 7 ?calls 0 = Some names" "length names = 2" "distinct names"
    using pipe_names_distinct [of ?calls 7 0] by auto
  then show ?thesis by (auto simp: length_Suc_conv numeral_2_eq_2)
qed

section \<open>The command line of the agent\<close>

text \<open>
  What the documentation of Windows says of \<open>CommandLineToArgvW\<close>: a first argument in quotation
  marks ends at the next one, and arguments without quotation marks are separated by spaces and tabs.
  \<open>WideCharToMultiByte\<close> leaves ASCII text as it is.
\<close>

definition plainArgument :: "wstring \<Rightarrow> bool" where
  "plainArgument w \<longleftrightarrow> w \<noteq> [] \<and> 0x20 \<notin> set w \<and> 0x09 \<notin> set w \<and> 0x22 \<notin> set w \<and> 0 \<notin> set w"

definition splitsCommandLines :: "(wstring \<Rightarrow> wstring list) \<Rightarrow> bool" where
  "splitsCommandLines toArgv \<longleftrightarrow> (\<forall>exe args. 0x22 \<notin> set exe \<and> 0 \<notin> set exe \<and> list_all plainArgument args \<longrightarrow>
     toArgv ([0x22] @ exe @ [0x22] @ concat (map (\<lambda>a. 0x20 # a) args)) = exe # args)"

definition keepsAscii :: "(wstring \<Rightarrow> int \<Rightarrow> int \<times> string) \<Rightarrow> bool" where
  "keepsAscii convert \<longleftrightarrow> (\<forall>s cap. s \<noteq> [] \<and> (\<forall>c \<in> set s. (of_char c :: nat) < 128) \<and> (cap = 0 \<or> int (length s) \<le> cap) \<longrightarrow>
     convert (wliteral s) cap = (int (length s), if cap = 0 then [] else s))"

lemma utf8FromWide_ascii:
  assumes "keepsAscii convert" and "s \<noteq> []" and "\<forall>c \<in> set s. (of_char c :: nat) < 128" and "length s < 2147483648"
  shows "utf8FromWide convert (wliteral s) = Some s"
proof -
  have "convert (wliteral s) 0 = (int (length s), [])" "convert (wliteral s) (int (length s)) = (int (length s), s)"
    using assms(1-3) unfolding keepsAscii_def by auto
  moreover have "0 < length s" using assms(2) by simp
  ultimately show ?thesis
    using assms(4) by (simp add: utf8FromWide_def wliteral_def checkedNarrow_eq isNarrowable_def range_defs resize_def Let_def)
qed

definition decChars :: "string" where "decChars = ''0123456789''"

lemma digit_chars_all: "list_all (\<lambda>d. digit_char d \<in> set decChars) [0..<10]"
  by code_simp

lemma decimal_chars: "set (decimal n) \<subseteq> set decChars"
proof (induction n rule: decimal.induct)
  case (1 n)
  have "digit_char d \<in> set decChars" if "d < 10" for d
    using digit_chars_all that by (simp add: list_all_iff)
  then show ?case using 1 by (subst decimal.simps) simp
qed

lemma formatInt_chars: "c \<in> set (formatInt n) \<Longrightarrow> c \<in> insert (CHR ''-'') (set decChars)"
  using decimal_chars [of "nat n"] decimal_chars [of "nat (- n)"] by (auto simp: formatInt_def split: if_splits)

lemma formatInt_not_Nil [simp]: "formatInt n \<noteq> []"
  by (simp add: formatInt_def)

lemma digits_head: "dropWhile isSpace (formatInt n) = formatInt n" "takeWhile is_digit (decimal k) = decimal k"
proof -
  have "\<not> isSpace (hd (formatInt n))"
    using formatInt_chars [of "hd (formatInt n)" n] by (auto simp: isSpace_def decChars_def)
  then show "dropWhile isSpace (formatInt n) = formatInt n"
    by (cases "formatInt n") (simp_all del: formatInt_not_Nil)
  show "takeWhile is_digit (decimal k) = decimal k"
    using decimal_digits by (simp add: takeWhile_eq_all_conv)
qed

lemma parseDecimal_formatInt:
  assumes "fst r \<le> n" and "n \<le> snd r"
  shows "parseDecimal r (formatInt n) = n"
proof (cases "n < 0")
  case True
  then have "formatInt n = CHR ''-'' # decimal (nat (- n))" by (simp add: formatInt_def)
  then show ?thesis
    using digits_head(1) [of n] assms True by (simp add: parseDecimal_def Let_def digits_head(2))
next
  case False
  then have f: "formatInt n = decimal (nat n)" by (simp add: formatInt_def)
  have "is_digit (hd (decimal (nat n)))" using decimal_digits decimal_not_Nil hd_in_set by blast
  then have "hd (decimal (nat n)) \<noteq> CHR ''-''" "hd (decimal (nat n)) \<noteq> CHR ''+''" by (auto simp: is_digit_iff)
  then show ?thesis
    using digits_head(1) [of n] assms False by (simp add: f parseDecimal_def Let_def digits_head(2))
qed

lemma cString_formatInt [simp]: "cString (formatInt n) = formatInt n"
  using formatInt_chars [of "CHR 0x00" n] by (auto simp: cString_def takeWhile_eq_all_conv decChars_def)

lemma formatInt_plain: "plainArgument (wliteral (formatInt n))"
proof -
  have "(of_char c :: u16) \<notin> {0x20, 0x09, 0x22, 0}" if "c \<in> set (formatInt n)" for c
    using formatInt_chars [OF that] by (auto simp: decChars_def)
  then have "w \<notin> {0x20, 0x09, 0x22, 0}" if "w \<in> set (wliteral (formatInt n))" for w
    using that by (auto simp: wliteral_def)
  then show ?thesis by (auto simp: plainArgument_def) (auto simp: wliteral_def)
qed

text \<open>A configuration as the setters of the client library leave it.\<close>

definition configOk :: "Config \<Rightarrow> bool" where
  "configOk cfg \<longleftrightarrow> cfgFlags cfg AND VT7PTY_FLAG_MASK = cfgFlags cfg \<and>
     cfgCols cfg > 0 \<and> cfgCols cfg \<le> 2147483647 \<and> cfgRows cfg > 0 \<and> cfgRows cfg \<le> 2147483647 \<and>
     0 \<le> cfgMouseMode cfg \<and> cfgMouseMode cfg \<le> VT7PTY_MOUSE_MODE_FORCE"

lemma configOk_setters:
  "vt7pty_config_new flgs = Some cfg \<Longrightarrow> configOk cfg"
  "vt7pty_config_set_initial_size cols rows cfg = Some cfg1 \<Longrightarrow> configOk cfg \<Longrightarrow>
     cols \<le> 2147483647 \<Longrightarrow> rows \<le> 2147483647 \<Longrightarrow> configOk cfg1"
  "vt7pty_config_set_mouse_mode mode cfg = Some cfg1 \<Longrightarrow> configOk cfg \<Longrightarrow> configOk cfg1"
  "vt7pty_config_set_agent_timeout ms cfg = Some cfg1 \<Longrightarrow> configOk cfg \<Longrightarrow> configOk cfg1"
  by (auto simp: vt7pty_config_new_def vt7pty_config_set_initial_size_def vt7pty_config_set_mouse_mode_def
      vt7pty_config_set_agent_timeout_def configOk_def ASSERT_bind_Some VT7PTY_MOUSE_MODE_AUTO_def
      VT7PTY_MOUSE_MODE_FORCE_def)

text \<open>
  C15. The agent is started as the client was configured: for every configuration that the setters
  allow, the command line that the client passes to \<open>CreateProcessW\<close> makes the main program of the agent run
  with the same control pipe, flags, mouse mode and size.
\<close>

theorem agent_started_as_configured:
  assumes "splitsCommandLines toArgv" and "keepsAscii convert" and "configOk cfg"
    and "0x22 \<notin> set exePath" and "0 \<notin> set exePath" and "plainArgument (wliteral uniq)"
  shows "agentMain convert (toArgv (agentCommandLine exePath (controlPipeName (wliteral uniq)) (openParams cfg))) =
    Some (RunAgent (controlPipeName (wliteral uniq)) (cfgFlags cfg) (cfgMouseMode cfg) (cfgCols cfg) (cfgRows cfg))"
proof -
  let ?name = "controlPipeName (wliteral uniq)"
  let ?nums = "map (\<lambda>n. wliteral (formatInt n)) [uint (cfgFlags cfg), cfgMouseMode cfg, cfgCols cfg, cfgRows cfg]"
  have line: "agentCommandLine exePath ?name (openParams cfg) =
      [0x22] @ exePath @ [0x22] @ concat (map (\<lambda>a. 0x20 # a) (?name # ?nums))"
    by (simp add: agentCommandLine_def openParams_def wliteral_def)
  have name: "plainArgument ?name"
    using assms(6) by (simp add: plainArgument_def controlPipeName_def) (simp add: wliteral_def)
  then have "list_all plainArgument (?name # ?nums)" using formatInt_plain by simp
  then have argv: "toArgv (agentCommandLine exePath ?name (openParams cfg)) = exePath # ?name # ?nums"
    using assms(1, 4, 5) unfolding splitsCommandLines_def line by blast
  have "cfgFlags cfg AND 7 = cfgFlags cfg"
    using assms(3) by (simp add: configOk_def VT7PTY_FLAG_MASK_def VT7PTY_FLAG_CONERR_def
        VT7PTY_FLAG_PLAIN_OUTPUT_def VT7PTY_FLAG_COLOR_ESCAPES_def)
  then have "cfgFlags cfg \<le> 7" by (metis word_and_le1)
  then have small: "uint (cfgFlags cfg) \<le> 7" by (simp add: word_le_def)
  have num: "utf8FromWide convert (wliteral (formatInt n)) = Some (formatInt n)"
    if "- 2147483648 \<le> n" "n \<le> 2147483647" for n
  proof (rule utf8FromWide_ascii [OF assms(2)])
    show "\<forall>c \<in> set (formatInt n). (of_char c :: nat) < 128"
    proof
      fix c assume "c \<in> set (formatInt n)"
      then show "(of_char c :: nat) < 128" using formatInt_chars [of c n] by (auto simp: decChars_def)
    qed
    have "nat n < 10000000000" "nat (- n) < 10000000000" using that by linarith+
    then have "length (decimal (nat n)) \<le> 10" "length (decimal (nat (- n))) \<le> 10"
      using decimal_length [of _ 10] by simp_all
    then show "length (formatInt n) < 2147483648" by (simp add: formatInt_def)
  qed simp
  have flags: "vt7pty_atoi64 (formatInt (uint (cfgFlags cfg))) = cfgFlags cfg"
  proof -
    have "- 9223372036854775808 \<le> uint (cfgFlags cfg)" "uint (cfgFlags cfg) \<le> 9223372036854775807"
      using small uint_ge_0 [of "cfgFlags cfg"] by linarith+
    then show ?thesis by (simp add: vt7pty_atoi64_def parseDecimal_formatInt)
  qed
  have ints: "atoi (formatInt n) = n" if "- 2147483648 \<le> n" "n \<le> 2147483647" for n
    using that by (simp add: atoi_def parseDecimal_formatInt int_range_def)
  have num_flags: "utf8FromWide convert (wliteral (formatInt (uint (cfgFlags cfg)))) = Some (formatInt (uint (cfgFlags cfg)))"
    by (rule num) (use small uint_ge_0 [of "cfgFlags cfg"] in linarith)+
  have first: "?name \<noteq> wliteral ''--show-input''" by (simp add: controlPipeName_def wliteral_def)
  show ?thesis
    using assms(3) small first unfolding argv
    by (simp add: agentMain_def num num_flags ints flags configOk_def VT7PTY_MOUSE_MODE_FORCE_def numeral_2_eq_2 numeral_3_eq_3)
qed

text \<open>A splitting and a conversion with these properties.\<close>

fun splitWords :: "wstring \<Rightarrow> wstring \<Rightarrow> wstring list" where
  "splitWords [] w = (if w = [] then [] else [w])"
| "splitWords (c # cs) w = (if c = 0x20 then (if w = [] then [] else [w]) @ splitWords cs [] else splitWords cs (w @ [c]))"

definition splitQuoted :: "wstring \<Rightarrow> wstring list" where
  "splitQuoted line = (let rest = tl line
     in takeWhile (\<lambda>c. c \<noteq> 0x22) rest # splitWords (tl (dropWhile (\<lambda>c. c \<noteq> 0x22) rest)) [])"

lemma splitWords_word: "0x20 \<notin> set u \<Longrightarrow> splitWords (u @ rest) w = splitWords rest (w @ u)"
  by (induction u arbitrary: w) auto

lemma splitWords_args:
  "list_all plainArgument args \<Longrightarrow> w = [] \<or> plainArgument w \<Longrightarrow>
    splitWords (concat (map (\<lambda>a. 0x20 # a) args)) w = (if w = [] then args else w # args)"
  by (induction args arbitrary: w) (auto simp: plainArgument_def splitWords_word)

lemma splitQuoted_splits: "splitsCommandLines splitQuoted"
  unfolding splitsCommandLines_def
proof (intro allI impI)
  fix exe :: wstring and args
  assume a: "0x22 \<notin> set exe \<and> 0 \<notin> set exe \<and> list_all plainArgument args"
  then have "takeWhile (\<lambda>c. c \<noteq> 0x22) (exe @ [0x22] @ x) = exe" "dropWhile (\<lambda>c. c \<noteq> 0x22) (exe @ [0x22] @ x) = [0x22] @ x"
    for x by (induction exe) auto
  then show "splitQuoted ([0x22] @ exe @ [0x22] @ concat (map (\<lambda>a. 0x20 # a) args)) = exe # args"
    using a splitWords_args [of args "[]"] by (simp add: splitQuoted_def Let_def)
qed

definition narrowAll :: "wstring \<Rightarrow> int \<Rightarrow> int \<times> string" where
  "narrowAll w cap = (int (length w), if cap = 0 then [] else map (\<lambda>c. char_of (unat c)) w)"

lemma narrowAll_ascii: "keepsAscii narrowAll"
proof -
  have "char_of (unat (of_char c :: u16)) = c" if "(of_char c :: nat) < 128" for c
  proof -
    have "(of_char c :: u16) = of_nat (of_char c)" by (simp only: of_nat_of_char)
    then have "unat (of_char c :: u16) = of_char c" using that by (simp add: unat_of_nat)
    then show ?thesis by simp
  qed
  then show ?thesis by (auto simp: keepsAscii_def narrowAll_def wliteral_def comp_def map_idI)
qed

theorem agent_started_as_configured_witness:
  "agentMain narrowAll (splitQuoted (agentCommandLine [0x61] (controlPipeName (wliteral ''7-1-5'')) (openParams
     \<lparr>cfgFlags = 5, cfgCols = 120, cfgRows = 40, cfgMouseMode = 1, timeoutMs = 30000\<rparr>))) =
   Some (RunAgent (controlPipeName (wliteral ''7-1-5'')) 5 1 120 40)"
  using agent_started_as_configured [OF splitQuoted_splits narrowAll_ascii, of
      "\<lparr>cfgFlags = 5, cfgCols = 120, cfgRows = 40, cfgMouseMode = 1, timeoutMs = 30000\<rparr>" "[0x61]" "''7-1-5''"]
  by (simp add: configOk_def VT7PTY_FLAG_MASK_def VT7PTY_FLAG_CONERR_def VT7PTY_FLAG_PLAIN_OUTPUT_def
      VT7PTY_FLAG_COLOR_ESCAPES_def VT7PTY_MOUSE_MODE_FORCE_def plainArgument_def wliteral_def)

end
