(* ===== verification/Diagnostics.thy ===== *)
theory Diagnostics
  imports Startup "HOL-Library.Sublist"
begin

text \<open>
  The diagnostic records of the product (src/shared/DebugClient.cc) and the server that collects
  them (tools/debug/DebugServer.cc). A record is one line of JSON; it is built with a bound on its
  size, and the server accepts only lines within that bound. The version strings of the build, the
  clock, and what Windows answers are arguments.
\<close>

section \<open>Records\<close>

datatype TraceSeverity = Debug | Info | Warning | Error

datatype TraceSubsystem = General | Api | Agent | Console | Ipc | Platform | Process | Security

fun severityName :: "TraceSeverity \<Rightarrow> string" where
  "severityName Debug = ''debug''"
| "severityName Info = ''info''"
| "severityName Warning = ''warning''"
| "severityName Error = ''error''"

fun subsystemName :: "TraceSubsystem \<Rightarrow> string" where
  "subsystemName General = ''general''"
| "subsystemName Api = ''api''"
| "subsystemName Agent = ''agent''"
| "subsystemName Console = ''console''"
| "subsystemName Ipc = ''ipc''"
| "subsystemName Platform = ''platform''"
| "subsystemName Process = ''process''"
| "subsystemName Security = ''security''"

text \<open>The escape of a character that has a short one.\<close>

definition shortEscape :: "char \<Rightarrow> string option" where
  "shortEscape p =
     (if p = CHR 0x5C then Some [CHR 0x5C, CHR 0x5C]
      else if p = CHR 0x22 then Some [CHR 0x5C, CHR 0x22]
      else if p = CHR 0x0D then Some [CHR 0x5C, CHR ''r'']
      else if p = CHR 0x0A then Some [CHR 0x5C, CHR ''n'']
      else if p = CHR 0x09 then Some [CHR 0x5C, CHR ''t'']
      else None)"

fun jsonEscapeLoop :: "nat \<Rightarrow> string \<Rightarrow> string \<Rightarrow> string" where
  "jsonEscapeLoop maximumBytes [] result = result"
| "jsonEscapeLoop maximumBytes (p # input) result =
     (if p = CHR 0x00 \<or> \<not> length result < maximumBytes then result
      else (case shortEscape p of
          Some escape \<Rightarrow>
            if length result + 2 > maximumBytes then result
            else jsonEscapeLoop maximumBytes input (result @ escape)
        | None \<Rightarrow>
            if (0x20 :: nat) \<le> of_char p \<and> of_char p < (0x7f :: nat)
            then jsonEscapeLoop maximumBytes input (result @ [p])
            else if length result + 6 > maximumBytes then result
            else jsonEscapeLoop maximumBytes input
              (result @ [CHR 0x5C, CHR ''u''] @ paddedHex 4 (of_char p))))"

definition jsonEscape :: "string \<Rightarrow> nat \<Rightarrow> string" where
  "jsonEscape input maximumBytes = jsonEscapeLoop maximumBytes input []"

text \<open>The part after the last backslash of the path of the program; \<open>None\<close> when there is none.\<close>

definition afterBackslash :: "string \<Rightarrow> string option" where
  "afterBackslash s =
     (if CHR 0x5C \<in> set s then Some (rev (takeWhile (\<lambda>c. c \<noteq> CHR 0x5C) (rev s))) else None)"

definition moduleBaseName :: "nat \<times> string \<Rightarrow> string" where
  "moduleBaseName answer =
     (let (len, moduleName) = answer
      in if len = 0 \<or> len \<ge> 260 then ''unknown''
         else (case afterBackslash (cString moduleName) of
             None \<Rightarrow> cString moduleName
           | Some base \<Rightarrow> base))"

record TraceEnv =
  moduleFile :: "nat \<times> string"
  wYear :: u16
  wMonth :: u16
  wDay :: u16
  wHour :: u16
  wMinute :: u16
  wSecond :: u16
  wMilliseconds :: u16
  GenVersion_Version :: string
  GenVersion_Commit :: string
  processId :: u32
  threadId :: u32

definition paddedDecimal :: "nat \<Rightarrow> nat \<Rightarrow> string" where
  "paddedDecimal w n = (let s = decimal n in replicate (w - length s) CHR ''0'' @ s)"

definition quoted :: "string \<Rightarrow> string" where
  "quoted s = [CHR 0x22] @ s @ [CHR 0x22]"

definition jsonField :: "string \<Rightarrow> string \<Rightarrow> string" where
  "jsonField name v = quoted name @ '':'' @ v"

definition timestamp :: "TraceEnv \<Rightarrow> string" where
  "timestamp tenv = paddedDecimal 4 (unat (wYear tenv)) @ ''-'' @ paddedDecimal 2 (unat (wMonth tenv)) @ ''-'' @
     paddedDecimal 2 (unat (wDay tenv)) @ ''T'' @ paddedDecimal 2 (unat (wHour tenv)) @ '':'' @
     paddedDecimal 2 (unat (wMinute tenv)) @ '':'' @ paddedDecimal 2 (unat (wSecond tenv)) @ ''.'' @
     paddedDecimal 3 (unat (wMilliseconds tenv)) @ ''Z''"

definition recordPrefix :: "TraceEnv \<Rightarrow> TraceSeverity \<Rightarrow> TraceSubsystem \<Rightarrow> string" where
  "recordPrefix tenv severity subsystem =
     [CHR 0x7B] @ jsonField ''timestamp'' (quoted (timestamp tenv)) @ '','' @
     jsonField ''severity'' (quoted (severityName severity)) @ '','' @
     jsonField ''subsystem'' (quoted (subsystemName subsystem)) @ '','' @
     jsonField ''product'' (quoted ''VT7Pty'') @ '','' @
     jsonField ''version'' (quoted (cString (GenVersion_Version tenv))) @ '','' @
     jsonField ''commit'' (quoted (cString (GenVersion_Commit tenv))) @ '','' @
     jsonField ''api'' (quoted (formatInt 1 @ ''.'' @ formatInt 0)) @ '','' @
     jsonField ''protocol'' (formatInt (sint VT7PTY_PROTOCOL_VERSION)) @ '','' @
     jsonField ''process'' (quoted (jsonEscape (moduleBaseName (moduleFile tenv)) 256)) @ '','' @
     jsonField ''pid'' (decimal (unat (processId tenv))) @ '','' @
     jsonField ''tid'' (decimal (unat (threadId tenv))) @ '','' @ quoted ''message'' @ '':'' @ [CHR 0x22]"

definition VT7PTY_MAX_TRACE_RECORD_BYTES :: nat where "VT7PTY_MAX_TRACE_RECORD_BYTES = 4096"

text \<open>\<open>snprintf\<close> writes at most 1535 characters into the buffer of 1536.\<close>

definition makeTraceRecord :: "TraceEnv \<Rightarrow> TraceSeverity \<Rightarrow> TraceSubsystem \<Rightarrow> string option \<Rightarrow> string" where
  "makeTraceRecord tenv severity subsystem message =
     (let result = take 1535 (recordPrefix tenv severity subsystem);
          suffixBytes = 2;
          available = (if length result + suffixBytes < VT7PTY_MAX_TRACE_RECORD_BYTES - 1
            then VT7PTY_MAX_TRACE_RECORD_BYTES - 1 - length result - suffixBytes else 0)
      in result @ jsonEscape (case message of None \<Rightarrow> [] | Some m \<Rightarrow> m) available @ [CHR 0x22, CHR 0x7D])"

section \<open>The debug flags\<close>

text \<open>\<open>VT7PTY_DEBUG\<close> as \<open>GetEnvironmentVariableA\<close> answers it: the size and the text.\<close>

definition getDebugConfig :: "nat \<times> string \<Rightarrow> string" where
  "getDebugConfig answer = (let (actualSize, text) = answer
     in if actualSize = 0 \<or> actualSize \<ge> 256 then [] else cString (take actualSize text))"

fun containsText :: "string \<Rightarrow> string \<Rightarrow> bool" where
  "containsText sub [] \<longleftrightarrow> sub = []"
| "containsText sub (c # s) \<longleftrightarrow> take (length sub) (c # s) = sub \<or> containsText sub s"

text \<open>A flag with a comma aborts.\<close>

definition hasDebugFlag :: "nat \<times> string \<Rightarrow> string \<Rightarrow> bool option" where
  "hasDebugFlag answer flag =
     (if CHR '','' \<in> set flag then None
      else let config = getDebugConfig answer
           in if config = [] then Some False
              else Some (containsText ('','' @ flag @ '','') ('','' @ config @ '','')))"

definition isTracingEnabled :: "nat \<times> string \<Rightarrow> bool option" where
  "isTracingEnabled answer = do {
     a \<leftarrow> hasDebugFlag answer ''trace'';
     if a then Some True else hasDebugFlag answer ''1''
   }"

text \<open>\<open>vsnprintf\<close> keeps 1023 characters of the message; nothing is made when tracing is off.\<close>

definition traceV :: "TraceEnv \<Rightarrow> nat \<times> string \<Rightarrow> TraceSeverity \<Rightarrow> TraceSubsystem \<Rightarrow> string \<Rightarrow>
    string option option" where
  "traceV tenv config severity subsystem formatted = do {
     enabled \<leftarrow> isTracingEnabled config;
     Some (if enabled then Some (makeTraceRecord tenv severity subsystem (Some (take 1023 (cString formatted))))
           else None)
   }"

section \<open>Sending\<close>

datatype OpenTracePipe = PipeOpened | PipeBusy | PipeMissing

datatype Transaction = TransactDone | TransactFailed | TransactPending bool

text \<open>\<open>TransactPending True\<close>: the answer arrived within the time allowed.\<close>

record SendAnswers =
  firstOpen :: OpenTracePipe
  waitForPipe :: bool
  secondOpen :: OpenTracePipe
  traceEventOk :: bool
  transaction :: Transaction

datatype TraceCall = DebugString string | WaitPipe nat | OpenPipe | Transact string | WaitAnswer nat
  | CancelTransaction | CloseEvent | ClosePipe

definition kPipeWaitMilliseconds :: nat where "kPipeWaitMilliseconds = 100"

definition transactTrace :: "SendAnswers \<Rightarrow> string \<Rightarrow> TraceCall list" where
  "transactTrace ans message =
     (if traceEventOk ans then
        [Transact message] @
        (case transaction ans of
           TransactPending arrived \<Rightarrow> [WaitAnswer kPipeWaitMilliseconds] @ (if arrived then [] else [CancelTransaction])
         | _ \<Rightarrow> []) @
        [CloseEvent]
      else []) @ [ClosePipe]"

definition sendToDebugServer :: "SendAnswers \<Rightarrow> string \<Rightarrow> TraceCall list" where
  "sendToDebugServer ans message =
     [DebugString message, DebugString [CHR 0x0A]] @
     (case firstOpen ans of
        PipeOpened \<Rightarrow> OpenPipe # transactTrace ans message
      | PipeBusy \<Rightarrow> WaitPipe kPipeWaitMilliseconds #
          (if waitForPipe ans \<and> secondOpen ans = PipeOpened then OpenPipe # transactTrace ans message else [])
      | PipeMissing \<Rightarrow> [])"

section \<open>The server\<close>

definition kDefaultMaximumFileBytes :: u64 where "kDefaultMaximumFileBytes = 8 * 1024 * 1024"
definition kMaximumFileBytes :: u64 where "kMaximumFileBytes = 64 * 1024 * 1024"

record Options =
  outputPath :: wstring
  maximumFileBytes :: u64
  maximumMessages :: u32
  selfTest :: bool

definition defaultOptions :: Options where
  "defaultOptions = \<lparr>outputPath = [], maximumFileBytes = kDefaultMaximumFileBytes, maximumMessages = 0,
     selfTest = False\<rparr>"

text \<open>\<open>wcstoull\<close> answers the value, whether \<open>errno\<close> is set, and how many characters it has used.\<close>

definition parseUnsigned :: "(wstring \<Rightarrow> u64 \<times> bool \<times> nat) \<Rightarrow> wstring \<Rightarrow> u64 \<Rightarrow> u64 option" where
  "parseUnsigned wcstoull txt maximum =
     (let (v, err, used) = wcstoull txt
      in if err \<or> used = 0 \<or> used \<noteq> length txt \<or> v > maximum then None else Some v)"

datatype OptionsResult = Run Options | Help int | InvalidNumber string | ServerVersion

fun parseOptions :: "(wstring \<Rightarrow> u64 \<times> bool \<times> nat) \<Rightarrow> wstring list \<Rightarrow> Options \<Rightarrow> OptionsResult" where
  "parseOptions wcstoull [] opts = Run opts"
| "parseOptions wcstoull (argument # args) opts =
     (if argument = wliteral ''--output'' \<and> args \<noteq> []
      then parseOptions wcstoull (tl args) (opts\<lparr>outputPath := hd args\<rparr>)
      else if argument = wliteral ''--max-bytes'' \<and> args \<noteq> []
      then (case parseUnsigned wcstoull (hd args) kMaximumFileBytes of
          None \<Rightarrow> InvalidNumber ''--max-bytes''
        | Some n \<Rightarrow> parseOptions wcstoull (tl args) (opts\<lparr>maximumFileBytes := n\<rparr>))
      else if argument = wliteral ''--max-messages'' \<and> args \<noteq> []
      then (case parseUnsigned wcstoull (hd args) 0xFFFFFFFF of
          None \<Rightarrow> InvalidNumber ''--max-messages''
        | Some n \<Rightarrow> parseOptions wcstoull (tl args) (opts\<lparr>maximumMessages := ucast n\<rparr>))
      else if argument = wliteral ''--self-test'' then parseOptions wcstoull args (opts\<lparr>selfTest := True\<rparr>)
      else if argument = wliteral ''--version'' then ServerVersion
      else if argument = wliteral ''-h'' \<or> argument = wliteral ''--help'' then Help 0
      else Help 1)"

definition serverPipeSecure :: "string \<Rightarrow> bool" where
  "serverPipeSecure sddl \<longleftrightarrow> containsText ''(A;;'' sddl \<and> \<not> containsText '';;;WD)'' sddl \<and>
     \<not> containsText '';;;AN)'' sddl"

text \<open>What \<open>ReadFile\<close> delivers: at most 4096 bytes, or an error.\<close>

datatype ServerRead = RecordRead string | RecordError u32

definition invalidRecord :: "ServerRead \<Rightarrow> bool" where
  "invalidRecord answer = (case answer of
      RecordError e \<Rightarrow> True
    | RecordRead buffer \<Rightarrow>
        length buffer < 2 \<or> length buffer \<ge> VT7PTY_MAX_TRACE_RECORD_BYTES \<or>
        hd buffer \<noteq> CHR 0x7B \<or> last buffer \<noteq> CHR 0x7D \<or>
        CHR 0x00 \<in> set buffer \<or> CHR 0x0D \<in> set buffer \<or> CHR 0x0A \<in> set buffer)"

record ServerState =
  serverStdout :: string
  serverFile :: "string option"
  fileBytes :: u64
  limitReported :: bool
  serverMessages :: u32
  responses :: "string list"

definition newServer :: "Options \<Rightarrow> ServerState" where
  "newServer opts = \<lparr>serverStdout = [], serverFile = (if outputPath opts = [] then None else Some []),
     fileBytes = 0, limitReported = False, serverMessages = 0, responses = []\<rparr>"

definition appendToFile :: "Options \<Rightarrow> string \<Rightarrow> ServerState \<Rightarrow> ServerState" where
  "appendToFile opts buffer st = (case serverFile st of
      None \<Rightarrow> st
    | Some content \<Rightarrow>
        let recordBytes = of_nat (length buffer) + 1
        in if recordBytes \<le> maximumFileBytes opts - fileBytes st
           then st\<lparr>serverFile := Some (content @ buffer @ [CHR 0x0A]), fileBytes := fileBytes st + recordBytes\<rparr>
           else st\<lparr>limitReported := True\<rparr>)"

definition serveRecord :: "Options \<Rightarrow> ServerRead \<Rightarrow> ServerState \<Rightarrow> ServerState" where
  "serveRecord opts answer st =
     (if invalidRecord answer then st\<lparr>responses := responses st @ [''REJECTED'']\<rparr>
      else (case answer of
          RecordError e \<Rightarrow> st
        | RecordRead buffer \<Rightarrow>
            let st1 = appendToFile opts buffer (st\<lparr>serverStdout := serverStdout st @ buffer @ [CHR 0x0A]\<rparr>)
            in st1\<lparr>responses := responses st1 @ [''OK''], serverMessages := serverMessages st1 + 1\<rparr>))"

text \<open>
  The loop over the clients: \<^term>\<open>None\<close> for a connection that failed. The result is the exit code,
  or \<^term>\<open>None\<close> while the server still waits for the next client.
\<close>

fun serverLoop :: "Options \<Rightarrow> ServerRead option list \<Rightarrow> ServerState \<Rightarrow> int option \<times> ServerState" where
  "serverLoop opts clients st =
     (if \<not> (maximumMessages opts = 0 \<or> serverMessages st < maximumMessages opts) then (Some 0, st)
      else (case clients of
          [] \<Rightarrow> (None, st)
        | None # _ \<Rightarrow> (Some 1, st)
        | Some answer # rest \<Rightarrow> serverLoop opts rest (serveRecord opts answer st)))"

section \<open>Records are well formed\<close>

text \<open>The escape of a single character, and its inverse on a text.\<close>

definition jsonChar :: "char \<Rightarrow> string" where
  "jsonChar p = (case shortEscape p of
      Some e \<Rightarrow> e
    | None \<Rightarrow> if (0x20 :: nat) \<le> of_char p \<and> of_char p < (0x7f :: nat) then [p]
              else [CHR 0x5C, CHR ''u''] @ paddedHex 4 (of_char p))"

definition hexValue :: "char \<Rightarrow> nat" where
  "hexValue c = (if is_digit c then digit_val c else of_char c - 87)"

fun jsonUnescape :: "string \<Rightarrow> string option" where
  "jsonUnescape [] = Some []"
| "jsonUnescape (c # s) =
     (if c = CHR 0x22 \<or> (of_char c :: nat) < 0x20 then None
      else if c \<noteq> CHR 0x5C then map_option ((#) c) (jsonUnescape s)
      else (case s of
          [] \<Rightarrow> None
        | e # s1 \<Rightarrow>
            if e = CHR 0x5C \<or> e = CHR 0x22 then map_option ((#) e) (jsonUnescape s1)
            else if e = CHR ''r'' then map_option ((#) (CHR 0x0D)) (jsonUnescape s1)
            else if e = CHR ''n'' then map_option ((#) (CHR 0x0A)) (jsonUnescape s1)
            else if e = CHR ''t'' then map_option ((#) (CHR 0x09)) (jsonUnescape s1)
            else if e \<noteq> CHR ''u'' then None
            else (case s1 of
                a # b # c # d # s2 \<Rightarrow>
                  map_option ((#) (char_of (4096 * hexValue a + 256 * hexValue b + 16 * hexValue c + hexValue d)))
                    (jsonUnescape s2)
              | _ \<Rightarrow> None)))"

lemma jsonChar_length: "1 \<le> length (jsonChar p)"
  by (auto simp: jsonChar_def shortEscape_def)

text \<open>The loop escapes the characters one by one, as many of them as fit.\<close>

lemma paddedHex4: "(k :: nat) < 256 \<Longrightarrow> paddedHex 4 k = ''00'' @ [hexDigit (k div 16), hexDigit (k mod 16)]"
proof -
  assume k: "k < 256"
  have small: "hexadecimal j = [hexDigit j]" if "j < 16" for j using that by (subst hexadecimal.simps) simp
  show ?thesis
  proof (cases "k < 16")
    case True
    moreover have "hexDigit 0 = CHR ''0''" by (simp add: hexDigit.simps char_of_def bit_0 odd_iff_mod_2_eq_one)
    ultimately show ?thesis by (simp add: paddedHex_def small Let_def numeral_3_eq_3)
  next
    case False
    then have "hexadecimal k = [hexDigit (k div 16), hexDigit (k mod 16)]"
      using k by (subst hexadecimal.simps) (simp add: small less_mult_imp_div_less)
    then show ?thesis by (simp add: paddedHex_def Let_def numeral_2_eq_2)
  qed
qed

lemma jsonEscapeLoop_fits:
  assumes "length result \<le> n"
  shows "\<exists>k. k \<le> length (cString input) \<and>
     jsonEscapeLoop n input result = result @ concat (map jsonChar (take k (cString input))) \<and>
     length (jsonEscapeLoop n input result) \<le> n \<and>
     (k < length (cString input) \<longrightarrow> n < length (jsonEscapeLoop n input result) + length (jsonChar (cString input ! k)))"
  using assms
proof (induction input arbitrary: result)
  case (Cons p input)
  show ?case
  proof (cases "p = CHR 0x00")
    case True
    then show ?thesis using Cons.prems by (simp add: cString_def)
  next
    case False
    then have c: "cString (p # input) = p # cString input" by (simp add: cString_def)
    show ?thesis
    proof (cases "length result + length (jsonChar p) \<le> n")
      case True
      have step: "jsonEscapeLoop n (p # input) result = jsonEscapeLoop n input (result @ jsonChar p)"
        using False True jsonChar_length [of p]
        by (auto simp: jsonChar_def paddedHex4 shortEscape_def split: if_splits)
      have "length (result @ jsonChar p) \<le> n" using True by simp
      then obtain k where k: "k \<le> length (cString input)"
          "jsonEscapeLoop n input (result @ jsonChar p) = (result @ jsonChar p) @ concat (map jsonChar (take k (cString input)))"
          "length (jsonEscapeLoop n input (result @ jsonChar p)) \<le> n"
          "k < length (cString input) \<longrightarrow>
            n < length (jsonEscapeLoop n input (result @ jsonChar p)) + length (jsonChar (cString input ! k))"
        using Cons.IH by blast
      show ?thesis unfolding step c by (rule exI [of _ "Suc k"]) (use k in simp)
    next
      case full: False
      have "jsonEscapeLoop n (p # input) result = result"
        using False full by (auto simp: jsonChar_def paddedHex4 shortEscape_def split: if_splits)
      then show ?thesis using full Cons.prems unfolding c by (intro exI [of _ 0]) simp
    qed
  qed
qed (simp add: cString_def)

lemma hexValue_hexDigit: "n < 16 \<Longrightarrow> hexValue (hexDigit n) = n"
  using of_char_hexDigit [of n] by (auto simp: hexValue_def is_digit_iff digit_val_def)

lemma jsonUnescape_char: "jsonUnescape (jsonChar p @ rest) = map_option ((#) p) (jsonUnescape rest)"
proof (cases "shortEscape p")
  case None
  show ?thesis
  proof (cases "(0x20 :: nat) \<le> of_char p \<and> of_char p < (0x7f :: nat)")
    case True
    then show ?thesis using None by (auto simp: jsonChar_def shortEscape_def split: if_splits)
  next
    case False
    have p: "(of_char p :: nat) < 256" by simp
    have "4096 * hexValue (CHR ''0'') + 256 * hexValue (CHR ''0'') +
        16 * hexValue (hexDigit (of_char p div 16)) + hexValue (hexDigit (of_char p mod 16)) = (of_char p :: nat)"
      using p by (simp add: hexValue_hexDigit less_mult_imp_div_less) (simp add: hexValue_def is_digit_iff digit_val_def)
    moreover have "jsonChar p = [CHR 0x5C, CHR ''u'', CHR ''0'', CHR ''0'', hexDigit (of_char p div 16), hexDigit (of_char p mod 16)]"
      using False None p by (auto simp: jsonChar_def paddedHex4)
    ultimately show ?thesis by simp
  qed
qed (auto simp: jsonChar_def shortEscape_def split: if_splits)

lemma jsonUnescape_chars: "jsonUnescape (concat (map jsonChar s)) = Some s"
  by (induction s) (simp_all add: jsonUnescape_char)

lemma jsonEscape_result:
  "\<exists>k. jsonEscape input n = concat (map jsonChar (take k (cString input))) \<and> length (jsonEscape input n) \<le> n \<and>
     (k < length (cString input) \<longrightarrow> n < length (jsonEscape input n) + length (jsonChar (cString input ! k))) \<and>
     jsonUnescape (jsonEscape input n) = Some (take k (cString input))"
proof -
  obtain k where k: "jsonEscape input n = concat (map jsonChar (take k (cString input)))" "length (jsonEscape input n) \<le> n"
      "k < length (cString input) \<longrightarrow> n < length (jsonEscape input n) + length (jsonChar (cString input ! k))"
    using jsonEscapeLoop_fits [of "[]" n input] unfolding jsonEscape_def append_Nil by (metis list.size(3) zero_le)
  then show ?thesis using jsonUnescape_chars by metis
qed

text \<open>Printable ASCII.\<close>

definition printable :: "string \<Rightarrow> bool" where
  "printable s \<longleftrightarrow> (\<forall>c \<in> set s. (0x20 :: nat) \<le> of_char c \<and> of_char c < (0x7f :: nat))"

lemma printable_simps [simp]:
  "printable (s @ t) \<longleftrightarrow> printable s \<and> printable t" "printable []"
  "printable (c # s) \<longleftrightarrow> (0x20 :: nat) \<le> of_char c \<and> of_char c < (0x7f :: nat) \<and> printable s"
  by (auto simp: printable_def)

lemma printable_decimal: "printable (decimal n)" "printable (formatInt i)" "printable (paddedDecimal w n)"
proof -
  have dec: "printable (decimal k)" for k using decimal_chars [of k] by (fastforce simp: printable_def decChars_def)
  then show "printable (decimal n)" "printable (formatInt i)" "printable (paddedDecimal w n)"
    by (auto simp: formatInt_def paddedDecimal_def Let_def) (simp_all add: printable_def)
qed

lemma printable_jsonEscape: "printable (jsonEscape input n)"
proof -
  have hex: "printable [hexDigit k]" if "k < 16" for k
    using hexDigit_chars [OF that] by (auto simp: printable_def hexChars_def)
  have "printable (jsonChar p)" for p
  proof -
    have p: "(of_char p :: nat) < 256" by simp
    then have digits: "printable [hexDigit (of_char p div 16)]" "printable [hexDigit (of_char p mod 16)]"
      by (intro hex; simp add: less_mult_imp_div_less)+
    show ?thesis
      using p digits by (auto simp: jsonChar_def shortEscape_def paddedHex4)
  qed
  moreover obtain k where "jsonEscape input n = concat (map jsonChar (take k (cString input)))"
    using jsonEscape_result by blast
  ultimately show ?thesis by (auto simp: printable_def dest!: in_set_takeD)
qed

lemma printable_names: "printable (severityName severity)" "printable (subsystemName subsystem)"
  by (cases severity; simp add: printable_def) (cases subsystem; simp add: printable_def)

lemma printable_prefix:
  assumes "printable (cString (GenVersion_Version tenv))" and "printable (cString (GenVersion_Commit tenv))"
  shows "printable (recordPrefix tenv severity subsystem)"
  using assms printable_decimal printable_jsonEscape printable_names
  by (simp add: recordPrefix_def jsonField_def quoted_def timestamp_def)

text \<open>The fixed part of a record is short, apart from the version strings.\<close>

lemma prefix_length:
  "length (recordPrefix tenv severity subsystem) \<le>
     620 + length (cString (GenVersion_Version tenv)) + length (cString (GenVersion_Commit tenv))"
proof -
  have u16: "length (decimal (unat (w :: u16))) \<le> 5" for w
  proof (rule decimal_length)
    have "unat w < 2 ^ 16" by (rule less_le_trans [OF unsigned_less]) simp
    then show "unat w < 10 ^ 5" by simp
  qed simp
  have u32: "length (decimal (unat (w :: u32))) \<le> 10" for w
  proof (rule decimal_length)
    have "unat w < 2 ^ 32" by (rule less_le_trans [OF unsigned_less]) simp
    then show "unat w < 10 ^ 10" by simp
  qed simp
  have padded: "length (paddedDecimal n (unat (w :: u16))) \<le> n + 5" for n w
    using u16 [of w] by (simp add: paddedDecimal_def Let_def)
  have esc: "length (jsonEscape s 256) \<le> 256" for s using jsonEscape_result by blast
  have names: "length (severityName severity) \<le> 7" "length (subsystemName subsystem) \<le> 8"
    by (cases severity; simp) (cases subsystem; simp)
  have small: "length (formatInt 1) = 1" "length (formatInt 0) = 1" "length (formatInt (sint VT7PTY_PROTOCOL_VERSION)) = 1"
    by (simp_all add: formatInt_def VT7PTY_PROTOCOL_VERSION_def decimal.simps)
  show ?thesis
    using padded [of 4 "wYear tenv"] padded [of 2 "wMonth tenv"] padded [of 2 "wDay tenv"] padded [of 2 "wHour tenv"]
      padded [of 2 "wMinute tenv"] padded [of 2 "wSecond tenv"] padded [of 3 "wMilliseconds tenv"]
      u32 [of "processId tenv"] u32 [of "threadId tenv"] esc [of "moduleBaseName (moduleFile tenv)"] names
    by (simp add: recordPrefix_def jsonField_def quoted_def timestamp_def small)
qed

lemma printable_take: "printable s \<Longrightarrow> printable (take k s)"
  by (auto simp: printable_def dest: in_set_takeD)

lemma printable_line: "printable s \<Longrightarrow> CHR 0x00 \<notin> set s \<and> CHR 0x0D \<notin> set s \<and> CHR 0x0A \<notin> set s"
  by (auto simp: printable_def)

text \<open>
  C31. Every record that the client library or the agent makes is accepted by the server: it is a single
  line of printable ASCII, shorter than the limit of 4096 bytes, whatever the message and the name
  of the program are. Unless the fixed part alone fills its buffer, the field \<open>message\<close> decodes to the
  longest beginning of the message that fits.
\<close>

theorem trace_record_accepted:
  fixes message :: "string option"
  defines "msg \<equiv> cString (case message of None \<Rightarrow> [] | Some m \<Rightarrow> m)"
  assumes "printable (cString (GenVersion_Version tenv))" and "printable (cString (GenVersion_Commit tenv))"
  shows "\<not> invalidRecord (RecordRead (makeTraceRecord tenv severity subsystem message)) \<and>
     printable (makeTraceRecord tenv severity subsystem message) \<and>
     (length (recordPrefix tenv severity subsystem) \<le> 1535 \<longrightarrow>
       (\<exists>field k. makeTraceRecord tenv severity subsystem message =
            recordPrefix tenv severity subsystem @ field @ [CHR 0x22, CHR 0x7D] \<and>
          jsonUnescape field = Some (take k msg) \<and>
          (k < length msg \<longrightarrow> 4095 < length (makeTraceRecord tenv severity subsystem message) + length (jsonChar (msg ! k)))))"
proof -
  define pre where "pre = recordPrefix tenv severity subsystem"
  define content where "content = (case message of None \<Rightarrow> [] | Some m \<Rightarrow> m)"
  define room_left where "room_left = 4093 - length (take 1535 pre)"
  have short: "length (take 1535 pre) \<le> 1535" by simp
  have made: "makeTraceRecord tenv severity subsystem message =
      take 1535 pre @ jsonEscape content room_left @ [CHR 0x22, CHR 0x7D]"
    using short by (simp add: makeTraceRecord_def Let_def VT7PTY_MAX_TRACE_RECORD_BYTES_def room_left_def
        flip: pre_def content_def)
  obtain k where k: "length (jsonEscape content room_left) \<le> room_left"
      "k < length (cString content) \<longrightarrow>
        room_left < length (jsonEscape content room_left) + length (jsonChar (cString content ! k))"
      "jsonUnescape (jsonEscape content room_left) = Some (take k (cString content))"
    using jsonEscape_result by blast
  have line: "printable (makeTraceRecord tenv severity subsystem message)"
    using printable_take [OF printable_prefix [OF assms(2, 3), of severity subsystem], of 1535] printable_jsonEscape
    unfolding made pre_def by simp
  moreover have "hd (take 1535 pre) = CHR 0x7B" "take 1535 pre \<noteq> []" by (simp_all add: pre_def recordPrefix_def)
  then have "\<not> invalidRecord (RecordRead (makeTraceRecord tenv severity subsystem message))"
    using printable_line [OF line] k(1) short unfolding invalidRecord_def made room_left_def VT7PTY_MAX_TRACE_RECORD_BYTES_def
    by auto
  moreover have "\<exists>field k. makeTraceRecord tenv severity subsystem message = pre @ field @ [CHR 0x22, CHR 0x7D] \<and>
      jsonUnescape field = Some (take k msg) \<and>
      (k < length msg \<longrightarrow> 4095 < length (makeTraceRecord tenv severity subsystem message) + length (jsonChar (msg ! k)))"
    if "length pre \<le> 1535"
    by (rule exI [of _ "jsonEscape content room_left"], rule exI [of _ k])
      (use that k in \<open>auto simp: made msg_def room_left_def simp flip: content_def\<close>)
  ultimately show ?thesis unfolding pre_def by blast
qed

definition sampleTrace :: TraceEnv where
  "sampleTrace = \<lparr>moduleFile = (17, ''C:'' @ [CHR 0x5C] @ ''VT7Pty-Agent.exe''), wYear = 2026, wMonth = 10, wDay = 3,
     wHour = 14, wMinute = 5, wSecond = 9, wMilliseconds = 42, GenVersion_Version = ''0.5.0'',
     GenVersion_Commit = ''abcdef0'', processId = 4711, threadId = 12\<rparr>"

theorem trace_record_accepted_witness:
  "let r = makeTraceRecord sampleTrace Warning Ipc (Some [CHR 0x22, CHR 0x0A, CHR ''a''])
   in \<not> invalidRecord (RecordRead r) \<and>
      (\<exists>field k. r = recordPrefix sampleTrace Warning Ipc @ field @ [CHR 0x22, CHR 0x7D] \<and>
         jsonUnescape field = Some (take k [CHR 0x22, CHR 0x0A, CHR ''a'']))"
proof -
  have "printable (cString (GenVersion_Version sampleTrace))" "printable (cString (GenVersion_Commit sampleTrace))"
    by (simp_all add: sampleTrace_def cString_def)
  moreover have "length (recordPrefix sampleTrace Warning Ipc) \<le> 1535"
    using prefix_length [of sampleTrace Warning Ipc] by (simp add: sampleTrace_def cString_def)
  moreover have "cString [CHR 0x22, CHR 0x0A, CHR ''a''] = [CHR 0x22, CHR 0x0A, CHR ''a'']" by (simp add: cString_def)
  ultimately show ?thesis
    using trace_record_accepted [of sampleTrace Warning Ipc "Some [CHR 0x22, CHR 0x0A, CHR ''a'']"]
    unfolding Let_def option.case by metis
qed

section \<open>Sending never blocks\<close>

definition waitsOf :: "TraceCall list \<Rightarrow> nat" where
  "waitsOf calls = sum_list (map (\<lambda>c. case c of WaitPipe ms \<Rightarrow> ms | WaitAnswer ms \<Rightarrow> ms | _ \<Rightarrow> 0) calls)"

text \<open>At most two waits of 100 ms; the pipe and the event are closed whenever they were opened.\<close>

lemma send_bounded:
  "waitsOf (sendToDebugServer ans message) \<le> 200 \<and>
   count_list (sendToDebugServer ans message) OpenPipe = count_list (sendToDebugServer ans message) ClosePipe \<and>
   count_list (sendToDebugServer ans message) (Transact message) =
     count_list (sendToDebugServer ans message) CloseEvent"
  by (cases "firstOpen ans"; cases "transaction ans")
    (simp_all add: sendToDebugServer_def transactTrace_def waitsOf_def kPipeWaitMilliseconds_def)

section \<open>What the server collects\<close>

definition asLines :: "string list \<Rightarrow> string" where
  "asLines records = concat (map (\<lambda>b. b @ [CHR 0x0A]) records)"

lemma asLines_snoc [simp]: "asLines (records @ [b]) = asLines records @ b @ [CHR 0x0A]" "asLines [] = []"
  by (simp_all add: asLines_def)

text \<open>The records received so far and those of them in the file.\<close>

definition collected :: "Options \<Rightarrow> string list \<Rightarrow> string list \<Rightarrow> ServerState \<Rightarrow> bool" where
  "collected opts records kept st \<longleftrightarrow> serverStdout st = asLines records \<and>
     (\<forall>b \<in> set records. \<not> invalidRecord (RecordRead b)) \<and> subseq kept records \<and>
     (if outputPath opts = [] then serverFile st = None \<and> kept = []
      else serverFile st = Some (asLines kept) \<and> (\<not> limitReported st \<longrightarrow> kept = records)) \<and>
     unat (fileBytes st) = length (asLines kept) \<and> fileBytes st \<le> maximumFileBytes opts"

lemma serveRecord_collected:
  assumes "collected opts records kept st"
  shows "\<exists>records' kept'. collected opts records' kept' (serveRecord opts answer st)"
proof (cases "invalidRecord answer")
  case True
  then show ?thesis using assms by (intro exI [of _ records] exI [of _ kept]) (simp add: serveRecord_def collected_def)
next
  case False
  then obtain b where b: "answer = RecordRead b" "\<not> invalidRecord (RecordRead b)" "length b < 4096"
    by (cases answer) (auto simp: invalidRecord_def VT7PTY_MAX_TRACE_RECORD_BYTES_def)
  have valid: "\<forall>x \<in> set (records @ [b]). \<not> invalidRecord (RecordRead x)" using assms b(2) by (auto simp: collected_def)
  have sub: "subseq kept (records @ [b])" "subseq (kept @ [b]) (records @ [b])"
    using assms by (auto simp: collected_def)
  define r where "r = (of_nat (length b) + 1 :: u64)"
  have r: "unat r = length b + 1"
  proof -
    have sum: "r = of_nat (length b + 1)" by (simp add: r_def)
    have "unat r = (length b + 1) mod 2 ^ LENGTH(64)" unfolding sum by (rule unat_of_nat)
    also have "\<dots> = length b + 1" by (rule mod_less) (use b(3) in simp)
    finally show ?thesis .
  qed
  show ?thesis
  proof (cases "outputPath opts = []")
    case True
    then have "collected opts (records @ [b]) kept (serveRecord opts answer st)"
      using assms b valid sub(1) by (simp add: serveRecord_def collected_def appendToFile_def Let_def)
    then show ?thesis by blast
  next
    case toFile: False
    show ?thesis
    proof (cases "r \<le> maximumFileBytes opts - fileBytes st")
      case True
      have le: "fileBytes st \<le> maximumFileBytes opts" using assms by (simp add: collected_def)
      then have "unat r + unat (fileBytes st) \<le> unat (maximumFileBytes opts)"
        using True by (simp add: word_le_nat_alt unat_sub)
      moreover have "unat (maximumFileBytes opts) < 2 ^ 64" by (rule less_le_trans [OF unsigned_less]) simp
      ultimately have sum: "unat (fileBytes st + r) = unat (fileBytes st) + unat r" "fileBytes st + r \<le> maximumFileBytes opts"
        by (simp_all add: unat_word_ariths word_le_nat_alt)
      have "collected opts (records @ [b]) (kept @ [b]) (serveRecord opts answer st)"
        using assms b valid sub(2) toFile True sum r
        by (auto simp: serveRecord_def collected_def appendToFile_def Let_def r_def)
      then show ?thesis by blast
    next
      case False
      have "collected opts (records @ [b]) kept (serveRecord opts answer st)"
        using assms b valid sub(1) toFile False
        by (auto simp: serveRecord_def collected_def appendToFile_def Let_def r_def)
      then show ?thesis by blast
    qed
  qed
qed

lemma serverLoop_collected:
  assumes "collected opts records kept st"
  shows "\<exists>records' kept'. collected opts records' kept' (snd (serverLoop opts clients st))"
  using assms
proof (induction clients arbitrary: records kept st)
  case (Cons client clients)
  show ?case
  proof (cases client)
    case (Some answer)
    obtain records1 kept1 where "collected opts records1 kept1 (serveRecord opts answer st)"
      using serveRecord_collected [OF Cons.prems] by blast
    then show ?thesis using Cons.IH Cons.prems Some by (auto simp: serverLoop.simps [of opts "client # clients"])
  qed (use Cons.prems in auto)
qed auto


text \<open>The file still grows after the limit has been reported, when a shorter record follows.\<close>

lemma file_grows_after_limit:
  "let opts = defaultOptions\<lparr>outputPath := [0x61], maximumFileBytes := 4\<rparr>;
       st = serveRecord opts (RecordRead [CHR 0x7B, CHR ''a'', CHR ''b'', CHR 0x7D]) (newServer opts)
   in limitReported st \<and> serverFile st = Some [] \<and>
      serverFile (serveRecord opts (RecordRead [CHR 0x7B, CHR 0x7D]) st) = Some [CHR 0x7B, CHR 0x7D, CHR 0x0A]"
  by (simp add: defaultOptions_def newServer_def serveRecord_def invalidRecord_def appendToFile_def
      VT7PTY_MAX_TRACE_RECORD_BYTES_def Let_def)

end
