(* ===== verification/InputDump.thy ===== *)
theory InputDump
  imports Startup
begin

text \<open>
  What the agent can print about its input (src/agent/DebugShowInput.cc, the dump of
  src/agent/InputMap.cc, src/shared/ControlCharacters.h): texts of flags, keys and mouse events,
  the listing of an input map that the debug flag \<open>dump_input_map\<close> traces, and the
  \<open>--show-input\<close> loop with the console modes it sets. The console is a parameter: a list of the
  answers of \<open>ReadConsoleInputW\<close>.

  The lemmas: the text of a key identifies it; the dump lists the entries of the map in order,
  and fails at the first encoding with a byte above 127; the loop stops at the first control-D.
\<close>

section \<open>Flags\<close>

record Flag =
  flagValue :: u32
  flagText :: string

definition mkFlag :: "u32 \<Rightarrow> string \<Rightarrow> Flag" where
  "mkFlag v t = \<lparr>flagValue = v, flagText = t\<rparr>"

definition kButtonStates :: "Flag list" where
  "kButtonStates =
    [mkFlag FROM_LEFT_1ST_BUTTON_PRESSED ''1'',
     mkFlag FROM_LEFT_2ND_BUTTON_PRESSED ''2'',
     mkFlag 0x0008 ''3'',
     mkFlag 0x0010 ''4'',
     mkFlag RIGHTMOST_BUTTON_PRESSED ''R'']"

definition CAPSLOCK_ON :: u32 where "CAPSLOCK_ON = 0x0080"
definition NUMLOCK_ON :: u32 where "NUMLOCK_ON = 0x0020"
definition SCROLLLOCK_ON :: u32 where "SCROLLLOCK_ON = 0x0040"

definition kControlKeyStates :: "Flag list" where
  "kControlKeyStates =
    [mkFlag CAPSLOCK_ON ''CapsLock'',
     mkFlag (ucast ENHANCED_KEY) ''Enhanced'',
     mkFlag (ucast LEFT_ALT_PRESSED) ''LAlt'',
     mkFlag (ucast LEFT_CTRL_PRESSED) ''LCtrl'',
     mkFlag NUMLOCK_ON ''NumLock'',
     mkFlag (ucast RIGHT_ALT_PRESSED) ''RAlt'',
     mkFlag (ucast RIGHT_CTRL_PRESSED) ''RCtrl'',
     mkFlag SCROLLLOCK_ON ''ScrollLock'',
     mkFlag (ucast SHIFT_PRESSED) ''Shift'']"

definition kMouseEventFlags :: "Flag list" where
  "kMouseEventFlags =
    [mkFlag DOUBLE_CLICK ''Double'', mkFlag 8 ''HWheel'', mkFlag MOUSE_MOVED ''Move'',
     mkFlag MOUSE_WHEELED ''Wheel'']"

text \<open>\<open>flagSeparator\<close> is the piece written before a flag; a NUL stands for no separator.\<close>

definition flagSeparator :: "bool \<Rightarrow> char \<Rightarrow> char \<Rightarrow> string" where
  "flagSeparator wroteSomething pre sep =
     (if \<not> wroteSomething \<and> pre \<noteq> CHR 0x00 then [pre]
      else if wroteSomething \<and> sep \<noteq> CHR 0x00 then [sep] else [])"

fun writeFlagsLoop ::
  "u32 \<Rightarrow> char \<Rightarrow> char \<Rightarrow> Flag list \<Rightarrow> string \<Rightarrow> u32 \<Rightarrow> bool \<Rightarrow> string \<times> u32 \<times> bool" where
  "writeFlagsLoop bits pre sep [] out remaining wroteSomething = (out, remaining, wroteSomething)"
| "writeFlagsLoop bits pre sep (f # table) out remaining wroteSomething =
     (if flagValue f AND bits = flagValue f then
        writeFlagsLoop bits pre sep table
          (out @ flagSeparator wroteSomething pre sep @ flagText f)
          (remaining AND NOT (flagValue f)) True
      else writeFlagsLoop bits pre sep table out remaining wroteSomething)"

definition writeFlags :: "string \<Rightarrow> u32 \<Rightarrow> string \<Rightarrow> Flag list \<Rightarrow> char \<Rightarrow> char \<Rightarrow> char \<Rightarrow> string" where
  "writeFlags out bits remainderName table pre sep post =
     (let (out1, remaining, wrote1) = writeFlagsLoop bits pre sep table out bits False;
          (out2, wrote2) =
            (if remaining \<noteq> 0 then
               (out1 @ flagSeparator wrote1 pre sep @ remainderName @ ''(0x'' @
                  hexadecimal (unat remaining) @ '')'', True)
             else (out1, wrote1))
      in if wrote2 \<and> post \<noteq> CHR 0x00 then out2 @ [post] else out2)"

definition controlKeyStatePrefix :: "u32 \<Rightarrow> string" where
  "controlKeyStatePrefix controlKeyState =
     writeFlags [] controlKeyState ''keyState'' kControlKeyStates (CHR 0x00) (CHR ''-'') (CHR ''-'')"

definition mouseEventToString :: "MouseEventRecord \<Rightarrow> string" where
  "mouseEventToString mer =
     (let buttons = dwButtonState mer AND 0xFFFF;
          wheel = (ucast (drop_bit 16 (dwButtonState mer)) :: u16);
          sb = ''pos='' @ formatInt (fst (mousePosition mer)) @ '','' @ formatInt (snd (mousePosition mer));
          sb = writeFlags sb (mouseControlState mer) ''keyState'' kControlKeyStates (CHR '' '') (CHR '' '') (CHR 0x00);
          sb = writeFlags sb (dwEventFlags mer) ''flags'' kMouseEventFlags (CHR '' '') (CHR '' '') (CHR 0x00);
          sb = writeFlags sb buttons ''buttons'' kButtonStates (CHR '' '') (CHR '' '') (CHR 0x00)
      in if wheel \<noteq> 0 then sb @ '' wheel='' @ formatInt (sint wheel) else sb)"

section \<open>Keys\<close>

text \<open>The values of the \<open>VK_\<close> constants of winuser.h, in the order of the \<open>switch\<close>.\<close>

definition virtualKeyNames :: "(int \<times> string) list" where
  "virtualKeyNames = [
    (0x02, ''RBUTTON''), (0x78, ''F9''), (0x03, ''CANCEL''), (0x79, ''F10''), (0x04, ''MBUTTON''),
    (0x7A, ''F11''), (0x05, ''XBUTTON1''), (0x7B, ''F12''), (0x06, ''XBUTTON2''), (0x7C, ''F13''),
    (0x08, ''BACK''), (0x7D, ''F14''), (0x09, ''TAB''), (0x7E, ''F15''), (0x0C, ''CLEAR''),
    (0x7F, ''F16''), (0x0D, ''RETURN''), (0x80, ''F17''), (0x10, ''SHIFT''), (0x81, ''F18''),
    (0x11, ''CONTROL''), (0x82, ''F19''), (0x12, ''MENU''), (0x83, ''F20''), (0x13, ''PAUSE''),
    (0x84, ''F21''), (0x14, ''CAPITAL''), (0x85, ''F22''), (0x15, ''HANGUL''), (0x86, ''F23''),
    (0x17, ''JUNJA''), (0x87, ''F24''), (0x18, ''FINAL''), (0x90, ''NUMLOCK''), (0x19, ''KANJI''),
    (0x91, ''SCROLL''), (0x1B, ''ESCAPE''), (0xA0, ''LSHIFT''), (0x1C, ''CONVERT''),
    (0xA1, ''RSHIFT''), (0x1D, ''NONCONVERT''), (0xA2, ''LCONTROL''), (0x1E, ''ACCEPT''),
    (0xA3, ''RCONTROL''), (0x1F, ''MODECHANGE''), (0xA4, ''LMENU''), (0x20, ''SPACE''),
    (0xA5, ''RMENU''), (0x21, ''PRIOR''), (0xA6, ''BROWSER_BACK''), (0x22, ''NEXT''),
    (0xA7, ''BROWSER_FORWARD''), (0x23, ''END''), (0xA8, ''BROWSER_REFRESH''), (0x24, ''HOME''),
    (0xA9, ''BROWSER_STOP''), (0x25, ''LEFT''), (0xAA, ''BROWSER_SEARCH''), (0x26, ''UP''),
    (0xAB, ''BROWSER_FAVORITES''), (0x27, ''RIGHT''), (0xAC, ''BROWSER_HOME''), (0x28, ''DOWN''),
    (0xAD, ''VOLUME_MUTE''), (0x29, ''SELECT''), (0xAE, ''VOLUME_DOWN''), (0x2A, ''PRINT''),
    (0xAF, ''VOLUME_UP''), (0x2B, ''EXECUTE''), (0xB0, ''MEDIA_NEXT_TRACK''), (0x2C, ''SNAPSHOT''),
    (0xB1, ''MEDIA_PREV_TRACK''), (0x2D, ''INSERT''), (0xB2, ''MEDIA_STOP''), (0x2E, ''DELETE''),
    (0xB3, ''MEDIA_PLAY_PAUSE''), (0x2F, ''HELP''), (0xB4, ''LAUNCH_MAIL''), (0x5B, ''LWIN''),
    (0xB5, ''LAUNCH_MEDIA_SELECT''), (0x5C, ''RWIN''), (0xB6, ''LAUNCH_APP1''), (0x5D, ''APPS''),
    (0xB7, ''LAUNCH_APP2''), (0x5F, ''SLEEP''), (0xBA, ''OEM_1''), (0x60, ''NUMPAD0''),
    (0xBB, ''OEM_PLUS''), (0x61, ''NUMPAD1''), (0xBC, ''OEM_COMMA''), (0x62, ''NUMPAD2''),
    (0xBD, ''OEM_MINUS''), (0x63, ''NUMPAD3''), (0xBE, ''OEM_PERIOD''), (0x64, ''NUMPAD4''),
    (0xBF, ''OEM_2''), (0x65, ''NUMPAD5''), (0xC0, ''OEM_3''), (0x66, ''NUMPAD6''),
    (0xDB, ''OEM_4''), (0x67, ''NUMPAD7''), (0xDC, ''OEM_5''), (0x68, ''NUMPAD8''),
    (0xDD, ''OEM_6''), (0x69, ''NUMPAD9''), (0xDE, ''OEM_7''), (0x6A, ''MULTIPLY''),
    (0xDF, ''OEM_8''), (0x6B, ''ADD''), (0xE2, ''OEM_102''), (0x6C, ''SEPARATOR''),
    (0xE5, ''PROCESSKEY''), (0x6D, ''SUBTRACT''), (0xE7, ''PACKET''), (0x6E, ''DECIMAL''),
    (0xF6, ''ATTN''), (0x6F, ''DIVIDE''), (0xF7, ''CRSEL''), (0x70, ''F1''), (0xF8, ''EXSEL''),
    (0x71, ''F2''), (0xF9, ''EREOF''), (0x72, ''F3''), (0xFA, ''PLAY''), (0x73, ''F4''),
    (0xFB, ''ZOOM''), (0x74, ''F5''), (0xFC, ''NONAME''), (0x75, ''F6''), (0xFD, ''PA1''),
    (0x76, ''F7''), (0xFE, ''OEM_CLEAR''), (0x77, ''F8'')]"

definition getVirtualKeyString :: "int \<Rightarrow> string option" where
  "getVirtualKeyString vk = map_of virtualKeyNames vk"

definition keyToString :: "Key \<Rightarrow> string" where
  "keyToString k =
     (let vk = uint (virtualKey k);
          ret = controlKeyStatePrefix (ucast (keyState k));
          ret = (case getVirtualKeyString vk of
              Some vkString \<Rightarrow> ret @ vkString
            | None \<Rightarrow>
                if (0x41 \<le> vk \<and> vk \<le> 0x5A) \<or> (0x30 \<le> vk \<and> vk \<le> 0x39)
                then ret @ [char_of (nat vk)]
                else ret @ ''0x'' @ hexadecimal (nat vk))
      in if 32 \<le> unicodeChar k \<and> unicodeChar k \<le> 126
         then ret @ '' ch='' @ [CHR 0x27, char_of (unat (unicodeChar k)), CHR 0x27]
         else ret @ '' ch=0x'' @ hexadecimal (unat (unicodeChar k)))"

section \<open>The dump of an input map\<close>

definition ctrlKeys :: string where
  "ctrlKeys = ''@ABCDEFGHIJKLMNOPQRSTUVWXYZ['' @ [CHR 0x5C] @ '']^_''"

definition decodeControlCharacter :: "char \<Rightarrow> char" where
  "decodeControlCharacter ch =
     (let uch = (of_char ch :: nat)
      in if uch < 32 then ctrlKeys ! uch else if uch = 127 then CHR ''?'' else CHR 0x00)"

text \<open>\<open>childEncoding encoding i\<close> is the encoding that the child of byte \<open>i\<close> is dumped with.\<close>

definition childEncoding :: "string \<Rightarrow> nat \<Rightarrow> string option" where
  "childEncoding encoding i = do {
     checkedNarrow SCHAR_range (int i);
     let encoding1 = (if encoding \<noteq> [] then encoding @ '' '' else encoding);
     let ctrlChar = decodeControlCharacter (char_of i);
     Some (if ctrlChar \<noteq> CHR 0x00 then encoding1 @ [CHR ''^'', ctrlChar]
       else if i = 32 then encoding1 @ [CHR 0x27, CHR '' '', CHR 0x27]
       else encoding1 @ [char_of i])
   }"

text \<open>
  A dump is the list of traced messages, and whether it ran to its end: a failed assertion
  ends the agent after the messages before it.
\<close>

type_synonym Dump = "string list \<times> bool"

fun dumpLoop :: "Dump list \<Rightarrow> Dump" where
  "dumpLoop [] = ([], True)"
| "dumpLoop (d # ds) =
     (if snd d then (fst d @ fst (dumpLoop ds), snd (dumpLoop ds)) else (fst d, False))"

definition dumpLine :: "string \<Rightarrow> Key \<Rightarrow> string" where
  "dumpLine encoding k = cString encoding @ '' -> '' @ cString (keyToString k)"

definition childRel :: "(Node \<times> Node) set" where
  "childRel = {(m, n). \<exists>c. getChild n c = Some m}"

lemma wf_childRel: "wf childRel"
proof -
  have child: "m \<in> Wellfounded.acc childRel"
    if "\<forall>m c. (case ch of Tiny kvs \<Rightarrow> map_of kvs c = Some m | Branch f \<Rightarrow> f c = Some m) \<longrightarrow>
          m \<in> Wellfounded.acc childRel" and "getChild (Node k n ch) c = Some m" for ch k n c m
    using that by (cases ch) (auto simp: getChild_def split: if_splits)
  have "n \<in> Wellfounded.acc childRel" for n
  proof (induction n rule: Node.induct [where ?P2.0 = "\<lambda>ch. \<forall>m c.
      (case ch of Tiny kvs \<Rightarrow> map_of kvs c = Some m | Branch f \<Rightarrow> f c = Some m) \<longrightarrow> m \<in> Wellfounded.acc childRel"])
    case (Node k n ch)
    show ?case
      by (rule accI) (use child [OF Node] in \<open>auto simp: childRel_def\<close>)
  next
    case (Tiny kvs)
    have "m \<in> Wellfounded.acc childRel" if "map_of kvs c = Some m" for m c
      using Tiny [OF map_of_SomeD [OF that], of m] by simp
    then show ?case by simp
  next
    case (Branch f)
    have "m \<in> Wellfounded.acc childRel" if "f c = Some m" for m c
      using Branch [of "f c" m] rangeI [of f c] that by simp
    then show ?case by simp
  qed
  then show ?thesis by (simp add: wf_iff_acc)
qed

function dumpInputMapHelper :: "Node \<Rightarrow> string \<Rightarrow> Dump" where
  "dumpInputMapHelper node encoding =
     dumpLoop (((if hasKey node then [dumpLine encoding (key node)] else []), True) #
       map (\<lambda>i. case getChild node (char_of i) of
           None \<Rightarrow> ([], True)
         | Some child \<Rightarrow> (case childEncoding encoding i of
             None \<Rightarrow> ([], False)
           | Some encoding1 \<Rightarrow> dumpInputMapHelper child encoding1)) [0..<256])"
  by auto

termination
  by (relation "inv_image childRel fst", simp add: wf_childRel) (auto simp: childRel_def)

declare dumpInputMapHelper.simps [simp del]

definition dumpInputMap :: "Node \<Rightarrow> Dump" where
  "dumpInputMap root = dumpInputMapHelper root []"


section \<open>The loop of \<open>--show-input\<close>\<close>

text \<open>The alternatives of \<open>INPUT_RECORD\<close> that the loop tells apart.\<close>

datatype DebugRecord =
    DebugKey KeyEventRecord
  | DebugMouse MouseEventRecord
  | DebugBufferSize int int
  | DebugMenu u32
  | DebugFocus bool
  | DebugOther

definition debugKey :: "KeyEventRecord \<Rightarrow> Key" where
  "debugKey ker = \<lparr>virtualKey = wVirtualKeyCode ker, unicodeChar = ucast (UnicodeChar ker),
     keyState = ucast (keyControlState ker)\<rparr>"

definition debugRecordText :: "DebugRecord \<Rightarrow> string" where
  "debugRecordText r = (case r of
      DebugKey ker \<Rightarrow> ''key: '' @ (if bKeyDown ker then ''dn'' else ''up'') @
        '' rpt='' @ decimal (unat (wRepeatCount ker)) @
        '' scn='' @ (if wVirtualScanCode ker \<noteq> 0 then ''0x'' else []) @
        hexadecimal (unat (wVirtualScanCode ker)) @ '' '' @ keyToString (debugKey ker) @ [CHR 0x0A]
    | DebugMouse mer \<Rightarrow> ''mouse: '' @ mouseEventToString mer @ [CHR 0x0A]
    | DebugBufferSize w h \<Rightarrow> ''buffer-resized: dwSize=('' @ formatInt w @ '','' @ formatInt h @ '')'' @ [CHR 0x0A]
    | DebugMenu command \<Rightarrow> ''menu-event: commandId=0x'' @ hexadecimal (unat command) @ [CHR 0x0A]
    | DebugFocus gained \<Rightarrow> ''focus: '' @ (if gained then ''gained'' else ''lost'') @ [CHR 0x0A]
    | DebugOther \<Rightarrow> [])"

definition endsShowInput :: "DebugRecord \<Rightarrow> bool" where
  "endsShowInput r = (case r of
      DebugKey ker \<Rightarrow>
        keyControlState ker AND ucast (LEFT_CTRL_PRESSED OR RIGHT_CTRL_PRESSED) \<noteq> 0 \<and>
          wVirtualKeyCode ker = 0x44 \<or>
        wVirtualKeyCode ker = 0 \<and> wVirtualScanCode ker = 0 \<and> UnicodeChar ker = 4
    | _ \<Rightarrow> False)"

fun showRecords :: "DebugRecord list \<Rightarrow> string \<times> bool" where
  "showRecords [] = ([], False)"
| "showRecords (r # rs) =
     (if endsShowInput r then (debugRecordText r, True)
      else (let (out, finished) = showRecords rs in (debugRecordText r @ out, finished)))"

text \<open>
  An answer of \<open>ReadConsoleInputW\<close> is \<^term>\<open>None\<close> when it fails and the records it read
  otherwise. The second result tells whether the loop has ended; it waits for a further
  answer otherwise.
\<close>

fun showInputLoop :: "DebugRecord list option list \<Rightarrow> string \<times> bool" where
  "showInputLoop [] = ([], False)"
| "showInputLoop (answer # answers) = (case answer of
      None \<Rightarrow> ([], True)
    | Some records \<Rightarrow>
        if length records < 1 then ([], True)
        else (let (out, finished) = showRecords records
          in if finished then (out, True)
             else (let (out', ended) = showInputLoop answers in (out @ out', ended))))"

definition ENABLE_LINE_INPUT :: u32 where "ENABLE_LINE_INPUT = 0x0002"
definition ENABLE_ECHO_INPUT :: u32 where "ENABLE_ECHO_INPUT = 0x0004"
definition ENABLE_WINDOW_INPUT :: u32 where "ENABLE_WINDOW_INPUT = 0x0008"

definition restoreMode :: "bool \<Rightarrow> u32 \<Rightarrow> u32" where
  "restoreMode enableMouse orig =
     (if enableMouse \<and> orig AND ENABLE_EXTENDED_FLAGS = 0
      then orig OR ENABLE_EXTENDED_FLAGS OR ENABLE_QUICK_EDIT_MODE OR ENABLE_INSERT_MODE else orig)"

definition showInputMode :: "bool \<Rightarrow> bool \<Rightarrow> u32 \<Rightarrow> u32" where
  "showInputMode enableMouse escapeInput restore =
     (let m = restore AND NOT ENABLE_PROCESSED_INPUT AND NOT ENABLE_LINE_INPUT AND NOT ENABLE_ECHO_INPUT;
          m = m OR ENABLE_WINDOW_INPUT;
          m = (if enableMouse then (m OR ENABLE_MOUSE_INPUT) AND NOT ENABLE_QUICK_EDIT_MODE
               else m AND NOT ENABLE_MOUSE_INPUT)
      in if escapeInput then m OR 0x200 else m)"

text \<open>
  \<open>debugShowInput\<close> with the mode that \<open>GetConsoleMode\<close> answers, whether the first
  \<open>SetConsoleMode\<close> succeeds, and the records read: the console modes it sets in order, its
  output, and whether it has returned; \<^term>\<open>Inl 1\<close> is \<open>exit(1)\<close>.
\<close>

definition debugShowInput ::
  "bool \<Rightarrow> bool \<Rightarrow> u32 option \<Rightarrow> bool \<Rightarrow> DebugRecord list option list \<Rightarrow> int + u32 list \<times> string \<times> bool" where
  "debugShowInput enableMouse escapeInput mode setOk answers = (case mode of
      None \<Rightarrow> Inl 1
    | Some orig \<Rightarrow>
        (let restore = restoreMode enableMouse orig;
             new = showInputMode enableMouse escapeInput restore
         in if \<not> setOk then Inl 1
            else (let (out, ended) = showInputLoop answers
              in Inr ([new] @ (if ended then [restore] else []),
                   [CHR 0x0A] @ ''Press any keys -- Ctrl-D exits'' @ [CHR 0x0A, CHR 0x0A] @ out, ended))))"

section \<open>Flag texts\<close>

fun flagTexts :: "bool \<Rightarrow> char \<Rightarrow> char \<Rightarrow> string list \<Rightarrow> string" where
  "flagTexts wrote pre sep [] = []"
| "flagTexts wrote pre sep (t # ts) = flagSeparator wrote pre sep @ t @ flagTexts True pre sep ts"

definition setFlags :: "u32 \<Rightarrow> Flag list \<Rightarrow> Flag list" where
  "setFlags bits table = filter (\<lambda>f. flagValue f AND bits = flagValue f) table"

definition unnamedBits :: "u32 \<Rightarrow> Flag list \<Rightarrow> u32" where
  "unnamedBits bits table = fold (\<lambda>f r. r AND NOT (flagValue f)) (setFlags bits table) bits"

definition flagTokens :: "u32 \<Rightarrow> string \<Rightarrow> Flag list \<Rightarrow> string list" where
  "flagTokens bits rname table = map flagText (setFlags bits table) @
     (if unnamedBits bits table \<noteq> 0
      then [rname @ ''(0x'' @ hexadecimal (unat (unnamedBits bits table)) @ '')''] else [])"

lemma flagTexts_append:
  "flagTexts w pre sep (xs @ ys) = flagTexts w pre sep xs @ flagTexts (w \<or> xs \<noteq> []) pre sep ys"
  by (induction xs arbitrary: w) auto

lemma writeFlagsLoop_texts:
  "writeFlagsLoop bits pre sep table out r w =
    (out @ flagTexts w pre sep (map flagText (setFlags bits table)),
     fold (\<lambda>f r. r AND NOT (flagValue f)) (setFlags bits table) r, w \<or> setFlags bits table \<noteq> [])"
  by (induction table arbitrary: out r w) (auto simp: setFlags_def)

lemma writeFlags_texts:
  "writeFlags out bits rname table pre sep post =
    out @ flagTexts False pre sep (flagTokens bits rname table) @
    (if flagTokens bits rname table \<noteq> [] \<and> post \<noteq> CHR 0x00 then [post] else [])"
  by (simp add: writeFlags_def writeFlagsLoop_texts flagTokens_def flagTexts_append Let_def
      flip: unnamedBits_def)

lemma prefix_tokens:
  "controlKeyStatePrefix bits =
    concat (map (\<lambda>t. t @ ''-'') (flagTokens bits ''keyState'' kControlKeyStates))"
proof -
  have "flagTexts True (CHR 0x00) (CHR ''-'') ts @ ''-'' = ''-'' @ concat (map (\<lambda>t. t @ ''-'') ts)" for ts
    by (induction ts) (simp_all add: flagSeparator_def)
  then have "flagTexts False (CHR 0x00) (CHR ''-'') ts @ (if ts \<noteq> [] then ''-'' else []) =
      concat (map (\<lambda>t. t @ ''-'') ts)" for ts
    by (cases ts) (simp_all add: flagSeparator_def)
  then show ?thesis by (simp add: controlKeyStatePrefix_def writeFlags_texts)
qed

lemma named_and_unnamed:
  "bits = unnamedBits bits table OR foldr (\<lambda>f m. flagValue f OR m) (setFlags bits table) 0"
proof -
  have within: "foldr (\<lambda>f m. flagValue f OR m) S 0 AND bits = foldr (\<lambda>f m. flagValue f OR m) S 0"
    if "\<forall>f \<in> set S. flagValue f AND bits = flagValue f" for S
    using that by (induction S) (simp_all add: bit.conj_disj_distrib2)
  have rest: "fold (\<lambda>f r. r AND NOT (flagValue f)) S r = r AND NOT (foldr (\<lambda>f m. flagValue f OR m) S 0)" for S r
    by (induction S arbitrary: r) (simp_all add: bit.de_Morgan_disj ac_simps)
  define m where "m = foldr (\<lambda>f m. flagValue f OR m) (setFlags bits table) 0"
  have "m AND bits = m" unfolding m_def by (rule within) (simp add: setFlags_def)
  then have sub: "bit m i \<Longrightarrow> bit bits i" for i by (metis bit_and_iff)
  have "bits = (bits AND NOT m) OR m"
    by (rule bit_word_eqI) (use sub in \<open>auto simp: bit_and_iff bit_or_iff bit_not_iff\<close>)
  then show ?thesis by (simp add: unnamedBits_def rest m_def)
qed

lemma hexadecimal_unat: "hexadecimal (unat v) = hexadecimal (unat w) \<longleftrightarrow> v = w"
  using hexadecimal_inject [of "unat v" "unat w"] by (auto simp: word_unat_eq_iff)

lemma flagTokens_inject:
  assumes t: "flagTokens bits rname table = flagTokens bits' rname table"
    and d: "distinct (map flagText table)" and p: "\<forall>f \<in> set table. CHR ''('' \<notin> set (flagText f)"
  shows "bits = bits'"
proof -
  let ?named = "filter (\<lambda>t. CHR ''('' \<notin> set t)" and ?rest = "filter (\<lambda>t. CHR ''('' \<in> set t)"
  have n: "?named (map flagText (setFlags b table)) = map flagText (setFlags b table)"
    "?rest (map flagText (setFlags b table)) = []" for b
    using p by (auto simp: setFlags_def filter_id_conv filter_empty_conv)
  have "map flagText (setFlags bits table) = map flagText (setFlags bits' table)"
    using arg_cong [OF t, of ?named] n by (simp add: flagTokens_def split: if_splits)
  moreover have "inj_on flagText (set table)" using d by (simp add: distinct_map)
  then have "inj_on flagText (set (setFlags bits table) \<union> set (setFlags bits' table))"
    by (rule inj_on_subset) (auto simp: setFlags_def)
  ultimately have S: "setFlags bits table = setFlags bits' table" by (rule map_inj_on)
  have "unnamedBits bits table = unnamedBits bits' table"
    using arg_cong [OF t, of ?rest] n
    by (auto simp: flagTokens_def hexadecimal_unat split: if_splits)
  then show ?thesis using named_and_unnamed [of bits table] named_and_unnamed [of bits' table] S by simp
qed

section \<open>Key texts\<close>

definition keyName :: "u16 \<Rightarrow> string" where
  "keyName vk = (case getVirtualKeyString (uint vk) of
      Some vkString \<Rightarrow> vkString
    | None \<Rightarrow>
        if (0x41 \<le> uint vk \<and> uint vk \<le> 0x5A) \<or> (0x30 \<le> uint vk \<and> uint vk \<le> 0x39)
        then [char_of (unat vk)] else ''0x'' @ hexadecimal (unat vk))"

definition charText :: "u32 \<Rightarrow> string" where
  "charText c = (if 32 \<le> c \<and> c \<le> 126 then [CHR 0x27, char_of (unat c), CHR 0x27]
     else ''0x'' @ hexadecimal (unat c))"

lemma keyToString_parts:
  "keyToString k = concat (map (\<lambda>t. t @ ''-'') (flagTokens (ucast (keyState k)) ''keyState'' kControlKeyStates)) @
     keyName (virtualKey k) @ CHR '' '' # ''ch='' @ charText (unicodeChar k)"
  by (simp add: keyToString_def keyName_def charText_def prefix_tokens Let_def nat_uint_eq
      split: option.splits)

lemma virtualKeyNames_ok:
  "distinct (map snd virtualKeyNames)"
  "list_all (\<lambda>(v, t). 2 \<le> length t \<and> hd t \<noteq> CHR ''0'' \<and> CHR ''-'' \<notin> set t \<and> CHR '' '' \<notin> set t) virtualKeyNames"
  by code_simp+

lemma control_flag_texts:
  "distinct (map flagText kControlKeyStates)"
  "\<forall>f \<in> set kControlKeyStates. CHR ''('' \<notin> set (flagText f) \<and> CHR ''-'' \<notin> set (flagText f) \<and>
     CHR '' '' \<notin> set (flagText f)"
  by (simp_all add: kControlKeyStates_def mkFlag_def)

lemma hexadecimal_plain: "CHR ''-'' \<notin> set (hexadecimal n)" "CHR '' '' \<notin> set (hexadecimal n)"
  "CHR 0x00 \<notin> set (hexadecimal n)"
  using hexadecimal_chars [of n] by (auto simp: hexChars_def)

lemma virtualKeyString_ok:
  assumes "getVirtualKeyString v = Some t"
  shows "2 \<le> length t" "hd t \<noteq> CHR ''0''" "CHR ''-'' \<notin> set t" "CHR '' '' \<notin> set t"
    and "getVirtualKeyString w = Some t \<Longrightarrow> v = w"
proof -
  have m: "(v, t) \<in> set virtualKeyNames" using assms by (simp add: getVirtualKeyString_def map_of_SomeD)
  then show "2 \<le> length t" "hd t \<noteq> CHR ''0''" "CHR ''-'' \<notin> set t" "CHR '' '' \<notin> set t"
    using virtualKeyNames_ok(2) by (auto simp: list_all_iff)
  show "v = w" if "getVirtualKeyString w = Some t"
  proof -
    have "(w, t) \<in> set virtualKeyNames" using that by (simp add: getVirtualKeyString_def map_of_SomeD)
    then show ?thesis using m virtualKeyNames_ok(1) unfolding distinct_map inj_on_def by fastforce
  qed
qed

text \<open>A name is a name of the table, a letter or digit, or a number; each form is recognisable.\<close>

lemma keyName_cases:
  obtains (named) t where "getVirtualKeyString (uint vk) = Some t" "keyName vk = t"
  | (plain) "getVirtualKeyString (uint vk) = None" "keyName vk = [char_of (unat vk)]" "unat vk \<in> {0x30..0x5A}"
  | (number) "getVirtualKeyString (uint vk) = None" "keyName vk = ''0x'' @ hexadecimal (unat vk)"
proof (cases "getVirtualKeyString (uint vk)")
  case None
  show ?thesis
  proof (cases "(0x41 \<le> uint vk \<and> uint vk \<le> 0x5A) \<or> (0x30 \<le> uint vk \<and> uint vk \<le> 0x39)")
    case True
    then have "unat vk \<in> {0x30..0x5A}" by (auto simp flip: nat_uint_eq)
    then show ?thesis using None True by (intro plain) (simp_all only: keyName_def option.simps if_True)
  next
    case False
    then show ?thesis using None by (intro number) (simp_all only: keyName_def option.simps if_False)
  qed
qed (simp add: keyName_def named)

lemma keyName_plain: "CHR ''-'' \<notin> set (keyName vk)" "CHR '' '' \<notin> set (keyName vk)"
proof -
  have "n \<in> {0x30..0x5A} \<Longrightarrow> char_of n \<noteq> CHR ''-'' \<and> char_of n \<noteq> CHR '' ''" for n :: nat
    by (auto dest: arg_cong [of _ _ "of_char :: char \<Rightarrow> nat"] simp: of_char_of)
  then show "CHR ''-'' \<notin> set (keyName vk)" "CHR '' '' \<notin> set (keyName vk)"
    by (cases vk rule: keyName_cases; force simp: virtualKeyString_ok hexadecimal_plain)+
qed

lemma keyName_inject: "keyName v = keyName w \<Longrightarrow> v = w"
proof -
  assume eq: "keyName v = keyName w"
  have char_inj: "char_of m = (char_of n :: char) \<Longrightarrow> m = n" if "m \<in> {0x30..0x5A}" "n \<in> {0x30..0x5A}" for m n :: nat
    using that by (auto dest: arg_cong [of _ _ "of_char :: char \<Rightarrow> nat"] simp: of_char_of)
  have ne: "hexadecimal n \<noteq> []" for n by (subst hexadecimal.simps) simp
  show ?thesis
  proof (cases v rule: keyName_cases)
    case (named t)
    note ok = virtualKeyString_ok [OF named(1)]
    from ok(1) have "length t \<noteq> 1" by simp
    then have "getVirtualKeyString (uint w) = Some t"
      by (cases w rule: keyName_cases) (use eq named ok(2) in auto)
    from ok(5) [OF this] show ?thesis by (simp only: word_uint_eq_iff)
  next
    case plain
    have "keyName w = [char_of (unat v)]" using eq plain by simp
    then have "unat w \<in> {0x30..0x5A} \<and> char_of (unat w) = (char_of (unat v) :: char)"
      by (cases w rule: keyName_cases) (auto simp: ne dest: virtualKeyString_ok(1))
    then show ?thesis using char_inj plain(3) by (metis word_unat_eq_iff)
  next
    case number
    have "keyName w = CHR ''0'' # CHR ''x'' # hexadecimal (unat v)" using eq number by simp
    then have "hexadecimal (unat w) = hexadecimal (unat v)"
      by (cases w rule: keyName_cases) (auto simp: ne dest: virtualKeyString_ok(2))
    then show ?thesis using hexadecimal_inject by (metis word_unat_eq_iff)
  qed
qed

lemma charText_inject: "charText c = charText d \<Longrightarrow> c = d"
proof -
  assume eq: "charText c = charText d"
  have ne: "hexadecimal n \<noteq> []" for n by (subst hexadecimal.simps) simp
  have char_inj: "char_of (unat c) = (char_of (unat d) :: char) \<Longrightarrow> c = d" if "c \<le> 126" "d \<le> 126"
  proof -
    have "unat c < 256" "unat d < 256" using that by (simp_all add: word_le_nat_alt)
    then show "char_of (unat c) = (char_of (unat d) :: char) \<Longrightarrow> c = d"
      by (auto dest!: arg_cong [of _ _ "of_char :: char \<Rightarrow> nat"] simp: of_char_of word_unat_eq_iff)
  qed
  show ?thesis
    using eq char_inj by (auto simp: charText_def hexadecimal_unat split: if_splits)
qed

lemma tokens_split:
  assumes "\<forall>t \<in> set ts \<union> set us. CHR ''-'' \<notin> set t" "CHR ''-'' \<notin> set v" "CHR ''-'' \<notin> set w"
    and "concat (map (\<lambda>t. t @ ''-'') ts) @ v = concat (map (\<lambda>t. t @ ''-'') us) @ w"
  shows "ts = us \<and> v = w"
  using assms
proof (induction ts arbitrary: us)
  case Nil
  then show ?case by (cases us) auto
next
  case (Cons t ts)
  have tw: "takeWhile (\<lambda>c. c \<noteq> CHR ''-'') (x @ ''-'' @ y) = x" if "CHR ''-'' \<notin> set x" for x y
    using that by (auto simp: takeWhile_append)
  show ?case
  proof (cases us)
    case Nil
    then have "CHR ''-'' \<in> set w" using Cons.prems(4) by (auto dest: arg_cong [of _ _ set])
    then show ?thesis using Cons.prems(3) by blast
  next
    case (Cons u us')
    have "t = u"
      using Cons.prems(1,4) tw [of t "concat (map (\<lambda>t. t @ ''-'') ts) @ v"]
        tw [of u "concat (map (\<lambda>t. t @ ''-'') us') @ w"] by (simp add: Cons)
    moreover have "ts = us' \<and> v = w"
      using Cons.prems \<open>t = u\<close> by (intro Cons.IH) (auto simp: Cons)
    ultimately show ?thesis using Cons by simp
  qed
qed

lemma control_tokens_plain:
  assumes "t \<in> set (flagTokens bits ''keyState'' kControlKeyStates)"
  shows "CHR ''-'' \<notin> set t" "CHR '' '' \<notin> set t"
  using assms control_flag_texts(2) hexadecimal_plain
  by (auto simp: flagTokens_def setFlags_def split: if_splits)

text \<open>The text of a key identifies the key.\<close>

lemma keyToString_inject: "keyToString k = keyToString l \<longleftrightarrow> k = l"
proof
  assume eq: "keyToString k = keyToString l"
  let ?tokens = "\<lambda>k. flagTokens (ucast (keyState k)) ''keyState'' kControlKeyStates"
  let ?start = "\<lambda>k. concat (map (\<lambda>t. t @ ''-'') (?tokens k)) @ keyName (virtualKey k)"
  have no_space: "CHR '' '' \<notin> set (?start k)" for k
    using control_tokens_plain keyName_plain by auto
  have start: "takeWhile (\<lambda>c. c \<noteq> CHR '' '') (keyToString k) = ?start k"
    "dropWhile (\<lambda>c. c \<noteq> CHR '' '') (keyToString k) = '' ch='' @ charText (unicodeChar k)" for k
    using no_space [of k] unfolding keyToString_parts append_assoc [symmetric]
    by (subst takeWhile_append2 dropWhile_append2; auto)+
  have "?start k = ?start l" "charText (unicodeChar k) = charText (unicodeChar l)"
    using start [of k] start [of l] eq by simp_all
  then have "?tokens k = ?tokens l \<and> keyName (virtualKey k) = keyName (virtualKey l)"
    using control_tokens_plain keyName_plain by (intro tokens_split) auto
  then have "(ucast (keyState k) :: u32) = ucast (keyState l)" "virtualKey k = virtualKey l"
    using flagTokens_inject control_flag_texts keyName_inject by blast+
  moreover have "unicodeChar k = unicodeChar l"
    using \<open>charText (unicodeChar k) = _\<close> by (rule charText_inject)
  moreover have "(ucast (ucast x :: u32) :: u16) = x" for x :: u16
    by (rule bit_word_eqI) (simp add: bit_unsigned_iff)
  then have "keyState k = keyState l" using calculation(1) by metis
  ultimately show "k = l" by simp
qed simp

section \<open>The entries of a map\<close>

text \<open>\<open>addByte\<close> extends a dumped encoding by one byte; \<open>shownAs\<close> is the text of a whole encoding.\<close>

definition addByte :: "string \<Rightarrow> char \<Rightarrow> string" where
  "addByte encoding c = (if encoding \<noteq> [] then encoding @ '' '' else encoding) @
     (if decodeControlCharacter c \<noteq> CHR 0x00 then [CHR ''^'', decodeControlCharacter c]
      else if c = CHR '' '' then [CHR 0x27, CHR '' '', CHR 0x27] else [c])"

definition shownAs :: "string \<Rightarrow> string" where
  "shownAs s = foldl addByte [] s"

definition asciiBytes :: "string \<Rightarrow> bool" where
  "asciiBytes s \<longleftrightarrow> (\<forall>c \<in> set s. (of_char c :: nat) < 128)"

text \<open>The entries below a node, in the order of their encodings.\<close>

function listing :: "Node \<Rightarrow> (string \<times> Key) list" where
  "listing node = (if hasKey node then [([], key node)] else []) @
     concat (map (\<lambda>i. case getChild node (char_of i) of
         None \<Rightarrow> []
       | Some child \<Rightarrow> map (\<lambda>(s, k). (char_of i # s, k)) (listing child)) [0..<256])"
  by auto

termination
  by (relation childRel, rule wf_childRel) (auto simp: childRel_def)

declare listing.simps [simp del]

lemma byte_of_nat: "\<exists>i < 256. c = char_of (i :: nat)"
  by (rule exI [of _ "of_char c"]) simp

lemma listing_set: "(s, k) \<in> set (listing node) \<longleftrightarrow> keyAt node s = Some k"
proof (induction s arbitrary: node)
  case Nil
  show ?case by (subst listing.simps) (auto simp: keyAt_Nil split: option.splits)
next
  case (Cons c s)
  let ?part = "\<lambda>i. case getChild node (char_of i) of
      None \<Rightarrow> [] | Some child \<Rightarrow> map (\<lambda>(s, k). (char_of i # s, k)) (listing child)"
  have part: "(c # s, k) \<in> set (?part i) \<longleftrightarrow>
      char_of i = c \<and> (\<exists>child. getChild node c = Some child \<and> (s, k) \<in> set (listing child))" for i :: nat
    by (cases "getChild node (char_of i)") auto
  have "(c # s, k) \<in> set (listing node) \<longleftrightarrow> (\<exists>i < (256 :: nat). (c # s, k) \<in> set (?part i))"
    by (subst listing.simps) (simp add: Bex_def atLeast0LessThan)
  also have "\<dots> \<longleftrightarrow> (\<exists>child. getChild node c = Some child \<and> (s, k) \<in> set (listing child))"
    unfolding part using byte_of_nat [of c] by blast
  also have "\<dots> \<longleftrightarrow> keyAt node (c # s) = Some k"
    using Cons by (auto simp: keyAt_Cons split: option.splits)
  finally show ?case .
qed

lemma sorted_wrt_concat:
  "\<forall>xs \<in> set xss. sorted_wrt P xs \<Longrightarrow> sorted_wrt (\<lambda>xs ys. \<forall>x \<in> set xs. \<forall>y \<in> set ys. P x y) xss \<Longrightarrow>
   sorted_wrt P (concat xss)"
  by (induction xss) (auto simp: sorted_wrt_append)

lemma char_of_less: "i < j \<Longrightarrow> j < 256 \<Longrightarrow> (char_of i :: char) < char_of (j :: nat)"
  by (simp add: less_char_def)

lemma listing_sorted: "sorted_wrt ord_class.lexordp (map fst (listing node))"
proof (induction node rule: wf_induct_rule [OF wf_childRel])
  case (1 node)
  let ?part = "\<lambda>i. case getChild node (char_of i) of
      None \<Rightarrow> [] | Some child \<Rightarrow> map (\<lambda>(s, k). (char_of i # s, k)) (listing child)"
  have heads: "\<exists>t. s = char_of i # t" if "s \<in> set (map fst (?part i))" for s i
    using that by (auto split: option.splits)
  have "sorted_wrt ord_class.lexordp (map fst (?part i))" for i
  proof (cases "getChild node (char_of i)")
    case (Some child)
    then have "sorted_wrt ord_class.lexordp (map fst (listing child))"
      using 1 by (auto simp: childRel_def)
    then show ?thesis using Some by (simp add: sorted_wrt_map case_prod_beta)
  qed simp
  moreover have "sorted_wrt (\<lambda>xs ys. \<forall>x \<in> set xs. \<forall>y \<in> set ys. ord_class.lexordp x y)
      (map (\<lambda>i. map fst (?part i)) [0..<256])"
    unfolding sorted_wrt_map
    by (rule sorted_wrt_mono_rel [OF _ sorted_wrt_upt])
      (use heads char_of_less in \<open>fastforce\<close>)
  ultimately have "sorted_wrt ord_class.lexordp (concat (map (\<lambda>i. map fst (?part i)) [0..<256]))"
    by (intro sorted_wrt_concat) auto
  then show ?case
    by (subst listing.simps) (use heads in \<open>force simp: map_concat comp_def sorted_wrt_append\<close>)
qed

section \<open>The dump lists the entries\<close>

lemma shownAs_snoc: "shownAs (s @ [c]) = addByte (shownAs s) c"
  by (simp add: shownAs_def)

lemma childEncoding_addByte:
  "i < 256 \<Longrightarrow> childEncoding encoding i = (if i < 128 then Some (addByte encoding (char_of i)) else None)"
proof -
  assume i: "i < 256"
  moreover have "char_of (32 :: nat) = CHR '' ''" by code_simp
  ultimately have "char_of i = CHR '' '' \<longleftrightarrow> i = 32"
    by (auto dest: arg_cong [of _ _ "of_char :: char \<Rightarrow> nat"] simp: of_char_of)
  then show ?thesis by (auto simp: childEncoding_def addByte_def checkedNarrow_eq Let_def)
qed

lemma all_bytes: "(\<forall>i < 256. P i (char_of i)) \<longleftrightarrow> (\<forall>c. P (of_char c :: nat) c)"
proof
  assume P: "\<forall>i < 256. P i (char_of i)"
  show "\<forall>c. P (of_char c :: nat) c"
  proof
    fix c show "P (of_char c) c" using P [rule_format, of "of_char c"] by simp
  qed
next
  assume P: "\<forall>c. P (of_char c :: nat) c"
  show "\<forall>i < 256. P i (char_of i)"
  proof (intro allI impI)
    fix i :: nat assume "i < 256"
    then show "P i (char_of i)" using P [rule_format, of "char_of i"] by (simp add: of_char_of)
  qed
qed

lemma dumpLoop_end: "snd (dumpLoop ds) \<longleftrightarrow> list_all snd ds"
  by (induction ds) auto

lemma dumpLoop_all: "list_all snd ds \<Longrightarrow> fst (dumpLoop ds) = concat (map fst ds)"
  by (induction ds) auto

definition asciiBelow :: "Node \<Rightarrow> bool" where
  "asciiBelow node \<longleftrightarrow> (\<forall>p. walk node p \<noteq> None \<longrightarrow> asciiBytes p)"

lemma asciiBelow_children:
  "asciiBelow node \<longleftrightarrow>
    (\<forall>c child. getChild node c = Some child \<longrightarrow> (of_char c :: nat) < 128 \<and> asciiBelow child)"
proof
  assume a: "asciiBelow node"
  show "\<forall>c child. getChild node c = Some child \<longrightarrow> (of_char c :: nat) < 128 \<and> asciiBelow child"
  proof (intro allI impI)
    fix c child assume child: "getChild node c = Some child"
    have "asciiBytes (c # p)" if "walk child p \<noteq> None" for p
      using a child that unfolding asciiBelow_def by (metis option.simps(5) walk.simps(2))
    from this [of "[]"] this show "(of_char c :: nat) < 128 \<and> asciiBelow child"
      by (simp add: asciiBelow_def asciiBytes_def)
  qed
next
  assume c: "\<forall>c child. getChild node c = Some child \<longrightarrow> (of_char c :: nat) < 128 \<and> asciiBelow child"
  show "asciiBelow node"
    unfolding asciiBelow_def
  proof (intro allI impI)
    fix p assume "walk node p \<noteq> None"
    then show "asciiBytes p"
      using c by (cases p) (auto simp: asciiBelow_def asciiBytes_def split: option.splits)
  qed
qed

abbreviation dumpChild :: "Node \<Rightarrow> string \<Rightarrow> nat \<Rightarrow> Dump" where
  "dumpChild node encoding i \<equiv> (case getChild node (char_of i) of
      None \<Rightarrow> ([], True)
    | Some child \<Rightarrow> (case childEncoding encoding i of
        None \<Rightarrow> ([], False) | Some encoding1 \<Rightarrow> dumpInputMapHelper child encoding1))"

abbreviation dumpLines :: "string \<Rightarrow> (string \<times> Key) list \<Rightarrow> string list" where
  "dumpLines p es \<equiv> map (\<lambda>(s, k). dumpLine (shownAs (p @ s)) k) es"

lemma dump_child:
  assumes i: "i < 256"
    and IH: "\<And>child. getChild node (char_of i) = Some child \<Longrightarrow>
      snd (dumpInputMapHelper child (shownAs (p @ [char_of i]))) = asciiBelow child \<and>
      (asciiBelow child \<longrightarrow> fst (dumpInputMapHelper child (shownAs (p @ [char_of i]))) =
        dumpLines (p @ [char_of i]) (listing child))"
  shows "snd (dumpChild node (shownAs p) i) \<longleftrightarrow>
      (\<forall>child. getChild node (char_of i) = Some child \<longrightarrow> i < 128 \<and> asciiBelow child)"
    and "snd (dumpChild node (shownAs p) i) \<Longrightarrow> fst (dumpChild node (shownAs p) i) =
      dumpLines p (case getChild node (char_of i) of None \<Rightarrow> []
       | Some child \<Rightarrow> map (\<lambda>(s, k). (char_of i # s, k)) (listing child))"
  using IH i by (auto simp: childEncoding_addByte shownAs_snoc split: option.splits if_splits)

lemma dump_helper:
  "snd (dumpInputMapHelper node (shownAs p)) = asciiBelow node \<and>
   (asciiBelow node \<longrightarrow> fst (dumpInputMapHelper node (shownAs p)) = dumpLines p (listing node))"
proof (induction node arbitrary: p rule: wf_induct_rule [OF wf_childRel])
  case (1 node)
  let ?child = "dumpChild node (shownAs p)"
  let ?own = "if hasKey node then [dumpLine (shownAs p) (key node)] else []"
  let ?ds = "(?own, True) # map ?child [0..<256]"
  note child = dump_child [where node = node and p = p, OF _ 1 [unfolded childRel_def]]
  have below: "snd (?child i) \<longleftrightarrow>
      (\<forall>child. getChild node (char_of i) = Some child \<longrightarrow> i < 128 \<and> asciiBelow child)"
    and sent: "snd (?child i) \<Longrightarrow> fst (?child i) =
      dumpLines p (case getChild node (char_of i) of None \<Rightarrow> []
       | Some child \<Rightarrow> map (\<lambda>(s, k). (char_of i # s, k)) (listing child))"
    if "i < 256" for i
    using child(1) [OF that] child(2) [OF that] by auto
  have step: "dumpInputMapHelper node (shownAs p) = dumpLoop ?ds"
    by (rule dumpInputMapHelper.simps)
  have "list_all snd ?ds \<longleftrightarrow> (\<forall>i < 256. snd (?child i))"
    by (auto simp: list_all_iff)
  also have "\<dots> \<longleftrightarrow> (\<forall>i < (256 :: nat). \<forall>child. getChild node (char_of i) = Some child \<longrightarrow> i < 128 \<and> asciiBelow child)"
    using below by simp
  also have "\<dots> \<longleftrightarrow> asciiBelow node"
    unfolding asciiBelow_children [of node]
    by (rule all_bytes [of "\<lambda>i c. \<forall>child. getChild node c = Some child \<longrightarrow> i < 128 \<and> asciiBelow child"])
  finally have all: "list_all snd ?ds \<longleftrightarrow> asciiBelow node" .
  have "fst (dumpLoop ?ds) = dumpLines p (listing node)" if "asciiBelow node"
  proof -
    have ok: "snd (?child i)" if "i < 256" for i
      using all \<open>asciiBelow node\<close> that by (simp add: list_all_iff)
    let ?es = "\<lambda>i. case getChild node (char_of i) of
        None \<Rightarrow> [] | Some child \<Rightarrow> map (\<lambda>(s, k). (char_of i # s, k)) (listing child)"
    have parts: "map (fst \<circ> ?child) [0..<256] = map (\<lambda>i. dumpLines p (?es i)) [0..<256]"
      by (rule map_cong [OF refl]) (use sent ok in simp)
    have "fst (dumpLoop ?ds) = ?own @ concat (map (fst \<circ> ?child) [0..<256])"
      using all that by (subst dumpLoop_all) simp_all
    also have "\<dots> = dumpLines p (listing node)"
      unfolding parts by (subst listing.simps) (simp add: map_concat comp_def)
    finally show ?thesis .
  qed
  then show ?case unfolding step dumpLoop_end all by blast
qed

text \<open>
  Every node of a map lies on the way to an entry, so what a node has below it is decided by
  the entries.
\<close>

lemma asciiBelow_entries:
  assumes "live root"
  shows "asciiBelow root \<longleftrightarrow> (\<forall>s k. keyAt root s = Some k \<longrightarrow> asciiBytes s)"
proof
  assume "asciiBelow root"
  then show "\<forall>s k. keyAt root s = Some k \<longrightarrow> asciiBytes s"
    using keyAt_walk unfolding asciiBelow_def by blast
next
  assume e: "\<forall>s k. keyAt root s = Some k \<longrightarrow> asciiBytes s"
  show "asciiBelow root"
    unfolding asciiBelow_def
  proof (intro allI impI)
    fix p assume w: "walk root p \<noteq> None"
    show "asciiBytes p"
    proof (cases "p = []")
      case False
      then obtain t k where "keyAt root (p @ t) = Some k" using liveD [OF assms False w] by blast
      then show ?thesis using e by (fastforce simp: asciiBytes_def)
    qed (simp add: asciiBytes_def)
  qed
qed

lemma dump_listing:
  assumes "map_inv root"
  shows "snd (dumpInputMap root) \<longleftrightarrow> (\<forall>s k. keyAt root s = Some k \<longrightarrow> asciiBytes s)"
    and "snd (dumpInputMap root) \<Longrightarrow>
      fst (dumpInputMap root) = map (\<lambda>(s, k). dumpLine (shownAs s) k) (listing root)"
  using dump_helper [of root "[]"] asciiBelow_entries assms
  by (simp_all add: dumpInputMap_def map_inv_def shownAs_def)

section \<open>The default map\<close>

lemma default_ascii_parts:
  "\<forall>e \<in> set escapeLetterEncodings. (of_char (enc_id e) :: nat) < 128"
  "\<forall>x \<in> set simpleEncodings. asciiBytes (fst x)"
  by (simp_all add: escapeLetterEncodings_def mk_encoding_def simpleEncodings_def asciiBytes_def ESC_def)

lemma default_ascii: "(s, k) \<in> set default_entries \<Longrightarrow> asciiBytes s"
proof -
  assume e: "(s, k) \<in> set default_entries"
  have body: "body_char c \<Longrightarrow> (of_char c :: nat) < 128" for c
    by (auto simp: body_char_def is_digit_def less_eq_char_def)
  show ?thesis
  proof (cases "(s, k) \<in> set (map (\<lambda>(s, k). (s, enhance k)) simpleEncodings)")
    case True
    then show ?thesis using default_ascii_parts(2) by force
  next
    case False
    then have "(s, k) \<in> set (table_entries False escapeLetterEncodings @ table_entries True escapeNumericEncodings)"
      using e by (auto simp: default_entries_def)
    from default_table_entry [OF this] obtain n en alt D F where
      n: "(n, en) \<in> {False} \<times> set escapeLetterEncodings \<union> {True} \<times> set escapeNumericEncodings"
      "s = codeword alt (enc_prefix en) D F" "entry_of n en D F" "enc_prefix en \<in> {CHR ''['', CHR ''O''}"
      by blast
    have "(of_char F :: nat) < 128"
      using n(1,3) default_ascii_parts(1) by (auto simp: entry_of_def split: if_splits)
    then show ?thesis
      using n(2-4) body by (auto simp: asciiBytes_def codeword_def ESC_def entry_of_def)
  qed
qed

section \<open>Properties\<close>

text \<open>
  C40. The dump of an input map runs to its end exactly when every encoding of the map consists
  of bytes below 128 (a byte above fails the narrowing to \<open>char\<close> and ends the agent). Then its
  messages are the entries of the map, each once, in the order of their encodings, and
  different keys have different texts.
\<close>

theorem dump_lists_map:
  assumes "map_inv root"
  shows "snd (dumpInputMap root) = (\<forall>s k. keyAt root s = Some k \<longrightarrow> asciiBytes s) \<and>
    (\<exists>entries. set entries = {(s, k). keyAt root s = Some k} \<and>
       sorted_wrt ord_class.lexordp (map fst entries) \<and>
       (snd (dumpInputMap root) \<longrightarrow>
          fst (dumpInputMap root) = map (\<lambda>(s, k). dumpLine (shownAs s) k) entries)) \<and>
    (\<forall>k l. keyToString k = keyToString l \<longrightarrow> k = l)"
proof -
  have "set (listing root) = {(s, k). keyAt root s = Some k}" using listing_set by fast
  then show ?thesis using dump_listing [OF assms] listing_sorted [of root] keyToString_inject by blast
qed

theorem dump_lists_map_witness:
  "snd (dumpInputMap default_map) \<and>
   (\<exists>entries. set entries = set default_entries \<and> sorted_wrt ord_class.lexordp (map fst entries) \<and>
      fst (dumpInputMap default_map) = map (\<lambda>(s, k). dumpLine (shownAs s) k) entries)"
proof -
  have all: "snd (dumpInputMap default_map)"
    using dump_lists_map [OF default_map_correct(1)] default_ascii keyAt_default_iff by blast
  have "{(s, k). keyAt default_map s = Some k} = set default_entries" using keyAt_default_iff by auto
  then show ?thesis using dump_lists_map [OF default_map_correct(1)] all by auto
qed

text \<open>
  The loop of \<open>--show-input\<close> reads no record after the first control-D, and the console mode
  it restores at its end is the original one unless it had to choose the extended flags.
\<close>

lemma showInputLoop_stops:
  assumes "endsShowInput r" and "\<forall>x \<in> set before. \<not> endsShowInput x"
  shows "showInputLoop (Some (before @ r # later) # answers) =
    (concat (map debugRecordText (before @ [r])), True)"
proof -
  have "showRecords (before @ r # later) = (concat (map debugRecordText (before @ [r])), True)"
    using assms by (induction before) auto
  then show ?thesis by simp
qed

lemma modes_restored:
  assumes "debugShowInput enableMouse escapeInput (Some orig) True answers = Inr (modes, out, True)"
    and "\<not> enableMouse \<or> orig AND ENABLE_EXTENDED_FLAGS \<noteq> 0"
  shows "length modes = 2 \<and> last modes = orig"
  using assms by (auto simp: debugShowInput_def restoreMode_def Let_def split: prod.splits if_splits)

end
