(* ===== verification/VtScreen.thy ===== *)
theory VtScreen
  imports Terminal
begin

text \<open>
  The terminal that the tests of the repository compare the output of the agent with
  (tests/fidelity/VtState.h): a state machine over the bytes of the output, with the cells of a
  screen, the cursor and the pen. It is independent of the code that writes the
  output, so it serves here as the meaning of the output. An exception of the class is
  \<^term>\<open>None\<close>. The cells are one list, line by line.

  The lemmas: what a character, a line end and each control sequence do to the screen.
\<close>

section \<open>The code\<close>

record VtCell =
  vtText :: "u32 list"
  vtAttributes :: u16
  continuation :: bool

definition defaultCell :: VtCell where
  "defaultCell = \<lparr>vtText = [0x20], vtAttributes = 7, continuation = False\<rparr>"

datatype VtMode = StText | StEscape | StCsi | StOsc | StOscEscape

record VtState =
  vtState :: VtMode
  vtWidth :: int
  vtHeight :: int
  vtX :: int
  vtY :: int
  vtForeground :: int
  vtBackground :: int
  vtBold :: bool
  vtInverse :: bool
  vtUnderline :: bool
  vtConceal :: bool
  vtVisible :: bool
  vtWrap :: bool
  vtCells :: "VtCell list"
  vtReplies :: "string list"
  vtSequence :: string
  vtScalar :: u32
  vtMinimum :: u32
  vtRemaining :: int

definition clamp :: "int \<Rightarrow> int \<Rightarrow> int \<Rightarrow> int" where
  "clamp v lo hi = (if v < lo then lo else if hi < v then hi else v)"

definition cellAt :: "VtState \<Rightarrow> int \<Rightarrow> int \<Rightarrow> VtCell option" where
  "cellAt v x y =
     (if x < 0 \<or> x \<ge> vtWidth v \<or> y < 0 \<or> y \<ge> vtHeight v then None
      else if nat (y * vtWidth v + x) < length (vtCells v) then Some (vtCells v ! nat (y * vtWidth v + x))
      else None)"

text \<open>
  \<open>resize\<close> copies the cells that both sizes have. The arrays of the two loops are read in
  their order, so the new cells are a list by position.
\<close>

definition vtResize :: "int \<Rightarrow> int \<Rightarrow> VtState \<Rightarrow> VtState option" where
  "vtResize columns rows v =
     (if columns < 1 \<or> columns > 160 \<or> rows < 1 \<or> rows > 60 then None
      else do {
        let kept = (\<lambda>i. int i div columns < min rows (vtHeight v) \<and>
                        int i mod columns < min columns (vtWidth v));
        let place = (\<lambda>i. if kept i then cellAt v (int i mod columns) (int i div columns)
                         else Some defaultCell);
        if list_all (\<lambda>i. place i \<noteq> None) [0..<nat (columns * rows)] then
          Some (v\<lparr>vtWidth := columns, vtHeight := rows,
            vtCells := map (\<lambda>i. the (place i)) [0..<nat (columns * rows)],
            vtX := clamp (vtX v) 0 (columns - 1), vtY := clamp (vtY v) 0 (rows - 1), vtWrap := False\<rparr>)
        else None
      })"

definition newVtState :: "int \<Rightarrow> int \<Rightarrow> VtState option" where
  "newVtState columns rows = vtResize columns rows
     \<lparr>vtState = StText, vtWidth = 0, vtHeight = 0, vtX = 0, vtY = 0, vtForeground = 7, vtBackground = 0,
      vtBold = False, vtInverse = False, vtUnderline = False, vtConceal = False, vtVisible = True,
      vtWrap = False, vtCells = [], vtReplies = [], vtSequence = [], vtScalar = 0, vtMinimum = 0,
      vtRemaining = 0\<rparr>"

definition ansiToWindows :: "int \<Rightarrow> int" where
  "ansiToWindows value = push_bit 2 (value AND 1) OR (value AND 2) OR drop_bit 2 (value AND 4) OR (value AND 8)"

definition attributes :: "VtState \<Rightarrow> u16" where
  "attributes v =
     (let fore = vtForeground v OR (if vtBold v then 8 else 0);
          back = vtBackground v;
          (fore, back) = (if vtInverse v then (back, fore) else (fore, back));
          fore = (if vtConceal v then back else fore)
      in word_of_int (ansiToWindows fore OR push_bit 4 (ansiToWindows back) OR
           (if vtUnderline v then 0x8000 else 0)))"

definition blank :: "VtState \<Rightarrow> VtCell" where
  "blank v = \<lparr>vtText = [0x20], vtAttributes = attributes v, continuation = False\<rparr>"

definition eraseCells :: "nat \<Rightarrow> nat \<Rightarrow> VtState \<Rightarrow> VtState" where
  "eraseCells first beyond v =
     (let cs = vtCells v;
          cs = (if first > 0 \<and> first < length cs \<and> continuation (cs ! first)
                then cs[first - 1 := blank v] else cs);
          cs = (if beyond < length cs \<and> continuation (cs ! beyond) then cs[beyond := blank v] else cs)
      in v\<lparr>vtCells := take first cs @ replicate (beyond - first) (blank v) @ drop beyond cs\<rparr>)"

definition lineFeed :: "VtState \<Rightarrow> VtState" where
  "lineFeed v =
     (let v = v\<lparr>vtWrap := False\<rparr>
      in if vtY v + 1 < vtHeight v then v\<lparr>vtY := vtY v + 1\<rparr>
         else v\<lparr>vtCells := drop (nat (vtWidth v)) (vtCells v) @ replicate (nat (vtWidth v)) (blank v)\<rparr>)"

text \<open>The cell before position \<open>n\<close> that a combining mark is added to.\<close>

fun baseCell :: "VtCell list \<Rightarrow> nat \<Rightarrow> nat option" where
  "baseCell cs 0 = None"
| "baseCell cs (Suc i) = (if continuation (cs ! i) then baseCell cs i else Some i)"

definition combining :: "u32 \<Rightarrow> bool" where
  "combining value \<longleftrightarrow> value \<ge> 0x300 \<and> value \<le> 0x36f"

definition glyphWidth :: "u32 \<Rightarrow> int" where
  "glyphWidth value = (if (value \<ge> 0x4e00 \<and> value \<le> 0x9fff) \<or> value = 0x1f642 then 2 else 1)"

definition vtPut :: "u32 \<Rightarrow> VtState \<Rightarrow> VtState option" where
  "vtPut value v =
     (if combining value then
        (case baseCell (vtCells v) (nat (vtY v * vtWidth v + vtX v - (if vtWrap v then 0 else 1) + 1)) of
           None \<Rightarrow> None
         | Some i \<Rightarrow> Some (v\<lparr>vtCells := (vtCells v)[i := (vtCells v ! i)\<lparr>vtText := vtText (vtCells v ! i) @ [value]\<rparr>]\<rparr>))
      else
        (let w = glyphWidth value;
             v = (if vtWrap v \<or> vtX v + w > vtWidth v then lineFeed (v\<lparr>vtX := 0\<rparr>) else v)
         in if w > vtWidth v then None
            else
              (let index = nat (vtY v * vtWidth v + vtX v);
                   v = eraseCells index (index + nat w) v;
                   v = v\<lparr>vtCells := (vtCells v)[index :=
                          \<lparr>vtText = [value], vtAttributes = attributes v, continuation = False\<rparr>]\<rparr>;
                   v = (if w = 2 then v\<lparr>vtCells := (vtCells v)[index + 1 :=
                          \<lparr>vtText = [], vtAttributes = attributes v, continuation = True\<rparr>]\<rparr> else v);
                   v = v\<lparr>vtX := vtX v + w\<rparr>
               in Some (if vtX v = vtWidth v then v\<lparr>vtX := vtWidth v - 1, vtWrap := True\<rparr> else v))))"

text \<open>The loop of \<open>parameters\<close>: the rest of the sequence, the numbers so far and the one being read.\<close>

fun parameterLoop :: "string \<Rightarrow> int list \<Rightarrow> int \<Rightarrow> (int list \<times> int) option" where
  "parameterLoop [] result number = Some (result, number)"
| "parameterLoop (c # cs) result number = do {
     (result1, number1) \<leftarrow>
       (if c = CHR '';'' then Some (result @ [number], 0)
        else if is_digit c then
          (if number > 1000 then None else Some (result, number * 10 + int (digit_val c)))
        else None);
     if length result1 > 32 then None else parameterLoop cs result1 number1
   }"

definition parameters :: "VtState \<Rightarrow> (bool \<times> int list) option" where
  "parameters v =
     (let privateMode = (vtSequence v \<noteq> [] \<and> hd (vtSequence v) = CHR ''?'')
      in do {
        (result, number) \<leftarrow> parameterLoop (if privateMode then tl (vtSequence v) else vtSequence v) [] 0;
        Some (privateMode, result @ [number])
      })"

definition sgrValue :: "int \<Rightarrow> VtState \<Rightarrow> VtState option" where
  "sgrValue value v =
     (if value = 0 then Some (v\<lparr>vtForeground := 7, vtBackground := 0, vtBold := False, vtInverse := False,
        vtUnderline := False, vtConceal := False\<rparr>)
      else if value = 1 then Some (v\<lparr>vtBold := True\<rparr>)
      else if value = 22 then Some (v\<lparr>vtBold := False\<rparr>)
      else if value = 4 then Some (v\<lparr>vtUnderline := True\<rparr>)
      else if value = 24 then Some (v\<lparr>vtUnderline := False\<rparr>)
      else if value = 7 then Some (v\<lparr>vtInverse := True\<rparr>)
      else if value = 27 then Some (v\<lparr>vtInverse := False\<rparr>)
      else if value = 8 then Some (v\<lparr>vtConceal := True\<rparr>)
      else if value = 28 then Some (v\<lparr>vtConceal := False\<rparr>)
      else if value = 39 then Some (v\<lparr>vtForeground := 7\<rparr>)
      else if value = 49 then Some (v\<lparr>vtBackground := 0\<rparr>)
      else if 30 \<le> value \<and> value \<le> 37 then Some (v\<lparr>vtForeground := value - 30\<rparr>)
      else if 40 \<le> value \<and> value \<le> 47 then Some (v\<lparr>vtBackground := value - 40\<rparr>)
      else if 90 \<le> value \<and> value \<le> 97 then Some (v\<lparr>vtForeground := value - 90 + 8\<rparr>)
      else if 100 \<le> value \<and> value \<le> 107 then Some (v\<lparr>vtBackground := value - 100 + 8\<rparr>)
      else None)"

definition sgr :: "int list \<Rightarrow> VtState \<Rightarrow> VtState option" where
  "sgr p v = foreach sgrValue p v"

definition csiPrivate :: "char \<Rightarrow> int list \<Rightarrow> VtState \<Rightarrow> VtState option" where
  "csiPrivate final p v =
     (if (final \<noteq> CHR ''h'' \<and> final \<noteq> CHR ''l'') \<or> length p \<noteq> 1 then None
      else if p ! 0 = 25 then Some (v\<lparr>vtVisible := (final = CHR ''h'')\<rparr>)
      else if p ! 0 \<notin> {1000, 1002, 1003, 1005, 1006, 1015} then None
      else Some v)"

definition cursorReply :: "VtState \<Rightarrow> string" where
  "cursorReply v = CSI @ formatInt (vtY v + 1) @ '';'' @ formatInt (vtX v + 1) @ ''R''"

definition csi :: "char \<Rightarrow> VtState \<Rightarrow> VtState option" where
  "csi final v = do {
     (privateMode, p) \<leftarrow> parameters v;
     let n = max (p ! 0) 1;
     if privateMode then csiPrivate final p v
     else if final = CHR ''m'' then sgr p v
     else if final = CHR ''n'' \<and> length p = 1 \<and> p ! 0 = 6 then
       Some (v\<lparr>vtReplies := vtReplies v @ [cursorReply v]\<rparr>)
     else
       (let v = v\<lparr>vtWrap := False\<rparr>
        in if final = CHR ''H'' \<or> final = CHR ''f'' then
             (if length p > 2 then None
              else Some (v\<lparr>vtY := clamp (n - 1) 0 (vtHeight v - 1),
                vtX := clamp ((if length p > 1 then max (p ! 1) 1 else 1) - 1) 0 (vtWidth v - 1)\<rparr>))
           else if length p \<noteq> 1 then None
           else if final = CHR ''A'' then Some (v\<lparr>vtY := max 0 (vtY v - n)\<rparr>)
           else if final = CHR ''B'' then Some (v\<lparr>vtY := min (vtHeight v - 1) (vtY v + n)\<rparr>)
           else if final = CHR ''C'' then Some (v\<lparr>vtX := min (vtWidth v - 1) (vtX v + n)\<rparr>)
           else if final = CHR ''D'' then Some (v\<lparr>vtX := max 0 (vtX v - n)\<rparr>)
           else if final = CHR ''G'' then Some (v\<lparr>vtX := clamp (n - 1) 0 (vtWidth v - 1)\<rparr>)
           else if final = CHR ''d'' then Some (v\<lparr>vtY := clamp (n - 1) 0 (vtHeight v - 1)\<rparr>)
           else if final = CHR ''J'' \<and> 0 \<le> p ! 0 \<and> p ! 0 \<le> 2 then
             (let cursor = nat (vtY v * vtWidth v + vtX v)
              in Some (eraseCells (if p ! 0 = 0 then cursor else 0)
                   (if p ! 0 = 1 then cursor + 1 else length (vtCells v)) v))
           else if final = CHR ''K'' \<and> 0 \<le> p ! 0 \<and> p ! 0 \<le> 2 then
             (let start = (if p ! 0 = 0 then vtX v else 0);
                  stop = (if p ! 0 = 1 then vtX v + 1 else vtWidth v)
              in Some (eraseCells (nat (vtY v * vtWidth v + start)) (nat (vtY v * vtWidth v + stop)) v))
           else None)
   }"

definition finishOsc :: "VtState \<Rightarrow> VtState option" where
  "finishOsc v =
     (if take 2 (vtSequence v) \<noteq> ''0;'' \<and> take 2 (vtSequence v) \<noteq> ''2;'' then None
      else Some (v\<lparr>vtState := StText, vtSequence := []\<rparr>))"

definition consumeText :: "u8 \<Rightarrow> VtState \<Rightarrow> VtState option" where
  "consumeText byte v =
     (if vtRemaining v \<noteq> 0 then
        (if byte AND 0xC0 \<noteq> 0x80 then None
         else
           (let v = v\<lparr>vtScalar := push_bit 6 (vtScalar v) OR (ucast byte AND 0x3F),
                      vtRemaining := vtRemaining v - 1\<rparr>
            in if vtRemaining v = 0 then
                 (if vtScalar v < vtMinimum v \<or> vtScalar v > 0x10FFFF \<or>
                     (vtScalar v \<ge> 0xD800 \<and> vtScalar v \<le> 0xDFFF) then None
                  else vtPut (vtScalar v) v)
               else Some v))
      else if byte \<ge> 0x80 then
        (if byte \<ge> 0xC2 \<and> byte \<le> 0xDF then
           Some (v\<lparr>vtScalar := ucast byte AND 0x1F, vtRemaining := 1, vtMinimum := 0x80\<rparr>)
         else if byte \<ge> 0xE0 \<and> byte \<le> 0xEF then
           Some (v\<lparr>vtScalar := ucast byte AND 0x0F, vtRemaining := 2, vtMinimum := 0x800\<rparr>)
         else if byte \<ge> 0xF0 \<and> byte \<le> 0xF4 then
           Some (v\<lparr>vtScalar := ucast byte AND 7, vtRemaining := 3, vtMinimum := 0x10000\<rparr>)
         else None)
      else if byte = 0x1B then Some (v\<lparr>vtState := StEscape\<rparr>)
      else if byte = 0x0D then Some (v\<lparr>vtX := 0, vtWrap := False\<rparr>)
      else if byte = 0x0A then Some (lineFeed v)
      else if byte = 0x08 then Some (v\<lparr>vtX := max 0 (vtX v - 1), vtWrap := False\<rparr>)
      else if byte = 0x09 then Some (v\<lparr>vtX := min (vtWidth v - 1) ((vtX v div 8 + 1) * 8), vtWrap := False\<rparr>)
      else if byte \<ge> 0x20 \<and> byte \<noteq> 0x7F then vtPut (ucast byte) v
      else if byte \<noteq> 0 \<and> byte \<noteq> 7 \<and> byte \<noteq> 0x7F then None
      else Some v)"

definition vtConsume :: "char \<Rightarrow> VtState \<Rightarrow> VtState option" where
  "vtConsume ch v =
     (let byte = byte_of ch in
      case vtState v of
        StEscape \<Rightarrow>
          (let v = v\<lparr>vtSequence := []\<rparr>
           in if ch = CHR ''['' then Some (v\<lparr>vtState := StCsi\<rparr>)
              else if ch = CHR '']'' then Some (v\<lparr>vtState := StOsc\<rparr>)
              else None)
      | StCsi \<Rightarrow>
          (if byte \<ge> 0x40 \<and> byte \<le> 0x7E then do { v \<leftarrow> csi ch v; Some (v\<lparr>vtState := StText\<rparr>) }
           else if length (vtSequence v) \<ge> 128 then None
           else Some (v\<lparr>vtSequence := vtSequence v @ [ch]\<rparr>))
      | StOscEscape \<Rightarrow> (if byte \<noteq> 0x5C then None else finishOsc v)
      | StOsc \<Rightarrow>
          (if byte = 7 then finishOsc v
           else if byte = 0x1B then Some (v\<lparr>vtState := StOscEscape\<rparr>)
           else if length (vtSequence v) \<ge> 1024 then None
           else Some (v\<lparr>vtSequence := vtSequence v @ [ch]\<rparr>))
      | StText \<Rightarrow> consumeText byte v)"

definition vtFeed :: "string \<Rightarrow> VtState \<Rightarrow> VtState option" where
  "vtFeed bytes v = foreach vtConsume bytes v"

definition finished :: "VtState \<Rightarrow> bool" where
  "finished v \<longleftrightarrow> vtState v = StText \<and> vtRemaining v = 0"

definition takeReplies :: "VtState \<Rightarrow> string list \<times> VtState" where
  "takeReplies v = (vtReplies v, v\<lparr>vtReplies := []\<rparr>)"

section \<open>Screens\<close>

text \<open>
  What can be seen of the terminal between two sequences, and how a string of bytes changes it:
  \<open>draws W H s sc sc'\<close> says that a terminal of that size which shows \<open>sc\<close> accepts \<open>s\<close> and shows
  \<open>sc'\<close> afterwards.
\<close>

record Screen =
  scX :: int
  scY :: int
  scWrap :: bool
  scCells :: "VtCell list"
  scAttr :: u16
  scVisible :: bool

definition sees :: "int \<Rightarrow> int \<Rightarrow> VtState \<Rightarrow> Screen \<Rightarrow> bool" where
  "sees W H v sc \<longleftrightarrow> vtState v = StText \<and> vtRemaining v = 0 \<and> vtWidth v = W \<and> vtHeight v = H \<and>
     vtX v = scX sc \<and> vtY v = scY sc \<and> vtWrap v = scWrap sc \<and> vtCells v = scCells sc \<and>
     attributes v = scAttr sc \<and> vtVisible v = scVisible sc"

definition draws :: "int \<Rightarrow> int \<Rightarrow> string \<Rightarrow> Screen \<Rightarrow> Screen \<Rightarrow> bool" where
  "draws W H s sc sc' \<longleftrightarrow> (\<forall>v. sees W H v sc \<longrightarrow> (\<exists>v'. vtFeed s v = Some v' \<and> sees W H v' sc'))"

definition screenOk :: "int \<Rightarrow> int \<Rightarrow> Screen \<Rightarrow> bool" where
  "screenOk W H sc \<longleftrightarrow> length (scCells sc) = nat (W * H) \<and> 0 \<le> scX sc \<and> scX sc < W \<and>
     0 \<le> scY sc \<and> scY sc < H \<and> (\<forall>c \<in> set (scCells sc). \<not> continuation c)"

lemma drawsI:
  "(\<And>v. sees W H v sc \<Longrightarrow> \<exists>v'. vtFeed s v = Some v' \<and> sees W H v' sc') \<Longrightarrow> draws W H s sc sc'"
  by (simp add: draws_def)

lemma draws_Nil [simp]: "draws W H [] sc sc"
  by (auto simp: draws_def vtFeed_def)

lemma draws_append:
  "draws W H s sc sc1 \<Longrightarrow> draws W H t sc1 sc2 \<Longrightarrow> draws W H (s @ t) sc sc2"
  unfolding draws_def vtFeed_def foreach_append by (metis bind.bind_lunit)

lemma vtFeed_Cons: "vtFeed (c # s) v = do { v' \<leftarrow> vtConsume c v; vtFeed s v' }"
  by (simp add: vtFeed_def)

lemma attributes_pen:
  "vtForeground v = vtForeground w \<Longrightarrow> vtBackground v = vtBackground w \<Longrightarrow> vtBold v = vtBold w \<Longrightarrow>
   vtInverse v = vtInverse w \<Longrightarrow> vtUnderline v = vtUnderline w \<Longrightarrow> vtConceal v = vtConceal w \<Longrightarrow>
   attributes v = attributes w"
  by (simp add: attributes_def)

lemma attributes_simps [simp]:
  "attributes (v\<lparr>vtState := a\<rparr>) = attributes v" "attributes (v\<lparr>vtX := i\<rparr>) = attributes v"
  "attributes (v\<lparr>vtY := i\<rparr>) = attributes v" "attributes (v\<lparr>vtWrap := b\<rparr>) = attributes v"
  "attributes (v\<lparr>vtCells := cs\<rparr>) = attributes v" "attributes (v\<lparr>vtVisible := b\<rparr>) = attributes v"
  "attributes (v\<lparr>vtSequence := s\<rparr>) = attributes v" "attributes (v\<lparr>vtScalar := c\<rparr>) = attributes v"
  "attributes (v\<lparr>vtMinimum := c\<rparr>) = attributes v" "attributes (v\<lparr>vtRemaining := i\<rparr>) = attributes v"
  by (rule attributes_pen; simp)+

section \<open>Control sequences\<close>

text \<open>A control sequence is collected up to its final character and then performed.\<close>

definition parameterChar :: "char \<Rightarrow> bool" where
  "parameterChar c \<longleftrightarrow> is_digit c \<or> c = CHR '';'' \<or> c = CHR ''?''"

lemma is_digit_byte: "is_digit c \<Longrightarrow> byte_of c < 0x40"
  by (simp add: is_digit_def less_eq_char_def word_less_nat_alt unat_byte_of)

lemma parameterChar_byte: "parameterChar c \<Longrightarrow> byte_of c < 0x40"
  unfolding parameterChar_def by (elim disjE) (simp_all add: is_digit_byte)

lemma feed_parameters:
  "list_all parameterChar ps \<Longrightarrow> vtState v = StCsi \<Longrightarrow> length (vtSequence v) + length ps \<le> 128 \<Longrightarrow>
   vtFeed ps v = Some (v\<lparr>vtSequence := vtSequence v @ ps\<rparr>)"
proof (induction ps arbitrary: v)
  case (Cons c ps)
  then have "vtConsume c v = Some (v\<lparr>vtSequence := vtSequence v @ [c]\<rparr>)"
    using parameterChar_byte [of c] by (auto simp: vtConsume_def Let_def)
  then show ?case using Cons by (simp add: vtFeed_Cons)
qed (simp add: vtFeed_def)

definition finalChar :: "char \<Rightarrow> bool" where
  "finalChar f \<longleftrightarrow> 0x40 \<le> byte_of f \<and> byte_of f \<le> 0x7E"

lemma feed_csi:
  assumes "list_all parameterChar ps" and "length ps \<le> 128" and "finalChar f" and "vtState v = StText"
    and "vtRemaining v = 0"
  shows "vtFeed (CSI @ ps @ [f]) v = do {
    v' \<leftarrow> csi f (v\<lparr>vtSequence := ps, vtState := StCsi\<rparr>); Some (v'\<lparr>vtState := StText\<rparr>) }"
proof -
  let ?v = "v\<lparr>vtSequence := [], vtState := StCsi\<rparr>"
  have esc: "byte_of (CHR 0x1B) = 0x1B" by (simp add: of_char_def)
  have start: "vtFeed (CSI @ t) v = vtFeed t ?v" for t
    using assms(4, 5) by (simp add: CSI_def vtFeed_Cons vtConsume_def consumeText_def esc)
  have "vtFeed (ps @ [f]) ?v = do { w \<leftarrow> vtFeed ps ?v; vtFeed [f] w }"
    by (simp add: vtFeed_def foreach_append)
  also have "vtFeed ps ?v = Some (?v\<lparr>vtSequence := ps\<rparr>)"
    using assms(1, 2) by (subst feed_parameters) simp_all
  also have "?v\<lparr>vtSequence := ps\<rparr> = v\<lparr>vtSequence := ps, vtState := StCsi\<rparr>"
    by (cases v) simp
  finally show ?thesis
    using assms(3) unfolding start by (simp add: vtFeed_Cons [of f] vtFeed_def [of "[]"] vtConsume_def finalChar_def)
qed

text \<open>Numbers joined by semicolons are read back.\<close>

fun joinNumbers :: "nat list \<Rightarrow> string" where
  "joinNumbers [] = []"
| "joinNumbers [n] = decimal n"
| "joinNumbers (n # ns) = decimal n @ '';'' @ joinNumbers ns"

lemma semicolon_no_digit [simp]: "\<not> is_digit (CHR '';'')"
  by (simp add: is_digit_def less_eq_char_def)

lemma digit_char_not_semicolon [simp]: "d < 10 \<Longrightarrow> digit_char d \<noteq> CHR '';''"
  using is_digit_digit_char [of d] semicolon_no_digit by metis

lemma parameterLoop_decimal:
  "n \<le> 1015 \<Longrightarrow> length result \<le> 32 \<Longrightarrow>
   parameterLoop (decimal n @ rest) result 0 = parameterLoop rest result (int n)"
proof (induction n arbitrary: rest rule: decimal.induct)
  case (1 n)
  show ?case
  proof (cases "n < 10")
    case True
    then show ?thesis using 1(3) by (subst decimal.simps) simp
  next
    case False
    have "n div 10 \<le> 1000" using 1(2) by linarith
    then have "parameterLoop (decimal (n div 10) @ digit_char (n mod 10) # rest) result 0 =
        parameterLoop (digit_char (n mod 10) # rest) result (int (n div 10))"
      using 1(1) [OF False] 1(3) by simp
    also have "int (n div 10) * 10 + int (n mod 10) = int n" by presburger
    then have "parameterLoop (digit_char (n mod 10) # rest) result (int (n div 10)) =
        parameterLoop rest result (int n)"
      using \<open>n div 10 \<le> 1000\<close> 1(3) by simp
    finally show ?thesis using False by (subst decimal.simps) simp
  qed
qed

lemma parameterLoop_join:
  "\<forall>n \<in> set ns. n \<le> 1015 \<Longrightarrow> ns \<noteq> [] \<Longrightarrow> length result + length ns \<le> 32 \<Longrightarrow>
   parameterLoop (joinNumbers ns) result 0 = Some (result @ map int (butlast ns), int (last ns))"
proof (induction ns arbitrary: result rule: joinNumbers.induct)
  case (2 n)
  then show ?case using parameterLoop_decimal [of n result "[]"] by simp
next
  case (3 n m ns)
  have "parameterLoop (joinNumbers (n # m # ns)) result 0 =
      parameterLoop ('';'' @ joinNumbers (m # ns)) result (int n)"
    using 3(2, 4) parameterLoop_decimal [of n result] by simp
  then show ?case using 3(1) [of "result @ [int n]"] 3(2, 4) by simp
qed simp

lemma decimal_parameterChar: "list_all parameterChar (decimal n)"
  by (auto simp: list_all_iff parameterChar_def dest: decimal_digits)

lemma semicolon_parameterChar: "parameterChar (CHR '';'')"
  by (simp add: parameterChar_def)

lemma joinNumbers_chars:
  "list_all parameterChar (joinNumbers ns)"
  "ns \<noteq> [] \<Longrightarrow> joinNumbers ns \<noteq> [] \<and> hd (joinNumbers ns) \<noteq> CHR ''?''"
proof -
  have "is_digit (hd (decimal n))" for n using decimal_digits hd_in_set decimal_not_Nil by blast
  moreover have "\<not> is_digit (CHR ''?'')" by (simp add: is_digit_def less_eq_char_def)
  ultimately have "hd (decimal n) \<noteq> CHR ''?''" for n by metis
  then show "ns \<noteq> [] \<Longrightarrow> joinNumbers ns \<noteq> [] \<and> hd (joinNumbers ns) \<noteq> CHR ''?''"
    by (induction ns rule: joinNumbers.induct) auto
  show "list_all parameterChar (joinNumbers ns)"
    by (induction ns rule: joinNumbers.induct) (simp_all add: decimal_parameterChar semicolon_parameterChar)
qed

lemma parameters_join:
  assumes "\<forall>n \<in> set ns. n \<le> 1015" and "ns \<noteq> []" and "length ns \<le> 32"
  shows "parameters (v\<lparr>vtSequence := joinNumbers ns, vtState := m\<rparr>) = Some (False, map int ns)"
proof -
  have "map int (butlast ns) @ [int (last ns)] = map int ns"
    using assms(2) by (metis append_butlast_last_id list.simps(8) list.simps(9) map_append)
  then show ?thesis
    using parameterLoop_join [OF assms(1, 2), of "[]"] joinNumbers_chars(2) [OF assms(2)] assms(3)
    by (simp add: parameters_def)
qed

lemma parameters_private:
  assumes "n \<le> 1015"
  shows "parameters (v\<lparr>vtSequence := CHR ''?'' # decimal n, vtState := m\<rparr>) = Some (True, [int n])"
  using parameterLoop_decimal [OF assms, of "[]" "[]"] by (simp add: parameters_def)

text \<open>What a sequence with numbers does, given what it does to the state.\<close>

lemma draws_csi:
  assumes "\<forall>n \<in> set ns. n \<le> 1015" and "ns \<noteq> []" and "length ns \<le> 32" and "length (joinNumbers ns) \<le> 128"
    and "finalChar f"
    and "\<And>v. vtWidth v = W \<Longrightarrow> vtHeight v = H \<Longrightarrow> parameters v = Some (False, map int ns) \<Longrightarrow>
      \<exists>v'. csi f v = Some v' \<and> vtRemaining v' = vtRemaining v \<and> vtWidth v' = W \<and> vtHeight v' = H \<and>
        (sees W H (v\<lparr>vtState := StText\<rparr>) sc \<longrightarrow> sees W H (v'\<lparr>vtState := StText\<rparr>) sc')"
  shows "draws W H (CSI @ joinNumbers ns @ [f]) sc sc'"
proof (rule drawsI)
  fix v assume v: "sees W H v sc"
  let ?v = "v\<lparr>vtSequence := joinNumbers ns, vtState := StCsi\<rparr>"
  obtain v' where v': "csi f ?v = Some v'"
      "sees W H (?v\<lparr>vtState := StText\<rparr>) sc \<longrightarrow> sees W H (v'\<lparr>vtState := StText\<rparr>) sc'"
    using assms(6) [of ?v] parameters_join [OF assms(1-3)] v by (auto simp: sees_def)
  have "sees W H (?v\<lparr>vtState := StText\<rparr>) sc" using v by (simp add: sees_def)
  then show "\<exists>v'. vtFeed (CSI @ joinNumbers ns @ [f]) v = Some v' \<and> sees W H v' sc'"
    using v' feed_csi [OF joinNumbers_chars(1) assms(4, 5), of v] v by (simp add: sees_def)
qed

section \<open>Colours\<close>

definition colourNumbers :: "bool \<Rightarrow> nat \<Rightarrow> nat list" where
  "colourNumbers isFore c = (let base = (if isFore then 30 else 40 :: nat)
     in if 8 \<le> c then [base + (c - 8), base + 60 + (c - 8)] else [base + c])"

definition penNumbers :: "nat \<Rightarrow> nat \<Rightarrow> bool \<Rightarrow> nat list" where
  "penNumbers fore back ul = [0] @
     (if back = 0 then
        (if fore = 7 then [] else if fore = 15 then [1] else if fore = 8 then [37, 90]
         else colourNumbers True fore)
      else if back = 15 then
        [7] @ (if fore = 7 \<or> fore = 0 then [] else colourNumbers False fore)
      else colourNumbers True fore @ colourNumbers False back) @
     (if fore = back then [8] else []) @ (if ul then [4] else [])"

lemma sgr_simps [simp]:
  "sgr [] v = Some v"
  "sgr (n # ns) v = do { v' \<leftarrow> sgrValue n v; sgr ns v' }"
  by (simp_all add: sgr_def)

lemma sgr_append: "sgr (ns @ ms) v = do { v' \<leftarrow> sgr ns v; sgr ms v' }"
  by (simp add: sgr_def foreach_append)

lemma sgr_colour:
  assumes "c < 16"
  shows "sgr (map int (colourNumbers isFore c)) v =
    Some (if isFore then v\<lparr>vtForeground := int c\<rparr> else v\<lparr>vtBackground := int c\<rparr>)"
proof (cases "8 \<le> c")
  case True
  then obtain d where "c = 8 + d" "d < 8" using assms le_Suc_ex [of 8 c] by auto
  then show ?thesis by (simp add: colourNumbers_def sgrValue_def)
next
  case False
  then show ?thesis by (simp add: colourNumbers_def sgrValue_def)
qed

text \<open>The pen that a colour leaves: reading every sequence of \<open>penNumbers\<close>.\<close>

definition penAttributes :: "nat \<Rightarrow> nat \<Rightarrow> bool \<Rightarrow> u16" where
  "penAttributes fore back ul =
     (let (fr, bk) = (if back = 15 then (if fore = 7 \<or> fore = 0 then 0 else fore, 7) else (fore, back));
          fr = (if fore = back then bk else fr)
      in word_of_int (ansiToWindows (int fr) OR push_bit 4 (ansiToWindows (int bk)) OR
           (if ul then 0x8000 else 0)))"

lemma sgr_tail:
  "sgr (map int ((if hide then [8] else []) @ (if ul then [4] else []))) w =
    Some (w\<lparr>vtConceal := vtConceal w \<or> hide, vtUnderline := vtUnderline w \<or> ul\<rparr>)"
  by (cases w) (simp add: sgrValue_def)

definition penOf :: "int \<Rightarrow> int \<Rightarrow> bool \<Rightarrow> bool \<Rightarrow> bool \<Rightarrow> bool \<Rightarrow> VtState \<Rightarrow> VtState" where
  "penOf f b bo i u c v = v\<lparr>vtForeground := f, vtBackground := b, vtBold := bo, vtInverse := i,
     vtUnderline := u, vtConceal := c\<rparr>"

lemma penOf_simps [simp]:
  "vtRemaining (penOf f b bo i u c v) = vtRemaining v" "vtWidth (penOf f b bo i u c v) = vtWidth v"
  "vtHeight (penOf f b bo i u c v) = vtHeight v" "vtX (penOf f b bo i u c v) = vtX v"
  "vtY (penOf f b bo i u c v) = vtY v" "vtWrap (penOf f b bo i u c v) = vtWrap v"
  "vtCells (penOf f b bo i u c v) = vtCells v" "vtVisible (penOf f b bo i u c v) = vtVisible v"
  "vtState (penOf f b bo i u c v) = vtState v"
  by (simp_all add: penOf_def)

lemma sgr_middle:
  assumes "fore < 16" and "back < 16"
  shows "\<exists>f b bo i. sgr (map int
      (if back = 0 then
        (if fore = 7 then [] else if fore = 15 then [1] else if fore = 8 then [37, 90]
         else colourNumbers True fore)
      else if back = 15 then
        [7] @ (if fore = 7 \<or> fore = 0 then [] else colourNumbers False fore)
      else colourNumbers True fore @ colourNumbers False back)) (penOf 7 0 False False False False v) =
      Some (penOf f b bo i False False v) \<and>
    (\<forall>ul. attributes (penOf f b bo i ul (fore = back) v) = penAttributes fore back ul)"
proof -
  consider "back = 0" "fore = 7" | "back = 0" "fore = 15" | "back = 0" "fore = 8"
    | "back = 0" "fore \<noteq> 7" "fore \<noteq> 15" "fore \<noteq> 8" | "back = 15" "fore = 7 \<or> fore = 0"
    | "back = 15" "fore \<noteq> 7" "fore \<noteq> 0" | "back \<noteq> 0" "back \<noteq> 15" by blast
  then show ?thesis
  proof cases
    case 1
    then show ?thesis
      by (intro exI [of _ "7"] exI [of _ "0"] exI [of _ False])
        (simp add: attributes_def penOf_def penAttributes_def)
  next
    case 2
    then show ?thesis
      by (intro exI [of _ "7"] exI [of _ "0"] exI [of _ True] exI [of _ False])
        (simp add: attributes_def penOf_def penAttributes_def sgrValue_def)
  next
    case 3
    then show ?thesis
      by (intro exI [of _ "8"] exI [of _ "0"] exI [of _ False])
        (simp add: attributes_def penOf_def penAttributes_def sgrValue_def)
  next
    case 4
    then show ?thesis using assms
      by (intro exI [of _ "int fore"] exI [of _ "0"] exI [of _ False])
        (simp add: attributes_def penOf_def penAttributes_def sgr_colour)
  next
    case 5
    let ?v = "penOf 7 0 False True"
    have "sgr (map int [7]) (penOf 7 0 False False False False v) = Some (?v False False v)"
      by (simp add: sgrValue_def penOf_def)
    moreover have "attributes (?v ul (fore = back) v) = penAttributes fore back ul" for ul
      by (cases "fore = 7") (use 5 in \<open>simp_all add: attributes_def penOf_def penAttributes_def\<close>)
    ultimately show ?thesis using 5 by auto
  next
    case 6
    let ?v = "penOf 7 (int fore) False True"
    have "sgr (map int ([7] @ colourNumbers False fore)) (penOf 7 0 False False False False v) =
        Some (?v False False v)"
      using sgr_colour [OF assms(1), of False] by (simp add: sgrValue_def penOf_def)
    moreover have "attributes (?v ul (fore = back) v) = penAttributes fore back ul" for ul
      by (cases "fore = 15") (use 6 in \<open>simp_all add: attributes_def penOf_def penAttributes_def\<close>)
    ultimately show ?thesis using 6 by auto
  next
    case 7
    let ?v = "penOf (int fore) (int back) False False"
    have "sgr (map int (colourNumbers True fore @ colourNumbers False back)) (penOf 7 0 False False False False v) =
        Some (?v False False v)"
      unfolding map_append sgr_append sgr_colour [OF assms(1)]
      using sgr_colour [OF assms(2), of False] by (cases v) (simp add: penOf_def)
    moreover have "attributes (?v ul (fore = back) v) = penAttributes fore back ul" for ul
      using 7 by (cases "fore = back") (simp_all add: attributes_def penOf_def penAttributes_def Let_def)
    ultimately show ?thesis using 7 by auto
  qed
qed

lemma sgr_pen:
  assumes "fore < 16" and "back < 16"
  shows "\<exists>f b bo i u c. sgr (map int (penNumbers fore back ul)) v = Some (penOf f b bo i u c v) \<and>
    attributes (penOf f b bo i u c v) = penAttributes fore back ul"
proof -
  have start: "sgr (map int ([0] @ ns)) v = sgr (map int ns) (penOf 7 0 False False False False v)" for ns
    by (simp add: sgrValue_def penOf_def)
  obtain f b bo i where m: "sgr (map int
      (if back = 0 then
        (if fore = 7 then [] else if fore = 15 then [1] else if fore = 8 then [37, 90]
         else colourNumbers True fore)
      else if back = 15 then
        [7] @ (if fore = 7 \<or> fore = 0 then [] else colourNumbers False fore)
      else colourNumbers True fore @ colourNumbers False back)) (penOf 7 0 False False False False v) =
      Some (penOf f b bo i False False v)"
    and a: "\<forall>ul. attributes (penOf f b bo i ul (fore = back) v) = penAttributes fore back ul"
    using sgr_middle [OF assms, of v] by blast
  have "sgr (map int (penNumbers fore back ul)) v =
      sgr (map int ((if fore = back then [8] else []) @ (if ul then [4] else []))) (penOf f b bo i False False v)"
    unfolding penNumbers_def append_assoc start map_append [of int "if back = 0 then _ else _"] sgr_append m by simp
  also have "\<dots> = Some (penOf f b bo i ul (fore = back) v)"
    unfolding sgr_tail by (simp add: penOf_def)
  finally show ?thesis using a by blast
qed

text \<open>\<open>outputSetColor\<close> writes the sequence with these numbers.\<close>

lemma flagIf_cases:
  "foreBack color = (fore, back) \<Longrightarrow> fore < 16 \<and> back < 16"
  by (auto simp: foreBack_def flagIf_def colour_defs Let_def split: if_splits)

lemma small_colour:
  assumes "c < 16"
  shows "\<exists>n. n < 16 \<and> (c :: u16) = of_nat n"
  by (rule exI [of _ "unat c"]) (use assms in \<open>simp add: word_less_nat_alt\<close>)

lemma colour_words:
  "list_all (\<lambda>n. (of_nat n AND FLAG_BRIGHT \<noteq> 0) = (8 \<le> n) \<and> unat (of_nat n :: u16) = n \<and>
     unat (of_nat n AND NOT FLAG_BRIGHT) = (if 8 \<le> n then n - 8 else n) \<and>
     (of_nat n = BLACK) = (n = 0) \<and> (of_nat n = LTGRAY) = (n = 7) \<and> (of_nat n = WHITE) = (n = 15) \<and>
     (of_nat n = DKGRAY) = (n = 8)) [0..<16]"
  by code_simp

lemma colour_word:
  assumes "n < 16"
  shows "(of_nat n AND FLAG_BRIGHT \<noteq> 0) = (8 \<le> n)" "unat (of_nat n :: u16) = n"
    "8 \<le> n \<Longrightarrow> unat (of_nat n AND NOT FLAG_BRIGHT) = n - 8"
    "(of_nat n = BLACK) = (n = 0)" "(of_nat n = LTGRAY) = (n = 7)" "(of_nat n = WHITE) = (n = 15)"
    "(of_nat n = DKGRAY) = (n = 8)"
  using colour_words assms unfolding list_all_iff by force+

lemma sgrParams_numbers:
  assumes "n < 16"
  shows "outputSetColorSgrParams out isFore (of_nat n) = out @ '';'' @ joinNumbers (colourNumbers isFore n)"
  using colour_word [OF assms]
  by (auto simp: outputSetColorSgrParams_def outUInt_def colourNumbers_def Let_def SGR_FORE_def
      SGR_FORE_HI_def SGR_BACK_def)

lemma joinNumbers_append:
  "ns \<noteq> [] \<Longrightarrow> ms \<noteq> [] \<Longrightarrow> joinNumbers (ns @ ms) = joinNumbers ns @ '';'' @ joinNumbers ms"
proof (induction ns rule: joinNumbers.induct)
  case (2 n)
  then show ?case by (cases ms) simp_all
qed simp_all

definition semi :: "nat list \<Rightarrow> string" where
  "semi ns = (if ns = [] then [] else '';'' @ joinNumbers ns)"

lemma semi_append: "semi (ns @ ms) = semi ns @ semi ms"
  by (simp add: semi_def joinNumbers_append)

lemma decimals:
  "decimal 0 = ''0''" "decimal 1 = ''1''" "decimal 2 = ''2''" "decimal 4 = ''4''" "decimal 7 = ''7''" "decimal 8 = ''8''"
  "decimal 37 = ''37''" "decimal 90 = ''90''" "decimal 25 = ''25''" "decimal 1000 = ''1000''"
  "decimal 1002 = ''1002''" "decimal 1003 = ''1003''" "decimal 1005 = ''1005''" "decimal 1006 = ''1006''"
  "decimal 1015 = ''1015''"
  by code_simp+

lemma joinNumbers_0: "joinNumbers ([0] @ ms) = ''0'' @ semi ms"
  by (cases ms) (simp_all add: semi_def decimals)

lemma semi_single:
  "semi [] = []" "semi [1] = '';1''" "semi [7] = '';7''" "semi [8] = '';8''" "semi [4] = '';4''" "semi [37, 90] = '';37;90''"
  by (simp_all add: semi_def decimals del: One_nat_def)

lemma semi_7: "semi (7 # ns) = '';7'' @ semi ns"
  using semi_append [of "[7]" ns] by (simp add: semi_single)

lemma outputSetColor_numbers:
  assumes "foreBack color = (fore, back)"
  shows "outputSetColor out color = out @ CSI @
    joinNumbers (penNumbers (unat fore) (unat back) (color AND COMMON_LVB_UNDERSCORE \<noteq> 0)) @ ''m''"
proof -
  obtain n m where n: "n < 16" "fore = of_nat n" and m: "m < 16" "back = of_nat m"
    using flagIf_cases [OF assms] small_colour by blast
  note fw = colour_word [OF n(1)] and bw = colour_word [OF m(1)]
  have params: "outputSetColorSgrParams out isFore (of_nat k) = out @ semi (colourNumbers isFore k)"
    if "k < 16" for out isFore k
    using sgrParams_numbers [OF that] by (simp add: semi_def colourNumbers_def Let_def)
  have eq: "fore = back \<longleftrightarrow> n = m" using fw(2) bw(2) n(2) m(2) by metis
  have u: "unat fore = n" "unat back = m" using fw(2) bw(2) n(2) m(2) by simp_all
  let ?mid = "if m = 0 then
        (if n = 7 then [] else if n = 15 then [1] else if n = 8 then [37, 90] else colourNumbers True n)
      else if m = 15 then [7] @ (if n = 7 \<or> n = 0 then [] else colourNumbers False n)
      else colourNumbers True n @ colourNumbers False m"
  let ?under = "color AND COMMON_LVB_UNDERSCORE \<noteq> 0"
  have "outputSetColor out color = out @ CSI @ ''0'' @ semi ?mid @
      semi (if n = m then [8] else []) @ semi (if ?under then [4] else []) @ ''m''"
    unfolding outputSetColor_def assms case_prod_conv Let_def n(2) m(2) fw bw eq [unfolded n(2) m(2)]
      params [OF n(1)] params [OF m(1)]
    by (simp add: semi_single semi_append semi_7 del: One_nat_def)
  also have "\<dots> = out @ CSI @ joinNumbers (penNumbers n m ?under) @ ''m''"
    unfolding penNumbers_def append_assoc joinNumbers_0 semi_append by simp
  finally show ?thesis unfolding u .
qed

text \<open>A colour is drawn as the pen of its two halves.\<close>

definition shownColour :: "u16 \<Rightarrow> u16" where
  "shownColour color = (case foreBack color of (fore, back) \<Rightarrow>
     penAttributes (unat fore) (unat back) (color AND COMMON_LVB_UNDERSCORE \<noteq> 0))"

lemma penNumbers_bounds:
  assumes "fore < 16" and "back < 16"
  shows "\<forall>n \<in> set (penNumbers fore back ul). n \<le> 107" "length (penNumbers fore back ul) \<le> 7"
  using assms by (auto simp: penNumbers_def colourNumbers_def Let_def)

lemma joinNumbers_length: "\<forall>n \<in> set ns. n < 1000 \<Longrightarrow> length (joinNumbers ns) \<le> 4 * length ns"
proof (induction ns rule: joinNumbers.induct)
  case (2 n)
  then show ?case using length_decimal_le3 [of n] by simp
next
  case (3 n m ns)
  then show ?case using length_decimal_le3 [of n] by simp
qed simp

lemma draws_sgr:
  assumes "fore < 16" and "back < 16"
  shows "draws W H (CSI @ joinNumbers (penNumbers fore back ul) @ ''m'') sc (sc\<lparr>scAttr := penAttributes fore back ul\<rparr>)"
proof (rule draws_csi)
  let ?ns = "penNumbers fore back ul"
  have b: "\<forall>n \<in> set ?ns. n \<le> 107" "length ?ns \<le> 7" by (rule penNumbers_bounds [OF assms])+
  show "\<forall>n \<in> set ?ns. n \<le> 1015" using b(1) by auto
  show "?ns \<noteq> []" by (simp add: penNumbers_def)
  show "length ?ns \<le> 32" using b(2) by simp
  have "length (joinNumbers ?ns) \<le> 4 * length ?ns" by (rule joinNumbers_length) (use b(1) in auto)
  then show "length (joinNumbers ?ns) \<le> 128" using b(2) by simp
  show "finalChar (CHR ''m'')" by (simp add: finalChar_def of_char_def)
  fix v assume dims: "vtWidth v = W" "vtHeight v = H" and p: "parameters v = Some (False, map int ?ns)"
  obtain f bk bo i u c where "sgr (map int ?ns) v = Some (penOf f bk bo i u c v)"
      "attributes (penOf f bk bo i u c v) = penAttributes fore back ul"
    using sgr_pen [OF assms] by blast
  then show "\<exists>v'. csi (CHR ''m'') v = Some v' \<and> vtRemaining v' = vtRemaining v \<and> vtWidth v' = W \<and>
      vtHeight v' = H \<and> (sees W H (v\<lparr>vtState := StText\<rparr>) sc \<longrightarrow>
        sees W H (v'\<lparr>vtState := StText\<rparr>) (sc\<lparr>scAttr := penAttributes fore back ul\<rparr>))"
    using dims by (simp add: csi_def p sees_def)
qed

lemma draws_colour:
  "draws W H (outputSetColor [] color) sc (sc\<lparr>scAttr := shownColour color\<rparr>)"
proof -
  obtain fr bk where fb: "foreBack color = (fr, bk)" by fastforce
  have "unat fr < 16" "unat bk < 16" using flagIf_cases [OF fb] by (simp_all add: word_less_nat_alt)
  then show ?thesis
    using draws_sgr outputSetColor_numbers [OF fb, of "[]"] fb by (simp add: shownColour_def)
qed

lemma outputSetColor_append: "outputSetColor out color = out @ outputSetColor [] color"
proof -
  obtain fr bk where fb: "foreBack color = (fr, bk)" by fastforce
  show ?thesis using outputSetColor_numbers [OF fb, of out] outputSetColor_numbers [OF fb, of "[]"] by simp
qed

section \<open>Cursor movements and erasing\<close>

text \<open>A private mode: \<open>?25\<close> shows and hides the cursor, the mouse modes change nothing to be seen.\<close>

definition privateMode :: "nat \<Rightarrow> bool \<Rightarrow> Screen \<Rightarrow> Screen" where
  "privateMode n on sc = (if n = 25 then sc\<lparr>scVisible := on\<rparr> else sc)"

lemma draws_private:
  assumes "n \<in> {25, 1000, 1002, 1003, 1005, 1006, 1015}"
  shows "draws W H (CSI @ (CHR ''?'' # decimal n) @ [if on then CHR ''h'' else CHR ''l'']) sc
    (privateMode n on sc)"
proof (rule drawsI)
  fix v assume v: "sees W H v sc"
  let ?f = "if on then CHR ''h'' else CHR ''l''"
  let ?v = "v\<lparr>vtSequence := CHR ''?'' # decimal n, vtState := StCsi\<rparr>"
  have "parameters ?v = Some (True, [int n])" by (rule parameters_private) (use assms in auto)
  then have "csi ?f ?v = Some (if n = 25 then ?v\<lparr>vtVisible := on\<rparr> else ?v)"
    using assms by (auto simp: csi_def csiPrivate_def)
  moreover have "list_all parameterChar (CHR ''?'' # decimal n)"
    by (simp add: decimal_parameterChar) (simp add: parameterChar_def)
  moreover have "length (CHR ''?'' # decimal n) \<le> 128"
    using assms by (auto simp: decimals)
  moreover have "finalChar ?f" by (simp add: finalChar_def of_char_def)
  ultimately show "\<exists>v'. vtFeed (CSI @ (CHR ''?'' # decimal n) @ [?f]) v = Some v' \<and>
      sees W H v' (privateMode n on sc)"
    using v feed_csi [of "CHR ''?'' # decimal n" ?f v]
    by (auto simp: sees_def privateMode_def)
qed

lemma draws_return: "draws W H CR sc (sc\<lparr>scX := 0, scWrap := False\<rparr>)"
  by (rule drawsI) (simp add: sees_def CR_def vtFeed_def vtConsume_def consumeText_def of_char_def)

definition lineFeedScreen :: "int \<Rightarrow> int \<Rightarrow> Screen \<Rightarrow> Screen" where
  "lineFeedScreen W H sc =
     (if scY sc + 1 < H then sc\<lparr>scWrap := False, scY := scY sc + 1\<rparr>
      else sc\<lparr>scWrap := False, scCells := drop (nat W) (scCells sc) @
        replicate (nat W) \<lparr>vtText = [0x20], vtAttributes = scAttr sc, continuation = False\<rparr>\<rparr>)"

lemma draws_newline: "draws W H CRLF sc (lineFeedScreen W H (sc\<lparr>scX := 0\<rparr>))"
proof -
  have "draws W H [CHR 0x0A] sc (lineFeedScreen W H sc)" for sc
    by (rule drawsI)
      (auto simp: sees_def vtFeed_def vtConsume_def consumeText_def of_char_def lineFeed_def
        lineFeedScreen_def blank_def Let_def)
  from draws_append [OF draws_return this [of "sc\<lparr>scX := 0, scWrap := False\<rparr>"]]
  have "draws W H CRLF sc (lineFeedScreen W H (sc\<lparr>scX := 0, scWrap := False\<rparr>))"
    by (simp add: CR_def CRLF_def)
  moreover have "lineFeedScreen W H (sc\<lparr>scX := 0, scWrap := False\<rparr>) = lineFeedScreen W H (sc\<lparr>scX := 0\<rparr>)"
    by (simp add: lineFeedScreen_def)
  ultimately show ?thesis by simp
qed

lemma draws_number:
  assumes "1 \<le> n" and "n < 1000" and "finalChar f"
    and "\<And>v. vtWidth v = W \<Longrightarrow> vtHeight v = H \<Longrightarrow> parameters v = Some (False, [int n]) \<Longrightarrow>
      \<exists>v'. csi f v = Some v' \<and> vtRemaining v' = vtRemaining v \<and> vtWidth v' = W \<and> vtHeight v' = H \<and>
        (sees W H (v\<lparr>vtState := StText\<rparr>) sc \<longrightarrow> sees W H (v'\<lparr>vtState := StText\<rparr>) sc')"
  shows "draws W H (CSI @ decimal n @ [f]) sc sc'"
  using draws_csi [of "[n]" f W H sc sc'] assms length_decimal_le3 [of n] by simp

lemma draws_up:
  assumes "1 \<le> n" and "n < 1000"
  shows "draws W H (CSI @ decimal n @ ''A'') sc (sc\<lparr>scY := max 0 (scY sc - int n), scWrap := False\<rparr>)"
  by (rule draws_number [OF assms]) (use assms in \<open>simp_all add: finalChar_def of_char_def csi_def sees_def\<close>)

lemma draws_column:
  assumes "1 \<le> n" and "n < 1000" and "int n \<le> W"
  shows "draws W H (CSI @ decimal n @ ''G'') sc (sc\<lparr>scX := int n - 1, scWrap := False\<rparr>)"
  by (rule draws_number [OF assms(1, 2)])
    (use assms in \<open>simp_all add: finalChar_def of_char_def csi_def sees_def clamp_def\<close>)

definition eraseScreen :: "nat \<Rightarrow> nat \<Rightarrow> Screen \<Rightarrow> Screen" where
  "eraseScreen first beyond sc = sc\<lparr>scWrap := False, scCells := take first (scCells sc) @
     replicate (beyond - first) \<lparr>vtText = [0x20], vtAttributes = scAttr sc, continuation = False\<rparr> @
     drop beyond (scCells sc)\<rparr>"

lemma eraseCells_plain:
  assumes "\<forall>c \<in> set (vtCells v). \<not> continuation c"
  shows "eraseCells first beyond v = v\<lparr>vtCells := take first (vtCells v) @
     replicate (beyond - first) (blank v) @ drop beyond (vtCells v)\<rparr>"
proof -
  have no: "(i < length (vtCells v) \<and> continuation (vtCells v ! i)) = False" for i
    using assms nth_mem by blast
  show ?thesis unfolding eraseCells_def Let_def no simp_thms if_False ..
qed

lemma eraseCells_fields [simp]:
  "vtRemaining (eraseCells a b v) = vtRemaining v" "vtWidth (eraseCells a b v) = vtWidth v"
  "vtHeight (eraseCells a b v) = vtHeight v"
  by (simp_all add: eraseCells_def Let_def)

lemma draws_home:
  assumes "1 \<le> W" and "1 \<le> H"
  shows "draws W H (CSI @ ''1;1H'') sc (sc\<lparr>scX := 0, scY := 0, scWrap := False\<rparr>)"
proof -
  have csi: "csi (CHR ''H'') v = Some (v\<lparr>vtWrap := False, vtY := 0, vtX := 0\<rparr>)"
    if "parameters v = Some (False, [1, 1])" "vtWidth v = W" "vtHeight v = H" for v
    using assms by (simp add: csi_def that clamp_def)
  have "draws W H (CSI @ joinNumbers [1, 1] @ ''H'') sc (sc\<lparr>scX := 0, scY := 0, scWrap := False\<rparr>)"
  proof (rule draws_csi)
    show "length (joinNumbers [1, 1]) \<le> 128" unfolding joinNumbers.simps decimals by simp
  qed (simp_all add: finalChar_def of_char_def csi sees_def)
  then show ?thesis unfolding joinNumbers.simps decimals by simp
qed

lemma draws_clear:
  assumes "\<forall>c \<in> set (scCells sc). \<not> continuation c"
  shows "draws W H (CSI @ ''2J'') sc (eraseScreen 0 (length (scCells sc)) sc)"
proof -
  have "draws W H (CSI @ joinNumbers [2] @ ''J'') sc (eraseScreen 0 (length (scCells sc)) sc)"
    by (rule draws_csi)
      (use assms in \<open>auto simp: decimals finalChar_def of_char_def csi_def sees_def eraseCells_plain
        eraseScreen_def blank_def Let_def\<close>)
  then show ?thesis by (simp add: decimals)
qed

lemma draws_erase:
  assumes "\<forall>c \<in> set (scCells sc). \<not> continuation c"
  shows "draws W H (CSI @ ''0K'') sc
    (eraseScreen (nat (scY sc * W + scX sc)) (nat (scY sc * W + W)) sc)"
proof -
  have "draws W H (CSI @ joinNumbers [0] @ ''K'') sc
      (eraseScreen (nat (scY sc * W + scX sc)) (nat (scY sc * W + W)) sc)"
    by (rule draws_csi)
      (use assms in \<open>auto simp: decimals finalChar_def of_char_def csi_def sees_def eraseCells_plain
        eraseScreen_def blank_def Let_def\<close>)
  then show ?thesis by (simp add: decimals)
qed

section \<open>Characters\<close>

lemma sees_fields:
  "sees W H (v\<lparr>vtScalar := a\<rparr>) sc = sees W H v sc" "sees W H (v\<lparr>vtMinimum := b\<rparr>) sc = sees W H v sc"
  by (simp_all add: sees_def)

lemma lead_bytes_all:
  "list_all (\<lambda>n. ((of_nat n :: u8) AND 0xE0 = 0xC0 \<longrightarrow> 0xC0 \<le> (of_nat n :: u8) \<and> (of_nat n :: u8) \<le> 0xDF) \<and>
     ((of_nat n :: u8) AND 0xF0 = 0xE0 \<longrightarrow> 0xE0 \<le> (of_nat n :: u8) \<and> (of_nat n :: u8) \<le> 0xEF)) [0..<256]"
  by code_simp

lemma lead_bytes:
  fixes w :: u8
  shows "w AND 0xE0 = 0xC0 \<Longrightarrow> 0xC0 \<le> w \<and> w \<le> 0xDF" "w AND 0xF0 = 0xE0 \<Longrightarrow> 0xE0 \<le> w \<and> w \<le> 0xEF"
proof -
  have "unat w < 256" by (rule less_le_trans [OF unsigned_less]) simp
  moreover have "of_nat (unat w) = w" by simp
  ultimately show "w AND 0xE0 = 0xC0 \<Longrightarrow> 0xC0 \<le> w \<and> w \<le> 0xDF" "w AND 0xF0 = 0xE0 \<Longrightarrow> 0xE0 \<le> w \<and> w \<le> 0xEF"
    using lead_bytes_all unfolding list_all_iff by (metis atLeastLessThan_iff set_upt zero_le)+
qed

lemma two_byte_lead:
  fixes c :: u32
  assumes "0x80 \<le> c" and "c < 0x800"
  shows "0xC2 \<le> (ucast ((drop_bit 6 c AND 0x1F) OR 0xC0) :: u8)"
    and "(ucast ((drop_bit 6 c AND 0x1F) OR 0xC0) :: u8) \<le> 0xDF"
proof -
  let ?w = "ucast ((drop_bit 6 c AND 0x1F) OR 0xC0) :: u8"
  have h: "11 \<le> k \<Longrightarrow> \<not> bit c k" for k
    using assms(2) by (intro bit_bound [of c 11 k]) (simp_all add: word_nat_alt)
  have "?w AND 0xE0 = 0xC0" by (simp add: byte_masks bit_simps)
  from lead_bytes(1) [OF this] have r: "0xC0 \<le> ?w" "?w \<le> 0xDF" by simp_all
  have "\<not> (\<forall>k \<in> {7, 8, 9, 10}. \<not> bit c k)"
  proof
    assume low: "\<forall>k \<in> {7, 8, 9, 10}. \<not> bit c k"
    have "\<not> bit c k" if "7 \<le> k" for k
    proof (cases "k \<le> 10")
      case True
      then have "k = 7 \<or> k = 8 \<or> k = 9 \<or> k = 10" using that by linarith
      then show ?thesis using low by auto
    qed (use h in auto)
    then have "bit c k \<Longrightarrow> k < 7" for k using not_le by blast
    then have "take_bit 7 c = c" by (intro bit_word_eqI) (auto simp: bit_take_bit_iff)
    then have "unat c = take_bit 7 (unat c)" by (metis unsigned_take_bit_eq)
    then have "unat c < 2 ^ 7" by (metis take_bit_nat_less_exp)
    then show False using assms(1) by (simp add: word_le_nat_alt)
  qed
  then obtain k where k: "bit c k" "k \<in> {7, 8, 9, 10}" by blast
  then have b: "bit ?w (k - 6)" by (auto simp: bit_simps)
  have "\<not> bit (0xC0 :: u8) (k - 6)" "\<not> bit (0xC1 :: u8) (k - 6)" using k(2) by auto
  then have "?w \<noteq> 0xC0" "?w \<noteq> 0xC1" using b by metis+
  then show "0xC2 \<le> ?w"
    using r(1) by (simp add: word_le_nat_alt word_unat_eq_iff)
  show "?w \<le> 0xDF" by (rule r(2))
qed

lemma three_byte_lead:
  fixes c :: u32
  shows "0xE0 \<le> (ucast ((drop_bit 12 c AND 0x0F) OR 0xE0) :: u8)"
    and "(ucast ((drop_bit 12 c AND 0x0F) OR 0xE0) :: u8) \<le> 0xEF"
  by (rule conjunct1 [OF lead_bytes(2)] conjunct2 [OF lead_bytes(2)], simp add: byte_masks bit_simps)+

text \<open>\<open>narrow ch\<close>: a character that takes one cell; \<open>putScreen\<close> writes it at the cursor.\<close>

definition narrow :: "u32 \<Rightarrow> bool" where
  "narrow ch \<longleftrightarrow> 0x20 \<le> ch \<and> ch \<noteq> 0x7F \<and> \<not> combining ch \<and> glyphWidth ch = 1"

definition putScreen :: "int \<Rightarrow> u32 \<Rightarrow> Screen \<Rightarrow> Screen" where
  "putScreen W ch sc = sc\<lparr>
     scCells := (scCells sc)[nat (scY sc * W + scX sc) :=
       \<lparr>vtText = [ch], vtAttributes = scAttr sc, continuation = False\<rparr>],
     scX := (if scX sc + 1 = W then W - 1 else scX sc + 1), scWrap := (scX sc + 1 = W)\<rparr>"

lemma replace_cell:
  "i < length xs \<Longrightarrow> (take i xs @ b # drop (Suc i) xs)[i := c] = xs[i := c]"
  by (simp add: list_update_append upd_conv_take_nth_drop)

lemma cell_index:
  assumes "screenOk W H sc"
  shows "nat (scY sc * W + scX sc) < length (scCells sc)"
proof -
  have "scY sc * W + scX sc < scY sc * W + W" using assms by (simp add: screenOk_def)
  also have "\<dots> = (scY sc + 1) * W" by (simp add: algebra_simps)
  also have "\<dots> \<le> H * W" using assms by (intro mult_right_mono) (auto simp: screenOk_def)
  finally show ?thesis using assms by (simp add: screenOk_def mult.commute nat_less_eq_zless)
qed

lemma vtPut_narrow:
  assumes "narrow ch" and "screenOk W H sc" and "\<not> scWrap sc" and "sees W H v sc"
  shows "\<exists>v'. vtPut ch v = Some v' \<and> sees W H v' (putScreen W ch sc)"
proof -
  have v: "vtWidth v = W" "vtX v = scX sc" "vtY v = scY sc" "vtCells v = scCells sc" "\<not> vtWrap v"
    using assms(3, 4) by (simp_all add: sees_def)
  have plain: "\<forall>c \<in> set (vtCells v). \<not> continuation c" using assms(2) v by (simp add: screenOk_def)
  have x: "scX sc < W" "\<not> W < 1" using assms(2) by (simp_all add: screenOk_def)
  let ?i = "nat (scY sc * W + scX sc)"
  have i: "?i < length (vtCells v)" using cell_index [OF assms(2)] v by simp
  let ?c = "\<lparr>vtText = [ch], vtAttributes = attributes v, continuation = False\<rparr>"
  let ?v = "v\<lparr>vtCells := (vtCells v)[?i := ?c], vtX := scX sc + 1\<rparr>"
  have one: "\<not> combining ch" "glyphWidth ch = 1" using assms(1) by (simp_all add: narrow_def)
  have er: "eraseCells ?i (Suc ?i) v = v\<lparr>vtCells := take ?i (vtCells v) @ blank v # drop (Suc ?i) (vtCells v)\<rparr>"
    unfolding eraseCells_plain [OF plain] by simp
  have "vtPut ch v = Some (if scX sc + 1 = W then ?v\<lparr>vtX := W - 1, vtWrap := True\<rparr> else ?v)"
    using one v(1-3, 5) x er replace_cell [OF i, of "blank v" ?c] by (simp add: vtPut_def Let_def)
  then show ?thesis using assms(3, 4) by (simp add: sees_def putScreen_def)
qed

lemma continuation_byte:
  fixes c :: u32
  shows "(ucast ((drop_bit n c AND 0x3F) OR 0x80) :: u8) AND 0xC0 = 0x80"
  by (simp add: byte_masks bit_simps)

lemma unat_ucast_u8: "unat (ucast (x :: u8) :: u32) = unat x"
proof -
  have "unat x < 2 ^ 32" by (rule less_trans [OF unsigned_less]) simp
  then show ?thesis by (simp add: unsigned_ucast_eq take_bit_nat_eq_self)
qed

text \<open>The last byte of an encoding completes the character.\<close>

lemma consume_last:
  assumes "vtRemaining v = 1" and "b AND 0xC0 = 0x80" and "vtMinimum v \<le> ch" and "scalar_value ch"
    and "push_bit 6 (vtScalar v) OR (ucast b AND 0x3F) = ch"
  shows "consumeText b v = vtPut ch (v\<lparr>vtScalar := ch, vtRemaining := 0\<rparr>)"
proof -
  have "\<not> ch < vtMinimum v" "\<not> 0x10FFFF < ch" "\<not> (0xD800 \<le> ch \<and> ch \<le> 0xDFFF)"
    using assms(3, 4) by (auto simp: scalar_value_def not_less word_less_nat_alt word_le_nat_alt)
  then show ?thesis using assms(1, 2, 5) by (auto simp: consumeText_def Let_def)
qed

lemma decode2_value:
  assumes "decode2 b0 b1 = c" and "c < 0x800"
  shows "push_bit 6 (ucast b0 AND 0x1F) OR (ucast b1 AND 0x3F) = c"
  using assms by (auto simp: decode2_def Let_def kInvalid_def split: if_splits)

lemma decode3_value:
  assumes "decode3 b0 b1 b2 = c" and "c < 0x10000"
  shows "push_bit 6 (push_bit 6 (ucast b0 AND 0x0F) OR (ucast b1 AND 0x3F)) OR (ucast b2 AND 0x3F) = c"
proof -
  have "push_bit 12 (ucast b0 AND 0x0F) OR push_bit 6 (ucast b1 AND 0x3F) OR (ucast b2 AND 0x3F) = c"
    using assms by (auto simp: decode3_def Let_def kInvalid_def split: if_splits)
  moreover have "push_bit 12 x = push_bit 6 (push_bit 6 x)" for x :: u32 by simp
  ultimately show ?thesis by (simp only: push_bit_or or.assoc)
qed

lemma draws_text:
  assumes "narrow ch" and "ch < 0x10000" and "scalar_value ch" and "screenOk W H sc" and "\<not> scWrap sc"
  shows "draws W H (map char_of_byte (encodeUtf8 ch)) sc (putScreen W ch sc)"
proof (rule drawsI)
  fix v assume v: "sees W H v sc"
  then have st: "vtState v = StText" "vtRemaining v = 0" by (simp_all add: sees_def)
  have lo: "0x20 \<le> ch" "ch \<noteq> 0x7F" using assms(1) by (simp_all add: narrow_def)
  have not_sur: "\<not> (0xD800 \<le> ch \<and> ch \<le> 0xDFFF)" using assms(3) by (simp add: scalar_value_def)
  have step: "vtFeed (char_of_byte b # s) v = do { v' \<leftarrow> consumeText b v; vtFeed s v' }"
    if "vtState v = StText" for b s v
    using that by (simp add: vtFeed_Cons vtConsume_def)
  have last: "\<exists>v'. vtFeed [char_of_byte b] w = Some v' \<and> sees W H v' (putScreen W ch sc)"
    if "vtRemaining w = 1" "b AND 0xC0 = 0x80" "vtMinimum w \<le> ch"
      "push_bit 6 (vtScalar w) OR (ucast b AND 0x3F) = ch" "sees W H (w\<lparr>vtRemaining := 0\<rparr>) sc" for b w
  proof -
    have "sees W H (w\<lparr>vtScalar := ch, vtRemaining := 0\<rparr>) sc" "vtState w = StText"
      using that(5) by (simp_all add: sees_def)
    then show ?thesis
      using vtPut_narrow [OF assms(1, 4, 5), of "w\<lparr>vtScalar := ch, vtRemaining := 0\<rparr>"]
        step [of w b "[]"] consume_last [OF that(1-3) assms(3) that(4)]
      by (auto simp: vtFeed_def)
  qed
  consider "ch < 0x80" | "\<not> ch < 0x80" "ch < 0x800" | "\<not> ch < 0x800" by blast
  then show "\<exists>v'. vtFeed (map char_of_byte (encodeUtf8 ch)) v = Some v' \<and> sees W H v' (putScreen W ch sc)"
  proof cases
    case 1
    let ?b = "ucast ch :: u8"
    have n: "unat ?b = unat ch" using 1 by (simp add: unsigned_ucast_eq take_bit_eq_mod word_less_nat_alt)
    have "(ucast ?b :: u32) = ch" by (simp only: word_unat_eq_iff unat_ucast_u8 n)
    moreover have "\<not> 0x80 \<le> ?b" "0x20 \<le> ?b" "?b \<noteq> 0x7F"
      using 1 lo n by (simp_all add: word_le_nat_alt word_less_nat_alt word_unat_eq_iff)
    moreover from this have "?b \<noteq> 0x1B" "?b \<noteq> 0x0D" "?b \<noteq> 0x0A" "?b \<noteq> 0x08" "?b \<noteq> 0x09" by auto
    ultimately have "consumeText ?b v = vtPut ch v" using st by (simp add: consumeText_def)
    then show ?thesis
      using vtPut_narrow [OF assms(1, 4, 5) v] 1 step [OF st(1), of ?b "[]"]
      by (auto simp: encodeUtf8_def vtFeed_def)
  next
    case 2
    let ?b0 = "ucast ((drop_bit 6 ch AND 0x1F) OR 0xC0) :: u8"
    let ?b1 = "ucast ((drop_bit 0 ch AND 0x3F) OR 0x80) :: u8"
    let ?w = "v\<lparr>vtScalar := ucast ?b0 AND 0x1F, vtRemaining := 1, vtMinimum := 0x80\<rparr>"
    have le: "0x80 \<le> ch" "\<not> ch \<le> 0x7F" using 2 by (simp_all add: not_less word_le_nat_alt word_less_nat_alt)
    note lead = two_byte_lead [OF le(1) 2(2)]
    have "0x80 \<le> ?b0" using lead(1) by (rule order_trans [rotated]) simp
    then have "consumeText ?b0 v = Some ?w" using lead st by (simp add: consumeText_def)
    moreover have "\<exists>v'. vtFeed [char_of_byte ?b1] ?w = Some v' \<and> sees W H v' (putScreen W ch sc)"
    proof (rule last)
      show "push_bit 6 (vtScalar ?w) OR (ucast ?b1 AND 0x3F) = ch"
        using decode2_value [OF decode2_encode [OF 2(2) le(2)] 2(2)] by simp
    qed (use le v continuation_byte [of 0 ch] in \<open>simp_all add: sees_def\<close>)
    ultimately show ?thesis using 2 step [OF st(1), of ?b0] by (simp add: encodeUtf8_def)
  next
    case 3
    let ?b0 = "ucast ((drop_bit 12 ch AND 0x0F) OR 0xE0) :: u8"
    let ?b1 = "ucast ((drop_bit 6 ch AND 0x3F) OR 0x80) :: u8"
    let ?b2 = "ucast ((drop_bit 0 ch AND 0x3F) OR 0x80) :: u8"
    let ?w0 = "v\<lparr>vtScalar := ucast ?b0 AND 0x0F, vtRemaining := 2, vtMinimum := 0x800\<rparr>"
    let ?w1 = "?w0\<lparr>vtScalar := push_bit 6 (vtScalar ?w0) OR (ucast ?b1 AND 0x3F), vtRemaining := 1\<rparr>"
    have le: "0x800 \<le> ch" "\<not> ch \<le> 0x7FF" "\<not> ch < 0x80"
      using 3 by (auto simp: not_less word_le_nat_alt word_less_nat_alt)
    note lead = three_byte_lead [of ch]
    have b0: "0x80 \<le> ?b0" using lead(1) by (rule order_trans [rotated]) simp
    have "\<not> ?b0 \<le> 0xDF" using lead(1) by (simp add: word_le_nat_alt)
    then have "consumeText ?b0 v = Some ?w0" using lead st b0 by (simp add: consumeText_def)
    moreover have "consumeText ?b1 ?w0 = Some ?w1"
      using continuation_byte [of 6 ch] by (simp add: consumeText_def)
    moreover have "\<exists>v'. vtFeed [char_of_byte ?b2] ?w1 = Some v' \<and> sees W H v' (putScreen W ch sc)"
    proof (rule last)
      show "push_bit 6 (vtScalar ?w1) OR (ucast ?b2 AND 0x3F) = ch"
        using decode3_value [OF decode3_encode [OF assms(2) le(2) not_sur] assms(2)] by simp
    qed (use le v continuation_byte [of 0 ch] in \<open>simp_all add: sees_def\<close>)
    moreover have "encodeUtf8 ch = [?b0, ?b1, ?b2]"
      using 3 le(3) not_sur assms(2) by (auto simp: encodeUtf8_def)
    ultimately show ?thesis
      using step [OF st(1), of ?b0] step [of ?w0 ?b1] by (simp add: st)
  qed
qed

end
