(* ===== verification/TerminalView.thy ===== *)
theory TerminalView
  imports VtScreen
begin

text \<open>
  What a terminal shows that receives the output of \<open>Terminal\<close> (src/agent/Terminal.cc): the
  bytes are given their meaning by the terminal of \<open>VtScreen\<close>. The lines of the console are a
  document, of which the screen shows the last lines; a session of calls draws every line
  on the row that belongs to it, cell by cell.

  The statements are about cells of one column with a character that the terminal draws in one
  column (\<open>simpleCell\<close>); surrogate pairs, full-width and combining characters are left out.
\<close>

section \<open>Cells\<close>

definition simpleCell :: "CHAR_INFO \<Rightarrow> bool" where
  "simpleCell cell \<longleftrightarrow> Attributes cell AND COMMON_LVB_LEADING_BYTE = 0 \<and>
     cellChar cell AND 0xF800 \<noteq> 0xD800 \<and> narrow (fixSpecialCharacters (ucast (cellChar cell)))"

definition cellColour :: "CHAR_INFO \<Rightarrow> u16" where
  "cellColour cell = Attributes cell AND COLOR_ATTRIBUTE_MASK"

definition shownCell :: "bool \<Rightarrow> CHAR_INFO \<Rightarrow> VtCell" where
  "shownCell withColor cell =
     \<lparr>vtText = [fixSpecialCharacters (ucast (cellChar cell))],
      vtAttributes = (if withColor then shownColour (cellColour cell) else 7), continuation = False\<rparr>"

definition penAttr :: "bool \<Rightarrow> int \<Rightarrow> u16" where
  "penAttr withColor col = (if withColor \<and> col \<noteq> - 1 then shownColour (word_of_int col) else 7)"

lemma penAttr_simps [simp]: "penAttr False col = 7" "penAttr True (uint c) = shownColour c"
proof -
  have "uint c \<noteq> - 1" using uint_ge_0 [of c] by linarith
  then show "penAttr True (uint c) = shownColour c" by (simp add: penAttr_def)
qed (simp add: penAttr_def)

lemma unit_range:
  fixes c :: u16
  assumes "c AND 0xF800 \<noteq> 0xD800"
  shows "\<not> (0xD800 \<le> c \<and> c \<le> 0xDFFF)"
proof
  assume r: "0xD800 \<le> c \<and> c \<le> 0xDFFF"
  have "(mask (5 + 11) AND NOT (mask 11) :: u16) = 0xF800" by (simp add: mask_eq_exp_minus_1)
  then have high: "c AND 0xF800 = push_bit 11 (take_bit 5 (drop_bit 11 c))"
    by (simp only: slice_eq_mask and.assoc)
  have "unat (drop_bit 11 c) = unat c div 2048"
    by (simp only: unat_drop_bit_eq) (simp add: drop_bit_eq_div)
  also have "\<dots> = 27" by (rule div_nat_eqI) (use r in \<open>simp_all add: word_le_nat_alt\<close>)
  finally have "drop_bit 11 c = 27" by (simp add: word_unat_eq_iff)
  then show False using high assms by simp
qed

lemma simple_char:
  assumes "simpleCell cell"
  shows "scalar_value (fixSpecialCharacters (ucast (cellChar cell)))"
    and "fixSpecialCharacters (ucast (cellChar cell)) < 0x10000"
    and "narrow (fixSpecialCharacters (ucast (cellChar cell)))"
proof -
  let ?c = "cellChar cell"
  have u: "unat (ucast ?c :: u32) = unat ?c"
  proof -
    have "unat ?c < 2 ^ 32" by (rule less_trans [OF unsigned_less]) simp
    then show ?thesis by (simp add: unsigned_ucast_eq take_bit_nat_eq_self)
  qed
  have b: "unat ?c < 65536" by (rule less_le_trans [OF unsigned_less]) simp
  have "\<not> (0xD800 \<le> ?c \<and> ?c \<le> 0xDFFF)" using assms by (intro unit_range) (simp add: simpleCell_def)
  then have "scalar_value (ucast ?c)" "(ucast ?c :: u32) < 0x10000"
    using u b by (auto simp: scalar_value_def word_le_nat_alt word_less_nat_alt)
  moreover have "scalar_value 0x2554" "scalar_value 0x2557" "scalar_value 0x255A" "scalar_value 0x255D"
    "scalar_value 0x2551" "scalar_value 0x2550" "scalar_value 0x3F"
    by (simp_all add: scalar_value_def)
  ultimately show "scalar_value (fixSpecialCharacters (ucast ?c))" "fixSpecialCharacters (ucast ?c) < 0x10000"
    by (simp_all add: fixSpecialCharacters_def)
  show "narrow (fixSpecialCharacters (ucast ?c))" using assms by (simp add: simpleCell_def)
qed

lemma simple_scan:
  assumes "simpleCell (data ! 0)" and "1 \<le> width"
  shows "scanUnicodeScalarValue data width = Some (1, ucast (cellChar (data ! 0)))"
  using assms by (simp add: scanUnicodeScalarValue_def isFullWidthCharacter_def simpleCell_def)

section \<open>Writing a line\<close>

text \<open>
  \<open>atCell\<close>: the terminal stands at column \<open>n\<close> of row \<open>y\<close>; the row shows the first \<open>n\<close> cells
  of \<open>data\<close>, the other rows are those of \<open>cs0\<close>, and the pen has the colour \<open>col\<close>.
\<close>

definition rowAt :: "int \<Rightarrow> int \<Rightarrow> int \<Rightarrow> nat" where
  "rowAt W y j = nat (y * W + j)"

definition atCell :: "bool \<Rightarrow> int \<Rightarrow> int \<Rightarrow> CHAR_INFO list \<Rightarrow> VtCell list \<Rightarrow> int \<Rightarrow> bool \<Rightarrow> int \<Rightarrow> int \<Rightarrow> Screen \<Rightarrow> bool" where
  "atCell wc W H data cs0 y vis n col sc \<longleftrightarrow> screenOk W H sc \<and> scY sc = y \<and> scVisible sc = vis \<and>
     length cs0 = nat (W * H) \<and> 0 \<le> n \<and> n \<le> W \<and>
     scX sc = (if n = W then W - 1 else n) \<and> scWrap sc = (n = W) \<and> scAttr sc = penAttr wc col \<and>
     (\<forall>j. 0 \<le> j \<and> j < n \<longrightarrow> scCells sc ! rowAt W y j = shownCell wc (data ! nat j)) \<and>
     (\<forall>z j. 0 \<le> z \<and> z < H \<and> z \<noteq> y \<and> 0 \<le> j \<and> j < W \<longrightarrow>
        scCells sc ! rowAt W z j = cs0 ! rowAt W z j)"

lemma rowAt_less:
  assumes "0 \<le> y" "y < H" "0 \<le> j" "j < W"
  shows "rowAt W y j < nat (W * H)"
proof -
  have "y * W + j < (y + 1) * W" using assms by (simp add: algebra_simps)
  also have "\<dots> \<le> H * W" using assms by (intro mult_right_mono) auto
  finally show ?thesis using assms by (simp add: rowAt_def mult.commute nat_less_eq_zless)
qed

lemma rowAt_inject:
  assumes "0 \<le> y" "0 \<le> z" "0 \<le> j" "j < W" "0 \<le> k" "k < W"
  shows "rowAt W y j = rowAt W z k \<longleftrightarrow> y = z \<and> j = k"
proof
  assume "rowAt W y j = rowAt W z k"
  moreover have "0 \<le> y * W" "0 \<le> z * W" using assms by simp_all
  ultimately have eq: "y * W + j = z * W + k"
    unfolding rowAt_def using assms(3, 5) by (simp only: eq_nat_nat_iff add_nonneg_nonneg)
  have "(y * W + j) div W = y" "(z * W + k) div W = z" using assms by simp_all
  then have "y = z" using eq by metis
  then show "y = z \<and> j = k" using eq by simp
qed simp

lemma atCell_put:
  assumes at: "atCell wc W H data cs0 y vis n col sc" and n: "n < W"
    and cell: "simpleCell (data ! nat n)" and colour: "wc \<longrightarrow> col = uint (cellColour (data ! nat n))"
  shows "\<exists>sc'. draws W H (map char_of_byte (encodeUtf8 (fixSpecialCharacters (ucast (cellChar (data ! nat n)))))) sc sc' \<and>
     atCell wc W H data cs0 y vis (n + 1) col sc'"
proof -
  let ?ch = "fixSpecialCharacters (ucast (cellChar (data ! nat n)))"
  have ok: "screenOk W H sc" and y: "scY sc = y" and x: "scX sc = n" "\<not> scWrap sc"
    using at n by (simp_all add: atCell_def)
  have d: "draws W H (map char_of_byte (encodeUtf8 ?ch)) sc (putScreen W ?ch sc)"
    by (rule draws_text [OF simple_char(3, 2, 1) [OF cell] ok x(2)])
  have yb: "0 \<le> y" "y < H" using ok y by (simp_all add: screenOk_def)
  have nb: "0 \<le> n" using at by (simp add: atCell_def)
  have len: "length (scCells sc) = nat (W * H)" using ok by (simp add: screenOk_def)
  have i: "nat (scY sc * W + scX sc) = rowAt W y n" using x y by (simp add: rowAt_def)
  have lt: "rowAt W y n < length (scCells sc)" using rowAt_less [OF yb nb n] len by simp
  let ?c = "\<lparr>vtText = [?ch], vtAttributes = scAttr sc, continuation = False\<rparr>"
  have shown: "?c = shownCell wc (data ! nat n)"
    using at colour by (cases wc) (simp_all add: atCell_def shownCell_def)
  have cells: "scCells (putScreen W ?ch sc) = (scCells sc)[rowAt W y n := shownCell wc (data ! nat n)]"
    using i shown by (simp add: putScreen_def)
  have "atCell wc W H data cs0 y vis (n + 1) col (putScreen W ?ch sc)"
    unfolding atCell_def
  proof (intro conjI allI impI)
    show "screenOk W H (putScreen W ?ch sc)"
      using ok set_update_subset_insert [of "scCells sc" "rowAt W y n" "shownCell wc (data ! nat n)"] x n nb
      unfolding screenOk_def cells by (auto simp: putScreen_def shownCell_def)
    show "scCells (putScreen W ?ch sc) ! rowAt W y j = shownCell wc (data ! nat j)" if j: "0 \<le> j \<and> j < n + 1" for j
    proof (cases "j = n")
      case False
      then have "rowAt W y j \<noteq> rowAt W y n" using j n yb nb by (simp add: rowAt_inject)
      then show ?thesis using at j False by (simp add: cells atCell_def)
    qed (use lt cells in simp)
    show "scCells (putScreen W ?ch sc) ! rowAt W z j = cs0 ! rowAt W z j"
      if z: "0 \<le> z \<and> z < H \<and> z \<noteq> y \<and> 0 \<le> j \<and> j < W" for z j
    proof -
      have "rowAt W z j \<noteq> rowAt W y n" using z n yb nb by (simp add: rowAt_inject)
      then show ?thesis using at z by (simp add: cells atCell_def)
    qed
  qed (use at n x y in \<open>auto simp: atCell_def putScreen_def\<close>)
  then show ?thesis using d by blast
qed

text \<open>Blank cells in the colour of the pen.\<close>

definition blankCell :: "bool \<Rightarrow> int \<Rightarrow> CHAR_INFO \<Rightarrow> bool" where
  "blankCell wc col cell \<longleftrightarrow> cellChar cell = 0x20 \<and> (wc \<longrightarrow> col = uint (cellColour cell))"

lemma atCell_spaces:
  assumes "atCell wc W H data cs0 y vis n col sc" and "n + int k \<le> W"
    and "\<forall>j. n \<le> j \<and> j < n + int k \<longrightarrow> simpleCell (data ! nat j) \<and> blankCell wc col (data ! nat j)"
  shows "\<exists>sc'. draws W H (replicate k CHR '' '') sc sc' \<and> atCell wc W H data cs0 y vis (n + int k) col sc'"
  using assms
proof (induction k arbitrary: n sc)
  case 0
  then show ?case by (intro exI [of _ sc]) simp
next
  case (Suc k)
  have b: "simpleCell (data ! nat n)" "blankCell wc col (data ! nat n)" using Suc.prems(3) by auto
  have "fixSpecialCharacters (ucast (cellChar (data ! nat n))) = 0x20"
    using b(2) by (simp add: blankCell_def fixSpecialCharacters_def)
  moreover have "map char_of_byte (encodeUtf8 0x20) = '' ''" by code_simp
  ultimately obtain sc1 where sc1: "draws W H '' '' sc sc1" "atCell wc W H data cs0 y vis (n + 1) col sc1"
    using atCell_put [OF Suc.prems(1) _ b(1)] b(2) Suc.prems(2) by (auto simp: blankCell_def)
  obtain sc' where "draws W H (replicate k CHR '' '') sc1 sc'" "atCell wc W H data cs0 y vis (n + 1 + int k) col sc'"
    using Suc.IH [OF sc1(2)] Suc.prems(2, 3) by (auto simp: algebra_simps)
  then show ?case
    using draws_append [OF sc1(1)] by (intro exI [of _ sc']) (simp add: algebra_simps)
qed

lemma atCell_colour:
  assumes "atCell True W H data cs0 y vis n col sc"
  shows "\<exists>sc'. draws W H (outputSetColor [] c) sc sc' \<and> atCell True W H data cs0 y vis n (uint c) sc'"
  by (rule exI [of _ "sc\<lparr>scAttr := shownColour c\<rparr>"])
    (use assms draws_colour in \<open>simp add: atCell_def screenOk_def\<close>)

text \<open>Erasing to the end of the row: the cells from the cursor on become blank in the pen's colour.\<close>

lemma row_range:
  assumes "0 \<le> y" "0 \<le> n" "n < W" "0 \<le> z" "0 \<le> j" "j < W"
  shows "nat (y * W + n) \<le> rowAt W z j \<and> rowAt W z j < nat (y * W + W) \<longleftrightarrow> z = y \<and> n \<le> j"
proof -
  have p: "0 \<le> z * W + j" "0 \<le> y * W" "0 < y * W + W" using assms by (simp_all add: add_nonneg_pos)
  have "nat (y * W + n) \<le> rowAt W z j \<and> rowAt W z j < nat (y * W + W) \<longleftrightarrow>
      y * W + n \<le> z * W + j \<and> z * W + j < y * W + W"
    using p assms by (auto simp: rowAt_def nat_le_eq_zle nat_less_eq_zless)
  also have "\<dots> \<longleftrightarrow> z = y \<and> n \<le> j"
  proof
    assume r: "y * W + n \<le> z * W + j \<and> z * W + j < y * W + W"
    then have "z * W < (y + 1) * W" "y * W < (z + 1) * W" using assms by (auto simp: algebra_simps)
    then have "z < y + 1" "y < z + 1" using assms by (auto simp: mult_less_cancel_right)
    then show "z = y \<and> n \<le> j" using r by auto
  qed (use assms in auto)
  finally show ?thesis .
qed

lemma atCell_erase:
  assumes at: "atCell wc W H data cs0 y vis n col sc" and n: "n < W"
  shows "\<exists>sc'. draws W H (CSI @ ''0K'') sc sc' \<and> atCell wc W H data cs0 y vis n col sc' \<and>
    (\<forall>j. n \<le> j \<and> j < W \<longrightarrow> scCells sc' ! rowAt W y j =
       \<lparr>vtText = [0x20], vtAttributes = penAttr wc col, continuation = False\<rparr>)"
proof -
  have ok: "screenOk W H sc" and y: "scY sc = y" and x: "scX sc = n" "\<not> scWrap sc"
    using at n by (simp_all add: atCell_def)
  have nb: "0 \<le> n" and yb: "0 \<le> y" "y < H" using at y by (simp_all add: atCell_def screenOk_def)
  have len: "length (scCells sc) = nat (W * H)" using ok by (simp add: screenOk_def)
  let ?a = "nat (y * W + n)" and ?b = "nat (y * W + W)"
  let ?sc = "eraseScreen ?a ?b sc"
  let ?blank = "\<lparr>vtText = [0x20], vtAttributes = scAttr sc, continuation = False\<rparr>"
  have d: "draws W H (CSI @ ''0K'') sc ?sc"
    using draws_erase [of sc W H] ok x y by (simp add: screenOk_def)
  have yW: "0 \<le> y * W" using yb n nb by simp
  have "(y + 1) * W \<le> H * W" using yb n nb by (intro mult_right_mono) auto
  then have b: "?b \<le> length (scCells sc)" unfolding len by (simp add: algebra_simps nat_mono)
  have ab: "?a \<le> ?b" using n by (simp add: nat_mono)
  have cell: "scCells ?sc ! k = (if ?a \<le> k \<and> k < ?b then ?blank else scCells sc ! k)"
    if "k < length (scCells sc)" for k
    using that ab b by (auto simp: eraseScreen_def nth_append)
  have lens: "length (scCells ?sc) = nat (W * H)" using ab b len by (simp add: eraseScreen_def)
  have inside: "?a \<le> rowAt W z j \<and> rowAt W z j < ?b \<longleftrightarrow> z = y \<and> n \<le> j"
    if "0 \<le> z" "0 \<le> j" "j < W" for z j
    by (rule row_range) (use that yb nb n in auto)
  have sets: "set (scCells ?sc) \<subseteq> insert ?blank (set (scCells sc))"
    using set_take_subset [of ?a "scCells sc"] set_drop_subset [of ?b "scCells sc"]
    by (auto simp: eraseScreen_def)
  have "atCell wc W H data cs0 y vis n col ?sc"
    unfolding atCell_def
  proof (intro conjI allI impI)
    show "screenOk W H ?sc" using ok lens sets unfolding screenOk_def by (auto simp: eraseScreen_def)
    show "scCells ?sc ! rowAt W y j = shownCell wc (data ! nat j)" if "0 \<le> j \<and> j < n" for j
      using cell [of "rowAt W y j"] inside [of y j] rowAt_less [OF yb, of j W] that n at len yb
      by (auto simp: atCell_def)
    show "scCells ?sc ! rowAt W z j = cs0 ! rowAt W z j" if "0 \<le> z \<and> z < H \<and> z \<noteq> y \<and> 0 \<le> j \<and> j < W" for z j
      using cell [of "rowAt W z j"] inside [of z j] rowAt_less [of z H j W] that at len
      by (auto simp: atCell_def)
  qed (use at n x y in \<open>simp_all add: atCell_def eraseScreen_def\<close>)
  moreover have "scCells ?sc ! rowAt W y j = ?blank" if "n \<le> j \<and> j < W" for j
    using cell [of "rowAt W y j"] inside [of y j] rowAt_less [OF yb, of j W] that nb len yb by auto
  moreover have "scAttr sc = penAttr wc col" using at by (simp add: atCell_def)
  ultimately show ?thesis using d by auto
qed

section \<open>The loop of sendLine\<close>

text \<open>
  After the first \<open>i\<close> cells the part of \<open>termLine\<close> that will be sent draws the cells up to
  \<open>trimmedCellCount\<close>; what is kept back are blanks in the colour sent last.
\<close>

definition loopDraws ::
  "bool \<Rightarrow> int \<Rightarrow> int \<Rightarrow> CHAR_INFO list \<Rightarrow> VtCell list \<Rightarrow> int \<Rightarrow> bool \<Rightarrow> Screen \<Rightarrow> int \<Rightarrow> SendState \<Rightarrow> bool" where
  "loopDraws wc W H data cs0 y vis sc0 i s \<longleftrightarrow>
     (let k = trimmedCellCount s in
      (\<exists>sc. draws W H (take (trimmedLineLength s) (termLine s)) sc0 sc \<and>
         atCell wc W H data cs0 y vis k (sentColor s) sc) \<and>
      drop (trimmedLineLength s) (termLine s) = replicate (nat (i - k)) CHR '' '' \<and>
      trimmedLineLength s \<le> length (termLine s) \<and>
      0 \<le> k \<and> k \<le> i \<and> (alreadyErasedLine s \<longleftrightarrow> k = W) \<and>
      (\<forall>j. k \<le> j \<and> j < i \<longrightarrow> blankCell wc (sentColor s) (data ! nat j)))"

text \<open>Sending what was kept back.\<close>

lemma loopDraws_all:
  assumes "loopDraws wc W H data cs0 y vis sc0 i s" and "i \<le> W"
    and "\<forall>j. 0 \<le> j \<and> j < W \<longrightarrow> simpleCell (data ! nat j)"
  shows "\<exists>sc. draws W H (termLine s) sc0 sc \<and> atCell wc W H data cs0 y vis i (sentColor s) sc"
proof -
  let ?k = "trimmedCellCount s"
  obtain sc where sc: "draws W H (take (trimmedLineLength s) (termLine s)) sc0 sc"
      "atCell wc W H data cs0 y vis ?k (sentColor s) sc"
    and r: "drop (trimmedLineLength s) (termLine s) = replicate (nat (i - ?k)) CHR '' ''" "0 \<le> ?k" "?k \<le> i"
      "\<forall>j. ?k \<le> j \<and> j < i \<longrightarrow> blankCell wc (sentColor s) (data ! nat j)"
    using assms(1) unfolding loopDraws_def Let_def by blast
  obtain sc' where "draws W H (replicate (nat (i - ?k)) CHR '' '') sc sc'"
      "atCell wc W H data cs0 y vis (?k + int (nat (i - ?k))) (sentColor s) sc'"
    using atCell_spaces [OF sc(2), of "nat (i - ?k)"] r assms(2, 3) by auto
  then show ?thesis
    using draws_append [OF sc(1)] r(1, 3) by (metis append_take_drop_id add_diff_cancel_left' diff_add_cancel int_nat_eq
        diff_ge_0_iff_ge add.commute)
qed

lemma loopDraws_colour:
  assumes l: "loopDraws wc W H data cs0 y vis sc0 i s" and i: "i < W"
    and simple: "\<forall>j. 0 \<le> j \<and> j < W \<longrightarrow> simpleCell (data ! nat j)"
  shows "loopDraws wc W H data cs0 y vis sc0 i (setColorStep wc (data ! nat i) i s) \<and>
    (wc \<longrightarrow> sentColor (setColorStep wc (data ! nat i) i s) = uint (cellColour (data ! nat i)))"
proof (cases "wc \<and> uint (cellColour (data ! nat i)) \<noteq> sentColor s")
  case False
  then show ?thesis using l by (auto simp: setColorStep_def cellColour_def Let_def)
next
  case True
  let ?c = "cellColour (data ! nat i)"
  let ?s = "setColorStep wc (data ! nat i) i s"
  have s': "termLine ?s = termLine s @ outputSetColor [] ?c" "trimmedLineLength ?s = length (termLine ?s)"
      "sentColor ?s = uint ?c" "trimmedCellCount ?s = i" "alreadyErasedLine ?s = alreadyErasedLine s"
    using True outputSetColor_append [of "termLine s" ?c]
    by (simp_all add: setColorStep_def cellColour_def Let_def)
  obtain sc where sc: "draws W H (termLine s) sc0 sc" "atCell True W H data cs0 y vis i (sentColor s) sc"
    using loopDraws_all [OF l _ simple] i True by auto
  obtain sc' where "draws W H (outputSetColor [] ?c) sc sc'" "atCell True W H data cs0 y vis i (uint ?c) sc'"
    using atCell_colour [OF sc(2)] by blast
  then have "\<exists>sc'. draws W H (termLine ?s) sc0 sc' \<and> atCell wc W H data cs0 y vis i (uint ?c) sc'"
    using draws_append [OF sc(1)] s'(1) True by auto
  moreover have "\<not> alreadyErasedLine s" "0 \<le> i" using l i by (auto simp: loopDraws_def Let_def)
  ultimately have "loopDraws wc W H data cs0 y vis sc0 i ?s"
    unfolding loopDraws_def Let_def using s' i by auto
  then show ?thesis using s'(3) by blast
qed

lemma loopDraws_cell:
  assumes l: "loopDraws wc W H data cs0 y vis sc0 i s" and i: "i < W"
    and simple: "\<forall>j. 0 \<le> j \<and> j < W \<longrightarrow> simpleCell (data ! nat j)"
    and colour: "wc \<longrightarrow> sentColor s = uint (cellColour (data ! nat i))"
  shows "loopDraws wc W H data cs0 y vis sc0 (i + 1)
    (cellStep False W i 1 (ucast (cellChar (data ! nat i))) s)"
proof (cases "cellChar (data ! nat i) = 0x20")
  case True
  let ?s = "s\<lparr>termLine := termLine s @ '' ''\<rparr>"
  have "cellStep False W i 1 (ucast (cellChar (data ! nat i))) s = ?s"
    using True by (simp add: cellStep_def)
  moreover have "nat (i + 1 - trimmedCellCount s) = nat (i - trimmedCellCount s) + 1"
    using l by (auto simp: loopDraws_def Let_def)
  moreover have "\<forall>j. trimmedCellCount s \<le> j \<and> j < i + 1 \<longrightarrow> blankCell wc (sentColor s) (data ! nat j)"
  proof (intro allI impI)
    fix j assume j: "trimmedCellCount s \<le> j \<and> j < i + 1"
    show "blankCell wc (sentColor s) (data ! nat j)"
    proof (cases "j = i")
      case False
      then show ?thesis using j l by (simp add: loopDraws_def Let_def)
    qed (use True colour in \<open>simp add: blankCell_def\<close>)
  qed
  ultimately show ?thesis
    using l unfolding loopDraws_def Let_def
    by (simp add: replicate_append_same)
next
  case False
  let ?cell = "data ! nat i"
  let ?enc = "map char_of_byte (encodeUtf8 (fixSpecialCharacters (ucast (cellChar ?cell))))"
  let ?s1 = "if i + 1 = W then termLine s @ CSI @ ''0K'' else termLine s"
  let ?s = "cellStep False W i 1 (ucast (cellChar ?cell)) s"
  have "(ucast (cellChar ?cell) :: u32) \<noteq> 0x20"
    using False ucast_u16_eq_iff [of "cellChar ?cell" "0x20"] by simp
  moreover have nonneg: "0 \<le> i" using l by (auto simp: loopDraws_def Let_def)
  have simple_i: "simpleCell ?cell" using simple i nonneg by simp
  have "encodeUtf8 (fixSpecialCharacters (ucast (cellChar ?cell))) \<noteq> []"
    using simple_char(1) [OF simple_i] by (simp add: encodeUtf8_Nil_iff)
  ultimately have s': "termLine ?s = ?s1 @ ?enc" "trimmedLineLength ?s = length (termLine ?s)"
      "trimmedCellCount ?s = i + 1" "sentColor ?s = sentColor s"
      "alreadyErasedLine ?s = (i + 1 = W \<or> alreadyErasedLine s)"
    by (simp_all add: cellStep_def encodeCell_def Let_def)
  obtain sc where sc: "draws W H (termLine s) sc0 sc" "atCell wc W H data cs0 y vis i (sentColor s) sc"
    using loopDraws_all [OF l _ simple] i by auto
  have "\<exists>sc1. draws W H ?s1 sc0 sc1 \<and> atCell wc W H data cs0 y vis i (sentColor s) sc1"
    using sc atCell_erase [OF sc(2) i] draws_append [OF sc(1)] by fastforce
  then obtain sc1 where sc1: "draws W H ?s1 sc0 sc1" "atCell wc W H data cs0 y vis i (sentColor s) sc1"
    by blast
  obtain sc2 where sc2: "draws W H ?enc sc1 sc2" "atCell wc W H data cs0 y vis (i + 1) (sentColor s) sc2"
    using atCell_put [OF sc1(2) i simple_i colour] by blast
  have "draws W H (termLine ?s) sc0 sc2" unfolding s'(1) by (rule draws_append [OF sc1(1) sc2(1)])
  then have "\<exists>sc2. draws W H (termLine ?s) sc0 sc2 \<and> atCell wc W H data cs0 y vis (i + 1) (sentColor s) sc2"
    using sc2(2) by blast
  moreover have "\<not> alreadyErasedLine s" using l i by (auto simp: loopDraws_def Let_def)
  moreover have "\<forall>j. i + 1 \<le> j \<and> j < i + 1 \<longrightarrow> blankCell wc (sentColor s) (data ! nat j)"
    by (intro allI impI) linarith
  ultimately show ?thesis
    using s'(2) nonneg unfolding loopDraws_def Let_def s'(3-5) by simp
qed

lemma sendLoop_draws:
  "sendLoop False wc data W i s = Some s' \<Longrightarrow> loopDraws wc W H data cs0 y vis sc0 i s \<Longrightarrow> i \<le> W \<Longrightarrow>
   \<forall>j. 0 \<le> j \<and> j < W \<longrightarrow> simpleCell (data ! nat j) \<Longrightarrow> nat W \<le> length data \<Longrightarrow>
   loopDraws wc W H data cs0 y vis sc0 W s'"
proof (induction "nat (W - i)" arbitrary: i s)
  case 0
  then have "i = W" by simp
  then show ?case using 0 by (subst (asm) sendLoop.simps) simp
next
  case (Suc k)
  note prems = Suc.prems
  have i: "i < W" "0 \<le> i" using Suc.hyps(2) prems(2) by (auto simp: loopDraws_def Let_def)
  let ?s1 = "setColorStep wc (data ! nat i) i s"
  let ?s2 = "cellStep False W i 1 (ucast (cellChar (data ! nat i))) ?s1"
  have len: "nat i < length data" using i prems(5) by linarith
  have "scanUnicodeScalarValue (drop (nat i) data) (W - i) = Some (1, ucast (cellChar (data ! nat i)))"
    using simple_scan [of "drop (nat i) data" "W - i"] prems(4) i len by simp
  then have "sendLoop False wc data W (i + 1) ?s2 = Some s'"
    using prems(1) i by (subst (asm) sendLoop.simps) (simp add: Let_def)
  moreover have "loopDraws wc W H data cs0 y vis sc0 (i + 1) ?s2"
    using loopDraws_colour [OF prems(2) i(1) prems(4)] by (intro loopDraws_cell [OF _ i(1) prems(4)]) auto
  ultimately show ?case
    using Suc.hyps(1) [of "i + 1" ?s2] Suc.hyps(2) i prems(4, 5) by auto
qed

section \<open>The document and the screen\<close>

text \<open>
  The abstract terminal: the lines sent last for each line number, of which the screen shows the
  last \<open>H\<close>. \<open>firstShown\<close> is the line in the top row; lines above it cannot be reached any more.
\<close>

record Document =
  docBase :: int
  docMax :: int
  docLines :: "int \<Rightarrow> CHAR_INFO list option"

definition firstShown :: "int \<Rightarrow> Document \<Rightarrow> int" where
  "firstShown H d = max (docBase d) (docMax d - (H - 1))"

definition emptyDocument :: "int \<Rightarrow> Document" where
  "emptyDocument n = \<lparr>docBase = n, docMax = n, docLines = (\<lambda>_. None)\<rparr>"

definition reachLine :: "int \<Rightarrow> Document \<Rightarrow> Document" where
  "reachLine line d = d\<lparr>docMax := max (docMax d) line\<rparr>"

text \<open>The screen shows the document: line \<open>R\<close> is the row of the cursor, except for its column.\<close>

definition showsLines :: "bool \<Rightarrow> int \<Rightarrow> int \<Rightarrow> Document \<Rightarrow> VtCell list \<Rightarrow> bool" where
  "showsLines wc W H d cs \<longleftrightarrow>
     (\<forall>L data. docLines d L = Some data \<longrightarrow> L \<le> docMax d \<and>
        (firstShown H d \<le> L \<longrightarrow>
          (\<forall>j. 0 \<le> j \<and> j < W \<longrightarrow> cs ! rowAt W (L - firstShown H d) j = shownCell wc (data ! nat j))))"

definition showsDocument :: "bool \<Rightarrow> int \<Rightarrow> int \<Rightarrow> Document \<Rightarrow> int \<Rightarrow> Screen \<Rightarrow> bool" where
  "showsDocument wc W H d R sc \<longleftrightarrow> screenOk W H sc \<and> docBase d \<le> docMax d \<and>
     firstShown H d \<le> R \<and> R \<le> docMax d \<and> scY sc = R - firstShown H d \<and>
     showsLines wc W H d (scCells sc)"

text \<open>A line end goes to the next line and scrolls when the cursor is in the bottom row.\<close>

lemma newline_moves:
  assumes s: "showsDocument wc W H d R sc" and room: "scY sc + 1 < H"
  shows "showsDocument wc W H (reachLine (R + 1) d) (R + 1) (lineFeedScreen W H (sc\<lparr>scX := 0\<rparr>))"
proof -
  let ?sc = "lineFeedScreen W H (sc\<lparr>scX := 0\<rparr>)" and ?d = "reachLine (R + 1) d"
  have ok: "screenOk W H sc" and R: "firstShown H d \<le> R" "R \<le> docMax d" and y: "scY sc = R - firstShown H d"
    and lines: "showsLines wc W H d (scCells sc)" and base: "docBase d \<le> docMax d"
    using s by (simp_all add: showsDocument_def)
  then have first: "firstShown H ?d = firstShown H d"
    using room by (simp add: firstShown_def reachLine_def)
  have "showsLines wc W H ?d (scCells ?sc)"
    using lines first room unfolding showsLines_def by (auto simp: reachLine_def lineFeedScreen_def le_max_iff_disj)
  then show ?thesis
    using room ok R y base first
    by (simp add: showsDocument_def screenOk_def lineFeedScreen_def) (simp add: reachLine_def)
qed

lemma newline_scrolls:
  assumes s: "showsDocument wc W H d R sc" and full: "\<not> scY sc + 1 < H"
  shows "showsDocument wc W H (reachLine (R + 1) d) (R + 1) (lineFeedScreen W H (sc\<lparr>scX := 0\<rparr>))"
proof -
  let ?sc = "lineFeedScreen W H (sc\<lparr>scX := 0\<rparr>)" and ?d = "reachLine (R + 1) d"
  have ok: "screenOk W H sc" and R: "firstShown H d \<le> R" "R \<le> docMax d" and y: "scY sc = R - firstShown H d"
    and lines: "showsLines wc W H d (scCells sc)" and base: "docBase d \<le> docMax d"
    using s by (simp_all add: showsDocument_def)
  have dims: "0 < W" "0 < H" "length (scCells sc) = nat (W * H)" "scY sc < H" using ok by (simp_all add: screenOk_def)
  have top: "scY sc = H - 1" using dims full by simp
  have Rm: "R = docMax d" using y R dims top by (simp add: firstShown_def)
  have first: "firstShown H ?d = firstShown H d + 1"
    using y top Rm R base by (simp add: firstShown_def reachLine_def)
  let ?blank = "\<lparr>vtText = [0x20], vtAttributes = scAttr sc, continuation = False\<rparr>"
  have cells: "scCells ?sc = drop (nat W) (scCells sc) @ replicate (nat W) ?blank"
    using full by (simp add: lineFeedScreen_def)
  have shift: "scCells ?sc ! rowAt W z j = scCells sc ! rowAt W (z + 1) j"
    if "0 \<le> z" "z + 1 < H" "0 \<le> j" "j < W" for z j
  proof -
    have "rowAt W (z + 1) j = nat W + rowAt W z j"
      using that dims by (simp add: rowAt_def algebra_simps flip: nat_add_distrib)
    moreover have "rowAt W (z + 1) j < length (scCells sc)" using rowAt_less [of "z + 1" H j W] that dims by simp
    ultimately show ?thesis by (simp add: cells nth_append)
  qed
  have "showsLines wc W H ?d (scCells ?sc)"
    unfolding showsLines_def
  proof (intro allI impI)
    fix L data assume "docLines ?d L = Some data"
    then have L: "docLines d L = Some data" by (simp add: reachLine_def)
    then have Lm: "L \<le> docMax d" using lines by (simp add: showsLines_def)
    have "scCells ?sc ! rowAt W (L - firstShown H ?d) j = shownCell wc (data ! nat j)"
      if "firstShown H ?d \<le> L" "0 \<le> j \<and> j < W" for j
    proof -
      have "scCells ?sc ! rowAt W (L - firstShown H ?d) j = scCells sc ! rowAt W (L - firstShown H ?d + 1) j"
        using that first Lm Rm y top by (intro shift) auto
      also have "L - firstShown H ?d + 1 = L - firstShown H d" using first by simp
      finally show ?thesis using lines L that first by (simp add: showsLines_def)
    qed
    then show "L \<le> docMax ?d \<and> (firstShown H ?d \<le> L \<longrightarrow> (\<forall>j. 0 \<le> j \<and> j < W \<longrightarrow>
        scCells ?sc ! rowAt W (L - firstShown H ?d) j = shownCell wc (data ! nat j)))"
      using Lm by (auto simp: reachLine_def)
  qed
  moreover have "nat W \<le> nat (W * H)" using dims by (intro nat_mono) simp
  moreover have "set (scCells ?sc) \<subseteq> insert ?blank (set (scCells sc))"
    using set_drop_subset [of "nat W" "scCells sc"] by (auto simp: cells)
  ultimately show ?thesis
    using full ok R y base first Rm dims
    by (auto simp: showsDocument_def screenOk_def lineFeedScreen_def reachLine_def)
qed

lemma newline_step:
  assumes "showsDocument wc W H d R sc"
  shows "\<exists>sc'. draws W H CRLF sc sc' \<and> showsDocument wc W H (reachLine (R + 1) d) (R + 1) sc' \<and>
    scX sc' = 0 \<and> \<not> scWrap sc' \<and> scAttr sc' = scAttr sc \<and> scVisible sc' = scVisible sc"
  using draws_newline [of W H sc] newline_moves [OF assms] newline_scrolls [OF assms]
  by (intro exI [of _ "lineFeedScreen W H (sc\<lparr>scX := 0\<rparr>)"]) (auto simp: lineFeedScreen_def)

lemma newlines_step:
  assumes "showsDocument wc W H d R sc"
  shows "\<exists>sc'. draws W H (concat (replicate k CRLF)) sc sc' \<and>
    showsDocument wc W H (reachLine (R + int k) d) (R + int k) sc' \<and> (k = 0 \<longrightarrow> sc' = sc) \<and>
    (0 < k \<longrightarrow> scX sc' = 0 \<and> \<not> scWrap sc') \<and> scAttr sc' = scAttr sc \<and> scVisible sc' = scVisible sc"
  using assms
proof (induction k arbitrary: R d sc)
  case 0
  then have "reachLine R d = d" by (cases d) (simp add: showsDocument_def reachLine_def max_absorb1)
  then show ?case using 0 by (intro exI [of _ sc]) simp
next
  case (Suc k)
  obtain sc1 where sc1: "draws W H CRLF sc sc1" "showsDocument wc W H (reachLine (R + 1) d) (R + 1) sc1"
      "scX sc1 = 0" "\<not> scWrap sc1" "scAttr sc1 = scAttr sc" "scVisible sc1 = scVisible sc"
    using newline_step [OF Suc.prems] by blast
  obtain sc' where sc': "draws W H (concat (replicate k CRLF)) sc1 sc'"
      "showsDocument wc W H (reachLine (R + 1 + int k) (reachLine (R + 1) d)) (R + 1 + int k) sc'"
      "k = 0 \<longrightarrow> sc' = sc1" "0 < k \<longrightarrow> scX sc' = 0 \<and> \<not> scWrap sc'"
      "scAttr sc' = scAttr sc1" "scVisible sc' = scVisible sc1"
    using Suc.IH [OF sc1(2)] by blast
  have "reachLine (R + 1 + int k) (reachLine (R + 1) d) = reachLine (R + int (Suc k)) d"
    by (simp add: reachLine_def)
  moreover have "scX sc' = 0 \<and> \<not> scWrap sc'" using sc'(3, 4) sc1(3, 4) by (cases "k = 0") auto
  moreover have "draws W H (concat (replicate (Suc k) CRLF)) sc sc'" using draws_append [OF sc1(1) sc'(1)] by simp
  ultimately show ?case using sc'(2, 5, 6) sc1(5, 6) by (intro exI [of _ sc']) (simp add: algebra_simps)
qed

section \<open>Operations of the terminal\<close>

text \<open>
  \<open>inStep\<close>: the terminal shows the document, its cursor is where \<open>Terminal\<close> believes it to be,
  and the row of the cursor begins with the remembered cells. \<open>lost\<close> tells that the
  cursor was hidden when the terminal was reset.
\<close>

definition inStep :: "bool \<Rightarrow> int \<Rightarrow> int \<Rightarrow> bool \<Rightarrow> Document \<Rightarrow> TerminalState \<Rightarrow> Screen \<Rightarrow> bool" where
  "inStep wc W H lost d t sc \<longleftrightarrow> showsDocument wc W H d (remoteLine t) sc \<and> \<not> plainMode t \<and>
     outputColor t = wc \<and> scAttr sc = penAttr wc (remoteColor t) \<and>
     0 \<le> remoteColumn t \<and> remoteColumn t \<le> W \<and>
     scX sc = (if remoteColumn t = W then W - 1 else remoteColumn t) \<and> scWrap sc = (remoteColumn t = W) \<and>
     (lineDataValid t \<longrightarrow> int (length (lineData t)) = remoteColumn t \<and>
       (\<forall>j. 0 \<le> j \<and> j < remoteColumn t \<longrightarrow>
         scCells sc ! rowAt W (remoteLine t - firstShown H d) j = shownCell wc (lineData t ! nat j))) \<and>
     (cursorHidden t \<longrightarrow> \<not> scVisible sc) \<and> (\<not> lost \<longrightarrow> scVisible sc = (\<not> cursorHidden t))"

definition stepDraws ::
  "bool \<Rightarrow> int \<Rightarrow> int \<Rightarrow> bool \<Rightarrow> Document \<Rightarrow> TerminalState \<Rightarrow> bool \<Rightarrow> Document \<Rightarrow> TerminalState \<Rightarrow> bool" where
  "stepDraws wc W H lost d t lost' d' t' \<longleftrightarrow> (\<forall>sc. inStep wc W H lost d t sc \<longrightarrow>
     (\<exists>new sc'. sent t' = sent t @ new \<and> draws W H new sc sc' \<and> inStep wc W H lost' d' t' sc'))"

lemma stepDraws_refl [simp]: "stepDraws wc W H lost d t lost d t"
  unfolding stepDraws_def by (metis append_Nil2 draws_Nil)

lemma stepDraws_trans:
  assumes "stepDraws wc W H l d t l1 d1 t1" and "stepDraws wc W H l1 d1 t1 l2 d2 t2"
  shows "stepDraws wc W H l d t l2 d2 t2"
  unfolding stepDraws_def
proof (intro allI impI)
  fix sc assume "inStep wc W H l d t sc"
  then obtain n1 sc1 where 1: "sent t1 = sent t @ n1" "draws W H n1 sc sc1" "inStep wc W H l1 d1 t1 sc1"
    using assms(1) unfolding stepDraws_def by blast
  then obtain n2 sc2 where "sent t2 = sent t1 @ n2" "draws W H n2 sc1 sc2" "inStep wc W H l2 d2 t2 sc2"
    using assms(2) unfolding stepDraws_def by blast
  then show "\<exists>new sc'. sent t2 = sent t @ new \<and> draws W H new sc sc' \<and> inStep wc W H l2 d2 t2 sc'"
    using 1 draws_append by (intro exI [of _ "n1 @ n2"] exI [of _ sc2]) auto
qed

lemma stepDrawsI:
  "(\<And>sc. inStep wc W H l d t sc \<Longrightarrow> \<exists>new sc'. sent t' = sent t @ new \<and> draws W H new sc sc' \<and> inStep wc W H l' d' t' sc') \<Longrightarrow>
   stepDraws wc W H l d t l' d' t'"
  by (simp add: stepDraws_def)

lemma draws_hide: "draws W H (CSI @ ''?25l'') sc (sc\<lparr>scVisible := False\<rparr>)"
  and draws_show: "draws W H (CSI @ ''?25h'') sc (sc\<lparr>scVisible := True\<rparr>)"
  using draws_private [of 25 W H False sc] draws_private [of 25 W H True sc]
  by (simp_all add: privateMode_def decimals)

lemma showsDocument_fields [simp]:
  "showsDocument wc W H d R (sc\<lparr>scVisible := b\<rparr>) = showsDocument wc W H d R sc"
  "showsDocument wc W H d R (sc\<lparr>scAttr := a\<rparr>) = showsDocument wc W H d R sc"
  "showsDocument wc W H d R (sc\<lparr>scWrap := b\<rparr>) = showsDocument wc W H d R sc"
  by (simp_all add: showsDocument_def screenOk_def)

lemma hide_step: "stepDraws wc W H lost d t lost d (hideTerminalCursor t)"
proof (rule stepDrawsI)
  fix sc assume i: "inStep wc W H lost d t sc"
  show "\<exists>new sc'. sent (hideTerminalCursor t) = sent t @ new \<and> draws W H new sc sc' \<and>
      inStep wc W H lost d (hideTerminalCursor t) sc'"
  proof (cases "cursorHidden t")
    case True
    then show ?thesis using i by (intro exI [of _ "[]"] exI [of _ sc]) (simp add: hideTerminalCursor_def)
  next
    case False
    then show ?thesis using i draws_hide
      by (intro exI [of _ "CSI @ ''?25l''"] exI [of _ "sc\<lparr>scVisible := False\<rparr>"])
        (simp add: hideTerminalCursor_def inStep_def outWrite_def)
  qed
qed

text \<open>A move to another line that the screen still shows, or to one below it.\<close>

lemma up_step:
  assumes i: "inStep wc W H lost d t sc" and "line < remoteLine t" and "firstShown H d \<le> line" and "H < 1000"
  shows "\<exists>sc'. draws W H (CR @ CSI @ formatInt (remoteLine t - line) @ ''A'') sc sc' \<and>
    showsDocument wc W H (reachLine line d) line sc' \<and> scX sc' = 0 \<and> \<not> scWrap sc' \<and>
    scAttr sc' = scAttr sc \<and> scVisible sc' = scVisible sc"
proof -
  let ?n = "nat (remoteLine t - line)"
  have s: "showsDocument wc W H d (remoteLine t) sc" using i by (simp add: inStep_def)
  then have y: "scY sc = remoteLine t - firstShown H d" "scY sc < H" "remoteLine t \<le> docMax d"
    by (simp_all add: showsDocument_def screenOk_def)
  have n: "1 \<le> ?n" "?n < 1000" using assms(2-4) y by linarith+
  let ?sc = "sc\<lparr>scX := 0, scY := max 0 (scY sc - int ?n), scWrap := False\<rparr>"
  have "draws W H (CSI @ decimal ?n @ ''A'') (sc\<lparr>scX := 0, scWrap := False\<rparr>)
      ((sc\<lparr>scX := 0, scWrap := False\<rparr>)\<lparr>scY := max 0 (scY sc - int ?n), scWrap := False\<rparr>)"
    using draws_up [OF n, of W H "sc\<lparr>scX := 0, scWrap := False\<rparr>"] by simp
  moreover have "(sc\<lparr>scX := 0, scWrap := False\<rparr>)\<lparr>scY := max 0 (scY sc - int ?n), scWrap := False\<rparr> = ?sc"
    by (cases sc) simp
  moreover have "formatInt (remoteLine t - line) = decimal ?n" using assms(2) by (simp add: formatInt_def)
  ultimately have "draws W H (CR @ CSI @ formatInt (remoteLine t - line) @ ''A'') sc ?sc"
    using draws_append [OF draws_return] by simp
  moreover have "reachLine line d = d" using assms(2) y(3) by (cases d) (simp add: reachLine_def)
  moreover have "max 0 (scY sc - int ?n) = line - firstShown H d" using assms(2, 3) y(1) by simp
  ultimately show ?thesis
    using s assms(2, 3) y by (intro exI [of _ ?sc]) (auto simp: showsDocument_def screenOk_def)
qed

lemma move_step:
  assumes "firstShown H d \<le> line" and "H < 1000"
  shows "stepDraws wc W H lost d t lost (reachLine line d) (moveTerminalToLine line t)"
proof (cases "line = remoteLine t")
  case True
  show ?thesis
  proof (rule stepDrawsI)
    fix sc assume i: "inStep wc W H lost d t sc"
    then have "reachLine line d = d" using True by (cases d) (simp add: inStep_def showsDocument_def reachLine_def)
    then show "\<exists>new sc'. sent (moveTerminalToLine line t) = sent t @ new \<and> draws W H new sc sc' \<and>
        inStep wc W H lost (reachLine line d) (moveTerminalToLine line t) sc'"
      using True i by (intro exI [of _ "[]"] exI [of _ sc]) (simp add: moveTerminalToLine_def)
  qed
next
  case False
  let ?h = "hideTerminalCursor t" and ?m = "moveTerminalToLine line t"
  have "stepDraws wc W H lost d ?h lost (reachLine line d) ?m"
  proof (rule stepDrawsI)
    fix sc assume i: "inStep wc W H lost d ?h sc"
    then have s: "showsDocument wc W H d (remoteLine t) sc" and np: "\<not> plainMode t" by (simp_all add: inStep_def)
    have "\<exists>new sc'. sent ?m = sent ?h @ new \<and> draws W H new sc sc' \<and>
        showsDocument wc W H (reachLine line d) line sc' \<and> scX sc' = 0 \<and> \<not> scWrap sc' \<and>
        scAttr sc' = scAttr sc \<and> scVisible sc' = scVisible sc"
    proof (cases "line < remoteLine t")
      case True
      then have "sent ?m = sent ?h @ CR @ CSI @ formatInt (remoteLine t - line) @ ''A''"
        using np by (simp add: moveTerminalToLine_def Let_def)
      then show ?thesis using up_step [OF i _ assms] True by simp
    next
      case less: False
      let ?k = "nat (line - remoteLine t)"
      obtain sc' where k: "draws W H (concat (replicate ?k CRLF)) sc sc'"
          "showsDocument wc W H (reachLine (remoteLine t + int ?k) d) (remoteLine t + int ?k) sc'"
          "0 < ?k \<longrightarrow> scX sc' = 0 \<and> \<not> scWrap sc'" "scAttr sc' = scAttr sc" "scVisible sc' = scVisible sc"
        by (insert newlines_step [OF s, of ?k], elim exE conjE) (rule that)
      have "sent ?m = sent ?h @ concat (replicate ?k CRLF)"
        using less False by (simp add: moveTerminalToLine_def Let_def forwardToLine_eq)
      moreover have e: "remoteLine t + int ?k = line" "0 < ?k" using less False by simp_all
      moreover have "showsDocument wc W H (reachLine line d) line sc'" using k(2) unfolding e(1) .
      ultimately show ?thesis using k(1, 3-5) by blast
    qed
    then obtain new sc' where n: "sent ?m = sent ?h @ new" "draws W H new sc sc'"
        "showsDocument wc W H (reachLine line d) line sc'" "scX sc' = 0" "\<not> scWrap sc'"
        "scAttr sc' = scAttr sc" "scVisible sc' = scVisible sc" by blast
    have m: "lineData ?m = []" "lineDataValid ?m" "remoteColumn ?m = 0" "cursorHidden ?m = cursorHidden ?h"
      using False by (simp_all add: moveTerminalToLine_def Let_def forwardToLine_eq outWrite_def)
    have "0 < W" using n(3) by (simp add: showsDocument_def screenOk_def)
    then have "inStep wc W H lost (reachLine line d) ?m sc'"
      using i n(3-7) m by (auto simp: inStep_def)
    then show "\<exists>new sc'. sent ?m = sent ?h @ new \<and> draws W H new sc sc' \<and>
        inStep wc W H lost (reachLine line d) ?m sc'" using n(1, 2) by blast
  qed
  then show ?thesis using hide_step stepDraws_trans by blast
qed

lemma restart_step: "stepDraws wc W H lost d t lost d (restartLine t)"
proof (cases "lineDataValid t")
  case True
  then show ?thesis by (simp add: restartLine_def)
next
  case False
  have "stepDraws wc W H lost d (hideTerminalCursor t) lost d (restartLine t)"
  proof (rule stepDrawsI)
    fix sc assume i: "inStep wc W H lost d (hideTerminalCursor t) sc"
    let ?sc = "sc\<lparr>scX := 0, scWrap := False\<rparr>"
    have "inStep wc W H lost d (restartLine t) ?sc"
      using i False by (auto simp: inStep_def restartLine_def Let_def showsDocument_def screenOk_def outWrite_def)
    then show "\<exists>new sc'. sent (restartLine t) = sent (hideTerminalCursor t) @ new \<and> draws W H new sc sc' \<and>
        inStep wc W H lost d (restartLine t) sc'"
      using i False draws_return [of W H sc]
      by (intro exI [of _ CR] exI [of _ ?sc]) (simp add: restartLine_def Let_def inStep_def)
  qed
  then show ?thesis using hide_step stepDraws_trans by blast
qed

text \<open>The cursor is shown at a column of a line: the two parts of \<open>showTerminalCursor\<close>.\<close>

definition toColumn :: "int \<Rightarrow> TerminalState \<Rightarrow> TerminalState" where
  "toColumn column t =
    (if remoteColumn t \<noteq> column then
       (outWrite (CSI @ formatInt (column + 1) @ ''G'') t)
         \<lparr>lineDataValid := (column = 0), lineData := [], remoteColumn := column\<rparr>
     else t)"

definition unhide :: "TerminalState \<Rightarrow> TerminalState" where
  "unhide t = (if cursorHidden t then (outWrite (CSI @ ''?25h'') t)\<lparr>cursorHidden := False\<rparr> else t)"

lemma showTerminalCursor_parts:
  "\<not> plainMode t \<Longrightarrow>
   showTerminalCursor column line t = unhide (toColumn column (moveTerminalToLine line t))"
  by (simp only: showTerminalCursor_def Let_def move_simps simp_thms if_True if_False toColumn_def unhide_def)

lemma column_step:
  assumes "0 \<le> column" and "column < W" and "W < 1000"
  shows "stepDraws wc W H lost d t lost d (toColumn column t)"
proof (cases "remoteColumn t = column")
  case False
  show ?thesis
  proof (rule stepDrawsI)
    fix sc assume i: "inStep wc W H lost d t sc"
    let ?sc = "sc\<lparr>scX := column, scWrap := False\<rparr>"
    have "draws W H (CSI @ formatInt (column + 1) @ ''G'') sc ?sc"
      using draws_column [of "nat (column + 1)" W H sc] assms(1-3) by (simp add: formatInt_def nat_add_distrib)
    moreover have "inStep wc W H lost d (toColumn column t) ?sc"
      using i assms(1, 2) False by (auto simp: inStep_def showsDocument_def screenOk_def toColumn_def)
    ultimately show "\<exists>new sc'. sent (toColumn column t) = sent t @ new \<and> draws W H new sc sc' \<and>
        inStep wc W H lost d (toColumn column t) sc'"
      using False by (intro exI [of _ "CSI @ formatInt (column + 1) @ ''G''"] exI [of _ ?sc]) (simp add: toColumn_def)
  qed
qed (simp add: toColumn_def)

lemma unhide_step: "stepDraws wc W H lost d t lost d (unhide t)"
proof (cases "cursorHidden t")
  case True
  show ?thesis
  proof (rule stepDrawsI)
    fix sc assume i: "inStep wc W H lost d t sc"
    then have "inStep wc W H lost d (unhide t) (sc\<lparr>scVisible := True\<rparr>)"
      using True by (simp add: inStep_def unhide_def)
    then show "\<exists>new sc'. sent (unhide t) = sent t @ new \<and> draws W H new sc sc' \<and> inStep wc W H lost d (unhide t) sc'"
      using draws_show [of W H sc] True
      by (intro exI [of _ "CSI @ ''?25h''"] exI [of _ "sc\<lparr>scVisible := True\<rparr>"]) (simp add: unhide_def)
  qed
qed (simp add: unhide_def)

lemma show_step:
  assumes "0 \<le> column" "column < W" "W < 1000" "H < 1000" "firstShown H d \<le> line" "\<not> plainMode t"
  shows "stepDraws wc W H lost d t lost (reachLine line d) (showTerminalCursor column line t)"
  unfolding showTerminalCursor_parts [OF assms(6)]
  by (rule stepDraws_trans [OF move_step [OF assms(5, 4)] stepDraws_trans [OF column_step [OF assms(1-3)] unhide_step]])

lemma mouse_draws:
  "draws W H (CSI @ ''?1005l'') sc sc" "draws W H (CSI @ ''?1000h'') sc sc"
  "draws W H (CSI @ ''?1002h'') sc sc" "draws W H (CSI @ ''?1003h'') sc sc"
  "draws W H (CSI @ ''?1015h'') sc sc" "draws W H (CSI @ ''?1006h'') sc sc"
  "draws W H (CSI @ ''?1006l'') sc sc" "draws W H (CSI @ ''?1015l'') sc sc"
  "draws W H (CSI @ ''?1003l'') sc sc" "draws W H (CSI @ ''?1002l'') sc sc"
  "draws W H (CSI @ ''?1000l'') sc sc"
  using draws_private [of 1005 W H False sc] draws_private [of 1000 W H True sc]
    draws_private [of 1002 W H True sc] draws_private [of 1003 W H True sc]
    draws_private [of 1015 W H True sc] draws_private [of 1006 W H True sc]
    draws_private [of 1006 W H False sc] draws_private [of 1015 W H False sc]
    draws_private [of 1003 W H False sc] draws_private [of 1002 W H False sc]
    draws_private [of 1000 W H False sc]
  by (simp_all add: privateMode_def decimals)

lemma mouse_on_draws:
  "draws W H (CSI @ ''?1005l'' @ CSI @ ''?1000h'' @ CSI @ ''?1002h'' @ CSI @ ''?1003h'' @
     CSI @ ''?1015h'' @ CSI @ ''?1006h'') sc sc"
  using draws_append [OF mouse_draws(1) draws_append [OF mouse_draws(2) draws_append [OF mouse_draws(3)
    draws_append [OF mouse_draws(4) draws_append [OF mouse_draws(5) mouse_draws(6)]]]]]
  by simp

lemma mouse_off_draws:
  "draws W H (CSI @ ''?1006l'' @ CSI @ ''?1015l'' @ CSI @ ''?1003l'' @ CSI @ ''?1002l'' @
     CSI @ ''?1000l'') sc sc"
  using draws_append [OF mouse_draws(7) draws_append [OF mouse_draws(8) draws_append [OF mouse_draws(9)
    draws_append [OF mouse_draws(10) mouse_draws(11)]]]]
  by simp

lemma mouse_step: "stepDraws wc W H lost d t lost d (enableMouseMode b t)"
proof (cases "mouseModeEnabled t = b \<or> plainMode t")
  case False
  show ?thesis
  proof (rule stepDrawsI)
    fix sc assume i: "inStep wc W H lost d t sc"
    then have "inStep wc W H lost d (enableMouseMode b t) sc"
      by (simp add: inStep_def enableMouseMode_def Let_def)
    then show "\<exists>new sc'. sent (enableMouseMode b t) = sent t @ new \<and> draws W H new sc sc' \<and>
        inStep wc W H lost d (enableMouseMode b t) sc'"
      using False mouse_on_draws [of W H sc] mouse_off_draws [of W H sc]
      by (cases b) (auto simp: enableMouseMode_def Let_def)
  qed
qed (simp add: enableMouseMode_def)

text \<open>
  A reset clears the screen and begins a new document. The cursor that was hidden before stays
  hidden, although \<open>m_cursorHidden\<close> says that it is shown.
\<close>

lemma reset_draws:
  assumes "\<forall>c \<in> set (scCells sc). \<not> continuation c" and "1 \<le> W" and "1 \<le> H"
  shows "draws W H (CSI @ ''0m'' @ CSI @ ''1;1H'' @ CSI @ ''2J'') sc
    (eraseScreen 0 (length (scCells sc)) (sc\<lparr>scAttr := 7, scX := 0, scY := 0, scWrap := False\<rparr>))"
proof -
  have "draws W H (CSI @ joinNumbers [0] @ ''m'') sc (sc\<lparr>scAttr := 7\<rparr>)"
  proof (rule draws_csi)
    fix v :: VtState
    assume dims: "vtWidth v = W" "vtHeight v = H" and p: "parameters v = Some (False, map int [0])"
    have "attributes (v\<lparr>vtForeground := 7, vtBackground := 0, vtBold := False, vtInverse := False,
        vtUnderline := False, vtConceal := False, vtState := StText\<rparr>) = 7"
      by (simp add: attributes_def ansiToWindows_def Let_def)
    then show "\<exists>v'. csi (CHR ''m'') v = Some v' \<and> vtRemaining v' = vtRemaining v \<and>
        vtWidth v' = W \<and> vtHeight v' = H \<and>
        (sees W H (v\<lparr>vtState := StText\<rparr>) sc \<longrightarrow> sees W H (v'\<lparr>vtState := StText\<rparr>) (sc\<lparr>scAttr := 7\<rparr>))"
      using p dims by (simp add: csi_def sgr_def sgrValue_def sees_def)
  qed (simp_all add: finalChar_def of_char_def decimals)
  then have "draws W H (CSI @ ''0m'') sc (sc\<lparr>scAttr := 7\<rparr>)" by (simp add: decimals)
  moreover have "draws W H (CSI @ ''1;1H'') (sc\<lparr>scAttr := 7\<rparr>) (sc\<lparr>scAttr := 7, scX := 0, scY := 0, scWrap := False\<rparr>)"
    using draws_home [OF assms(2, 3)] by simp
  moreover have "draws W H (CSI @ ''2J'') (sc\<lparr>scAttr := 7, scX := 0, scY := 0, scWrap := False\<rparr>)
      (eraseScreen 0 (length (scCells sc)) (sc\<lparr>scAttr := 7, scX := 0, scY := 0, scWrap := False\<rparr>))"
    using draws_clear [of "sc\<lparr>scAttr := 7, scX := 0, scY := 0, scWrap := False\<rparr>"] assms(1) by simp
  ultimately have "draws W H ((CSI @ ''0m'') @ ((CSI @ ''1;1H'') @ (CSI @ ''2J''))) sc
      (eraseScreen 0 (length (scCells sc)) (sc\<lparr>scAttr := 7, scX := 0, scY := 0, scWrap := False\<rparr>))"
    by (blast intro: draws_append)
  then show ?thesis by simp
qed

lemma reset_step:
  "stepDraws wc W H lost d t (lost \<or> cursorHidden t) (emptyDocument n) (resetTerminal SendClear n t)"
proof (rule stepDrawsI)
  fix sc assume i: "inStep wc W H lost d t sc"
  then have ok: "screenOk W H sc" by (simp add: inStep_def showsDocument_def)
  then have dims: "1 \<le> W" "1 \<le> H" and plain: "\<forall>c \<in> set (scCells sc). \<not> continuation c"
    by (simp_all add: screenOk_def)
  let ?sc = "eraseScreen 0 (length (scCells sc)) (sc\<lparr>scAttr := 7, scX := 0, scY := 0, scWrap := False\<rparr>)"
  have "screenOk W H ?sc" using ok dims by (simp add: screenOk_def eraseScreen_def)
  then have "showsDocument wc W H (emptyDocument n) n ?sc"
    using dims by (simp add: showsDocument_def showsLines_def emptyDocument_def firstShown_def eraseScreen_def)
  then have "inStep wc W H (lost \<or> cursorHidden t) (emptyDocument n) (resetTerminal SendClear n t) ?sc"
    using i dims by (auto simp: inStep_def resetTerminal_def Let_def penAttr_def eraseScreen_def)
  then show "\<exists>new sc'. sent (resetTerminal SendClear n t) = sent t @ new \<and> draws W H new sc sc' \<and>
      inStep wc W H (lost \<or> cursorHidden t) (emptyDocument n) (resetTerminal SendClear n t) sc'"
    using reset_draws [OF plain dims] i
    by (intro exI [of _ "CSI @ ''0m'' @ CSI @ ''1;1H'' @ CSI @ ''2J''"] exI [of _ ?sc])
      (simp add: resetTerminal_def Let_def inStep_def)
qed

section \<open>Sending a line shows it\<close>

text \<open>The whole row is drawn: what the loop kept back is what erasing leaves.\<close>

lemma loopDraws_row:
  assumes l: "loopDraws wc W H data cs0 y vis sc0 W s"
    and simple: "\<forall>j. 0 \<le> j \<and> j < W \<longrightarrow> simpleCell (data ! nat j)"
  shows "\<exists>sc'. draws W H (take (trimmedLineLength s) (termLine s) @ (if alreadyErasedLine s then [] else CSI @ ''0K'')) sc0 sc' \<and>
    atCell wc W H data cs0 y vis (trimmedCellCount s) (sentColor s) sc' \<and>
    (\<forall>j. 0 \<le> j \<and> j < W \<longrightarrow> scCells sc' ! rowAt W y j = shownCell wc (data ! nat j))"
proof -
  let ?k = "trimmedCellCount s"
  obtain sc where sc: "draws W H (take (trimmedLineLength s) (termLine s)) sc0 sc"
      "atCell wc W H data cs0 y vis ?k (sentColor s) sc"
    and k: "?k \<le> W" "alreadyErasedLine s \<longleftrightarrow> ?k = W"
    and blank: "\<forall>j. ?k \<le> j \<and> j < W \<longrightarrow> blankCell wc (sentColor s) (data ! nat j)"
    using l unfolding loopDraws_def Let_def by blast
  show ?thesis
  proof (cases "alreadyErasedLine s")
    case True
    then have "?k = W" using k(2) by simp
    then have "\<forall>j. 0 \<le> j \<and> j < W \<longrightarrow> scCells sc ! rowAt W y j = shownCell wc (data ! nat j)"
      using sc(2) by (simp add: atCell_def)
    then show ?thesis using sc True by (intro exI [of _ sc]) simp
  next
    case False
    then have kW: "?k < W" using k by simp
    obtain sc' where sc': "draws W H (CSI @ ''0K'') sc sc'" "atCell wc W H data cs0 y vis ?k (sentColor s) sc'"
        "\<forall>j. ?k \<le> j \<and> j < W \<longrightarrow> scCells sc' ! rowAt W y j =
           \<lparr>vtText = [0x20], vtAttributes = penAttr wc (sentColor s), continuation = False\<rparr>"
      using atCell_erase [OF sc(2) kW] by blast
    have "scCells sc' ! rowAt W y j = shownCell wc (data ! nat j)" if j: "0 \<le> j" "j < W" for j
    proof (cases "j < ?k")
      case True
      then show ?thesis using sc'(2) j by (simp add: atCell_def)
    next
      case False
      then have "blankCell wc (sentColor s) (data ! nat j)" using blank j by simp
      then show ?thesis
        using sc'(3) False j
        by (cases wc) (simp_all add: blankCell_def shownCell_def fixSpecialCharacters_def)
    qed
    then show ?thesis using draws_append [OF sc(1) sc'(1)] sc'(2) False by (intro exI [of _ sc']) simp
  qed
qed

text \<open>A screen that shows the document but for one row, in which another line has been drawn.\<close>

definition writeLine :: "int \<Rightarrow> CHAR_INFO list \<Rightarrow> Document \<Rightarrow> Document" where
  "writeLine line data d = (reachLine line d)\<lparr>docLines := (docLines d)(line \<mapsto> data)\<rparr>"

lemma showsDocument_row:
  assumes s: "showsDocument wc W H d line sc"
    and at: "atCell wc W H data (scCells sc) (scY sc) vis n col sc'"
    and row: "\<forall>j. 0 \<le> j \<and> j < W \<longrightarrow> scCells sc' ! rowAt W (scY sc) j = shownCell wc (data ! nat j)"
  shows "showsDocument wc W H (writeLine line data d) line sc'"
proof -
  let ?d = "writeLine line data d"
  have max: "line \<le> docMax d" and y: "scY sc = line - firstShown H d" and H: "scY sc < H" "0 \<le> scY sc"
    using s by (simp_all add: showsDocument_def screenOk_def)
  have d: "firstShown H ?d = firstShown H d" "docMax ?d = docMax d" "docBase ?d = docBase d"
    using max by (simp_all add: writeLine_def reachLine_def firstShown_def max_absorb1)
  have "showsLines wc W H ?d (scCells sc')"
    unfolding showsLines_def d
  proof (intro allI impI)
    fix L cells assume L: "docLines ?d L = Some cells"
    show "L \<le> docMax d \<and> (firstShown H d \<le> L \<longrightarrow> (\<forall>j. 0 \<le> j \<and> j < W \<longrightarrow>
        scCells sc' ! rowAt W (L - firstShown H d) j = shownCell wc (cells ! nat j)))"
    proof (cases "L = line")
      case True
      then show ?thesis using L max row y by (simp add: writeLine_def)
    next
      case False
      then have old: "docLines d L = Some cells" using L by (simp add: writeLine_def)
      then have le: "L \<le> docMax d" using s by (simp add: showsDocument_def showsLines_def)
      have "scCells sc' ! rowAt W (L - firstShown H d) j = shownCell wc (cells ! nat j)"
        if f: "firstShown H d \<le> L" and j: "0 \<le> j \<and> j < W" for j
      proof -
        have "L - firstShown H d < H" using le H by (simp add: firstShown_def max_def)
        moreover have "L - firstShown H d \<noteq> scY sc" using y False by simp
        ultimately have "scCells sc' ! rowAt W (L - firstShown H d) j = scCells sc ! rowAt W (L - firstShown H d) j"
          using at f j by (simp add: atCell_def)
        then show ?thesis using s old f j by (simp add: showsDocument_def showsLines_def)
      qed
      then show ?thesis using le by blast
    qed
  qed
  moreover have "docBase d \<le> docMax d" "firstShown H d \<le> line" using s by (simp_all add: showsDocument_def)
  ultimately show ?thesis using at max y d by (simp add: showsDocument_def atCell_def)
qed

text \<open>What may be appended to: the remembered cells are a proper prefix of the line.\<close>

definition appendable :: "int \<Rightarrow> CHAR_INFO list \<Rightarrow> TerminalState \<Rightarrow> bool" where
  "appendable W data t \<longleftrightarrow> lineDataValid t \<and> int (length (lineData t)) < W \<and>
     lineData t = take (length (lineData t)) data"

lemma check_step:
  assumes "checkReuse data W t = Some t1" and "1 \<le> W" and "\<not> plainMode t"
  shows "stepDraws wc W H lost d t lost d t1 \<and> (lineDataValid t1 \<longrightarrow> appendable W data t1)"
proof (cases "t1 = t")
  case True
  have "lineDataValid t \<longrightarrow> appendable W data t"
  proof
    assume v: "lineDataValid t"
    then have len: "int (length (lineData t)) = remoteColumn t"
      using assms(1) by (auto simp: checkReuse_def ASSERT_bind_Some)
    show "appendable W data t"
    proof (cases "remoteColumn t > 0")
      case pos: True
      have "t1 = (if \<not> W > int (length (lineData t)) \<or> lineData t \<noteq> take (length (lineData t)) data
          then t\<lparr>lineDataValid := False\<rparr> else t)"
        using assms(1, 3) v pos len unfolding checkReuse_def by (auto split: if_splits)
      moreover have "t\<lparr>lineDataValid := False\<rparr> \<noteq> t" using v by (cases t) simp
      ultimately show ?thesis using True v by (auto simp: appendable_def split: if_splits)
    next
      case False
      then have "length (lineData t) = 0" using len by linarith
      then show ?thesis using v assms(2) by (simp add: appendable_def)
    qed
  qed
  then show ?thesis using True by simp
next
  case False
  then have t1: "t1 = t\<lparr>lineDataValid := False\<rparr>"
    using assms(1) by (auto simp: checkReuse_def ASSERT_bind_Some split: if_splits)
  have "stepDraws wc W H lost d t lost d t1"
    by (rule stepDrawsI, rule exI [of _ "[]"]) (auto simp: t1 inStep_def intro!: exI)
  then show ?thesis by (simp add: t1)
qed

lemma restart_appendable:
  assumes "lineDataValid t \<longrightarrow> appendable W data t" and "1 \<le> W"
  shows "appendable W data (restartLine t)"
  using assms by (auto simp: restartLine_def appendable_def Let_def)

lemma loopDraws_start:
  assumes i: "inStep wc W H lost d t sc" and a: "appendable W data t" and len: "nat W \<le> length data"
  shows "loopDraws wc W H data (scCells sc) (scY sc) (scVisible sc) sc (int (length (lineData t)))
    \<lparr>termLine = [], trimmedLineLength = 0, trimmedCellCount = int (length (lineData t)),
     alreadyErasedLine = False, sentColor = remoteColor t\<rparr>"
proof -
  let ?n = "length (lineData t)"
  have v: "lineDataValid t" "int ?n < W" "lineData t = take ?n data" using a by (simp_all add: appendable_def)
  then have col: "remoteColumn t = int ?n" using i by (simp add: inStep_def)
  have y: "scY sc = remoteLine t - firstShown H d" using i by (simp add: inStep_def showsDocument_def)
  have "scCells sc ! rowAt W (scY sc) j = shownCell wc (data ! nat j)" if j: "0 \<le> j \<and> j < int ?n" for j
  proof -
    have "lineData t ! nat j = data ! nat j"
      using v(3) j by (metis nat_less_iff nth_take)
    moreover have "scCells sc ! rowAt W (scY sc) j = shownCell wc (lineData t ! nat j)"
      using i v(1) j col y by (simp add: inStep_def)
    ultimately show ?thesis by simp
  qed
  moreover have "screenOk W H sc" using i by (simp add: inStep_def showsDocument_def)
  ultimately have "atCell wc W H data (scCells sc) (scY sc) (scVisible sc) (int ?n) (remoteColor t) sc"
    using i v(2) col by (auto simp: atCell_def inStep_def screenOk_def)
  then show ?thesis using v(2) unfolding loopDraws_def Let_def by (auto intro!: exI [of _ sc])
qed

text \<open>The output of the line, once the cursor has been hidden where that is needed.\<close>

lemma output_step:
  assumes i: "inStep wc W H lost d t sc" and a: "appendable W data t" and len: "nat W \<le> length data"
    and simple: "\<forall>j. 0 \<le> j \<and> j < W \<longrightarrow> simpleCell (data ! nat j)"
    and loop: "sendLoop False wc data W (int (length (lineData t)))
      \<lparr>termLine = [], trimmedLineLength = 0, trimmedCellCount = int (length (lineData t)),
       alreadyErasedLine = False, sentColor = remoteColor t\<rparr> = Some s"
    and t': "t' = t\<lparr>sent := sent t @ take (trimmedLineLength s) (termLine s) @
         (if alreadyErasedLine s then [] else CSI @ ''0K''),
       remoteColor := sentColor s, lineData := take (nat (trimmedCellCount s)) data,
       remoteColumn := trimmedCellCount s\<rparr>"
  shows "\<exists>new sc'. sent t' = sent t @ new \<and> draws W H new sc sc' \<and>
    inStep wc W H lost (writeLine (remoteLine t) data d) t' sc'"
proof -
  let ?k = "trimmedCellCount s"
  let ?new = "take (trimmedLineLength s) (termLine s) @ (if alreadyErasedLine s then [] else CSI @ ''0K'')"
  have v: "int (length (lineData t)) < W" using a by (simp add: appendable_def)
  have "loopDraws wc W H data (scCells sc) (scY sc) (scVisible sc) sc W s"
    by (rule sendLoop_draws [OF loop loopDraws_start [OF i a len]]) (use v simple len in simp_all)
  then obtain sc' where sc': "draws W H ?new sc sc'"
      "atCell wc W H data (scCells sc) (scY sc) (scVisible sc) ?k (sentColor s) sc'"
      "\<forall>j. 0 \<le> j \<and> j < W \<longrightarrow> scCells sc' ! rowAt W (scY sc) j = shownCell wc (data ! nat j)"
    using loopDraws_row [OF _ simple] by blast
  have s: "showsDocument wc W H d (remoteLine t) sc" using i by (simp add: inStep_def)
  then have y: "scY sc = remoteLine t - firstShown H d" and max: "remoteLine t \<le> docMax d"
    by (simp_all add: showsDocument_def)
  have first: "firstShown H (writeLine (remoteLine t) data d) = firstShown H d"
    using max by (simp add: writeLine_def reachLine_def firstShown_def max_absorb1)
  have k: "0 \<le> ?k" "?k \<le> W" using sc'(2) by (simp_all add: atCell_def)
  then have "length (take (nat ?k) data) = nat ?k" using len by simp
  moreover have "scCells sc' ! rowAt W (scY sc) j = shownCell wc (take (nat ?k) data ! nat j)"
    if "0 \<le> j \<and> j < ?k" for j
    using sc'(2) that by (simp add: atCell_def)
  ultimately have "inStep wc W H lost (writeLine (remoteLine t) data d) t' sc'"
    using showsDocument_row [OF s sc'(2, 3)] i sc'(2) k y first
    by (simp add: inStep_def t' atCell_def)
  moreover have "sent t' = sent t @ ?new" by (simp add: t')
  ultimately show ?thesis using sc'(1) by blast
qed

lemma outputLine_eq:
  "\<not> plainMode t \<Longrightarrow>
   outputLine c s (t\<lparr>remoteColor := x\<rparr>) =
     (let h = (if c \<noteq> - 1 \<and> trimmedCellCount s > c then hideTerminalCursor t else t)
      in h\<lparr>sent := sent h @ take (trimmedLineLength s) (termLine s) @
           (if alreadyErasedLine s then [] else CSI @ ''0K''), remoteColor := x\<rparr>)"
  by (cases t) (simp add: outputLine_def Let_def outWrite_def hideTerminalCursor_def)

lemma sendLine_parts:
  assumes "sendLine line data W c t = Some t'"
  shows "\<exists>t1 s. 1 \<le> W \<and> checkReuse data W (moveTerminalToLine line t) = Some t1 \<and>
    (let t2 = restartLine t1 in
     sendLoop (plainMode t2) (outputColor t2) data W (int (length (lineData t2)))
       \<lparr>termLine = [], trimmedLineLength = 0, trimmedCellCount = int (length (lineData t2)),
        alreadyErasedLine = False, sentColor = remoteColor t2\<rparr> = Some s \<and>
     t' = (outputLine c s (t2\<lparr>remoteColor := sentColor s\<rparr>))
       \<lparr>lineData := lineData t2 @ take (nat (trimmedCellCount s) - length (lineData t2)) (drop (length (lineData t2)) data),
        remoteColumn := trimmedCellCount s\<rparr>)"
  using assms
  by (auto simp: sendLine_def Option.bind_eq_Some_conv ASSERT_bind_Some checkedNarrow_eq Let_def
      split: if_splits)

lemma sendLine_step:
  assumes run: "sendLine line data W c t = Some t'" and np: "\<not> plainMode t"
    and line: "firstShown H d \<le> line" and H: "H < 1000" and len: "nat W \<le> length data"
    and simple: "\<forall>j. 0 \<le> j \<and> j < W \<longrightarrow> simpleCell (data ! nat j)"
  shows "stepDraws wc W H lost d t lost (writeLine line data d) t'"
proof -
  have eq: "writeLine line data (reachLine line d) = writeLine line data d"
    by (simp add: writeLine_def reachLine_def)
  let ?m = "moveTerminalToLine line t" and ?d = "reachLine line d"
  obtain t1 s where W: "1 \<le> W" and t1: "checkReuse data W ?m = Some t1" and
    run2: "let t2 = restartLine t1 in
     sendLoop (plainMode t2) (outputColor t2) data W (int (length (lineData t2)))
       \<lparr>termLine = [], trimmedLineLength = 0, trimmedCellCount = int (length (lineData t2)),
        alreadyErasedLine = False, sentColor = remoteColor t2\<rparr> = Some s \<and>
     t' = (outputLine c s (t2\<lparr>remoteColor := sentColor s\<rparr>))
       \<lparr>lineData := lineData t2 @ take (nat (trimmedCellCount s) - length (lineData t2)) (drop (length (lineData t2)) data),
        remoteColumn := trimmedCellCount s\<rparr>"
    using sendLine_parts [OF run] by blast
  have npm: "\<not> plainMode ?m" using np by simp
  note check = check_step [OF t1 W npm, of wc H lost ?d]
  define t2 where "t2 = restartLine t1"
  have a: "appendable W data t2" unfolding t2_def using restart_appendable [OF _ W] check by blast
  have to2: "stepDraws wc W H lost d t lost ?d t2"
    unfolding t2_def
    by (rule stepDraws_trans [OF move_step [OF line H] stepDraws_trans [OF conjunct1 [OF check] restart_step]])
  have fields: "remoteLine t2 = line" "\<not> plainMode t2"
    using t1 np by (auto simp: t2_def checkReuse_def ASSERT_bind_Some split: if_splits)
  have s: "sendLoop False (outputColor t2) data W (int (length (lineData t2)))
      \<lparr>termLine = [], trimmedLineLength = 0, trimmedCellCount = int (length (lineData t2)),
       alreadyErasedLine = False, sentColor = remoteColor t2\<rparr> = Some s"
    using run2 fields(2) unfolding t2_def Let_def by simp
  have "int (length (lineData t2)) \<le> trimmedCellCount s"
    using sendLoop_result [of "int (length (lineData t2))" W data
        "\<lparr>termLine = [], trimmedLineLength = 0, trimmedCellCount = int (length (lineData t2)),
         alreadyErasedLine = False, sentColor = remoteColor t2\<rparr>" "outputColor t2" False] s a len
    by (auto simp: appendable_def)
  then have "lineData t2 @ take (nat (trimmedCellCount s) - length (lineData t2)) (drop (length (lineData t2)) data) =
      take (nat (trimmedCellCount s)) data"
    using a unfolding appendable_def by (metis le_add_diff_inverse nat_int nat_mono take_add)
  then have t': "t' = (outputLine c s (t2\<lparr>remoteColor := sentColor s\<rparr>))
       \<lparr>lineData := take (nat (trimmedCellCount s)) data, remoteColumn := trimmedCellCount s\<rparr>"
    using run2 unfolding t2_def Let_def by simp
  define h where "h = (if c \<noteq> - 1 \<and> trimmedCellCount s > c then hideTerminalCursor t2 else t2)"
  have "stepDraws wc W H lost ?d t2 lost ?d h" using hide_step by (simp add: h_def)
  moreover have "stepDraws wc W H lost ?d h lost (writeLine line data ?d) t'"
  proof (rule stepDrawsI)
    fix sc assume i: "inStep wc W H lost ?d h sc"
    have hf: "appendable W data h" "remoteLine h = line" "lineData h = lineData t2"
        "remoteColor h = remoteColor t2" "outputColor h = outputColor t2"
      using a fields by (simp_all add: h_def appendable_def)
    have wc: "outputColor h = wc" using i by (simp add: inStep_def)
    have loop: "sendLoop False wc data W (int (length (lineData h)))
        \<lparr>termLine = [], trimmedLineLength = 0, trimmedCellCount = int (length (lineData h)),
         alreadyErasedLine = False, sentColor = remoteColor h\<rparr> = Some s"
      using s hf(3-5) wc by simp
    have "\<exists>new sc'. sent t' = sent h @ new \<and> draws W H new sc sc' \<and>
        inStep wc W H lost (writeLine (remoteLine h) data ?d) t' sc'"
      by (rule output_step [OF i hf(1) len simple loop])
        (simp add: t' outputLine_eq [OF fields(2)] Let_def flip: h_def)
    then show "\<exists>new sc'. sent t' = sent h @ new \<and> draws W H new sc sc' \<and>
        inStep wc W H lost (writeLine line data ?d) t' sc'" unfolding hf(2) .
  qed
  ultimately have "stepDraws wc W H lost d t lost (writeLine line data ?d) t'"
    by (rule stepDraws_trans [OF stepDraws_trans [OF to2]])
  then show ?thesis unfolding eq .
qed

section \<open>Colours\<close>

text \<open>A colour is shown as it is unless its background is white or its two halves are exchanged.\<close>

lemma shownColour_all:
  "list_all (\<lambda>n. drop_bit 4 (of_nat n :: u16) = 15 \<or>
     shownColour (of_nat n) = of_nat n \<and> shownColour (0x8000 OR of_nat n) = 0x8000 OR of_nat n) [0..<256]"
  by code_simp

lemma shownColour_same:
  assumes "c < 0x100" and "drop_bit 4 c \<noteq> 15"
  shows "shownColour c = c" and "shownColour (0x8000 OR c) = 0x8000 OR c"
proof -
  have "unat c \<in> set [0..<256]" using assms(1) by (simp add: word_less_nat_alt)
  moreover have "of_nat (unat c) = c" by simp
  ultimately show "shownColour c = c" "shownColour (0x8000 OR c) = 0x8000 OR c"
    using shownColour_all assms(2) unfolding list_all_iff by metis+
qed

section \<open>Sessions\<close>

text \<open>
  What a call means for the document, and when the terminal can show it: the line is not above
  the screen, it has the width of the screen and its cells are simple.
\<close>

fun specOp :: "TerminalOp \<Rightarrow> Document \<Rightarrow> Document" where
  "specOp (OpReset f n) d = emptyDocument n"
| "specOp (OpSendLine line data width c) d = writeLine line data d"
| "specOp (OpShowCursor column line) d = reachLine line d"
| "specOp OpHideCursor d = d"
| "specOp (OpMouseMode b) d = d"

fun opVisible :: "int \<Rightarrow> int \<Rightarrow> Document \<Rightarrow> TerminalOp \<Rightarrow> bool" where
  "opVisible W H d (OpReset f n) \<longleftrightarrow> f = SendClear"
| "opVisible W H d (OpSendLine line data width c) \<longleftrightarrow> width = W \<and> nat W \<le> length data \<and>
     list_all simpleCell (take (nat W) data) \<and> firstShown H d \<le> line"
| "opVisible W H d (OpShowCursor column line) \<longleftrightarrow> 0 \<le> column \<and> column < W \<and> firstShown H d \<le> line"
| "opVisible W H d OpHideCursor \<longleftrightarrow> True"
| "opVisible W H d (OpMouseMode b) \<longleftrightarrow> True"

fun visibleOps :: "int \<Rightarrow> int \<Rightarrow> TerminalOp list \<Rightarrow> Document \<Rightarrow> bool" where
  "visibleOps W H [] d \<longleftrightarrow> True"
| "visibleOps W H (oper # opers) d \<longleftrightarrow> opVisible W H d oper \<and> visibleOps W H opers (specOp oper d)"

fun isReset :: "TerminalOp \<Rightarrow> bool" where
  "isReset (OpReset f n) \<longleftrightarrow> True"
| "isReset _ \<longleftrightarrow> False"

lemma visible_opOk: "opVisible W H d oper \<Longrightarrow> 1 \<le> W \<Longrightarrow> W < 1000 \<Longrightarrow> opOk oper"
  by (cases oper) simp_all

lemma visible_step:
  assumes vis: "opVisible W H d oper" and dims: "W < 1000" "H < 1000" and run: "runOp oper t = Some t'"
    and np: "\<not> plainMode t"
  shows "(\<exists>lost'. stepDraws wc W H lost d t lost' (specOp oper d) t' \<and> (\<not> isReset oper \<longrightarrow> lost' = lost)) \<and>
    \<not> plainMode t'"
proof (cases oper)
  case (OpReset f n)
  then have f: "f = SendClear" and t': "t' = resetTerminal f n t" using vis run by simp_all
  have "\<not> plainMode t'" using np by (simp add: t' resetTerminal_def Let_def)
  moreover have "stepDraws wc W H lost d t (lost \<or> cursorHidden t) (specOp oper d) t'"
    using OpReset f t' reset_step by simp
  moreover have "isReset oper" using OpReset by simp
  ultimately show ?thesis by blast
next
  case (OpSendLine line data width c)
  then have w: "width = W" "nat W \<le> length data" "list_all simpleCell (take (nat W) data)" "firstShown H d \<le> line"
    and r: "sendLine line data W c t = Some t'" using vis run by simp_all
  have "\<forall>j. 0 \<le> j \<and> j < W \<longrightarrow> simpleCell (data ! nat j)"
  proof (intro allI impI)
    fix j assume j: "0 \<le> j \<and> j < W"
    then have "nat j < length (take (nat W) data)" using w(2) by simp
    then have "simpleCell (take (nat W) data ! nat j)" using w(3) by (metis list_all_length)
    then show "simpleCell (data ! nat j)" using j by simp
  qed
  then have "stepDraws wc W H lost d t lost (writeLine line data d) t'"
    by (rule sendLine_step [OF r np w(4) dims(2) w(2)])
  moreover have "\<not> plainMode t'"
    using sendLine_parts [OF r] np
    by (auto simp: Let_def checkReuse_def ASSERT_bind_Some split: if_splits)
  ultimately show ?thesis using OpSendLine by auto
next
  case (OpShowCursor column line)
  then have c: "0 \<le> column" "column < W" "firstShown H d \<le> line" and t': "t' = showTerminalCursor column line t"
    using vis run by simp_all
  have "stepDraws wc W H lost d t lost (reachLine line d) t'"
    unfolding t' by (rule show_step [OF c(1, 2) dims c(3) np])
  moreover have "\<not> plainMode t'" using np by (simp add: t' showTerminalCursor_def Let_def)
  ultimately show ?thesis using OpShowCursor by auto
next
  case (OpMouseMode b)
  then have t': "t' = enableMouseMode b t" using run by simp
  have "\<not> plainMode t'" using np by (simp add: t' enableMouseMode_def Let_def)
  then show ?thesis using OpMouseMode mouse_step t' by auto
qed (use run np hide_step in auto)

lemma visible_session:
  assumes "visibleOps W H opers d" and "1 \<le> W" "W < 1000" "H < 1000" and "termInv t" and "\<not> plainMode t"
  shows "\<exists>t' lost'. foreach runOp opers t = Some t' \<and> stepDraws wc W H lost d t lost' (fold specOp opers d) t' \<and>
    (list_all (\<lambda>oper. \<not> isReset oper) opers \<longrightarrow> lost' = lost)"
  using assms
proof (induction opers arbitrary: d t lost)
  case Nil
  then show ?case by (intro exI [of _ t] exI [of _ lost]) simp
next
  case (Cons oper opers)
  have vis: "opVisible W H d oper" "visibleOps W H opers (specOp oper d)" using Cons.prems(1) by simp_all
  obtain t1 where t1: "runOp oper t = Some t1" "termInv t1"
    using runOp_step [OF visible_opOk [OF vis(1) Cons.prems(2, 3)] Cons.prems(5)] by blast
  obtain l1 where l1: "stepDraws wc W H lost d t l1 (specOp oper d) t1" "\<not> isReset oper \<longrightarrow> l1 = lost"
    and np: "\<not> plainMode t1"
    using visible_step [OF vis(1) Cons.prems(3, 4) t1(1) Cons.prems(6)] by blast
  obtain t' l' where t': "foreach runOp opers t1 = Some t'"
      "stepDraws wc W H l1 (specOp oper d) t1 l' (fold specOp opers (specOp oper d)) t'"
      "list_all (\<lambda>oper. \<not> isReset oper) opers \<longrightarrow> l' = l1"
    using Cons.IH [OF vis(2) Cons.prems(2-4) t1(2) np] by blast
  have "stepDraws wc W H lost d t l' (fold specOp (oper # opers) d) t'"
    using stepDraws_trans [OF l1(1) t'(2)] by simp
  then show ?case using t1(1) t'(1, 3) l1(2) by (intro exI [of _ t'] exI [of _ l']) simp
qed

lemma newVtState_sees:
  assumes "1 \<le> W" "W \<le> 160" "1 \<le> H" "H \<le> 60"
  shows "\<exists>v. newVtState W H = Some v \<and> sees W H v
    \<lparr>scX = 0, scY = 0, scWrap = False, scCells = replicate (nat (W * H)) defaultCell, scAttr = 7, scVisible = True\<rparr>"
proof -
  have none: "\<not> int i div W < min H 0" for i using assms by (simp add: pos_imp_zdiv_nonneg_iff not_less)
  have "map (\<lambda>_. defaultCell) [0..<n] = replicate n defaultCell" for n by (simp add: map_replicate_const)
  then show ?thesis
    using assms none
    by (simp add: newVtState_def vtResize_def Let_def sees_def clamp_def attributes_def ansiToWindows_def
        list_all_iff)
qed

text \<open>A new terminal of the client is in step with a new \<open>Terminal\<close>, whatever line it starts with.\<close>

lemma fresh_inStep:
  assumes "1 \<le> W" "W \<le> 160" "1 \<le> H" "H \<le> 60"
  shows "\<exists>v sc. newVtState W H = Some v \<and> sees W H v sc \<and>
    inStep color W H False (emptyDocument n) (resetTerminal OmitClear n (newTerminal False color)) sc"
proof -
  let ?screen = "\<lparr>scX = 0, scY = 0, scWrap = False, scCells = replicate (nat (W * H)) defaultCell, scAttr = 7, scVisible = True\<rparr>"
  obtain v where v: "newVtState W H = Some v" "sees W H v ?screen" using newVtState_sees [OF assms] by blast
  have "screenOk W H ?screen" using assms(1, 3) by (auto simp: screenOk_def defaultCell_def)
  then have "inStep color W H False (emptyDocument n) (resetTerminal OmitClear n (newTerminal False color)) ?screen"
    using assms(1, 3)
    by (auto simp: inStep_def showsDocument_def showsLines_def emptyDocument_def firstShown_def
        resetTerminal_def newTerminal_def penAttr_def)
  then show ?thesis using v by blast
qed

lemma resetTerminal_fresh: "resetTerminal OmitClear 0 (newTerminal False color) = newTerminal False color"
  by (simp add: resetTerminal_def newTerminal_def)

lemma sees_cell:
  assumes "sees W H v sc" and "screenOk W H sc" and "0 \<le> x" "x < W" "0 \<le> y" "y < H"
  shows "cellAt v x y = Some (scCells sc ! rowAt W y x)"
  using assms rowAt_less [of y H x W] by (simp add: sees_def screenOk_def cellAt_def rowAt_def)

definition shownDocument :: "TerminalOp list \<Rightarrow> Document" where
  "shownDocument opers = fold specOp opers (emptyDocument 0)"

definition topLine :: "int \<Rightarrow> TerminalOp list \<Rightarrow> int" where
  "topLine H opers = firstShown H (shownDocument opers)"

text \<open>
  C7. What the scraper draws is what the client's terminal shows. A new terminal of any size is
  fed everything that a session of calls sends. It accepts every byte and is left between two
  sequences. Each line sent last for its number that is not above the top line
  (\<open>topLine\<close>) is in its row, every cell of it with its character and its colour, whether the
  session wrote it as a whole, appended to it, moved up to it or scrolled it: nothing is left
  over from what was in the row before. The cursor is in the row of the line and in the column
  where \<open>Terminal\<close> believes it to be, and hidden when it believes so; without a reset it is also
  shown when \<open>Terminal\<close> believes so.
\<close>

theorem terminal_shows_lines:
  assumes "1 \<le> W" "W \<le> 160" "1 \<le> H" "H \<le> 60" and "visibleOps W H opers (emptyDocument 0)"
  shows "\<exists>t v0 v. foreach runOp opers (newTerminal False color) = Some t \<and> newVtState W H = Some v0 \<and>
    vtFeed (sent t) v0 = Some v \<and> finished v \<and>
    (\<forall>line data x. docLines (shownDocument opers) line = Some data \<and> topLine H opers \<le> line \<and> 0 \<le> x \<and> x < W \<longrightarrow>
       cellAt v x (line - topLine H opers) = Some (shownCell color (data ! nat x))) \<and>
    vtY v = remoteLine t - topLine H opers \<and> vtX v = min (remoteColumn t) (W - 1) \<and>
    (cursorHidden t \<longrightarrow> \<not> vtVisible v) \<and>
    (list_all (\<lambda>oper. \<not> isReset oper) opers \<longrightarrow> vtVisible v = (\<not> cursorHidden t))"
proof -
  let ?fresh = "newTerminal False color" and ?empty = "emptyDocument 0" and ?d = "shownDocument opers"
  obtain v0 screen where v0: "newVtState W H = Some v0" "sees W H v0 screen"
    and start: "inStep color W H False ?empty ?fresh screen"
    using fresh_inStep [OF assms(1-4), of color 0] unfolding resetTerminal_fresh by blast
  have small: "W < 1000" "H < 1000" using assms(2, 4) by simp_all
  have t0: "termInv ?fresh" "\<not> plainMode ?fresh" by (simp, simp add: newTerminal_def)
  obtain t lost where t: "foreach runOp opers ?fresh = Some t"
      "stepDraws color W H False ?empty ?fresh lost ?d t"
      "list_all (\<lambda>oper. \<not> isReset oper) opers \<longrightarrow> lost = False"
    using visible_session [OF assms(5, 1) small t0] unfolding shownDocument_def by blast
  have "sent ?fresh = []" by (simp add: newTerminal_def)
  then obtain sc where sc: "draws W H (sent t) screen sc" "inStep color W H lost ?d t sc"
    using t(2) start unfolding stepDraws_def by auto
  obtain v where v: "vtFeed (sent t) v0 = Some v" "sees W H v sc"
    using sc(1) v0(2) unfolding draws_def by blast
  have ok: "screenOk W H sc" using sc(2) by (simp add: inStep_def showsDocument_def)
  have "cellAt v x (line - topLine H opers) = Some (shownCell color (data ! nat x))"
    if "docLines ?d line = Some data" "topLine H opers \<le> line" "0 \<le> x" "x < W" for line data x
  proof -
    have shown: "line \<le> docMax ?d" "scCells sc ! rowAt W (line - topLine H opers) x = shownCell color (data ! nat x)"
      using sc(2) that by (simp_all add: inStep_def showsDocument_def showsLines_def topLine_def)
    have "line - topLine H opers < H" using shown(1) by (simp add: topLine_def firstShown_def)
    then show ?thesis using sees_cell [OF v(2) ok that(3, 4)] that(2) shown(2) by simp
  qed
  moreover have "vtY v = remoteLine t - topLine H opers" "vtX v = min (remoteColumn t) (W - 1)"
      "cursorHidden t \<longrightarrow> \<not> vtVisible v" "\<not> lost \<longrightarrow> vtVisible v = (\<not> cursorHidden t)" "finished v"
    using sc(2) v(2) by (auto simp: inStep_def showsDocument_def sees_def topLine_def finished_def)
  ultimately show ?thesis using t(1, 3) v0(1) v(1) by blast
qed


theorem terminal_shows_lines_witness:
  "\<exists>t v0 v. foreach runOp
      [OpSendLine 0 [\<lparr>Attributes = 7, cellChar = 0x41\<rparr>, \<lparr>Attributes = 7, cellChar = 0x42\<rparr>] 2 (- 1),
       OpSendLine 2 [\<lparr>Attributes = 7, cellChar = 0x43\<rparr>, \<lparr>Attributes = 7, cellChar = 0x20\<rparr>] 2 (- 1),
       OpSendLine 1 [\<lparr>Attributes = 0x1E, cellChar = 0x20AC\<rparr>, \<lparr>Attributes = 7, cellChar = 0x20\<rparr>] 2 0,
       OpShowCursor 1 1] (newTerminal False True) = Some t \<and> newVtState 2 2 = Some v0 \<and>
     vtFeed (sent t) v0 = Some v \<and>
     cellAt v 0 0 = Some \<lparr>vtText = [0x20AC], vtAttributes = 0x1E, continuation = False\<rparr> \<and>
     cellAt v 1 0 = Some \<lparr>vtText = [0x20], vtAttributes = 7, continuation = False\<rparr> \<and>
     cellAt v 0 1 = Some \<lparr>vtText = [0x43], vtAttributes = 7, continuation = False\<rparr>"
proof -
  let ?opers = "[OpSendLine 0 [\<lparr>Attributes = 7, cellChar = 0x41\<rparr>, \<lparr>Attributes = 7, cellChar = 0x42\<rparr>] 2 (- 1),
       OpSendLine 2 [\<lparr>Attributes = 7, cellChar = 0x43\<rparr>, \<lparr>Attributes = 7, cellChar = 0x20\<rparr>] 2 (- 1),
       OpSendLine 1 [\<lparr>Attributes = 0x1E, cellChar = 0x20AC\<rparr>, \<lparr>Attributes = 7, cellChar = 0x20\<rparr>] 2 0,
       OpShowCursor 1 1]"
  have colours: "shownColour (7 AND COLOR_ATTRIBUTE_MASK) = 7" "shownColour (0x1E AND COLOR_ATTRIBUTE_MASK) = 0x1E"
    by code_simp+
  have simple: "simpleCell \<lparr>Attributes = 7, cellChar = 0x41\<rparr>" "simpleCell \<lparr>Attributes = 7, cellChar = 0x42\<rparr>"
      "simpleCell \<lparr>Attributes = 7, cellChar = 0x43\<rparr>" "simpleCell \<lparr>Attributes = 7, cellChar = 0x20\<rparr>"
      "simpleCell \<lparr>Attributes = 0x1E, cellChar = 0x20AC\<rparr>"
    by code_simp+
  have vis: "visibleOps 2 2 ?opers (emptyDocument 0)"
    using simple by (simp add: writeLine_def reachLine_def emptyDocument_def firstShown_def)
  have top: "topLine 2 ?opers = 1"
    by (simp add: topLine_def shownDocument_def writeLine_def reachLine_def emptyDocument_def firstShown_def)
  have lines: "docLines (shownDocument ?opers) 1 =
        Some [\<lparr>Attributes = 0x1E, cellChar = 0x20AC\<rparr>, \<lparr>Attributes = 7, cellChar = 0x20\<rparr>]"
      "docLines (shownDocument ?opers) 2 =
        Some [\<lparr>Attributes = 7, cellChar = 0x43\<rparr>, \<lparr>Attributes = 7, cellChar = 0x20\<rparr>]"
    by (simp_all add: shownDocument_def writeLine_def reachLine_def emptyDocument_def)
  obtain t v0 v where v: "foreach runOp ?opers (newTerminal False True) = Some t" "newVtState 2 2 = Some v0"
      "vtFeed (sent t) v0 = Some v"
      "\<forall>line data x. docLines (shownDocument ?opers) line = Some data \<and> topLine 2 ?opers \<le> line \<and> 0 \<le> x \<and> x < 2 \<longrightarrow>
         cellAt v x (line - topLine 2 ?opers) = Some (shownCell True (data ! nat x))"
    using terminal_shows_lines [of 2 2 ?opers True] vis by auto
  have "cellAt v 0 0 = Some \<lparr>vtText = [0x20AC], vtAttributes = 0x1E, continuation = False\<rparr>"
      "cellAt v 1 0 = Some \<lparr>vtText = [0x20], vtAttributes = 7, continuation = False\<rparr>"
      "cellAt v 0 1 = Some \<lparr>vtText = [0x43], vtAttributes = 7, continuation = False\<rparr>"
    using v(4) [rule_format, OF conjI [OF lines(1)], of 0] v(4) [rule_format, OF conjI [OF lines(1)], of 1]
      v(4) [rule_format, OF conjI [OF lines(2)], of 0]
    unfolding top by (simp_all add: shownCell_def cellColour_def colours fixSpecialCharacters_def)
  then show ?thesis using v(1-3) by blast
qed

section \<open>What the terminal does not show\<close>

text \<open>
  What the terminal of the client shows after a session: the text of a cell and whether the cursor
  is visible, with what \<open>Terminal\<close> believes of the cursor.
\<close>

definition shownAfter :: "TerminalOp list \<Rightarrow> int \<Rightarrow> int \<Rightarrow> int \<Rightarrow> int \<Rightarrow> (u32 list \<times> bool \<times> bool) option" where
  "shownAfter opers W H x y = do {
     t \<leftarrow> foreach runOp opers (newTerminal False False);
     v0 \<leftarrow> newVtState W H;
     v \<leftarrow> vtFeed (sent t) v0;
     cell \<leftarrow> cellAt v x y;
     Some (vtText cell, vtVisible v, cursorHidden t)
   }"

text \<open>
  \<open>reset\<close> forgets that the cursor is hidden without showing it: after the next
  \<open>showTerminalCursor\<close> on the same line the client still has no cursor, while \<open>m_cursorHidden\<close>
  is false.
\<close>

lemma reset_keeps_cursor_hidden:
  "shownAfter [OpHideCursor, OpReset SendClear 0, OpSendLine 0 [\<lparr>Attributes = 7, cellChar = 0x20\<rparr>] 1 0,
     OpShowCursor 0 0] 1 1 0 0 = Some ([0x20], False, False)"
  by code_simp

text \<open>
  \<open>fixSpecialCharacters\<close> replaces ESC and the characters 1 to 6. Another control character in a cell
  is sent as it is: a line feed moves the terminal of the client to the next row, so that the cells
  after it are shown there.
\<close>

lemma line_feed_cell_moves:
  "shownAfter [OpSendLine 0 [\<lparr>Attributes = 7, cellChar = 0x0A\<rparr>, \<lparr>Attributes = 7, cellChar = 0x41\<rparr>] 2 0]
     2 2 0 1 = Some ([0x41], False, True)"
  by code_simp

end
