(* ===== verification/ScreenFidelity.thy ===== *)
theory ScreenFidelity
  imports ScraperSafety TerminalView
begin

text \<open>
  The scraper (src/agent/Scraper.cc), its terminal (src/agent/Terminal.cc) and the terminal of the
  client (\<open>VtScreen\<close>) together: after each scrape in scrolling mode the client sees the lines of the
  console's window. \<open>mirrors\<close> is the relation between the client's terminal and the scraper that
  every scrape keeps, so the statement holds for any number of scrapes while the size of the
  window stays the same.
\<close>

section \<open>The relation\<close>

text \<open>
  The document holds every line that the scraper remembers from the first one on that it may
  still send, and the screen can still show that line.
\<close>

definition mirrored :: "int \<Rightarrow> int \<Rightarrow> Document \<Rightarrow> ScraperState \<Rightarrow> bool" where
  "mirrored W H d s \<longleftrightarrow> docBase d \<le> m_scrapedLineCount s \<and> docMax d \<le> m_scrapedLineCount s + H - 1 \<and>
     m_maxBufferedLine s \<le> m_scrapedLineCount s + H - 1 \<and>
     (\<forall>l. m_scrapedLineCount s \<le> l \<and> l \<le> m_maxBufferedLine s \<longrightarrow>
        (\<exists>data. docLines d l = Some data \<and> nat W \<le> length data \<and>
           shownLine (m_bufferData s ! slot l) = take (nat W) data))"

definition mirrors :: "int \<Rightarrow> int \<Rightarrow> bool \<Rightarrow> VtState \<Rightarrow> ScraperState \<Rightarrow> bool" where
  "mirrors W H withColor v s \<longleftrightarrow> (\<exists>lost d sc. sees W H v sc \<and>
     inStep withColor W H lost d (scTerminal s) sc \<and> mirrored W H d s)"

lemma mirrored_first: "mirrored W H d s \<Longrightarrow> firstShown H d \<le> m_scrapedLineCount s"
  by (simp add: mirrored_def firstShown_def)

lemma mirrored_keeps: "mirrored W H d s \<Longrightarrow> keepsLines s s1 \<Longrightarrow> mirrored W H d s1"
  by (simp add: mirrored_def keepsLines_def)

lemma mirrored_startsOver:
  "startsOver n s s1 \<Longrightarrow> 0 \<le> n \<Longrightarrow> 1 \<le> H \<Longrightarrow> mirrored W H (emptyDocument n) s1"
  by (simp add: mirrored_def startsOver_def emptyDocument_def)

section \<open>The calls of a scrape\<close>

lemma visibleOps_append:
  "visibleOps W H (xs @ ys) d \<longleftrightarrow> visibleOps W H xs d \<and> visibleOps W H ys (fold specOp xs d)"
  by (induction xs arbitrary: d) auto

lemma foreach_map: "foreach f (map g xs) t = foreach (\<lambda>x. f (g x)) xs t"
proof (induction xs arbitrary: t)
  case (Cons x xs)
  then have "foreach f (map g xs) = foreach (\<lambda>x. f (g x)) xs" by (rule ext)
  then show ?case by simp
qed simp

lemma runOp_sendLine: "runOp (OpSendLine line data width c) = sendLine line data width c"
  by (rule ext) simp

definition sendOps :: "(int \<Rightarrow> CHAR_INFO list) \<Rightarrow> (int \<Rightarrow> int) \<Rightarrow> int \<Rightarrow> int \<Rightarrow> int \<Rightarrow> TerminalOp list" where
  "sendOps cells column W k stop = map (\<lambda>l. OpSendLine l (cells l) W (column l)) [k..stop - 1]"

definition sentDocument :: "(int \<Rightarrow> CHAR_INFO list) \<Rightarrow> int \<Rightarrow> int \<Rightarrow> Document \<Rightarrow> Document" where
  "sentDocument cells k stop d =
     d\<lparr>docMax := (if k < stop then max (docMax d) (stop - 1) else docMax d),
       docLines := (\<lambda>l. if k \<le> l \<and> l < stop then Some (cells l) else docLines d l)\<rparr>"

text \<open>Consecutive lines can be sent when the first one can be shown: the screen scrolls with them.\<close>

lemma sendOps_visible:
  assumes "\<forall>l. k \<le> l \<and> l < stop \<longrightarrow> nat W \<le> length (cells l) \<and> list_all simpleCell (take (nat W) (cells l))"
    and "firstShown H d \<le> k" and "1 \<le> H"
  shows "visibleOps W H (sendOps cells column W k stop) d \<and>
    fold specOp (sendOps cells column W k stop) d = sentDocument cells k stop d"
  using assms
proof (induction "nat (stop - k)" arbitrary: k d)
  case 0
  then have "\<not> k < stop" by simp
  then show ?case by (simp add: sendOps_def sentDocument_def) (cases d; auto simp: fun_eq_iff)
next
  case (Suc n)
  then have k: "k < stop" by simp
  let ?d = "writeLine k (cells k) d"
  have ops: "sendOps cells column W k stop =
      OpSendLine k (cells k) W (column k) # sendOps cells column W (k + 1) stop"
    using k upto_rec1 [of k "stop - 1"] by (simp add: sendOps_def)
  have "firstShown H ?d \<le> k + 1"
    using Suc.prems(2, 3) by (auto simp: firstShown_def writeLine_def reachLine_def max_def)
  then have ih: "visibleOps W H (sendOps cells column W (k + 1) stop) ?d"
      "fold specOp (sendOps cells column W (k + 1) stop) ?d = sentDocument cells (k + 1) stop ?d"
    using Suc.hyps(1) [of "k + 1" ?d] Suc.hyps(2) Suc.prems(1, 3) by auto
  have "sentDocument cells (k + 1) stop ?d = sentDocument cells k stop d"
    using k by (cases d) (auto simp: sentDocument_def writeLine_def reachLine_def fun_eq_iff)
  then show ?case using ih k Suc.prems(1, 2) by (simp add: ops)
qed

definition scrapeOps :: "ConsoleInfo \<Rightarrow> bool \<Rightarrow> (int \<Rightarrow> CHAR_INFO list) \<Rightarrow> int \<Rightarrow> int \<Rightarrow> int \<Rightarrow> ScraperState \<Rightarrow>
    TerminalOp list" where
  "scrapeOps info visible cells W k stop s =
     (if shownCursor info visible then [] else [OpHideCursor]) @
     sendOps (\<lambda>l. cells (l - m_scrolledCount s))
       (\<lambda>l. if l = cursorLineOf info visible s then cursorColumnOf info visible else - 1) W k stop @
     (if shownCursor info visible
      then [OpShowCursor (cursorColumnOf info visible) (cursorLineOf info visible s)] else [])"

lemma scrapeOps_run:
  assumes "outcomeShows info visible row w s1 s' cells k stop t' attr"
  shows "foreach runOp (scrapeOps info visible cells w k stop s1) (scTerminal s1) = Some (scTerminal s')"
proof -
  let ?ops = "sendOps (\<lambda>l. cells (l - m_scrolledCount s1))
       (\<lambda>l. if l = cursorLineOf info visible s1 then cursorColumnOf info visible else - 1) w k stop"
  have "foreach (\<lambda>l. sendLine l (cells (l - m_scrolledCount s1)) w
        (if l = cursorLineOf info visible s1 then cursorColumnOf info visible else - 1)) [k..stop - 1]
      (startTerminal info visible s1) = Some t'"
    and fin: "scTerminal s' = (if shownCursor info visible
      then showTerminalCursor (cursorColumnOf info visible) (cursorLineOf info visible s1) t' else t')"
    using assms unfolding outcomeShows_def Let_def by blast+
  then have mid: "foreach runOp ?ops (startTerminal info visible s1) = Some t'"
    by (simp add: sendOps_def foreach_map runOp_sendLine)
  show ?thesis
    using mid fin
    by (cases "shownCursor info visible") (simp_all add: scrapeOps_def startTerminal_def foreach_append)
qed

section \<open>The document after a scrape\<close>

definition scrapedDocument :: "ConsoleInfo \<Rightarrow> bool \<Rightarrow> (int \<Rightarrow> CHAR_INFO list) \<Rightarrow> int \<Rightarrow> int \<Rightarrow> ScraperState \<Rightarrow>
    Document \<Rightarrow> Document" where
  "scrapedDocument info visible cells k stop s d =
     (let d1 = sentDocument (\<lambda>l. cells (l - m_scrolledCount s)) k stop d
      in if shownCursor info visible then reachLine (cursorLineOf info visible s) d1 else d1)"

lemma scrapedDocument_simps:
  "docBase (scrapedDocument info visible cells k stop s d) = docBase d"
  "docLines (scrapedDocument info visible cells k stop s d) l =
     (if k \<le> l \<and> l < stop then Some (cells (l - m_scrolledCount s)) else docLines d l)"
  by (simp_all add: scrapedDocument_def sentDocument_def reachLine_def Let_def)

lemma cursor_line:
  assumes "scrollInfo info" and "shownCursor info visible"
  shows "0 \<le> cursorColumnOf info visible" "cursorColumnOf info visible < X (dwSize info)"
    "Top (srWindow info) + m_scrolledCount s \<le> cursorLineOf info visible s"
    "cursorLineOf info visible s \<le> Bottom (srWindow info) + m_scrolledCount s"
  using assms by (auto simp: scrollInfo_def infoOk_def shownCursor_def containsCoord_def cursorColumnOf_def cursorLineOf_def)

lemma scrapedDocument_max:
  assumes "scrollInfo info" and "docMax d \<le> Bottom (srWindow info) + m_scrolledCount s"
    and "stop \<le> Bottom (srWindow info) + 1 + m_scrolledCount s"
  shows "docMax (scrapedDocument info visible cells k stop s d) \<le> Bottom (srWindow info) + m_scrolledCount s"
  using assms cursor_line(4) [OF assms(1), of visible s]
  by (auto simp: scrapedDocument_def sentDocument_def reachLine_def Let_def)

text \<open>The calls of a scrape in a window of \<open>H\<close> lines and a screen buffer of \<open>W\<close> columns.\<close>

lemma scrapeOps_visible:
  assumes info: "scrollInfo info" and H: "H = Bottom (srWindow info) - Top (srWindow info) + 1"
    and W: "W = X (dwSize info)"
    and m: "mirrored W H d s1" and first: "m_scrapedLineCount s1 \<le> Top (srWindow info) + m_scrolledCount s1"
    and o: "outcomeShows info visible row W s1 s' cells k stop t' attr"
    and row: "\<And>y. length (row y) = nat W" "\<And>y. list_all simpleCell (row y)"
  shows "visibleOps W H (scrapeOps info visible cells W k stop s1) d \<and>
    fold specOp (scrapeOps info visible cells W k stop s1) d = scrapedDocument info visible cells k stop s1 d"
proof -
  let ?c = "\<lambda>l. cells (l - m_scrolledCount s1)"
  let ?col = "\<lambda>l. if l = cursorLineOf info visible s1 then cursorColumnOf info visible else - 1"
  let ?d = "sentDocument ?c k stop d"
  note win = scrollInfo_bounds [OF info]
  have f: "firstVirtLine (srWindow info) s1 = m_scrapedLineCount s1"
    using first by (simp add: firstVirtLine_def)
  have k: "m_scrapedLineCount s1 \<le> k" "stop \<le> Bottom (srWindow info) + 1 + m_scrolledCount s1"
    and read: "\<And>y. m_scrapedLineCount s1 - m_scrolledCount s1 \<le> y \<Longrightarrow> y \<le> Bottom (srWindow info) \<Longrightarrow>
      take (nat W) (cells y) = row y"
    using o unfolding outcomeShows_def Let_def f by blast+
  have lines: "\<forall>l. k \<le> l \<and> l < stop \<longrightarrow> nat W \<le> length (?c l) \<and> list_all simpleCell (take (nat W) (?c l))"
  proof (intro allI impI)
    fix l assume "k \<le> l \<and> l < stop"
    then have r: "take (nat W) (?c l) = row (l - m_scrolledCount s1)" using k by (intro read) auto
    then have "min (nat W) (length (?c l)) = nat W" using row(1) by (metis length_take min.commute)
    then show "nat W \<le> length (?c l) \<and> list_all simpleCell (take (nat W) (?c l))"
      using r row(2) by (simp add: min_def split: if_splits)
  qed
  have shown: "firstShown H d \<le> k" using mirrored_first [OF m] k(1) by linarith
  have "1 \<le> H" using win H by simp
  then have sends: "visibleOps W H (sendOps ?c ?col W k stop) d" "fold specOp (sendOps ?c ?col W k stop) d = ?d"
    using sendOps_visible [OF lines shown] by blast+
  have "docBase d \<le> Top (srWindow info) + m_scrolledCount s1"
      "docMax ?d - (H - 1) \<le> Top (srWindow info) + m_scrolledCount s1"
    using m first k(2) by (auto simp: mirrored_def sentDocument_def H)
  then have top: "firstShown H ?d \<le> Top (srWindow info) + m_scrolledCount s1"
    by (simp add: firstShown_def sentDocument_def)
  show ?thesis
  proof (cases "shownCursor info visible")
    case True
    note cl = cursor_line [OF info True]
    have "firstShown H ?d \<le> cursorLineOf info visible s1" using top cl(3) [of s1] by linarith
    then show ?thesis
      using True sends cl(1, 2) by (simp add: scrapeOps_def scrapedDocument_def visibleOps_append W)
  qed (use sends in \<open>simp add: scrapeOps_def scrapedDocument_def visibleOps_append\<close>)
qed

text \<open>What the scraper remembers afterwards is in the document.\<close>

lemma mirrored_outcome:
  assumes info: "scrollInfo info" and H: "H = Bottom (srWindow info) - Top (srWindow info) + 1"
    and m: "mirrored W H d s1" and first: "m_scrapedLineCount s1 \<le> Top (srWindow info) + m_scrolledCount s1"
    and o: "outcomeShows info visible row W s1 s' cells k stop t' attr"
    and row: "\<And>y. length (row y) = nat W" and small: "H < 1000"
  shows "(\<forall>l. m_scrapedLineCount s1 \<le> l \<and> l < stop \<longrightarrow>
      (\<exists>data. docLines (scrapedDocument info visible cells k stop s1 d) l = Some data \<and> nat W \<le> length data \<and>
         take (nat W) data = row (l - m_scrolledCount s1))) \<and>
    mirrored W H (scrapedDocument info visible cells k stop s1 d) s'"
proof -
  let ?d = "scrapedDocument info visible cells k stop s1 d"
  let ?top = "Top (srWindow info) + m_scrolledCount s1"
  have f: "firstVirtLine (srWindow info) s1 = m_scrapedLineCount s1"
    using first by (simp add: firstVirtLine_def)
  have k: "m_scrapedLineCount s1 \<le> k" "k \<le> stop" "?top \<le> stop" "stop \<le> Bottom (srWindow info) + 1 + m_scrolledCount s1"
    and read: "\<And>y. m_scrapedLineCount s1 - m_scrolledCount s1 \<le> y \<Longrightarrow> y \<le> Bottom (srWindow info) \<Longrightarrow>
      take (nat W) (cells y) = row y"
    and kept: "\<And>l. m_scrapedLineCount s1 \<le> l \<Longrightarrow> l < k \<Longrightarrow> remembered s1 l (row (l - m_scrolledCount s1))"
    and new: "\<And>l. m_scrapedLineCount s1 \<le> l \<Longrightarrow> l < stop \<Longrightarrow>
      shownLine (m_bufferData s' ! slot l) = row (l - m_scrolledCount s1)"
    and others: "\<And>i. (\<forall>l. m_scrapedLineCount s1 \<le> l \<and> l < stop \<longrightarrow> slot l \<noteq> i) \<Longrightarrow> m_bufferData s' ! i = m_bufferData s1 ! i"
    and s': "m_maxBufferedLine s' \<le> max (m_maxBufferedLine s1) (stop - 1)" "m_scrapedLineCount s' = ?top"
    using o unfolding outcomeShows_def Let_def f by blast+
  have lines: "\<exists>data. docLines ?d l = Some data \<and> nat W \<le> length data \<and> take (nat W) data = row (l - m_scrolledCount s1)"
    if l: "m_scrapedLineCount s1 \<le> l" "l < stop" for l
  proof (cases "k \<le> l")
    case True
    have r: "take (nat W) (cells (l - m_scrolledCount s1)) = row (l - m_scrolledCount s1)"
      using l k by (intro read) auto
    then have "nat W \<le> length (cells (l - m_scrolledCount s1))"
      using row by (metis length_take min.cobounded1 min.cobounded2)
    then show ?thesis using r True l by (simp add: scrapedDocument_simps)
  next
    case False
    then have rem: "remembered s1 l (row (l - m_scrolledCount s1))" using kept l by simp
    then obtain data where data: "docLines d l = Some data" "nat W \<le> length data"
        "shownLine (m_bufferData s1 ! slot l) = take (nat W) data"
      using m l by (auto simp: mirrored_def remembered_def)
    then have "length (shownLine (m_bufferData s1 ! slot l)) = length (row (l - m_scrolledCount s1))"
      using row by simp
    then have "shownLine (m_bufferData s1 ! slot l) = row (l - m_scrolledCount s1)"
      using rem by (simp add: remembered_def lineUnchanged_def)
    then show ?thesis using data False by (simp add: scrapedDocument_simps)
  qed
  have old: "m_bufferData s' ! slot l = m_bufferData s1 ! slot l"
    if "stop \<le> l" "l \<le> m_maxBufferedLine s1" for l
  proof (rule others, intro allI impI)
    fix n assume "m_scrapedLineCount s1 \<le> n \<and> n < stop"
    moreover have "m_maxBufferedLine s1 \<le> m_scrapedLineCount s1 + H - 1" using m by (simp add: mirrored_def)
    ultimately have "slot l \<noteq> slot n" using that small by (intro slot_distinct) auto
    then show "slot n \<noteq> slot l" by simp
  qed
  have "\<exists>data. docLines ?d l = Some data \<and> nat W \<le> length data \<and>
      shownLine (m_bufferData s' ! slot l) = take (nat W) data"
    if l: "m_scrapedLineCount s' \<le> l" "l \<le> m_maxBufferedLine s'" for l
  proof (cases "l < stop")
    case True
    then show ?thesis using lines [of l] new [of l] l first s'(2) by auto
  next
    case False
    then have "stop \<le> l" "l \<le> m_maxBufferedLine s1" "\<not> (k \<le> l \<and> l < stop)" using l s'(1) by auto
    then show ?thesis
      using m old [of l] l(1) first s'(2) by (auto simp: mirrored_def scrapedDocument_simps)
  qed
  moreover have "docMax ?d \<le> Bottom (srWindow info) + m_scrolledCount s1"
    using m first H k(4) by (intro scrapedDocument_max [OF info]) (auto simp: mirrored_def)
  moreover have "docBase ?d \<le> ?top" "m_maxBufferedLine s' \<le> ?top + H - 1"
    using m first s'(1) k(4) H by (auto simp: mirrored_def scrapedDocument_simps)
  ultimately show ?thesis using lines s'(2) H by (auto simp: mirrored_def)
qed

section \<open>What the client sees\<close>

text \<open>The cursor stays hidden while lines are sent.\<close>

lemma sendLine_hidden:
  assumes "sendLine line cells W c t = Some t'" and "cursorHidden t" and "\<not> plainMode t"
  shows "cursorHidden t' \<and> \<not> plainMode t'"
proof -
  have hide: "cursorHidden (hideTerminalCursor u)" if "cursorHidden u" for u
    using that by (simp add: hideTerminalCursor_def)
  obtain t1 s where t1: "checkReuse cells W (moveTerminalToLine line t) = Some t1"
    and t': "t' = (outputLine c s ((restartLine t1)\<lparr>remoteColor := sentColor s\<rparr>))
       \<lparr>lineData := lineData (restartLine t1) @ take (nat (trimmedCellCount s) - length (lineData (restartLine t1)))
          (drop (length (lineData (restartLine t1))) cells), remoteColumn := trimmedCellCount s\<rparr>"
    using sendLine_parts [OF assms(1)] unfolding Let_def by blast
  have "cursorHidden (moveTerminalToLine line t)"
    using assms(2) hide by (simp add: moveTerminalToLine_def Let_def forwardToLine_eq)
  then have "cursorHidden t1" "\<not> plainMode t1"
    using t1 assms(3) by (auto simp: checkReuse_def ASSERT_bind_Some split: if_splits)
  then have "cursorHidden (restartLine t1)" "\<not> plainMode (restartLine t1)"
    using hide by (simp_all add: restartLine_def Let_def)
  then show ?thesis
    using hide by (simp add: t' outputLine_def Let_def)
qed

lemma sendLines_hidden:
  "foreach (\<lambda>l. sendLine l (cells l) W (c l)) ls t = Some t' \<Longrightarrow> cursorHidden t \<Longrightarrow> \<not> plainMode t \<Longrightarrow>
   cursorHidden t'"
proof (induction ls arbitrary: t)
  case (Cons l ls)
  then obtain t1 where "sendLine l (cells l) W (c l) t = Some t1" "foreach (\<lambda>l. sendLine l (cells l) W (c l)) ls t1 = Some t'"
    by (auto simp: bind_eq_Some)
  then show ?case using Cons sendLine_hidden by blast
qed simp

lemma show_cursor_at:
  "\<not> plainMode t \<Longrightarrow> remoteColumn (showTerminalCursor c line t) = c \<and> remoteLine (showTerminalCursor c line t) = line"
  by (simp add: showTerminalCursor_def Let_def)

lemma simple_masked:
  assumes "simpleCell c"
  shows "simpleCell (masked msk c)"
proof -
  have "(Attributes c AND msk) AND COMMON_LVB_LEADING_BYTE = (Attributes c AND COMMON_LVB_LEADING_BYTE) AND msk"
    by (simp add: ac_simps)
  then show ?thesis using assms by (simp add: simpleCell_def masked_def)
qed

lemma scrapeRow_simps [simp]:
  "length (scrapeRow msk shown w y) = nat w"
  "0 \<le> x \<Longrightarrow> x < w \<Longrightarrow> scrapeRow msk shown w y ! nat x = masked msk (shown x y)"
  by (simp_all add: scrapeRow_def nth_upto)

text \<open>The tracking of the console keeps the terminal of the client in step.\<close>

lemma tracking_mirrored:
  assumes "keepsLines s s1 \<or> startsOver n s s1" and "0 \<le> n" and "1 \<le> H" and "mirrored W H d s"
  shows "\<exists>lost1 d1. stepDraws wc W H lost d (scTerminal s) lost1 d1 (scTerminal s1) \<and> mirrored W H d1 s1"
  using assms(1)
proof
  assume k: "keepsLines s s1"
  then have "scTerminal s1 = scTerminal s" by (simp add: keepsLines_def)
  then have "stepDraws wc W H lost d (scTerminal s) lost d (scTerminal s1)" by simp
  then show ?thesis using mirrored_keeps [OF assms(4) k] by blast
next
  assume o: "startsOver n s s1"
  then have "scTerminal s1 = resetTerminal SendClear n (scTerminal s)" by (simp add: startsOver_def)
  then show ?thesis using mirrored_startsOver [OF o assms(2, 3)] reset_step by metis
qed

lemma scrape_step:
  assumes info: "scrollInfo info" and H: "H = Bottom (srWindow info) - Top (srWindow info) + 1"
    and W: "W = X (dwSize info)" and small: "1 \<le> W" "W < 1000" "H < 1000"
    and m: "mirrored W H d s1" and first: "m_scrapedLineCount s1 \<le> Top (srWindow info) + m_scrolledCount s1"
    and o: "outcomeShows info visible row W s1 s' cells k stop t' attr"
    and row: "\<And>y. length (row y) = nat W" "\<And>y. list_all simpleCell (row y)"
    and t: "termInv (scTerminal s1)" "\<not> plainMode (scTerminal s1)"
  shows "\<exists>lost'. stepDraws wc W H lost d (scTerminal s1) lost' (scrapedDocument info visible cells k stop s1 d) (scTerminal s')"
proof -
  let ?ops = "scrapeOps info visible cells W k stop s1"
  note vis = scrapeOps_visible [OF info H W m first o row]
  obtain t'' lost' where "foreach runOp ?ops (scTerminal s1) = Some t''"
      "stepDraws wc W H lost d (scTerminal s1) lost' (fold specOp ?ops d) t''"
    using visible_session [OF vis [THEN conjunct1] small t] by blast
  moreover from this(1) have "t'' = scTerminal s'" using scrapeOps_run [OF o] by simp
  ultimately show ?thesis using vis by auto
qed

definition screenShows :: "int \<Rightarrow> bool \<Rightarrow> ConsoleInfo \<Rightarrow> bool \<Rightarrow> (int \<Rightarrow> int \<Rightarrow> CHAR_INFO) \<Rightarrow> VtState \<Rightarrow> bool" where
  "screenShows W withColor info visible shown v \<longleftrightarrow> (\<exists>msk top stop attr.
     msk OR COMMON_LVB_REVERSE_VIDEO OR COMMON_LVB_UNDERSCORE = 0xFFFF \<and>
     top \<le> Top (srWindow info) \<and> Top (srWindow info) \<le> stop \<and>
     (\<forall>x y. 0 \<le> x \<and> x < W \<and> Top (srWindow info) \<le> y \<and> y < stop \<longrightarrow>
        VtScreen.cellAt v x (y - top) = Some (shownCell withColor (masked msk (shown x y)))) \<and>
     (\<forall>x y. 0 \<le> x \<and> x < W \<and> stop \<le> y \<and> y \<le> Bottom (srWindow info) \<longrightarrow>
        masked msk (shown x y) = blankChar attr) \<and>
     (if shownCursor info visible
      then vtX v = X (dwCursorPosition info) \<and> vtY v = Y (dwCursorPosition info) - top
      else \<not> vtVisible v))"

lemma showsLines_line:
  assumes "showsLines wc W H d cs" and "docLines d l = Some data"
  shows "l \<le> docMax d"
    and "firstShown H d \<le> l \<Longrightarrow> 0 \<le> x \<Longrightarrow> x < W \<Longrightarrow>
      cs ! rowAt W (l - firstShown H d) x = shownCell wc (data ! nat x)"
  using assms by (simp_all add: showsLines_def)

lemma step_shows:
  assumes info: "scrollInfo info" and H: "H = Bottom (srWindow info) - Top (srWindow info) + 1"
    and W: "W = X (dwSize info)"
    and m: "mirrored W H d s1" and first: "m_scrapedLineCount s1 \<le> Top (srWindow info) + m_scrolledCount s1"
    and o: "outcomeShows info visible (scrapeRow msk shown W) W s1 s' cells k stop t' attr"
    and msk: "msk OR COMMON_LVB_REVERSE_VIDEO OR COMMON_LVB_UNDERSCORE = 0xFFFF"
    and i: "inStep wc W H lost (scrapedDocument info visible cells k stop s1 d) (scTerminal s') sc"
    and v: "sees W H v sc" and np: "\<not> plainMode (scTerminal s1)" and small: "H < 1000"
  shows "screenShows W wc info visible shown v"
proof -
  let ?d = "scrapedDocument info visible cells k stop s1 d"
  define top where "top = firstShown H ?d - m_scrolledCount s1"
  have mir: "\<forall>l. m_scrapedLineCount s1 \<le> l \<and> l < stop \<longrightarrow>
      (\<exists>data. docLines ?d l = Some data \<and> nat W \<le> length data \<and>
         take (nat W) data = scrapeRow msk shown W (l - m_scrolledCount s1))" "mirrored W H ?d s'"
    using mirrored_outcome [OF info H m first o _ small] by simp_all
  have f: "firstVirtLine (srWindow info) s1 = m_scrapedLineCount s1"
    using first by (simp add: firstVirtLine_def)
  have k: "Top (srWindow info) + m_scrolledCount s1 \<le> stop" "m_scrapedLineCount s' = Top (srWindow info) + m_scrolledCount s1"
    and sends: "foreach (\<lambda>l. sendLine l (cells (l - m_scrolledCount s1)) W
        (if l = cursorLineOf info visible s1 then cursorColumnOf info visible else - 1)) [k..stop - 1]
      (startTerminal info visible s1) = Some t'"
    and fin: "scTerminal s' = (if shownCursor info visible
      then showTerminalCursor (cursorColumnOf info visible) (cursorLineOf info visible s1) t' else t')"
    and below: "\<forall>y. stop - m_scrolledCount s1 \<le> y \<and> y \<le> Bottom (srWindow info) \<longrightarrow>
      scrapeRow msk shown W y = replicate (nat W) (blankChar attr)"
    using o unfolding outcomeShows_def Let_def f by blast+
  have ok: "screenOk W H sc" using i by (simp add: inStep_def showsDocument_def)
  have "VtScreen.cellAt v x (y - top) = Some (shownCell wc (masked msk (shown x y)))"
    if x: "0 \<le> x" "x < W" and y: "Top (srWindow info) \<le> y" "y < stop - m_scrolledCount s1" for x y
  proof -
    let ?l = "y + m_scrolledCount s1"
    obtain data where data: "docLines ?d ?l = Some data" "nat W \<le> length data"
        "take (nat W) data = scrapeRow msk shown W y"
      using mir(1) [rule_format, of ?l] y first by auto
    have fs: "firstShown H ?d \<le> ?l" using mirrored_first [OF mir(2)] k(2) y(1) by linarith
    have lines: "showsLines wc W H ?d (scCells sc)" using i by (simp add: inStep_def showsDocument_def)
    have e: "y - top = ?l - firstShown H ?d" by (simp add: top_def)
    have r: "?l \<le> docMax ?d" "scCells sc ! rowAt W (y - top) x = shownCell wc (data ! nat x)"
      using showsLines_line [OF lines data(1)] fs x unfolding e by simp_all
    have "take (nat W) data ! nat x = data ! nat x" using x by simp
    then have "data ! nat x = scrapeRow msk shown W y ! nat x" unfolding data(3) by (rule sym)
    moreover have "y - top < H" using r(1) by (simp add: top_def firstShown_def)
    moreover have "0 \<le> y - top" using fs by (simp add: top_def)
    ultimately show ?thesis using sees_cell [OF v ok x, of "y - top"] r(2) x by simp
  qed
  moreover have "masked msk (shown x y) = blankChar attr"
    if "0 \<le> x" "x < W" "stop - m_scrolledCount s1 \<le> y" "y \<le> Bottom (srWindow info)" for x y
  proof -
    have "scrapeRow msk shown W y ! nat x = replicate (nat W) (blankChar attr) ! nat x" using below that by simp
    then show ?thesis using that by simp
  qed
  moreover have "if shownCursor info visible
      then vtX v = X (dwCursorPosition info) \<and> vtY v = Y (dwCursorPosition info) - top else \<not> vtVisible v"
  proof (cases "shownCursor info visible")
    case True
    have "\<not> plainMode t'" using i fin True by (simp add: inStep_def showTerminalCursor_def Let_def split: if_splits)
    then have "remoteColumn (scTerminal s') = X (dwCursorPosition info)"
        "remoteLine (scTerminal s') = Y (dwCursorPosition info) + m_scrolledCount s1"
      using show_cursor_at fin True by (simp_all add: cursorColumnOf_def cursorLineOf_def)
    moreover have "X (dwCursorPosition info) < W" using info by (simp add: W scrollInfo_def infoOk_def)
    ultimately show ?thesis
      using i v True by (simp add: inStep_def showsDocument_def sees_def top_def)
  next
    case False
    have "cursorHidden (startTerminal info visible s1)" "\<not> plainMode (startTerminal info visible s1)"
      using False np by (simp_all add: startTerminal_def hideTerminalCursor_def outWrite_def)
    then have "cursorHidden t'" by (rule sendLines_hidden [OF sends])
    then show ?thesis using False fin i v by (simp add: inStep_def sees_def)
  qed
  moreover have "top \<le> Top (srWindow info)" using mirrored_first [OF mir(2)] k(2) by (simp add: top_def)
  moreover have "Top (srWindow info) \<le> stop - m_scrolledCount s1" using k(1) by simp
  ultimately show ?thesis
    unfolding screenShows_def using msk
    by (intro exI [of _ msk] exI [of _ top] exI [of _ "stop - m_scrolledCount s1"] exI [of _ attr]) auto
qed

text \<open>
  C5. The client sees what the console shows. Let the client's terminal mirror a scraper in
  scrolling mode (\<open>mirrors\<close>: a new terminal and a new scraper do). A scrape of the frozen console
  succeeds whatever the console holds in cells of one column, and the terminal accepts all bytes
  that it sends. Afterwards each line of the window, from its top down to the last line that is
  not blank, is in its row on the client's screen, cell by cell, with its characters and its
  colours (but for reverse video and underscore on consoles without them), below it the window is
  blank in one colour, and the cursor is on the same cell, or hidden when the console hides it. The
  terminal mirrors the scraper again, so this goes on for every further scrape, wherever the
  console has scrolled, been cleared or been moved to meanwhile.
\<close>

theorem scrape_reaches_screen:
  assumes env: "consoleOk env" and info: "scrollInfo info" and inv: "scInv s"
    and still: "unchanging env content (m_console s)"
    and shown: "\<forall>x y. 0 \<le> x \<and> x < X (dwSize info) \<and> 0 \<le> y \<and> y < BUFFER_LINE_COUNT \<longrightarrow> content x y = Some (shown x y)"
    and simple: "\<forall>x y. simpleCell (shown x y)"
    and W: "W = X (dwSize info)" "W < 1000" and H: "H = Bottom (srWindow info) - Top (srWindow info) + 1" "H < 1000"
    and top: "scrapedToWindow (Top (srWindow info)) s" and v: "mirrors W H withColor v s"
  shows "\<exists>s' new v'. scrollingScrapeOutput env h info visible False s = Some (True, s') \<and>
    sent (scTerminal s') = sent (scTerminal s) @ new \<and> vtFeed new v = Some v' \<and> finished v' \<and>
    screenShows W withColor info visible shown v' \<and>
    mirrors W H withColor v' s' \<and> scInv s' \<and> (\<forall>n. scrapedToWindow n s')"
proof -
  have w: "1 \<le> W" "min (X (dwSize info)) MAX_CONSOLE_WIDTH = W" "1 \<le> H" "0 \<le> Top (srWindow info)"
    using info W H(1) scrollInfo_bounds [OF info] by (simp_all add: scrollInfo_def infoOk_def MAX_CONSOLE_WIDTH_def)
  obtain s1 s' msk cells k stop t' attr where run: "scrollingScrapeOutput env h info visible False s = Some (True, s')"
      "scInv s'"
    and s1: "keepsLines s s1 \<or> startsOver (Top (srWindow info)) s s1"
      "m_scrapedLineCount s1 \<le> Top (srWindow info) + m_scrolledCount s1"
    and msk: "msk OR COMMON_LVB_REVERSE_VIDEO OR COMMON_LVB_UNDERSCORE = 0xFFFF"
    and o: "outcomeShows info visible (scrapeRow msk shown W) W s1 s' cells k stop t' attr"
    using scrape_shows [OF env info inv still shown, of h visible] top unfolding scrapeShows_def Let_def w(2) by blast
  obtain lost d sc where sc: "sees W H v sc" "inStep withColor W H lost d (scTerminal s) sc" "mirrored W H d s"
    using v unfolding mirrors_def by blast
  obtain lost1 d1 where d1: "stepDraws withColor W H lost d (scTerminal s) lost1 d1 (scTerminal s1)" "mirrored W H d1 s1"
    using tracking_mirrored [OF s1(1) w(4, 3) sc(3)] by blast
  let ?d = "scrapedDocument info visible cells k stop s1 d1"
  have "termInv (scTerminal s)" "\<not> plainMode (scTerminal s)"
    using inv sc(2) by (simp_all add: scInv_def scCore_def inStep_def)
  then have t1: "termInv (scTerminal s1)" "\<not> plainMode (scTerminal s1)"
    using s1(1) by (auto simp: keepsLines_def startsOver_def resetTerminal_def Let_def termInv_def)
  have simpleRow: "list_all simpleCell (scrapeRow msk shown W y)" for y
    using simple by (simp add: scrapeRow_def list_all_iff simple_masked)
  obtain lost' where "stepDraws withColor W H lost1 d1 (scTerminal s1) lost' ?d (scTerminal s')"
    using scrape_step [OF info H(1) W(1) w(1) W(2) H(2) d1(2) s1(2) o _ simpleRow t1] by auto
  from stepDraws_trans [OF d1(1) this] obtain new sc' where
    sent: "sent (scTerminal s') = sent (scTerminal s) @ new" and
    sc': "draws W H new sc sc'" "inStep withColor W H lost' ?d (scTerminal s') sc'"
    using sc(2) unfolding stepDraws_def by blast
  obtain v' where v': "vtFeed new v = Some v'" "sees W H v' sc'"
    using sc'(1) sc(1) unfolding draws_def by blast
  have "mirrored W H ?d s'" using mirrored_outcome [OF info H(1) d1(2) s1(2) o _ H(2)] by simp
  then have "mirrors W H withColor v' s'" using v'(2) sc'(2) unfolding mirrors_def by blast
  moreover have "screenShows W withColor info visible shown v'"
    by (rule step_shows [OF info H(1) W(1) d1(2) s1(2) o msk sc'(2) v'(2) t1(2) H(2)])
  moreover have "finished v'" using v'(2) by (simp add: sees_def finished_def)
  moreover have "scrapedToWindow n s'" for n
    using o w(4) by (simp add: outcomeShows_def Let_def scrapedToWindow_def)
  ultimately show ?thesis using run sent v'(1) by blast
qed

section \<open>The start\<close>

lemma fresh_mirrors:
  assumes "newVtState W H = Some v" and "1 \<le> W" "W \<le> 160" "1 \<le> H" "H \<le> 60"
    and "scTerminal s = resetTerminal OmitClear n (newTerminal False withColor)"
    and "m_scrapedLineCount s = n" and "m_maxBufferedLine s = - 1" and "0 \<le> n"
  shows "mirrors W H withColor v s"
proof -
  obtain sc where "sees W H v sc" "inStep withColor W H False (emptyDocument n) (scTerminal s) sc"
    using fresh_inStep [OF assms(2-5), of withColor n] assms(1, 6) by auto
  moreover have "mirrored W H (emptyDocument n) s"
    using assms(4, 7-9) by (simp add: mirrored_def emptyDocument_def)
  ultimately show ?thesis unfolding mirrors_def by blast
qed

text \<open>
  A new scraper starts in step with a new terminal, and with its first window when the console's
  window was not below it before.
\<close>

lemma newScraper_mirrors:
  assumes run: "newScraper env h (newTerminal False withColor) sz con = Some s" and env: "consoleOk env"
    and "newVtState W H = Some v" and "1 \<le> W" "W \<le> 160" "1 \<le> H" "H \<le> 60"
  shows "mirrors W H withColor v s \<and> (m_scrapedLineCount s \<le> y \<longrightarrow> scrapedToWindow y s)"
proof -
  define s0 where "s0 = \<lparr>m_console = con, scTerminal = newTerminal False withColor, m_syncRow = - 1, m_syncCounter = 0,
               m_directMode = False, m_ptySize = sz, m_scrapedLineCount = 0,
               m_scrolledCount = 0, m_maxBufferedLine = - 1, m_readBuffer = newLargeBuffer,
               m_bufferData = [], m_dirtyWindowTop = - 1, m_dirtyLineCount = 0\<rparr>"
  obtain info con1 where q: "queryInfo env h s0 = (info, s0\<lparr>m_console := con1\<rparr>)" "infoOk info \<or> info = zeroInfo"
    using queryInfo_ok [OF env, of h s0] by blast
  define n where "n = Top (srWindow info)"
  have pos: "0 \<le> n" using q(2) by (auto simp: n_def infoOk_def zeroInfo_def emptyRect_def)
  obtain con8 where "s = (resetConsoleTracking OmitClear n (s0\<lparr>m_console := con1\<rparr>))
      \<lparr>m_bufferData := replicate (nat BUFFER_LINE_COUNT) newConsoleLine, m_console := con8\<rparr>"
    using run unfolding newScraper_def s0_def [symmetric] Let_def q(1) prod.case n_def [symmetric]
    by (auto simp: bind_eq_Some case_prod_beta)
  then have s: "scTerminal s = resetTerminal OmitClear n (newTerminal False withColor)"
      "m_scrapedLineCount s = n" "m_maxBufferedLine s = - 1" "m_dirtyWindowTop s = - 1" "m_scrolledCount s = 0"
    by (simp_all add: resetConsoleTracking_def s0_def)
  show ?thesis
    using fresh_mirrors [OF assms(3-7) s(1-3) pos] s(2, 4, 5) by (simp add: scrapedToWindow_def)
qed

theorem scrape_reaches_screen_witness:
  "\<exists>v s' new v'. newVtState 80 25 = Some v \<and>
     scrollingScrapeOutput sampleConsole 1
       \<lparr>dwSize = mkCoord 80 3000, srWindow = \<lparr>Left = 0, Top = 0, Right = 79, Bottom = 24\<rparr>,
        dwCursorPosition = mkCoord 2 3\<rparr> True False sampleScraper = Some (True, s') \<and>
     sent (scTerminal s') = sent (scTerminal sampleScraper) @ new \<and> vtFeed new v = Some v' \<and>
     screenShows 80 True
       \<lparr>dwSize = mkCoord 80 3000, srWindow = \<lparr>Left = 0, Top = 0, Right = 79, Bottom = 24\<rparr>,
        dwCursorPosition = mkCoord 2 3\<rparr> True sampleCell v'"
proof -
  let ?info = "\<lparr>dwSize = mkCoord 80 3000, srWindow = \<lparr>Left = 0, Top = 0, Right = 79, Bottom = 24\<rparr>,
        dwCursorPosition = mkCoord 2 3\<rparr>"
  let ?content = "\<lambda>x y. if 0 \<le> x \<and> x < 80 \<and> 0 \<le> y \<and> y < 3000 then Some (sampleCell x y) else None"
  obtain v where v: "newVtState 80 25 = Some v" using newVtState_sees [of 80 25] by auto
  have m: "mirrors 80 25 True v sampleScraper"
    by (rule fresh_mirrors [OF v, of sampleScraper 0])
      (simp_all add: sampleScraper_def resetTerminal_fresh)
  have digits: "list_all (\<lambda>n. simpleCell \<lparr>Attributes = 7, cellChar = word_of_int (48 + n)\<rparr>) [0..9]" by code_simp
  have simple: "simpleCell (sampleCell x y)" for x y
  proof -
    have "y mod 10 \<in> set [0..9]" using pos_mod_bound [of 10 y] by simp
    then show ?thesis using digits by (simp add: sampleCell_def list_all_iff)
  qed
  have "scrollInfo ?info" by (simp add: scrollInfo_def infoOk_def mkCoord_def BUFFER_LINE_COUNT_def)
  moreover have "unchanging sampleConsole ?content (m_console sampleScraper)"
    by (simp add: unchanging_def sampleConsole_def)
  moreover have "scrapedToWindow 0 sampleScraper" by (simp add: scrapedToWindow_def sampleScraper_def)
  ultimately obtain s' new v' where
    "scrollingScrapeOutput sampleConsole 1 ?info True False sampleScraper = Some (True, s')"
    "sent (scTerminal s') = sent (scTerminal sampleScraper) @ new" "vtFeed new v = Some v'"
    "screenShows 80 True ?info True sampleCell v'"
    using scrape_reaches_screen [of sampleConsole ?info sampleScraper ?content sampleCell 80 25 True v 1 True]
      sampleConsole_ok sampleScraper_inv simple m
    by (auto simp: mkCoord_def BUFFER_LINE_COUNT_def)
  then show ?thesis using v by blast
qed

end
