(* ===== verification/Spec2Isabelle.thy ===== *)
theory Spec2Isabelle
  imports VTPrelude UnicodeEncoding InputMap WinTypes DefaultInputMap Geometry ScanMatch
    ConsoleInputReencoding ConsoleInput KeyPress ConsoleLine Terminal Protocol
    NamedPipe AgentControl ControlChannel AgentLoop AgentLife Client ClientApi ClientLaws
    Console ConsoleFont LargeConsoleRead Scraper ScraperLaws ScraperSafety ScraperOutput AgentConsole AgentOutput EventLoop Startup Diagnostics InputDump
    VtScreen TerminalView ScreenFidelity
begin

text \<open>
  VT7Pty runs Windows console programs for a terminal emulator. This library models its native
  backend and states what makes it correct.

  \<^bold>\<open>The program.\<close> The client library (\<open>VT7Pty.dll\<close>, src/libvt7pty) starts an agent process
  (\<open>VT7Pty-Agent.exe\<close>, src/agent) and talks to it over a control pipe, in packets of the tagged
  format of src/shared/Buffer.h. The agent owns a hidden console in which it starts the child
  program. Bytes from the terminal arrive on the input pipe CONIN; the agent scans them into keys
  and mouse events and writes these to the console as input records. At each poll the agent reads
  the screen buffers of the console and sends the lines that changed, as control sequences and
  UTF-8 text, to the output pipes CONOUT and CONERR. After the child has exited the agent scrapes
  once more, closes its output pipes when everything was delivered, and ends. Processes of
  the product send diagnostic records to a server (tools/debug).

  \<^bold>\<open>Conventions.\<close> A struct is a record with the names of its fields, an enumeration a datatype, a
  function of the sources a definition of its name; a method takes the object's state and
  returns it. Machine integers whose wrap-around or bits matter are words (\<open>u8\<close> to \<open>u64\<close>); a \<open>SHORT\<close> or an
  \<open>int\<close> that the code narrows with \<open>checkedNarrow\<close> is an integer with the check written out.
  A failed \<open>ASSERT\<close>, \<open>abort\<close> or an access outside of an array is \<^term>\<open>None\<close>; a C++ exception is
  \<^term>\<open>Inl\<close>. Windows is a parameter: an environment record of functions, or the list of the
  answers to the calls in their order. No law is assumed of such an answer unless a theorem
  names it as a hypothesis. Nothing is assumed of the programs in the console: the
  answer to a query is a function of the whole history of calls.

  \<^bold>\<open>Theories\<close>, in the order in which they build on each other:
  \<^item> \<open>VTPrelude\<close>: machine types, failures, \<open>checkedNarrow\<close> (shared/Narrow.h, Assert.h), loops with
    failures, numerals, the interface \<open>keyed_store\<close>. \<open>WinTypes\<close>: constants and structures of the SDK.
  \<^item> \<open>UnicodeEncoding\<close> (agent/UnicodeEncoding.h): the UTF-8 and UTF-16 codecs and their round trips.
  \<^item> \<open>InputMap\<close> (agent/InputMap.cc) and \<open>DefaultInputMap\<close> (agent/DefaultInputMap.cc): the trie of key
    encodings as an implementation of a map (\<open>keyed_store\<close>, \<open>longest_match\<close>), and the default table,
    which is a prefix code.
  \<^item> \<open>ScanMatch\<close>, \<open>ConsoleInputReencoding\<close>, \<open>ConsoleInput\<close>, \<open>KeyPress\<close> (agent/ConsoleInput.cc,
    ConsoleInputReencoding.cc): the matchers of replies and mouse reports, the scanner, the mouse and
    key events. The locale \<open>stream_scanner\<close> gives from the laws of one scanning step that the
    loop ends and that the cutting of the input into batches makes no difference.
  \<^item> \<open>Geometry\<close> (agent/Coord.h, SmallRect.h), \<open>ConsoleLine\<close> (agent/ConsoleLine.cc), \<open>Terminal\<close>
    (agent/Terminal.cc): cells and rectangles, the change detection of a line, and the output with its
    tokens.
  \<^item> \<open>Console\<close> (agent/Win32Console.cc, Win32ConsoleBuffer.cc), \<open>ConsoleFont\<close>, \<open>LargeConsoleRead\<close>,
    \<open>Scraper\<close> (the agent files of these names): the console calls and the scraper. \<open>ScraperLaws\<close>,
    \<open>ScraperSafety\<close>, \<open>ScraperOutput\<close>: that it never fails, what a scrape sends, and the one way in
    which a resize fails.
  \<^item> \<open>Protocol\<close> (shared/Buffer.cc, Protocol.h): the codec, one locale \<open>codec\<close> with an interpretation for
    every packed type. \<open>NamedPipe\<close> (agent/NamedPipe.cc): the pipes with their workers, and the
    interface \<open>out_channel\<close>.
  \<^item> \<open>AgentControl\<close>, \<open>ControlChannel\<close>, \<open>AgentLoop\<close>, \<open>AgentConsole\<close>, \<open>AgentLife\<close>, \<open>AgentOutput\<close>
    (agent/Agent.cc, EventLoop.cc): the handlers of the control packets, the poll, the shutdown, one
    turn of the loop over all pipes, the reachable states, the life cycle of the child as a
    refinement of an abstract machine, and what the output pipes carry. \<open>EventLoop\<close>: the clock and the
    wait around the turns.
  \<^item> \<open>Client\<close>, \<open>ClientApi\<close>, \<open>ClientLaws\<close> (libvt7pty/vt7pty.cc, AgentLocation.cc): the remote calls with their
    timeouts and errors, the opening of a session, and laws that run a call through the
    model of the agent.
  \<^item> \<open>Startup\<close> (shared/GenRandom.cc, agent/main.cc): pipe names, and the command line that the client
    writes and the agent reads. \<open>Diagnostics\<close> (shared/DebugClient.cc, tools/debug/DebugServer.cc): trace
    records and their server. \<open>InputDump\<close> (agent/DebugShowInput.cc): the texts of keys and mouse events
    and the dump of an input map.
  \<^item> \<open>VtScreen\<close>, \<open>TerminalView\<close> (tests/fidelity/VtState.h): the terminal that the tests of the
    repository use as their reference, as the meaning of the output: what a session of \<open>Terminal\<close>
    sends shows the lines of the document on the screen. \<open>ScreenFidelity\<close>: the scraper, \<open>Terminal\<close>
    and that terminal together; after each scrape in scrolling mode the client sees the console's window.

  \<^bold>\<open>What the lemmas show.\<close> Each component has an invariant of its state that every operation keeps
  (\<open>map_inv\<close>, \<open>input_inv\<close>, \<open>termInv\<close>, \<open>lineInv\<close>, \<open>pipeInv\<close>, \<open>scInv\<close>, \<open>pipesOk\<close> and \<open>childOk\<close>), lemmas that give the result of each operation on each branch, and
  properties that a client can rely on: round trips of the codecs, exact conditions for errors,
  termination of the loops. The properties that span components are in the
  last theory that they need: input keys from the table to the console records (\<open>KeyPress\<close>),
  console cells to bytes (\<open>ScraperSafety\<close>, \<open>AgentOutput\<close>) and bytes to what is seen
  (\<open>TerminalView\<close>, \<open>ScreenFidelity\<close>), a call from the client to the
  agent and back (\<open>ClientLaws\<close>), the command line from the client to the agent (\<open>Startup\<close>). The
  hypotheses on answers of Windows are \<open>consoleOk\<close> and \<open>infoOk\<close> (sizes of a console), \<open>answersOk\<close> and
  \<open>roundOk\<close> (results of the calls of one turn of the loop).

  \<^bold>\<open>Bounds and fuel.\<close> Loops of the code are total functions with a measure, or consume one
  answer of Windows per round: \<open>runLoop\<close>, the pipe workers, the calls of the client and the server
  loop take a list of answers and stop in a state that waits when the list is used up, so a
  statement for every list covers every finite run. No other fuel is used. The bounds of the
  code are kept: packets of 1 MiB, process lists below \<open>2 ^ 32\<close>, environment blocks of 32767 units,
  3000 remembered lines, trace records of 4096 bytes. Counters that cannot overflow in practice
  (64-bit line numbers) are integers.

  \<^bold>\<open>Not modelled.\<close> The mechanics of handles and memory (OwnedHandle, OsModule, SimplePool, Exception
  classes other than their messages), the calls of the security and version interfaces of Windows
  (WindowsSecurity, WindowsVersion: their results are parameters), version resources, the C header of the API (its declarations
  are modelled by their definitions), developer tools and tests (other than those named above),
  build files. The title of the console is converted by \<open>WideCharToMultiByte\<close>, a parameter, and is the only
  part of the output that can hold arbitrary bytes (lemma \<open>title_sent_verbatim\<close>). Concurrent calls
  on one session from several threads, which the client library serialises by a mutex, are not
  modelled, and neither is the passage of time other than by the readings of the clock.
\<close>

end
